(* ===== verification/NodeX_Prelude.thy ===== *)
theory NodeX_Prelude
  imports Main "HOL-Library.Word" "HOL-Library.List_Lexorder"
begin

text \<open>
  Shared vocabulary of the development: the machine integers of the Rust code
  as words, byte strings, big-endian encodings and their round trips, results
  with errors, panics, and the generic list and association-list operations
  (\<open>iter().position\<close>, \<open>Vec::remove\<close>, \<open>HashMap\<close> with a fixed iteration order)
  that several components use.
\<close>

unbundle bit_operations_syntax

named_theorems codec_simps \<open>unfolding of encoders and decoders\<close>
named_theorems inv_intros \<open>preservation lemmas of component invariants\<close>

section \<open>Machine integers and byte strings\<close>

type_synonym u8 = "8 word"
type_synonym u16 = "16 word"
type_synonym u32 = "32 word"
type_synonym u64 = "64 word"
type_synonym bytes = "u8 list"

section \<open>Big-endian encodings: \<open>to_be_bytes\<close> and \<open>from_be_bytes\<close>\<close>

text \<open>\<open>be_bytes n w\<close> is the list of the \<open>n\<close> low bytes of \<open>w\<close>, the most
  significant first.\<close>

definition be_bytes :: "nat \<Rightarrow> 'a::len word \<Rightarrow> bytes" where
  "be_bytes n w = map (\<lambda>i. ucast (drop_bit (8 * i) w)) (rev [0..<n])"

definition of_be :: "bytes \<Rightarrow> 'a::len word" where
  "of_be bs = foldl (\<lambda>a b. push_bit 8 a OR ucast b) 0 bs"

lemma length_be_bytes [simp]: "length (be_bytes n w) = n"
  by (simp add: be_bytes_def)

lemma be_bytes_0 [simp]: "be_bytes 0 w = []"
  by (simp add: be_bytes_def)

lemma be_bytes_Suc: "be_bytes (Suc n) w = ucast (drop_bit (8 * n) w) # be_bytes n w"
  by (simp add: be_bytes_def)

lemma of_be_Nil [simp]: "of_be [] = 0"
  by (simp add: of_be_def)

lemma of_be_snoc: "of_be (bs @ [b]) = push_bit 8 (of_be bs) OR ucast b"
  by (simp add: of_be_def)

lemma be_bytes_snoc:
  fixes w :: "'a::len word"
  shows "be_bytes (Suc n) w = be_bytes n (drop_bit 8 w) @ [ucast w]"
proof (induction n)
  case (Suc n)
  have "be_bytes (Suc (Suc n)) w = ucast (drop_bit (8 * Suc n) w) # be_bytes (Suc n) w"
    by (rule be_bytes_Suc)
  also have "\<dots> = ucast (drop_bit (8 * n) (drop_bit 8 w)) # be_bytes n (drop_bit 8 w) @ [ucast w]"
    using Suc by (simp add: drop_bit_drop_bit add.commute)
  finally show ?case by (simp add: be_bytes_Suc)
qed (simp add: be_bytes_Suc)

lemma word_split_low_byte:
  fixes w :: "'a::len word"
  shows "push_bit 8 (drop_bit 8 w) OR ucast (ucast w :: u8) = w"
  by (rule bit_word_eqI) (auto simp: bit_simps)

lemma drop_bit_range:
  fixes w :: "'a::len word"
  assumes "drop_bit (8 * Suc n) w = 0"
  shows "drop_bit (8 * n) (drop_bit 8 w) = 0"
  using assms by (simp add: drop_bit_drop_bit add.commute)

lemma of_be_be_bytes_gen:
  fixes w :: "'a::len word"
  assumes "drop_bit (8 * n) w = 0"
  shows "of_be (be_bytes n w) = w"
  using assms
proof (induction n arbitrary: w)
  case (Suc n)
  then show ?case
    using drop_bit_range [OF Suc.prems]
    by (simp add: be_bytes_snoc of_be_snoc word_split_low_byte)
qed simp

lemma drop_bit_len_le:
  fixes w :: "'a::len word"
  shows "LENGTH('a) \<le> k \<Longrightarrow> drop_bit k w = 0"
  by (rule bit_word_eqI) (auto simp: bit_simps dest: bit_imp_le_length)

lemma of_be_be_bytes:
  fixes w :: "'a::len word"
  assumes "LENGTH('a) \<le> 8 * n"
  shows "of_be (be_bytes n w) = w"
  using assms by (intro of_be_be_bytes_gen drop_bit_len_le)

lemma of_be_be_bytes_u16 [simp]: "of_be (be_bytes 2 (w :: u16)) = w"
  by (rule of_be_be_bytes) simp

lemma of_be_be_bytes_u32 [simp]: "of_be (be_bytes 4 (w :: u32)) = w"
  by (rule of_be_be_bytes) simp

lemma of_be_be_bytes_u64 [simp]: "of_be (be_bytes 8 (w :: u64)) = w"
  by (rule of_be_be_bytes) simp

lemma of_be_be_bytes_128 [simp]: "of_be (be_bytes 16 (w :: 128 word)) = w"
  by (rule of_be_be_bytes) simp

lemma be_bytes_of_be:
  assumes "8 * length bs \<le> LENGTH('a::len)"
  shows "be_bytes (length bs) (of_be bs :: 'a word) = bs"
  using assms
proof (induction bs rule: rev_induct)
  case (snoc b bs)
  let ?v = "of_be bs :: 'a word"
  have len: "8 * length bs + 8 \<le> LENGTH('a)" using snoc.prems by simp
  have hi: "be_bytes (length bs) (drop_bit 8 (push_bit 8 ?v OR ucast b)) = be_bytes (length bs) ?v"
    unfolding be_bytes_def
  proof (rule map_cong [OF refl])
    fix i assume "i \<in> set (rev [0..<length bs])"
    then have "i < length bs" by simp
    then have "8 * i + 16 \<le> LENGTH('a)" using len by simp
    then show "(ucast (drop_bit (8 * i) (drop_bit 8 (push_bit 8 ?v OR ucast b))) :: u8)
        = ucast (drop_bit (8 * i) ?v)"
      by (intro bit_word_eqI) (auto simp: bit_simps dest: bit_imp_le_length)
  qed
  have lo: "(ucast (push_bit 8 ?v OR ucast b :: 'a word) :: u8) = b"
    using len by (intro bit_word_eqI) (auto simp: bit_simps)
  show ?case
    using snoc hi lo by (simp add: be_bytes_snoc of_be_snoc)
qed simp

lemma be_bytes_inj:
  fixes v w :: "'a::len word"
  assumes "LENGTH('a) \<le> 8 * n"
  shows "be_bytes n v = be_bytes n w \<longleftrightarrow> v = w"
  using of_be_be_bytes [OF assms, of v] of_be_be_bytes [OF assms, of w] by metis

section \<open>Results, panics\<close>

text \<open>\<open>Result<T, E>\<close> is a sum: \<open>Inl\<close> the error, \<open>Inr\<close> the value. \<open>res_bind\<close> is the
  operator \<open>?\<close>; \<open>res_map\<close> is a loop that pushes each converted element and
  returns at the first error.\<close>

abbreviation Err :: "'e \<Rightarrow> 'e + 'a" where "Err \<equiv> Inl"
abbreviation Ok :: "'a \<Rightarrow> 'e + 'a" where "Ok \<equiv> Inr"

definition res_bind :: "'e + 'a \<Rightarrow> ('a \<Rightarrow> 'e + 'b) \<Rightarrow> 'e + 'b" where
  "res_bind r f = (case r of Inl e \<Rightarrow> Inl e | Inr x \<Rightarrow> f x)"

lemma res_bind_simps [simp]:
  "res_bind (Inl e) f = Inl e"
  "res_bind (Inr x) f = f x"
  by (simp_all add: res_bind_def)

lemma res_bind_Inr_iff: "res_bind r f = Inr y \<longleftrightarrow> (\<exists>x. r = Inr x \<and> f x = Inr y)"
  by (cases r) simp_all

fun res_map :: "('a \<Rightarrow> 'e + 'b) \<Rightarrow> 'a list \<Rightarrow> 'e + 'b list" where
  "res_map f [] = Inr []"
| "res_map f (x # xs) = (case f x of
      Inl e \<Rightarrow> Inl e
    | Inr y \<Rightarrow> (case res_map f xs of Inl e \<Rightarrow> Inl e | Inr ys \<Rightarrow> Inr (y # ys)))"

lemma res_map_Inr_iff:
  "res_map f xs = Inr ys \<longleftrightarrow> list_all2 (\<lambda>x y. f x = Inr y) xs ys"
proof (induction xs arbitrary: ys)
  case (Cons x xs)
  show ?case
  proof (cases "f x")
    case (Inr y)
    then show ?thesis
      by (cases "res_map f xs"; cases ys) (use Cons.IH in \<open>fastforce simp: list_all2_Cons1\<close>)+
  qed (auto simp: list_all2_Cons1)
qed auto

lemma res_map_Inr_map:
  assumes "\<And>x. x \<in> set xs \<Longrightarrow> f x = Inr (g x)"
  shows "res_map f xs = Inr (map g xs)"
  using assms by (induction xs) simp_all

lemma res_map_Inl_iff: "(\<exists>e. res_map f xs = Inl e) \<longleftrightarrow> (\<exists>x \<in> set xs. \<exists>e. f x = Inl e)"
  by (induction xs) (auto split: sum.splits)

lemma res_map_all:
  assumes "res_map f xs = Inr ys" "\<And>x y. x \<in> set xs \<Longrightarrow> f x = Inr y \<Longrightarrow> P y"
  shows "\<forall>y \<in> set ys. P y"
proof
  fix y assume "y \<in> set ys"
  then obtain i where "i < length ys" "y = ys ! i" by (auto simp: in_set_conv_nth)
  moreover have "list_all2 (\<lambda>x y. f x = Inr y) xs ys"
    using assms(1) by (simp add: res_map_Inr_iff)
  ultimately have "xs ! i \<in> set xs" "f (xs ! i) = Inr y"
    by (auto simp: list_all2_conv_all_nth)
  then show "P y" by (rule assms(2))
qed

lemma res_map_length: "res_map f xs = Inr ys \<Longrightarrow> length ys = length xs"
  by (auto simp: res_map_Inr_iff list_all2_lengthD)

text \<open>A computation that may panic (a slice or index out of range).\<close>

datatype 'a exec = Done 'a | Panic

definition exec_bind :: "'a exec \<Rightarrow> ('a \<Rightarrow> 'b exec) \<Rightarrow> 'b exec" where
  "exec_bind m f = (case m of Done x \<Rightarrow> f x | Panic \<Rightarrow> Panic)"

lemma exec_bind_simps [simp]:
  "exec_bind (Done x) f = f x"
  "exec_bind Panic f = Panic"
  by (simp_all add: exec_bind_def)

section \<open>Vectors\<close>

text \<open>\<open>iter().position(p)\<close>, \<open>Vec::remove(i)\<close> (for an index in range).\<close>

fun find_index :: "('a \<Rightarrow> bool) \<Rightarrow> 'a list \<Rightarrow> nat option" where
  "find_index p [] = None"
| "find_index p (x # xs) = (if p x then Some 0 else map_option Suc (find_index p xs))"

definition remove_at :: "nat \<Rightarrow> 'a list \<Rightarrow> 'a list" where
  "remove_at i xs = take i xs @ drop (Suc i) xs"

lemma find_index_None: "find_index p xs = None \<longleftrightarrow> (\<forall>x \<in> set xs. \<not> p x)"
  by (induction xs) auto

lemma find_index_Some:
  "find_index p xs = Some i \<Longrightarrow> i < length xs \<and> p (xs ! i) \<and> (\<forall>j < i. \<not> p (xs ! j))"
  by (induction xs arbitrary: i) (auto split: if_splits simp: nth_Cons split: nat.splits)

lemma remove_at_split:
  assumes "i < length xs"
  shows "xs = take i xs @ xs ! i # drop (Suc i) xs"
  using assms by (rule id_take_nth_drop)

lemma length_remove_at [simp]: "i < length xs \<Longrightarrow> length (remove_at i xs) = length xs - 1"
  by (simp add: remove_at_def)

lemma remove_at_0 [simp]: "remove_at 0 xs = tl xs"
  by (cases xs) (simp_all add: remove_at_def)

lemma set_remove_at_subset: "set (remove_at i xs) \<subseteq> set xs"
  by (auto simp: remove_at_def dest: in_set_takeD in_set_dropD)

lemma map_remove_at: "map f (remove_at i xs) = remove_at i (map f xs)"
  by (simp add: remove_at_def take_map drop_map)

lemma distinct_remove_at:
  assumes "distinct xs" shows "distinct (remove_at i xs)"
proof (cases "i < length xs")
  case True
  then show ?thesis using assms id_take_nth_drop [OF True]
    by (metis distinct_append distinct.simps(2) remove_at_def disjoint_insert(2) list.simps(15) disjoint_iff)
next
  case False then show ?thesis using assms by (simp add: remove_at_def)
qed

lemma set_remove_at_distinct:
  assumes "distinct xs" "i < length xs"
  shows "set (remove_at i xs) = set xs - {xs ! i}"
proof -
  have "xs = take i xs @ xs ! i # drop (Suc i) xs" using assms(2) by (rule id_take_nth_drop)
  then have "set xs = set (remove_at i xs) \<union> {xs ! i}" and "xs ! i \<notin> set (remove_at i xs)"
    using assms(1) unfolding remove_at_def
    by (metis Un_insert_right list.simps(15) set_append sup_bot_right,
        metis Un_iff disjoint_iff distinct.simps(2) distinct_append list.set_intros(1) set_append)
  then show ?thesis by auto
qed

lemma sum_list_remove_at:
  fixes f :: "'a \<Rightarrow> nat"
  assumes "i < length xs"
  shows "sum_list (map f xs) = sum_list (map f (remove_at i xs)) + f (xs ! i)"
proof -
  have "sum_list (map f xs) = sum_list (map f (take i xs @ xs ! i # drop (Suc i) xs))"
    using id_take_nth_drop [OF assms] by simp
  then show ?thesis by (simp add: remove_at_def)
qed

section \<open>Hash maps with an explicit iteration order\<close>

text \<open>A \<open>HashMap\<close> whose length or iteration matters is an association list with
  distinct keys; the order of the list stands for the (unspecified) iteration
  order, so a fact proved for every list holds for every iteration order.
  \<open>map_put\<close> is \<open>insert\<close>: it replaces in place or adds a new entry.\<close>

fun map_put :: "'k \<Rightarrow> 'v \<Rightarrow> ('k \<times> 'v) list \<Rightarrow> ('k \<times> 'v) list" where
  "map_put k v [] = [(k, v)]"
| "map_put k v ((k', v') # m) = (if k' = k then (k, v) # m else (k', v') # map_put k v m)"

definition map_del :: "'k \<Rightarrow> ('k \<times> 'v) list \<Rightarrow> ('k \<times> 'v) list" where
  "map_del k m = filter (\<lambda>e. fst e \<noteq> k) m"

definition keys_distinct :: "('k \<times> 'v) list \<Rightarrow> bool" where
  "keys_distinct m = distinct (map fst m)"

lemma keys_distinct_Nil [simp]: "keys_distinct []"
  by (simp add: keys_distinct_def)

lemma map_of_put [simp]: "map_of (map_put k v m) = (map_of m)(k \<mapsto> v)"
  by (induction m) auto

lemma fst_set_map_put [simp]: "fst ` set (map_put k v m) = insert k (fst ` set m)"
  by (simp flip: dom_map_of_conv_image_fst)

lemma keys_distinct_put [simp, intro]: "keys_distinct m \<Longrightarrow> keys_distinct (map_put k v m)"
  unfolding keys_distinct_def
  by (induction m rule: map_put.induct) auto

lemma map_of_del: "map_of (map_del k m) = (map_of m)(k := None)"
  by (induction m) (auto simp: map_del_def)

lemma keys_distinct_filter [simp, intro]: "keys_distinct m \<Longrightarrow> keys_distinct (filter p m)"
  by (simp add: keys_distinct_def distinct_map_filter)

lemma keys_distinct_del [simp, intro]: "keys_distinct m \<Longrightarrow> keys_distinct (map_del k m)"
  by (simp add: map_del_def)

lemma map_del_absent: "map_of m k = None \<Longrightarrow> map_del k m = m"
  by (induction m) (auto simp: map_del_def split: if_splits)

lemma length_map_put:
  "length (map_put k v m) = (if map_of m k = None then Suc (length m) else length m)"
  by (induction m) auto

lemma length_map_del_le: "length (map_del k m) \<le> length m"
  by (simp add: map_del_def)

lemma length_map_del_present:
  assumes "keys_distinct m" "map_of m k \<noteq> None"
  shows "Suc (length (map_del k m)) = length m"
  using assms
proof (induction m)
  case (Cons e m)
  show ?case
  proof (cases "fst e = k")
    case True
    then have "map_of m k = None"
      using Cons.prems(1) by (auto simp: keys_distinct_def map_of_eq_None_iff)
    then show ?thesis using True map_del_absent [of m k] by (simp add: map_del_def)
  next
    case False
    then show ?thesis using Cons by (auto simp: keys_distinct_def map_del_def)
  qed
qed simp

lemma set_map_put_subset: "set (map_put k v m) \<subseteq> insert (k, v) (set m)"
  by (induction m rule: map_put.induct) (auto split: if_splits)

lemma in_set_map_put:
  "keys_distinct m \<Longrightarrow> e \<in> set (map_put k v m) \<longleftrightarrow> e = (k, v) \<or> (e \<in> set m \<and> fst e \<noteq> k)"
  unfolding keys_distinct_def
  by (induction m rule: map_put.induct) (auto simp: image_iff split: if_splits)

lemma sum_map_put:
  fixes f :: "'v \<Rightarrow> nat"
  assumes "keys_distinct m"
  shows "sum_list (map (f \<circ> snd) (map_put k v m)) + (case map_of m k of None \<Rightarrow> 0 | Some w \<Rightarrow> f w)
       = sum_list (map (f \<circ> snd) m) + f v"
  using assms
proof (induction m rule: map_put.induct)
  case (2 k v k' v' m)
  show ?case
  proof (cases "k' = k")
    case True
    then have "map_of m k = None"
      using "2.prems" by (simp add: keys_distinct_def map_of_eq_None_iff)
    then show ?thesis using True by simp
  next
    case False
    then show ?thesis using 2 by (simp add: keys_distinct_def)
  qed
qed simp

lemma sum_map_del:
  fixes f :: "'v \<Rightarrow> nat"
  assumes "keys_distinct m"
  shows "sum_list (map (f \<circ> snd) (map_del k m)) + (case map_of m k of None \<Rightarrow> 0 | Some w \<Rightarrow> f w)
       = sum_list (map (f \<circ> snd) m)"
  using assms
proof (induction m)
  case (Cons e m)
  then show ?case
    using map_del_absent [of m "fst e"]
    by (cases e) (auto simp: keys_distinct_def map_del_def map_of_eq_None_iff split: option.splits)
qed (simp add: map_del_def)

section \<open>Runs of an operation-driven component\<close>

text \<open>The shared contract of every component that is a state changed by
  operations: each operation allowed by the guard preserves the invariant, so every
  run of allowed operations does.\<close>

locale op_system =
  fixes step :: "'op \<Rightarrow> 's \<Rightarrow> 's"
    and ok :: "'op \<Rightarrow> bool"
    and inv :: "'s \<Rightarrow> bool"
  assumes step_inv: "ok a \<Longrightarrow> inv s \<Longrightarrow> inv (step a s)"
begin

lemma run_inv: "list_all ok ops \<Longrightarrow> inv s \<Longrightarrow> inv (fold step ops s)"
  by (induction ops arbitrary: s) (simp_all add: step_inv)

lemma run_inv_at: "list_all ok ops \<Longrightarrow> inv s \<Longrightarrow> inv (fold step (take n ops) s)"
  by (rule run_inv) (auto simp: list_all_iff dest: in_set_takeD)

end

text \<open>A codec: what the decoder returns on the output of the encoder. \<open>can\<close> holds of the values
  that can be sent, \<open>canon\<close> is what the other side sees.\<close>

locale codec =
  fixes enc :: "'a \<Rightarrow> 'w option"
    and dec :: "'w \<Rightarrow> 'b option"
    and can :: "'a \<Rightarrow> bool"
    and canon :: "'a \<Rightarrow> 'b"
  assumes enc_total: "can x \<Longrightarrow> \<exists>w. enc x = Some w"
    and dec_enc: "can x \<Longrightarrow> enc x = Some w \<Longrightarrow> dec w = Some (canon x)"
begin

lemma roundtrip: "can x \<Longrightarrow> Option.bind (enc x) dec = Some (canon x)"
  using enc_total dec_enc by fastforce

text \<open>Two values that travel as the same bytes are seen as the same value.\<close>

lemma enc_inj: "can x \<Longrightarrow> can y \<Longrightarrow> enc x = enc y \<Longrightarrow> canon x = canon y"
  using enc_total dec_enc by (metis option.inject)

end

end
