(* ===== verification/Core_Ffi.thy ===== *)
theory Core_Ffi
  imports NodeX_Prelude
begin

text \<open>
  The wire format of the RPC protocol, from \<open>core-ffi/src/lib.rs\<close>: the message
  structures, \<open>ffi_encode_message\<close> as a sequence of writes into the caller's
  buffer at a cursor, \<open>ffi_decode_message\<close> as a sequence of bounds-checked reads.
  Every slice access is a step that may panic. The pure specification is
  \<open>wire_bytes\<close>; the lemmas show that the writer produces exactly these bytes or
  returns -1, that the reader never panics and inverts the writer up to
  \<open>canon_message\<close>, and that what the reader accepts is canonical.
\<close>

section \<open>Constants and message structures\<close>

abbreviation ID_SIZE :: nat where "ID_SIZE \<equiv> 20"
abbreviation MAX_VALUE_SIZE :: nat where "MAX_VALUE_SIZE \<equiv> 65536"
abbreviation MAX_CONTACTS :: nat where "MAX_CONTACTS \<equiv> 20"

abbreviation MSG_PING :: u8 where "MSG_PING \<equiv> 1"
abbreviation MSG_PONG :: u8 where "MSG_PONG \<equiv> 2"
abbreviation MSG_STORE :: u8 where "MSG_STORE \<equiv> 3"
abbreviation MSG_STORE_ACK :: u8 where "MSG_STORE_ACK \<equiv> 4"
abbreviation MSG_FIND_NODE :: u8 where "MSG_FIND_NODE \<equiv> 5"
abbreviation MSG_FIND_NODE_RESP :: u8 where "MSG_FIND_NODE_RESP \<equiv> 6"
abbreviation MSG_FIND_VALUE :: u8 where "MSG_FIND_VALUE \<equiv> 7"
abbreviation MSG_FIND_VALUE_RESP :: u8 where "MSG_FIND_VALUE_RESP \<equiv> 8"

record c_contact =
  cc_id :: bytes
  cc_ip_type :: u8
  cc_ip :: bytes
  cc_port :: u16

definition c_contact_default :: c_contact where
  "c_contact_default = \<lparr>cc_id = replicate 20 0, cc_ip_type = 0, cc_ip = replicate 16 0, cc_port = 0\<rparr>"

record c_store_payload =
  st_key :: bytes
  st_value_len :: u32
  st_value :: bytes

record c_store_ack_payload =
  ack_status :: u8

record c_find_node_payload =
  fn_target_id :: bytes

record c_find_node_resp_payload =
  fnr_count :: u8
  fnr_contacts :: "c_contact list"

record c_find_value_payload =
  fv_key :: bytes

record c_find_value_resp_payload =
  fvr_has_value :: u8
  fvr_value_len :: u32
  fvr_value :: bytes
  fvr_count :: u8
  fvr_contacts :: "c_contact list"

definition c_find_value_resp_default :: c_find_value_resp_payload where
  "c_find_value_resp_default = \<lparr>fvr_has_value = 0, fvr_value_len = 0, fvr_value = [],
     fvr_count = 0, fvr_contacts = replicate MAX_CONTACTS c_contact_default\<rparr>"

datatype c_message_payload =
    PNone
  | PStore c_store_payload
  | PStoreAck c_store_ack_payload
  | PFindNode c_find_node_payload
  | PFindNodeResp c_find_node_resp_payload
  | PFindValue c_find_value_payload
  | PFindValueResp c_find_value_resp_payload

record c_message =
  cm_msg_type :: u8
  cm_request_id :: u64
  cm_sender_id :: bytes
  cm_payload :: c_message_payload

definition c_message_default :: c_message where
  "c_message_default = \<lparr>cm_msg_type = 0, cm_request_id = 0, cm_sender_id = replicate 20 0, cm_payload = PNone\<rparr>"

text \<open>The fixed sizes of the arrays of the structures.\<close>

definition c_contact_ok :: "c_contact \<Rightarrow> bool" where
  "c_contact_ok c \<longleftrightarrow> length (cc_id c) = 20 \<and> length (cc_ip c) = 16"

definition contacts_ok :: "c_contact list \<Rightarrow> bool" where
  "contacts_ok cs \<longleftrightarrow> length cs = MAX_CONTACTS \<and> list_all c_contact_ok cs"

fun payload_arrays_ok :: "c_message_payload \<Rightarrow> bool" where
  "payload_arrays_ok PNone = True"
| "payload_arrays_ok (PStore s) = (length (st_key s) = 20)"
| "payload_arrays_ok (PStoreAck a) = True"
| "payload_arrays_ok (PFindNode f) = (length (fn_target_id f) = 20)"
| "payload_arrays_ok (PFindNodeResp r) = contacts_ok (fnr_contacts r)"
| "payload_arrays_ok (PFindValue f) = (length (fv_key f) = 20)"
| "payload_arrays_ok (PFindValueResp r) = contacts_ok (fvr_contacts r)"

definition arrays_ok :: "c_message \<Rightarrow> bool" where
  "arrays_ok m \<longleftrightarrow> length (cm_sender_id m) = 20 \<and> payload_arrays_ok (cm_payload m)"

section \<open>Hashing, prefix length\<close>

text \<open>SHA-1 is a third-party crate: \<open>sha1\<close> is a parameter. \<open>copy_from_slice\<close> takes the
  first 20 bytes of the digest.\<close>

definition ffi_hash_node_id :: "(bytes \<Rightarrow> bytes) \<Rightarrow> bytes \<Rightarrow> bytes" where
  "ffi_hash_node_id sha1 input = take ID_SIZE (sha1 input)"

definition leading_zeros8 :: "u8 \<Rightarrow> nat" where
  "leading_zeros8 x = length (takeWhile (\<lambda>i. \<not> bit x i) (rev [0..<8]))"

text \<open>The loop over the byte positions, with its \<open>break\<close> at the first difference.\<close>

fun ffi_shared_prefix_bits :: "bytes \<Rightarrow> bytes \<Rightarrow> nat" where
  "ffi_shared_prefix_bits (a # as) (b # bs) =
     (if a XOR b = 0 then 8 + ffi_shared_prefix_bits as bs else leading_zeros8 (a XOR b))"
| "ffi_shared_prefix_bits _ _ = 0"

section \<open>Encoding: writes at a cursor\<close>

type_synonym wstate = "bytes \<times> nat"

definition put_slice :: "bytes \<Rightarrow> wstate \<Rightarrow> wstate exec" where
  "put_slice bs st = (case st of (buf, cursor) \<Rightarrow>
     if cursor + length bs \<le> length buf
     then Done (take cursor buf @ bs @ drop (cursor + length bs) buf, cursor + length bs)
     else Panic)"

definition put_c_contact :: "c_contact \<Rightarrow> wstate \<Rightarrow> wstate exec" where
  "put_c_contact c st =
     exec_bind (put_slice (cc_id c) st) (\<lambda>st.
     exec_bind (put_slice [cc_ip_type c] st) (\<lambda>st.
     exec_bind (put_slice (cc_ip c) st) (\<lambda>st.
     put_slice (be_bytes 2 (cc_port c)) st)))"

fun put_c_contacts :: "c_contact list \<Rightarrow> wstate \<Rightarrow> wstate exec" where
  "put_c_contacts [] st = Done st"
| "put_c_contacts (c # cs) st = exec_bind (put_c_contact c st) (put_c_contacts cs)"

type_synonym i32 = "32 word"

text \<open>The outcome of a branch: \<open>None\<close> an early \<open>return -1\<close> (with the buffer as it
  is), \<open>Some\<close> the cursor at the end. The result is the returned code and the
  buffer.\<close>

definition enc_fail :: "wstate \<Rightarrow> (i32 \<times> bytes) exec" where
  "enc_fail st = Done (- 1, fst st)"

definition enc_done :: "wstate \<Rightarrow> (i32 \<times> bytes) exec" where
  "enc_done st = Done (of_nat (snd st), fst st)"

definition enc_value_then ::
    "u32 \<Rightarrow> bytes \<Rightarrow> wstate \<Rightarrow> (wstate \<Rightarrow> (i32 \<times> bytes) exec) \<Rightarrow> (i32 \<times> bytes) exec" where
  "enc_value_then value_len val st k =
     (let vlen = min (min (unat value_len) (length val)) MAX_VALUE_SIZE in
      if length (fst st) < snd st + 4 + vlen then enc_fail st
      else exec_bind (put_slice (be_bytes 4 (of_nat vlen :: u32)) st) (\<lambda>st.
           exec_bind (put_slice (take vlen val) st) k))"

definition enc_contacts :: "u8 \<Rightarrow> c_contact list \<Rightarrow> wstate \<Rightarrow> (i32 \<times> bytes) exec" where
  "enc_contacts cnt cs st =
     (let count = min (unat cnt) MAX_CONTACTS;
          contact_size = ID_SIZE + 1 + 16 + 2 in
      if length (fst st) < snd st + 1 + count * contact_size then enc_fail st
      else exec_bind (put_slice [of_nat count] st) (\<lambda>st.
           exec_bind (put_c_contacts (take count cs) st) enc_done))"

fun enc_payload :: "u8 \<Rightarrow> c_message_payload \<Rightarrow> wstate \<Rightarrow> (i32 \<times> bytes) exec" where
  "enc_payload ty PNone st =
     (if ty \<noteq> MSG_PING \<and> ty \<noteq> MSG_PONG then enc_fail st else enc_done st)"
| "enc_payload ty (PStore s) st =
     (let vlen = min (min (unat (st_value_len s)) (length (st_value s))) MAX_VALUE_SIZE in
      if length (fst st) < snd st + ID_SIZE + 4 + vlen then enc_fail st
      else exec_bind (put_slice (st_key s) st) (\<lambda>st.
           exec_bind (put_slice (be_bytes 4 (of_nat vlen :: u32)) st) (\<lambda>st.
           exec_bind (put_slice (take vlen (st_value s)) st) enc_done)))"
| "enc_payload ty (PStoreAck a) st =
     (if length (fst st) < snd st + 1 then enc_fail st
      else exec_bind (put_slice [ack_status a] st) enc_done)"
| "enc_payload ty (PFindNode f) st =
     (if length (fst st) < snd st + ID_SIZE then enc_fail st
      else exec_bind (put_slice (fn_target_id f) st) enc_done)"
| "enc_payload ty (PFindNodeResp r) st = enc_contacts (fnr_count r) (fnr_contacts r) st"
| "enc_payload ty (PFindValue f) st =
     (if length (fst st) < snd st + ID_SIZE then enc_fail st
      else exec_bind (put_slice (fv_key f) st) enc_done)"
| "enc_payload ty (PFindValueResp r) st =
     (if length (fst st) < snd st + 1 then enc_fail st
      else exec_bind (put_slice [fvr_has_value r] st) (\<lambda>st.
        if fvr_has_value r \<noteq> 0
        then enc_value_then (fvr_value_len r) (fvr_value r) st (enc_contacts (fvr_count r) (fvr_contacts r))
        else enc_contacts (fvr_count r) (fvr_contacts r) st))"

definition ffi_encode_message :: "c_message \<Rightarrow> bytes \<Rightarrow> (i32 \<times> bytes) exec" where
  "ffi_encode_message m out_buf =
     (if length out_buf < 1 + 8 + ID_SIZE then enc_fail (out_buf, 0)
      else exec_bind (put_slice [cm_msg_type m] (out_buf, 0)) (\<lambda>st.
           exec_bind (put_slice (be_bytes 8 (cm_request_id m)) st) (\<lambda>st.
           exec_bind (put_slice (cm_sender_id m) st) (\<lambda>st.
           enc_payload (cm_msg_type m) (cm_payload m) st))))"

section \<open>Decoding: reads at a cursor\<close>

definition get_slice :: "nat \<Rightarrow> bytes \<Rightarrow> nat \<Rightarrow> bytes exec" where
  "get_slice n buf cursor =
     (if cursor + n \<le> length buf then Done (take n (drop cursor buf)) else Panic)"

definition get_byte :: "bytes \<Rightarrow> nat \<Rightarrow> u8 exec" where
  "get_byte buf cursor = (if cursor < length buf then Done (buf ! cursor) else Panic)"

definition get_c_contact :: "bytes \<Rightarrow> nat \<Rightarrow> (c_contact \<times> nat) exec" where
  "get_c_contact buf cursor =
     exec_bind (get_slice ID_SIZE buf cursor) (\<lambda>i.
     exec_bind (get_byte buf (cursor + ID_SIZE)) (\<lambda>t.
     exec_bind (get_slice 16 buf (cursor + ID_SIZE + 1)) (\<lambda>a.
     exec_bind (get_slice 2 buf (cursor + ID_SIZE + 1 + 16)) (\<lambda>p.
     Done (\<lparr>cc_id = i, cc_ip_type = t, cc_ip = a, cc_port = of_be p\<rparr>,
           cursor + ID_SIZE + 1 + 16 + 2)))))"

fun get_c_contacts :: "nat \<Rightarrow> bytes \<Rightarrow> nat \<Rightarrow> (c_contact list \<times> nat) exec" where
  "get_c_contacts 0 buf cursor = Done ([], cursor)"
| "get_c_contacts (Suc n) buf cursor =
     exec_bind (get_c_contact buf cursor) (\<lambda>(c, cursor).
     exec_bind (get_c_contacts n buf cursor) (\<lambda>(cs, cursor).
     Done (c # cs, cursor)))"

text \<open>The array of contacts: the entries read, then the defaults it was created with.\<close>

definition contact_array :: "c_contact list \<Rightarrow> c_contact list" where
  "contact_array cs = cs @ replicate (MAX_CONTACTS - length cs) c_contact_default"

definition dec_fail :: "c_message \<Rightarrow> (i32 \<times> c_message) exec" where
  "dec_fail m = Done (- 1, m)"

definition dec_ok :: "c_message \<Rightarrow> c_message_payload \<Rightarrow> (i32 \<times> c_message) exec" where
  "dec_ok m p = Done (0, m\<lparr>cm_payload := p\<rparr>)"

definition dec_store :: "bytes \<Rightarrow> nat \<Rightarrow> c_message \<Rightarrow> (i32 \<times> c_message) exec" where
  "dec_store buf cursor m =
     (if length buf < cursor + ID_SIZE + 4 then dec_fail m
      else exec_bind (get_slice ID_SIZE buf cursor) (\<lambda>key.
           exec_bind (get_slice 4 buf (cursor + ID_SIZE)) (\<lambda>lb.
           let vlen = unat (of_be lb :: u32); cursor = cursor + ID_SIZE + 4 in
           if vlen > MAX_VALUE_SIZE \<or> length buf < cursor + vlen then dec_fail m
           else exec_bind (get_slice vlen buf cursor) (\<lambda>val.
                dec_ok m (PStore \<lparr>st_key = key, st_value_len = of_nat vlen, st_value = val\<rparr>)))))"

definition dec_contacts ::
    "bytes \<Rightarrow> nat \<Rightarrow> c_message \<Rightarrow> (u8 \<Rightarrow> c_contact list \<Rightarrow> c_message_payload) \<Rightarrow> (i32 \<times> c_message) exec" where
  "dec_contacts buf cursor m mk =
     (if length buf < cursor + 1 then dec_fail m
      else exec_bind (get_byte buf cursor) (\<lambda>n.
           let count = min (unat n) MAX_CONTACTS; cursor = cursor + 1;
               contact_size = ID_SIZE + 1 + 16 + 2 in
           if length buf < cursor + count * contact_size then dec_fail m
           else exec_bind (get_c_contacts count buf cursor) (\<lambda>(cs, cursor).
                dec_ok m (mk (of_nat count) (contact_array cs)))))"

definition dec_find_value_resp :: "bytes \<Rightarrow> nat \<Rightarrow> c_message \<Rightarrow> (i32 \<times> c_message) exec" where
  "dec_find_value_resp buf cursor m =
     (if length buf < cursor + 1 then dec_fail m
      else exec_bind (get_byte buf cursor) (\<lambda>hv.
        let cursor = cursor + 1; resp = c_find_value_resp_default\<lparr>fvr_has_value := hv\<rparr> in
        if hv \<noteq> 0 then
          (if length buf < cursor + 4 then dec_fail m
           else exec_bind (get_slice 4 buf cursor) (\<lambda>lb.
             let vlen = unat (of_be lb :: u32); cursor = cursor + 4 in
             if vlen > MAX_VALUE_SIZE \<or> length buf < cursor + vlen then dec_fail m
             else exec_bind (get_slice vlen buf cursor) (\<lambda>val.
               dec_contacts buf (cursor + vlen) m (\<lambda>n cs. PFindValueResp
                 (resp\<lparr>fvr_value_len := of_nat vlen, fvr_value := val,
                       fvr_count := n, fvr_contacts := cs\<rparr>)))))
        else dec_contacts buf cursor m (\<lambda>n cs. PFindValueResp
               (resp\<lparr>fvr_count := n, fvr_contacts := cs\<rparr>))))"

definition dec_payload :: "bytes \<Rightarrow> nat \<Rightarrow> c_message \<Rightarrow> (i32 \<times> c_message) exec" where
  "dec_payload buf cursor m =
     (if cm_msg_type m = MSG_PING \<or> cm_msg_type m = MSG_PONG then dec_ok m PNone
      else if cm_msg_type m = MSG_STORE then dec_store buf cursor m
      else if cm_msg_type m = MSG_STORE_ACK then
        (if length buf < cursor + 1 then dec_fail m
         else exec_bind (get_byte buf cursor) (\<lambda>s. dec_ok m (PStoreAck \<lparr>ack_status = s\<rparr>)))
      else if cm_msg_type m = MSG_FIND_NODE then
        (if length buf < cursor + ID_SIZE then dec_fail m
         else exec_bind (get_slice ID_SIZE buf cursor) (\<lambda>t. dec_ok m (PFindNode \<lparr>fn_target_id = t\<rparr>)))
      else if cm_msg_type m = MSG_FIND_NODE_RESP then
        dec_contacts buf cursor m (\<lambda>n cs. PFindNodeResp \<lparr>fnr_count = n, fnr_contacts = cs\<rparr>)
      else if cm_msg_type m = MSG_FIND_VALUE then
        (if length buf < cursor + ID_SIZE then dec_fail m
         else exec_bind (get_slice ID_SIZE buf cursor) (\<lambda>k. dec_ok m (PFindValue \<lparr>fv_key = k\<rparr>)))
      else if cm_msg_type m = MSG_FIND_VALUE_RESP then dec_find_value_resp buf cursor m
      else dec_fail m)"

definition ffi_decode_message :: "bytes \<Rightarrow> c_message \<Rightarrow> (i32 \<times> c_message) exec" where
  "ffi_decode_message buf out_msg =
     (if length buf < 1 + 8 + ID_SIZE then dec_fail out_msg
      else exec_bind (get_byte buf 0) (\<lambda>ty.
           exec_bind (get_slice 8 buf 1) (\<lambda>rb.
           exec_bind (get_slice ID_SIZE buf (1 + 8)) (\<lambda>sid.
           dec_payload buf (1 + 8 + ID_SIZE)
             (c_message_default\<lparr>cm_msg_type := ty, cm_request_id := of_be rb, cm_sender_id := sid\<rparr>)))))"

section \<open>Hex form of an identifier\<close>

definition hex_digit :: "nat \<Rightarrow> char" where
  "hex_digit n = ''0123456789abcdef'' ! n"

text \<open>\<open>format!("{:02x}", b)\<close>\<close>

definition hex_byte :: "u8 \<Rightarrow> string" where
  "hex_byte b = [hex_digit (unat b div 16), hex_digit (unat b mod 16)]"

definition ffi_node_id_to_hex :: "bytes \<Rightarrow> string" where
  "ffi_node_id_to_hex bs = concat (map hex_byte bs)"

text \<open>The checksum is the CRC-32 of the crate \<open>crc32fast\<close>, a parameter.\<close>

definition ffi_calculate_checksum :: "(bytes \<Rightarrow> u32) \<Rightarrow> bytes \<Rightarrow> u32" where
  "ffi_calculate_checksum crc32 dat = crc32 dat"

section \<open>The byte format as a pure specification\<close>

definition wire_contact :: "c_contact \<Rightarrow> bytes" where
  "wire_contact c = cc_id c @ [cc_ip_type c] @ cc_ip c @ be_bytes 2 (cc_port c)"

definition wire_contacts :: "u8 \<Rightarrow> c_contact list \<Rightarrow> bytes" where
  "wire_contacts n cs = (let count = min (unat n) MAX_CONTACTS in
     of_nat count # concat (map wire_contact (take count cs)))"

definition sent_len :: "u32 \<Rightarrow> bytes \<Rightarrow> nat" where
  "sent_len n val = min (min (unat n) (length val)) MAX_VALUE_SIZE"

definition wire_value :: "u32 \<Rightarrow> bytes \<Rightarrow> bytes" where
  "wire_value n val = be_bytes 4 (of_nat (sent_len n val) :: u32) @ take (sent_len n val) val"

fun wire_payload :: "u8 \<Rightarrow> c_message_payload \<Rightarrow> bytes option" where
  "wire_payload ty PNone = (if ty = MSG_PING \<or> ty = MSG_PONG then Some [] else None)"
| "wire_payload ty (PStore s) = Some (st_key s @ wire_value (st_value_len s) (st_value s))"
| "wire_payload ty (PStoreAck a) = Some [ack_status a]"
| "wire_payload ty (PFindNode f) = Some (fn_target_id f)"
| "wire_payload ty (PFindNodeResp r) = Some (wire_contacts (fnr_count r) (fnr_contacts r))"
| "wire_payload ty (PFindValue f) = Some (fv_key f)"
| "wire_payload ty (PFindValueResp r) = Some ([fvr_has_value r] @
     (if fvr_has_value r \<noteq> 0 then wire_value (fvr_value_len r) (fvr_value r) else []) @
     wire_contacts (fvr_count r) (fvr_contacts r))"

definition wire_header :: "c_message \<Rightarrow> bytes" where
  "wire_header m = [cm_msg_type m] @ be_bytes 8 (cm_request_id m) @ cm_sender_id m"

definition wire_bytes :: "c_message \<Rightarrow> bytes option" where
  "wire_bytes m = map_option (\<lambda>w. wire_header m @ w) (wire_payload (cm_msg_type m) (cm_payload m))"

lemma length_wire_contact [simp]: "c_contact_ok c \<Longrightarrow> length (wire_contact c) = 39"
  by (simp add: wire_contact_def c_contact_ok_def)

lemma length_concat_wire [simp]:
  "list_all c_contact_ok cs \<Longrightarrow> length (concat (map wire_contact cs)) = length cs * 39"
  by (induction cs) simp_all

lemma list_all_take: "list_all p xs \<Longrightarrow> list_all p (take n xs)"
  by (auto simp: list_all_iff dest: in_set_takeD)

lemma list_all_take_ok [simp]: "contacts_ok cs \<Longrightarrow> list_all c_contact_ok (take n cs)"
  by (simp add: contacts_ok_def list_all_take)

lemma contacts_ok_length [simp]: "contacts_ok cs \<Longrightarrow> length cs = 20"
  by (simp add: contacts_ok_def)

lemma length_wire_contacts [simp]:
  "contacts_ok cs \<Longrightarrow> length (wire_contacts n cs) = 1 + min (unat n) MAX_CONTACTS * 39"
  by (simp add: wire_contacts_def Let_def)

lemma sent_len_le [simp]: "sent_len n val \<le> length val" "sent_len n val \<le> MAX_VALUE_SIZE"
  by (simp_all add: sent_len_def)

lemma sent_len_not_greater [simp]: "\<not> MAX_VALUE_SIZE < sent_len n val"
  by (simp add: sent_len_def)

lemma length_wire_value [simp]: "length (wire_value n val) = 4 + sent_len n val"
  by (simp add: wire_value_def)

lemma length_wire_header [simp]: "length (cm_sender_id m) = 20 \<Longrightarrow> length (wire_header m) = 29"
  by (simp add: wire_header_def)

section \<open>The writer implements the format\<close>

text \<open>\<open>wst p r\<close> is the state after the bytes \<open>p\<close> are written, with the rest \<open>r\<close> of the
  buffer untouched.\<close>

definition wst :: "bytes \<Rightarrow> bytes \<Rightarrow> wstate" where
  "wst p r = (p @ r, length p)"

lemma wst_simps [simp]:
  "length (fst (wst p r)) = length p + length r" "snd (wst p r) = length p" "fst (wst p r) = p @ r"
  by (simp_all add: wst_def)

lemma put_slice_wst [codec_simps]:
  "length bs \<le> length r \<Longrightarrow> put_slice bs (wst p r) = Done (wst (p @ bs) (drop (length bs) r))"
  by (simp add: put_slice_def wst_def)

lemma put_contact_wst [codec_simps]:
  assumes "c_contact_ok c" "39 \<le> length r"
  shows "put_c_contact c (wst p r) = Done (wst (p @ wire_contact c) (drop 39 r))"
  using assms by (simp add: put_c_contact_def put_slice_wst c_contact_ok_def wire_contact_def)

lemma put_contacts_wst [codec_simps]:
  assumes "list_all c_contact_ok cs" "length cs * 39 \<le> length r"
  shows "put_c_contacts cs (wst p r)
       = Done (wst (p @ concat (map wire_contact cs)) (drop (length cs * 39) r))"
  using assms
proof (induction cs arbitrary: p r)
  case (Cons c cs)
  then show ?case by (simp add: put_contact_wst add.commute)
qed simp

lemma enc_contacts_wst [codec_simps]:
  assumes "contacts_ok cs" "length (wire_contacts n cs) \<le> length r"
  shows "enc_contacts n cs (wst p r)
       = enc_done (wst (p @ wire_contacts n cs) (drop (length (wire_contacts n cs)) r))"
  using assms
  by (simp add: enc_contacts_def Let_def put_slice_wst put_contacts_wst wire_contacts_def)

lemma enc_contacts_short:
  assumes "contacts_ok cs" "length r < length (wire_contacts n cs)"
  shows "enc_contacts n cs (wst p r) = Done (- 1, p @ r)"
  using assms by (simp add: enc_contacts_def Let_def enc_fail_def)

lemma enc_value_wst [codec_simps]:
  assumes "length (wire_value n val) \<le> length r"
  shows "enc_value_then n val (wst p r) k
       = k (wst (p @ wire_value n val) (drop (length (wire_value n val)) r))"
  using assms
  by (simp add: enc_value_then_def Let_def put_slice_wst wire_value_def add.commute flip: sent_len_def)

lemma enc_value_short:
  assumes "length r < length (wire_value n val)"
  shows "enc_value_then n val (wst p r) k = Done (- 1, p @ r)"
  using assms by (simp add: enc_value_then_def Let_def enc_fail_def flip: sent_len_def)

lemma enc_payload_ok:
  assumes "wire_payload ty pl = Some w" "payload_arrays_ok pl" "length w \<le> length r"
  shows "enc_payload ty pl (wst p r) = enc_done (wst (p @ w) (drop (length w) r))"
  using assms
proof (cases pl)
  case (PStore s)
  then show ?thesis
    using assms by (auto simp: put_slice_wst wire_value_def Let_def add.commute simp flip: sent_len_def)
next
  case (PFindValueResp f)
  then show ?thesis
    using assms by (auto simp: put_slice_wst enc_value_wst enc_contacts_wst add.commute add.left_commute)
qed (auto simp: put_slice_wst enc_contacts_wst split: if_splits)

lemma enc_payload_fail:
  assumes "payload_arrays_ok pl"
    and "case wire_payload ty pl of None \<Rightarrow> True | Some w \<Rightarrow> length r < length w"
  shows "\<exists>b. enc_payload ty pl (wst p r) = Done (- 1, b) \<and> length b = length p + length r"
  using assms
proof (cases pl)
  case (PStore s)
  then show ?thesis using assms by (auto simp: Let_def enc_fail_def simp flip: sent_len_def)
next
  case (PFindValueResp f)
  show ?thesis
  proof (cases "length r = 0")
    case True then show ?thesis using PFindValueResp by (simp add: enc_fail_def)
  next
    case False
    let ?r = "drop 1 r" and ?p = "p @ [fvr_has_value f]"
    have step: "enc_payload ty pl (wst p r) =
        (if fvr_has_value f \<noteq> 0
         then enc_value_then (fvr_value_len f) (fvr_value f) (wst ?p ?r) (enc_contacts (fvr_count f) (fvr_contacts f))
         else enc_contacts (fvr_count f) (fvr_contacts f) (wst ?p ?r))"
      using False PFindValueResp by (cases r) (simp_all add: put_slice_wst)
    show ?thesis
    proof (cases "fvr_has_value f \<noteq> 0 \<and> length ?r < length (wire_value (fvr_value_len f) (fvr_value f))")
      case True
      then show ?thesis using False unfolding step by (simp add: enc_value_short)
    next
      case long: False
      then show ?thesis using assms False PFindValueResp unfolding step
        by (auto simp: enc_value_wst enc_contacts_short)
    qed
  qed
qed (auto simp: enc_fail_def enc_contacts_short split: if_splits)

lemma encode_header:
  assumes "length (cm_sender_id m) = 20" "29 \<le> length buf"
  shows "ffi_encode_message m buf
       = enc_payload (cm_msg_type m) (cm_payload m) (wst (wire_header m) (drop 29 buf))"
proof -
  have "(buf, 0) = wst [] buf" by (simp add: wst_def)
  then show ?thesis
    using assms by (simp add: ffi_encode_message_def put_slice_wst wire_header_def)
qed

lemma ffi_encode_success:
  assumes "arrays_ok m" "wire_bytes m = Some w" "length w \<le> length buf"
  shows "ffi_encode_message m buf = Done (of_nat (length w), w @ drop (length w) buf)"
proof -
  obtain v where v: "wire_payload (cm_msg_type m) (cm_payload m) = Some v" "w = wire_header m @ v"
    using assms(2) by (auto simp: wire_bytes_def)
  have "29 \<le> length buf" using v assms by (simp add: arrays_ok_def)
  then have "ffi_encode_message m buf
      = enc_done (wst (wire_header m @ v) (drop (length v) (drop 29 buf)))"
    using assms v by (simp add: arrays_ok_def encode_header enc_payload_ok)
  then show ?thesis using v assms by (simp add: enc_done_def arrays_ok_def add.commute)
qed

lemma ffi_encode_failure:
  assumes "arrays_ok m" "case wire_bytes m of None \<Rightarrow> True | Some w \<Rightarrow> length buf < length w"
  shows "\<exists>b. ffi_encode_message m buf = Done (- 1, b) \<and> length b = length buf"
proof (cases "29 \<le> length buf")
  case True
  have "case wire_payload (cm_msg_type m) (cm_payload m) of None \<Rightarrow> True
      | Some v \<Rightarrow> length (drop 29 buf) < length v"
    using assms True by (auto simp: wire_bytes_def arrays_ok_def split: option.splits)
  from enc_payload_fail [OF _ this, of "wire_header m"] show ?thesis
    using assms True by (simp add: arrays_ok_def encode_header)
next
  case False
  then show ?thesis by (simp add: ffi_encode_message_def enc_fail_def)
qed

section \<open>The reader inverts the format\<close>

text \<open>\<open>rest_is buf c r\<close>: the cursor \<open>c\<close> is in range and \<open>r\<close> is what is left to read.\<close>

definition rest_is :: "bytes \<Rightarrow> nat \<Rightarrow> bytes \<Rightarrow> bool" where
  "rest_is buf c r \<longleftrightarrow> (\<exists>p. buf = p @ r \<and> length p = c)"

lemma rest_is_length: "rest_is buf c r \<Longrightarrow> length buf = c + length r"
  by (auto simp: rest_is_def)

lemma rest_is_advance:
  "rest_is buf c (bs @ r) \<Longrightarrow> length bs = n \<Longrightarrow> rest_is buf (c + n) r"
  unfolding rest_is_def by (metis append.assoc length_append)

lemma get_slice_rest:
  "rest_is buf c (bs @ r) \<Longrightarrow> length bs = n \<Longrightarrow> get_slice n buf c = Done bs"
  by (auto simp: rest_is_def get_slice_def)

lemma get_byte_rest: "rest_is buf c (b # r) \<Longrightarrow> get_byte buf c = Done b"
  by (auto simp: rest_is_def get_byte_def)

lemma get_contact_rest:
  assumes "rest_is buf c (wire_contact x @ r)" "c_contact_ok x"
  shows "get_c_contact buf c = Done (x, c + 39)"
proof -
  have 1: "rest_is buf c (cc_id x @ [cc_ip_type x] @ cc_ip x @ be_bytes 2 (cc_port x) @ r)"
    using assms(1) by (simp add: wire_contact_def)
  have len: "length (cc_id x) = 20" "length (cc_ip x) = 16"
    using assms(2) by (simp_all add: c_contact_ok_def)
  have 2: "rest_is buf (c + 20) ([cc_ip_type x] @ cc_ip x @ be_bytes 2 (cc_port x) @ r)"
    using rest_is_advance [OF 1 len(1)] by simp
  have 3: "rest_is buf (c + 20 + 1) (cc_ip x @ be_bytes 2 (cc_port x) @ r)"
    using rest_is_advance [OF 2, of 1] by simp
  have 4: "rest_is buf (c + 20 + 1 + 16) (be_bytes 2 (cc_port x) @ r)"
    using rest_is_advance [OF 3 len(2)] by simp
  show ?thesis
    using get_slice_rest [OF 1 len(1)] get_byte_rest [of buf "c + 20" "cc_ip_type x"] 2
      get_slice_rest [OF 3 len(2)] get_slice_rest [OF 4, of 2]
    by (simp add: get_c_contact_def)
qed

lemma get_contacts_rest:
  assumes "rest_is buf c (concat (map wire_contact cs) @ r)" "list_all c_contact_ok cs"
  shows "get_c_contacts (length cs) buf c = Done (cs, c + length cs * 39)"
  using assms
proof (induction cs arbitrary: c)
  case (Cons x cs)
  then have x: "rest_is buf c (wire_contact x @ concat (map wire_contact cs) @ r)" "c_contact_ok x"
    by simp_all
  then have "rest_is buf (c + 39) (concat (map wire_contact cs) @ r)"
    using rest_is_advance by fastforce
  then show ?case using Cons get_contact_rest [OF x] by simp
qed simp

lemma unat_of_nat_u8_le [simp]: "n \<le> 20 \<Longrightarrow> unat (of_nat n :: u8) = n"
  by (simp add: unat_of_nat)

lemma unat_of_nat_u32_le [simp]: "n \<le> 65536 \<Longrightarrow> unat (of_nat n :: u32) = n"
  by (simp add: unat_of_nat)

lemma dec_contacts_rest:
  assumes "rest_is buf c (wire_contacts n cs @ r)" "contacts_ok cs"
  shows "dec_contacts buf c m mk
       = (let count = min (unat n) MAX_CONTACTS in
          dec_ok m (mk (of_nat count) (contact_array (take count cs))))"
proof -
  let ?k = "min (unat n) 20"
  have w: "wire_contacts n cs @ r = of_nat ?k # (concat (map wire_contact (take ?k cs)) @ r)"
    by (simp add: wire_contacts_def Let_def)
  have 1: "rest_is buf (c + 1) (concat (map wire_contact (take ?k cs)) @ r)"
    using assms(1) rest_is_advance [of buf c "[of_nat ?k]" _ 1] unfolding w by simp
  have k: "length (take ?k cs) = ?k" using assms(2) by simp
  have "length buf = c + 1 + ?k * 39 + length r"
    using rest_is_length [OF assms(1)] assms(2) by simp
  then show ?thesis
    using get_contacts_rest [OF 1] get_byte_rest [OF assms(1) [unfolded w]] assms(2)
    by (simp add: dec_contacts_def Let_def k)
qed

text \<open>The message a receiver decodes: lengths clamped to what was sent.\<close>

definition canon_contacts :: "u8 \<Rightarrow> c_contact list \<Rightarrow> c_contact list" where
  "canon_contacts n cs = contact_array (take (min (unat n) MAX_CONTACTS) cs)"

definition canon_count :: "u8 \<Rightarrow> u8" where
  "canon_count n = of_nat (min (unat n) MAX_CONTACTS)"

fun canon_payload :: "c_message_payload \<Rightarrow> c_message_payload" where
  "canon_payload (PStore s) = PStore (s\<lparr>
      st_value_len := of_nat (sent_len (st_value_len s) (st_value s)),
      st_value := take (sent_len (st_value_len s) (st_value s)) (st_value s)\<rparr>)"
| "canon_payload (PFindNodeResp r) = PFindNodeResp (r\<lparr>
      fnr_count := canon_count (fnr_count r), fnr_contacts := canon_contacts (fnr_count r) (fnr_contacts r)\<rparr>)"
| "canon_payload (PFindValueResp r) = (let n = sent_len (fvr_value_len r) (fvr_value r) in
     PFindValueResp (r\<lparr>
      fvr_value_len := (if fvr_has_value r \<noteq> 0 then of_nat n else 0),
      fvr_value := (if fvr_has_value r \<noteq> 0 then take n (fvr_value r) else []),
      fvr_count := canon_count (fvr_count r), fvr_contacts := canon_contacts (fvr_count r) (fvr_contacts r)\<rparr>))"
| "canon_payload p = p"

definition canon_message :: "c_message \<Rightarrow> c_message" where
  "canon_message m = m\<lparr>cm_payload := canon_payload (cm_payload m)\<rparr>"

text \<open>The type tag agrees with the variant of the payload.\<close>

fun tag_ok :: "u8 \<Rightarrow> c_message_payload \<Rightarrow> bool" where
  "tag_ok ty PNone = (ty = MSG_PING \<or> ty = MSG_PONG)"
| "tag_ok ty (PStore _) = (ty = MSG_STORE)"
| "tag_ok ty (PStoreAck _) = (ty = MSG_STORE_ACK)"
| "tag_ok ty (PFindNode _) = (ty = MSG_FIND_NODE)"
| "tag_ok ty (PFindNodeResp _) = (ty = MSG_FIND_NODE_RESP)"
| "tag_ok ty (PFindValue _) = (ty = MSG_FIND_VALUE)"
| "tag_ok ty (PFindValueResp _) = (ty = MSG_FIND_VALUE_RESP)"

definition well_tagged :: "c_message \<Rightarrow> bool" where
  "well_tagged m \<longleftrightarrow> tag_ok (cm_msg_type m) (cm_payload m)"

lemma value_rest:
  assumes "rest_is buf c (wire_value n val @ r)"
  shows "get_slice 4 buf c = Done (be_bytes 4 (of_nat (sent_len n val) :: u32))"
    and "get_slice (sent_len n val) buf (c + 4) = Done (take (sent_len n val) val)"
    and "length buf = c + 4 + sent_len n val + length r"
    and "rest_is buf (c + 4 + sent_len n val) r"
proof -
  have 1: "rest_is buf c (be_bytes 4 (of_nat (sent_len n val) :: u32) @ take (sent_len n val) val @ r)"
    using assms by (simp add: wire_value_def)
  have 2: "rest_is buf (c + 4) (take (sent_len n val) val @ r)"
    using rest_is_advance [OF 1] by simp
  show "get_slice 4 buf c = Done (be_bytes 4 (of_nat (sent_len n val) :: u32))"
    using get_slice_rest [OF 1] by simp
  show "get_slice (sent_len n val) buf (c + 4) = Done (take (sent_len n val) val)"
    using get_slice_rest [OF 2] by (simp add: sent_len_def)
  show "length buf = c + 4 + sent_len n val + length r"
    using rest_is_length [OF assms] by simp
  show "rest_is buf (c + 4 + sent_len n val) r"
    using rest_is_advance [OF 2] by (simp add: sent_len_def)
qed

lemma dec_store_rest:
  assumes "rest_is buf c (st_key s @ wire_value (st_value_len s) (st_value s) @ r)" "length (st_key s) = 20"
  shows "dec_store buf c m = dec_ok m (canon_payload (PStore s))"
proof -
  have 1: "rest_is buf (c + 20) (wire_value (st_value_len s) (st_value s) @ r)"
    using rest_is_advance [OF assms] .
  note v = value_rest [OF 1]
  show ?thesis
    using get_slice_rest [OF assms] v(1-3) by (cases s) (simp add: dec_store_def Let_def)
qed

lemma dec_find_value_resp_rest:
  assumes "rest_is buf c ([fvr_has_value f] @
      (if fvr_has_value f \<noteq> 0 then wire_value (fvr_value_len f) (fvr_value f) else []) @
      wire_contacts (fvr_count f) (fvr_contacts f) @ r)" "contacts_ok (fvr_contacts f)"
  shows "dec_find_value_resp buf c m = dec_ok m (canon_payload (PFindValueResp f))"
proof -
  let ?tail = "wire_contacts (fvr_count f) (fvr_contacts f) @ r"
  have hv: "get_byte buf c = Done (fvr_has_value f)" using assms(1) by (auto intro: get_byte_rest)
  have 1: "rest_is buf (c + 1) ((if fvr_has_value f \<noteq> 0 then wire_value (fvr_value_len f) (fvr_value f) else []) @ ?tail)"
    using rest_is_advance [OF assms(1), of 1] by simp
  have len: "c + 1 \<le> length buf" using rest_is_length [OF assms(1)] by simp
  show ?thesis
  proof (cases "fvr_has_value f = 0")
    case True
    then have "rest_is buf (c + 1) ?tail" using 1 by simp
    from dec_contacts_rest [OF this assms(2)] show ?thesis
      using hv len True
      by (cases f) (simp add: dec_find_value_resp_def Let_def canon_count_def canon_contacts_def c_find_value_resp_default_def)
  next
    case False
    then have v: "rest_is buf (c + 1) (wire_value (fvr_value_len f) (fvr_value f) @ ?tail)" using 1 by simp
    note w = value_rest [OF v]
    from dec_contacts_rest [OF w(4) assms(2)] show ?thesis
      using hv len False w(1-3)
      by (cases f) (simp add: dec_find_value_resp_def Let_def canon_count_def canon_contacts_def c_find_value_resp_default_def)
  qed
qed

lemma dec_payload_rest:
  assumes "rest_is buf c (w @ r)" "wire_payload (cm_msg_type m) pl = Some w"
    and "payload_arrays_ok pl" "tag_ok (cm_msg_type m) pl"
  shows "dec_payload buf c m = dec_ok m (canon_payload pl)"
proof (cases pl)
  case PNone then show ?thesis using assms by (simp add: dec_payload_def)
next
  case (PStore s) then show ?thesis using assms
    by (auto simp: dec_payload_def simp del: canon_payload.simps intro!: dec_store_rest)
next
  case (PStoreAck a)
  then show ?thesis using assms rest_is_length [OF assms(1)] get_byte_rest [of buf c]
    by (cases a) (auto simp: dec_payload_def)
next
  case (PFindNode f)
  then show ?thesis using assms rest_is_length [OF assms(1)] get_slice_rest [OF assms(1)]
    by (cases f) (auto simp: dec_payload_def)
next
  case (PFindNodeResp f)
  then have "rest_is buf c (wire_contacts (fnr_count f) (fnr_contacts f) @ r)" using assms by auto
  from dec_contacts_rest [OF this] show ?thesis using assms PFindNodeResp
    by (cases f) (simp add: dec_payload_def Let_def canon_count_def canon_contacts_def)
next
  case (PFindValue f)
  then show ?thesis using assms rest_is_length [OF assms(1)] get_slice_rest [OF assms(1)]
    by (cases f) (auto simp: dec_payload_def)
next
  case (PFindValueResp f)
  then show ?thesis using assms
    by (auto simp: dec_payload_def simp del: canon_payload.simps intro!: dec_find_value_resp_rest)
qed

lemma decode_header:
  assumes "length (cm_sender_id m) = 20"
  shows "ffi_decode_message (wire_header m @ r) out =
      dec_payload (wire_header m @ r) 29 (m\<lparr>cm_payload := PNone\<rparr>)"
proof -
  let ?b = "wire_header m @ r"
  have 0: "rest_is ?b 0 ([cm_msg_type m] @ be_bytes 8 (cm_request_id m) @ cm_sender_id m @ r)"
    by (simp add: rest_is_def wire_header_def)
  have 1: "rest_is ?b 1 (be_bytes 8 (cm_request_id m) @ cm_sender_id m @ r)"
    using rest_is_advance [OF 0, of 1] by simp
  have 9: "rest_is ?b 9 (cm_sender_id m @ r)" using rest_is_advance [OF 1, of 8] by simp
  have m: "c_message_default\<lparr>cm_msg_type := cm_msg_type m, cm_request_id := cm_request_id m,
      cm_sender_id := cm_sender_id m\<rparr> = m\<lparr>cm_payload := PNone\<rparr>"
    by (simp add: c_message_default_def)
  show ?thesis
    using get_byte_rest [of ?b 0 "cm_msg_type m"] 0 get_slice_rest [OF 1, of 8]
      get_slice_rest [OF 9 assms] assms
    by (simp add: ffi_decode_message_def m)
qed

lemma ffi_decode_encode:
  assumes "arrays_ok m" "well_tagged m" "wire_bytes m = Some w"
  shows "ffi_decode_message (w @ t) out = Done (0, canon_message m)"
proof -
  obtain v where v: "wire_payload (cm_msg_type m) (cm_payload m) = Some v" "w = wire_header m @ v"
    using assms(3) by (auto simp: wire_bytes_def)
  have "rest_is (wire_header m @ v @ t) 29 (v @ t)"
    using assms(1) by (simp add: rest_is_def arrays_ok_def)
  from dec_payload_rest [OF this, of "m\<lparr>cm_payload := PNone\<rparr>" "cm_payload m"] show ?thesis
    using v assms decode_header [of m "v @ t" out]
    by (simp add: arrays_ok_def well_tagged_def canon_message_def dec_ok_def)
qed

section \<open>The reader is total and returns canonical messages\<close>

definition canonical :: "c_message \<Rightarrow> bool" where
  "canonical m \<longleftrightarrow> arrays_ok m \<and> well_tagged m \<and> canon_message m = m"

definition dec_sound :: "(i32 \<times> c_message) exec \<Rightarrow> bool" where
  "dec_sound r \<longleftrightarrow> (\<exists>m. r = Done (- 1, m) \<or> (r = Done (0, m) \<and> canonical m))"

lemma dec_sound_fail [simp]: "dec_sound (dec_fail m)"
  by (simp add: dec_sound_def dec_fail_def)

lemma dec_sound_ok:
  assumes "length (cm_sender_id m) = 20" "payload_arrays_ok pl"
    "tag_ok (cm_msg_type m) pl" "canon_payload pl = pl"
  shows "dec_sound (dec_ok m pl)"
  using assms by (simp add: dec_sound_def dec_ok_def canonical_def arrays_ok_def well_tagged_def canon_message_def)

lemma get_slice_in_range [simp]:
  "c + n \<le> length buf \<Longrightarrow> get_slice n buf c = Done (take n (drop c buf))"
  by (simp add: get_slice_def)

lemma get_byte_in_range [simp]: "c < length buf \<Longrightarrow> get_byte buf c = Done (buf ! c)"
  by (simp add: get_byte_def)

lemma get_contact_in_range:
  "c + 39 \<le> length buf \<Longrightarrow> \<exists>x. get_c_contact buf c = Done (x, c + 39) \<and> c_contact_ok x"
  by (simp add: get_c_contact_def c_contact_ok_def)

lemma get_contacts_in_range:
  assumes "c + n * 39 \<le> length buf"
  shows "\<exists>cs. get_c_contacts n buf c = Done (cs, c + n * 39) \<and> length cs = n \<and> list_all c_contact_ok cs"
  using assms
proof (induction n arbitrary: c)
  case (Suc n)
  obtain x where x: "get_c_contact buf c = Done (x, c + 39)" "c_contact_ok x"
    using get_contact_in_range [of c buf] Suc.prems by auto
  obtain cs where "get_c_contacts n buf (c + 39) = Done (cs, c + 39 + n * 39)" "length cs = n" "list_all c_contact_ok cs"
    using Suc.IH [of "c + 39"] Suc.prems by auto
  then show ?case using x by simp
qed simp

lemma contact_default_ok [simp]: "c_contact_ok c_contact_default"
  by (simp add: c_contact_ok_def c_contact_default_def)

lemma contact_array_ok [simp]:
  "length cs \<le> 20 \<Longrightarrow> list_all c_contact_ok cs \<Longrightarrow> contacts_ok (contact_array cs)"
  by (auto simp: contact_array_def contacts_ok_def list_all_iff)

lemma canon_count_of_nat [simp]: "n \<le> 20 \<Longrightarrow> canon_count (of_nat n) = of_nat n"
  by (simp add: canon_count_def)

lemma canon_contacts_array [simp]:
  "length cs = n \<Longrightarrow> n \<le> 20 \<Longrightarrow> canon_contacts (of_nat n) (contact_array cs) = contact_array cs"
  by (simp add: canon_contacts_def contact_array_def)

lemma sent_len_full [simp]:
  "length val \<le> 65536 \<Longrightarrow> sent_len (of_nat (length val)) val = length val"
  by (simp add: sent_len_def)

lemma dec_contacts_sound:
  assumes "\<And>n cs. length cs = n \<Longrightarrow> n \<le> 20 \<Longrightarrow> list_all c_contact_ok cs
      \<Longrightarrow> dec_sound (dec_ok m (mk (of_nat n) (contact_array cs)))"
  shows "dec_sound (dec_contacts buf c m mk)"
proof (cases "length buf < c + 1 \<or> length buf < c + 1 + min (unat (buf ! c)) 20 * 39")
  case True
  then show ?thesis by (auto simp: dec_contacts_def Let_def)
next
  case False
  let ?n = "min (unat (buf ! c)) 20"
  obtain cs where "get_c_contacts ?n buf (c + 1) = Done (cs, c + 1 + ?n * 39)"
      "length cs = ?n" "list_all c_contact_ok cs"
    using get_contacts_in_range [of "c + 1" ?n buf] False by auto
  then show ?thesis using False assms [of cs ?n] by (simp add: dec_contacts_def Let_def)
qed

lemma unat_u32_back: "length v = unat (w :: u32) \<Longrightarrow> of_nat (length v) = w"
  by simp

lemma dec_store_sound:
  assumes "length (cm_sender_id m) = 20" "cm_msg_type m = MSG_STORE"
  shows "dec_sound (dec_store buf c m)"
proof -
  let ?w = "of_be (take 4 (drop (c + 20) buf)) :: u32"
  let ?v = "take (unat ?w) (drop (c + 24) buf)"
  show ?thesis
  proof (cases "length buf < c + 24 \<or> unat ?w > 65536 \<or> length buf < c + 24 + unat ?w")
    case True
    then show ?thesis by (auto simp: dec_store_def Let_def)
  next
    case False
    have s: "sent_len ?w ?v = unat ?w" using False by (auto simp: sent_len_def min_def)
    have "dec_sound (dec_ok m (PStore \<lparr>st_key = take 20 (drop c buf), st_value_len = ?w, st_value = ?v\<rparr>))"
      using False assms s by (intro dec_sound_ok) auto
    then show ?thesis using False by (simp add: dec_store_def Let_def add.commute)
  qed
qed

lemma dec_find_value_resp_sound:
  assumes "length (cm_sender_id m) = 20" "cm_msg_type m = MSG_FIND_VALUE_RESP"
  shows "dec_sound (dec_find_value_resp buf c m)"
proof -
  let ?w = "of_be (take 4 (drop (c + 1) buf)) :: u32"
  let ?v = "take (unat ?w) (drop (c + 5) buf)"
  consider "length buf < c + 1" | "c + 1 \<le> length buf" "buf ! c = 0"
    | "c + 1 \<le> length buf" "buf ! c \<noteq> 0" "length buf < c + 5 \<or> unat ?w > 65536 \<or> length buf < c + 5 + unat ?w"
    | "buf ! c \<noteq> 0" "c + 5 \<le> length buf" "unat ?w \<le> 65536" "c + 5 + unat ?w \<le> length buf"
    by linarith
  then show ?thesis
  proof cases
    case 2
    then show ?thesis using assms
      by (auto simp: dec_find_value_resp_def Let_def c_find_value_resp_default_def
          intro!: dec_contacts_sound dec_sound_ok)
  next
    case 3
    then show ?thesis by (auto simp: dec_find_value_resp_def Let_def add.commute)
  next
    case 4
    have s: "sent_len ?w ?v = unat ?w" using 4 by (auto simp: sent_len_def min_def)
    have "dec_sound (dec_contacts buf (c + 5 + unat ?w) m (\<lambda>n cs. PFindValueResp
        \<lparr>fvr_has_value = buf ! c, fvr_value_len = ?w, fvr_value = ?v, fvr_count = n, fvr_contacts = cs\<rparr>))"
      using assms 4 s by (intro dec_contacts_sound dec_sound_ok) (auto simp: Let_def)
    then show ?thesis using 4
      by (simp add: dec_find_value_resp_def Let_def add.commute c_find_value_resp_default_def)
  qed (simp add: dec_find_value_resp_def)
qed

lemma ffi_decode_sound: "length (cm_sender_id out) = 20 \<Longrightarrow> dec_sound (ffi_decode_message buf out)"
proof (cases "length buf < 29")
  case False
  let ?m = "c_message_default\<lparr>cm_msg_type := buf ! 0, cm_request_id := of_be (take 8 (drop 1 buf)),
      cm_sender_id := take 20 (drop 9 buf)\<rparr>"
  have "dec_sound (dec_payload buf 29 ?m)"
    using False unfolding dec_payload_def
    by (auto intro!: dec_sound_ok dec_store_sound dec_contacts_sound dec_find_value_resp_sound)
  moreover have "buf \<noteq> []" using False by auto
  then have "ffi_decode_message buf out = dec_payload buf 29 ?m"
    using False by (simp add: ffi_decode_message_def)
  ultimately show ?thesis by simp
qed (simp add: ffi_decode_message_def)

lemma canonical_wire: "canonical m \<Longrightarrow> \<exists>w. wire_bytes m = Some w"
  by (cases "cm_payload m")
    (auto simp: canonical_def well_tagged_def wire_bytes_def)

text \<open>Every accepted buffer has a canonical form: encoding the decoded message and decoding
  again gives the same message.\<close>

lemma ffi_decode_reencode:
  assumes "length (cm_sender_id out) = 20" "ffi_decode_message buf out = Done (0, m)"
  shows "\<exists>w. wire_bytes m = Some w \<and> ffi_decode_message w out' = Done (0, m)"
proof -
  have c: "canonical m"
    using ffi_decode_sound [OF assms(1), of buf] assms(2) by (auto simp: dec_sound_def)
  then obtain w where "wire_bytes m = Some w" using canonical_wire by blast
  then show ?thesis
    using c ffi_decode_encode [of m w "[]" out'] by (auto simp: canonical_def)
qed

section \<open>Prefix length of identifiers\<close>

lemma leading_zeros8_bound: "leading_zeros8 x \<le> 8"
  using length_takeWhile_le [of "\<lambda>i. \<not> bit x i" "rev [0..<8]"] by (simp add: leading_zeros8_def)

lemma shared_prefix_bits_sym: "ffi_shared_prefix_bits a b = ffi_shared_prefix_bits b a"
  by (induction a b rule: ffi_shared_prefix_bits.induct) (auto simp: xor.commute)

lemma shared_prefix_bits_refl: "ffi_shared_prefix_bits a a = 8 * length a"
  by (induction a) auto

end
