(* ===== verification/Rust_Strings.thy ===== *)
theory Rust_Strings
  imports Core_Ffi
begin

text \<open>
  The string operations of the Rust standard library that the code uses, on
  UTF-8 byte strings (a \<open>string\<close> is a list of 8-bit characters, so it is the byte
  sequence of a Rust \<open>String\<close>): slicing, which panics off a character boundary,
  \<open>trim\<close> with the Unicode white space, \<open>u8::from_str_radix(_, 16)\<close>, and the loops that
  parse a string of hex pairs. The lemmas give the round trip of the hex form.
\<close>

section \<open>Slices\<close>

definition is_char_boundary :: "string \<Rightarrow> nat \<Rightarrow> bool" where
  "is_char_boundary s i \<longleftrightarrow> i = 0 \<or> i = length s \<or>
     (i < length s \<and> \<not> (128 \<le> (of_char (s ! i) :: nat) \<and> (of_char (s ! i) :: nat) < 192))"

definition str_slice :: "string \<Rightarrow> nat \<Rightarrow> nat \<Rightarrow> string exec" where
  "str_slice s a b =
     (if a \<le> b \<and> b \<le> length s \<and> is_char_boundary s a \<and> is_char_boundary s b
      then Done (take (b - a) (drop a s)) else Panic)"

section \<open>\<open>trim\<close>\<close>

text \<open>\<open>ws_head s\<close> is the number of bytes of the white-space character \<open>s\<close> starts with, 0 if
  none (U+0009..D, U+0020, U+0085, U+00A0, U+1680, U+2000..A, U+2028/9, U+202F, U+205F, U+3000).\<close>

definition ws1 :: "nat \<Rightarrow> bool" where
  "ws1 a \<longleftrightarrow> (9 \<le> a \<and> a \<le> 13) \<or> a = 32"

definition ws3 :: "nat \<Rightarrow> nat \<Rightarrow> nat \<Rightarrow> bool" where
  "ws3 a b c \<longleftrightarrow> (a = 225 \<and> b = 154 \<and> c = 128) \<or>
     (a = 226 \<and> b = 128 \<and> (128 \<le> c \<and> c \<le> 138 \<or> c = 168 \<or> c = 169 \<or> c = 175)) \<or>
     (a = 226 \<and> b = 129 \<and> c = 159) \<or> (a = 227 \<and> b = 128 \<and> c = 128)"

fun ws_codes :: "nat list \<Rightarrow> nat" where
  "ws_codes (a # b # c # _) =
     (if ws1 a then 1 else if a = 194 \<and> (b = 133 \<or> b = 160) then 2 else if ws3 a b c then 3 else 0)"
| "ws_codes [a, b] = (if ws1 a then 1 else if a = 194 \<and> (b = 133 \<or> b = 160) then 2 else 0)"
| "ws_codes [a] = (if ws1 a then 1 else 0)"
| "ws_codes [] = 0"

definition ws_head :: "string \<Rightarrow> nat" where
  "ws_head s = ws_codes (map of_char (take 3 s))"

definition ws_tail :: "string \<Rightarrow> nat" where
  "ws_tail s =
     (if ws_head (drop (length s - 1) s) = 1 then 1
      else if ws_head (drop (length s - 2) s) = 2 then 2
      else if ws_head (drop (length s - 3) s) = 3 then 3 else 0)"

lemma ws_head_Nil [simp]: "ws_head [] = 0"
  by (simp add: ws_head_def)

lemma ws_tail_Nil [simp]: "ws_tail [] = 0"
  by (simp add: ws_tail_def)

function trim_start :: "string \<Rightarrow> string" where
  "trim_start s = (if ws_head s = 0 then s else trim_start (drop (ws_head s) s))"
  by auto
termination
proof (relation "measure length")
  fix s assume "ws_head s \<noteq> 0"
  then show "(drop (ws_head s) s, s) \<in> measure length" by (cases s) auto
qed simp

function trim_end :: "string \<Rightarrow> string" where
  "trim_end s = (if ws_tail s = 0 then s else trim_end (take (length s - ws_tail s) s))"
  by auto
termination
proof (relation "measure length")
  fix s assume "ws_tail s \<noteq> 0"
  then show "(take (length s - ws_tail s) s, s) \<in> measure length" by (cases s) auto
qed simp

declare trim_start.simps [simp del] trim_end.simps [simp del]

definition rust_trim :: "string \<Rightarrow> string" where
  "rust_trim s = trim_end (trim_start s)"

definition plain_char :: "char \<Rightarrow> bool" where
  "plain_char c \<longleftrightarrow> (33 \<le> (of_char c :: nat) \<and> (of_char c :: nat) < 128)"

lemma ws_codes_plain: "\<forall>a \<in> set xs. 33 \<le> a \<and> a < 128 \<Longrightarrow> ws_codes xs = 0"
  by (cases xs rule: ws_codes.cases) (auto simp: ws1_def ws3_def)

lemma ws_head_plain: "list_all plain_char s \<Longrightarrow> ws_head s = 0"
  unfolding ws_head_def
  by (rule ws_codes_plain) (auto simp: list_all_iff plain_char_def dest!: in_set_takeD)

lemma ws_tail_plain:
  assumes "list_all plain_char s" shows "ws_tail s = 0"
proof -
  have "ws_head (drop n s) = 0" for n
    using assms by (intro ws_head_plain) (auto simp: list_all_iff dest: in_set_dropD)
  then show ?thesis by (simp add: ws_tail_def)
qed

lemma rust_trim_plain: "list_all plain_char s \<Longrightarrow> rust_trim s = s"
  by (simp add: rust_trim_def trim_start.simps trim_end.simps ws_head_plain ws_tail_plain)

section \<open>Hex digits\<close>

definition hex_val :: "char \<Rightarrow> nat option" where
  "hex_val c = (let a = of_char c :: nat in
     if 48 \<le> a \<and> a \<le> 57 then Some (a - 48)
     else if 97 \<le> a \<and> a \<le> 102 then Some (a - 87)
     else if 65 \<le> a \<and> a \<le> 70 then Some (a - 55)
     else None)"

datatype parse_int_error = EmptyInt | InvalidDigit | PosOverflow

fun hex_digits_u8 :: "nat \<Rightarrow> string \<Rightarrow> parse_int_error + u8" where
  "hex_digits_u8 acc [] = Ok (of_nat acc)"
| "hex_digits_u8 acc (c # cs) = (case hex_val c of
      None \<Rightarrow> Err InvalidDigit
    | Some d \<Rightarrow> if acc * 16 + d > 255 then Err PosOverflow else hex_digits_u8 (acc * 16 + d) cs)"

text \<open>\<open>u8::from_str_radix(s, 16)\<close>: an optional leading plus sign is accepted, a lone sign is not.\<close>

definition u8_from_hex :: "string \<Rightarrow> parse_int_error + u8" where
  "u8_from_hex s =
     (if s = [] then Err EmptyInt
      else if s = ''+'' \<or> s = ''-'' then Err InvalidDigit
      else if hd s = CHR ''+'' then hex_digits_u8 0 (tl s)
      else hex_digits_u8 0 s)"

text \<open>The loop over the positions \<open>i, i + 2, ...\<close>: each pair is sliced and parsed, and the first
  error is returned.\<close>

fun parse_hex_pairs :: "string \<Rightarrow> nat \<Rightarrow> nat \<Rightarrow> (parse_int_error + bytes) exec" where
  "parse_hex_pairs s i 0 = Done (Ok [])"
| "parse_hex_pairs s i (Suc n) =
     exec_bind (str_slice s i (i + 2)) (\<lambda>p. case u8_from_hex p of
        Inl e \<Rightarrow> Done (Err e)
      | Inr b \<Rightarrow> exec_bind (parse_hex_pairs s (i + 2) n) (\<lambda>r. Done (case r of
            Inl e \<Rightarrow> Err e
          | Inr bs \<Rightarrow> Ok (b # bs))))"

abbreviation to_hex :: "bytes \<Rightarrow> string" where "to_hex \<equiv> ffi_node_id_to_hex"

lemma hex_digit_facts:
  assumes "n < 16"
  shows "hex_val (hex_digit n) = Some n" "plain_char (hex_digit n)" "hex_digit n \<noteq> CHR ''+''"
proof -
  have "\<forall>n \<in> set [0..<16]. hex_val (hex_digit n) = Some n \<and> plain_char (hex_digit n) \<and> hex_digit n \<noteq> CHR ''+''"
    by code_simp
  then show "hex_val (hex_digit n) = Some n" "plain_char (hex_digit n)" "hex_digit n \<noteq> CHR ''+''"
    using assms by simp_all
qed

lemma unat_u8_less [simp]: "unat (b :: u8) < 256"
  using unsigned_less [of b] by simp

lemma u8_from_hex_byte [simp]: "u8_from_hex (hex_byte b) = Inr b"
proof -
  have h: "unat b div 16 < 16" by (rule less_mult_imp_div_less) simp
  have "unat b div 16 * 16 + unat b mod 16 = unat b" by simp
  moreover have "unat b \<le> 255" using unat_u8_less [of b] by linarith
  ultimately show ?thesis
    using hex_digit_facts [OF h] hex_digit_facts [of "unat b mod 16"] h
    by (simp add: u8_from_hex_def hex_byte_def)
qed

lemma to_hex_simps [simp]: "to_hex [] = []" "to_hex (b # bs) = hex_byte b @ to_hex bs"
  by (simp_all add: ffi_node_id_to_hex_def)

lemma length_hex_byte [simp]: "length (hex_byte b) = 2"
  by (simp add: hex_byte_def)

lemma length_to_hex [simp]: "length (to_hex bs) = 2 * length bs"
  by (induction bs) simp_all

lemma plain_hex_byte: "list_all plain_char (hex_byte b)"
  using hex_digit_facts(2) [OF less_mult_imp_div_less [of "unat b" 16 16]]
    hex_digit_facts(2) [of "unat b mod 16"]
  by (simp add: hex_byte_def)

lemma plain_to_hex [simp]: "list_all plain_char (to_hex bs)"
  by (induction bs) (simp_all add: plain_hex_byte)

lemma trim_to_hex [simp]: "rust_trim (to_hex bs) = to_hex bs"
  by (simp add: rust_trim_plain)

lemma plain_boundary: "list_all plain_char s \<Longrightarrow> i \<le> length s \<Longrightarrow> is_char_boundary s i"
proof (cases "i = length s")
  case False
  moreover assume "list_all plain_char s" "i \<le> length s"
  ultimately have "plain_char (s ! i)" "i < length s" by (simp_all add: list_all_length)
  then show ?thesis by (simp add: is_char_boundary_def plain_char_def)
qed (simp add: is_char_boundary_def)

lemma str_slice_plain:
  "list_all plain_char s \<Longrightarrow> a \<le> b \<Longrightarrow> b \<le> length s \<Longrightarrow> str_slice s a b = Done (take (b - a) (drop a s))"
  by (simp add: str_slice_def plain_boundary)

lemma parse_hex_pairs_suffix:
  assumes "s = p @ to_hex bs @ r" "list_all plain_char s" "i = length p"
  shows "parse_hex_pairs s i (length bs) = Done (Inr bs)"
  using assms
proof (induction bs arbitrary: p i)
  case (Cons b bs)
  have "parse_hex_pairs s (i + 2) (length bs) = Done (Inr bs)"
    using Cons.prems by (intro Cons.IH [of "p @ hex_byte b"]) simp_all
  moreover have "str_slice s i (i + 2) = Done (hex_byte b)"
    using Cons.prems by (subst str_slice_plain) simp_all
  ultimately show ?case by simp
qed simp

lemma parse_hex_pairs_to_hex [simp]: "parse_hex_pairs (to_hex bs) 0 (length bs) = Done (Inr bs)"
  by (rule parse_hex_pairs_suffix [of _ "[]" _ "[]"]) simp_all

lemma to_hex_inj [simp]: "to_hex a = to_hex b \<longleftrightarrow> a = b"
proof
  assume h: "to_hex a = to_hex b"
  then have "length a = length b" using arg_cong [OF h, of length] unfolding length_to_hex by linarith
  then have "Done (Inr a) = (Done (Inr b) :: (parse_int_error + bytes) exec)"
    using parse_hex_pairs_to_hex [of a] parse_hex_pairs_to_hex [of b] h by argo
  then show "a = b" by simp
qed simp

text \<open>A parsed string has as many bytes as pairs; the parse panics only at a slice that cuts a
  multi-byte character or leaves the string.\<close>

lemma parse_hex_pairs_length: "parse_hex_pairs s i n = Done (Inr bs) \<Longrightarrow> length bs = n"
  by (induction s i n arbitrary: bs rule: parse_hex_pairs.induct)
    (auto simp: exec_bind_def split: exec.splits sum.splits)

definition ascii :: "string \<Rightarrow> bool" where
  "ascii s \<longleftrightarrow> list_all (\<lambda>c. (of_char c :: nat) < 128) s"

lemma ascii_boundary: "ascii s \<Longrightarrow> i \<le> length s \<Longrightarrow> is_char_boundary s i"
proof (cases "i = length s")
  case False
  moreover assume "ascii s" "i \<le> length s"
  ultimately have "(of_char (s ! i) :: nat) < 128" "i < length s"
    by (simp_all add: list_all_length ascii_def)
  then show ?thesis by (simp add: is_char_boundary_def)
qed (simp add: is_char_boundary_def)

lemma ascii_slice: "ascii s \<Longrightarrow> i + 2 \<le> length s \<Longrightarrow> str_slice s i (i + 2) = Done (take 2 (drop i s))"
  by (simp add: str_slice_def ascii_boundary)

lemma parse_hex_pairs_ascii:
  "ascii s \<Longrightarrow> i + 2 * n \<le> length s \<Longrightarrow> parse_hex_pairs s i n \<noteq> Panic"
  by (induction s i n rule: parse_hex_pairs.induct)
    (use ascii_slice in \<open>fastforce simp: exec_bind_def split: exec.splits sum.splits\<close>)+

end
