(* ===== verification/Kad_Node.thy ===== *)
theory Kad_Node
  imports Rust_Strings "HOL-Library.Multiset"
begin

text \<open>
  Node identifiers, contacts, k-buckets and the routing table, from
  \<open>nodex-kademlia/src/node.rs\<close>. An identifier is its array of 20 bytes, ordered
  lexicographically as the derived \<open>Ord\<close>; a routing table is its local identifier and
  160 buckets of contacts, each kept from the least to the most recently seen.
  The lemmas show the XOR metric, the meaning of the bucket index, the table
  invariant under every operation but \<open>replace_oldest\<close> (which breaks it, as a lemma
  shows), the least-recently-seen order, and that \<open>find_closest\<close> returns the
  closest contacts.
\<close>

section \<open>Identifiers\<close>

abbreviation K :: nat where "K \<equiv> 20"
abbreviation NUM_BUCKETS :: nat where "NUM_BUCKETS \<equiv> 160"

datatype node_id = NodeId (as_bytes: bytes)

definition wf_id :: "node_id \<Rightarrow> bool" where
  "wf_id i \<longleftrightarrow> length (as_bytes i) = ID_SIZE"

instantiation node_id :: linorder
begin

definition less_eq_node_id :: "node_id \<Rightarrow> node_id \<Rightarrow> bool" where
  "less_eq_node_id a b \<longleftrightarrow> as_bytes a \<le> as_bytes b"

definition less_node_id :: "node_id \<Rightarrow> node_id \<Rightarrow> bool" where
  "less_node_id a b \<longleftrightarrow> as_bytes a < as_bytes b"

instance
  by standard (auto simp: less_eq_node_id_def less_node_id_def node_id.expand)

end

definition from_key :: "(bytes \<Rightarrow> bytes) \<Rightarrow> bytes \<Rightarrow> node_id" where
  "from_key sha1 key = NodeId (ffi_hash_node_id sha1 key)"

definition shared_prefix_len :: "node_id \<Rightarrow> node_id \<Rightarrow> nat" where
  "shared_prefix_len a b = ffi_shared_prefix_bits (as_bytes a) (as_bytes b)"

text \<open>The loop over the 20 positions of the output array.\<close>

definition distance :: "node_id \<Rightarrow> node_id \<Rightarrow> node_id" where
  "distance a b = NodeId (map2 (XOR) (as_bytes a) (as_bytes b))"

definition id_to_hex :: "node_id \<Rightarrow> string" where
  "id_to_hex i = concat (map hex_byte (as_bytes i))"

datatype hex_error = BadLength nat | InvalidHex parse_int_error

definition id_from_hex :: "string \<Rightarrow> (hex_error + node_id) exec" where
  "id_from_hex s0 =
     (let s = rust_trim s0 in
      if length s \<noteq> ID_SIZE * 2 then Done (Err (BadLength (length s)))
      else exec_bind (parse_hex_pairs s 0 ID_SIZE) (\<lambda>r. Done (case r of
          Inl e \<Rightarrow> Err (InvalidHex e)
        | Inr bs \<Rightarrow> Ok (NodeId bs))))"

section \<open>Socket addresses of the standard library\<close>

datatype ip_addr = IpV4 "32 word" | IpV6 "128 word"

datatype socket_addr =
    SockV4 (v4_ip: "32 word") (v4_port: u16)
  | SockV6 (v6_ip: "128 word") (v6_port: u16) (v6_flowinfo: u32) (v6_scope_id: u32)

fun sock_ip :: "socket_addr \<Rightarrow> ip_addr" where
  "sock_ip (SockV4 ip _) = IpV4 ip"
| "sock_ip (SockV6 ip _ _ _) = IpV6 ip"

fun sock_port :: "socket_addr \<Rightarrow> u16" where
  "sock_port (SockV4 _ p) = p"
| "sock_port (SockV6 _ p _ _) = p"

text \<open>\<open>SocketAddr::new\<close>\<close>

fun sock_new :: "ip_addr \<Rightarrow> u16 \<Rightarrow> socket_addr" where
  "sock_new (IpV4 ip) p = SockV4 ip p"
| "sock_new (IpV6 ip) p = SockV6 ip p 0 0"

fun ip_is_unspecified :: "ip_addr \<Rightarrow> bool" where
  "ip_is_unspecified (IpV4 w) = (w = 0)"
| "ip_is_unspecified (IpV6 w) = (w = 0)"

text \<open>224.0.0.0/4 and ff00::/8\<close>

fun ip_is_multicast :: "ip_addr \<Rightarrow> bool" where
  "ip_is_multicast (IpV4 w) = (drop_bit 28 w = 14)"
| "ip_is_multicast (IpV6 w) = (drop_bit 120 w = 255)"

fun ip_is_broadcast :: "ip_addr \<Rightarrow> bool" where
  "ip_is_broadcast (IpV4 w) = (w = 0xFFFFFFFF)"
| "ip_is_broadcast (IpV6 w) = False"

section \<open>Contacts and buckets\<close>

text \<open>\<open>Instant\<close> is the number of nanoseconds of the monotonic clock, a \<open>nat\<close>;
  \<open>Contact::new\<close> reads the clock, here the argument \<open>now\<close>.\<close>

type_synonym instant = nat

record contact =
  ct_id :: node_id
  ct_addr :: socket_addr
  ct_last_seen :: instant

definition contact_new :: "instant \<Rightarrow> node_id \<Rightarrow> socket_addr \<Rightarrow> contact" where
  "contact_new now i a = \<lparr>ct_id = i, ct_addr = a, ct_last_seen = now\<rparr>"

datatype update_result = Inserted | Updated | Full contact | SelfIgnored

type_synonym kbucket = "contact list"

definition bucket_is_full :: "kbucket \<Rightarrow> bool" where
  "bucket_is_full b \<longleftrightarrow> length b \<ge> K"

definition bucket_contains :: "node_id \<Rightarrow> kbucket \<Rightarrow> bool" where
  "bucket_contains i b \<longleftrightarrow> list_ex (\<lambda>c. ct_id c = i) b"

definition bucket_update :: "contact \<Rightarrow> kbucket \<Rightarrow> update_result \<times> kbucket" where
  "bucket_update c b =
     (case find_index (\<lambda>x. ct_id x = ct_id c) b of
        Some pos \<Rightarrow> (Updated, remove_at pos b @ [(b ! pos)\<lparr>ct_last_seen := ct_last_seen c\<rparr>])
      | None \<Rightarrow> if length b < K then (Inserted, b @ [c]) else (Full (b ! 0), b))"

definition bucket_force_update :: "contact \<Rightarrow> kbucket \<Rightarrow> update_result \<times> kbucket" where
  "bucket_force_update c b =
     (case find_index (\<lambda>x. ct_id x = ct_id c) b of
        Some pos \<Rightarrow> (Updated, remove_at pos b @ [c])
      | None \<Rightarrow> if length b < K then (Inserted, b @ [c]) else (Full (b ! 0), b))"

definition bucket_remove :: "node_id \<Rightarrow> kbucket \<Rightarrow> contact option \<times> kbucket" where
  "bucket_remove i b =
     (case find_index (\<lambda>x. ct_id x = i) b of
        Some pos \<Rightarrow> (Some (b ! pos), remove_at pos b)
      | None \<Rightarrow> (None, b))"

definition bucket_replace_oldest :: "contact \<Rightarrow> kbucket \<Rightarrow> kbucket" where
  "bucket_replace_oldest c b = (if b \<noteq> [] then remove_at 0 b else b) @ [c]"

section \<open>The routing table\<close>

record routing_table =
  rt_local_id :: node_id
  rt_buckets :: "kbucket list"

definition rt_new :: "node_id \<Rightarrow> routing_table" where
  "rt_new i = \<lparr>rt_local_id = i, rt_buckets = replicate NUM_BUCKETS []\<rparr>"

definition bucket_index :: "node_id \<Rightarrow> node_id \<Rightarrow> nat" where
  "bucket_index local i =
     (let prefix = shared_prefix_len local i in if prefix \<ge> NUM_BUCKETS then NUM_BUCKETS - 1 else prefix)"

definition addr_ignored :: "socket_addr \<Rightarrow> bool" where
  "addr_ignored a \<longleftrightarrow> sock_port a = 0 \<or> ip_is_unspecified (sock_ip a) \<or> ip_is_multicast (sock_ip a)"

text \<open>\<open>rt_at i f t\<close> runs a bucket operation on the bucket of the identifier \<open>i\<close>.\<close>

definition rt_at :: "node_id \<Rightarrow> (kbucket \<Rightarrow> 'a \<times> kbucket) \<Rightarrow> routing_table \<Rightarrow> 'a \<times> routing_table" where
  "rt_at i f t = (let idx = bucket_index (rt_local_id t) i; r = f (rt_buckets t ! idx) in
     (fst r, t\<lparr>rt_buckets := (rt_buckets t)[idx := snd r]\<rparr>))"

definition rt_update :: "contact \<Rightarrow> routing_table \<Rightarrow> update_result \<times> routing_table" where
  "rt_update c t =
     (if ct_id c = rt_local_id t then (SelfIgnored, t)
      else if addr_ignored (ct_addr c) then (SelfIgnored, t)
      else rt_at (ct_id c) (bucket_update c) t)"

definition rt_force_update :: "contact \<Rightarrow> routing_table \<Rightarrow> update_result \<times> routing_table" where
  "rt_force_update c t =
     (if ct_id c = rt_local_id t then (SelfIgnored, t)
      else if addr_ignored (ct_addr c) then (SelfIgnored, t)
      else rt_at (ct_id c) (bucket_force_update c) t)"

definition rt_remove :: "node_id \<Rightarrow> routing_table \<Rightarrow> contact option \<times> routing_table" where
  "rt_remove i t = rt_at i (bucket_remove i) t"

definition rt_replace_oldest :: "contact \<Rightarrow> routing_table \<Rightarrow> routing_table" where
  "rt_replace_oldest c t = snd (rt_at (ct_id c) (\<lambda>b. ((), bucket_replace_oldest c b)) t)"

definition all_contacts :: "routing_table \<Rightarrow> contact list" where
  "all_contacts t = concat (rt_buckets t)"

definition total_contacts :: "routing_table \<Rightarrow> nat" where
  "total_contacts t = sum_list (map length (rt_buckets t))"

text \<open>\<open>sort_by\<close> is a stable sort, as \<open>sort_key\<close>; then \<open>truncate(count)\<close>.\<close>

definition find_closest :: "node_id \<Rightarrow> nat \<Rightarrow> routing_table \<Rightarrow> contact list" where
  "find_closest target cnt t =
     take cnt (sort_key (\<lambda>c. distance (ct_id c) target) (all_contacts t))"

section \<open>The XOR metric\<close>

text \<open>The number an identifier denotes, most significant byte first.\<close>

fun bytes_num :: "bytes \<Rightarrow> nat" where
  "bytes_num [] = 0"
| "bytes_num (b # bs) = unat b * 256 ^ length bs + bytes_num bs"

definition id_num :: "node_id \<Rightarrow> nat" where
  "id_num i = bytes_num (as_bytes i)"

lemma bytes_num_less: "bytes_num bs < 256 ^ length bs"
proof (induction bs)
  case (Cons b bs)
  have "unat b + 1 \<le> 256" using unat_u8_less [of b] by linarith
  then have "(unat b + 1) * 256 ^ length bs \<le> 256 * 256 ^ length bs" by (intro mult_right_mono) auto
  then have "unat b * 256 ^ length bs + 256 ^ length bs \<le> 256 * 256 ^ length bs"
    by (simp only: add_mult_distrib mult_1)
  then show ?case using Cons by (simp only: bytes_num.simps length_Cons power_Suc)
qed simp

lemma digit_less:
  fixes a b x y n :: nat
  assumes "x < n" "y < n"
  shows "a * n + x < b * n + y \<longleftrightarrow> a < b \<or> a = b \<and> x < y"
proof -
  have lt: "c * n + u < d * n + v" if "c < d" "u < n" for c d u v
  proof -
    have "(c + 1) * n \<le> d * n" using that(1) by (intro mult_right_mono) simp_all
    then show ?thesis using that(2) by simp
  qed
  show ?thesis
    using lt [of a b x y] lt [of b a y x] assms by (cases a b rule: linorder_cases) auto
qed

lemma lex_less_num: "length xs = length ys \<Longrightarrow> xs < ys \<longleftrightarrow> bytes_num xs < bytes_num ys"
proof (induction xs ys rule: list_induct2)
  case (Cons x xs y ys)
  then show ?case
    using bytes_num_less [of xs] bytes_num_less [of ys]
    by (simp add: digit_less word_less_nat_alt word_unat_eq_iff)
qed simp

lemma bytes_num_inj: "length xs = length ys \<Longrightarrow> bytes_num xs = bytes_num ys \<longleftrightarrow> xs = ys"
  by (metis lex_less_num less_irrefl linorder_cases)

lemma id_less_num: "wf_id a \<Longrightarrow> wf_id b \<Longrightarrow> a < b \<longleftrightarrow> id_num a < id_num b"
  by (simp add: wf_id_def id_num_def less_node_id_def lex_less_num)

lemma id_le_num: "wf_id a \<Longrightarrow> wf_id b \<Longrightarrow> a \<le> b \<longleftrightarrow> id_num a \<le> id_num b"
  by (metis id_less_num linorder_not_less)

lemma nat_xor_le_add: "(a :: nat) XOR b \<le> a + b"
proof (induction a arbitrary: b rule: less_induct)
  case (less a)
  show ?case
  proof (cases "a = 0")
    case False
    then have IH: "a div 2 XOR b div 2 \<le> a div 2 + b div 2" by (intro less) simp
    have "of_bool (odd a \<noteq> odd b) \<le> a mod 2 + b mod 2"
      by (cases "even a"; cases "even b") (simp_all add: mod2_eq_if)
    moreover have "a = 2 * (a div 2) + a mod 2" "b = 2 * (b div 2) + b mod 2" by simp_all
    ultimately have "of_bool (odd a \<noteq> odd b) + 2 * (a div 2 XOR b div 2) \<le> a + b"
      using IH by linarith
    then show ?thesis by (subst xor_rec)
  qed simp
qed

lemma bytes_num_xor_le:
  "length xs = length ys \<Longrightarrow> bytes_num (map2 (XOR) xs ys) \<le> bytes_num xs + bytes_num ys"
proof (induction xs ys rule: list_induct2)
  case (Cons x xs y ys)
  have "unat (x XOR y) \<le> unat x + unat y"
    using nat_xor_le_add [of "unat x" "unat y"] by (simp add: unsigned_xor_eq)
  then have "unat (x XOR y) * 256 ^ length ys \<le> (unat x + unat y) * 256 ^ length ys"
    by (rule mult_right_mono) simp
  then show ?case using Cons by (simp add: algebra_simps)
qed simp

lemma map2_xor_collapse:
  "length xs = length ys \<Longrightarrow> length ys = length zs \<Longrightarrow>
   map2 (XOR) (map2 (XOR) xs ys) (map2 (XOR) ys zs) = map2 (XOR) xs (zs :: 'a::len word list)"
  by (induction xs ys zs rule: list_induct3) (simp_all add: xor.assoc flip: xor.assoc [of y y z for y z])

lemma wf_distance [simp]: "wf_id a \<Longrightarrow> wf_id b \<Longrightarrow> wf_id (distance a b)"
  by (simp add: wf_id_def distance_def)

lemma distance_sym: "distance a b = distance b a"
proof -
  have "map2 (XOR) xs ys = map2 (XOR) ys xs" for xs ys :: bytes
    by (induction xs ys rule: list_induct2') (simp_all add: xor.commute)
  then show ?thesis by (simp add: distance_def)
qed

lemma map2_xor_cancel:
  "length xs = length ys \<Longrightarrow> length xs = length zs \<Longrightarrow>
   map2 (XOR) xs ys = map2 (XOR) xs zs \<longleftrightarrow> ys = (zs :: 'a::len word list)"
proof (induction xs ys arbitrary: zs rule: list_induct2)
  case (Cons x xs y ys)
  then show ?case by (cases zs) (auto, metis xor.assoc xor.left_neutral xor_self_eq)
qed simp

text \<open>For every distance there is one identifier at it: the metric is unidirectional.\<close>

lemma distance_cancel:
  "wf_id a \<Longrightarrow> wf_id b \<Longrightarrow> wf_id c \<Longrightarrow> distance a b = distance a c \<longleftrightarrow> b = c"
  by (cases b; cases c) (simp add: wf_id_def distance_def map2_xor_cancel)

lemma map2_xor_self: "map2 (XOR) xs (xs :: 'a::len word list) = replicate (length xs) 0"
  by (induction xs) simp_all

lemma distance_zero:
  assumes "wf_id a" "wf_id b" shows "id_num (distance a b) = 0 \<longleftrightarrow> a = b"
proof -
  have z: "bytes_num (replicate n 0) = 0" for n by (induction n) simp_all
  have s: "distance a a = NodeId (replicate 20 0)"
    using assms by (simp add: distance_def map2_xor_self wf_id_def)
  have "id_num (distance a b) = 0 \<longleftrightarrow> distance a b = distance a a"
    unfolding s id_num_def using assms bytes_num_inj [of "as_bytes (distance a b)" "replicate 20 0"] z [of 20]
    by (cases "distance a b") (metis length_replicate node_id.sel wf_distance wf_id_def)
  then show ?thesis using distance_cancel [OF assms(1,2,1)] by metis
qed

lemma distance_triangle:
  assumes "wf_id a" "wf_id b" "wf_id c"
  shows "id_num (distance a c) \<le> id_num (distance a b) + id_num (distance b c)"
  using assms bytes_num_xor_le [of "as_bytes (distance a b)" "as_bytes (distance b c)"]
  by (simp add: wf_id_def distance_def id_num_def map2_xor_collapse)

section \<open>What the bucket index says about the distance\<close>

lemma leading_zeros8_table:
  "list_all (\<lambda>n. let x = word_of_nat n :: u8; k = leading_zeros8 x in
      k < 8 \<and> 2 ^ (7 - k) \<le> n \<and> n < 2 ^ (8 - k)) [1..<256]"
  by code_simp

lemma leading_zeros8_spec:
  assumes "x \<noteq> 0"
  shows "leading_zeros8 x < 8" "2 ^ (7 - leading_zeros8 x) \<le> unat x" "unat x < 2 ^ (8 - leading_zeros8 x)"
proof -
  have "unat x \<in> set [1..<256]" using assms unat_u8_less [of x] by (auto simp: unat_eq_zero Suc_le_eq unat_gt_0)
  with leading_zeros8_table have "let y = word_of_nat (unat x) :: u8; k = leading_zeros8 y in
      k < 8 \<and> 2 ^ (7 - k) \<le> unat x \<and> unat x < 2 ^ (8 - k)"
    unfolding list_all_iff by blast
  then show "leading_zeros8 x < 8" "2 ^ (7 - leading_zeros8 x) \<le> unat x" "unat x < 2 ^ (8 - leading_zeros8 x)"
    by (simp_all add: Let_def)
qed

lemma xor_zero_eq: "(x :: 'a::len word) XOR y = 0 \<Longrightarrow> x = y"
  by (metis xor.assoc xor.left_neutral xor.right_neutral xor_self_eq)

lemma shared_prefix_range:
  assumes "length xs = length ys" "xs \<noteq> ys"
  defines "k \<equiv> ffi_shared_prefix_bits xs ys" and "d \<equiv> bytes_num (map2 (XOR) xs ys)"
  shows "k < 8 * length xs \<and> 2 ^ (8 * length xs - 1 - k) \<le> d \<and> d < 2 ^ (8 * length xs - k)"
  using assms(1,2) unfolding k_def d_def
proof (induction xs ys rule: list_induct2)
  case (Cons x xs y ys)
  let ?n = "length ys" and ?x = "x XOR y" and ?r = "bytes_num (map2 (XOR) xs ys)"
  have r: "?r < 256 ^ ?n" using bytes_num_less [of "map2 (XOR) xs ys"] Cons.hyps by simp
  show ?case
  proof (cases "?x = 0")
    case True
    then have "x = y" by (rule xor_zero_eq)
    then have ne: "xs \<noteq> ys" using Cons.prems by simp
    have e: "8 * Suc ?n - 1 - (8 + m) = 8 * ?n - 1 - m" "8 * Suc ?n - (8 + m) = 8 * ?n - m" for m
      by simp_all
    show ?thesis using True Cons.IH [OF ne] Cons.hyps
      by (simp only: ffi_shared_prefix_bits.simps if_True length_Cons list.map zip_Cons_Cons split
          bytes_num.simps unsigned_0 mult_0 add_0 e) simp
  next
    case False
    define k where "k = leading_zeros8 ?x"
    note lz = leading_zeros8_spec [OF False, folded k_def]
    have p: "(256 :: nat) ^ ?n = 2 ^ (8 * ?n)" by (simp add: power_mult)
    have "2 ^ (7 - k) * 256 ^ ?n \<le> unat ?x * 256 ^ ?n" using lz by (intro mult_right_mono) simp_all
    moreover have "(unat ?x + 1) * 256 ^ ?n \<le> 2 ^ (8 - k) * 256 ^ ?n" using lz by (intro mult_right_mono) simp_all
    moreover have "(2 :: nat) ^ (7 - k) * 256 ^ ?n = 2 ^ (8 * Suc ?n - 1 - k)"
      "(2 :: nat) ^ (8 - k) * 256 ^ ?n = 2 ^ (8 * Suc ?n - k)"
      unfolding p using lz(1) by (simp_all add: add.commute flip: power_add)
    ultimately have "2 ^ (8 * Suc ?n - 1 - k) \<le> unat ?x * 256 ^ ?n + ?r"
      "unat ?x * 256 ^ ?n + ?r < 2 ^ (8 * Suc ?n - k)"
      using r unfolding add_mult_distrib by linarith+
    then show ?thesis using False lz(1) Cons.hyps by (simp add: k_def)
  qed
qed simp

lemma bucket_index_less: "bucket_index a b < NUM_BUCKETS"
  by (simp add: bucket_index_def Let_def)

lemma power2_gap:
  fixes d :: nat
  assumes "2 ^ (159 - k) \<le> d" "d < 2 ^ (160 - k)" "2 ^ (159 - j) \<le> d" "d < 2 ^ (160 - j)" "k < 160" "j < 160"
  shows "k = j"
proof -
  have "(2::nat) ^ (159 - k) < 2 ^ (160 - j)" "(2::nat) ^ (159 - j) < 2 ^ (160 - k)" using assms by linarith+
  then have "159 - k < 160 - j" "159 - j < 160 - k"
    by (auto intro: power_less_imp_less_exp [of "2 :: nat"])
  then show ?thesis using assms by linarith
qed

lemma bucket_index_iff:
  assumes "wf_id a" "wf_id b" "a \<noteq> b"
  shows "bucket_index a b = k \<longleftrightarrow>
    k < 160 \<and> 2 ^ (159 - k) \<le> id_num (distance a b) \<and> id_num (distance a b) < 2 ^ (160 - k)"
proof -
  let ?j = "bucket_index a b"
  have "as_bytes a \<noteq> as_bytes b" using assms(3) by (metis node_id.expand)
  then have j: "?j < 160 \<and> 2 ^ (159 - ?j) \<le> id_num (distance a b) \<and> id_num (distance a b) < 2 ^ (160 - ?j)"
    using shared_prefix_range [of "as_bytes a" "as_bytes b"] assms
    by (simp add: wf_id_def bucket_index_def shared_prefix_len_def Let_def id_num_def distance_def)
  then show ?thesis using power2_gap [of ?j "id_num (distance a b)" k] by blast
qed

section \<open>Hex form of an identifier\<close>

lemma id_hex_roundtrip: "wf_id i \<Longrightarrow> id_from_hex (id_to_hex i) = Done (Ok i)"
  using parse_hex_pairs_to_hex [of "as_bytes i"]
  by (simp add: id_from_hex_def id_to_hex_def wf_id_def flip: ffi_node_id_to_hex_def)

lemma id_from_hex_wf: "id_from_hex s = Done (Ok i) \<Longrightarrow> wf_id i"
  by (auto simp: id_from_hex_def Let_def exec_bind_def wf_id_def dest: parse_hex_pairs_length
      split: if_splits exec.splits sum.splits)

section \<open>The contract of a table of contacts\<close>

text \<open>What the network code relies on: the outcome of an update says how the set of known
  identifiers changed, and a removal removes the identifier.\<close>

locale contact_table =
  fixes ids :: "'t \<Rightarrow> node_id set"
    and upd :: "contact \<Rightarrow> 't \<Rightarrow> update_result \<times> 't"
    and rem :: "node_id \<Rightarrow> 't \<Rightarrow> contact option \<times> 't"
    and inv :: "'t \<Rightarrow> bool"
    and admit :: "contact \<Rightarrow> 't \<Rightarrow> bool"
  assumes upd_inv: "inv t \<Longrightarrow> admit c t \<Longrightarrow> inv (snd (upd c t))"
    and rem_inv: "inv t \<Longrightarrow> inv (snd (rem i t))"
    and upd_inserted: "inv t \<Longrightarrow> fst (upd c t) = Inserted \<Longrightarrow>
          ct_id c \<notin> ids t \<and> ids (snd (upd c t)) = insert (ct_id c) (ids t)"
    and upd_updated: "inv t \<Longrightarrow> fst (upd c t) = Updated \<Longrightarrow> ct_id c \<in> ids t \<and> ids (snd (upd c t)) = ids t"
    and upd_full: "inv t \<Longrightarrow> fst (upd c t) = Full d \<Longrightarrow>
          ct_id c \<notin> ids t \<and> ct_id d \<in> ids t \<and> snd (upd c t) = t"
    and upd_ignored: "inv t \<Longrightarrow> fst (upd c t) = SelfIgnored \<Longrightarrow> snd (upd c t) = t"
    and rem_ids: "inv t \<Longrightarrow> ids (snd (rem i t)) = ids t - {i}"
    and rem_found: "inv t \<Longrightarrow> fst (rem i t) \<noteq> None \<longleftrightarrow> i \<in> ids t"
begin

text \<open>An update never loses a known identifier and adds at most the one offered.\<close>

lemma upd_keeps: "inv t \<Longrightarrow> ids t \<subseteq> ids (snd (upd c t))"
  using upd_inserted [of t c] upd_updated [of t c] upd_full [of t c] upd_ignored [of t c]
  by (cases "fst (upd c t)") auto

lemma upd_adds: "inv t \<Longrightarrow> ids (snd (upd c t)) \<subseteq> insert (ct_id c) (ids t)"
  using upd_inserted [of t c] upd_updated [of t c] upd_full [of t c] upd_ignored [of t c]
  by (cases "fst (upd c t)") auto

lemma upd_known: "inv t \<Longrightarrow> fst (upd c t) = Inserted \<or> fst (upd c t) = Updated \<Longrightarrow> ct_id c \<in> ids (snd (upd c t))"
  using upd_inserted [of t c] upd_updated [of t c] by auto

text \<open>Dropping the contact that a full table offers makes room: the identifier it had is gone and
  nothing else is.\<close>

lemma evict_offered:
  assumes "inv t" "fst (upd c t) = Full d"
  shows "ids (snd (rem (ct_id d) (snd (upd c t)))) = ids t - {ct_id d}"
  using assms upd_full [OF assms] by (simp add: rem_ids)

end

section \<open>Bucket operations\<close>

lemma find_index_split:
  assumes "find_index p xs = Some i"
  shows "xs = take i xs @ xs ! i # drop (Suc i) xs \<and> p (xs ! i) \<and> (\<forall>x \<in> set (take i xs). \<not> p x)"
proof -
  have i: "i < length xs" "p (xs ! i)" "\<forall>j < i. \<not> p (xs ! j)" using find_index_Some [OF assms] by auto
  then have "\<forall>x \<in> set (take i xs). \<not> p x" by (auto simp: in_set_conv_nth)
  then show ?thesis using i id_take_nth_drop by blast
qed

lemma remove_at_filter:
  assumes "distinct (map f xs)" "find_index (\<lambda>x. f x = k) xs = Some i"
  shows "remove_at i xs = filter (\<lambda>x. f x \<noteq> k) xs"
proof -
  obtain as x bs where s: "xs = as @ x # bs" "f x = k" "\<forall>y \<in> set as. f y \<noteq> k" "remove_at i xs = as @ bs"
    using find_index_split [OF assms(2)] unfolding remove_at_def by blast
  have "\<forall>y \<in> set bs. f y \<noteq> k" using assms(1) s(1,2) by (auto simp: image_iff)
  then show ?thesis using s by (simp add: filter_id_conv)
qed

definition bucket_wf :: "kbucket \<Rightarrow> bool" where
  "bucket_wf b \<longleftrightarrow> length b \<le> K \<and> distinct (map ct_id b)"

abbreviation others :: "node_id \<Rightarrow> kbucket \<Rightarrow> kbucket" where
  "others i b \<equiv> filter (\<lambda>x. ct_id x \<noteq> i) b"

lemma others_absent: "i \<notin> ct_id ` set b \<Longrightarrow> others i b = b"
  by (auto simp: filter_id_conv)

lemma find_contact:
  assumes "distinct (map ct_id b)"
  obtains (found) j where "find_index (\<lambda>x. ct_id x = i) b = Some j" "b ! j \<in> set b" "ct_id (b ! j) = i"
      "i \<in> ct_id ` set b" "length (others i b) < length b" "remove_at j b = others i b"
    | (absent) "find_index (\<lambda>x. ct_id x = i) b = None" "i \<notin> ct_id ` set b"
proof (cases "find_index (\<lambda>x. ct_id x = i) b")
  case None
  then show thesis using absent find_index_None [of "\<lambda>x. ct_id x = i" b] by auto
next
  case (Some j)
  then have j: "j < length b" "ct_id (b ! j) = i" using find_index_Some [OF Some] by auto
  then have m: "b ! j \<in> set b" "i \<in> ct_id ` set b" by (simp, metis imageI nth_mem)
  have "length (others i b) < length b" using length_filter_less [OF m(1)] j(2) by simp
  then show thesis using found [OF Some] j m remove_at_filter [OF assms Some] by simp
qed

text \<open>The three outcomes of an update of a well-formed bucket.\<close>

lemma bucket_update_outcome:
  assumes "bucket_wf b"
  obtains (updated) e where "e \<in> set b" "ct_id e = ct_id c" "ct_id c \<in> ct_id ` set b"
      "length (others (ct_id c) b) < length b"
      "bucket_update c b = (Updated, others (ct_id c) b @ [e\<lparr>ct_last_seen := ct_last_seen c\<rparr>])"
    | (inserted) "ct_id c \<notin> ct_id ` set b" "length b < K" "bucket_update c b = (Inserted, b @ [c])"
    | (full) "ct_id c \<notin> ct_id ` set b" "length b = K" "bucket_update c b = (Full (b ! 0), b)"
  using assms unfolding bucket_wf_def bucket_update_def
  by (elim conjE find_contact [of b "ct_id c"]) (auto simp: le_less split: if_splits)

lemma bucket_force_outcome:
  assumes "bucket_wf b"
  obtains (updated) "ct_id c \<in> ct_id ` set b" "length (others (ct_id c) b) < length b"
      "bucket_force_update c b = (Updated, others (ct_id c) b @ [c])"
    | (inserted) "ct_id c \<notin> ct_id ` set b" "length b < K" "bucket_force_update c b = (Inserted, b @ [c])"
    | (full) "ct_id c \<notin> ct_id ` set b" "length b = K" "bucket_force_update c b = (Full (b ! 0), b)"
  using assms unfolding bucket_wf_def bucket_force_update_def
  by (elim conjE find_contact [of b "ct_id c"]) (auto simp: le_less split: if_splits)

lemma bucket_remove_outcome:
  assumes "bucket_wf b"
  shows "snd (bucket_remove i b) = others i b"
    and "fst (bucket_remove i b) \<noteq> None \<longleftrightarrow> i \<in> ct_id ` set b"
proof -
  have "snd (bucket_remove i b) = others i b \<and> (fst (bucket_remove i b) \<noteq> None \<longleftrightarrow> i \<in> ct_id ` set b)"
    using assms unfolding bucket_wf_def bucket_remove_def
    by (elim conjE find_contact [of b i]) (simp_all add: others_absent)
  then show "snd (bucket_remove i b) = others i b"
    "fst (bucket_remove i b) \<noteq> None \<longleftrightarrow> i \<in> ct_id ` set b" by blast+
qed

text \<open>A property of every contact that does not look at the time of last contact is kept.\<close>

definition contacts_all :: "(node_id \<Rightarrow> socket_addr \<Rightarrow> bool) \<Rightarrow> kbucket \<Rightarrow> bool" where
  "contacts_all p b \<longleftrightarrow> (\<forall>c \<in> set b. p (ct_id c) (ct_addr c))"

lemma bucket_update_wf [inv_intros]:
  assumes "bucket_wf b" shows "bucket_wf (snd (bucket_update c b))"
  using assms by (rule bucket_update_outcome [of b c])
    (use assms in \<open>auto simp: bucket_wf_def distinct_map_filter\<close>)

lemma bucket_force_update_wf [inv_intros]:
  assumes "bucket_wf b" shows "bucket_wf (snd (bucket_force_update c b))"
  using assms by (rule bucket_force_outcome [of b c])
    (use assms in \<open>auto simp: bucket_wf_def distinct_map_filter\<close>)

lemma bucket_remove_wf [inv_intros]: "bucket_wf b \<Longrightarrow> bucket_wf (snd (bucket_remove i b))"
  by (simp add: bucket_remove_outcome)
    (auto simp: bucket_wf_def distinct_map_filter intro: order_trans [OF length_filter_le])

lemma bucket_update_all:
  assumes "bucket_wf b" "contacts_all p b" "p (ct_id c) (ct_addr c)"
  shows "contacts_all p (snd (bucket_update c b))"
  using assms(1) by (rule bucket_update_outcome [of b c])
    (use assms in \<open>auto simp: contacts_all_def\<close>)

lemma bucket_force_update_all:
  assumes "bucket_wf b" "contacts_all p b" "p (ct_id c) (ct_addr c)"
  shows "contacts_all p (snd (bucket_force_update c b))"
  using assms(1) by (rule bucket_force_outcome [of b c])
    (use assms in \<open>auto simp: contacts_all_def\<close>)

lemma bucket_remove_all: "bucket_wf b \<Longrightarrow> contacts_all p b \<Longrightarrow> contacts_all p (snd (bucket_remove i b))"
  by (simp add: contacts_all_def bucket_remove_outcome)

lemma others_ids: "ct_id ` set (others i b) = ct_id ` set b - {i}"
  by auto

lemma bucket_upd_ids:
  assumes "bucket_wf b"
  shows "fst (bucket_update c b) = Inserted \<Longrightarrow>
          ct_id c \<notin> ct_id ` set b \<and> ct_id ` set (snd (bucket_update c b)) = insert (ct_id c) (ct_id ` set b)"
    and "fst (bucket_update c b) = Updated \<Longrightarrow>
          ct_id c \<in> ct_id ` set b \<and> ct_id ` set (snd (bucket_update c b)) = ct_id ` set b"
    and "fst (bucket_update c b) = Full d \<Longrightarrow>
          ct_id c \<notin> ct_id ` set b \<and> d = b ! 0 \<and> d \<in> set b \<and> snd (bucket_update c b) = b \<and> length b = K"
    and "fst (bucket_update c b) \<noteq> SelfIgnored"
  by (rule bucket_update_outcome [OF assms, of c]; auto simp del: set_filter simp: others_ids)+

lemma bucket_force_ids:
  assumes "bucket_wf b"
  shows "fst (bucket_force_update c b) = Inserted \<Longrightarrow>
          ct_id c \<notin> ct_id ` set b \<and> ct_id ` set (snd (bucket_force_update c b)) = insert (ct_id c) (ct_id ` set b)"
    and "fst (bucket_force_update c b) = Updated \<Longrightarrow>
          ct_id c \<in> ct_id ` set b \<and> ct_id ` set (snd (bucket_force_update c b)) = ct_id ` set b"
    and "fst (bucket_force_update c b) = Full d \<Longrightarrow>
          ct_id c \<notin> ct_id ` set b \<and> d = b ! 0 \<and> d \<in> set b \<and> snd (bucket_force_update c b) = b \<and> length b = K"
    and "fst (bucket_force_update c b) \<noteq> SelfIgnored"
  by (rule bucket_force_outcome [OF assms, of c]; auto simp del: set_filter simp: others_ids)+

lemma bucket_rem_ids: "bucket_wf b \<Longrightarrow> ct_id ` set (snd (bucket_remove i b)) = ct_id ` set b - {i}"
  by (simp only: bucket_remove_outcome others_ids)

interpretation bucket: contact_table "\<lambda>b. ct_id ` set b" bucket_update bucket_remove bucket_wf "\<lambda>_ _. True"
proof unfold_locales
  fix t c assume t: "bucket_wf t"
  note u = bucket_upd_ids [OF t]
  show "bucket_wf (snd (bucket_update c t))" using t by (rule bucket_update_wf)
  show "ct_id c \<notin> ct_id ` set t \<and> ct_id ` set (snd (bucket_update c t)) = insert (ct_id c) (ct_id ` set t)"
    if "fst (bucket_update c t) = Inserted" using u(1) that .
  show "ct_id c \<in> ct_id ` set t \<and> ct_id ` set (snd (bucket_update c t)) = ct_id ` set t"
    if "fst (bucket_update c t) = Updated" using u(2) that .
  show "ct_id c \<notin> ct_id ` set t \<and> ct_id d \<in> ct_id ` set t \<and> snd (bucket_update c t) = t"
    if "fst (bucket_update c t) = Full d" for d using u(3) that by blast
  show "snd (bucket_update c t) = t" if "fst (bucket_update c t) = SelfIgnored" using u(4) that by blast
next
  fix t i assume t: "bucket_wf t"
  show "bucket_wf (snd (bucket_remove i t))" using t by (rule bucket_remove_wf)
  show "ct_id ` set (snd (bucket_remove i t)) = ct_id ` set t - {i}" using t by (rule bucket_rem_ids)
  show "(fst (bucket_remove i t) \<noteq> None) = (i \<in> ct_id ` set t)"
    using t by (rule bucket_remove_outcome)
qed

text \<open>The order of a bucket is the order of last contact, so a full bucket offers its least
  recently seen contact.\<close>

lemma bucket_update_sorted:
  assumes "bucket_wf b" "sorted (map ct_last_seen b)" "\<forall>x \<in> set b. ct_last_seen x \<le> ct_last_seen c"
  shows "sorted (map ct_last_seen (snd (bucket_update c b)))"
  by (rule bucket_update_outcome [OF assms(1), of c])
    (use assms in \<open>auto simp: sorted_append intro: sorted_filter\<close>)

lemma bucket_full_oldest:
  assumes "bucket_wf b" "sorted (map ct_last_seen b)" "fst (bucket_update c b) = Full d"
  shows "\<forall>x \<in> set b. ct_last_seen d \<le> ct_last_seen x"
  using bucket_upd_ids(3) [OF assms(1,3)] assms(2) by (cases b) auto

section \<open>The routing table\<close>

definition in_place :: "node_id \<Rightarrow> nat \<Rightarrow> node_id \<Rightarrow> socket_addr \<Rightarrow> bool" where
  "in_place local idx i a \<longleftrightarrow> i \<noteq> local \<and> bucket_index local i = idx \<and> \<not> addr_ignored a"

definition rt_inv :: "routing_table \<Rightarrow> bool" where
  "rt_inv t \<longleftrightarrow> length (rt_buckets t) = NUM_BUCKETS \<and>
     (\<forall>k < NUM_BUCKETS. bucket_wf (rt_buckets t ! k) \<and>
        contacts_all (in_place (rt_local_id t) k) (rt_buckets t ! k))"

definition rt_ids :: "routing_table \<Rightarrow> node_id set" where
  "rt_ids t = ct_id ` set (all_contacts t)"

abbreviation bucket_of :: "routing_table \<Rightarrow> node_id \<Rightarrow> kbucket" where
  "bucket_of t i \<equiv> rt_buckets t ! bucket_index (rt_local_id t) i"

lemma rt_inv_new: "rt_inv (rt_new i)"
  by (simp add: rt_inv_def rt_new_def bucket_wf_def contacts_all_def)

lemma rt_inv_bucket:
  assumes "rt_inv t"
  shows "bucket_wf (bucket_of t i)"
    "contacts_all (in_place (rt_local_id t) (bucket_index (rt_local_id t) i)) (bucket_of t i)"
  using assms bucket_index_less [of "rt_local_id t" i] by (simp_all add: rt_inv_def)

lemma rt_at_inv:
  assumes "rt_inv t" "bucket_wf (snd (f (bucket_of t i)))"
    "contacts_all (in_place (rt_local_id t) (bucket_index (rt_local_id t) i)) (snd (f (bucket_of t i)))"
  shows "rt_inv (snd (rt_at i f t))"
  using assms bucket_index_less [of "rt_local_id t" i]
  by (auto simp: rt_inv_def rt_at_def Let_def nth_list_update)

lemma rt_update_inv [inv_intros]: "rt_inv t \<Longrightarrow> rt_inv (snd (rt_update c t))"
  by (auto simp: rt_update_def in_place_def
      intro!: rt_at_inv bucket_update_wf bucket_update_all rt_inv_bucket)

lemma rt_force_update_inv [inv_intros]: "rt_inv t \<Longrightarrow> rt_inv (snd (rt_force_update c t))"
  by (auto simp: rt_force_update_def in_place_def
      intro!: rt_at_inv bucket_force_update_wf bucket_force_update_all rt_inv_bucket)

lemma rt_remove_inv [inv_intros]: "rt_inv t \<Longrightarrow> rt_inv (snd (rt_remove i t))"
  by (auto simp: rt_remove_def intro!: rt_at_inv bucket_remove_wf bucket_remove_all rt_inv_bucket)

lemma rt_local_id_kept [simp]:
  "rt_local_id (snd (rt_update c t)) = rt_local_id t"
  "rt_local_id (snd (rt_force_update c t)) = rt_local_id t"
  "rt_local_id (snd (rt_remove i t)) = rt_local_id t"
  "rt_local_id (rt_replace_oldest c t) = rt_local_id t"
  by (simp_all add: rt_update_def rt_force_update_def rt_remove_def rt_replace_oldest_def rt_at_def Let_def)

lemma mem_all_contacts:
  assumes "rt_inv t"
  shows "c \<in> set (all_contacts t) \<longleftrightarrow> c \<in> set (bucket_of t (ct_id c))"
proof
  assume "c \<in> set (all_contacts t)"
  then obtain k where k: "k < length (rt_buckets t)" "c \<in> set (rt_buckets t ! k)"
    unfolding all_contacts_def by (metis UN_E in_set_conv_nth set_concat)
  then have "bucket_index (rt_local_id t) (ct_id c) = k"
    using assms by (auto simp: rt_inv_def contacts_all_def in_place_def)
  then show "c \<in> set (bucket_of t (ct_id c))" using k by simp
next
  assume "c \<in> set (bucket_of t (ct_id c))"
  then show "c \<in> set (all_contacts t)"
    using assms bucket_index_less [of "rt_local_id t" "ct_id c"]
    by (auto simp: all_contacts_def rt_inv_def intro!: bexI [OF _ nth_mem])
qed

lemma rt_ids_bucket: "rt_inv t \<Longrightarrow> j \<in> rt_ids t \<longleftrightarrow> j \<in> ct_id ` set (bucket_of t j)"
  unfolding rt_ids_def using mem_all_contacts by fastforce

lemma rt_at_bucket:
  assumes "rt_inv t"
  shows "bucket_of (snd (rt_at i f t)) j =
    (if bucket_index (rt_local_id t) j = bucket_index (rt_local_id t) i
     then snd (f (bucket_of t i)) else bucket_of t j)"
  using assms bucket_index_less [of "rt_local_id t" i] bucket_index_less [of "rt_local_id t" j]
  by (auto simp: rt_at_def Let_def rt_inv_def nth_list_update)

text \<open>How a bucket operation on the bucket of \<open>i\<close>, which only adds or removes \<open>i\<close>, changes the
  identifiers of the table.\<close>

lemma rt_at_ids:
  assumes t: "rt_inv t" and t': "rt_inv (snd (rt_at i f t))"
    and f: "\<And>j. j \<noteq> i \<Longrightarrow> j \<in> ct_id ` set (snd (f (bucket_of t i))) \<longleftrightarrow> j \<in> ct_id ` set (bucket_of t i)"
  shows "j \<in> rt_ids (snd (rt_at i f t)) \<longleftrightarrow>
    (if j = i then i \<in> ct_id ` set (snd (f (bucket_of t i))) else j \<in> rt_ids t)"
  using f [of j] unfolding rt_ids_bucket [OF t] rt_ids_bucket [OF t'] rt_at_bucket [OF t]
  by (auto split: if_splits)

lemma rt_at_insert:
  assumes t: "rt_inv t" and t': "rt_inv (snd (rt_at i f t))"
    and f: "ct_id ` set (snd (f (bucket_of t i))) = insert i (ct_id ` set (bucket_of t i))"
  shows "rt_ids (snd (rt_at i f t)) = insert i (rt_ids t)"
proof (rule set_eqI)
  fix j show "j \<in> rt_ids (snd (rt_at i f t)) \<longleftrightarrow> j \<in> insert i (rt_ids t)"
    using rt_at_ids [OF t t', of j] f by (auto split: if_splits)
qed

lemma rt_at_delete:
  assumes t: "rt_inv t" and t': "rt_inv (snd (rt_at i f t))"
    and f: "ct_id ` set (snd (f (bucket_of t i))) = ct_id ` set (bucket_of t i) - {i}"
  shows "rt_ids (snd (rt_at i f t)) = rt_ids t - {i}"
proof (rule set_eqI)
  fix j show "j \<in> rt_ids (snd (rt_at i f t)) \<longleftrightarrow> j \<in> rt_ids t - {i}"
    using rt_at_ids [OF t t', of j] f by (auto split: if_splits)
qed

lemma fst_rt_at: "fst (rt_at i f t) = fst (f (bucket_of t i))"
  by (simp add: rt_at_def Let_def)

lemma rt_at_same: "snd (f (bucket_of t i)) = bucket_of t i \<Longrightarrow> snd (rt_at i f t) = t"
  by (simp add: rt_at_def Let_def)

lemma bucket_subset_ids: "rt_inv t \<Longrightarrow> d \<in> set (bucket_of t i) \<Longrightarrow> ct_id d \<in> rt_ids t"
  using bucket_index_less [of "rt_local_id t" i]
  by (auto simp: rt_ids_def all_contacts_def rt_inv_def intro!: imageI bexI [OF _ nth_mem])

lemma rt_update_acts:
  "fst (rt_update c t) \<noteq> SelfIgnored \<Longrightarrow> rt_update c t = rt_at (ct_id c) (bucket_update c) t"
  by (auto simp: rt_update_def split: if_splits)

lemma rt_force_acts:
  "fst (rt_force_update c t) \<noteq> SelfIgnored \<Longrightarrow> rt_force_update c t = rt_at (ct_id c) (bucket_force_update c) t"
  by (auto simp: rt_force_update_def split: if_splits)

lemma rt_upd_ids:
  assumes t: "rt_inv t"
  shows "fst (rt_update c t) = Inserted \<Longrightarrow> ct_id c \<notin> rt_ids t \<and> rt_ids (snd (rt_update c t)) = insert (ct_id c) (rt_ids t)"
    and "fst (rt_update c t) = Updated \<Longrightarrow> ct_id c \<in> rt_ids t \<and> rt_ids (snd (rt_update c t)) = rt_ids t"
    and "fst (rt_update c t) = Full d \<Longrightarrow> ct_id c \<notin> rt_ids t \<and> ct_id d \<in> rt_ids t \<and> snd (rt_update c t) = t"
    and "fst (rt_update c t) = SelfIgnored \<Longrightarrow> snd (rt_update c t) = t"
proof -
  note inv = rt_update_inv [OF t, of c]
  note b = bucket_upd_ids [OF rt_inv_bucket(1) [OF t], of c "ct_id c"]
  note acts = rt_update_acts [of c t]
  note ids = rt_ids_bucket [OF t, of "ct_id c"]
  {
    assume r: "fst (rt_update c t) = Inserted"
    with acts have a: "rt_update c t = rt_at (ct_id c) (bucket_update c) t" by simp
    then have "fst (bucket_update c (bucket_of t (ct_id c))) = Inserted" using r by (simp add: fst_rt_at)
    from b(1) [OF this] show "ct_id c \<notin> rt_ids t \<and> rt_ids (snd (rt_update c t)) = insert (ct_id c) (rt_ids t)"
      using rt_at_insert [OF t inv [unfolded a]] ids unfolding a by blast
  next
    assume r: "fst (rt_update c t) = Updated"
    with acts have a: "rt_update c t = rt_at (ct_id c) (bucket_update c) t" by simp
    then have "fst (bucket_update c (bucket_of t (ct_id c))) = Updated" using r by (simp add: fst_rt_at)
    from b(2) [OF this] show "ct_id c \<in> rt_ids t \<and> rt_ids (snd (rt_update c t)) = rt_ids t"
      using rt_at_insert [OF t inv [unfolded a]] ids unfolding a by (simp add: insert_absorb)
  next
    assume r: "fst (rt_update c t) = Full d"
    with acts have a: "rt_update c t = rt_at (ct_id c) (bucket_update c) t" by simp
    then have "fst (bucket_update c (bucket_of t (ct_id c))) = Full d" using r by (simp add: fst_rt_at)
    from b(3) [OF this] show "ct_id c \<notin> rt_ids t \<and> ct_id d \<in> rt_ids t \<and> snd (rt_update c t) = t"
      unfolding a using ids bucket_subset_ids [OF t] by (auto intro: rt_at_same)
  next
    assume "fst (rt_update c t) = SelfIgnored"
    then show "snd (rt_update c t) = t"
      using bucket_upd_ids(4) [OF rt_inv_bucket(1) [OF t], of c]
      by (auto simp: rt_update_def fst_rt_at split: if_splits)
  }
qed

lemma rt_force_ids:
  assumes t: "rt_inv t"
  shows "fst (rt_force_update c t) = Inserted \<Longrightarrow> ct_id c \<notin> rt_ids t \<and> rt_ids (snd (rt_force_update c t)) = insert (ct_id c) (rt_ids t)"
    and "fst (rt_force_update c t) = Updated \<Longrightarrow> ct_id c \<in> rt_ids t \<and> rt_ids (snd (rt_force_update c t)) = rt_ids t"
    and "fst (rt_force_update c t) = Full d \<Longrightarrow> ct_id c \<notin> rt_ids t \<and> ct_id d \<in> rt_ids t \<and> snd (rt_force_update c t) = t"
    and "fst (rt_force_update c t) = SelfIgnored \<Longrightarrow> snd (rt_force_update c t) = t"
proof -
  note inv = rt_force_update_inv [OF t, of c]
  note b = bucket_force_ids [OF rt_inv_bucket(1) [OF t], of c "ct_id c"]
  note acts = rt_force_acts [of c t]
  note ids = rt_ids_bucket [OF t, of "ct_id c"]
  {
    assume r: "fst (rt_force_update c t) = Inserted"
    with acts have a: "rt_force_update c t = rt_at (ct_id c) (bucket_force_update c) t" by simp
    then have "fst (bucket_force_update c (bucket_of t (ct_id c))) = Inserted" using r by (simp add: fst_rt_at)
    from b(1) [OF this] show "ct_id c \<notin> rt_ids t \<and> rt_ids (snd (rt_force_update c t)) = insert (ct_id c) (rt_ids t)"
      using rt_at_insert [OF t inv [unfolded a]] ids unfolding a by blast
  next
    assume r: "fst (rt_force_update c t) = Updated"
    with acts have a: "rt_force_update c t = rt_at (ct_id c) (bucket_force_update c) t" by simp
    then have "fst (bucket_force_update c (bucket_of t (ct_id c))) = Updated" using r by (simp add: fst_rt_at)
    from b(2) [OF this] show "ct_id c \<in> rt_ids t \<and> rt_ids (snd (rt_force_update c t)) = rt_ids t"
      using rt_at_insert [OF t inv [unfolded a]] ids unfolding a by (simp add: insert_absorb)
  next
    assume r: "fst (rt_force_update c t) = Full d"
    with acts have a: "rt_force_update c t = rt_at (ct_id c) (bucket_force_update c) t" by simp
    then have "fst (bucket_force_update c (bucket_of t (ct_id c))) = Full d" using r by (simp add: fst_rt_at)
    from b(3) [OF this] show "ct_id c \<notin> rt_ids t \<and> ct_id d \<in> rt_ids t \<and> snd (rt_force_update c t) = t"
      unfolding a using ids bucket_subset_ids [OF t] by (auto intro: rt_at_same)
  next
    assume "fst (rt_force_update c t) = SelfIgnored"
    then show "snd (rt_force_update c t) = t"
      using bucket_force_ids(4) [OF rt_inv_bucket(1) [OF t], of c]
      by (auto simp: rt_force_update_def fst_rt_at split: if_splits)
  }
qed

lemma rt_rem_ids: "rt_inv t \<Longrightarrow> rt_ids (snd (rt_remove i t)) = rt_ids t - {i}"
  unfolding rt_remove_def
  by (rule rt_at_delete) (auto simp: rt_inv_bucket bucket_rem_ids simp flip: rt_remove_def intro: rt_remove_inv)

lemma rt_rem_found: "rt_inv t \<Longrightarrow> fst (rt_remove i t) \<noteq> None \<longleftrightarrow> i \<in> rt_ids t"
  unfolding rt_remove_def fst_rt_at rt_ids_bucket
  by (rule bucket_remove_outcome(2)) (rule rt_inv_bucket)

interpretation rt: contact_table rt_ids rt_update rt_remove rt_inv "\<lambda>_ _. True"
  by unfold_locales
    (rule rt_update_inv rt_remove_inv rt_upd_ids rt_rem_ids rt_rem_found; assumption)+

interpretation rt_force: contact_table rt_ids rt_force_update rt_remove rt_inv "\<lambda>_ _. True"
  by unfold_locales
    (rule rt_force_update_inv rt_remove_inv rt_force_ids rt_rem_ids rt_rem_found; assumption)+

text \<open>The operations of the routing table as steps.\<close>

datatype rt_op = RtUpdate contact | RtForceUpdate contact | RtRemove node_id

fun rt_step :: "rt_op \<Rightarrow> routing_table \<Rightarrow> routing_table" where
  "rt_step (RtUpdate c) t = snd (rt_update c t)"
| "rt_step (RtForceUpdate c) t = snd (rt_force_update c t)"
| "rt_step (RtRemove i) t = snd (rt_remove i t)"

interpretation rt_sys: op_system rt_step "\<lambda>_. True" rt_inv
proof
  fix a s assume "rt_inv s"
  then show "rt_inv (rt_step a s)" by (cases a) (simp_all add: inv_intros)
qed

section \<open>Distinctness over the whole table\<close>

lemma distinct_concat_by:
  assumes "\<forall>i < length bs. distinct (map f (bs ! i)) \<and> (\<forall>x \<in> set (bs ! i). g (f x) = i + k)"
  shows "distinct (map f (concat bs)) \<and> (\<forall>x \<in> set (concat bs). k \<le> g (f x))"
  using assms
proof (induction bs arbitrary: k)
  case (Cons b bs)
  have "\<forall>i < length bs. distinct (map f (bs ! i)) \<and> (\<forall>x \<in> set (bs ! i). g (f x) = i + Suc k)"
    using Cons.prems by (metis Suc_less_eq add_Suc_shift length_Cons nth_Cons_Suc)
  from Cons.IH [OF this] have IH: "distinct (map f (concat bs))" "\<forall>x \<in> set (concat bs). Suc k \<le> g (f x)" by blast+
  have b: "distinct (map f b)" "\<forall>x \<in> set b. g (f x) = k" using Cons.prems [rule_format, of 0] by simp_all
  have "f ` set b \<inter> f ` set (concat bs) = {}" using IH(2) b(2) by fastforce
  moreover have "\<forall>x \<in> set (concat bs). k \<le> g (f x)" using IH(2) by (meson Suc_leD)
  ultimately show ?case using IH(1) b by auto
qed simp

lemma rt_distinct:
  assumes "rt_inv t" shows "distinct (map ct_id (all_contacts t))"
  using distinct_concat_by [of "rt_buckets t" ct_id "bucket_index (rt_local_id t)" 0] assms
  by (simp add: all_contacts_def rt_inv_def bucket_wf_def contacts_all_def in_place_def)

lemma total_contacts_length: "total_contacts t = length (all_contacts t)"
  by (simp add: total_contacts_def all_contacts_def length_concat)

lemma total_contacts_bound: "rt_inv t \<Longrightarrow> total_contacts t \<le> NUM_BUCKETS * K"
proof -
  assume t: "rt_inv t"
  have s: "sum_list (map length bs) \<le> length bs * K" if "\<forall>b \<in> set bs. length b \<le> K" for bs :: "kbucket list"
    using that by (induction bs) auto
  then show ?thesis
    using t s [of "rt_buckets t"]
    by (simp add: total_contacts_def rt_inv_def bucket_wf_def all_set_conv_all_nth)
qed

section \<open>\<open>find_closest\<close>\<close>

lemma find_closest_length: "length (find_closest x n t) = min n (total_contacts t)"
  by (simp add: find_closest_def total_contacts_length min.commute)

lemma find_closest_subset: "set (find_closest x n t) \<subseteq> set (all_contacts t)"
  unfolding find_closest_def by (metis set_sort set_take_subset)

lemma find_closest_sorted: "sorted (map (\<lambda>c. distance (ct_id c) x) (find_closest x n t))"
  unfolding find_closest_def by (simp add: sorted_wrt_take flip: take_map)

lemma sorted_take_drop_le:
  assumes "sorted xs" "a \<in> set (take n xs)" "b \<in> set (drop n xs)"
  shows "a \<le> b"
  using assms by (metis append_take_drop_id sorted_append)

lemma find_closest_least:
  assumes "c \<in> set (find_closest x n t)" "d \<in> set (all_contacts t)" "d \<notin> set (find_closest x n t)"
  shows "distance (ct_id c) x \<le> distance (ct_id d) x"
proof -
  let ?f = "\<lambda>c. distance (ct_id c) x" and ?s = "sort_key (\<lambda>c. distance (ct_id c) x) (all_contacts t)"
  have "d \<in> set (take n ?s @ drop n ?s)" using assms(2) by simp
  then have "d \<in> set (drop n ?s)" using assms(3) unfolding set_append find_closest_def by blast
  moreover have "c \<in> set (take n ?s)" using assms(1) by (simp add: find_closest_def)
  moreover have "sorted (map ?f ?s)" by simp
  ultimately show ?thesis
    using sorted_take_drop_le [of "map ?f ?s" "?f c" n "?f d"] by (simp add: take_map drop_map)
qed

lemma find_closest_distinct:
  assumes "rt_inv t" shows "distinct (map ct_id (find_closest x n t))"
proof -
  have "mset (map ct_id (sort_key (\<lambda>c. distance (ct_id c) x) (all_contacts t))) = mset (map ct_id (all_contacts t))"
    by simp
  then have "distinct (map ct_id (sort_key (\<lambda>c. distance (ct_id c) x) (all_contacts t)))"
    using rt_distinct [OF assms] by (metis mset_eq_imp_distinct_iff)
  then show ?thesis by (simp add: find_closest_def distinct_take flip: take_map)
qed

section \<open>\<open>replace_oldest\<close> does not keep the invariant\<close>

text \<open>It drops the head of the bucket and appends the contact with no look at the bucket: a
  contact the bucket already has (not at the head) is then there twice.\<close>

lemma replace_oldest_duplicates:
  assumes "c \<in> set (tl b)" "ct_id c = ct_id d"
  shows "\<not> bucket_wf (bucket_replace_oldest d b)"
  using assms by (cases b) (auto simp: bucket_replace_oldest_def bucket_wf_def intro: rev_image_eqI)

lemma replace_oldest_fresh:
  assumes "bucket_wf b" "ct_id d \<notin> ct_id ` set b"
  shows "bucket_wf (bucket_replace_oldest d b)"
  using assms by (cases b) (auto simp: bucket_replace_oldest_def bucket_wf_def)

end
