(* ===== verification/Kad_Storage.thy ===== *)
theory Kad_Storage
  imports Kad_Node
begin

text \<open>
  The record store of a DHT node, from \<open>nodex-kademlia/src/storage.rs\<close>: records with
  their times, \<open>put\<close> with its eviction loop, \<open>get\<close>, \<open>remove\<close>, \<open>clear\<close>, \<open>cleanup_stale\<close>
  and \<open>get_keys_to_republish\<close>. The map is an association list in iteration order; the
  clock is an argument. The lemmas show that the eviction loop ends, that the byte
  counter is exact and both limits hold in every run, that records are evicted from
  the oldest on and only for lack of room, and the contract of a value store.
\<close>

section \<open>Times and limits\<close>

abbreviation secs :: "nat \<Rightarrow> nat" where "secs n \<equiv> n * 1000000000"

abbreviation DEFAULT_TTL :: nat where "DEFAULT_TTL \<equiv> secs (24 * 3600)"
abbreviation REPUBLISH_INTERVAL :: nat where "REPUBLISH_INTERVAL \<equiv> secs 3600"
abbreviation MAX_STORAGE_BYTES :: nat where "MAX_STORAGE_BYTES \<equiv> 64 * 1024 * 1024"
abbreviation MAX_STORAGE_RECORDS :: nat where "MAX_STORAGE_RECORDS \<equiv> 50000"

text \<open>\<open>usize::saturating_add\<close> on a 64-bit machine; \<open>saturating_sub\<close> is subtraction of \<open>nat\<close>.\<close>

definition sat_add :: "nat \<Rightarrow> nat \<Rightarrow> nat" where
  "sat_add a b = min (a + b) (2 ^ 64 - 1)"

section \<open>Records\<close>

record dht_record =
  dr_value :: bytes
  dr_created_at :: instant
  dr_ttl :: nat
  dr_republish_at :: instant

definition record_new :: "instant \<Rightarrow> bytes \<Rightarrow> nat \<Rightarrow> dht_record" where
  "record_new now val ttl = \<lparr>dr_value = val, dr_created_at = now, dr_ttl = ttl,
     dr_republish_at = now + REPUBLISH_INTERVAL\<rparr>"

definition record_is_expired :: "instant \<Rightarrow> dht_record \<Rightarrow> bool" where
  "record_is_expired now r \<longleftrightarrow> now - dr_created_at r > dr_ttl r"

section \<open>The store\<close>

record storage =
  sto_data :: "(node_id \<times> dht_record) list"
  sto_bytes :: nat

definition storage_new :: storage where
  "storage_new = \<lparr>sto_data = [], sto_bytes = 0\<rparr>"

text \<open>\<open>iter().min_by_key(created_at)\<close>: the first of the minimal entries.\<close>

fun oldest_entry :: "(node_id \<times> dht_record) list \<Rightarrow> (node_id \<times> dht_record) option" where
  "oldest_entry [] = None"
| "oldest_entry (e # es) = (case oldest_entry es of
      None \<Rightarrow> Some e
    | Some m \<Rightarrow> if dr_created_at (snd e) \<le> dr_created_at (snd m) then Some e else Some m)"

lemma oldest_entry_None [simp]: "oldest_entry m = None \<longleftrightarrow> m = []"
  by (cases m) (auto split: option.splits)

lemma oldest_entry_Some: "oldest_entry m = Some e \<Longrightarrow>
    e \<in> set m \<and> (\<forall>x \<in> set m. dr_created_at (snd e) \<le> dr_created_at (snd x))"
  by (induction m arbitrary: e) (auto split: option.splits if_splits)

lemma map_del_shorter: "k \<in> fst ` set m \<Longrightarrow> length (map_del k m) < length m"
  unfolding map_del_def by (auto intro: length_filter_less)

text \<open>\<open>data.remove(key)\<close> with the byte counter.\<close>

definition drop_record :: "node_id \<Rightarrow> storage \<Rightarrow> storage" where
  "drop_record key s = (case map_of (sto_data s) key of
      None \<Rightarrow> s
    | Some r \<Rightarrow> \<lparr>sto_data = map_del key (sto_data s), sto_bytes = sto_bytes s - length (dr_value r)\<rparr>)"

function evict :: "nat \<Rightarrow> storage \<Rightarrow> storage" where
  "evict vlen s =
     (if sat_add (sto_bytes s) vlen > MAX_STORAGE_BYTES \<or> length (sto_data s) \<ge> MAX_STORAGE_RECORDS
      then (case oldest_entry (sto_data s) of
          None \<Rightarrow> s
        | Some e \<Rightarrow> evict vlen (drop_record (fst e) s))
      else s)"
  by auto
termination
proof (relation "measure (\<lambda>(vlen, s). length (sto_data s))")
  fix vlen :: nat and s :: storage and e
  assume "oldest_entry (sto_data s) = Some e"
  then have m: "fst e \<in> fst ` set (sto_data s)" using oldest_entry_Some by blast
  then obtain r where "map_of (sto_data s) (fst e) = Some r"
    by (metis map_of_eq_None_iff option.exhaust)
  then show "((vlen, drop_record (fst e) s), (vlen, s)) \<in> measure (\<lambda>(vlen, s). length (sto_data s))"
    using map_del_shorter [OF m] by (simp add: drop_record_def)
qed simp

declare evict.simps [simp del]

definition storage_put :: "instant \<Rightarrow> node_id \<Rightarrow> bytes \<Rightarrow> nat \<Rightarrow> storage \<Rightarrow> storage" where
  "storage_put now key val ttl s =
     (if length val > MAX_STORAGE_BYTES then s
      else (let s1 = drop_record key s; s2 = evict (length val) s1 in
        \<lparr>sto_data = map_put key (record_new now val ttl) (sto_data s2),
         sto_bytes = sat_add (sto_bytes s2) (length val)\<rparr>))"

definition storage_get :: "instant \<Rightarrow> node_id \<Rightarrow> storage \<Rightarrow> bytes option" where
  "storage_get now key s = (case map_of (sto_data s) key of
      Some r \<Rightarrow> if \<not> record_is_expired now r then Some (dr_value r) else None
    | None \<Rightarrow> None)"

definition storage_remove :: "node_id \<Rightarrow> storage \<Rightarrow> dht_record option \<times> storage" where
  "storage_remove key s = (map_of (sto_data s) key, drop_record key s)"

definition storage_clear :: "storage \<Rightarrow> storage" where
  "storage_clear s = \<lparr>sto_data = [], sto_bytes = 0\<rparr>"

definition values_len :: "(node_id \<times> dht_record) list \<Rightarrow> nat" where
  "values_len m = sum_list (map ((\<lambda>r. length (dr_value r)) \<circ> snd) m)"

definition storage_cleanup_stale :: "instant \<Rightarrow> storage \<Rightarrow> nat \<times> storage" where
  "storage_cleanup_stale now s =
     (let kept = filter (\<lambda>e. \<not> record_is_expired now (snd e)) (sto_data s) in
      (length (sto_data s) - length kept, \<lparr>sto_data = kept, sto_bytes = values_len kept\<rparr>))"

definition due :: "instant \<Rightarrow> dht_record \<Rightarrow> bool" where
  "due now r \<longleftrightarrow> \<not> record_is_expired now r \<and> now \<ge> dr_republish_at r"

definition republish_record :: "instant \<Rightarrow> dht_record \<Rightarrow> dht_record" where
  "republish_record now r = (if due now r then r\<lparr>dr_republish_at := now + REPUBLISH_INTERVAL\<rparr> else r)"

definition keys_to_republish :: "instant \<Rightarrow> storage \<Rightarrow> (node_id \<times> bytes) list \<times> storage" where
  "keys_to_republish now s =
     (map (\<lambda>e. (fst e, dr_value (snd e))) (filter (\<lambda>e. due now (snd e)) (sto_data s)),
      s\<lparr>sto_data := map (\<lambda>e. (fst e, republish_record now (snd e))) (sto_data s)\<rparr>)"

section \<open>The invariant\<close>

definition storage_inv :: "storage \<Rightarrow> bool" where
  "storage_inv s \<longleftrightarrow> keys_distinct (sto_data s) \<and> sto_bytes s = values_len (sto_data s) \<and>
     sto_bytes s \<le> MAX_STORAGE_BYTES \<and> length (sto_data s) \<le> MAX_STORAGE_RECORDS"

lemma storage_inv_new [simp]: "storage_inv storage_new"
  by (simp add: storage_inv_def storage_new_def values_len_def)

lemma values_len_del:
  "keys_distinct m \<Longrightarrow> map_of m k = Some r \<Longrightarrow> values_len (map_del k m) + length (dr_value r) = values_len m"
  using sum_map_del [of m "\<lambda>r. length (dr_value r)" k] by (simp add: values_len_def)

lemma values_len_put_new:
  "keys_distinct m \<Longrightarrow> map_of m k = None \<Longrightarrow> values_len (map_put k r m) = values_len m + length (dr_value r)"
  using sum_map_put [of m "\<lambda>r. length (dr_value r)" k r] by (simp add: values_len_def)

lemma drop_record_inv [inv_intros]:
  assumes "storage_inv s" shows "storage_inv (drop_record k s)"
proof (cases "map_of (sto_data s) k")
  case (Some r)
  then have "keys_distinct (sto_data s)" "values_len (map_del k (sto_data s)) + length (dr_value r) = sto_bytes s"
    using assms values_len_del [OF _ Some] by (simp_all add: storage_inv_def)
  then have "sto_bytes s - length (dr_value r) = values_len (map_del k (sto_data s))" by linarith
  then show ?thesis using assms Some length_map_del_le [of k "sto_data s"]
    by (auto simp: storage_inv_def drop_record_def)
qed (simp add: assms drop_record_def)

lemma drop_record_data: "sto_data (drop_record k s) = map_del k (sto_data s)"
  by (simp add: drop_record_def map_del_absent split: option.splits)

lemma map_of_drop [simp]: "map_of (sto_data (drop_record k s)) = (map_of (sto_data s))(k := None)"
  by (simp add: drop_record_data map_of_del)

lemma evict_inv: "storage_inv s \<Longrightarrow> storage_inv (evict n s)"
proof (induction n s rule: evict.induct)
  case (1 n s)
  then show ?case by (subst evict.simps) (auto split: option.splits simp: drop_record_inv)
qed

text \<open>When the loop ends there is room: it stops early only on an empty store.\<close>

lemma evict_room:
  assumes "storage_inv s" "n \<le> MAX_STORAGE_BYTES"
  shows "sto_bytes (evict n s) + n \<le> MAX_STORAGE_BYTES \<and> length (sto_data (evict n s)) < MAX_STORAGE_RECORDS"
  using assms
proof (induction n s rule: evict.induct)
  case (1 n s)
  show ?case
  proof (cases "sat_add (sto_bytes s) n > MAX_STORAGE_BYTES \<or> length (sto_data s) \<ge> MAX_STORAGE_RECORDS")
    case False
    then have "sat_add (sto_bytes s) n = sto_bytes s + n"
      using 1(2,3) by (simp add: sat_add_def storage_inv_def min_def)
    then show ?thesis using False by (subst (1 2) evict.simps) simp
  next
    case True
    show ?thesis
    proof (cases "oldest_entry (sto_data s)")
      case None
      then have "sto_data s = []" by simp
      then show ?thesis using 1(2,3) True by (simp add: storage_inv_def values_len_def sat_add_def)
    next
      case (Some e)
      then show ?thesis using 1 True by (subst (1 2) evict.simps) (simp add: drop_record_inv)
    qed
  qed
qed

lemma evict_subset: "set (sto_data (evict n s)) \<subseteq> set (sto_data s)"
proof (induction n s rule: evict.induct)
  case (1 n s)
  then show ?case by (subst evict.simps) (auto simp: drop_record_data map_del_def split: option.splits)
qed

lemma evict_absent: "map_of (sto_data s) k = None \<Longrightarrow> map_of (sto_data (evict n s)) k = None"
  using evict_subset [of n s] by (auto simp: map_of_eq_None_iff)

lemma evict_keeps: "storage_inv s \<Longrightarrow> map_of (sto_data (evict n s)) k = Some r \<Longrightarrow> map_of (sto_data s) k = Some r"
  using evict_subset [of n s] by (auto simp: storage_inv_def keys_distinct_def dest!: map_of_SomeD)

text \<open>Eviction goes from the oldest record on: what goes is no younger than what stays.\<close>

lemma evict_oldest_first:
  "storage_inv s \<Longrightarrow> e \<in> set (sto_data s) \<Longrightarrow> e \<notin> set (sto_data (evict n s)) \<Longrightarrow> x \<in> set (sto_data (evict n s)) \<Longrightarrow>
   dr_created_at (snd e) \<le> dr_created_at (snd x)"
proof (induction n s rule: evict.induct)
  case (1 n s)
  show ?case
  proof (cases "(sat_add (sto_bytes s) n > MAX_STORAGE_BYTES \<or> length (sto_data s) \<ge> MAX_STORAGE_RECORDS) \<and>
      oldest_entry (sto_data s) \<noteq> None")
    case False
    then have "evict n s = s" by (subst evict.simps) auto
    then show ?thesis using 1 by simp
  next
    case True
    then obtain m where m: "oldest_entry (sto_data s) = Some m" by blast
    have ev: "evict n s = evict n (drop_record (fst m) s)" using True m by (subst evict.simps) auto
    show ?thesis
    proof (cases "e \<in> set (sto_data (drop_record (fst m) s))")
      case True
      then show ?thesis using 1(1) [OF _ m] 1(2-5) \<open>_ \<and> _\<close> ev by (auto simp: drop_record_inv)
    next
      case False
      then have "fst e = fst m" using 1(3) by (auto simp: drop_record_data map_del_def)
      then have "e = m" using 1(2,3) oldest_entry_Some [OF m]
        by (cases e; cases m) (auto simp: storage_inv_def keys_distinct_def dest: eq_key_imp_eq_value)
      moreover have "x \<in> set (sto_data s)"
        using 1(5) evict_subset [of n "drop_record (fst m) s"] ev by (auto simp: drop_record_data map_del_def)
      ultimately show ?thesis using oldest_entry_Some [OF m] by blast
    qed
  qed
qed

lemma evict_nothing:
  "storage_inv s \<Longrightarrow> sto_bytes s + n \<le> MAX_STORAGE_BYTES \<Longrightarrow> length (sto_data s) < MAX_STORAGE_RECORDS \<Longrightarrow> evict n s = s"
  by (subst evict.simps) (simp add: sat_add_def)

lemma storage_put_inv [inv_intros]:
  assumes "storage_inv s" shows "storage_inv (storage_put now k v ttl s)"
proof (cases "length v > MAX_STORAGE_BYTES")
  case False
  let ?s2 = "evict (length v) (drop_record k s)"
  have inv: "storage_inv ?s2" using assms by (intro evict_inv drop_record_inv)
  have none: "map_of (sto_data ?s2) k = None" by (rule evict_absent) simp
  have room: "sto_bytes ?s2 + length v \<le> MAX_STORAGE_BYTES" "length (sto_data ?s2) < MAX_STORAGE_RECORDS"
    using evict_room [OF drop_record_inv [OF assms]] False by auto
  have "sat_add (sto_bytes ?s2) (length v) = sto_bytes ?s2 + length v"
    using room by (simp add: sat_add_def)
  then show ?thesis
    using inv none room False values_len_put_new [OF _ none]
    by (simp add: storage_put_def Let_def storage_inv_def length_map_put record_new_def)
qed (simp add: assms storage_put_def)

lemma storage_remove_inv [inv_intros]: "storage_inv s \<Longrightarrow> storage_inv (snd (storage_remove k s))"
  by (simp add: storage_remove_def drop_record_inv)

lemma storage_clear_inv [inv_intros]: "storage_inv (storage_clear s)"
  by (simp add: storage_clear_def storage_inv_def values_len_def)

lemma values_len_filter: "values_len (filter P m) \<le> values_len m"
  unfolding values_len_def by (induction m) auto

lemma storage_cleanup_inv [inv_intros]: "storage_inv s \<Longrightarrow> storage_inv (snd (storage_cleanup_stale now s))"
  unfolding storage_inv_def storage_cleanup_stale_def Let_def
  by (auto intro: order_trans [OF values_len_filter] order_trans [OF length_filter_le])

lemma republish_value [simp]: "dr_value (republish_record now r) = dr_value r"
  "record_is_expired t (republish_record now r) = record_is_expired t r"
  by (simp_all add: republish_record_def record_is_expired_def)

lemma republish_inv [inv_intros]: "storage_inv s \<Longrightarrow> storage_inv (snd (keys_to_republish now s))"
proof -
  have "values_len (map (\<lambda>e. (fst e, republish_record now (snd e))) m) = values_len m" for m
    unfolding values_len_def by (induction m) auto
  then show "storage_inv s \<Longrightarrow> storage_inv (snd (keys_to_republish now s))"
    by (simp add: storage_inv_def keys_to_republish_def keys_distinct_def comp_def)
qed

datatype storage_op =
    StoPut instant node_id bytes nat
  | StoRemove node_id
  | StoClear
  | StoCleanup instant
  | StoRepublish instant

fun storage_step :: "storage_op \<Rightarrow> storage \<Rightarrow> storage" where
  "storage_step (StoPut now k v ttl) s = storage_put now k v ttl s"
| "storage_step (StoRemove k) s = snd (storage_remove k s)"
| "storage_step StoClear s = storage_clear s"
| "storage_step (StoCleanup now) s = snd (storage_cleanup_stale now s)"
| "storage_step (StoRepublish now) s = snd (keys_to_republish now s)"

interpretation storage_sys: op_system storage_step "\<lambda>_. True" storage_inv
proof
  fix a s assume "storage_inv s"
  then show "storage_inv (storage_step a s)" by (cases a) (simp_all add: inv_intros)
qed

section \<open>The contract of a value store\<close>

locale value_store =
  fixes look :: "'s \<Rightarrow> node_id \<Rightarrow> bytes option"
    and ins :: "node_id \<Rightarrow> bytes \<Rightarrow> 's \<Rightarrow> 's"
    and inv :: "'s \<Rightarrow> bool"
    and fits :: "bytes \<Rightarrow> bool"
  assumes ins_inv: "inv s \<Longrightarrow> inv (ins k v s)"
    and look_ins: "inv s \<Longrightarrow> fits v \<Longrightarrow> look (ins k v s) k = Some v"
    and look_other: "inv s \<Longrightarrow> k' \<noteq> k \<Longrightarrow> look (ins k v s) k' = look s k' \<or> look (ins k v s) k' = None"
    and ins_unfit: "\<not> fits v \<Longrightarrow> ins k v s = s"
begin

text \<open>The last fitting value that a list of insertions gives a key.\<close>

fun last_ins :: "node_id \<Rightarrow> (node_id \<times> bytes) list \<Rightarrow> bytes option \<Rightarrow> bytes option" where
  "last_ins k [] d = d"
| "last_ins k (e # es) d = last_ins k es (if fst e = k \<and> fits (snd e) then Some (snd e) else d)"

text \<open>Whatever is inserted, a lookup gives the last fitting value of its key or nothing.\<close>

lemma look_run:
  "inv s \<Longrightarrow> look s k = d \<or> look s k = None \<Longrightarrow>
   look (fold (\<lambda>(k, v). ins k v) es s) k = last_ins k es d \<or> look (fold (\<lambda>(k, v). ins k v) es s) k = None"
proof (induction es arbitrary: s d)
  case (Cons e es)
  obtain j v where e: "e = (j, v)" by force
  have "look (ins j v s) k = (if j = k \<and> fits v then Some v else d) \<or> look (ins j v s) k = None"
    using Cons.prems look_ins [of s v j] look_other [of s k j v] ins_unfit [of v j s]
    by (cases "fits v") auto
  from Cons.IH [OF ins_inv [OF Cons.prems(1)] this] show ?case by (simp only: e fold_Cons o_apply split last_ins.simps fst_conv snd_conv)
qed simp

lemma look_idem: "inv s \<Longrightarrow> fits v \<Longrightarrow> fits w \<Longrightarrow> look (ins k w (ins k v s)) k = Some w"
  by (simp add: ins_inv look_ins)

end

lemma get_put_same:
  assumes "length v \<le> MAX_STORAGE_BYTES"
  shows "storage_get now k (storage_put now k v ttl s) = Some v"
  using assms by (simp add: storage_get_def storage_put_def Let_def record_new_def record_is_expired_def)

lemma get_put_other:
  assumes "storage_inv s" "k' \<noteq> k"
  shows "storage_get t k' (storage_put now k v ttl s) = storage_get t k' s \<or>
    storage_get t k' (storage_put now k v ttl s) = None"
proof (cases "length v > MAX_STORAGE_BYTES")
  case False
  let ?s2 = "evict (length v) (drop_record k s)"
  have "map_of (sto_data ?s2) k' = None \<or> map_of (sto_data ?s2) k' = map_of (sto_data s) k'"
    using evict_keeps [OF drop_record_inv [OF assms(1), of k], of "length v" k'] assms(2)
    by (cases "map_of (sto_data ?s2) k'") auto
  then show ?thesis using False assms(2) by (auto simp: storage_get_def storage_put_def Let_def)
qed (simp add: storage_put_def)

interpretation store: value_store "\<lambda>s k. storage_get now k s" "\<lambda>k v. storage_put now k v ttl"
  storage_inv "\<lambda>v. length v \<le> MAX_STORAGE_BYTES" for now ttl
  by unfold_locales (use storage_put_inv get_put_same get_put_other in \<open>auto simp: storage_put_def\<close>)

text \<open>With room nothing else is lost.\<close>

lemma put_with_room:
  assumes "storage_inv s" "k' \<noteq> k" "sto_bytes s + length v \<le> MAX_STORAGE_BYTES" "length (sto_data s) < MAX_STORAGE_RECORDS"
  shows "storage_get t k' (storage_put now k v ttl s) = storage_get t k' s"
proof -
  let ?s1 = "drop_record k s"
  have "sto_bytes ?s1 \<le> sto_bytes s" by (simp add: drop_record_def split: option.splits)
  moreover have "length (sto_data ?s1) \<le> length (sto_data s)" by (simp add: drop_record_data length_map_del_le)
  ultimately have "evict (length v) ?s1 = ?s1"
    using assms by (intro evict_nothing drop_record_inv) auto
  then show ?thesis using assms by (simp add: storage_get_def storage_put_def Let_def)
qed

section \<open>Expiry and republishing\<close>

lemma get_cleanup: "storage_inv s \<Longrightarrow> storage_get now k (snd (storage_cleanup_stale now s)) = storage_get now k s"
proof -
  assume "storage_inv s"
  then have d: "keys_distinct (sto_data s)" by (simp add: storage_inv_def)
  have "map_of (filter (\<lambda>e. \<not> record_is_expired now (snd e)) m) k =
      (case map_of m k of Some r \<Rightarrow> if record_is_expired now r then None else Some r | None \<Rightarrow> None)"
    if "keys_distinct m" for m
    using that
  proof (induction m)
    case (Cons e m)
    have "map_of m k = None" if "fst e = k"
      using Cons.prems that by (auto simp: keys_distinct_def map_of_eq_None_iff)
    then show ?case using Cons by (cases e) (auto simp: keys_distinct_def)
  qed simp
  note f = this [OF d]
  show ?thesis by (simp add: storage_get_def storage_cleanup_stale_def Let_def f split: option.split)
qed

lemma cleanup_fresh: "e \<in> set (sto_data (snd (storage_cleanup_stale now s))) \<Longrightarrow> \<not> record_is_expired now (snd e)"
  by (simp add: storage_cleanup_stale_def Let_def)

text \<open>A record is given out at most once per interval.\<close>

lemma republish_once:
  assumes "now' < now + REPUBLISH_INTERVAL" "(k, v) \<in> set (fst (keys_to_republish now s))" "keys_distinct (sto_data s)"
  shows "\<forall>w. (k, w) \<notin> set (fst (keys_to_republish now' (snd (keys_to_republish now s))))"
proof -
  obtain r where r: "(k, r) \<in> set (sto_data s)" "due now r"
    using assms(2) by (auto simp: keys_to_republish_def)
  show ?thesis
  proof (intro allI notI)
    fix w assume "(k, w) \<in> set (fst (keys_to_republish now' (snd (keys_to_republish now s))))"
    then obtain r' where r': "(k, r') \<in> set (sto_data s)" "due now' (republish_record now r')"
      by (auto simp: keys_to_republish_def)
    then have "r' = r" using r(1) assms(3) by (auto simp: keys_distinct_def dest: eq_key_imp_eq_value)
    then show False using r'(2) r(2) assms(1) by (simp add: due_def republish_record_def)
  qed
qed

lemma republish_get: "storage_get t k (snd (keys_to_republish now s)) = storage_get t k s"
proof -
  have "map_of (map (\<lambda>e. (fst e, republish_record now (snd e))) m) k =
      map_option (republish_record now) (map_of m k)" for m
    by (induction m) auto
  then show ?thesis by (simp add: storage_get_def keys_to_republish_def split: option.split)
qed

end
