(* ===== verification/Peer_Health.thy ===== *)
theory Peer_Health
  imports Kad_Storage
begin

text \<open>
  The bookkeeping around the network layer, from \<open>nodex-kademlia/src\<close>: the peer table
  of \<open>peer_manager.rs\<close>, the health state of \<open>health.rs\<close>, the wrapping counters of
  \<open>metrics.rs\<close>, the NAT categories of \<open>nat_type.rs\<close> and the ranking of endpoint
  candidates of \<open>endpoint.rs\<close>. The lemmas show when a peer survives a cleanup, the
  round trip of the health code, and that ranking keeps one best candidate per address.
\<close>

section \<open>Peers\<close>

record peer_info =
  pi_node_id :: node_id
  pi_addr :: socket_addr
  pi_last_seen :: instant
  pi_latency :: "u64 option"
  pi_failed :: u32

record peer_manager =
  pm_peers :: "(node_id \<times> peer_info) list"
  pm_timeout :: nat

definition peer_manager_new :: "nat \<Rightarrow> peer_manager" where
  "peer_manager_new timeout_secs = \<lparr>pm_peers = [], pm_timeout = secs timeout_secs\<rparr>"

definition record_success ::
    "instant \<Rightarrow> node_id \<Rightarrow> socket_addr \<Rightarrow> u64 option \<Rightarrow> peer_manager \<Rightarrow> peer_manager" where
  "record_success now i addr lat m = m\<lparr>pm_peers := map_put i
     \<lparr>pi_node_id = i, pi_addr = addr, pi_last_seen = now, pi_latency = lat, pi_failed = 0\<rparr> (pm_peers m)\<rparr>"

text \<open>\<open>u32::saturating_add(1)\<close>\<close>

definition sat_inc32 :: "u32 \<Rightarrow> u32" where
  "sat_inc32 w = (if w = - 1 then w else w + 1)"

definition record_failure :: "node_id \<Rightarrow> peer_manager \<Rightarrow> peer_manager" where
  "record_failure i m = (case map_of (pm_peers m) i of
      Some p \<Rightarrow> m\<lparr>pm_peers := map_put i (p\<lparr>pi_failed := sat_inc32 (pi_failed p)\<rparr>) (pm_peers m)\<rparr>
    | None \<Rightarrow> m)"

definition get_peer_addr :: "node_id \<Rightarrow> peer_manager \<Rightarrow> socket_addr option" where
  "get_peer_addr i m = map_option pi_addr (map_of (pm_peers m) i)"

definition get_active_peers :: "instant \<Rightarrow> peer_manager \<Rightarrow> peer_info list" where
  "get_active_peers now m = filter (\<lambda>p. now - pi_last_seen p < pm_timeout m) (map snd (pm_peers m))"

definition peers_cleanup_stale :: "instant \<Rightarrow> peer_manager \<Rightarrow> nat \<times> peer_manager" where
  "peers_cleanup_stale now m =
     (let kept = filter (\<lambda>e. now - pi_last_seen (snd e) < pm_timeout m \<and> pi_failed (snd e) < 5) (pm_peers m) in
      (length (pm_peers m) - length kept, m\<lparr>pm_peers := kept\<rparr>))"

datatype peer_op =
    PeerSuccess instant node_id socket_addr "u64 option"
  | PeerFailure node_id
  | PeerCleanup instant

fun peer_step :: "peer_op \<Rightarrow> peer_manager \<Rightarrow> peer_manager" where
  "peer_step (PeerSuccess now i a l) m = record_success now i a l m"
| "peer_step (PeerFailure i) m = record_failure i m"
| "peer_step (PeerCleanup now) m = snd (peers_cleanup_stale now m)"

definition peers_inv :: "peer_manager \<Rightarrow> bool" where
  "peers_inv m \<longleftrightarrow> keys_distinct (pm_peers m) \<and> (\<forall>e \<in> set (pm_peers m). pi_node_id (snd e) = fst e)"

lemma peers_step_inv: "peers_inv m \<Longrightarrow> peers_inv (peer_step a m)"
proof (cases a)
  case (PeerSuccess now i ad l)
  assume "peers_inv m"
  then show ?thesis
    using PeerSuccess set_map_put_subset [of i _ "pm_peers m"]
    by (fastforce simp: peers_inv_def record_success_def in_set_map_put)
next
  case (PeerFailure i)
  assume "peers_inv m"
  then show ?thesis
    using PeerFailure
    by (fastforce simp: peers_inv_def record_failure_def in_set_map_put dest: map_of_SomeD split: option.splits)
next
  case (PeerCleanup now)
  assume "peers_inv m"
  then show ?thesis using PeerCleanup by (auto simp: peers_inv_def peers_cleanup_stale_def Let_def)
qed

interpretation peers_sys: op_system peer_step "\<lambda>_. True" peers_inv
  by unfold_locales (rule peers_step_inv)

lemma map_of_filter_keys:
  "keys_distinct m \<Longrightarrow> map_of (filter (\<lambda>e. P (snd e)) m) k =
    (case map_of m k of Some r \<Rightarrow> if P r then Some r else None | None \<Rightarrow> None)"
proof (induction m)
  case (Cons e m)
  have "map_of m k = None" if "fst e = k"
    using Cons.prems that by (auto simp: keys_distinct_def map_of_eq_None_iff)
  then show ?case using Cons by (cases e) (auto simp: keys_distinct_def)
qed simp

lemma failure_count:
  assumes "map_of (pm_peers m) i = Some p"
  shows "map_of (pm_peers (record_failure i m)) i = Some (p\<lparr>pi_failed := sat_inc32 (pi_failed p)\<rparr>)"
  using assms by (simp add: record_failure_def)

lemma failures_count:
  assumes "map_of (pm_peers m) i = Some p" "unat (pi_failed p) + n < 2 ^ 32"
  shows "map_of (pm_peers ((record_failure i ^^ n) m)) i = Some (p\<lparr>pi_failed := pi_failed p + of_nat n\<rparr>)"
  using assms(2)
proof (induction n)
  case (Suc n)
  have ne: "pi_failed p + of_nat n \<noteq> - 1"
  proof
    assume "pi_failed p + of_nat n = - 1"
    then have "unat (pi_failed p + of_nat n) = 2 ^ 32 - 1" by (simp add: unsigned_minus_1_eq_mask mask_eq_exp_minus_1)
    moreover have "unat (pi_failed p + of_nat n) = unat (pi_failed p) + n"
      using Suc.prems by (simp add: unat_word_ariths unat_of_nat)
    ultimately show False using Suc.prems by simp
  qed
  have "map_of (pm_peers ((record_failure i ^^ n) m)) i = Some (p\<lparr>pi_failed := pi_failed p + of_nat n\<rparr>)"
    using Suc by simp
  note f = failure_count [OF this]
  have e: "pi_failed p + of_nat (Suc n) = pi_failed p + of_nat n + 1" by simp
  show ?case using f ne unfolding e by (simp add: sat_inc32_def)
qed (simp add: assms(1))

text \<open>Five failures in a row and the next cleanup drops a peer, however recently it was seen.\<close>

lemma five_failures_dropped:
  assumes "peers_inv m" "map_of (pm_peers m) i = Some p" "pi_failed p = 0"
  shows "get_peer_addr i (snd (peers_cleanup_stale now ((record_failure i ^^ 5) m))) = None"
proof -
  have inv: "peers_inv ((record_failure i ^^ n) m)" for n
    using assms(1) peers_step_inv [of _ "PeerFailure i"] by (induction n) simp_all
  have "map_of (pm_peers ((record_failure i ^^ 5) m)) i = Some (p\<lparr>pi_failed := 5\<rparr>)"
    using failures_count [OF assms(2), of 5] assms(3) by simp
  then show ?thesis
    using inv [of 5] map_of_filter_keys [of "pm_peers ((record_failure i ^^ 5) m)"
        "\<lambda>p. now - pi_last_seen p < pm_timeout ((record_failure i ^^ 5) m) \<and> pi_failed p < 5" i]
    by (simp add: get_peer_addr_def peers_cleanup_stale_def Let_def peers_inv_def)
qed

text \<open>A success makes the peer survive every cleanup before the timeout.\<close>

lemma success_survives:
  assumes "peers_inv m" "t - now < pm_timeout m"
  shows "get_peer_addr i (snd (peers_cleanup_stale t (record_success now i a l m))) = Some a"
proof -
  have "keys_distinct (pm_peers (record_success now i a l m))"
    using assms(1) by (simp add: record_success_def peers_inv_def)
  from map_of_filter_keys [OF this, of "\<lambda>p. t - pi_last_seen p < pm_timeout m \<and> pi_failed p < 5" i]
  show ?thesis using assms(2)
    by (simp add: get_peer_addr_def peers_cleanup_stale_def Let_def) (simp add: record_success_def)
qed

section \<open>Health\<close>

datatype health_state = Starting | Binding | Connecting | SearchingPeers | Online | Degraded | Offline | Stopping

fun health_code :: "health_state \<Rightarrow> u8" where
  "health_code Starting = 0"
| "health_code Binding = 1"
| "health_code Connecting = 2"
| "health_code SearchingPeers = 3"
| "health_code Online = 4"
| "health_code Degraded = 5"
| "health_code Offline = 6"
| "health_code Stopping = 7"

definition health_from_u8 :: "u8 \<Rightarrow> health_state" where
  "health_from_u8 v =
     (if v = 0 then Starting else if v = 1 then Binding else if v = 2 then Connecting
      else if v = 3 then SearchingPeers else if v = 4 then Online else if v = 5 then Degraded
      else if v = 6 then Offline else Stopping)"

text \<open>The tracker is the atomic byte.\<close>

type_synonym health_tracker = u8

definition health_set :: "health_state \<Rightarrow> health_tracker \<Rightarrow> health_tracker" where
  "health_set s _ = health_code s"

definition health_get :: "health_tracker \<Rightarrow> health_state" where
  "health_get h = health_from_u8 h"

definition health_is_online :: "health_tracker \<Rightarrow> bool" where
  "health_is_online h \<longleftrightarrow> health_get h = Online \<or> health_get h = Degraded"

lemma health_roundtrip [simp]: "health_get (health_set s h) = s"
  by (cases s) (simp_all add: health_get_def health_set_def health_from_u8_def)

section \<open>Metrics\<close>

record metrics =
  mt_bytes_sent :: u64
  mt_bytes_received :: u64
  mt_rpcs_sent :: u64
  mt_rpcs_received :: u64
  mt_rpcs_failed :: u64
  mt_sent_by_type :: "u64 list"
  mt_recv_by_type :: "u64 list"
  mt_lookups :: u64
  mt_hops :: u64
  mt_latency :: u64

definition metrics_new :: metrics where
  "metrics_new = \<lparr>mt_bytes_sent = 0, mt_bytes_received = 0, mt_rpcs_sent = 0, mt_rpcs_received = 0,
     mt_rpcs_failed = 0, mt_sent_by_type = replicate 9 0, mt_recv_by_type = replicate 9 0,
     mt_lookups = 0, mt_hops = 0, mt_latency = 0\<rparr>"

definition inc_bytes_sent :: "nat \<Rightarrow> metrics \<Rightarrow> metrics" where
  "inc_bytes_sent n m = m\<lparr>mt_bytes_sent := mt_bytes_sent m + of_nat n\<rparr>"

definition inc_bytes_received :: "nat \<Rightarrow> metrics \<Rightarrow> metrics" where
  "inc_bytes_received n m = m\<lparr>mt_bytes_received := mt_bytes_received m + of_nat n\<rparr>"

definition inc_rpc_sent :: "u8 \<Rightarrow> metrics \<Rightarrow> metrics" where
  "inc_rpc_sent ty m = (let m = m\<lparr>mt_rpcs_sent := mt_rpcs_sent m + 1\<rparr> in
     if unat ty < 9 then m\<lparr>mt_sent_by_type := (mt_sent_by_type m)[unat ty := mt_sent_by_type m ! unat ty + 1]\<rparr>
     else m)"

definition inc_rpc_received :: "u8 \<Rightarrow> metrics \<Rightarrow> metrics" where
  "inc_rpc_received ty m = (let m = m\<lparr>mt_rpcs_received := mt_rpcs_received m + 1\<rparr> in
     if unat ty < 9 then m\<lparr>mt_recv_by_type := (mt_recv_by_type m)[unat ty := mt_recv_by_type m ! unat ty + 1]\<rparr>
     else m)"

definition inc_rpc_failed :: "metrics \<Rightarrow> metrics" where
  "inc_rpc_failed m = m\<lparr>mt_rpcs_failed := mt_rpcs_failed m + 1\<rparr>"

definition record_lookup :: "nat \<Rightarrow> u64 \<Rightarrow> metrics \<Rightarrow> metrics" where
  "record_lookup hops ms m = m\<lparr>mt_lookups := mt_lookups m + 1, mt_hops := mt_hops m + of_nat hops,
     mt_latency := mt_latency m + ms\<rparr>"

text \<open>The total of messages sent is the sum over the types while every type is below 9.\<close>

definition sent_balanced :: "metrics \<Rightarrow> bool" where
  "sent_balanced m \<longleftrightarrow> length (mt_sent_by_type m) = 9 \<and> sum_list (mt_sent_by_type m) = mt_rpcs_sent m"

lemma sum_list_bump:
  fixes xs :: "'a::len word list"
  shows "i < length xs \<Longrightarrow> sum_list (xs[i := xs ! i + 1]) = sum_list xs + 1"
  by (induction xs arbitrary: i) (auto simp: nth_Cons algebra_simps split: nat.splits)

lemma inc_rpc_sent_balanced:
  "unat ty < 9 \<Longrightarrow> sent_balanced m \<Longrightarrow> sent_balanced (inc_rpc_sent ty m)"
  by (simp add: sent_balanced_def inc_rpc_sent_def Let_def sum_list_bump)

section \<open>NAT categories\<close>

datatype nat_category = DirectPossible | HolePunchLikely | RelayRecommended | UdpBlocked | NatUnknown

definition can_accept_direct :: "nat_category \<Rightarrow> bool" where
  "can_accept_direct c \<longleftrightarrow> c = DirectPossible"

definition should_hole_punch :: "nat_category \<Rightarrow> bool" where
  "should_hole_punch c \<longleftrightarrow> c = HolePunchLikely \<or> c = DirectPossible"

section \<open>Endpoint candidates\<close>

datatype endpoint_type = EpLocal | EpStun | EpUpnp | EpIpv6

fun ep_rank :: "endpoint_type \<Rightarrow> nat" where
  "ep_rank EpIpv6 = 4"
| "ep_rank EpUpnp = 3"
| "ep_rank EpStun = 2"
| "ep_rank EpLocal = 1"

lemma ep_rank_inj: "ep_rank a = ep_rank b \<Longrightarrow> a = b"
  by (cases a; cases b) simp_all

instantiation endpoint_type :: linorder
begin

definition less_eq_endpoint_type :: "endpoint_type \<Rightarrow> endpoint_type \<Rightarrow> bool" where
  "less_eq_endpoint_type a b \<longleftrightarrow> ep_rank a \<le> ep_rank b"

definition less_endpoint_type :: "endpoint_type \<Rightarrow> endpoint_type \<Rightarrow> bool" where
  "less_endpoint_type a b \<longleftrightarrow> ep_rank a < ep_rank b"

instance
  by standard (auto simp: less_eq_endpoint_type_def less_endpoint_type_def dest: ep_rank_inj)

end

record endpoint_candidate =
  ep_addr :: socket_addr
  ep_type :: endpoint_type

text \<open>\<open>sort_by_key(Reverse(type))\<close> is a stable sort by descending type; the loop keeps the first
  candidate of every address.\<close>

fun dedup_by_addr :: "endpoint_candidate list \<Rightarrow> endpoint_candidate list \<Rightarrow> endpoint_candidate list" where
  "dedup_by_addr uniq [] = uniq"
| "dedup_by_addr uniq (c # cs) =
     (if list_ex (\<lambda>u. ep_addr u = ep_addr c) uniq then dedup_by_addr uniq cs
      else dedup_by_addr (uniq @ [c]) cs)"

definition rank_candidates :: "endpoint_candidate list \<Rightarrow> endpoint_candidate list" where
  "rank_candidates cs = dedup_by_addr [] (sort_key (\<lambda>c. 4 - ep_rank (ep_type c)) cs)"

lemma ep_rank_le: "ep_rank t \<le> 4"
  by (cases t) simp_all

lemma dedup_facts:
  assumes "distinct (map ep_addr u)" "sorted (map (\<lambda>c. 4 - ep_rank (ep_type c)) (u @ cs))"
  shows "distinct (map ep_addr (dedup_by_addr u cs)) \<and>
    ep_addr ` set (dedup_by_addr u cs) = ep_addr ` set (u @ cs) \<and>
    sorted (map (\<lambda>c. 4 - ep_rank (ep_type c)) (dedup_by_addr u cs)) \<and>
    set (dedup_by_addr u cs) \<subseteq> set (u @ cs)"
  using assms
proof (induction u cs rule: dedup_by_addr.induct)
  case (2 u c cs)
  show ?case
  proof (cases "list_ex (\<lambda>x. ep_addr x = ep_addr c) u")
    case True
    then have "ep_addr c \<in> ep_addr ` set u" by (auto simp: list_ex_iff image_iff) metis
    moreover have "sorted (map (\<lambda>c. 4 - ep_rank (ep_type c)) (u @ cs))"
      using 2(4) by (auto simp: sorted_append)
    ultimately show ?thesis using 2(1) [OF True 2(3)] True by auto
  next
    case False
    then have "ep_addr c \<notin> ep_addr ` set u" by (auto simp: list_ex_iff)
    then show ?thesis using 2(2) [OF False] 2(3,4) False by simp
  qed
qed simp

text \<open>The candidate kept for an address is one of the best of that address.\<close>

lemma dedup_best:
  assumes "sorted (map (\<lambda>c. 4 - ep_rank (ep_type c)) (u @ cs))" "distinct (map ep_addr u)"
    and "c \<in> set (dedup_by_addr u cs)" "d \<in> set cs" "ep_addr d = ep_addr c"
  shows "4 - ep_rank (ep_type c) \<le> 4 - ep_rank (ep_type d)"
  using assms
proof (induction u cs rule: dedup_by_addr.induct)
  case (2 u x cs)
  show ?case
  proof (cases "list_ex (\<lambda>y. ep_addr y = ep_addr x) u")
    case True
    then obtain y where y: "y \<in> set u" "ep_addr y = ep_addr x" by (auto simp: list_ex_iff)
    have s: "sorted (map (\<lambda>c. 4 - ep_rank (ep_type c)) (u @ cs))" using 2(3) by (auto simp: sorted_append)
    have c: "c \<in> set (dedup_by_addr u cs)" using 2(5) True by simp
    show ?thesis
    proof (cases "d = x")
      case False
      then show ?thesis using 2(1) [OF True s 2(4) c] 2(6,7) by simp
    next
      case d: True
      have sub: "set u \<subseteq> set (dedup_by_addr u cs)" for u cs
        by (induction u cs rule: dedup_by_addr.induct) auto
      have "y = c" using dedup_facts [OF 2(4) s] c sub [of u cs] y 2(7) d
        by (auto simp: distinct_map dest!: inj_onD)
      then show ?thesis using y 2(3) d by (auto simp: sorted_append)
    qed
  next
    case False
    then have n: "distinct (map ep_addr (u @ [x]))" using 2(4) by (auto simp: list_ex_iff)
    have s: "sorted (map (\<lambda>c. 4 - ep_rank (ep_type c)) ((u @ [x]) @ cs))" using 2(3) by simp
    have c: "c \<in> set (dedup_by_addr (u @ [x]) cs)" using 2(5) False by simp
    show ?thesis
    proof (cases "d = x")
      case False
      then show ?thesis using 2(2) [OF \<open>\<not> list_ex _ _\<close> s n c] 2(6,7) by simp
    next
      case d: True
      have sub: "set u \<subseteq> set (dedup_by_addr u cs)" for u cs
        by (induction u cs rule: dedup_by_addr.induct) auto
      have "x \<in> set (dedup_by_addr (u @ [x]) cs)" using sub [of "u @ [x]" cs] by simp
      then have "x = c" using dedup_facts [OF n s] c 2(7) d by (auto simp: distinct_map dest!: inj_onD)
      then show ?thesis using d by simp
    qed
  qed
qed simp

lemma rank_candidates_facts:
  shows "distinct (map ep_addr (rank_candidates cs))"
    and "ep_addr ` set (rank_candidates cs) = ep_addr ` set cs"
    and "set (rank_candidates cs) \<subseteq> set cs"
    and "sorted_wrt (\<lambda>a b. ep_type b \<le> ep_type a) (rank_candidates cs)"
proof -
  let ?f = "\<lambda>c. 4 - ep_rank (ep_type c)"
  have s: "sorted (map ?f ([] @ sort_key ?f cs))" by simp
  note f = dedup_facts [OF _ s]
  show "distinct (map ep_addr (rank_candidates cs))"
    "ep_addr ` set (rank_candidates cs) = ep_addr ` set cs"
    "set (rank_candidates cs) \<subseteq> set cs"
    using f by (simp_all add: rank_candidates_def)
  have "sorted_wrt (\<lambda>a b. ?f a \<le> ?f b) (rank_candidates cs)"
    using f by (simp add: rank_candidates_def sorted_map)
  moreover have "?f a \<le> ?f b \<longleftrightarrow> ep_type b \<le> ep_type a" for a b :: endpoint_candidate
    using ep_rank_le [of "ep_type a"] ep_rank_le [of "ep_type b"]
    by (auto simp: less_eq_endpoint_type_def)
  ultimately show "sorted_wrt (\<lambda>a b. ep_type b \<le> ep_type a) (rank_candidates cs)"
    by (auto elim: sorted_wrt_mono_rel [rotated])
qed

lemma rank_candidates_best:
  assumes "c \<in> set (rank_candidates cs)" "d \<in> set cs" "ep_addr d = ep_addr c"
  shows "ep_type d \<le> ep_type c"
proof -
  have "4 - ep_rank (ep_type c) \<le> 4 - ep_rank (ep_type d)"
    using assms by (intro dedup_best [of "[]" "sort_key (\<lambda>c. 4 - ep_rank (ep_type c)) cs"])
      (simp_all add: rank_candidates_def)
  then show ?thesis using ep_rank_le [of "ep_type c"] ep_rank_le [of "ep_type d"]
    by (auto simp: less_eq_endpoint_type_def)
qed

end
