(* ===== verification/Rpc_Codec.thy ===== *)
theory Rpc_Codec
  imports Kad_Node
begin

text \<open>
  RPC messages and their conversion to and from the wire structures, from
  \<open>nodex-kademlia/src/rpc.rs\<close> (\<open>RpcMessage\<close>, \<open>to_c_message\<close>, \<open>from_c_message\<close>, \<open>encode\<close>,
  \<open>decode\<close>, \<open>contact_to_c\<close>, \<open>c_to_contact\<close>). The lemmas show when encoding succeeds,
  the size of the result, the round trip through the byte format, that decoding
  never panics and returns only well-formed messages with routable contacts, and
  that one contact that cannot be sent makes a whole response undecodable.
\<close>

section \<open>Messages\<close>

datatype rpc_payload =
    Ping
  | Pong
  | Store (store_key: node_id) (store_value: bytes)
  | StoreAck bool
  | FindNode node_id
  | FindNodeResp "contact list"
  | FindValue node_id
  | FindValueResp "bytes option" "contact list"

record rpc_message =
  rm_request_id :: u64
  rm_sender_id :: node_id
  rm_payload :: rpc_payload

datatype rpc_error =
    ValueTooLarge nat
  | EncodeFailed i32
  | DecodeFailed i32
  | StoreLenExceeded
  | ValueLenExceeded
  | MismatchedPayload u8
  | UnknownMessageType u8
  | PortZero
  | UnroutableAddr ip_addr
  | InvalidIpType u8

definition is_response :: "rpc_payload \<Rightarrow> bool" where
  "is_response p = (case p of
      Pong \<Rightarrow> True | StoreAck _ \<Rightarrow> True | FindNodeResp _ \<Rightarrow> True | FindValueResp _ _ \<Rightarrow> True
    | _ \<Rightarrow> False)"

section \<open>Contacts\<close>

definition contact_to_c :: "contact \<Rightarrow> c_contact" where
  "contact_to_c c =
     (let out = c_contact_default\<lparr>cc_id := as_bytes (ct_id c), cc_port := sock_port (ct_addr c)\<rparr> in
      case sock_ip (ct_addr c) of
        IpV4 ip \<Rightarrow> out\<lparr>cc_ip_type := 4, cc_ip := be_bytes 4 ip @ drop 4 (cc_ip out)\<rparr>
      | IpV6 ip \<Rightarrow> out\<lparr>cc_ip_type := 6, cc_ip := be_bytes 16 ip @ drop 16 (cc_ip out)\<rparr>)"

definition c_to_ip :: "u8 \<Rightarrow> bytes \<Rightarrow> rpc_error + ip_addr" where
  "c_to_ip ty a =
     (if ty = 4 then
        (let ip = IpV4 (of_be (take 4 a)) in
         if ip_is_unspecified ip \<or> ip_is_broadcast ip \<or> ip_is_multicast ip
         then Err (UnroutableAddr ip) else Ok ip)
      else if ty = 6 then
        (let ip = IpV6 (of_be (take 16 a)) in
         if ip_is_unspecified ip \<or> ip_is_multicast ip then Err (UnroutableAddr ip) else Ok ip)
      else Err (InvalidIpType ty))"

definition c_to_contact :: "instant \<Rightarrow> c_contact \<Rightarrow> rpc_error + contact" where
  "c_to_contact now c =
     (if cc_port c = 0 then Err PortZero
      else res_bind (c_to_ip (cc_ip_type c) (cc_ip c)) (\<lambda>ip.
           Ok (contact_new now (NodeId (cc_id c)) (sock_new ip (cc_port c)))))"

section \<open>Conversion to the wire structures\<close>

definition to_c_contacts :: "contact list \<Rightarrow> c_contact list" where
  "to_c_contacts cs = contact_array (map contact_to_c (take (min (length cs) MAX_CONTACTS) cs))"

fun to_c_payload :: "rpc_payload \<Rightarrow> rpc_error + u8 \<times> c_message_payload" where
  "to_c_payload Ping = Ok (MSG_PING, PNone)"
| "to_c_payload Pong = Ok (MSG_PONG, PNone)"
| "to_c_payload (Store key val) =
     (if length val > MAX_VALUE_SIZE then Err (ValueTooLarge (length val))
      else Ok (MSG_STORE, PStore \<lparr>st_key = as_bytes key, st_value_len = of_nat (length val), st_value = val\<rparr>))"
| "to_c_payload (StoreAck ok) = Ok (MSG_STORE_ACK, PStoreAck \<lparr>ack_status = (if ok then 0 else 1)\<rparr>)"
| "to_c_payload (FindNode tgt) = Ok (MSG_FIND_NODE, PFindNode \<lparr>fn_target_id = as_bytes tgt\<rparr>)"
| "to_c_payload (FindNodeResp cs) = Ok (MSG_FIND_NODE_RESP, PFindNodeResp
     \<lparr>fnr_count = of_nat (min (length cs) MAX_CONTACTS), fnr_contacts = to_c_contacts cs\<rparr>)"
| "to_c_payload (FindValue key) = Ok (MSG_FIND_VALUE, PFindValue \<lparr>fv_key = as_bytes key\<rparr>)"
| "to_c_payload (FindValueResp (Some val) cs) =
     (if length val > MAX_VALUE_SIZE then Err (ValueTooLarge (length val))
      else Ok (MSG_FIND_VALUE_RESP, PFindValueResp
        \<lparr>fvr_has_value = 1, fvr_value_len = of_nat (length val), fvr_value = val,
         fvr_count = 0, fvr_contacts = replicate MAX_CONTACTS c_contact_default\<rparr>))"
| "to_c_payload (FindValueResp None cs) = Ok (MSG_FIND_VALUE_RESP, PFindValueResp
     \<lparr>fvr_has_value = 0, fvr_value_len = 0, fvr_value = [],
      fvr_count = of_nat (min (length cs) MAX_CONTACTS), fvr_contacts = to_c_contacts cs\<rparr>)"

definition to_c_message :: "rpc_message \<Rightarrow> rpc_error + c_message" where
  "to_c_message m = res_bind (to_c_payload (rm_payload m)) (\<lambda>(ty, p). Ok
     \<lparr>cm_msg_type = ty, cm_request_id = rm_request_id m,
      cm_sender_id = as_bytes (rm_sender_id m), cm_payload = p\<rparr>)"

section \<open>Conversion from the wire structures\<close>

definition from_c_contacts :: "instant \<Rightarrow> u8 \<Rightarrow> c_contact list \<Rightarrow> rpc_error + contact list" where
  "from_c_contacts now n cs = res_map (c_to_contact now) (take (min (unat n) MAX_CONTACTS) cs)"

definition from_c_payload :: "instant \<Rightarrow> u8 \<Rightarrow> c_message_payload \<Rightarrow> rpc_error + rpc_payload" where
  "from_c_payload now ty p =
     (if ty = MSG_PING then Ok Ping
      else if ty = MSG_PONG then Ok Pong
      else if ty = MSG_STORE then
        (case p of PStore s \<Rightarrow>
           if unat (st_value_len s) > MAX_VALUE_SIZE then Err StoreLenExceeded
           else Ok (Store (NodeId (st_key s)) (st_value s))
         | _ \<Rightarrow> Err (MismatchedPayload ty))
      else if ty = MSG_STORE_ACK then
        (case p of PStoreAck s \<Rightarrow> Ok (StoreAck (ack_status s = 0)) | _ \<Rightarrow> Err (MismatchedPayload ty))
      else if ty = MSG_FIND_NODE then
        (case p of PFindNode f \<Rightarrow> Ok (FindNode (NodeId (fn_target_id f))) | _ \<Rightarrow> Err (MismatchedPayload ty))
      else if ty = MSG_FIND_NODE_RESP then
        (case p of PFindNodeResp r \<Rightarrow>
           res_bind (from_c_contacts now (fnr_count r) (fnr_contacts r)) (\<lambda>cs. Ok (FindNodeResp cs))
         | _ \<Rightarrow> Err (MismatchedPayload ty))
      else if ty = MSG_FIND_VALUE then
        (case p of PFindValue f \<Rightarrow> Ok (FindValue (NodeId (fv_key f))) | _ \<Rightarrow> Err (MismatchedPayload ty))
      else if ty = MSG_FIND_VALUE_RESP then
        (case p of PFindValueResp r \<Rightarrow>
           if fvr_has_value r \<noteq> 0 then
             (if unat (fvr_value_len r) > MAX_VALUE_SIZE then Err ValueLenExceeded
              else Ok (FindValueResp (Some (fvr_value r)) []))
           else res_bind (from_c_contacts now (fvr_count r) (fvr_contacts r)) (\<lambda>cs. Ok (FindValueResp None cs))
         | _ \<Rightarrow> Err (MismatchedPayload ty))
      else Err (UnknownMessageType ty))"

definition from_c_message :: "instant \<Rightarrow> c_message \<Rightarrow> rpc_error + rpc_message" where
  "from_c_message now m = res_bind (from_c_payload now (cm_msg_type m) (cm_payload m)) (\<lambda>p. Ok
     \<lparr>rm_request_id = cm_request_id m, rm_sender_id = NodeId (cm_sender_id m), rm_payload = p\<rparr>)"

section \<open>Encoding and decoding\<close>

definition estimated_size :: "rpc_payload \<Rightarrow> nat" where
  "estimated_size p = (case p of
      Store _ val \<Rightarrow> 64 + length val
    | FindValueResp (Some v) _ \<Rightarrow> 64 + length v
    | _ \<Rightarrow> 1024)"

text \<open>\<open>written < 0\<close> is a signed comparison; \<open>truncate(written as usize)\<close>.\<close>

definition rpc_encode :: "rpc_message \<Rightarrow> (rpc_error + bytes) exec" where
  "rpc_encode m = (case to_c_message m of
      Inl e \<Rightarrow> Done (Err e)
    | Inr c \<Rightarrow> exec_bind (ffi_encode_message c (replicate (estimated_size (rm_payload m)) 0))
        (\<lambda>(written, buf). Done (if sint written < 0 then Err (EncodeFailed written)
            else Ok (take (nat (sint written)) buf))))"

definition rpc_decode :: "instant \<Rightarrow> bytes \<Rightarrow> (rpc_error + rpc_message) exec" where
  "rpc_decode now bs = exec_bind (ffi_decode_message bs c_message_default)
     (\<lambda>(res, c). Done (if sint res < 0 then Err (DecodeFailed res) else from_c_message now c))"

section \<open>What can be sent\<close>

text \<open>An address that \<open>c_to_contact\<close> accepts.\<close>

definition sendable_addr :: "socket_addr \<Rightarrow> bool" where
  "sendable_addr a \<longleftrightarrow> sock_port a \<noteq> 0 \<and> \<not> ip_is_unspecified (sock_ip a) \<and>
     \<not> ip_is_broadcast (sock_ip a) \<and> \<not> ip_is_multicast (sock_ip a)"

text \<open>How the receiver sees a contact: seen now, no flow label and scope.\<close>

definition canon_contact :: "instant \<Rightarrow> contact \<Rightarrow> contact" where
  "canon_contact now c = contact_new now (ct_id c) (sock_new (sock_ip (ct_addr c)) (sock_port (ct_addr c)))"

lemma contact_to_c_ok [simp]: "wf_id (ct_id c) \<Longrightarrow> c_contact_ok (contact_to_c c)"
  by (cases "sock_ip (ct_addr c)")
    (simp_all add: contact_to_c_def c_contact_default_def c_contact_ok_def wf_id_def)

lemma c_to_contact_to_c:
  "c_to_contact now (contact_to_c c) =
     (if sock_port (ct_addr c) = 0 then Err PortZero
      else if sendable_addr (ct_addr c) then Ok (canon_contact now c)
      else Err (UnroutableAddr (sock_ip (ct_addr c))))"
  by (cases "sock_ip (ct_addr c)")
    (auto simp: contact_to_c_def c_to_contact_def c_to_ip_def sendable_addr_def canon_contact_def
      contact_new_def c_contact_default_def Let_def)

lemma c_to_contact_sendable:
  "c_to_contact now x = Inr c \<Longrightarrow> sendable_addr (ct_addr c) \<and> as_bytes (ct_id c) = cc_id x \<and> ct_last_seen c = now"
  by (auto simp: c_to_contact_def c_to_ip_def sendable_addr_def contact_new_def Let_def res_bind_Inr_iff
      split: if_splits)

section \<open>Well-formed messages\<close>

definition contacts_wf :: "contact list \<Rightarrow> bool" where
  "contacts_wf cs \<longleftrightarrow> list_all (\<lambda>c. wf_id (ct_id c)) cs"

definition contacts_sendable :: "contact list \<Rightarrow> bool" where
  "contacts_sendable cs \<longleftrightarrow> list_all (\<lambda>c. sendable_addr (ct_addr c)) (take MAX_CONTACTS cs)"

fun payload_wf :: "rpc_payload \<Rightarrow> bool" where
  "payload_wf (Store k v) = wf_id k"
| "payload_wf (FindNode i) = wf_id i"
| "payload_wf (FindNodeResp cs) = contacts_wf cs"
| "payload_wf (FindValue k) = wf_id k"
| "payload_wf (FindValueResp v cs) = contacts_wf cs"
| "payload_wf _ = True"

definition msg_wf :: "rpc_message \<Rightarrow> bool" where
  "msg_wf m \<longleftrightarrow> wf_id (rm_sender_id m) \<and> payload_wf (rm_payload m)"

text \<open>The value that a message carries.\<close>

definition payload_value :: "rpc_payload \<Rightarrow> bytes option" where
  "payload_value p = (case p of Store _ v \<Rightarrow> Some v | FindValueResp v _ \<Rightarrow> v | _ \<Rightarrow> None)"

definition value_fits :: "rpc_payload \<Rightarrow> bool" where
  "value_fits p = (case payload_value p of None \<Rightarrow> True | Some v \<Rightarrow> length v \<le> MAX_VALUE_SIZE)"

text \<open>The contacts of a response with a value are not sent.\<close>

definition payload_contacts :: "rpc_payload \<Rightarrow> contact list" where
  "payload_contacts p = (case p of FindNodeResp cs \<Rightarrow> cs | FindValueResp None cs \<Rightarrow> cs | _ \<Rightarrow> [])"

fun canon_rpc_payload :: "instant \<Rightarrow> rpc_payload \<Rightarrow> rpc_payload" where
  "canon_rpc_payload now (FindNodeResp cs) = FindNodeResp (map (canon_contact now) (take MAX_CONTACTS cs))"
| "canon_rpc_payload now (FindValueResp (Some v) cs) = FindValueResp (Some v) []"
| "canon_rpc_payload now (FindValueResp None cs) =
     FindValueResp None (map (canon_contact now) (take MAX_CONTACTS cs))"
| "canon_rpc_payload now p = p"

definition canon_rpc :: "instant \<Rightarrow> rpc_message \<Rightarrow> rpc_message" where
  "canon_rpc now m = m\<lparr>rm_payload := canon_rpc_payload now (rm_payload m)\<rparr>"

lemma take_min_length: "take (min (length xs) n) xs = take n xs"
  by (metis min.commute take_all_iff min_def nle_le)

lemma to_c_contacts_ok [simp]: "contacts_wf cs \<Longrightarrow> contacts_ok (to_c_contacts cs)"
  unfolding to_c_contacts_def contacts_wf_def
  by (rule contact_array_ok) (auto simp: list_all_iff dest: in_set_takeD)

lemma contacts_ok_default [simp]: "contacts_ok (replicate MAX_CONTACTS c_contact_default)"
  by (simp add: contacts_ok_def list_all_iff)

lemma to_c_payload_shape:
  assumes "payload_wf p" "to_c_payload p = Inr (ty, q)"
  shows "payload_arrays_ok q \<and> tag_ok ty q \<and>
    (\<exists>w. wire_payload ty q = Some w \<and> length w + 29 \<le> estimated_size p)"
  using assms
  by (cases p rule: to_c_payload.cases)
    (auto simp: wf_id_def estimated_size_def split: if_splits)

lemma to_c_payload_total: "value_fits p \<Longrightarrow> \<exists>r. to_c_payload p = Inr r"
  by (cases p rule: to_c_payload.cases) (auto simp: value_fits_def payload_value_def)

lemma to_c_payload_too_large:
  "\<not> value_fits p \<Longrightarrow> \<exists>v. payload_value p = Some v \<and> to_c_payload p = Inl (ValueTooLarge (length v))"
  by (cases p rule: to_c_payload.cases) (auto simp: value_fits_def payload_value_def)

lemma estimated_size_bound: "value_fits p \<Longrightarrow> estimated_size p \<le> 65600"
  by (cases p rule: to_c_payload.cases) (auto simp: value_fits_def payload_value_def estimated_size_def)

lemma sint_of_nat_small: "n \<le> 65600 \<Longrightarrow> sint (of_nat n :: i32) = int n"
  by (simp add: signed_of_nat signed_take_bit_int_eq_self)

section \<open>Encoding\<close>

text \<open>The bytes of a message that fits.\<close>

lemma rpc_encode_bytes:
  assumes "msg_wf m" "value_fits (rm_payload m)"
  shows "\<exists>c w. to_c_message m = Inr c \<and> arrays_ok c \<and> well_tagged c \<and> wire_bytes c = Some w \<and>
    length w \<le> estimated_size (rm_payload m) \<and> rpc_encode m = Done (Ok w)"
proof -
  obtain ty q where tq: "to_c_payload (rm_payload m) = Inr (ty, q)"
    using to_c_payload_total [OF assms(2)] by auto
  define c where "c = \<lparr>cm_msg_type = ty, cm_request_id = rm_request_id m,
      cm_sender_id = as_bytes (rm_sender_id m), cm_payload = q\<rparr>"
  have c: "to_c_message m = Inr c" using tq by (simp add: to_c_message_def c_def)
  obtain v where q: "payload_arrays_ok q" "tag_ok ty q" "wire_payload ty q = Some v"
      "length v + 29 \<le> estimated_size (rm_payload m)"
    using to_c_payload_shape [OF _ tq] assms(1) by (auto simp: msg_wf_def)
  have a: "arrays_ok c" using assms(1) q by (simp add: c_def arrays_ok_def msg_wf_def wf_id_def)
  obtain w where w: "wire_bytes c = Some w" and l: "length w \<le> estimated_size (rm_payload m)"
    using a q by (auto simp: wire_bytes_def c_def arrays_ok_def)
  have "rpc_encode m = Done (Ok w)"
    using ffi_encode_success [OF a w, of "replicate (estimated_size (rm_payload m)) 0"] l
      estimated_size_bound [OF assms(2)] c
    by (simp add: rpc_encode_def sint_of_nat_small)
  then show ?thesis using c a q w l by (auto simp: well_tagged_def c_def)
qed

lemma rpc_encode_too_large:
  assumes "\<not> value_fits (rm_payload m)"
  shows "\<exists>v. payload_value (rm_payload m) = Some v \<and> rpc_encode m = Done (Err (ValueTooLarge (length v)))"
  using to_c_payload_too_large [OF assms] by (auto simp: rpc_encode_def to_c_message_def)

section \<open>Decoding\<close>

lemma rpc_decode_no_panic: "rpc_decode now bs \<noteq> Panic"
  using ffi_decode_sound [of c_message_default bs]
  by (auto simp: rpc_decode_def dec_sound_def c_message_default_def)

lemma from_c_contacts_sound:
  assumes "from_c_contacts now n cs = Inr r" "contacts_ok cs"
  shows "length r \<le> MAX_CONTACTS \<and> list_all (\<lambda>c. sendable_addr (ct_addr c) \<and> wf_id (ct_id c)) r"
proof -
  have "length r \<le> MAX_CONTACTS" using res_map_length [of _ _ r] assms(1) by (fastforce simp: from_c_contacts_def)
  moreover have "\<forall>c \<in> set r. sendable_addr (ct_addr c) \<and> wf_id (ct_id c)"
    using assms(2) unfolding contacts_ok_def list_all_iff
    by (intro res_map_all [OF assms(1) [unfolded from_c_contacts_def]])
      (auto dest!: c_to_contact_sendable in_set_takeD simp: wf_id_def c_contact_ok_def)
  ultimately show ?thesis by (simp add: list_all_iff)
qed

definition received_ok :: "rpc_message \<Rightarrow> bool" where
  "received_ok m \<longleftrightarrow> msg_wf m \<and> value_fits (rm_payload m) \<and>
     length (payload_contacts (rm_payload m)) \<le> MAX_CONTACTS \<and>
     contacts_sendable (payload_contacts (rm_payload m))"

lemma from_c_payload_sound:
  assumes "from_c_payload now ty q = Inr p" "payload_arrays_ok q" "canon_payload q = q"
  shows "payload_wf p \<and> value_fits p \<and> length (payload_contacts p) \<le> MAX_CONTACTS \<and>
    contacts_sendable (payload_contacts p)"
proof -
  note defs = from_c_payload_def payload_contacts_def value_fits_def payload_value_def
    contacts_sendable_def contacts_wf_def wf_id_def
  have val: "length v \<le> 65536" if "take (sent_len n v) v = v" for n v
    using sent_len_le(2) [of n v] that by (metis length_take min.absorb_iff2 sent_len_le(1))
  have res: "payload_wf (FindNodeResp cs) \<and> length cs \<le> MAX_CONTACTS \<and> contacts_sendable cs"
    if "from_c_contacts now n xs = Inr cs" "contacts_ok xs" for n xs cs
    using from_c_contacts_sound [OF that]
    by (auto simp: contacts_wf_def contacts_sendable_def list_all_iff)
  show ?thesis
  proof (cases q)
    case (PStore s)
    then have "take (sent_len (st_value_len s) (st_value s)) (st_value s) = st_value s"
      using assms(3) by (cases s) simp
    then show ?thesis using assms PStore val by (auto simp: defs split: if_splits)
  next
    case (PFindNodeResp r)
    then show ?thesis using assms res [of "fnr_count r" "fnr_contacts r"]
      by (auto simp: from_c_payload_def value_fits_def payload_value_def payload_contacts_def
          res_bind_Inr_iff contacts_sendable_def split: if_splits)
  next
    case (PFindValueResp r)
    then have "fvr_has_value r \<noteq> 0 \<Longrightarrow>
        take (sent_len (fvr_value_len r) (fvr_value r)) (fvr_value r) = fvr_value r"
      using assms(3) by (cases r) (simp add: Let_def)
    then show ?thesis using assms PFindValueResp res [of "fvr_count r" "fvr_contacts r"] val
      by (auto simp: from_c_payload_def value_fits_def payload_value_def payload_contacts_def
          res_bind_Inr_iff contacts_sendable_def contacts_wf_def split: if_splits)
  qed (use assms in \<open>auto simp: defs split: if_splits\<close>)
qed

text \<open>Whatever bytes arrive, a decoded message is well formed, carries at most the maximal value
  and at most 20 contacts, all of them routable.\<close>

lemma rpc_decode_sound:
  assumes "rpc_decode now bs = Done (Ok m)"
  shows "received_ok m"
proof -
  obtain res c where d: "ffi_decode_message bs c_message_default = Done (res, c)"
    "\<not> sint res < 0" "from_c_message now c = Inr m"
    using assms by (auto simp: rpc_decode_def exec_bind_def split: exec.splits if_splits)
  have c: "canonical c"
    using ffi_decode_sound [of c_message_default bs] d(1,2)
    by (auto simp: dec_sound_def c_message_default_def)
  obtain p where p: "from_c_payload now (cm_msg_type c) (cm_payload c) = Inr p"
    and m: "m = \<lparr>rm_request_id = cm_request_id c, rm_sender_id = NodeId (cm_sender_id c), rm_payload = p\<rparr>"
    using d(3) by (auto simp: from_c_message_def res_bind_Inr_iff)
  have "canon_payload (cm_payload c) = cm_payload c" "payload_arrays_ok (cm_payload c)" "length (cm_sender_id c) = 20"
    using c unfolding canonical_def arrays_ok_def canon_message_def by (cases c; simp)+
  with from_c_payload_sound [OF p] show ?thesis
    by (simp add: m received_ok_def msg_wf_def wf_id_def)
qed

section \<open>Round trip\<close>

lemma res_map_sendable:
  assumes "contacts_sendable cs"
  shows "res_map (c_to_contact now) (map contact_to_c (take MAX_CONTACTS cs))
       = Inr (map (canon_contact now) (take MAX_CONTACTS cs))"
proof -
  have "res_map (c_to_contact now) (map contact_to_c xs) = Inr (map (canon_contact now) xs)"
    if "list_all (\<lambda>c. sendable_addr (ct_addr c)) xs" for xs
    using that by (induction xs) (auto simp: c_to_contact_to_c sendable_addr_def)
  then show ?thesis using assms by (simp add: contacts_sendable_def)
qed

lemma canon_contacts_to_c [simp]:
  "canon_contacts (of_nat (min (length cs) MAX_CONTACTS)) (to_c_contacts cs) = to_c_contacts cs"
  by (simp add: to_c_contacts_def)

lemma canon_contacts_none [simp]:
  "canon_contacts 0 (replicate MAX_CONTACTS c_contact_default) = replicate MAX_CONTACTS c_contact_default"
  by (simp add: canon_contacts_def contact_array_def)

lemma from_to_c_contacts:
  "from_c_contacts now (of_nat (min (length cs) MAX_CONTACTS)) (to_c_contacts cs)
   = res_map (c_to_contact now) (map contact_to_c (take MAX_CONTACTS cs))"
  by (simp add: from_c_contacts_def to_c_contacts_def contact_array_def take_min_length)

lemma canon_to_c_payload:
  assumes "to_c_payload p = Inr (ty, q)" "value_fits p"
  shows "canon_payload q = q"
  using assms
  by (cases p rule: to_c_payload.cases)
    (auto simp: value_fits_def payload_value_def canon_count_def Let_def split: if_splits)

lemma from_to_c_payload:
  assumes "to_c_payload p = Inr (ty, q)" "value_fits p" "contacts_sendable (payload_contacts p)"
  shows "from_c_payload now ty q = Inr (canon_rpc_payload now p)"
  using assms
  by (cases p rule: to_c_payload.cases)
    (auto simp: from_c_payload_def value_fits_def payload_value_def payload_contacts_def
      from_to_c_contacts res_map_sendable split: if_splits)

text \<open>The round trip, with any bytes after the message: what is decoded is the message as the
  receiver sees it.\<close>

lemma rpc_decode_encode:
  assumes "msg_wf m" "value_fits (rm_payload m)" "contacts_sendable (payload_contacts (rm_payload m))"
    and "rpc_encode m = Done (Ok w)"
  shows "rpc_decode now (w @ t) = Done (Ok (canon_rpc now m))"
proof -
  obtain c where c: "to_c_message m = Inr c" "arrays_ok c" "well_tagged c" "wire_bytes c = Some w"
    using rpc_encode_bytes [OF assms(1,2)] assms(4) by auto
  obtain ty q where q: "to_c_payload (rm_payload m) = Inr (ty, q)"
    and ceq: "c = \<lparr>cm_msg_type = ty, cm_request_id = rm_request_id m,
        cm_sender_id = as_bytes (rm_sender_id m), cm_payload = q\<rparr>"
    using c(1) by (auto simp: to_c_message_def res_bind_Inr_iff)
  have "canon_message c = c" using canon_to_c_payload [OF q assms(2)] by (simp add: canon_message_def ceq)
  then have "ffi_decode_message (w @ t) c_message_default = Done (0, c)"
    using ffi_decode_encode [OF c(2,3,4)] by metis
  then show ?thesis
    using from_to_c_payload [OF q assms(2,3), of now]
    by (cases m) (simp add: rpc_decode_def from_c_message_def ceq canon_rpc_def)
qed

text \<open>A response with a contact among the first 20 that \<open>c_to_contact\<close> refuses does not decode.\<close>

lemma rpc_decode_poisoned:
  assumes "msg_wf m" "value_fits (rm_payload m)" "\<not> contacts_sendable (payload_contacts (rm_payload m))"
  shows "\<exists>w e. rpc_encode m = Done (Ok w) \<and> rpc_decode now w = Done (Err e)"
proof -
  obtain c w where c: "to_c_message m = Inr c" "arrays_ok c" "well_tagged c" "wire_bytes c = Some w"
    "rpc_encode m = Done (Ok w)"
    using rpc_encode_bytes [OF assms(1,2)] by auto
  obtain ty q where q: "to_c_payload (rm_payload m) = Inr (ty, q)"
    and ceq: "c = \<lparr>cm_msg_type = ty, cm_request_id = rm_request_id m,
        cm_sender_id = as_bytes (rm_sender_id m), cm_payload = q\<rparr>"
    using c(1) by (auto simp: to_c_message_def res_bind_Inr_iff)
  have "canon_message c = c" using canon_to_c_payload [OF q assms(2)] by (simp add: canon_message_def ceq)
  then have d: "ffi_decode_message w c_message_default = Done (0, c)"
    using ffi_decode_encode [OF c(2,3,4), of "[]"] by simp
  let ?cs = "payload_contacts (rm_payload m)"
  obtain x where "x \<in> set (take MAX_CONTACTS ?cs)" "\<not> sendable_addr (ct_addr x)"
    using assms(3) by (auto simp: contacts_sendable_def list_all_iff)
  then obtain e where e: "res_map (c_to_contact now) (map contact_to_c (take MAX_CONTACTS ?cs)) = Inl e"
    using res_map_Inl_iff [of "c_to_contact now" "map contact_to_c (take MAX_CONTACTS ?cs)"]
    by (force simp: c_to_contact_to_c)
  have "from_c_payload now ty q = Inl e"
    using q e assms(3)
    by (cases "rm_payload m" rule: to_c_payload.cases)
      (auto simp: from_c_payload_def payload_contacts_def from_to_c_contacts contacts_sendable_def)
  then show ?thesis using c(5) d by (auto simp: rpc_decode_def from_c_message_def ceq)
qed

definition rpc_enc :: "rpc_message \<Rightarrow> bytes option" where
  "rpc_enc m = (case rpc_encode m of Done (Inr w) \<Rightarrow> Some w | _ \<Rightarrow> None)"

definition rpc_dec :: "instant \<Rightarrow> bytes \<Rightarrow> rpc_message option" where
  "rpc_dec now w = (case rpc_decode now w of Done (Inr m) \<Rightarrow> Some m | _ \<Rightarrow> None)"

definition rpc_ok :: "rpc_message \<Rightarrow> bool" where
  "rpc_ok m \<longleftrightarrow> msg_wf m \<and> value_fits (rm_payload m) \<and> contacts_sendable (payload_contacts (rm_payload m))"

interpretation rpc: codec rpc_enc "rpc_dec now" rpc_ok "canon_rpc now" for now
proof
  fix m assume m: "rpc_ok m"
  show "\<exists>w. rpc_enc m = Some w"
    using rpc_encode_bytes [of m] m by (auto simp: rpc_enc_def rpc_ok_def)
  fix w assume "rpc_enc m = Some w"
  then have "rpc_encode m = Done (Ok w)"
    by (auto simp: rpc_enc_def split: exec.splits sum.splits)
  then show "rpc_dec now w = Some (canon_rpc now m)"
    using rpc_decode_encode [of m w now "[]"] m by (simp add: rpc_dec_def rpc_ok_def)
qed

interpretation id_hex: codec "\<lambda>i. Some (id_to_hex i)"
  "\<lambda>s. case id_from_hex s of Done (Inr i) \<Rightarrow> Some i | _ \<Rightarrow> None" wf_id "\<lambda>i. i"
  by unfold_locales (auto simp: id_hex_roundtrip)

lemma ffi_codec_dec:
  "arrays_ok m \<and> well_tagged m \<Longrightarrow> wire_bytes m = Some w \<Longrightarrow>
   (case ffi_decode_message w c_message_default of
      Done (r, x) \<Rightarrow> if r = 0 then Some x else None | Panic \<Rightarrow> None) = Some (canon_message m)"
  using ffi_decode_encode [of m w "[]" c_message_default] by simp

lemma ffi_codec_total: "arrays_ok m \<and> well_tagged m \<Longrightarrow> \<exists>w. wire_bytes m = Some w"
  by (cases "cm_payload m") (auto simp: well_tagged_def wire_bytes_def)

interpretation ffi: codec wire_bytes
  "\<lambda>w. case ffi_decode_message w c_message_default of
      Done (r, x) \<Rightarrow> if r = 0 then Some x else None | Panic \<Rightarrow> None"
  "\<lambda>m. arrays_ok m \<and> well_tagged m" canon_message
  by unfold_locales (use ffi_codec_total ffi_codec_dec in blast)+

text \<open>The routing table can hold a contact that no response can carry: \<open>rt_update\<close> does not test
  for the broadcast address.\<close>

lemma broadcast_accepted:
  "\<not> addr_ignored (SockV4 0xFFFFFFFF 4000) \<and> \<not> sendable_addr (SockV4 0xFFFFFFFF 4000)"
  by (simp add: addr_ignored_def sendable_addr_def)

end
