(* ===== verification/Chunking.thy ===== *)
theory Chunking
  imports Rpc_Codec
begin

text \<open>
  Fragmentation of large messages over UDP, from \<open>nodex-kademlia/src/chunking.rs\<close>:
  \<open>UdpChunk\<close> (split, binary form) and \<open>ChunkAssembler\<close>, whose pending table is an
  association list so that its length and the count per address are those of the
  code's \<open>HashMap\<close>. CRC-32 is the parameter \<open>crc\<close>. The lemmas show the datagram size, the
  round trip of a chunk, that the limits of the table hold in every run, and that
  the chunks of a message, in any order, repeated and mixed with other traffic,
  give back the message exactly when the last missing one arrives.
\<close>

section \<open>Chunks\<close>

abbreviation MAX_UDP_PACKET_SIZE :: nat where "MAX_UDP_PACKET_SIZE \<equiv> 1200"
abbreviation BINARY_HEADER_SIZE :: nat where "BINARY_HEADER_SIZE \<equiv> 28"
abbreviation CHUNK_PAYLOAD_SIZE :: nat where "CHUNK_PAYLOAD_SIZE \<equiv> 500"

text \<open>\<open>b"NXCK"\<close>\<close>

definition BINARY_MAGIC :: bytes where
  "BINARY_MAGIC = [78, 88, 67, 75]"

record udp_chunk =
  uc_message_id :: bytes
  uc_index :: u16
  uc_count :: u16
  uc_checksum :: u32
  uc_payload_hex :: string
  uc_raw :: "bytes option"

text \<open>\<open>slice::chunks(n)\<close> for a positive \<open>n\<close>\<close>

function slices :: "nat \<Rightarrow> 'a list \<Rightarrow> 'a list list" where
  "slices n xs = (if n = 0 \<or> xs = [] then [] else take n xs # slices n (drop n xs))"
  by auto
termination by (relation "measure (\<lambda>(n, xs). length xs)") (auto simp: length_greater_0_conv [symmetric] simp del: length_greater_0_conv)

declare slices.simps [simp del]

definition mk_chunk :: "(bytes \<Rightarrow> u32) \<Rightarrow> bytes \<Rightarrow> u16 \<Rightarrow> nat \<Rightarrow> bytes \<Rightarrow> udp_chunk" where
  "mk_chunk crc mid chunk_count idx part =
     \<lparr>uc_message_id = mid, uc_index = of_nat idx, uc_count = chunk_count,
      uc_checksum = crc part, uc_payload_hex = to_hex part, uc_raw = Some part\<rparr>"

text \<open>\<open>data.len().div_ceil(500) as u16\<close> truncates.\<close>

definition split_data :: "(bytes \<Rightarrow> u32) \<Rightarrow> bytes \<Rightarrow> bytes \<Rightarrow> udp_chunk list" where
  "split_data crc mid dat =
     (if dat = [] then [\<lparr>uc_message_id = mid, uc_index = 0, uc_count = 1, uc_checksum = crc [],
         uc_payload_hex = [], uc_raw = Some []\<rparr>]
      else (let chunk_count = of_nat ((length dat + (CHUNK_PAYLOAD_SIZE - 1)) div CHUNK_PAYLOAD_SIZE) in
        map (\<lambda>(idx, part). mk_chunk crc mid chunk_count idx part)
          (enumerate 0 (slices CHUNK_PAYLOAD_SIZE dat))))"

datatype chunk_error = TooShort | BadMagic | OddHexLength | BadHex parse_int_error

definition decode_payload :: "udp_chunk \<Rightarrow> (chunk_error + bytes) exec" where
  "decode_payload c = (case uc_raw c of
      Some r \<Rightarrow> Done (Ok r)
    | None \<Rightarrow> if length (uc_payload_hex c) mod 2 \<noteq> 0 then Done (Err OddHexLength)
        else exec_bind (parse_hex_pairs (uc_payload_hex c) 0 (length (uc_payload_hex c) div 2))
          (\<lambda>r. Done (case r of Inl e \<Rightarrow> Err (BadHex e) | Inr bs \<Rightarrow> Ok bs)))"

definition chunk_to_bytes :: "udp_chunk \<Rightarrow> bytes exec" where
  "chunk_to_bytes c =
     exec_bind (case uc_raw c of
        Some r \<Rightarrow> Done r
      | None \<Rightarrow> exec_bind (decode_payload c) (\<lambda>r. Done (case r of Inl _ \<Rightarrow> [] | Inr bs \<Rightarrow> bs)))
     (\<lambda>raw. Done (BINARY_MAGIC @ uc_message_id c @ be_bytes 2 (uc_index c) @ be_bytes 2 (uc_count c) @
        be_bytes 4 (uc_checksum c) @ raw))"

text \<open>The slices and indices of \<open>from_bytes\<close> are in range after the length test.\<close>

definition chunk_from_bytes :: "bytes \<Rightarrow> chunk_error + udp_chunk" where
  "chunk_from_bytes bs =
     (if length bs < BINARY_HEADER_SIZE then Err TooShort
      else if take 4 bs \<noteq> BINARY_MAGIC then Err BadMagic
      else (let raw = drop BINARY_HEADER_SIZE bs in Ok
        \<lparr>uc_message_id = take 16 (drop 4 bs),
         uc_index = of_be [bs ! 20, bs ! 21],
         uc_count = of_be [bs ! 22, bs ! 23],
         uc_checksum = of_be [bs ! 24, bs ! 25, bs ! 26, bs ! 27],
         uc_payload_hex = to_hex raw,
         uc_raw = Some raw\<rparr>))"

section \<open>The assembler\<close>

abbreviation MAX_CHUNKS_PER_MESSAGE :: u16 where "MAX_CHUNKS_PER_MESSAGE \<equiv> 256"
abbreviation MAX_PENDING_ASSEMBLIES :: nat where "MAX_PENDING_ASSEMBLIES \<equiv> 256"
abbreviation MAX_PENDING_PER_IP :: nat where "MAX_PENDING_PER_IP \<equiv> 16"

record pending_assembly =
  pa_chunks :: "(u16 \<times> bytes) list"
  pa_count :: u16
  pa_first :: instant

type_synonym asm_key = "socket_addr \<times> bytes"

record chunk_assembler =
  ca_pending :: "(asm_key \<times> pending_assembly) list"
  ca_timeout :: nat

definition assembler_new :: "nat \<Rightarrow> chunk_assembler" where
  "assembler_new timeout = \<lparr>ca_pending = [], ca_timeout = timeout\<rparr>"

definition cleanup_expired :: "instant \<Rightarrow> chunk_assembler \<Rightarrow> chunk_assembler" where
  "cleanup_expired now a = a\<lparr>ca_pending := filter (\<lambda>e. now - pa_first (snd e) < ca_timeout a) (ca_pending a)\<rparr>"

definition per_ip_count :: "ip_addr \<Rightarrow> (asm_key \<times> pending_assembly) list \<Rightarrow> nat" where
  "per_ip_count ip m = length (filter (\<lambda>e. sock_ip (fst (fst e)) = ip) m)"

text \<open>The loop over \<open>0..chunk_count\<close>, which returns at the first missing part.\<close>

fun assemble_parts :: "(u16 \<times> bytes) list \<Rightarrow> nat list \<Rightarrow> bytes option" where
  "assemble_parts m [] = Some []"
| "assemble_parts m (i # is) = (case map_of m (of_nat i) of
      None \<Rightarrow> None
    | Some part \<Rightarrow> map_option (\<lambda>r. part @ r) (assemble_parts m is))"

definition add_verified ::
    "instant \<Rightarrow> socket_addr \<Rightarrow> udp_chunk \<Rightarrow> bytes \<Rightarrow> chunk_assembler \<Rightarrow> bytes option \<times> chunk_assembler" where
  "add_verified now src c raw a =
     (let key = (src, uc_message_id c); pending = ca_pending a in
      if map_of pending key = None \<and>
         (length pending \<ge> MAX_PENDING_ASSEMBLIES \<or> per_ip_count (sock_ip src) pending \<ge> MAX_PENDING_PER_IP)
      then (None, a)
      else (let entry = (case map_of pending key of
                  Some e \<Rightarrow> e
                | None \<Rightarrow> \<lparr>pa_chunks = [], pa_count = uc_count c, pa_first = now\<rparr>) in
        if pa_count entry \<noteq> uc_count c then (None, a)
        else (let entry = entry\<lparr>pa_chunks := map_put (uc_index c) raw (pa_chunks entry)\<rparr>;
                  a = a\<lparr>ca_pending := map_put key entry pending\<rparr> in
          if length (pa_chunks entry) = unat (pa_count entry) then
            (case assemble_parts (pa_chunks entry) [0..<unat (pa_count entry)] of
               None \<Rightarrow> (None, a)
             | Some out \<Rightarrow> (Some out, a\<lparr>ca_pending := map_del key (ca_pending a)\<rparr>))
          else (None, a))))"

definition add_chunk ::
    "(bytes \<Rightarrow> u32) \<Rightarrow> instant \<Rightarrow> socket_addr \<Rightarrow> udp_chunk \<Rightarrow> chunk_assembler \<Rightarrow>
     (bytes option \<times> chunk_assembler) exec" where
  "add_chunk crc now src c a0 =
     (let a = cleanup_expired now a0 in
      if uc_count c = 0 \<or> uc_count c > MAX_CHUNKS_PER_MESSAGE \<or> uc_index c \<ge> uc_count c then Done (None, a)
      else exec_bind (decode_payload c) (\<lambda>r. Done (case r of
          Inl _ \<Rightarrow> (None, a)
        | Inr raw \<Rightarrow>
            if crc raw \<noteq> uc_checksum c then (None, a)
            else if uc_count c = 1 \<and> uc_index c = 0 then (Some raw, a)
            else add_verified now src c raw a)))"

section \<open>Slices\<close>

lemma slices_Nil [simp]: "slices n [] = []"
  by (simp add: slices.simps)

lemma slices_step: "0 < n \<Longrightarrow> xs \<noteq> [] \<Longrightarrow> slices n xs = take n xs # slices n (drop n xs)"
  by (subst slices.simps) simp

lemma concat_slices: "0 < n \<Longrightarrow> concat (slices n xs) = xs"
  by (induction n xs rule: slices.induct) (subst slices.simps, auto)

lemma length_slices: "0 < n \<Longrightarrow> length (slices n xs) = (length xs + (n - 1)) div n"
proof (induction n xs rule: slices.induct)
  case (1 n xs)
  show ?case
  proof (cases "xs = []")
    case False
    then have IH: "length (slices n (drop n xs)) = (length xs - n + (n - 1)) div n" using 1 by simp
    have "length (slices n xs) = Suc ((length xs - n + (n - 1)) div n)"
      using False 1(2) IH by (simp add: slices_step)
    also have "\<dots> = (length xs + (n - 1)) div n"
    proof (cases "n \<le> length xs")
      case True
      then have e: "length xs + (n - 1) = (length xs - n + (n - 1)) + n" by simp
      show ?thesis unfolding e using 1(2) by (subst div_add_self2) simp_all
    next
      case short: False
      have e: "length xs + (n - 1) = (length xs - 1) + n" using False short by (cases xs) simp_all
      show ?thesis unfolding e using 1(2) short by (subst div_add_self2) simp_all
    qed
    finally show ?thesis .
  qed (use 1 in simp)
qed

lemma slices_bound: "s \<in> set (slices n xs) \<Longrightarrow> length s \<le> n"
  by (induction n xs rule: slices.induct) (subst (asm) slices.simps, auto split: if_splits)

section \<open>The chunks of a message\<close>

lemma split_data_nth:
  assumes "dat \<noteq> []"
  shows "length (split_data crc mid dat) = length (slices 500 dat)"
    and "i < length (slices 500 dat) \<Longrightarrow> split_data crc mid dat ! i
        = mk_chunk crc mid (of_nat (length (slices 500 dat))) i (slices 500 dat ! i)"
  using assms length_slices [of 500 dat]
  by (simp_all add: split_data_def Let_def nth_enumerate_eq)

definition binary_chunk :: "udp_chunk \<Rightarrow> bool" where
  "binary_chunk c \<longleftrightarrow> length (uc_message_id c) = 16 \<and>
     (\<exists>r. uc_raw c = Some r \<and> uc_payload_hex c = to_hex r)"

definition chunk_raw :: "udp_chunk \<Rightarrow> bytes" where
  "chunk_raw c = (case uc_raw c of Some r \<Rightarrow> r | None \<Rightarrow> [])"

lemma split_data_binary:
  assumes "length mid = 16" "c \<in> set (split_data crc mid dat)"
  shows "binary_chunk c \<and> length (chunk_raw c) \<le> CHUNK_PAYLOAD_SIZE \<and>
    uc_message_id c = mid \<and> uc_checksum c = crc (chunk_raw c)"
proof (cases "dat = []")
  case True
  then show ?thesis using assms by (simp add: split_data_def binary_chunk_def chunk_raw_def)
next
  case False
  then obtain i where i: "i < length (slices 500 dat)"
    "c = mk_chunk crc mid (of_nat (length (slices 500 dat))) i (slices 500 dat ! i)"
    using assms(2) split_data_nth [OF False] by (auto simp: in_set_conv_nth)
  then show ?thesis using assms(1) slices_bound [of "slices 500 dat ! i" 500 dat]
    by (simp add: mk_chunk_def binary_chunk_def chunk_raw_def)
qed

section \<open>The binary form\<close>

definition chunk_wire :: "udp_chunk \<Rightarrow> bytes" where
  "chunk_wire c = BINARY_MAGIC @ uc_message_id c @ be_bytes 2 (uc_index c) @ be_bytes 2 (uc_count c) @
     be_bytes 4 (uc_checksum c) @ chunk_raw c"

lemma chunk_to_bytes_binary: "binary_chunk c \<Longrightarrow> chunk_to_bytes c = Done (chunk_wire c)"
  by (auto simp: binary_chunk_def chunk_to_bytes_def chunk_wire_def chunk_raw_def)

lemma length_magic [simp]: "length BINARY_MAGIC = 4"
  by (simp add: BINARY_MAGIC_def)

lemma length_chunk_wire: "binary_chunk c \<Longrightarrow> length (chunk_wire c) = 28 + length (chunk_raw c)"
  by (auto simp: chunk_wire_def binary_chunk_def)

lemma nth_pair: "i + 2 \<le> length xs \<Longrightarrow> [xs ! i, xs ! (i + 1)] = take 2 (drop i xs)"
  by (simp add: numeral_2_eq_2 take_Suc_conv_app_nth flip: Cons_nth_drop_Suc)

lemma nth_quad:
  assumes "i + 4 \<le> length xs"
  shows "[xs ! i, xs ! (i + 1), xs ! (i + 2), xs ! (i + 3)] = take 4 (drop i xs)"
proof -
  have "take 4 (drop i xs) = take 2 (drop i xs) @ take 2 (drop (i + 2) xs)"
    using take_add [of 2 2 "drop i xs"] by (simp add: drop_drop add.commute)
  moreover have "xs ! (i + 2 + 1) = xs ! (i + 3)" by (rule arg_cong [of _ _ "nth xs"]) simp
  ultimately show ?thesis
    using assms nth_pair [of i xs] nth_pair [of "i + 2" xs] by simp
qed

lemma chunk_roundtrip:
  assumes "binary_chunk c"
  shows "chunk_from_bytes (chunk_wire c) = Ok c"
proof -
  obtain r where r: "length (uc_message_id c) = 16" "uc_raw c = Some r" "uc_payload_hex c = to_hex r"
    using assms by (auto simp: binary_chunk_def)
  let ?w = "chunk_wire c"
  have w: "?w = BINARY_MAGIC @ uc_message_id c @ be_bytes 2 (uc_index c) @ be_bytes 2 (uc_count c) @
      be_bytes 4 (uc_checksum c) @ r"
    using r by (simp add: chunk_wire_def chunk_raw_def)
  have l: "length ?w = 28 + length r" using r by (simp add: w)
  have "[?w ! 20, ?w ! 21] = be_bytes 2 (uc_index c)"
    using nth_pair [of 20 ?w] l r by (simp add: w)
  moreover have "[?w ! 22, ?w ! 23] = be_bytes 2 (uc_count c)"
    using nth_pair [of 22 ?w] l r by (simp add: w)
  moreover have "[?w ! 24, ?w ! 25, ?w ! 26, ?w ! 27] = be_bytes 4 (uc_checksum c)"
    using nth_quad [of 24 ?w] l r by (simp add: w)
  moreover have "take 4 ?w = BINARY_MAGIC" "take 16 (drop 4 ?w) = uc_message_id c" "drop 28 ?w = r"
    using r by (simp_all add: w)
  ultimately show ?thesis using l r by (cases c) (simp add: chunk_from_bytes_def Let_def)
qed

lemma chunk_from_bytes_binary: "chunk_from_bytes bs = Ok c \<Longrightarrow> binary_chunk c"
  by (auto simp: chunk_from_bytes_def binary_chunk_def Let_def split: if_splits)

interpretation chunk: codec "\<lambda>c. case chunk_to_bytes c of Done w \<Rightarrow> Some w | Panic \<Rightarrow> None"
  "\<lambda>w. case chunk_from_bytes w of Inr c \<Rightarrow> Some c | Inl _ \<Rightarrow> None" binary_chunk "\<lambda>c. c"
  by unfold_locales (auto simp: chunk_to_bytes_binary chunk_roundtrip)

section \<open>The limits of the pending table\<close>

definition pending_ok :: "pending_assembly \<Rightarrow> bool" where
  "pending_ok p \<longleftrightarrow> keys_distinct (pa_chunks p) \<and> pa_count p \<le> 256 \<and>
     (\<forall>e \<in> set (pa_chunks p). fst e < pa_count p) \<and> length (pa_chunks p) < unat (pa_count p)"

definition asm_inv :: "chunk_assembler \<Rightarrow> bool" where
  "asm_inv a \<longleftrightarrow> keys_distinct (ca_pending a) \<and> length (ca_pending a) \<le> MAX_PENDING_ASSEMBLIES \<and>
     (\<forall>ip. per_ip_count ip (ca_pending a) \<le> MAX_PENDING_PER_IP) \<and>
     (\<forall>e \<in> set (ca_pending a). pending_ok (snd e))"

lemma per_ip_filter_le: "per_ip_count ip (filter p m) \<le> per_ip_count ip m"
  unfolding per_ip_count_def by (induction m) auto

lemma asm_inv_cleanup: "asm_inv a \<Longrightarrow> asm_inv (cleanup_expired now a)"
  unfolding asm_inv_def cleanup_expired_def
  by (auto intro: le_trans [OF length_filter_le] le_trans [OF per_ip_filter_le])

lemma per_ip_put:
  "per_ip_count ip (map_put k v m) =
     (if map_of m k = None \<and> sock_ip (fst k) = ip then Suc (per_ip_count ip m) else per_ip_count ip m)"
  unfolding per_ip_count_def by (induction m) auto

lemma per_ip_del_le: "per_ip_count ip (map_del k m) \<le> per_ip_count ip m"
  unfolding map_del_def by (rule per_ip_filter_le)

text \<open>The parts of a complete entry are all there.\<close>

lemma length_keys_card:
  assumes "keys_distinct m" shows "length m = card (dom (map_of m))"
proof -
  have "card (fst ` set m) = length (map fst m)"
    using assms distinct_card [of "map fst m"] by (simp add: keys_distinct_def)
  then show ?thesis by (simp add: dom_map_of_conv_image_fst)
qed

lemma assemble_parts_Some: "(\<forall>i \<in> set is. map_of m (of_nat i) \<noteq> None) \<Longrightarrow>
    assemble_parts m is = Some (concat (map (\<lambda>i. the (map_of m (of_nat i))) is))"
  by (induction "is") auto

lemma unat_u16_less: "unat (n :: u16) < 65536"
  using unsigned_less [of n] by simp

lemma unat_of_nat_u16: "i < 65536 \<Longrightarrow> unat (of_nat i :: u16) = i"
  by (simp add: unat_of_nat)

lemma of_nat_u16_eq: "i < 65536 \<Longrightarrow> j < 65536 \<Longrightarrow> (of_nat i :: u16) = of_nat j \<longleftrightarrow> i = j"
  by (metis unat_of_nat_u16)

lemma complete_parts:
  assumes "keys_distinct m" "\<forall>e \<in> set m. fst e < (n :: u16)" "length m = unat n"
  shows "assemble_parts m [0..<unat n] = Some (concat (map (\<lambda>i. the (map_of m (of_nat i))) [0..<unat n]))"
proof (rule assemble_parts_Some, rule ballI)
  fix i assume i: "i \<in> set [0..<unat n]"
  have "dom (map_of m) \<subseteq> {w. w < n}" using assms(2) by (auto simp: dom_map_of_conv_image_fst)
  moreover have "card {w :: u16. w < n} = unat n"
  proof -
    have "{w :: u16. w < n} = of_nat ` {..<unat n}"
    proof
      show "{w :: u16. w < n} \<subseteq> of_nat ` {..<unat n}"
        by (auto simp: word_less_nat_alt intro!: image_eqI [where x = "unat w" for w])
      show "of_nat ` {..<unat n} \<subseteq> {w :: u16. w < n}"
        using unat_u16_less [of n] by (auto simp: word_less_nat_alt unat_of_nat_u16)
    qed
    moreover have "inj_on (of_nat :: nat \<Rightarrow> u16) {..<unat n}"
      using unat_u16_less [of n] by (auto intro!: inj_onI simp: of_nat_u16_eq)
    ultimately show ?thesis by (simp add: card_image)
  qed
  ultimately have "dom (map_of m) = {w. w < n}"
    using length_keys_card [OF assms(1)] assms(3) by (intro card_subset_eq) simp_all
  moreover have "(of_nat i :: u16) < n"
    using i unat_u16_less [of n] by (simp add: word_less_nat_alt unat_of_nat_u16)
  ultimately show "map_of m (of_nat i) \<noteq> None" by blast
qed

text \<open>What one verified chunk does, by the entry of its key.\<close>

definition cur_entry :: "instant \<Rightarrow> udp_chunk \<Rightarrow> pending_assembly option \<Rightarrow> pending_assembly" where
  "cur_entry now c e = (case e of Some e \<Rightarrow> e
     | None \<Rightarrow> \<lparr>pa_chunks = [], pa_count = uc_count c, pa_first = now\<rparr>)"

definition has_room :: "socket_addr \<Rightarrow> chunk_assembler \<Rightarrow> bool" where
  "has_room src a \<longleftrightarrow> length (ca_pending a) < MAX_PENDING_ASSEMBLIES \<and>
     per_ip_count (sock_ip src) (ca_pending a) < MAX_PENDING_PER_IP"

definition old_entry :: "instant \<Rightarrow> socket_addr \<Rightarrow> udp_chunk \<Rightarrow> chunk_assembler \<Rightarrow> pending_assembly" where
  "old_entry now src c a = cur_entry now c (map_of (ca_pending a) (src, uc_message_id c))"

definition new_entry ::
    "instant \<Rightarrow> socket_addr \<Rightarrow> udp_chunk \<Rightarrow> bytes \<Rightarrow> chunk_assembler \<Rightarrow> pending_assembly" where
  "new_entry now src c raw a = (let e = old_entry now src c a in
     e\<lparr>pa_chunks := map_put (uc_index c) raw (pa_chunks e)\<rparr>)"

lemma old_entry_ok:
  assumes "asm_inv a" "uc_index c < uc_count c" "uc_count c \<le> 256"
  shows "pending_ok (old_entry now src c a)"
proof (cases "map_of (ca_pending a) (src, uc_message_id c)")
  case None
  have "0 < unat (uc_count c)" using assms(2) by (simp add: word_less_nat_alt)
  then show ?thesis using None assms(3) by (simp add: old_entry_def cur_entry_def pending_ok_def)
next
  case (Some x)
  then show ?thesis using assms(1) map_of_SomeD [OF Some]
    by (auto simp: asm_inv_def old_entry_def cur_entry_def)
qed

lemma new_entry_facts:
  assumes "pending_ok (old_entry now src c a)" "pa_count (old_entry now src c a) = uc_count c"
    and "uc_index c < uc_count c"
  shows "keys_distinct (pa_chunks (new_entry now src c raw a))"
    "\<forall>x \<in> set (pa_chunks (new_entry now src c raw a)). fst x < uc_count c"
    "length (pa_chunks (new_entry now src c raw a)) \<le> unat (uc_count c)"
    "pa_count (new_entry now src c raw a) = uc_count c \<and> pa_count (new_entry now src c raw a) \<le> 256"
  using assms set_map_put_subset [of "uc_index c" raw "pa_chunks (old_entry now src c a)"]
  by (auto simp: new_entry_def Let_def pending_ok_def length_map_put)

lemma map_del_put [simp]: "map_del k (map_put k v m) = map_del k m"
  by (induction k v m rule: map_put.induct) (auto simp: map_del_def)

lemma add_verified_cases:
  assumes "asm_inv a" "uc_index c < uc_count c" "uc_count c \<le> 256"
  obtains (dropped) "add_verified now src c raw a = (None, a)"
      "map_of (ca_pending a) (src, uc_message_id c) = None \<and> \<not> has_room src a \<or>
       pa_count (old_entry now src c a) \<noteq> uc_count c"
    | (stored) "add_verified now src c raw a =
        (None, a\<lparr>ca_pending := map_put (src, uc_message_id c) (new_entry now src c raw a) (ca_pending a)\<rparr>)"
      "map_of (ca_pending a) (src, uc_message_id c) \<noteq> None \<or> has_room src a"
      "pending_ok (new_entry now src c raw a)" "pa_count (old_entry now src c a) = uc_count c"
    | (complete) "add_verified now src c raw a =
        (Some (concat (map (\<lambda>i. the (map_of (pa_chunks (new_entry now src c raw a)) (of_nat i))) [0..<unat (uc_count c)])),
         a\<lparr>ca_pending := map_del (src, uc_message_id c) (ca_pending a)\<rparr>)"
      "length (pa_chunks (new_entry now src c raw a)) = unat (uc_count c)"
      "pa_count (old_entry now src c a) = uc_count c"
proof -
  let ?key = "(src, uc_message_id c)" and ?e = "old_entry now src c a" and ?n = "new_entry now src c raw a"
  show thesis
  proof (cases "map_of (ca_pending a) ?key = None \<and> \<not> has_room src a \<or> pa_count ?e \<noteq> uc_count c")
    case True
    then have "add_verified now src c raw a = (None, a)"
      by (auto simp: add_verified_def Let_def has_room_def old_entry_def cur_entry_def not_less split: option.splits)
    then show thesis using dropped True by blast
  next
    case False
    then have c: "pa_count ?e = uc_count c" "map_of (ca_pending a) ?key \<noteq> None \<or> has_room src a" by auto
    note f = new_entry_facts [OF old_entry_ok [OF assms] c(1) assms(2), where raw = raw]
    have step: "add_verified now src c raw a =
       (if length (pa_chunks ?n) = unat (uc_count c) then
          (case assemble_parts (pa_chunks ?n) [0..<unat (uc_count c)] of
             None \<Rightarrow> (None, a\<lparr>ca_pending := map_put ?key ?n (ca_pending a)\<rparr>)
           | Some out \<Rightarrow> (Some out, a\<lparr>ca_pending := map_del ?key (ca_pending a)\<rparr>))
        else (None, a\<lparr>ca_pending := map_put ?key ?n (ca_pending a)\<rparr>))"
      using c by (auto simp: add_verified_def Let_def has_room_def new_entry_def old_entry_def cur_entry_def
          split: option.splits)
    show thesis
    proof (cases "length (pa_chunks ?n) = unat (uc_count c)")
      case True
      then have "assemble_parts (pa_chunks ?n) [0..<unat (uc_count c)] =
          Some (concat (map (\<lambda>i. the (map_of (pa_chunks ?n) (of_nat i))) [0..<unat (uc_count c)]))"
        using f by (intro complete_parts) simp_all
      then show thesis using complete step True c by simp
    next
      case False
      then have "pending_ok ?n" using f by (auto simp: pending_ok_def)
      then show thesis using stored step False c by simp
    qed
  qed
qed

lemma asm_inv_put:
  assumes "asm_inv a" "map_of (ca_pending a) k \<noteq> None \<or> has_room (fst k) a" "pending_ok p"
  shows "asm_inv (a\<lparr>ca_pending := map_put k p (ca_pending a)\<rparr>)"
  using assms set_map_put_subset [of k p "ca_pending a"]
  by (auto simp: asm_inv_def length_map_put per_ip_put has_room_def)

lemma set_map_del_subset: "set (map_del k m) \<subseteq> set m"
  by (auto simp: map_del_def)

lemma asm_inv_del: "asm_inv a \<Longrightarrow> asm_inv (a\<lparr>ca_pending := map_del k (ca_pending a)\<rparr>)"
  unfolding asm_inv_def
  by (auto intro: le_trans [OF length_map_del_le] le_trans [OF per_ip_del_le] dest!: set_map_del_subset [THEN subsetD])

lemma add_verified_inv:
  assumes "asm_inv a" "uc_index c < uc_count c" "uc_count c \<le> 256"
  shows "asm_inv (snd (add_verified now src c raw a))"
  by (rule add_verified_cases [OF assms, of now src raw])
    (use assms(1) in \<open>auto intro: asm_inv_put asm_inv_del\<close>)

lemma add_chunk_inv:
  assumes "asm_inv a" "add_chunk crc now src c a = Done (r, a')"
  shows "asm_inv a'"
proof -
  have i: "asm_inv (cleanup_expired now a)" using assms(1) by (rule asm_inv_cleanup)
  have "asm_inv (snd (add_verified now src c raw (cleanup_expired now a)))"
    if "\<not> (uc_count c = 0 \<or> uc_count c > 256 \<or> uc_index c \<ge> uc_count c)" for raw
    using that i by (intro add_verified_inv) auto
  then show ?thesis
    using assms(2) i
    by (auto simp: add_chunk_def Let_def exec_bind_def split: if_splits exec.splits sum.splits) (metis snd_conv)+
qed

text \<open>A chunk of the binary form cannot panic.\<close>

lemma add_chunk_binary:
  assumes "uc_raw c = Some raw"
  shows "add_chunk crc now src c a0 = Done (let a = cleanup_expired now a0 in
     if uc_count c = 0 \<or> uc_count c > 256 \<or> uc_index c \<ge> uc_count c \<or> crc raw \<noteq> uc_checksum c then (None, a)
     else if uc_count c = 1 \<and> uc_index c = 0 then (Some raw, a)
     else add_verified now src c raw a)"
  using assms by (auto simp: add_chunk_def Let_def decode_payload_def)

fun asm_step :: "(bytes \<Rightarrow> u32) \<Rightarrow> instant \<times> socket_addr \<times> udp_chunk \<Rightarrow> chunk_assembler \<Rightarrow> chunk_assembler" where
  "asm_step crc (now, src, c) a = (case add_chunk crc now src c a of Done r \<Rightarrow> snd r | Panic \<Rightarrow> a)"

interpretation asm_sys: op_system "asm_step crc" "\<lambda>_. True" asm_inv for crc
proof
  fix ev s assume "asm_inv s"
  then show "asm_inv (asm_step crc ev s)"
    using add_chunk_inv by (cases ev) (auto split: exec.splits)
qed

section \<open>Reassembly\<close>

text \<open>\<open>tracking\<close>: the entry of the key holds exactly the parts with an index in \<open>S\<close> of a message with
  the parts \<open>ss\<close>, first received at \<open>t0\<close>.\<close>

definition holds_parts :: "bytes list \<Rightarrow> nat set \<Rightarrow> instant \<Rightarrow> pending_assembly \<Rightarrow> bool" where
  "holds_parts ss S t0 p \<longleftrightarrow> pa_first p = t0 \<and> pa_count p = of_nat (length ss) \<and>
     map_of (pa_chunks p) = (\<lambda>w. if unat w \<in> S then Some (ss ! unat w) else None)"

definition tracking :: "asm_key \<Rightarrow> bytes list \<Rightarrow> nat set \<Rightarrow> instant \<Rightarrow> chunk_assembler \<Rightarrow> bool" where
  "tracking key ss S t0 a \<longleftrightarrow> asm_inv a \<and> S \<subseteq> {..<length ss} \<and>
     (\<exists>p. map_of (ca_pending a) key = Some p \<and> holds_parts ss S t0 p)"

lemma map_of_filter_keep:
  "map_of m k = Some v \<Longrightarrow> keys_distinct m \<Longrightarrow> P (k, v) \<Longrightarrow> map_of (filter P m) k = Some v"
  by (induction m) (auto simp: keys_distinct_def)

lemma tracking_cleanup:
  assumes "tracking key ss S t0 a" "now - t0 < ca_timeout a"
  shows "tracking key ss S t0 (cleanup_expired now a)"
proof -
  obtain p where p: "map_of (ca_pending a) key = Some p" "holds_parts ss S t0 p"
    and a: "asm_inv a" using assms(1) by (auto simp: tracking_def)
  have "map_of (ca_pending (cleanup_expired now a)) key = Some p"
    using p a assms(2) by (simp add: cleanup_expired_def map_of_filter_keep asm_inv_def holds_parts_def)
  then show ?thesis using assms(1) p asm_inv_cleanup [OF a] by (auto simp: tracking_def)
qed

lemma cleanup_timeout [simp]: "ca_timeout (cleanup_expired now a) = ca_timeout a"
  by (simp add: cleanup_expired_def)

lemma timeout_kept: "ca_timeout (snd (add_verified now src c raw a)) = ca_timeout a"
  by (simp add: add_verified_def Let_def split: option.splits)

text \<open>A chunk of another message, or from another address, does not touch the entry.\<close>

lemma foreign_kept:
  assumes "tracking key ss S t0 a" "(src, uc_message_id c) \<noteq> key"
    and "uc_index c < uc_count c" "uc_count c \<le> 256"
  shows "tracking key ss S t0 (snd (add_verified now src c raw a))"
proof -
  have a: "asm_inv a" using assms(1) by (simp add: tracking_def)
  have "map_of (ca_pending (snd (add_verified now src c raw a))) key = map_of (ca_pending a) key"
    by (rule add_verified_cases [OF a assms(3,4), of now src raw]) (use assms(2) in \<open>auto simp: map_of_del\<close>)
  then show ?thesis
    using assms(1) add_verified_inv [OF a assms(3,4), of now src raw] by (simp add: tracking_def)
qed

definition good_part :: "bytes \<Rightarrow> bytes list \<Rightarrow> nat \<Rightarrow> udp_chunk \<Rightarrow> bool" where
  "good_part mid ss i c \<longleftrightarrow> i < length ss \<and> uc_message_id c = mid \<and> uc_index c = of_nat i \<and>
     uc_count c = of_nat (length ss)"

lemma holds_parts_dom: "holds_parts ss S t0 p \<Longrightarrow> S \<subseteq> {..<length ss} \<Longrightarrow> length ss \<le> 256 \<Longrightarrow>
    dom (map_of (pa_chunks p)) = of_nat ` S"
  unfolding holds_parts_def
  by (force simp: dom_def unat_of_nat_u16 split: if_splits)

lemma inj_of_nat_parts: "S \<subseteq> {..<n} \<Longrightarrow> n \<le> 256 \<Longrightarrow> inj_on (of_nat :: nat \<Rightarrow> u16) S"
proof (rule inj_onI)
  fix x y assume "S \<subseteq> {..<n}" "n \<le> 256" "x \<in> S" "y \<in> S" "(of_nat x :: u16) = of_nat y"
  then have "x < n" "y < n" "n \<le> 256" "(of_nat x :: u16) = of_nat y" by blast+
  then show "x = y" using of_nat_u16_eq [of x y] by linarith
qed

lemma holds_parts_length:
  assumes "holds_parts ss S t0 p" "S \<subseteq> {..<length ss}" "length ss \<le> 256" "keys_distinct (pa_chunks p)"
  shows "length (pa_chunks p) = card S"
  using length_keys_card [OF assms(4)] holds_parts_dom [OF assms(1-3)]
    inj_of_nat_parts [OF assms(2,3)] by (simp add: card_image)

lemma holds_parts_put:
  assumes "holds_parts ss S t0 p" "i < length ss" "length ss \<le> 256"
  shows "holds_parts ss (insert i S) t0 (p\<lparr>pa_chunks := map_put (of_nat i) (ss ! i) (pa_chunks p)\<rparr>)"
proof -
  have "unat (of_nat i :: u16) = i" using assms by (simp add: unat_of_nat_u16)
  moreover have "w = of_nat i \<longleftrightarrow> unat w = i" for w :: u16
    using calculation by (metis word_unat_eq_iff)
  ultimately show ?thesis using assms(1) by (auto simp: holds_parts_def fun_eq_iff)
qed

text \<open>What an own part does to an entry that has the parts \<open>S\<close>: with the last one missing the whole
  message comes back and the entry is gone, otherwise the part is added.\<close>

lemma own_part:
  assumes inv: "asm_inv a" and S: "S \<subseteq> {..<length ss}" "length ss \<le> 256"
    and c: "good_part mid ss i c"
    and old: "holds_parts ss S t0 (old_entry now src c a)"
    and room: "map_of (ca_pending a) (src, mid) \<noteq> None \<or> has_room src a"
  shows "if insert i S = {..<length ss}
     then \<exists>a'. add_verified now src c (ss ! i) a = (Some (concat ss), a') \<and> map_of (ca_pending a') (src, mid) = None
     else \<exists>a'. add_verified now src c (ss ! i) a = (None, a') \<and> tracking (src, mid) ss (insert i S) t0 a'"
proof -
  let ?n = "new_entry now src c (ss ! i) a"
  have i: "i < length ss" "uc_message_id c = mid" "uc_index c = of_nat i" "uc_count c = of_nat (length ss)"
    using c by (simp_all add: good_part_def)
  have n: "unat (uc_count c) = length ss" using i S(2) by (simp add: unat_of_nat_u16)
  have lt: "uc_index c < uc_count c" "uc_count c \<le> 256"
    using i S(2) by (simp_all add: word_less_nat_alt word_le_nat_alt unat_of_nat_u16)
  have cnt: "pa_count (old_entry now src c a) = uc_count c" using old i by (simp add: holds_parts_def)
  note f = new_entry_facts [OF old_entry_ok [OF inv lt] cnt lt(1), of "ss ! i"]
  have new: "holds_parts ss (insert i S) t0 ?n"
    using holds_parts_put [OF old i(1) S(2)] i(3) by (simp add: new_entry_def Let_def)
  have sub: "insert i S \<subseteq> {..<length ss}" using S(1) i(1) by simp
  have len: "length (pa_chunks ?n) = card (insert i S)"
    using holds_parts_length [OF new sub S(2) f(1)] .
  have full: "length (pa_chunks ?n) = length ss \<longleftrightarrow> insert i S = {..<length ss}"
    using len sub by (metis card_lessThan card_subset_eq finite_lessThan)
  show ?thesis
    using inv lt
  proof (cases rule: add_verified_cases [of a c now src "ss ! i"])
    case dropped
    then show ?thesis using room cnt i(2) by simp
  next
    case stored
    have "insert i S \<noteq> {..<length ss}"
      using stored(3) full n f(4) by (auto simp: pending_ok_def)
    moreover have "asm_inv (a\<lparr>ca_pending := map_put (src, mid) ?n (ca_pending a)\<rparr>)"
      using inv stored(2,3) i(2) by (intro asm_inv_put) simp_all
    ultimately show ?thesis using stored(1) new sub i(2) by (simp add: tracking_def)
  next
    case complete
    have all: "insert i S = {..<length ss}" using complete(2) full n by simp
    have "the (map_of (pa_chunks ?n) (of_nat j)) = ss ! j" if "j < length ss" for j
      using new all that S(2) by (simp add: holds_parts_def unat_of_nat_u16)
    then have "map (\<lambda>j. the (map_of (pa_chunks ?n) (of_nat j))) [0..<length ss] = ss"
      by (intro nth_equalityI) simp_all
    then show ?thesis using complete(1) all n i(2) by (simp add: map_of_del)
  qed
qed

text \<open>Events that reach the assembler, and what it returns for them.\<close>

type_synonym chunk_event = "instant \<times> socket_addr \<times> udp_chunk"

fun deliver :: "(bytes \<Rightarrow> u32) \<Rightarrow> chunk_event list \<Rightarrow> chunk_assembler \<Rightarrow>
    (bytes option list \<times> chunk_assembler) exec" where
  "deliver crc [] a = Done ([], a)"
| "deliver crc ((now, src, c) # evs) a =
     exec_bind (add_chunk crc now src c a) (\<lambda>(r, a).
     exec_bind (deliver crc evs a) (\<lambda>(rs, a). Done (r # rs, a)))"

lemma deliver_append:
  "deliver crc (xs @ ys) a = exec_bind (deliver crc xs a) (\<lambda>(rs, a).
     exec_bind (deliver crc ys a) (\<lambda>(qs, a). Done (rs @ qs, a)))"
  by (induction crc xs a rule: deliver.induct)
    (auto simp: exec_bind_def split: exec.splits prod.splits)

text \<open>An event carries a part \<open>i\<close> of the message of \<open>key\<close>.\<close>

definition own_event :: "(bytes \<Rightarrow> u32) \<Rightarrow> asm_key \<Rightarrow> bytes list \<Rightarrow> nat \<Rightarrow> chunk_event \<Rightarrow> bool" where
  "own_event crc key ss i ev \<longleftrightarrow> fst (snd ev) = fst key \<and> good_part (snd key) ss i (snd (snd ev)) \<and>
     uc_raw (snd (snd ev)) = Some (ss ! i) \<and> uc_checksum (snd (snd ev)) = crc (ss ! i)"

definition foreign_event :: "asm_key \<Rightarrow> chunk_event \<Rightarrow> bool" where
  "foreign_event key ev \<longleftrightarrow> (fst (snd ev), uc_message_id (snd (snd ev))) \<noteq> key \<and> uc_raw (snd (snd ev)) \<noteq> None"

lemma tracking_timeout:
  assumes "add_chunk crc now src c a = Done (r, a')" shows "ca_timeout a' = ca_timeout a"
  using assms timeout_kept [of now src c _ "cleanup_expired now a"]
  by (auto simp: add_chunk_def Let_def exec_bind_def split: if_splits exec.splits sum.splits) (metis snd_conv)+

lemma foreign_step:
  assumes "tracking key ss S t0 a" "foreign_event key (now, src, c)" "now - t0 < ca_timeout a"
  shows "\<exists>r a'. add_chunk crc now src c a = Done (r, a') \<and> tracking key ss S t0 a' \<and> ca_timeout a' = ca_timeout a"
proof -
  obtain raw where raw: "uc_raw c = Some raw" "(src, uc_message_id c) \<noteq> key"
    using assms(2) by (auto simp: foreign_event_def)
  have t: "tracking key ss S t0 (cleanup_expired now a)" using assms(1,3) by (rule tracking_cleanup)
  then have "tracking key ss S t0 (snd (add_verified now src c raw (cleanup_expired now a)))"
    if "\<not> (uc_count c > 256 \<or> uc_index c \<ge> uc_count c)"
    using that raw(2) by (intro foreign_kept) auto
  moreover obtain r a' where "add_chunk crc now src c a = Done (r, a')"
    using add_chunk_binary [OF raw(1)] by (metis surj_pair)
  ultimately show ?thesis
    using t tracking_timeout add_chunk_binary [OF raw(1), of crc now src a]
    by (auto simp: Let_def split: if_splits)
qed

lemma own_binary:
  assumes "own_event crc (src, mid) ss i (now, src, c)" "2 \<le> length ss" "length ss \<le> 256"
  shows "add_chunk crc now src c a = Done (add_verified now src c (ss ! i) (cleanup_expired now a))"
proof -
  have c: "good_part mid ss i c" "uc_raw c = Some (ss ! i)" "uc_checksum c = crc (ss ! i)"
    using assms(1) by (simp_all add: own_event_def)
  then have n: "unat (uc_count c) = length ss" "unat (uc_index c) = i" "i < length ss"
    using assms(3) by (auto simp: good_part_def unat_of_nat_u16)
  then have "uc_count c \<noteq> 0" "uc_count c \<noteq> 1" "\<not> uc_count c > 256" "\<not> uc_index c \<ge> uc_count c"
    using assms(2,3) by (auto simp: word_less_nat_alt word_le_nat_alt)
  then show ?thesis using c by (simp add: add_chunk_binary Let_def)
qed

lemma own_step:
  assumes "tracking (src, mid) ss S t0 a" "own_event crc (src, mid) ss i (now, src, c)"
    and "2 \<le> length ss" "length ss \<le> 256" "now - t0 < ca_timeout a"
  shows "\<exists>a'. add_chunk crc now src c a =
      Done (if insert i S = {..<length ss} then Some (concat ss) else None, a') \<and>
      (if insert i S = {..<length ss} then map_of (ca_pending a') (src, mid) = None
       else tracking (src, mid) ss (insert i S) t0 a') \<and> ca_timeout a' = ca_timeout a"
proof -
  let ?b = "cleanup_expired now a"
  have t: "tracking (src, mid) ss S t0 ?b" using assms(1,5) by (rule tracking_cleanup)
  have g: "good_part mid ss i c" using assms(2) by (simp add: own_event_def)
  have "holds_parts ss S t0 (old_entry now src c ?b)"
    using t g by (auto simp: tracking_def old_entry_def cur_entry_def good_part_def)
  from own_part [OF _ _ assms(4) g this]
  have "if insert i S = {..<length ss}
     then \<exists>a'. add_verified now src c (ss ! i) ?b = (Some (concat ss), a') \<and> map_of (ca_pending a') (src, mid) = None
     else \<exists>a'. add_verified now src c (ss ! i) ?b = (None, a') \<and> tracking (src, mid) ss (insert i S) t0 a'"
    using t unfolding tracking_def [of _ _ S] by blast
  then show ?thesis
    using own_binary [OF assms(2-4), of a] timeout_kept [of now src c "ss ! i" ?b]
    by (cases "insert i S = {..<length ss}") auto
qed

lemma first_step:
  assumes "asm_inv a" "own_event crc (src, mid) ss i (now, src, c)" "2 \<le> length ss" "length ss \<le> 256"
    and "map_of (ca_pending (cleanup_expired now a)) (src, mid) = None" "has_room src (cleanup_expired now a)"
  shows "\<exists>a'. add_chunk crc now src c a = Done (None, a') \<and> tracking (src, mid) ss {i} now a' \<and>
      ca_timeout a' = ca_timeout a"
proof -
  let ?b = "cleanup_expired now a"
  have g: "good_part mid ss i c" using assms(2) by (simp add: own_event_def)
  have "holds_parts ss {} now (old_entry now src c ?b)"
    using assms(5) g by (auto simp: old_entry_def cur_entry_def good_part_def holds_parts_def)
  from own_part [OF asm_inv_cleanup [OF assms(1)] _ assms(4) g this]
  have "if {i} = {..<length ss}
     then \<exists>a'. add_verified now src c (ss ! i) ?b = (Some (concat ss), a') \<and> map_of (ca_pending a') (src, mid) = None
     else \<exists>a'. add_verified now src c (ss ! i) ?b = (None, a') \<and> tracking (src, mid) ss {i} now a'"
    using assms(6) by auto
  moreover have "{i} \<noteq> {..<length ss}"
    using assms(3) by (metis card_lessThan is_singletonI is_singleton_altdef not_numeral_le_zero numeral_le_one_iff
        semiring_norm(69))
  ultimately show ?thesis
    using own_binary [OF assms(2-4), of a] timeout_kept [of now src c "ss ! i" ?b] by auto
qed

text \<open>The indices that a list of events carries.\<close>

definition carried :: "(bytes \<Rightarrow> u32) \<Rightarrow> asm_key \<Rightarrow> bytes list \<Rightarrow> chunk_event list \<Rightarrow> nat set" where
  "carried crc key ss evs = {i. \<exists>ev \<in> set evs. own_event crc key ss i ev}"

definition mixed_traffic :: "(bytes \<Rightarrow> u32) \<Rightarrow> asm_key \<Rightarrow> bytes list \<Rightarrow> instant \<Rightarrow> nat \<Rightarrow> chunk_event list \<Rightarrow> bool" where
  "mixed_traffic crc key ss t0 timeout evs \<longleftrightarrow>
     (\<forall>ev \<in> set evs. fst ev - t0 < timeout \<and> ((\<exists>i. own_event crc key ss i ev) \<or> foreign_event key ev))"

lemma own_event_index:
  "own_event crc key ss i ev \<Longrightarrow> own_event crc key ss j ev \<Longrightarrow> length ss \<le> 256 \<Longrightarrow> i = j"
  using of_nat_u16_eq [of i j] by (auto simp: own_event_def good_part_def)

lemma foreign_not_own: "foreign_event key ev \<Longrightarrow> \<not> own_event crc key ss i ev"
  by (cases key) (auto simp: foreign_event_def own_event_def good_part_def)

lemma deliver_partial:
  assumes "tracking key ss S t0 a" "mixed_traffic crc key ss t0 (ca_timeout a) evs"
    and "2 \<le> length ss" "length ss \<le> 256" "S \<union> carried crc key ss evs \<noteq> {..<length ss}"
  shows "\<exists>rs a'. deliver crc evs a = Done (rs, a') \<and> length rs = length evs \<and>
      tracking key ss (S \<union> carried crc key ss evs) t0 a' \<and> ca_timeout a' = ca_timeout a \<and>
      (\<forall>k < length evs. (\<exists>i. own_event crc key ss i (evs ! k)) \<longrightarrow> rs ! k = None)"
  using assms
proof (induction evs arbitrary: S a)
  case Nil
  then show ?case by (simp add: carried_def)
next
  case (Cons ev evs)
  obtain now src c where ev: "ev = (now, src, c)" by (metis surj_pair)
  have win: "now - t0 < ca_timeout a" using Cons.prems(2) ev by (simp add: mixed_traffic_def)
  have mt: "mixed_traffic crc key ss t0 (ca_timeout a) evs" using Cons.prems(2) by (simp add: mixed_traffic_def)
  have "(\<exists>i. own_event crc key ss i ev) \<or> foreign_event key ev"
    using Cons.prems(2) by (simp add: mixed_traffic_def)
  then show ?case
  proof
    assume f: "foreign_event key ev"
    then have "carried crc key ss (ev # evs) = carried crc key ss evs"
      using foreign_not_own by (auto simp: carried_def)
    moreover obtain r a1 where s: "add_chunk crc now src c a = Done (r, a1)" "tracking key ss S t0 a1"
        "ca_timeout a1 = ca_timeout a"
      using foreign_step [OF Cons.prems(1) f [unfolded ev] win, of crc] by auto
    moreover have "\<forall>i. \<not> own_event crc key ss i ev" using f foreign_not_own by blast
    moreover obtain rs a' where "deliver crc evs a1 = Done (rs, a')" "length rs = length evs"
        "tracking key ss (S \<union> carried crc key ss evs) t0 a'" "ca_timeout a' = ca_timeout a1"
        "\<forall>k < length evs. (\<exists>i. own_event crc key ss i (evs ! k)) \<longrightarrow> rs ! k = None"
      using Cons.IH [OF s(2)] mt Cons.prems(3-5) s(3) calculation(1) by auto
    ultimately show ?thesis unfolding ev
      by (intro exI [of _ "r # rs"] exI [of _ a']) (auto simp: nth_Cons split: nat.splits)
  next
    assume "\<exists>i. own_event crc key ss i ev"
    then obtain i where i: "own_event crc key ss i ev" by blast
    then have key: "key = (src, uc_message_id c)" by (cases key) (auto simp: own_event_def good_part_def ev)
    have "own_event crc key ss j ev \<longleftrightarrow> j = i" for j
      using own_event_index [OF i _ Cons.prems(4)] i by blast
    then have car: "carried crc key ss (ev # evs) = insert i (carried crc key ss evs)"
      by (auto simp: carried_def)
    have sub: "S \<union> carried crc key ss (ev # evs) \<subseteq> {..<length ss}"
      using Cons.prems(1) by (auto simp: tracking_def carried_def own_event_def good_part_def)
    then have ne: "insert i S \<noteq> {..<length ss}" using Cons.prems(5) car by auto
    obtain a1 where s: "add_chunk crc now src c a = Done (None, a1)" "tracking key ss (insert i S) t0 a1"
        "ca_timeout a1 = ca_timeout a"
      using own_step [OF Cons.prems(1) [unfolded key] i [unfolded ev key] Cons.prems(3,4) win] ne
      unfolding key by auto
    have "insert i S \<union> carried crc key ss evs \<noteq> {..<length ss}" using Cons.prems(5) car by auto
    then obtain rs a' where "deliver crc evs a1 = Done (rs, a')" "length rs = length evs"
        "tracking key ss (insert i S \<union> carried crc key ss evs) t0 a'" "ca_timeout a' = ca_timeout a1"
        "\<forall>k < length evs. (\<exists>i. own_event crc key ss i (evs ! k)) \<longrightarrow> rs ! k = None"
      using Cons.IH [OF s(2) _ Cons.prems(3,4)] mt unfolding s(3) by blast
    then show ?thesis using s(1,3) car unfolding ev
      by (intro exI [of _ "None # rs"] exI [of _ a']) (auto simp: nth_Cons split: nat.splits)
  qed
qed

text \<open>The whole delivery: a first part that finds room, any mixture of further parts, repeats and other
  traffic within the timeout, then the last missing part.\<close>

lemma deliver_message:
  assumes inv: "asm_inv a" and n: "2 \<le> length ss" "length ss \<le> 256"
    and first: "own_event crc (src, mid) ss i (t0, src, c)"
      "map_of (ca_pending (cleanup_expired t0 a)) (src, mid) = None" "has_room src (cleanup_expired t0 a)"
    and mid: "mixed_traffic crc (src, mid) ss t0 (ca_timeout a) evs"
    and last: "own_event crc (src, mid) ss j (t1, src, d)" "t1 - t0 < ca_timeout a"
      "j \<notin> insert i (carried crc (src, mid) ss evs)"
      "insert j (insert i (carried crc (src, mid) ss evs)) = {..<length ss}"
  shows "\<exists>rs a'. deliver crc ((t0, src, c) # evs @ [(t1, src, d)]) a = Done (None # rs @ [Some (concat ss)], a') \<and>
      length rs = length evs \<and> map_of (ca_pending a') (src, mid) = None \<and>
      (\<forall>k < length evs. (\<exists>i. own_event crc (src, mid) ss i (evs ! k)) \<longrightarrow> rs ! k = None)"
proof -
  obtain a1 where a1: "add_chunk crc t0 src c a = Done (None, a1)" "tracking (src, mid) ss {i} t0 a1"
      "ca_timeout a1 = ca_timeout a"
    using first_step [OF inv first(1) n first(2,3)] by auto
  have ne: "{i} \<union> carried crc (src, mid) ss evs \<noteq> {..<length ss}" using last(3,4) by auto
  obtain rs a2 where a2: "deliver crc evs a1 = Done (rs, a2)" "length rs = length evs"
      "tracking (src, mid) ss ({i} \<union> carried crc (src, mid) ss evs) t0 a2" "ca_timeout a2 = ca_timeout a"
      "\<forall>k < length evs. (\<exists>i. own_event crc (src, mid) ss i (evs ! k)) \<longrightarrow> rs ! k = None"
    using deliver_partial [OF a1(2) _ n ne] mid a1(3) by auto
  have all: "insert j ({i} \<union> carried crc (src, mid) ss evs) = {..<length ss}" using last(4) by simp
  obtain a3 where "add_chunk crc t1 src d a2 = Done (Some (concat ss), a3)"
      "map_of (ca_pending a3) (src, mid) = None"
    using own_step [OF a2(3) last(1) n] last(2) a2(4) unfolding all by auto
  then show ?thesis using a1(1) a2 by (auto simp: deliver_append)
qed

text \<open>The chunks that \<open>split_data\<close> makes are the parts of the message.\<close>

lemma split_data_own:
  assumes "dat \<noteq> []" "i < length (slices 500 dat)"
  shows "own_event crc (src, mid) (slices 500 dat) i (now, src, split_data crc mid dat ! i)"
  using assms by (simp add: own_event_def good_part_def split_data_nth mk_chunk_def)

end
