(* ===== verification/Rpc_Network.thy ===== *)
theory Rpc_Network
  imports Chunking Peer_Health
begin

text \<open>
  The network manager, from \<open>nodex-kademlia/src/rpc.rs\<close>: \<open>send_message\<close> with its
  fragmentation, the retry loop of \<open>call\<close> and one turn of the receive loop with the
  routing-table update, the table of pending calls and the bounded request slots.
  Sockets, random numbers, timers and the scheduler are parameters: which sends
  succeed, how each wait of a call ends, which request slots are free. The lemmas show
  that every datagram fits, that a message sent is the message received, what can
  reach a waiting caller, and how often a call sends.
\<close>

section \<open>Sending\<close>

abbreviation CHUNK_THRESHOLD :: nat where "CHUNK_THRESHOLD \<equiv> 1100"

text \<open>\<open>set_ip\<close> with an IPv4 address makes any address an IPv4 address.\<close>

definition redirect_unspecified :: "socket_addr \<Rightarrow> socket_addr" where
  "redirect_unspecified a =
     (if ip_is_unspecified (sock_ip a) then SockV4 0x7F000001 (sock_port a) else a)"

datatype send_error = SendEncode rpc_error | ChunkSendFailed nat | DirectSendFailed

type_synonym datagram = "socket_addr \<times> bytes"

text \<open>\<open>ok i\<close> tells whether the \<open>i\<close>-th \<open>send_to\<close> succeeds. The result has the error, if any, the
  datagrams sent and the total of their lengths.\<close>

fun send_chunks :: "(nat \<Rightarrow> bool) \<Rightarrow> socket_addr \<Rightarrow> nat \<Rightarrow> udp_chunk list \<Rightarrow>
    (send_error option \<times> datagram list \<times> nat) exec" where
  "send_chunks ok target idx [] = Done (None, [], 0)"
| "send_chunks ok target idx (c # cs) =
     exec_bind (chunk_to_bytes c) (\<lambda>b.
       if ok idx then exec_bind (send_chunks ok target (Suc idx) cs)
           (\<lambda>(e, ds, n). Done (e, (target, b) # ds, length b + n))
       else Done (Some (ChunkSendFailed idx), [], 0))"

definition send_message ::
    "(bytes \<Rightarrow> u32) \<Rightarrow> bytes \<Rightarrow> (nat \<Rightarrow> bool) \<Rightarrow> socket_addr \<Rightarrow> rpc_message \<Rightarrow> metrics \<Rightarrow>
     (send_error option \<times> datagram list \<times> metrics) exec" where
  "send_message crc mid ok target0 m mt =
     (let target = redirect_unspecified target0 in
      exec_bind (rpc_encode m) (\<lambda>r. case r of
        Inl e \<Rightarrow> Done (Some (SendEncode e), [], mt)
      | Inr bs \<Rightarrow>
          (let ty = (case to_c_message m of Inr c \<Rightarrow> cm_msg_type c | Inl _ \<Rightarrow> 0);
               mt = inc_rpc_sent ty mt in
           if length bs > CHUNK_THRESHOLD then
             exec_bind (send_chunks ok target 0 (split_data crc mid bs)) (\<lambda>(e, ds, n).
               Done (e, ds, if e = None then inc_bytes_sent n mt else mt))
           else (let mt = inc_bytes_sent (length bs) mt in
             if ok 0 then Done (None, [(target, bs)], mt) else Done (Some DirectSendFailed, [], mt)))))"

lemma send_chunks_binary:
  assumes "\<forall>c \<in> set cs. binary_chunk c"
  shows "\<exists>e ds n. send_chunks ok target idx cs = Done (e, ds, n) \<and>
    (\<exists>k \<le> length cs. ds = map (\<lambda>c. (target, chunk_wire c)) (take k cs) \<and> (e = None \<longrightarrow> k = length cs)) \<and>
    n \<le> sum_list (map (\<lambda>c. length (chunk_wire c)) cs) \<and>
    ((\<forall>i. ok i) \<longrightarrow> e = None)"
  using assms
proof (induction cs arbitrary: idx)
  case (Cons c cs)
  obtain e ds n k where r: "send_chunks ok target (Suc idx) cs = Done (e, ds, n)"
    "k \<le> length cs" "ds = map (\<lambda>c. (target, chunk_wire c)) (take k cs)" "e = None \<longrightarrow> k = length cs"
    "n \<le> sum_list (map (\<lambda>c. length (chunk_wire c)) cs)" "(\<forall>i. ok i) \<longrightarrow> e = None"
    using Cons by fastforce
  have b: "chunk_to_bytes c = Done (chunk_wire c)" using Cons.prems by (simp add: chunk_to_bytes_binary)
  show ?case
  proof (cases "ok idx")
    case True
    then show ?thesis using r b by (auto intro!: exI [of _ "Suc k"])
  next
    case False
    then have "\<not> (\<forall>i. ok i)" by blast
    then show ?thesis using False b by (auto intro!: exI [of _ 0])
  qed
qed simp

text \<open>Every datagram of a send fits into the UDP limit, whatever fails.\<close>

lemma send_message_datagrams:
  assumes "length mid = 16" "send_message crc mid ok target m mt = Done (e, ds, mt')"
  shows "\<forall>d \<in> set ds. fst d = redirect_unspecified target \<and> length (snd d) \<le> CHUNK_THRESHOLD"
proof -
  have fit: "\<forall>c \<in> set (split_data crc mid bs). binary_chunk c \<and> length (chunk_wire c) \<le> 528" for bs
    using split_data_binary [OF assms(1)] by (fastforce simp: length_chunk_wire)
  obtain r where r: "rpc_encode m = Done r"
    using assms(2) by (cases "rpc_encode m") (auto simp: send_message_def Let_def)
  show ?thesis
  proof (cases r)
    case (Inl x)
    then show ?thesis using assms(2) r by (simp add: send_message_def Let_def)
  next
    case (Inr bs)
    show ?thesis
    proof (cases "length bs > CHUNK_THRESHOLD")
      case True
      obtain e2 ds2 n k where s: "send_chunks ok (redirect_unspecified target) 0 (split_data crc mid bs) = Done (e2, ds2, n)"
        "ds2 = map (\<lambda>c. (redirect_unspecified target, chunk_wire c)) (take k (split_data crc mid bs))"
        using send_chunks_binary [of "split_data crc mid bs" ok "redirect_unspecified target" 0] fit by auto
      then have "ds = ds2" using assms(2) r Inr True by (simp add: send_message_def Let_def)
      then show ?thesis using s(2) fit [of bs] by (fastforce dest: in_set_takeD)
    next
      case False
      then show ?thesis using assms(2) r Inr
        by (auto simp: send_message_def Let_def split: if_splits)
    qed
  qed
qed

section \<open>Calls\<close>

datatype wait_outcome = Replied rpc_message | ChannelCanceled | WaitTimeout

datatype call_error = CallSendFailed send_error | CallCanceled | CallTimedOut | CallFailed

type_synonym pending_map = "u64 \<Rightarrow> socket_addr option"

record call_state =
  cs_pending :: pending_map
  cs_metrics :: metrics
  cs_sent :: nat

text \<open>One call: \<open>send k\<close> is the outcome of the \<open>k\<close>-th send, \<open>wait k\<close> how its wait ends. A reply is
  handed over by the receive loop, which has taken the pending entry out of the map.\<close>

fun call_attempts ::
    "(nat \<Rightarrow> send_error option) \<Rightarrow> (nat \<Rightarrow> wait_outcome) \<Rightarrow> u64 \<Rightarrow> socket_addr \<Rightarrow> nat \<Rightarrow> nat list \<Rightarrow>
     call_state \<Rightarrow> (call_error + rpc_message) \<times> call_state" where
  "call_attempts send wait req target max_retries [] s =
     (Inl CallFailed, s\<lparr>cs_metrics := inc_rpc_failed (cs_metrics s)\<rparr>)"
| "call_attempts send wait req target max_retries (k # ks) s =
     (let s1 = s\<lparr>cs_pending := (cs_pending s)(req \<mapsto> target), cs_sent := Suc (cs_sent s)\<rparr>;
          s2 = s1\<lparr>cs_pending := (cs_pending s1)(req := None)\<rparr>;
          failed = s2\<lparr>cs_metrics := inc_rpc_failed (cs_metrics s2)\<rparr> in
      case send k of
        Some e \<Rightarrow> (Inl (CallSendFailed e), failed)
      | None \<Rightarrow> (case wait k of
            Replied m \<Rightarrow> (Inr m, s2)
          | ChannelCanceled \<Rightarrow> (Inl CallCanceled, failed)
          | WaitTimeout \<Rightarrow> if k = max_retries then (Inl CallTimedOut, failed)
              else call_attempts send wait req target max_retries ks s2))"

definition rpc_call ::
    "(nat \<Rightarrow> send_error option) \<Rightarrow> (nat \<Rightarrow> wait_outcome) \<Rightarrow> u64 \<Rightarrow> socket_addr \<Rightarrow> nat \<Rightarrow>
     call_state \<Rightarrow> (call_error + rpc_message) \<times> call_state" where
  "rpc_call send wait req target max_retries s =
     call_attempts send wait req (redirect_unspecified target) max_retries [0..<Suc max_retries] s"

lemma call_attempts_facts:
  assumes "call_attempts send wait req target r ks s = (res, s')" "ks \<noteq> []"
  shows "cs_pending s' = (cs_pending s)(req := None) \<and> cs_sent s < cs_sent s' \<and> cs_sent s' \<le> cs_sent s + length ks \<and>
    cs_metrics s' = (case res of Inl _ \<Rightarrow> inc_rpc_failed (cs_metrics s) | Inr _ \<Rightarrow> cs_metrics s) \<and>
    (\<forall>m. res = Inr m \<longrightarrow> (\<exists>k \<in> set ks. send k = None \<and> wait k = Replied m))"
  using assms
proof (induction ks arbitrary: s)
  case (Cons k ks)
  show ?case
  proof (cases "send k = None \<and> wait k = WaitTimeout \<and> k \<noteq> r")
    case False
    then show ?thesis using Cons.prems by (auto simp: Let_def split: option.splits wait_outcome.splits if_splits)
  next
    case True
    let ?s2 = "s\<lparr>cs_sent := Suc (cs_sent s), cs_pending := (cs_pending s)(req := None)\<rparr>"
    have run: "call_attempts send wait req target r ks ?s2 = (res, s')"
      using Cons.prems(1) True by (simp add: Let_def)
    show ?thesis
    proof (cases "ks = []")
      case True
      then show ?thesis using run by auto
    next
      case False
      show ?thesis using Cons.IH [OF run False] by (cases res) auto
    qed
  qed
qed simp

text \<open>All attempts time out: the call ends with a timeout after the last one.\<close>

lemma call_attempts_timeout:
  assumes "\<forall>k \<in> {j..r}. send k = None \<and> wait k = WaitTimeout" "j \<le> r"
  shows "fst (call_attempts send wait req target r [j..<Suc r] s) = Inl CallTimedOut \<and>
    cs_sent (snd (call_attempts send wait req target r [j..<Suc r] s)) = cs_sent s + (Suc r - j)"
  using assms
proof (induction "r - j" arbitrary: j s)
  case 0
  then have "j = r" by simp
  then show ?case using 0 by (simp add: Let_def)
next
  case (Suc n)
  then have j: "j < r" "n = r - Suc j" by simp_all
  have u: "[j..<Suc r] = j # [Suc j..<Suc r]" using j by (simp add: upt_rec)
  show ?case unfolding u using Suc(1) [OF j(2), of "s\<lparr>cs_sent := Suc (cs_sent s), cs_pending := (cs_pending s)(req := None)\<rparr>"]
      Suc.prems j(1) by (simp add: Let_def del: upt_Suc)
qed

section \<open>The receive loop\<close>

text \<open>What a turn of the loop causes outside of its own state.\<close>

datatype rx_event =
    VoiceDatagram bytes socket_addr
  | ResponseDelivered u64 rpc_message
  | CallDropped u64
  | RequestDispatched rpc_message socket_addr
  | RequestRefused rpc_message socket_addr
  | PingOldest contact contact

record net_state =
  ns_assembler :: chunk_assembler
  ns_pending :: pending_map
  ns_table :: routing_table
  ns_metrics :: metrics
  ns_slots :: nat

abbreviation REQUEST_SLOTS :: nat where "REQUEST_SLOTS \<equiv> 256"

text \<open>\<open>b"NXCA"\<close>\<close>

definition VOICE_MAGIC :: bytes where
  "VOICE_MAGIC = [78, 88, 67, 65]"

text \<open>The chunk-aware decoding: the message of a datagram, if it completes one.\<close>

definition rx_decode :: "(bytes \<Rightarrow> u32) \<Rightarrow> instant \<Rightarrow> bytes \<Rightarrow> socket_addr \<Rightarrow> chunk_assembler \<Rightarrow>
    (rpc_message option \<times> chunk_assembler) exec" where
  "rx_decode crc now buf src a =
     (if length buf \<ge> 4 \<and> take 4 buf = BINARY_MAGIC then
        (case chunk_from_bytes buf of
           Inl _ \<Rightarrow> Done (None, a)
         | Inr c \<Rightarrow> exec_bind (add_chunk crc now src c a) (\<lambda>(r, a). case r of
             None \<Rightarrow> Done (None, a)
           | Some bs \<Rightarrow> exec_bind (rpc_decode now bs) (\<lambda>m. Done (case m of Inl _ \<Rightarrow> None | Inr m \<Rightarrow> Some m, a))))
      else exec_bind (rpc_decode now buf) (\<lambda>m. Done (case m of Inl _ \<Rightarrow> None | Inr m \<Rightarrow> Some m, a)))"

text \<open>The part of a turn after a message is decoded.\<close>

definition rx_message :: "instant \<Rightarrow> rpc_message \<Rightarrow> socket_addr \<Rightarrow> net_state \<Rightarrow> rx_event list \<times> net_state" where
  "rx_message now m src s =
     (let s = (case to_c_message m of
            Inr c \<Rightarrow> s\<lparr>ns_metrics := inc_rpc_received (cm_msg_type c) (ns_metrics s)\<rparr>
          | Inl _ \<Rightarrow> s);
          contact = contact_new now (rm_sender_id m) src;
          (res, rt) = rt_update contact (ns_table s);
          s = s\<lparr>ns_table := rt\<rparr>;
          (ev1, s) = (case res of
              Full oldest \<Rightarrow> if ns_slots s > 0 then ([PingOldest oldest contact], s\<lparr>ns_slots := ns_slots s - 1\<rparr>)
                else ([], s)
            | _ \<Rightarrow> ([], s)) in
      if is_response (rm_payload m) then
        (case ns_pending s (rm_request_id m) of
           None \<Rightarrow> (ev1, s)
         | Some expected \<Rightarrow>
             (let s = s\<lparr>ns_pending := (ns_pending s)(rm_request_id m := None)\<rparr> in
              if expected = src then (ev1 @ [ResponseDelivered (rm_request_id m) m], s)
              else (ev1 @ [CallDropped (rm_request_id m)], s)))
      else if ns_slots s > 0 then (ev1 @ [RequestDispatched m src], s\<lparr>ns_slots := ns_slots s - 1\<rparr>)
      else (ev1 @ [RequestRefused m src], s))"

definition rx_turn :: "(bytes \<Rightarrow> u32) \<Rightarrow> instant \<Rightarrow> bytes \<Rightarrow> socket_addr \<Rightarrow> net_state \<Rightarrow>
    (rx_event list \<times> net_state) exec" where
  "rx_turn crc now buf src s0 =
     (let s = s0\<lparr>ns_metrics := inc_bytes_received (length buf) (ns_metrics s0)\<rparr> in
      if length buf \<ge> 4 \<and> take 4 buf = VOICE_MAGIC then Done ([VoiceDatagram buf src], s)
      else exec_bind (rx_decode crc now buf src (ns_assembler s)) (\<lambda>(r, a).
        let s = s\<lparr>ns_assembler := a\<rparr> in
        Done (case r of None \<Rightarrow> ([], s) | Some m \<Rightarrow> rx_message now m src s)))"

text \<open>The end of the task that pinged the oldest contact: it gives its slot back and replaces the
  head of the bucket when the ping failed.\<close>

definition ping_finished :: "bool \<Rightarrow> contact \<Rightarrow> net_state \<Rightarrow> net_state" where
  "ping_finished ok contact s = s\<lparr>ns_slots := ns_slots s + 1,
     ns_table := (if ok then ns_table s else rt_replace_oldest contact (ns_table s))\<rparr>"

definition request_finished :: "net_state \<Rightarrow> net_state" where
  "request_finished s = s\<lparr>ns_slots := ns_slots s + 1\<rparr>"

section \<open>Facts about a turn\<close>

lemma rx_decode_total: "\<exists>r a'. rx_decode crc now buf src a = Done (r, a')"
proof (cases "length buf \<ge> 4 \<and> take 4 buf = BINARY_MAGIC")
  case False
  then show ?thesis using rpc_decode_no_panic [of now buf]
    by (cases "rpc_decode now buf") (auto simp: rx_decode_def)
next
  case True
  show ?thesis
  proof (cases "chunk_from_bytes buf")
    case (Inr c)
    then obtain raw where "uc_raw c = Some raw" using chunk_from_bytes_binary [OF Inr] by (auto simp: binary_chunk_def)
    then obtain r a' where "add_chunk crc now src c a = Done (r, a')" using add_chunk_binary by (metis surj_pair)
    moreover have "rpc_decode now bs \<noteq> Panic" for bs by (rule rpc_decode_no_panic)
    ultimately show ?thesis using True Inr
      by (cases r) (auto simp: rx_decode_def exec_bind_def split: exec.splits)
  qed (use True in \<open>simp add: rx_decode_def\<close>)
qed

lemma rx_decode_received_ok:
  assumes "rx_decode crc now buf src a = Done (Some m, a')"
  shows "received_ok m"
  using assms rpc_decode_sound
  by (auto simp: rx_decode_def exec_bind_def split: if_splits sum.splits exec.splits option.splits prod.splits)

lemma rx_decode_inv: "rx_decode crc now buf src a = Done (r, a') \<Longrightarrow> asm_inv a \<Longrightarrow> asm_inv a'"
  using add_chunk_inv
  by (auto simp: rx_decode_def exec_bind_def split: if_splits sum.splits exec.splits option.splits)

lemma rx_turn_total: "\<exists>evs s'. rx_turn crc now buf src s = Done (evs, s')"
proof -
  let ?s = "s\<lparr>ns_metrics := inc_bytes_received (length buf) (ns_metrics s)\<rparr>"
  obtain r a where "rx_decode crc now buf src (ns_assembler ?s) = Done (r, a)"
    using rx_decode_total by blast
  then show ?thesis by (auto simp: rx_turn_def Let_def split: option.splits)
qed

definition net_inv :: "net_state \<Rightarrow> bool" where
  "net_inv s \<longleftrightarrow> asm_inv (ns_assembler s) \<and> rt_inv (ns_table s) \<and> ns_slots s \<le> REQUEST_SLOTS"

lemma rx_message_facts:
  assumes "rx_message now m src s = (evs, s')"
  shows "ns_assembler s' = ns_assembler s \<and>
    ns_table s' = snd (rt_update (contact_new now (rm_sender_id m) src) (ns_table s)) \<and>
    ns_slots s' \<le> ns_slots s \<and>
    ns_pending s' = (if is_response (rm_payload m) then (ns_pending s)(rm_request_id m := None) else ns_pending s) \<and>
    (\<forall>i p. ResponseDelivered i p \<in> set evs \<longleftrightarrow> is_response (rm_payload m) \<and> i = rm_request_id m \<and> p = m \<and>
       ns_pending s i = Some src) \<and>
    (\<forall>i. CallDropped i \<in> set evs \<longleftrightarrow> is_response (rm_payload m) \<and> i = rm_request_id m \<and>
       (\<exists>a. ns_pending s i = Some a \<and> a \<noteq> src)) \<and>
    (\<forall>p a. RequestDispatched p a \<in> set evs \<longrightarrow> \<not> is_response (rm_payload m) \<and> p = m \<and> a = src)"
proof -
  obtain res rt where rt: "rt_update (contact_new now (rm_sender_id m) src) (ns_table s) = (res, rt)" by force
  define s1 where "s1 = (case to_c_message m of
      Inr c \<Rightarrow> s\<lparr>ns_metrics := inc_rpc_received (cm_msg_type c) (ns_metrics s)\<rparr> | Inl _ \<Rightarrow> s)"
  have s1: "ns_table s1 = ns_table s" "ns_pending s1 = ns_pending s" "ns_slots s1 = ns_slots s" "ns_assembler s1 = ns_assembler s"
    by (simp_all add: s1_def split: sum.split)
  define s2 where "s2 = s1\<lparr>ns_table := rt\<rparr>"
  obtain ev1 s3 where s3: "(case res of
              Full oldest \<Rightarrow> if ns_slots s2 > 0 then ([PingOldest oldest (contact_new now (rm_sender_id m) src)],
                  s2\<lparr>ns_slots := ns_slots s2 - 1\<rparr>) else ([], s2)
            | _ \<Rightarrow> ([], s2)) = (ev1, s3)" by force
  then have f3: "ns_table s3 = rt" "ns_pending s3 = ns_pending s" "ns_slots s3 \<le> ns_slots s" "ns_assembler s3 = ns_assembler s"
      "\<forall>e \<in> set ev1. \<exists>a b. e = PingOldest a b"
    using s1 by (auto simp: s2_def split: update_result.splits if_splits)
  then have e1: "\<forall>i p. ResponseDelivered i p \<notin> set ev1" "\<forall>i. CallDropped i \<notin> set ev1" "\<forall>p a. RequestDispatched p a \<notin> set ev1"
    by blast+
  have run: "rx_message now m src s = (if is_response (rm_payload m) then
        (case ns_pending s3 (rm_request_id m) of
           None \<Rightarrow> (ev1, s3)
         | Some expected \<Rightarrow>
             (let s = s3\<lparr>ns_pending := (ns_pending s3)(rm_request_id m := None)\<rparr> in
              if expected = src then (ev1 @ [ResponseDelivered (rm_request_id m) m], s)
              else (ev1 @ [CallDropped (rm_request_id m)], s)))
      else if ns_slots s3 > 0 then (ev1 @ [RequestDispatched m src], s3\<lparr>ns_slots := ns_slots s3 - 1\<rparr>)
      else (ev1 @ [RequestRefused m src], s3))"
    unfolding rx_message_def Let_def s1_def [symmetric] s1(1) rt prod.case s2_def [symmetric] s3 ..
  show ?thesis
  proof (cases "is_response (rm_payload m)")
    case True
    show ?thesis
    proof (cases "ns_pending s (rm_request_id m)")
      case None
      then have "(evs, s') = (ev1, s3)" using assms run True f3(2) by simp
      then show ?thesis using True None f3 e1 rt by auto
    next
      case (Some a)
      then show ?thesis using assms run True f3 e1 rt by (auto simp: Let_def split: if_splits)
    qed
  next
    case False
    then show ?thesis using assms run f3 e1 rt by (auto split: if_splits)
  qed
qed

text \<open>What a message starts: a request goes to the handler or is refused, and a full bucket has its oldest contact pinged.
  Both take a slot from the semaphore, the ping first.\<close>

definition for_handler :: "rx_event \<Rightarrow> bool" where
  "for_handler e \<longleftrightarrow> (case e of RequestDispatched _ _ \<Rightarrow> True | RequestRefused _ _ \<Rightarrow> True | _ \<Rightarrow> False)"

definition starts_task :: "rx_event \<Rightarrow> bool" where
  "starts_task e \<longleftrightarrow> (case e of RequestDispatched _ _ \<Rightarrow> True | PingOldest _ _ \<Rightarrow> True | _ \<Rightarrow> False)"

definition is_ping :: "rx_event \<Rightarrow> bool" where
  "is_ping e \<longleftrightarrow> (case e of PingOldest _ _ \<Rightarrow> True | _ \<Rightarrow> False)"

lemma rx_message_requests:
  assumes "rx_message now m src s = (evs, s')"
  shows "filter is_ping evs = (case fst (rt_update (contact_new now (rm_sender_id m) src) (ns_table s)) of
      Full oldest \<Rightarrow> if 0 < ns_slots s then [PingOldest oldest (contact_new now (rm_sender_id m) src)] else [] | _ \<Rightarrow> [])"
    "filter for_handler evs = (if is_response (rm_payload m) then []
      else if length (filter is_ping evs) < ns_slots s then [RequestDispatched m src] else [RequestRefused m src])"
    "ns_slots s' + length (filter starts_task evs) = ns_slots s"
proof -
  obtain res rt where rt: "rt_update (contact_new now (rm_sender_id m) src) (ns_table s) = (res, rt)" by force
  have s1: "ns_slots (case to_c_message m of
      Inl x \<Rightarrow> s | Inr c \<Rightarrow> s\<lparr>ns_metrics := inc_rpc_received (cm_msg_type c) (ns_metrics s)\<rparr>) = ns_slots s"
    "ns_table (case to_c_message m of
      Inl x \<Rightarrow> s | Inr c \<Rightarrow> s\<lparr>ns_metrics := inc_rpc_received (cm_msg_type c) (ns_metrics s)\<rparr>) = ns_table s"
    by (simp_all split: sum.split)
  note d = rx_message_def Let_def for_handler_def starts_task_def is_ping_def
  show "filter is_ping evs = (case fst (rt_update (contact_new now (rm_sender_id m) src) (ns_table s)) of
      Full oldest \<Rightarrow> if 0 < ns_slots s then [PingOldest oldest (contact_new now (rm_sender_id m) src)] else [] | _ \<Rightarrow> [])"
    using assms rt s1 by (cases res) (auto simp: d split: if_splits option.splits)
  show "filter for_handler evs = (if is_response (rm_payload m) then []
      else if length (filter is_ping evs) < ns_slots s then [RequestDispatched m src] else [RequestRefused m src])"
    using assms rt s1 by (cases res) (auto simp: d split: if_splits option.splits)
  show "ns_slots s' + length (filter starts_task evs) = ns_slots s"
    using assms rt s1 by (cases res) (auto simp: d split: if_splits option.splits)
qed

lemma rx_turn_inv:
  assumes "net_inv s" "rx_turn crc now buf src s = Done (evs, s')"
  shows "net_inv s'"
proof -
  let ?s = "s\<lparr>ns_metrics := inc_bytes_received (length buf) (ns_metrics s)\<rparr>"
  show ?thesis
  proof (cases "length buf \<ge> 4 \<and> take 4 buf = VOICE_MAGIC")
    case True
    then show ?thesis using assms by (auto simp: rx_turn_def net_inv_def)
  next
    case False
    obtain r a where d: "rx_decode crc now buf src (ns_assembler s) = Done (r, a)" using rx_decode_total by blast
    then have a: "asm_inv a" using rx_decode_inv assms(1) by (auto simp: net_inv_def)
    have run: "(case r of None \<Rightarrow> ([], ?s\<lparr>ns_assembler := a\<rparr>) | Some m \<Rightarrow> rx_message now m src (?s\<lparr>ns_assembler := a\<rparr>)) = (evs, s')"
      using assms(2) False d by (auto simp: rx_turn_def Let_def)
    show ?thesis
    proof (cases r)
      case None
      then show ?thesis using run a assms(1) by (auto simp: net_inv_def)
    next
      case (Some m)
      note f = rx_message_facts [of now m src "?s\<lparr>ns_assembler := a\<rparr>" evs s']
      show ?thesis using f run Some a assms(1) by (simp add: net_inv_def rt_update_inv)
    qed
  qed
qed

section \<open>A message sent is the message received\<close>

text \<open>The datagrams of one sender at the receiver, in the order they arrive.\<close>

fun rx_run :: "(bytes \<Rightarrow> u32) \<Rightarrow> socket_addr \<Rightarrow> (instant \<times> bytes) list \<Rightarrow> chunk_assembler \<Rightarrow>
    (rpc_message option list \<times> chunk_assembler) exec" where
  "rx_run crc src [] a = Done ([], a)"
| "rx_run crc src ((now, buf) # evs) a =
     exec_bind (rx_decode crc now buf src a) (\<lambda>(r, a).
     exec_bind (rx_run crc src evs a) (\<lambda>(rs, a). Done (r # rs, a)))"

definition part_index :: "udp_chunk \<Rightarrow> nat" where
  "part_index c = unat (uc_index c)"

lemma split_indices:
  assumes "dat \<noteq> []" "length (slices 500 dat) \<le> 256"
  shows "map part_index (split_data crc mid dat) = [0..<length (slices 500 dat)]"
  using assms
  by (intro nth_equalityI) (simp_all add: split_data_nth part_index_def mk_chunk_def unat_of_nat_u16)

lemma split_member_own:
  assumes "dat \<noteq> []" "length (slices 500 dat) \<le> 256" "c \<in> set (split_data crc mid dat)"
  shows "own_event crc (src, mid) (slices 500 dat) (part_index c) (now, src, c)"
proof -
  obtain i where i: "i < length (slices 500 dat)" "c = split_data crc mid dat ! i"
    using assms(3) split_data_nth(1) [OF assms(1)] by (metis in_set_conv_nth)
  then have "part_index c = i" using assms(1,2)
    by (simp add: split_data_nth part_index_def mk_chunk_def unat_of_nat_u16)
  then show ?thesis using split_data_own [OF assms(1) i(1)] i(2) by simp
qed

lemma all_none_replicate: "(\<forall>k < length rs. rs ! k = None) \<Longrightarrow> rs = replicate (length rs) None"
  by (intro nth_equalityI) simp_all

text \<open>The chunks of a message, each once and in any order.\<close>

lemma reassemble_permuted:
  assumes dat: "dat \<noteq> []" "2 \<le> length (slices 500 dat)" "length (slices 500 dat) \<le> 256"
    and inv: "asm_inv a"
    and evs: "mset (map snd evs) = mset (split_data crc mid dat)"
    and time: "\<forall>ev \<in> set evs. fst ev - fst (hd evs) < ca_timeout a"
    and room: "map_of (ca_pending (cleanup_expired (fst (hd evs)) a)) (src, mid) = None"
      "has_room src (cleanup_expired (fst (hd evs)) a)"
  shows "\<exists>a'. deliver crc (map (\<lambda>(t, c). (t, src, c)) evs) a
      = Done (replicate (length evs - 1) None @ [Some dat], a')"
proof -
  let ?ss = "slices 500 dat" and ?ev = "\<lambda>(t, c). (t, src, c)" and ?key = "(src, mid)"
  have idx: "mset (map part_index (map snd evs)) = mset [0..<length ?ss]"
    using arg_cong [OF evs, of "image_mset part_index"] split_indices [OF dat(1,3), of crc mid]
    by (metis mset_map)
  then have dist: "distinct (map part_index (map snd evs))" by (metis distinct_upt mset_eq_imp_distinct_iff)
  have all: "part_index ` snd ` set evs = {..<length ?ss}"
    using mset_eq_setD [OF idx] by (auto simp: image_image)
  have len: "length evs = length ?ss" using arg_cong [OF idx, of size] by simp
  obtain e0 evs1 where e0: "evs = e0 # evs1" "evs1 \<noteq> []"
    using len dat(2) by (cases evs; cases "tl evs") auto
  obtain ms l where l: "evs1 = ms @ [l]" using e0(2) by (metis append_butlast_last_id)
  obtain t0 c where c: "e0 = (t0, c)" by force
  obtain t1 d where d: "l = (t1, d)" by force
  have own: "own_event crc ?key ?ss (part_index x) (t, src, x)" if "(t, x) \<in> set evs" for t x
  proof -
    have "x \<in> set (map snd evs)" using that by force
    then show ?thesis using evs split_member_own [OF dat(1,3)] by (metis mset_eq_setD)
  qed
  have car: "carried crc ?key ?ss (map ?ev ms) = part_index ` snd ` set ms"
  proof
    show "carried crc ?key ?ss (map ?ev ms) \<subseteq> part_index ` snd ` set ms"
    proof
      fix i assume "i \<in> carried crc ?key ?ss (map ?ev ms)"
      then obtain t x where x: "(t, x) \<in> set ms" "own_event crc ?key ?ss i (t, src, x)"
        by (auto simp: carried_def)
      then have "i = part_index x" using own [of t x] own_event_index [OF x(2) _ dat(3)] e0 l by auto
      then show "i \<in> part_index ` snd ` set ms" using x(1) by force
    qed
    show "part_index ` snd ` set ms \<subseteq> carried crc ?key ?ss (map ?ev ms)"
      using own e0 l unfolding carried_def by fastforce
  qed
  have "insert (part_index d) (insert (part_index c) (part_index ` snd ` set ms)) = {..<length ?ss}"
    using all unfolding e0(1) l c d by auto
  moreover have "part_index d \<notin> insert (part_index c) (part_index ` snd ` set ms)"
    using dist unfolding e0(1) l c d by (auto simp: image_image)
  moreover have "mixed_traffic crc ?key ?ss t0 (ca_timeout a) (map ?ev ms)"
    using time own unfolding mixed_traffic_def e0(1) l c by fastforce
  moreover have "t1 - t0 < ca_timeout a" using time unfolding e0(1) l c d by simp
  moreover have "own_event crc ?key ?ss (part_index c) (t0, src, c)" "own_event crc ?key ?ss (part_index d) (t1, src, d)"
    using own e0 l c d by auto
  ultimately obtain rs a' where rs: "deliver crc ((t0, src, c) # map ?ev ms @ [(t1, src, d)]) a =
      Done (None # rs @ [Some (concat ?ss)], a')" "length rs = length (map ?ev ms)"
      "\<forall>k < length (map ?ev ms). (\<exists>i. own_event crc ?key ?ss i (map ?ev ms ! k)) \<longrightarrow> rs ! k = None"
    using deliver_message [OF inv dat(2,3), of crc src mid "part_index c" t0 c "map ?ev ms" "part_index d" t1 d] room car
    unfolding e0(1) c by auto
  have "rs ! k = None" if "k < length rs" for k
  proof -
    have k: "k < length ms" using that rs(2) by simp
    obtain t x where x: "ms ! k = (t, x)" by force
    then have "(t, x) \<in> set evs" using k e0 l by (metis Un_iff list.set_intros(2) nth_mem set_append)
    then show ?thesis using own [of t x] rs(3) k x by auto
  qed
  then have "rs = replicate (length ms) None" using all_none_replicate [of rs] rs(2) by simp
  then show ?thesis using rs(1) concat_slices [of 500 dat]
    by (simp add: e0(1) l c d flip: replicate_Suc)
qed

lemma rx_decode_chunk:
  assumes "binary_chunk c"
  shows "rx_decode crc now (chunk_wire c) src a = exec_bind (add_chunk crc now src c a) (\<lambda>(r, a). case r of
      None \<Rightarrow> Done (None, a)
    | Some bs \<Rightarrow> exec_bind (rpc_decode now bs) (\<lambda>m. Done (case m of Inl _ \<Rightarrow> None | Inr m \<Rightarrow> Some m, a)))"
  using assms chunk_roundtrip [OF assms] length_chunk_wire [OF assms]
  by (simp add: rx_decode_def chunk_wire_def)

text \<open>When the assembler gives back the bytes of a message only at the end, so does the receiver.\<close>

lemma rx_run_deliver:
  assumes "\<forall>ev \<in> set evs. binary_chunk (snd ev)" "evs \<noteq> []"
    and "deliver crc (map (\<lambda>(t, c). (t, src, c)) evs) a = Done (replicate (length evs - 1) None @ [Some bs], a')"
    and "rpc_decode (fst (last evs)) bs = Done (Ok m)"
  shows "rx_run crc src (map (\<lambda>(t, c). (t, chunk_wire c)) evs) a = Done (replicate (length evs - 1) None @ [Some m], a')"
  using assms
proof (induction evs arbitrary: a)
  case (Cons ev evs)
  obtain t c where ev: "ev = (t, c)" by force
  have b: "binary_chunk c" using Cons.prems(1) ev by simp
  obtain r a1 where add: "add_chunk crc t src c a = Done (r, a1)"
    using Cons.prems(3) ev by (cases "add_chunk crc t src c a") auto
  show ?case
  proof (cases "evs = []")
    case True
    then show ?thesis using Cons.prems ev add by (simp add: rx_decode_chunk [OF b])
  next
    case False
    then obtain n where n: "length evs = Suc n" by (cases evs) auto
    obtain rs a2 where d: "deliver crc (map (\<lambda>(t, c). (t, src, c)) evs) a1 = Done (rs, a2)"
      using Cons.prems(3) ev add by (cases "deliver crc (map (\<lambda>(t, c). (t, src, c)) evs) a1") auto
    then have "r = None" "rs = replicate (length evs - 1) None @ [Some bs]" "a2 = a'"
      using Cons.prems(3) ev add n by auto
    then have "rx_run crc src (map (\<lambda>(t, c). (t, chunk_wire c)) evs) a1 = Done (replicate (length evs - 1) None @ [Some m], a')"
      using d Cons.prems False by (intro Cons.IH) auto
    then show ?thesis using ev add \<open>r = None\<close> n by (simp add: rx_decode_chunk [OF b])
  qed
qed simp

text \<open>A direct datagram is never taken for a chunk: its first byte is a message type.\<close>

lemma wire_first_byte:
  assumes "well_tagged c" "wire_bytes c = Some w"
  shows "take 4 w \<noteq> BINARY_MAGIC \<and> take 4 w \<noteq> VOICE_MAGIC"
proof -
  have h: "hd w = cm_msg_type c" "w \<noteq> []" using assms(2) by (auto simp: wire_bytes_def wire_header_def)
  have "cm_msg_type c \<noteq> 78" using assms(1) by (cases "cm_payload c") (auto simp: well_tagged_def)
  then show ?thesis using h by (cases w) (auto simp: BINARY_MAGIC_def VOICE_MAGIC_def)
qed

lemma sent_bytes:
  assumes "rpc_ok m"
  shows "\<exists>w. rpc_encode m = Done (Ok w) \<and> w \<noteq> [] \<and> length w \<le> 65600 \<and>
    take 4 w \<noteq> BINARY_MAGIC \<and> take 4 w \<noteq> VOICE_MAGIC \<and> rpc_decode now w = Done (Ok (canon_rpc now m))"
proof -
  have m: "msg_wf m" "value_fits (rm_payload m)" "contacts_sendable (payload_contacts (rm_payload m))"
    using assms by (simp_all add: rpc_ok_def)
  obtain c w where c: "well_tagged c" "wire_bytes c = Some w" "length w \<le> estimated_size (rm_payload m)"
    "rpc_encode m = Done (Ok w)"
    using rpc_encode_bytes [OF m(1,2)] by blast
  have "rpc_decode now w = Done (Ok (canon_rpc now m))" using rpc_decode_encode [OF m c(4), of now "[]"] by simp
  moreover have "w \<noteq> []" using c(2) by (auto simp: wire_bytes_def wire_header_def)
  ultimately show ?thesis using c wire_first_byte [OF c(1,2)] estimated_size_bound [OF m(2)] by auto
qed

lemma send_chunks_all:
  "\<forall>c \<in> set cs. binary_chunk c \<Longrightarrow> send_chunks ok target idx cs = Done (None, ds, n) \<Longrightarrow>
   ds = map (\<lambda>c. (target, chunk_wire c)) cs"
  using send_chunks_binary [of cs ok target idx] by auto

lemma send_message_cases:
  assumes "rpc_ok m" "length mid = 16" "send_message crc mid ok target m mt = Done (None, ds, mt')"
    and "rpc_encode m = Done (Ok w)"
  shows "map snd ds = (if length w > CHUNK_THRESHOLD then map chunk_wire (split_data crc mid w) else [w])"
proof (cases "length w > CHUNK_THRESHOLD")
  case True
  have b: "\<forall>c \<in> set (split_data crc mid w). binary_chunk c" using split_data_binary [OF assms(2)] by blast
  then show ?thesis using assms(3,4) True send_chunks_binary [OF b, of ok "redirect_unspecified target" 0]
    by (auto simp: send_message_def Let_def comp_def)
next
  case False
  then show ?thesis using assms(3,4) by (auto simp: send_message_def Let_def split: if_splits)
qed

lemma send_message_ok:
  assumes "rpc_ok m" "length mid = 16" "\<forall>i. ok i"
  shows "\<exists>ds mt'. send_message crc mid ok target m mt = Done (None, ds, mt')"
proof -
  obtain w where w: "rpc_encode m = Done (Ok w)" using sent_bytes [OF assms(1)] by blast
  have b: "\<forall>c \<in> set (split_data crc mid w). binary_chunk c" using split_data_binary [OF assms(2)] by blast
  then show ?thesis using w assms(3) send_chunks_binary [OF b, of ok "redirect_unspecified target" 0]
    by (auto simp: send_message_def Let_def)
qed

text \<open>A permutation of encoded chunks is the encoding of a permutation of the chunks.\<close>

lemma permuted_wire:
  fixes evs :: "(instant \<times> bytes) list"
  assumes "\<forall>c \<in> set cs. binary_chunk c" "mset (map snd evs) = mset (map chunk_wire cs)"
  shows "\<exists>cevs. evs = map (\<lambda>(t, c). (t, chunk_wire c)) cevs \<and> mset (map snd cevs) = mset cs \<and>
    map fst cevs = map fst evs"
proof -
  define dec where "dec = (\<lambda>b. case chunk_from_bytes b of Inr c \<Rightarrow> c | Inl _ \<Rightarrow> undefined)"
  have dec: "dec (chunk_wire c) = c" if "c \<in> set cs" for c
    using chunk_roundtrip assms(1) that by (simp add: dec_def)
  let ?cevs = "map (\<lambda>(t, b). (t, dec b)) evs"
  have wire: "chunk_wire (dec b) = b" if "b \<in> set (map snd evs)" for b
    using mset_eq_setD [OF assms(2)] that dec by auto
  have "evs = map (\<lambda>(t, c). (t, chunk_wire c)) ?cevs"
    using wire by (intro nth_equalityI) (auto simp: case_prod_beta)
  moreover have "mset (map snd ?cevs) = image_mset dec (mset (map snd evs))"
    by (simp add: case_prod_beta comp_def image_mset.compositionality)
  then have "mset (map snd ?cevs) = image_mset (\<lambda>c. dec (chunk_wire c)) (mset cs)"
    unfolding assms(2) by (simp add: image_mset.compositionality comp_def)
  moreover have "image_mset (\<lambda>c. dec (chunk_wire c)) (mset cs) = image_mset (\<lambda>c. c) (mset cs)"
    by (rule image_mset_cong) (simp add: dec)
  ultimately have "mset (map snd ?cevs) = mset cs" by simp
  moreover have "evs = map (\<lambda>(t, c). (t, chunk_wire c)) ?cevs" by fact
  moreover have "map fst ?cevs = map fst evs" by (simp add: case_prod_beta)
  ultimately show ?thesis by blast
qed

lemma receive_sent:
  assumes m: "rpc_ok m" and mid: "length mid = 16"
    and sent: "send_message crc mid ok target m mt = Done (None, ds, mt')"
    and evs: "mset (map snd evs) = mset (map snd ds)"
    and inv: "asm_inv a" and time: "\<forall>ev \<in> set evs. fst ev - fst (hd evs) < ca_timeout a"
    and room: "map_of (ca_pending (cleanup_expired (fst (hd evs)) a)) (src, mid) = None"
      "has_room src (cleanup_expired (fst (hd evs)) a)"
  shows "\<exists>a'. rx_run crc src evs a =
    Done (replicate (length evs - 1) None @ [Some (canon_rpc (fst (last evs)) m)], a')"
proof -
  obtain w where w: "rpc_encode m = Done (Ok w)" "w \<noteq> []" "length w \<le> 65600" "take 4 w \<noteq> BINARY_MAGIC"
    "rpc_decode (fst (last evs)) w = Done (Ok (canon_rpc (fst (last evs)) m))"
    using sent_bytes [OF m, of "fst (last evs)"] by blast
  note ds = send_message_cases [OF m mid sent w(1)]
  show ?thesis
  proof (cases "length w > CHUNK_THRESHOLD")
    case False
    then have "mset (map snd evs) = {#w#}" using evs ds by simp
    then obtain t where "evs = [(t, w)]"
      by (cases evs) auto
    then show ?thesis using w by (simp add: rx_decode_def)
  next
    case True
    have b: "\<forall>c \<in> set (split_data crc mid w). binary_chunk c" using split_data_binary [OF mid] by blast
    obtain cevs where c: "evs = map (\<lambda>(t, c). (t, chunk_wire c)) cevs"
      "mset (map snd cevs) = mset (split_data crc mid w)" "map fst cevs = map fst evs"
      using permuted_wire [OF b, of evs] evs ds True by auto
    have n: "2 \<le> length (slices 500 w)" "length (slices 500 w) \<le> 256"
      using True w(3) by (simp_all add: length_slices)
    have "length cevs = length (slices 500 w)"
      using arg_cong [OF c(2), of size] split_data_nth(1) [OF w(2)] by simp
    then have ne: "cevs \<noteq> []" using n by auto
    have h: "fst (hd cevs) = fst (hd evs)" "fst (last cevs) = fst (last evs)"
      using ne c(1) by (simp_all add: hd_map last_map case_prod_beta)
    have tm: "\<forall>ev \<in> set cevs. fst ev - fst (hd cevs) < ca_timeout a"
      using time c(1) h(1) by (auto simp: case_prod_beta)
    obtain a' where "deliver crc (map (\<lambda>(t, c). (t, src, c)) cevs) a = Done (replicate (length cevs - 1) None @ [Some w], a')"
      using reassemble_permuted [OF w(2) n inv c(2) tm] room h(1) by auto
    moreover have "\<forall>ev \<in> set cevs. binary_chunk (snd ev)"
      using b mset_eq_setD [OF c(2)] by auto
    ultimately have "rx_run crc src evs a = Done (replicate (length cevs - 1) None @ [Some (canon_rpc (fst (last evs)) m)], a')"
      using rx_run_deliver [of cevs crc src a w a'] ne w(5) h(2) c(1) by auto
    then show ?thesis using c(1) by auto
  qed
qed

end
