(* ===== verification/Lookup.thy ===== *)
theory Lookup
  imports Rpc_Codec
begin

text \<open>
  The iterative Kademlia lookup, from \<open>nodex-kademlia/src/lookup.rs\<close>: \<open>lookup_nodes\<close> and
  \<open>lookup_value\<close>. The replies of the network are a parameter: \<open>env hop batch\<close> is the list
  of the calls of a hop in the order in which they complete, each with its contact and
  an error or a reply; a task that was aborted has no entry. The loop has fuel, and a
  lemma gives an amount that is enough: one more than the number of identifiers that
  can occur. The lemmas show what is returned, that no unqueried contact is among the
  closest at the end, and where a found value comes from.
\<close>

section \<open>Candidates\<close>

abbreviation ALPHA :: nat where "ALPHA \<equiv> 3"

datatype cand_state = Unqueried | InFlight | Queried | CandFailed

record candidate =
  cd_contact :: contact
  cd_distance :: node_id
  cd_state :: cand_state

abbreviation cd_id :: "candidate \<Rightarrow> node_id" where "cd_id c \<equiv> ct_id (cd_contact c)"

record lookup_net =
  ln_local_id :: node_id
  ln_local_addr :: socket_addr

definition mk_candidate :: "node_id \<Rightarrow> contact \<Rightarrow> candidate" where
  "mk_candidate target c = \<lparr>cd_contact = c, cd_distance = distance (ct_id c) target, cd_state = Unqueried\<rparr>"

definition initial_shortlist :: "lookup_net \<Rightarrow> node_id \<Rightarrow> routing_table \<Rightarrow> candidate list" where
  "initial_shortlist net target rt = sort_key cd_distance (map (mk_candidate target)
     (filter (\<lambda>c. ct_id c \<noteq> ln_local_id net \<and> ct_addr c \<noteq> ln_local_addr net) (find_closest target K rt)))"

text \<open>Mark up to \<open>n\<close> unqueried candidates, closest first; the result has their contacts.\<close>

fun select_unqueried :: "nat \<Rightarrow> candidate list \<Rightarrow> contact list \<times> candidate list" where
  "select_unqueried n [] = ([], [])"
| "select_unqueried 0 (c # cs) = ([], c # cs)"
| "select_unqueried (Suc n) (c # cs) =
     (if cd_state c = Unqueried
      then (let r = select_unqueried n cs in (cd_contact c # fst r, c\<lparr>cd_state := InFlight\<rparr> # snd r))
      else (let r = select_unqueried (Suc n) cs in (fst r, c # snd r)))"

text \<open>\<open>iter_mut().find(id)\<close> and the assignment of its state\<close>

fun set_cand_state :: "node_id \<Rightarrow> cand_state \<Rightarrow> candidate list \<Rightarrow> candidate list" where
  "set_cand_state i s [] = []"
| "set_cand_state i s (c # cs) = (if cd_id c = i then c\<lparr>cd_state := s\<rparr> # cs else c # set_cand_state i s cs)"

type_synonym call_result = "contact \<times> (unit + rpc_payload)"

text \<open>The completions of a hop of \<open>lookup_nodes\<close>: the shortlist and the new contacts.\<close>

fun nodes_replies :: "lookup_net \<Rightarrow> call_result list \<Rightarrow> candidate list \<times> contact list \<Rightarrow>
    (bytes \<times> contact) + candidate list \<times> contact list" where
  "nodes_replies net [] st = Inr st"
| "nodes_replies net ((c, Inl _) # rs) (sl, new) =
     nodes_replies net rs (set_cand_state (ct_id c) CandFailed sl, new)"
| "nodes_replies net ((c, Inr p) # rs) (sl, new) =
     nodes_replies net rs (set_cand_state (ct_id c) Queried sl,
       new @ (case p of FindNodeResp cs \<Rightarrow>
           filter (\<lambda>nc. ct_id nc \<noteq> ln_local_id net \<and> ct_addr nc \<noteq> ln_local_addr net) cs
         | _ \<Rightarrow> []))"

text \<open>The completions of a hop of \<open>lookup_value\<close>; a value ends the lookup at once.\<close>

fun value_replies :: "lookup_net \<Rightarrow> call_result list \<Rightarrow> candidate list \<times> contact list \<Rightarrow>
    (bytes \<times> contact) + candidate list \<times> contact list" where
  "value_replies net [] st = Inr st"
| "value_replies net ((c, Inl _) # rs) (sl, new) =
     value_replies net rs (set_cand_state (ct_id c) CandFailed sl, new)"
| "value_replies net ((c, Inr p) # rs) (sl, new) =
     (case p of
        FindValueResp (Some val) _ \<Rightarrow> Inl (val, c)
      | FindValueResp None cs \<Rightarrow> value_replies net rs (set_cand_state (ct_id c) Queried sl,
           new @ filter (\<lambda>nc. ct_id nc \<noteq> ln_local_id net) cs)
      | _ \<Rightarrow> value_replies net rs (set_cand_state (ct_id c) Queried sl, new))"

text \<open>The loop over the new contacts: the routing table is updated with each, the shortlist gets
  those it does not have.\<close>

fun integrate :: "node_id \<Rightarrow> contact list \<Rightarrow> candidate list \<times> routing_table \<Rightarrow> candidate list \<times> routing_table" where
  "integrate target [] st = st"
| "integrate target (nc # ncs) (sl, rt) = integrate target ncs
     (if list_ex (\<lambda>c. cd_id c = ct_id nc) sl then sl else sl @ [mk_candidate target nc],
      snd (rt_update nc rt))"

definition top_k_done :: "candidate list \<Rightarrow> bool" where
  "top_k_done sl \<longleftrightarrow> list_all (\<lambda>c. cd_state c = Queried \<or> cd_state c = CandFailed) (take K sl) \<and>
     list_ex (\<lambda>c. cd_state c = Queried) (take K sl)"

record lookup_state =
  ls_short :: "candidate list"
  ls_table :: routing_table
  ls_hop :: nat

text \<open>One turn of the loop: \<open>Inl\<close> leaves it (with a found value, or at the end of the search),
  \<open>Inr\<close> goes on.\<close>

datatype lookup_exit = ExitFound bytes contact lookup_state | ExitDone lookup_state

definition lookup_turn ::
    "(call_result list \<Rightarrow> candidate list \<times> contact list \<Rightarrow> (bytes \<times> contact) + candidate list \<times> contact list) \<Rightarrow>
     (nat \<Rightarrow> contact list \<Rightarrow> call_result list) \<Rightarrow> node_id \<Rightarrow> lookup_state \<Rightarrow> lookup_exit + lookup_state" where
  "lookup_turn replies env target s =
     (let (to_query, sl1) = select_unqueried ALPHA (ls_short s) in
      if to_query = [] then Inl (ExitDone (s\<lparr>ls_short := sl1\<rparr>))
      else (let hop = ls_hop s + 1 in
        case replies (env hop to_query) (sl1, []) of
          Inl (val, from) \<Rightarrow> Inl (ExitFound val from (s\<lparr>ls_hop := hop\<rparr>))
        | Inr (sl2, new) \<Rightarrow>
            (let (sl3, rt) = integrate target new (sl2, ls_table s);
                 sl4 = sort_key cd_distance sl3;
                 s' = \<lparr>ls_short = sl4, ls_table = rt, ls_hop = hop\<rparr> in
             if top_k_done sl4 then Inl (ExitDone s') else Inr s')))"

fun lookup_loop ::
    "(call_result list \<Rightarrow> candidate list \<times> contact list \<Rightarrow> (bytes \<times> contact) + candidate list \<times> contact list) \<Rightarrow>
     (nat \<Rightarrow> contact list \<Rightarrow> call_result list) \<Rightarrow> node_id \<Rightarrow> nat \<Rightarrow> lookup_state \<Rightarrow> lookup_exit option" where
  "lookup_loop replies env target 0 s = None"
| "lookup_loop replies env target (Suc fuel) s = (case lookup_turn replies env target s of
      Inl e \<Rightarrow> Some e
    | Inr s' \<Rightarrow> lookup_loop replies env target fuel s')"

definition closest_responding :: "candidate list \<Rightarrow> contact list" where
  "closest_responding sl = map cd_contact (take K (filter (\<lambda>c. cd_state c \<noteq> CandFailed) sl))"

definition lookup_start :: "lookup_net \<Rightarrow> node_id \<Rightarrow> routing_table \<Rightarrow> lookup_state" where
  "lookup_start net target rt = \<lparr>ls_short = initial_shortlist net target rt, ls_table = rt, ls_hop = 0\<rparr>"

text \<open>\<open>lookup_nodes\<close> gives the contacts, the routing table and the number of hops.\<close>

definition lookup_nodes ::
    "nat \<Rightarrow> (nat \<Rightarrow> contact list \<Rightarrow> call_result list) \<Rightarrow> lookup_net \<Rightarrow> node_id \<Rightarrow> routing_table \<Rightarrow>
     (contact list \<times> routing_table \<times> nat) option" where
  "lookup_nodes fuel env net target rt =
     (case lookup_loop (nodes_replies net) env target fuel (lookup_start net target rt) of
        None \<Rightarrow> None
      | Some (ExitDone s) \<Rightarrow> Some (closest_responding (ls_short s), ls_table s, ls_hop s)
      | Some (ExitFound _ _ s) \<Rightarrow> None)"

datatype lookup_value_result = Found bytes contact | ClosestNodes "contact list"

definition lookup_value ::
    "nat \<Rightarrow> (nat \<Rightarrow> contact list \<Rightarrow> call_result list) \<Rightarrow> lookup_net \<Rightarrow> node_id \<Rightarrow> routing_table \<Rightarrow>
     (lookup_value_result \<times> routing_table) option" where
  "lookup_value fuel env net key rt =
     (case lookup_loop (value_replies net) env key fuel (lookup_start net key rt) of
        None \<Rightarrow> None
      | Some (ExitDone s) \<Rightarrow> Some (ClosestNodes (closest_responding (ls_short s)), ls_table s)
      | Some (ExitFound val from s) \<Rightarrow> Some (Found val from, ls_table s))"

section \<open>How the shortlist evolves\<close>

text \<open>Same contacts in the same places, and no candidate becomes unqueried again.\<close>

definition evolves :: "candidate list \<Rightarrow> candidate list \<Rightarrow> bool" where
  "evolves = list_all2 (\<lambda>c c'. cd_contact c' = cd_contact c \<and> cd_distance c' = cd_distance c \<and>
     (cd_state c \<noteq> Unqueried \<longrightarrow> cd_state c' \<noteq> Unqueried))"

lemma evolves_refl [simp]: "evolves sl sl"
  by (simp add: evolves_def list_all2_same)

lemma evolves_trans: "evolves a b \<Longrightarrow> evolves b c \<Longrightarrow> evolves a c"
  unfolding evolves_def by (erule (1) list_all2_trans [rotated]) auto

lemma evolves_map:
  "evolves sl sl' \<Longrightarrow> map cd_contact sl' = map cd_contact sl \<and> map cd_distance sl' = map cd_distance sl"
  unfolding evolves_def by (induction rule: list_all2_induct) auto

definition done_ids :: "candidate list \<Rightarrow> node_id set" where
  "done_ids sl = cd_id ` {c \<in> set sl. cd_state c \<noteq> Unqueried}"

lemma done_ids_simps [simp]:
  "done_ids [] = {}"
  "done_ids (c # cs) = (if cd_state c = Unqueried then done_ids cs else insert (cd_id c) (done_ids cs))"
  by (auto simp: done_ids_def)

lemma done_ids_subset: "done_ids sl \<subseteq> cd_id ` set sl"
  by (auto simp: done_ids_def)

lemma evolves_done: "evolves sl sl' \<Longrightarrow> done_ids sl \<subseteq> done_ids sl'"
  unfolding evolves_def by (induction rule: list_all2_induct) auto

lemma set_cand_state_evolves: "s \<noteq> Unqueried \<Longrightarrow> evolves sl (set_cand_state i s sl)"
  unfolding evolves_def by (induction sl) (auto simp: list_all2_same)

lemma select_evolves: "evolves sl (snd (select_unqueried n sl))"
  unfolding evolves_def
  by (induction n sl rule: select_unqueried.induct) (auto simp: Let_def list_all2_same)

lemma select_length: "length (fst (select_unqueried n sl)) \<le> n"
  by (induction n sl rule: select_unqueried.induct) (auto simp: Let_def)

lemma select_unqueried_only:
  "set (fst (select_unqueried n sl)) \<subseteq> cd_contact ` {x \<in> set sl. cd_state x = Unqueried}"
  by (induction n sl rule: select_unqueried.induct) (auto simp: Let_def)

lemma select_none:
  "fst (select_unqueried (Suc n) sl) = [] \<Longrightarrow>
   snd (select_unqueried (Suc n) sl) = sl \<and> (\<forall>c \<in> set sl. cd_state c \<noteq> Unqueried)"
  by (induction sl) (auto simp: Let_def split: if_splits)

text \<open>A selected candidate is done from then on.\<close>

lemma select_done: "ct_id ` set (fst (select_unqueried n sl)) \<subseteq> done_ids (snd (select_unqueried n sl))"
  by (induction n sl rule: select_unqueried.induct) (auto simp: Let_def)

definition sl_ok :: "(contact \<Rightarrow> bool) \<Rightarrow> node_id \<Rightarrow> candidate list \<Rightarrow> bool" where
  "sl_ok P target sl \<longleftrightarrow> distinct (map cd_id sl) \<and>
     (\<forall>c \<in> set sl. P (cd_contact c) \<and> cd_distance c = distance (cd_id c) target)"

lemma distinct_sort_map: "distinct (map f (sort_key g xs)) \<longleftrightarrow> distinct (map f xs)"
  by (rule mset_eq_imp_distinct_iff) simp

lemma sl_ok_mono: "sl_ok P target sl \<Longrightarrow> (\<And>c. P c \<Longrightarrow> Q c) \<Longrightarrow> sl_ok Q target sl"
  by (simp add: sl_ok_def)

lemma sl_ok_evolves: "sl_ok P target sl \<Longrightarrow> evolves sl sl' \<Longrightarrow> sl_ok P target sl'"
proof -
  assume ok: "sl_ok P target sl" and e: "evolves sl sl'"
  have m: "map cd_contact sl' = map cd_contact sl" "map cd_distance sl' = map cd_distance sl"
    using evolves_map [OF e] by simp_all
  have "map cd_id sl' = map cd_id sl" using arg_cong [OF m(1), of "map ct_id"] by (simp add: comp_def)
  moreover have "\<forall>c' \<in> set sl'. \<exists>c \<in> set sl. cd_contact c' = cd_contact c \<and> cd_distance c' = cd_distance c"
    using e unfolding evolves_def by (induction rule: list_all2_induct) auto
  ultimately show ?thesis using ok by (metis sl_ok_def)
qed

lemma ids_evolves: "evolves sl sl' \<Longrightarrow> cd_id ` set sl' = cd_id ` set sl"
  using evolves_map [of sl sl'] by (metis list.set_map image_image)

lemma integrate_facts:
  assumes "integrate target new (sl, rt) = (sl', rt')" "sl_ok P target sl" "\<forall>c \<in> set new. P c" "rt_inv rt"
  shows "sl_ok P target sl' \<and> rt_inv rt' \<and> set sl \<subseteq> set sl' \<and>
    cd_id ` set sl' = cd_id ` set sl \<union> ct_id ` set new"
  using assms
proof (induction target new "(sl, rt)" arbitrary: sl rt rule: integrate.induct)
  case (2 target nc ncs sl rt)
  let ?sl = "if list_ex (\<lambda>c. cd_id c = ct_id nc) sl then sl else sl @ [mk_candidate target nc]"
  have ok: "sl_ok P target ?sl"
    using 2(3,4) by (auto simp: sl_ok_def mk_candidate_def list_ex_iff)
  have "sl_ok P target sl' \<and> rt_inv rt' \<and> set ?sl \<subseteq> set sl' \<and> cd_id ` set sl' = cd_id ` set ?sl \<union> ct_id ` set ncs"
    using 2(2,4,5) ok by (intro 2(1)) (auto intro: rt_update_inv)
  moreover have "cd_id ` set ?sl = insert (ct_id nc) (cd_id ` set sl)"
    by (auto simp: mk_candidate_def list_ex_iff intro: rev_image_eqI)
  ultimately show ?case by (auto split: if_splits)
qed auto

section \<open>The loop, for any handler of the replies\<close>

locale lookup_engine =
  fixes replies :: "call_result list \<Rightarrow> candidate list \<times> contact list \<Rightarrow>
      (bytes \<times> contact) + candidate list \<times> contact list"
    and P :: "contact \<Rightarrow> bool"
  assumes replies_evolve: "replies rs (sl, new) = Inr (sl', new') \<Longrightarrow> evolves sl sl'"
    and replies_new: "replies rs (sl, new) = Inr (sl', new') \<Longrightarrow> nc \<in> set new' \<Longrightarrow>
      nc \<in> set new \<or> P nc \<and> (\<exists>c p. (c, Inr p) \<in> set rs \<and> nc \<in> set (payload_contacts p))"
begin

definition linv :: "node_id \<Rightarrow> lookup_state \<Rightarrow> bool" where
  "linv target s \<longleftrightarrow> sl_ok P target (ls_short s) \<and> sorted (map cd_distance (ls_short s)) \<and> rt_inv (ls_table s)"

definition within :: "node_id set \<Rightarrow> (nat \<Rightarrow> contact list \<Rightarrow> call_result list) \<Rightarrow> bool" where
  "within U env \<longleftrightarrow> (\<forall>h q c p. (c, Inr p) \<in> set (env h q) \<longrightarrow> ct_id ` set (payload_contacts p) \<subseteq> U)"

lemma turn_facts:
  assumes inv: "linv target s"
    and sel: "select_unqueried ALPHA (ls_short s) = (q, sl1)" "q \<noteq> []"
    and rep: "replies (env (Suc (ls_hop s)) q) (sl1, []) = Inr (sl2, new)"
    and int: "integrate target new (sl2, ls_table s) = (sl3, rt)"
  shows "sl_ok P target (sort_key cd_distance sl3) \<and> rt_inv rt \<and>
    done_ids (ls_short s) \<subset> done_ids (sort_key cd_distance sl3) \<and>
    (within U env \<longrightarrow> cd_id ` set (ls_short s) \<subseteq> U \<longrightarrow> cd_id ` set (sort_key cd_distance sl3) \<subseteq> U)"
proof -
  have e1: "evolves (ls_short s) sl1" using select_evolves [of "ls_short s" ALPHA] sel by simp
  have e2: "evolves sl1 sl2" using rep by (rule replies_evolve)
  note e = evolves_trans [OF e1 e2]
  have ok: "sl_ok P target sl2" using inv sl_ok_evolves [OF _ e] by (simp add: linv_def)
  have new: "\<forall>c \<in> set new. P c \<and> (\<exists>d p. (d, Inr p) \<in> set (env (Suc (ls_hop s)) q) \<and> c \<in> set (payload_contacts p))"
    using replies_new [OF rep] by fastforce
  have f: "sl_ok P target sl3" "rt_inv rt" "set sl2 \<subseteq> set sl3" "cd_id ` set sl3 = cd_id ` set sl2 \<union> ct_id ` set new"
    using integrate_facts [OF int ok] new inv by (auto simp: linv_def)
  have same: "done_ids (sort_key cd_distance sl3) = done_ids sl3" by (simp add: done_ids_def)
  have "done_ids sl2 \<subseteq> done_ids sl3" using f(3) by (auto simp: done_ids_def)
  then have "done_ids (ls_short s) \<subseteq> done_ids sl3" "done_ids sl1 \<subseteq> done_ids sl3"
    using evolves_done [OF e] evolves_done [OF e2] by auto
  moreover obtain c where c: "c \<in> set q" using sel(2) by (cases q) auto
  moreover have "ct_id c \<in> done_ids sl1" using select_done [of ALPHA "ls_short s"] sel(1) c by auto
  moreover have "ct_id c \<notin> done_ids (ls_short s)"
  proof -
    obtain x where x: "x \<in> set (ls_short s)" "cd_contact x = c" "cd_state x = Unqueried"
      using select_unqueried_only [of ALPHA "ls_short s"] sel(1) c by auto
    have "inj_on cd_id (set (ls_short s))"
      using inv unfolding linv_def sl_ok_def distinct_map by blast
    then have uniq: "y = x" if "y \<in> set (ls_short s)" "cd_id y = cd_id x" for y
      using that x(1) by (blast dest: inj_onD)
    show ?thesis
    proof
      assume "ct_id c \<in> done_ids (ls_short s)"
      then obtain y where y: "y \<in> set (ls_short s)" "cd_id y = ct_id c" "cd_state y \<noteq> Unqueried"
        unfolding done_ids_def by force
      then show False using uniq [of y] x by simp
    qed
  qed
  moreover have "cd_id ` set sl3 \<subseteq> U" if "within U env" "cd_id ` set (ls_short s) \<subseteq> U"
  proof -
    have "ct_id ` set new \<subseteq> U" using new that(1) unfolding within_def by blast
    then show ?thesis using that(2) f(4) ids_evolves [OF e] by simp
  qed
  moreover have "sl_ok P target (sort_key cd_distance sl3)"
  proof -
    show ?thesis using f(1) by (simp add: sl_ok_def distinct_sort_map)
  qed
  ultimately show ?thesis using f(2) unfolding same by auto
qed

lemma turn_next:
  assumes "linv target s" "lookup_turn replies env target s = Inr s'"
  shows "linv target s' \<and> done_ids (ls_short s) \<subset> done_ids (ls_short s') \<and> ls_hop s' = Suc (ls_hop s) \<and>
    (within U env \<longrightarrow> cd_id ` set (ls_short s) \<subseteq> U \<longrightarrow> cd_id ` set (ls_short s') \<subseteq> U)"
proof -
  obtain q sl1 where q: "select_unqueried ALPHA (ls_short s) = (q, sl1)" "q \<noteq> []"
    using assms(2) by (auto simp: lookup_turn_def split: prod.splits if_splits)
  obtain sl2 new where r: "replies (env (Suc (ls_hop s)) q) (sl1, []) = Inr (sl2, new)"
    using assms(2) q by (auto simp: lookup_turn_def Let_def split: sum.splits)
  obtain sl3 rt where i: "integrate target new (sl2, ls_table s) = (sl3, rt)" by force
  have "s' = \<lparr>ls_short = sort_key cd_distance sl3, ls_table = rt, ls_hop = Suc (ls_hop s)\<rparr>"
    using assms(2) q r i by (auto simp: lookup_turn_def Let_def split: if_splits)
  then show ?thesis using turn_facts [where env = env, OF assms(1) q r i] by (simp add: linv_def)
qed

text \<open>At the end of a search nothing unqueried is among the \<open>K\<close> closest candidates.\<close>

lemma turn_done:
  assumes "linv target s" "lookup_turn replies env target s = Inl (ExitDone s')"
  shows "linv target s' \<and> (\<forall>c \<in> set (take K (ls_short s')). cd_state c \<noteq> Unqueried)"
proof -
  obtain q sl1 where q: "select_unqueried ALPHA (ls_short s) = (q, sl1)" by force
  show ?thesis
  proof (cases "q = []")
    case True
    then have n: "sl1 = ls_short s" "\<forall>c \<in> set (ls_short s). cd_state c \<noteq> Unqueried"
      using select_none [of 2 "ls_short s"] q by auto
    then have "s' = s" using assms(2) q True by (simp add: lookup_turn_def)
    then show ?thesis using n assms(1) by (auto dest: in_set_takeD)
  next
    case False
    obtain sl2 new where r: "replies (env (Suc (ls_hop s)) q) (sl1, []) = Inr (sl2, new)"
      using assms(2) q False by (auto simp: lookup_turn_def Let_def split: sum.splits prod.splits if_splits)
    obtain sl3 rt where i: "integrate target new (sl2, ls_table s) = (sl3, rt)" by force
    have "s' = \<lparr>ls_short = sort_key cd_distance sl3, ls_table = rt, ls_hop = Suc (ls_hop s)\<rparr>"
      and top: "top_k_done (sort_key cd_distance sl3)"
      using assms(2) q r i False by (auto simp: lookup_turn_def Let_def split: if_splits)
    then show ?thesis using turn_facts [where env = env, OF assms(1) q False r i]
      by (auto simp: linv_def top_k_done_def list_all_iff)
  qed
qed

lemma loop_done:
  assumes "linv target s" "lookup_loop replies env target fuel s = Some (ExitDone s')"
  shows "linv target s' \<and> (\<forall>c \<in> set (take K (ls_short s')). cd_state c \<noteq> Unqueried)"
  using assms
proof (induction fuel arbitrary: s)
  case (Suc fuel)
  show ?case
  proof (cases "lookup_turn replies env target s")
    case (Inl e)
    then show ?thesis using Suc.prems turn_done [OF Suc.prems(1), of env s'] by simp
  next
    case (Inr s1)
    then have "linv target s1" using turn_next [OF Suc.prems(1) Inr] by simp
    then show ?thesis using Suc.IH Suc.prems(2) Inr by simp
  qed
qed simp

text \<open>The search ends: every turn makes one more identifier of the universe done.\<close>

lemma loop_terminates:
  assumes "linv target s" "finite U" "within U env" "cd_id ` set (ls_short s) \<subseteq> U"
    and "card (U - done_ids (ls_short s)) < fuel"
  shows "lookup_loop replies env target fuel s \<noteq> None"
  using assms
proof (induction fuel arbitrary: s)
  case (Suc fuel)
  show ?case
  proof (cases "lookup_turn replies env target s")
    case (Inr s')
    note n = turn_next [OF Suc.prems(1) Inr, of U]
    then have sub: "cd_id ` set (ls_short s') \<subseteq> U" using Suc.prems(3,4) by blast
    have "U - done_ids (ls_short s') \<subset> U - done_ids (ls_short s)"
      using n sub done_ids_subset [of "ls_short s'"] by blast
    then have "card (U - done_ids (ls_short s')) < card (U - done_ids (ls_short s))"
      using Suc.prems(2) by (intro psubset_card_mono) auto
    then have "lookup_loop replies env target fuel s' \<noteq> None"
      using Suc.prems n sub by (intro Suc.IH) auto
    then show ?thesis using Inr by simp
  qed simp
qed simp

text \<open>More fuel does not change the result.\<close>

lemma loop_mono: "lookup_loop replies env target fuel s = Some e \<Longrightarrow> lookup_loop replies env target (fuel + n) s = Some e"
  by (induction fuel arbitrary: s) (auto split: sum.splits)

lemma closest_facts:
  assumes "linv target s"
  shows "length (closest_responding (ls_short s)) \<le> K"
    and "distinct (map ct_id (closest_responding (ls_short s)))"
    and "sorted (map (\<lambda>c. distance (ct_id c) target) (closest_responding (ls_short s)))"
    and "\<forall>c \<in> set (closest_responding (ls_short s)). P c"
proof -
  let ?f = "filter (\<lambda>c. cd_state c \<noteq> CandFailed) (ls_short s)"
  have ok: "sl_ok P target (ls_short s)" "sorted (map cd_distance (ls_short s))"
    using assms by (simp_all add: linv_def)
  show "length (closest_responding (ls_short s)) \<le> K" by (simp add: closest_responding_def)
  have "distinct (map cd_id ?f)" using ok(1) by (simp add: sl_ok_def distinct_map_filter)
  then show "distinct (map ct_id (closest_responding (ls_short s)))"
    by (simp add: closest_responding_def comp_def distinct_take flip: take_map)
  have m: "map (\<lambda>c. distance (cd_id c) target) (take K ?f) = map cd_distance (take K ?f)"
    using ok(1) by (intro map_cong) (auto simp: sl_ok_def dest: in_set_takeD)
  have "sorted (map cd_distance (take K ?f))"
    using ok(2) by (simp add: sorted_filter sorted_wrt_take flip: take_map)
  then show "sorted (map (\<lambda>c. distance (ct_id c) target) (closest_responding (ls_short s)))"
    by (simp only: closest_responding_def map_map comp_def m)
  show "\<forall>c \<in> set (closest_responding (ls_short s)). P c"
    using ok(1) by (auto simp: closest_responding_def sl_ok_def dest: in_set_takeD)
qed

end

section \<open>The two lookups\<close>

definition peer_contact :: "lookup_net \<Rightarrow> contact \<Rightarrow> bool" where
  "peer_contact net c \<longleftrightarrow> ct_id c \<noteq> ln_local_id net \<and> ct_addr c \<noteq> ln_local_addr net"

definition not_self :: "lookup_net \<Rightarrow> contact \<Rightarrow> bool" where
  "not_self net c \<longleftrightarrow> ct_id c \<noteq> ln_local_id net"

lemma nodes_replies_facts:
  assumes "nodes_replies net rs (sl, new) = Inr (sl', new')"
  shows "evolves sl sl' \<and> (\<forall>nc \<in> set new'. nc \<in> set new \<or>
    peer_contact net nc \<and> (\<exists>c p. (c, Inr p) \<in> set rs \<and> nc \<in> set (payload_contacts p)))"
  using assms
proof (induction rs arbitrary: sl new)
  case (Cons e rs)
  obtain c r where e: "e = (c, r)" by force
  define ex where "ex = (case r of Inr (FindNodeResp cs) \<Rightarrow>
      filter (\<lambda>nc. ct_id nc \<noteq> ln_local_id net \<and> ct_addr nc \<noteq> ln_local_addr net) cs | _ \<Rightarrow> [])"
  define s where "s = (case r of Inl _ \<Rightarrow> CandFailed | Inr _ \<Rightarrow> Queried)"
  have "nodes_replies net rs (set_cand_state (ct_id c) s sl, new @ ex) = Inr (sl', new')"
    using Cons.prems by (cases r) (simp_all add: e ex_def s_def)
  note IH = Cons.IH [OF this]
  have ev: "evolves sl (set_cand_state (ct_id c) s sl)"
    by (rule set_cand_state_evolves) (simp add: s_def split: sum.split)
  have "\<forall>nc \<in> set ex. peer_contact net nc \<and> (\<exists>p. (c, Inr p) \<in> set (e # rs) \<and> nc \<in> set (payload_contacts p))"
    by (auto simp: ex_def e payload_contacts_def peer_contact_def split: sum.splits rpc_payload.splits)
  then show ?case using IH evolves_trans [OF ev] unfolding set_append by (metis UnE list.set_intros(2))
qed simp

lemma nodes_replies_total: "\<exists>st'. nodes_replies net rs st = Inr st'"
  by (induction net rs st rule: nodes_replies.induct) simp_all

lemma value_replies_facts:
  assumes "value_replies net rs (sl, new) = Inr (sl', new')"
  shows "evolves sl sl' \<and> (\<forall>nc \<in> set new'. nc \<in> set new \<or>
    not_self net nc \<and> (\<exists>c p. (c, Inr p) \<in> set rs \<and> nc \<in> set (payload_contacts p)))"
  using assms
proof (induction rs arbitrary: sl new)
  case (Cons e rs)
  obtain c r where e: "e = (c, r)" by force
  define ex where "ex = (case r of Inr (FindValueResp None cs) \<Rightarrow>
      filter (\<lambda>nc. ct_id nc \<noteq> ln_local_id net) cs | _ \<Rightarrow> [])"
  define s where "s = (case r of Inl _ \<Rightarrow> CandFailed | Inr _ \<Rightarrow> Queried)"
  have "value_replies net rs (set_cand_state (ct_id c) s sl, new @ ex) = Inr (sl', new')"
    using Cons.prems by (cases r) (simp_all add: e ex_def s_def split: rpc_payload.splits option.splits)
  note IH = Cons.IH [OF this]
  have ev: "evolves sl (set_cand_state (ct_id c) s sl)"
    by (rule set_cand_state_evolves) (simp add: s_def split: sum.split)
  have "\<forall>nc \<in> set ex. not_self net nc \<and> (\<exists>p. (c, Inr p) \<in> set (e # rs) \<and> nc \<in> set (payload_contacts p))"
    by (auto simp: ex_def e payload_contacts_def not_self_def split: sum.splits rpc_payload.splits option.splits)
  then show ?case using IH evolves_trans [OF ev] unfolding set_append by (metis UnE list.set_intros(2))
qed simp

lemma value_replies_found:
  "value_replies net rs st = Inl (val, c) \<Longrightarrow> \<exists>cs. (c, Inr (FindValueResp (Some val) cs)) \<in> set rs"
  by (induction net rs st rule: value_replies.induct) (auto split: rpc_payload.splits option.splits)

interpretation nodes: lookup_engine "nodes_replies net" "peer_contact net" for net
  by unfold_locales (use nodes_replies_facts in blast)+

interpretation vals: lookup_engine "value_replies net" "not_self net" for net
  by unfold_locales (use value_replies_facts in blast)+

lemma initial_ok:
  assumes "rt_inv rt"
  shows "sl_ok (peer_contact net) target (initial_shortlist net target rt) \<and>
    sorted (map cd_distance (initial_shortlist net target rt)) \<and>
    cd_id ` set (initial_shortlist net target rt) \<subseteq> rt_ids rt"
proof -
  let ?cs = "filter (\<lambda>c. ct_id c \<noteq> ln_local_id net \<and> ct_addr c \<noteq> ln_local_addr net) (find_closest target K rt)"
  have "map cd_id (map (mk_candidate target) ?cs) = map ct_id ?cs" by (simp add: mk_candidate_def comp_def)
  then have "distinct (map cd_id (map (mk_candidate target) ?cs))"
    by (simp only: distinct_map_filter find_closest_distinct [OF assms])
  then have "distinct (map cd_id (initial_shortlist net target rt))"
    unfolding initial_shortlist_def distinct_sort_map .
  moreover have "cd_id ` set (initial_shortlist net target rt) \<subseteq> rt_ids rt"
    using find_closest_subset [of target K rt]
    by (auto simp: initial_shortlist_def rt_ids_def mk_candidate_def)
  ultimately show ?thesis
    by (auto simp: sl_ok_def initial_shortlist_def mk_candidate_def peer_contact_def)
qed

lemma start_inv:
  assumes "rt_inv rt"
  shows "nodes.linv net target (lookup_start net target rt)" "vals.linv net target (lookup_start net target rt)"
proof -
  note i = initial_ok [OF assms, of net target]
  show "nodes.linv net target (lookup_start net target rt)"
    using i assms by (simp add: nodes.linv_def lookup_start_def)
  have "sl_ok (not_self net) target (initial_shortlist net target rt)"
    using i sl_ok_mono [of "peer_contact net" target _ "not_self net"] by (simp add: peer_contact_def not_self_def)
  then show "vals.linv net target (lookup_start net target rt)"
    using i assms by (simp add: vals.linv_def lookup_start_def)
qed

text \<open>The identifiers that can occur: those of the table and of every reply.\<close>

definition reply_ids_within :: "node_id set \<Rightarrow> (nat \<Rightarrow> contact list \<Rightarrow> call_result list) \<Rightarrow> bool" where
  "reply_ids_within U env \<longleftrightarrow> (\<forall>h q c p. (c, Inr p) \<in> set (env h q) \<longrightarrow> ct_id ` set (payload_contacts p) \<subseteq> U)"

lemma no_found_nodes: "lookup_loop (nodes_replies net) env target fuel s \<noteq> Some (ExitFound v c s')"
proof (induction fuel arbitrary: s)
  case (Suc fuel)
  have "lookup_turn (nodes_replies net) env target s \<noteq> Inl (ExitFound v c s')"
    using nodes_replies_total [of net] by (auto simp: lookup_turn_def Let_def split: prod.splits sum.splits if_splits) (metis Inl_Inr_False)
  then show ?case using Suc by (auto split: sum.splits)
qed simp

lemma lookup_nodes_result:
  assumes "rt_inv rt" "lookup_nodes fuel env net target rt = Some (cs, rt', h)"
  shows "rt_inv rt' \<and> length cs \<le> K \<and> distinct (map ct_id cs) \<and>
    sorted (map (\<lambda>c. distance (ct_id c) target) cs) \<and> (\<forall>c \<in> set cs. peer_contact net c)"
proof -
  obtain s where s: "lookup_loop (nodes_replies net) env target fuel (lookup_start net target rt) = Some (ExitDone s)"
    "cs = closest_responding (ls_short s)" "rt' = ls_table s"
    using assms(2) by (auto simp: lookup_nodes_def split: option.splits lookup_exit.splits)
  have l: "nodes.linv net target s" using nodes.loop_done [OF start_inv(1) [OF assms(1)] s(1)] by simp
  then show ?thesis using nodes.closest_facts [OF l] s(2,3) by (simp add: nodes.linv_def)
qed

lemma lookup_nodes_terminates:
  assumes "rt_inv rt" "finite U" "rt_ids rt \<subseteq> U" "reply_ids_within U env" "card U < fuel"
  shows "\<exists>r. lookup_nodes fuel env net target rt = Some r"
proof -
  let ?s = "lookup_start net target rt"
  have "nodes.within U env" using assms(4) by (simp add: nodes.within_def reply_ids_within_def)
  moreover have "card (U - done_ids (ls_short ?s)) < fuel"
    using assms(2,5) by (meson Diff_subset card_mono le_less_trans)
  moreover have "cd_id ` set (ls_short ?s) \<subseteq> U"
    using initial_ok [OF assms(1), of net target] assms(3) by (auto simp: lookup_start_def)
  ultimately have "lookup_loop (nodes_replies net) env target fuel ?s \<noteq> None"
    using start_inv(1) [OF assms(1)] assms(2) by (intro nodes.loop_terminates)
  then show ?thesis using no_found_nodes [of net env target fuel ?s]
    by (auto simp: lookup_nodes_def split: lookup_exit.splits)
qed

lemma lookup_value_terminates:
  assumes "rt_inv rt" "finite U" "rt_ids rt \<subseteq> U" "reply_ids_within U env" "card U < fuel"
  shows "\<exists>r. lookup_value fuel env net key rt = Some r"
proof -
  let ?s = "lookup_start net key rt"
  have "vals.within U env" using assms(4) by (simp add: vals.within_def reply_ids_within_def)
  moreover have "card (U - done_ids (ls_short ?s)) < fuel"
    using assms(2,5) by (meson Diff_subset card_mono le_less_trans)
  moreover have "cd_id ` set (ls_short ?s) \<subseteq> U"
    using initial_ok [OF assms(1), of net key] assms(3) by (auto simp: lookup_start_def)
  ultimately have "lookup_loop (value_replies net) env key fuel ?s \<noteq> None"
    using start_inv(2) [OF assms(1)] assms(2) by (intro vals.loop_terminates)
  then show ?thesis by (auto simp: lookup_value_def split: lookup_exit.splits)
qed

text \<open>A found value is what the contact named with it answered.\<close>

lemma loop_found:
  "lookup_loop (value_replies net) env key fuel s = Some (ExitFound val c s') \<Longrightarrow>
   \<exists>h q cs. (c, Inr (FindValueResp (Some val) cs)) \<in> set (env h q)"
proof (induction fuel arbitrary: s)
  case (Suc fuel)
  show ?case
  proof (cases "lookup_turn (value_replies net) env key s")
    case (Inl e)
    then have "lookup_turn (value_replies net) env key s = Inl (ExitFound val c s')" using Suc.prems by simp
    then obtain h q sl where "value_replies net (env h q) (sl, []) = Inl (val, c)"
      by (auto simp: lookup_turn_def Let_def split: prod.splits sum.splits if_splits)
    then show ?thesis using value_replies_found by blast
  qed (use Suc in auto)
qed simp

lemma lookup_value_result:
  assumes "rt_inv rt" "lookup_value fuel env net key rt = Some (r, rt')"
  shows "case r of
      Found val c \<Rightarrow> \<exists>h q cs. (c, Inr (FindValueResp (Some val) cs)) \<in> set (env h q)
    | ClosestNodes cs \<Rightarrow> rt_inv rt' \<and> length cs \<le> K \<and> distinct (map ct_id cs) \<and>
        sorted (map (\<lambda>c. distance (ct_id c) key) cs) \<and> (\<forall>c \<in> set cs. not_self net c)"
proof (cases r)
  case (Found val c)
  then show ?thesis using assms(2) loop_found
    by (fastforce simp: lookup_value_def split: option.splits lookup_exit.splits)
next
  case (ClosestNodes cs)
  obtain s where s: "lookup_loop (value_replies net) env key fuel (lookup_start net key rt) = Some (ExitDone s)"
    "cs = closest_responding (ls_short s)" "rt' = ls_table s"
    using assms(2) ClosestNodes by (auto simp: lookup_value_def split: option.splits lookup_exit.splits)
  have l: "vals.linv net key s" using vals.loop_done [OF start_inv(2) [OF assms(1)] s(1)] by simp
  then show ?thesis using vals.closest_facts [OF l] s(2,3) ClosestNodes by (simp add: vals.linv_def)
qed

text \<open>However a lookup ends, the routing table is well formed.\<close>

context lookup_engine
begin

lemma loop_exit_inv:
  assumes "linv target s" "lookup_loop replies env target fuel s = Some e"
  shows "case e of ExitDone s' \<Rightarrow> rt_inv (ls_table s') | ExitFound _ _ s' \<Rightarrow> rt_inv (ls_table s')"
  using assms
proof (induction fuel arbitrary: s)
  case (Suc fuel)
  show ?case
  proof (cases "lookup_turn replies env target s")
    case (Inl x)
    then have e: "e = x" using Suc.prems by simp
    show ?thesis
    proof (cases x)
      case (ExitDone s')
      then show ?thesis using turn_done [OF Suc.prems(1), of env s'] Inl e by (simp add: linv_def)
    next
      case (ExitFound v c s')
      then have "ls_table s' = ls_table s"
        using Inl by (auto simp: lookup_turn_def Let_def split: prod.splits sum.splits if_splits)
      then show ?thesis using Suc.prems(1) ExitFound e by (simp add: linv_def)
    qed
  next
    case (Inr s')
    have "linv target s'" using turn_next [OF Suc.prems(1) Inr] by blast
    then show ?thesis using Suc.IH [of s'] Suc.prems(2) Inr by simp
  qed
qed simp

end

lemma lookup_value_inv:
  assumes "rt_inv rt" "lookup_value fuel env net key rt = Some (r, rt')"
  shows "rt_inv rt'"
proof -
  obtain e where e: "lookup_loop (value_replies net) env key fuel (lookup_start net key rt) = Some e"
    using assms(2) by (auto simp: lookup_value_def split: option.splits)
  show ?thesis using vals.loop_exit_inv [OF start_inv(2) [OF assms(1)] e] assms(2) e
    by (cases e) (simp_all add: lookup_value_def)
qed

end
