(* ===== verification/Kademlia_Node.thy ===== *)
theory Kademlia_Node
  imports Rpc_Network Lookup
begin

text \<open>
  The DHT node, from \<open>nodex-kademlia/src/lib.rs\<close> and the maintenance task of
  \<open>storage.rs\<close>: merging of mailbox values, the request handler, \<open>put\<close>, \<open>get\<close>,
  \<open>get_silent\<close>, \<open>bootstrap\<close>, \<open>ping_addr\<close> and the start-up of the tables. The JSON library is a parameter: a
  parser of arrays of values and the two serialisers. The lemmas bound the size of a
  mailbox, show that a repeated store changes nothing, and say what the handler
  answers and what \<open>put\<close> and \<open>get\<close> leave behind.
\<close>

section \<open>Merging of stored values\<close>

abbreviation MAX_MAILBOX_VALUE_BYTES :: nat where "MAX_MAILBOX_VALUE_BYTES \<equiv> 48 * 1024"
abbreviation MAX_MAILBOX_ENVELOPES :: nat where "MAX_MAILBOX_ENVELOPES \<equiv> 50"

text \<open>\<open>serde_json::from_slice::<Vec<Value>>\<close>, \<open>to_vec\<close> of a value and of a list of values.\<close>

record 'j json_api =
  js_parse :: "bytes \<Rightarrow> 'j list option"
  js_one :: "'j \<Rightarrow> bytes option"
  js_many :: "'j list \<Rightarrow> bytes option"

definition to_vec_or_default :: "'j json_api \<Rightarrow> 'j list \<Rightarrow> bytes" where
  "to_vec_or_default js es = (case js_many js es of Some b \<Rightarrow> b | None \<Rightarrow> [])"

definition too_large :: "'j json_api \<Rightarrow> 'j \<Rightarrow> bool" where
  "too_large js e = (case js_one js e of Some b \<Rightarrow> length b > MAX_MAILBOX_VALUE_BYTES | None \<Rightarrow> True)"

text \<open>The loop over the new envelopes: \<open>(envelopes, rejected)\<close>.\<close>

fun merge_envelopes :: "'j json_api \<Rightarrow> 'j list \<Rightarrow> 'j list \<times> bool \<Rightarrow> 'j list \<times> bool" where
  "merge_envelopes js [] st = st"
| "merge_envelopes js (e # es) (envs, rejected) =
     (if too_large js e then merge_envelopes js es (envs, True)
      else merge_envelopes js es (if e \<in> set envs then envs else envs @ [e], rejected))"

definition drop_excess :: "'j list \<Rightarrow> 'j list" where
  "drop_excess envs = (if length envs > MAX_MAILBOX_ENVELOPES
     then drop (length envs - MAX_MAILBOX_ENVELOPES) envs else envs)"

fun prune_oldest :: "'j json_api \<Rightarrow> 'j list \<Rightarrow> 'j list \<times> nat" where
  "prune_oldest js [] = ([], 0)"
| "prune_oldest js (e # es) =
     (if length (to_vec_or_default js (e # es)) > MAX_MAILBOX_VALUE_BYTES
      then (let r = prune_oldest js es in (fst r, Suc (snd r)))
      else (e # es, 0))"

definition opt_or :: "'a option \<Rightarrow> 'a \<Rightarrow> 'a" where
  "opt_or v d = (case v of Some x \<Rightarrow> x | None \<Rightarrow> d)"

definition merge_store_value :: "'j json_api \<Rightarrow> bytes option \<Rightarrow> bytes \<Rightarrow> bytes \<times> bool \<times> nat" where
  "merge_store_value js existing incoming =
     (case js_parse js incoming of
        Some new \<Rightarrow>
          (let envs0 = (case existing of Some b \<Rightarrow> opt_or (js_parse js b) [] | None \<Rightarrow> []);
               (envs1, rejected) = merge_envelopes js new (envs0, False);
               (envs2, pruned) = prune_oldest js (drop_excess envs1);
               encoded = to_vec_or_default js envs2 in
           if length encoded > MAX_MAILBOX_VALUE_BYTES then (opt_or existing [], False, pruned)
           else (encoded, \<not> rejected, pruned))
      | None \<Rightarrow>
          if length incoming > MAX_VALUE_SIZE then (opt_or existing [], False, 0)
          else (incoming, True, 0))"

section \<open>The request handler\<close>

text \<open>The reply and the store afterwards; the routing table is only read.\<close>

definition handle_request ::
    "'j json_api \<Rightarrow> instant \<Rightarrow> node_id \<Rightarrow> rpc_message \<Rightarrow> routing_table \<Rightarrow> storage \<Rightarrow>
     rpc_message option \<times> storage" where
  "handle_request js now local_id m rt s =
     (let reply = (\<lambda>p. Some \<lparr>rm_request_id = rm_request_id m, rm_sender_id = local_id, rm_payload = p\<rparr>) in
      case rm_payload m of
        Ping \<Rightarrow> (reply Pong, s)
      | Store key val \<Rightarrow>
          (let (merged, ok, _) = merge_store_value js (storage_get now key s) val;
               s' = (if ok then storage_put now key merged DEFAULT_TTL s else s) in
           (reply (StoreAck ok), s'))
      | FindNode target \<Rightarrow> (reply (FindNodeResp (find_closest target K rt)), s)
      | FindValue key \<Rightarrow>
          (case storage_get now key s of
             Some val \<Rightarrow>
               (let (bounded, _, _) = merge_store_value js None val in
                if length bounded < length val
                then (reply (FindValueResp (Some bounded) []), storage_put now key bounded DEFAULT_TTL s)
                else (reply (FindValueResp (Some val) []), s))
           | None \<Rightarrow> (reply (FindValueResp None (find_closest key K rt)), s))
      | _ \<Rightarrow> (None, s))"

section \<open>Operations of the node\<close>

record node_state =
  nd_table :: routing_table
  nd_storage :: storage

definition node_net :: "node_id \<Rightarrow> socket_addr \<Rightarrow> lookup_net" where
  "node_net i a = \<lparr>ln_local_id = i, ln_local_addr = a\<rparr>"

text \<open>\<open>init_node\<close>: the restored contacts go into a fresh table, the configured bootstrap addresses
  other than the own one are contacted.\<close>

definition init_node :: "node_id \<Rightarrow> contact list \<Rightarrow> node_state" where
  "init_node i restored = \<lparr>nd_table = fold (\<lambda>c t. snd (rt_update c t)) restored (rt_new i), nd_storage = storage_new\<rparr>"

definition bootstrap_targets :: "socket_addr \<Rightarrow> socket_addr list \<Rightarrow> socket_addr list" where
  "bootstrap_targets local_addr addrs = filter (\<lambda>a. a \<noteq> local_addr) addrs"

text \<open>\<open>load_or_create_identity\<close>: \<open>loaded\<close> is the result of reading the state file, if it exists.\<close>

definition load_or_create_identity ::
    "('e + node_id \<times> contact list) option \<Rightarrow> node_id \<Rightarrow> node_id \<times> contact list" where
  "load_or_create_identity loaded random = (case loaded of
      Some (Inr r) \<Rightarrow> r
    | Some (Inl _) \<Rightarrow> (random, [])
    | None \<Rightarrow> (random, []))"

text \<open>The loop over the closest nodes: \<open>call c\<close> is the payload that the node answers, if any.\<close>

fun replicate_to :: "node_id \<Rightarrow> socket_addr \<Rightarrow> (contact \<Rightarrow> rpc_payload option) \<Rightarrow> contact list \<Rightarrow> nat \<Rightarrow> nat" where
  "replicate_to i a call [] n = n"
| "replicate_to i a call (c # cs) n =
     (if ct_addr c = a \<or> ct_id c = i then replicate_to i a call cs n
      else replicate_to i a call cs (if call c = Some (StoreAck True) then n + 1 else n))"

definition node_put ::
    "(bytes \<Rightarrow> bytes) \<Rightarrow> nat \<Rightarrow> (nat \<Rightarrow> contact list \<Rightarrow> call_result list) \<Rightarrow> (contact \<Rightarrow> rpc_payload option) \<Rightarrow>
     nat \<Rightarrow> node_id \<Rightarrow> socket_addr \<Rightarrow> instant \<Rightarrow> bytes \<Rightarrow> bytes \<Rightarrow> node_state \<Rightarrow> (nat \<times> node_state) option" where
  "node_put sha1 fuel env call ttl_secs i a now key_str val s =
     (let key = from_key sha1 key_str;
          st = storage_put now key val (secs ttl_secs) (nd_storage s) in
      case lookup_nodes fuel env (node_net i a) key (nd_table s) of
        None \<Rightarrow> None
      | Some (closest, rt, _) \<Rightarrow> Some
          (if closest = [] then 1 else replicate_to i a call closest 1,
           \<lparr>nd_table = rt, nd_storage = st\<rparr>))"

text \<open>\<open>get\<close> and \<open>get_silent\<close> differ only in what they print.\<close>

definition node_get ::
    "(bytes \<Rightarrow> bytes) \<Rightarrow> nat \<Rightarrow> (nat \<Rightarrow> contact list \<Rightarrow> call_result list) \<Rightarrow> nat \<Rightarrow> node_id \<Rightarrow> socket_addr \<Rightarrow>
     instant \<Rightarrow> bytes \<Rightarrow> node_state \<Rightarrow> ((bytes \<times> socket_addr) option \<times> node_state) option" where
  "node_get sha1 fuel env ttl_secs i a now key_str s =
     (let key = from_key sha1 key_str in
      case storage_get now key (nd_storage s) of
        Some val \<Rightarrow> Some (Some (val, a), s)
      | None \<Rightarrow>
          (case lookup_value fuel env (node_net i a) key (nd_table s) of
             None \<Rightarrow> None
           | Some (Found val from, rt) \<Rightarrow> Some (Some (val, ct_addr from),
               \<lparr>nd_table = rt, nd_storage = storage_put now key val (secs ttl_secs) (nd_storage s)\<rparr>)
           | Some (ClosestNodes _, rt) \<Rightarrow> Some (None, s\<lparr>nd_table := rt\<rparr>)))"

definition node_get_silent ::
    "(bytes \<Rightarrow> bytes) \<Rightarrow> nat \<Rightarrow> (nat \<Rightarrow> contact list \<Rightarrow> call_result list) \<Rightarrow> nat \<Rightarrow> node_id \<Rightarrow> socket_addr \<Rightarrow>
     instant \<Rightarrow> bytes \<Rightarrow> node_state \<Rightarrow> ((bytes \<times> socket_addr) option \<times> node_state) option" where
  "node_get_silent sha1 fuel env ttl_secs i a now key_str s =
     node_get sha1 fuel env ttl_secs i a now key_str s"

text \<open>\<open>bootstrap\<close>: \<open>ping\<close> is the result of the call to the bootstrap node.\<close>

definition node_bootstrap ::
    "nat \<Rightarrow> (nat \<Rightarrow> contact list \<Rightarrow> call_result list) \<Rightarrow> call_error + rpc_message \<Rightarrow> node_id \<Rightarrow> socket_addr \<Rightarrow>
     instant \<Rightarrow> socket_addr \<Rightarrow> node_state \<Rightarrow> (call_error option \<times> node_state) option" where
  "node_bootstrap fuel env ping i a now boot s = (case ping of
      Inl e \<Rightarrow> Some (Some e, s)
    | Inr reply \<Rightarrow>
        (let rt = snd (rt_update (contact_new now (rm_sender_id reply) boot) (nd_table s)) in
         case lookup_nodes fuel env (node_net i a) i rt of
           None \<Rightarrow> None
         | Some (_, rt', _) \<Rightarrow> Some (None, s\<lparr>nd_table := rt'\<rparr>)))"

definition ping_addr :: "call_error + rpc_message \<Rightarrow> call_error + unit" where
  "ping_addr r = (case r of Inl e \<Rightarrow> Inl e | Inr _ \<Rightarrow> Inr ())"

text \<open>One tick of the maintenance task: expired records go, the due ones are looked up and sent to
  the nodes found; \<open>nodes k\<close> is the result of the lookup for the key \<open>k\<close>.\<close>

definition maintenance_tick ::
    "instant \<Rightarrow> (node_id \<Rightarrow> contact list) \<Rightarrow> storage \<Rightarrow> (contact \<times> rpc_payload) list \<times> storage" where
  "maintenance_tick now nodes s =
     (let s1 = snd (storage_cleanup_stale now s); (due, s2) = keys_to_republish now s1 in
      (concat (map (\<lambda>(k, v). map (\<lambda>c. (c, Store k v)) (nodes k)) due), s2))"

section \<open>Merging\<close>

text \<open>The documented behaviour of the JSON library: what it wrote it reads back, a list of values is
  never too large to be written and an empty array has two bytes.\<close>

definition json_ok :: "'j json_api \<Rightarrow> bool" where
  "json_ok js \<longleftrightarrow> (\<forall>es. \<exists>b. js_many js es = Some b \<and> js_parse js b = Some es) \<and>
     length (to_vec_or_default js []) = 2"

lemma json_ok_roundtrip: "json_ok js \<Longrightarrow> js_parse js (to_vec_or_default js es) = Some es"
  unfolding json_ok_def to_vec_or_default_def by (metis option.simps(5))

lemma prune_fits:
  "length (to_vec_or_default js []) \<le> MAX_MAILBOX_VALUE_BYTES \<Longrightarrow>
   length (to_vec_or_default js (fst (prune_oldest js es))) \<le> MAX_MAILBOX_VALUE_BYTES"
  by (induction es) (auto simp: Let_def)

lemma prune_suffix: "fst (prune_oldest js es) = drop (snd (prune_oldest js es)) es"
  by (induction es) (auto simp: Let_def)

lemma prune_none:
  "length (to_vec_or_default js es) \<le> MAX_MAILBOX_VALUE_BYTES \<Longrightarrow> prune_oldest js es = (es, 0)"
  by (cases es) auto

lemma drop_excess_length: "length (drop_excess es) \<le> MAX_MAILBOX_ENVELOPES"
  by (simp add: drop_excess_def)

lemma drop_excess_suffix: "\<exists>n. drop_excess es = drop n es"
  by (metis drop_0 drop_excess_def)

lemma merge_envelopes_facts:
  assumes "merge_envelopes js new (envs, rej) = (envs', rej')"
  shows "(\<exists>app. envs' = envs @ app \<and> set app \<subseteq> set new) \<and> (distinct envs \<longrightarrow> distinct envs') \<and>
    (rej' \<longleftrightarrow> rej \<or> (\<exists>e \<in> set new. too_large js e)) \<and>
    (\<forall>e \<in> set new. \<not> too_large js e \<longrightarrow> e \<in> set envs')"
  using assms
proof (induction new arbitrary: envs rej)
  case (Cons e new)
  show ?case
  proof (cases "too_large js e")
    case True
    then show ?thesis using Cons.IH [of envs True] Cons.prems by auto
  next
    case False
    let ?envs = "if e \<in> set envs then envs else envs @ [e]"
    have "merge_envelopes js new (?envs, rej) = (envs', rej')" using Cons.prems False by simp
    from Cons.IH [OF this] obtain app where app: "envs' = ?envs @ app" "set app \<subseteq> set new"
      and rest: "distinct ?envs \<longrightarrow> distinct envs'" "rej' \<longleftrightarrow> rej \<or> (\<exists>e \<in> set new. too_large js e)"
        "\<forall>e \<in> set new. \<not> too_large js e \<longrightarrow> e \<in> set envs'" by blast
    have "\<exists>app. envs' = envs @ app \<and> set app \<subseteq> set (e # new)"
      using app by (cases "e \<in> set envs") auto
    moreover have "e \<in> set envs'" using app(1) by (auto split: if_splits)
    ultimately show ?thesis using rest False by (auto split: if_splits)
  qed
qed simp

lemma merge_envelopes_same:
  assumes "\<forall>e \<in> set new. e \<in> set envs" "\<forall>e \<in> set new. \<not> too_large js e"
  shows "merge_envelopes js new (envs, rej) = (envs, rej)"
  using assms by (induction new) auto

text \<open>The size of what a merge gives.\<close>

lemma merge_size:
  assumes "json_ok js" "merge_store_value js existing incoming = (out, ok, pruned)"
  shows "length out \<le> MAX_MAILBOX_VALUE_BYTES \<or>
    (js_parse js incoming = None \<and> ok \<and> out = incoming \<and> length out \<le> MAX_VALUE_SIZE) \<or>
    (js_parse js incoming = None \<and> \<not> ok \<and> out = opt_or existing [])"
proof (cases "js_parse js incoming")
  case None
  then show ?thesis using assms(2) by (auto simp: merge_store_value_def split: if_splits)
next
  case (Some new)
  have "length (to_vec_or_default js []) \<le> MAX_MAILBOX_VALUE_BYTES" using assms(1) by (simp add: json_ok_def)
  note fits = prune_fits [OF this]
  then show ?thesis using assms(2) Some
    by (auto simp: merge_store_value_def Let_def split: prod.splits if_splits) (metis fst_conv fits not_le)+
qed

text \<open>The envelopes of a merged mailbox: a suffix of the old ones followed by new ones, at most 50.\<close>

lemma merge_mailbox:
  assumes js: "json_ok js" and new: "js_parse js incoming = Some new"
    and old: "(case existing of Some b \<Rightarrow> opt_or (js_parse js b) [] | None \<Rightarrow> []) = envs"
    and res: "merge_store_value js existing incoming = (out, ok, pruned)"
  shows "\<exists>envs1 n. merge_envelopes js new (envs, False) = (envs1, \<not> ok) \<and>
    js_parse js out = Some (drop n envs1) \<and> length (drop n envs1) \<le> MAX_MAILBOX_ENVELOPES \<and>
    (length envs1 \<le> MAX_MAILBOX_ENVELOPES \<and> length (to_vec_or_default js envs1) \<le> MAX_MAILBOX_VALUE_BYTES
       \<longrightarrow> drop n envs1 = envs1) \<and>
    out = to_vec_or_default js (drop n envs1) \<and> length out \<le> MAX_MAILBOX_VALUE_BYTES"
proof -
  obtain envs1 rej where m: "merge_envelopes js new (envs, False) = (envs1, rej)" by force
  obtain envs2 p where pr: "prune_oldest js (drop_excess envs1) = (envs2, p)" by force
  have "length (to_vec_or_default js []) \<le> MAX_MAILBOX_VALUE_BYTES" using js by (simp add: json_ok_def)
  from prune_fits [OF this, of "drop_excess envs1"]
  have fit: "length (to_vec_or_default js envs2) \<le> MAX_MAILBOX_VALUE_BYTES" using pr by simp
  then have out: "out = to_vec_or_default js envs2" "ok = (\<not> rej)"
    using res new old m pr by (simp_all add: merge_store_value_def Let_def)
  obtain k where k: "drop_excess envs1 = drop k envs1" using drop_excess_suffix by blast
  have e2: "envs2 = drop (p + k) envs1" using prune_suffix [of js "drop_excess envs1"] pr k by (simp add: drop_drop)
  have "length envs2 \<le> MAX_MAILBOX_ENVELOPES"
    using prune_suffix [of js "drop_excess envs1"] pr drop_excess_length [of envs1] by simp
  moreover have "js_parse js out = Some envs2" using json_ok_roundtrip [OF js] out(1) by simp
  moreover have "envs2 = envs1" if "length envs1 \<le> MAX_MAILBOX_ENVELOPES"
      "length (to_vec_or_default js envs1) \<le> MAX_MAILBOX_VALUE_BYTES"
    using that pr prune_none [of js envs1] by (simp add: drop_excess_def)
  moreover have "length out \<le> MAX_MAILBOX_VALUE_BYTES" using fit out(1) by simp
  ultimately show ?thesis using m out e2 by (intro exI [of _ envs1] exI [of _ "p + k"]) auto
qed

text \<open>Storing the same mailbox array again changes nothing.\<close>

lemma merge_again:
  assumes js: "json_ok js" and new: "js_parse js incoming = Some new"
    and first: "merge_store_value js existing incoming = (out, True, pruned)"
    and kept: "js_parse js out = Some envs" "set new \<subseteq> set envs"
  shows "merge_store_value js (Some out) incoming = (out, True, 0)"
proof -
  obtain envs1 n where m: "js_parse js out = Some (drop n envs1)" "length (drop n envs1) \<le> MAX_MAILBOX_ENVELOPES"
    "merge_envelopes js new (case existing of Some b \<Rightarrow> opt_or (js_parse js b) [] | None \<Rightarrow> [], False) = (envs1, \<not> True)"
    "out = to_vec_or_default js (drop n envs1)" "length out \<le> MAX_MAILBOX_VALUE_BYTES"
    using merge_mailbox [OF js new refl first] by blast
  have ok: "\<forall>e \<in> set new. \<not> too_large js e" using merge_envelopes_facts [OF m(3)] by simp
  have e: "drop n envs1 = envs" using m(1) kept(1) by simp
  note m = m(1-3) m(4,5) [unfolded e] m(2) [unfolded e]
  have "merge_envelopes js new (envs, False) = (envs, False)"
    using merge_envelopes_same [OF _ ok] kept(2) by blast
  moreover have "drop_excess envs = envs" using m(6) by (simp add: drop_excess_def)
  moreover have "prune_oldest js envs = (envs, 0)" using m(4,5) by (intro prune_none) simp
  ultimately show ?thesis using m(4,5) new kept(1)
    by (simp add: merge_store_value_def opt_or_def)
qed

section \<open>The handler and the node\<close>

text \<open>Every value of the store fits a message.\<close>

definition values_small :: "storage \<Rightarrow> bool" where
  "values_small s \<longleftrightarrow> (\<forall>e \<in> set (sto_data s). length (dr_value (snd e)) \<le> MAX_VALUE_SIZE)"

lemma storage_get_small: "values_small s \<Longrightarrow> storage_get now k s = Some v \<Longrightarrow> length v \<le> MAX_VALUE_SIZE"
  by (auto simp: values_small_def storage_get_def split: option.splits if_splits dest!: map_of_SomeD)

lemma storage_put_data:
  "set (sto_data (storage_put now k v ttl s)) \<subseteq> insert (k, record_new now v ttl) (set (sto_data s))"
proof -
  have "set (sto_data (evict n (drop_record k s))) \<subseteq> set (sto_data s)" for n
    using evict_subset [of n "drop_record k s"] by (auto simp: drop_record_data map_del_def)
  then show ?thesis using set_map_put_subset [of k "record_new now v ttl"]
    by (simp add: storage_put_def Let_def) blast
qed

lemma storage_put_small: "values_small s \<Longrightarrow> length v \<le> MAX_VALUE_SIZE \<Longrightarrow> values_small (storage_put now k v ttl s)"
  using storage_put_data [of now k v ttl s] by (auto simp: values_small_def record_new_def)

definition store_ok :: "storage \<Rightarrow> bool" where
  "store_ok s \<longleftrightarrow> storage_inv s \<and> values_small s"

lemma store_ok_new: "store_ok storage_new"
  by (simp add: store_ok_def) (simp add: values_small_def storage_new_def)

lemma store_ok_put: "store_ok s \<Longrightarrow> length v \<le> MAX_VALUE_SIZE \<Longrightarrow> store_ok (storage_put now k v ttl s)"
  by (simp add: store_ok_def storage_put_inv storage_put_small)

lemma merge_accepted_small:
  "json_ok js \<Longrightarrow> merge_store_value js ex v = (out, True, n) \<Longrightarrow> length out \<le> MAX_VALUE_SIZE"
  using merge_size [of js ex v out True n] by auto

lemma merge_none_small:
  "json_ok js \<Longrightarrow> merge_store_value js None v = (out, ok, n) \<Longrightarrow> length out \<le> MAX_VALUE_SIZE"
  using merge_size [of js None v out ok n] by (auto simp: opt_or_def)

text \<open>The store stays within its limits and its values stay small enough to be sent.\<close>

lemma handle_request_store_ok:
  assumes "json_ok js" "store_ok s" shows "store_ok (snd (handle_request js now i m rt s))"
proof (cases "rm_payload m")
  case (Store key val)
  obtain out ok n where r: "merge_store_value js (storage_get now key s) val = (out, ok, n)" by (metis prod_cases3)
  show ?thesis using assms Store r merge_accepted_small [of js _ _ out n]
    by (auto simp: handle_request_def intro!: store_ok_put)
next
  case (FindValue key)
  show ?thesis
  proof (cases "storage_get now key s")
    case (Some val)
    obtain out ok n where r: "merge_store_value js None val = (out, ok, n)" by (metis prod_cases3)
    show ?thesis using assms FindValue Some r merge_none_small [OF assms(1) r]
      by (auto simp: handle_request_def intro!: store_ok_put)
  qed (use assms FindValue in \<open>simp add: handle_request_def\<close>)
qed (use assms in \<open>simp_all add: handle_request_def\<close>)

text \<open>Requests are answered, responses are not; the answer carries the id of the request.\<close>

lemma handle_request_answers:
  "fst (handle_request js now i m rt s) = None \<longleftrightarrow> is_response (rm_payload m)"
  "fst (handle_request js now i m rt s) = Some a \<Longrightarrow>
     rm_request_id a = rm_request_id m \<and> rm_sender_id a = i \<and> is_response (rm_payload a)"
  by (auto simp: handle_request_def is_response_def Let_def split: rpc_payload.splits option.splits prod.splits if_splits)

lemma handle_response_ignored: "is_response (rm_payload m) \<Longrightarrow> snd (handle_request js now i m rt s) = s"
  by (auto simp: handle_request_def is_response_def split: rpc_payload.splits)

lemma find_closest_K: "length (find_closest x K rt) \<le> K"
  by (simp add: find_closest_length)

lemma handle_request_fits:
  assumes "json_ok js" "store_ok s" "fst (handle_request js now i m rt s) = Some a"
  shows "value_fits (rm_payload a) \<and> length (payload_contacts (rm_payload a)) \<le> K"
proof (cases "rm_payload m")
  case (FindValue key)
  show ?thesis
  proof (cases "storage_get now key s")
    case (Some val)
    obtain out ok n where r: "merge_store_value js None val = (out, ok, n)" by (metis prod_cases3)
    have "length out \<le> MAX_VALUE_SIZE" "length val \<le> MAX_VALUE_SIZE"
      using merge_none_small [OF assms(1) r] storage_get_small Some assms(2) by (auto simp: store_ok_def)
    then show ?thesis using assms FindValue Some r
      by (auto simp: handle_request_def value_fits_def payload_value_def payload_contacts_def split: if_splits)
  qed (use assms FindValue find_closest_K in \<open>auto simp: handle_request_def value_fits_def payload_value_def payload_contacts_def\<close>)
qed (use assms find_closest_K in \<open>auto simp: handle_request_def value_fits_def payload_value_def payload_contacts_def
    split: prod.splits\<close>)

type_synonym 'r handler_event = "instant \<times> 'r \<times> routing_table"

definition handler_step :: "'j json_api \<Rightarrow> node_id \<Rightarrow> rpc_message handler_event \<Rightarrow> storage \<Rightarrow> storage" where
  "handler_step js i ev s = (case ev of (now, m, rt) \<Rightarrow> snd (handle_request js now i m rt s))"

interpretation handler: op_system "handler_step js i" "\<lambda>_. json_ok js" store_ok for js i
  by unfold_locales (auto simp: handler_step_def handle_request_store_ok)

text \<open>A \<open>STORE\<close> that is acknowledged can be read; one that is refused changes nothing.\<close>

lemma handle_store:
  assumes "json_ok js" "rm_payload m = Store key val"
    "merge_store_value js (storage_get now key s) val = (out, ok, n)"
  shows "fst (handle_request js now i m rt s) =
      Some \<lparr>rm_request_id = rm_request_id m, rm_sender_id = i, rm_payload = StoreAck ok\<rparr>"
    "ok \<Longrightarrow> storage_get now key (snd (handle_request js now i m rt s)) = Some out"
    "\<not> ok \<Longrightarrow> snd (handle_request js now i m rt s) = s"
proof -
  show "storage_get now key (snd (handle_request js now i m rt s)) = Some out" if ok
  proof -
    have "merge_store_value js (storage_get now key s) val = (out, True, n)" using assms(3) that by simp
    then have "length out \<le> MAX_VALUE_SIZE" by (rule merge_accepted_small [OF assms(1)])
    then show ?thesis using assms(2,3) that by (simp add: handle_request_def get_put_same)
  qed
qed (use assms(2,3) in \<open>simp_all add: handle_request_def\<close>)

text \<open>A value kept by \<open>put\<close> that is too long for a message and no JSON array is erased by the first
  request for it.\<close>

lemma find_value_erases:
  assumes "rm_payload m = FindValue key" "storage_get now key s = Some v" "js_parse js v = None"
    "MAX_VALUE_SIZE < length v"
  shows "handle_request js now i m rt s =
    (Some \<lparr>rm_request_id = rm_request_id m, rm_sender_id = i, rm_payload = FindValueResp (Some []) []\<rparr>,
     storage_put now key [] DEFAULT_TTL s)"
    "storage_get now key (snd (handle_request js now i m rt s)) = Some []"
  using assms by (auto simp: handle_request_def merge_store_value_def opt_or_def get_put_same)

section \<open>\<open>put\<close>, \<open>get\<close>, \<open>bootstrap\<close>\<close>

definition node_inv :: "node_state \<Rightarrow> bool" where
  "node_inv s \<longleftrightarrow> rt_inv (nd_table s) \<and> storage_inv (nd_storage s)"

lemma replicate_to_count:
  "replicate_to i a call cs n =
     n + length (filter (\<lambda>c. ct_addr c \<noteq> a \<and> ct_id c \<noteq> i \<and> call c = Some (StoreAck True)) cs)"
  by (induction cs arbitrary: n) auto

lemma node_put_facts:
  assumes "node_inv s" "node_put sha1 fuel env call ttl i a now k v s = Some (n, s')"
  shows "node_inv s' \<and> n \<le> 1 + K \<and>
    (\<exists>cs rt h. lookup_nodes fuel env (node_net i a) (from_key sha1 k) (nd_table s) = Some (cs, rt, h) \<and>
      n = 1 + length (filter (\<lambda>c. ct_addr c \<noteq> a \<and> ct_id c \<noteq> i \<and> call c = Some (StoreAck True)) cs)) \<and>
    (length v \<le> MAX_STORAGE_BYTES \<longrightarrow>
      (\<forall>t. t - now \<le> secs ttl \<longrightarrow> storage_get t (from_key sha1 k) (nd_storage s') = Some v)) \<and>
    (MAX_STORAGE_BYTES < length v \<longrightarrow> nd_storage s' = nd_storage s)"
proof -
  obtain cs rt h where l: "lookup_nodes fuel env (node_net i a) (from_key sha1 k) (nd_table s) = Some (cs, rt, h)"
    "n = (if cs = [] then 1 else replicate_to i a call cs 1)"
    "s' = \<lparr>nd_table = rt, nd_storage = storage_put now (from_key sha1 k) v (secs ttl) (nd_storage s)\<rparr>"
    using assms(2) by (auto simp: node_put_def Let_def split: option.splits)
  have r: "rt_inv rt" "length cs \<le> K"
    using lookup_nodes_result [OF _ l(1)] assms(1) by (auto simp: node_inv_def)
  have n: "n = 1 + length (filter (\<lambda>c. ct_addr c \<noteq> a \<and> ct_id c \<noteq> i \<and> call c = Some (StoreAck True)) cs)"
    using l(2) by (simp add: replicate_to_count)
  then have "n \<le> 1 + K" using r(2) le_trans [OF length_filter_le r(2)] by simp
  moreover have "length v \<le> MAX_STORAGE_BYTES \<Longrightarrow> t - now \<le> secs ttl \<Longrightarrow> storage_get t (from_key sha1 k) (nd_storage s') = Some v" for t
    by (simp add: l(3) storage_get_def storage_put_def Let_def record_new_def record_is_expired_def)
  moreover have "MAX_STORAGE_BYTES < length v \<Longrightarrow> nd_storage s' = nd_storage s"
    by (simp add: l(3) storage_put_def)
  ultimately show ?thesis using assms(1) l(1,3) r n by (auto simp: node_inv_def storage_put_inv)
qed
lemma node_put_terminates:
  assumes "node_inv s" "finite U" "rt_ids (nd_table s) \<subseteq> U" "reply_ids_within U env" "card U < fuel"
  shows "\<exists>r. node_put sha1 fuel env call ttl i a now k v s = Some r"
proof -
  have "rt_inv (nd_table s)" using assms(1) by (simp add: node_inv_def)
  from lookup_nodes_terminates [OF this assms(2-5)]
  obtain r where "lookup_nodes fuel env (node_net i a) (from_key sha1 k) (nd_table s) = Some r" by blast
  then show ?thesis by (cases r) (simp add: node_put_def)
qed

lemma node_get_after_put:
  assumes "node_inv s" "node_put sha1 fuel env call ttl i a now k v s = Some (n, s')" "length v \<le> MAX_STORAGE_BYTES"
    "t - now \<le> secs ttl"
  shows "node_get sha1 fuel' env' ttl' i a t k s' = Some (Some (v, a), s')"
  using node_put_facts [OF assms(1,2)] assms(3,4) by (simp add: node_get_def)

lemma node_get_facts:
  assumes "node_inv s" "node_get sha1 fuel env ttl i a now k s = Some (r, s')"
  shows "node_inv s' \<and> (case r of
      None \<Rightarrow> storage_get now (from_key sha1 k) (nd_storage s) = None \<and> nd_storage s' = nd_storage s
    | Some (v, from) \<Rightarrow>
        (storage_get now (from_key sha1 k) (nd_storage s) = Some v \<and> from = a \<and> s' = s) \<or>
        (\<exists>c h q cs. from = ct_addr c \<and> (c, Inr (FindValueResp (Some v) cs)) \<in> set (env h q)))"
proof (cases "storage_get now (from_key sha1 k) (nd_storage s)")
  case (Some v)
  then show ?thesis using assms by (auto simp: node_get_def)
next
  case None
  obtain lr rt where l: "lookup_value fuel env (node_net i a) (from_key sha1 k) (nd_table s) = Some (lr, rt)"
    using assms(2) None
    by (cases "lookup_value fuel env (node_net i a) (from_key sha1 k) (nd_table s)") (auto simp: node_get_def Let_def)
  have i: "rt_inv (nd_table s)" "storage_inv (nd_storage s)" using assms(1) by (simp_all add: node_inv_def)
  note inv = lookup_value_inv [OF i(1) l]
  show ?thesis
  proof (cases lr)
    case (Found v c)
    have "\<exists>h q cs. (c, Inr (FindValueResp (Some v) cs)) \<in> set (env h q)"
      using lookup_value_result [OF i(1) l] Found by simp
    moreover have "r = Some (v, ct_addr c)"
      "s' = \<lparr>nd_table = rt, nd_storage = storage_put now (from_key sha1 k) v (secs ttl) (nd_storage s)\<rparr>"
      using assms(2) None l Found by (simp_all add: node_get_def)
    ultimately show ?thesis using inv i(2) by (auto simp: node_inv_def storage_put_inv)
  next
    case (ClosestNodes cs)
    then show ?thesis using assms(2) None l inv i(2) by (auto simp: node_get_def node_inv_def)
  qed
qed

lemma node_bootstrap_facts:
  assumes "node_inv s" "node_bootstrap fuel env ping i a now boot s = Some (r, s')"
  shows "node_inv s' \<and> nd_storage s' = nd_storage s \<and> (r = None \<longleftrightarrow> (\<exists>m. ping = Inr m)) \<and>
    (r \<noteq> None \<longrightarrow> s' = s)"
proof (cases ping)
  case (Inr reply)
  obtain cs rt h where "lookup_nodes fuel env (node_net i a) i
      (snd (rt_update (contact_new now (rm_sender_id reply) boot) (nd_table s))) = Some (cs, rt, h)"
    "s' = s\<lparr>nd_table := rt\<rparr>" "r = None"
    using assms(2) Inr by (auto simp: node_bootstrap_def Let_def split: option.splits)
  then show ?thesis using assms(1) Inr lookup_nodes_result [OF rt_update_inv] by (auto simp: node_inv_def)
qed (use assms in \<open>auto simp: node_bootstrap_def\<close>)

lemma init_table_inv: "rt_inv t \<Longrightarrow> rt_inv (fold (\<lambda>c t. snd (rt_update c t)) cs t)"
  by (induction cs arbitrary: t) (auto intro: rt_update_inv)

lemma init_node_inv: "node_inv (init_node i restored)"
  by (simp add: init_node_def node_inv_def init_table_inv rt_inv_new)

lemma maintenance_tick_facts:
  assumes "storage_inv s" "maintenance_tick now nodes s = (sent, s')"
  shows "storage_inv s' \<and> (\<forall>k. storage_get now k s' = storage_get now k s) \<and>
    (\<forall>c p. (c, p) \<in> set sent \<longrightarrow> (\<exists>k v. p = Store k v \<and> c \<in> set (nodes k) \<and> storage_get now k s = Some v))"
proof -
  define s1 where "s1 = snd (storage_cleanup_stale now s)"
  obtain d s2 where d: "keys_to_republish now s1 = (d, s2)" by force
  have s': "s' = s2" "sent = concat (map (\<lambda>(k, v). map (\<lambda>c. (c, Store k v)) (nodes k)) d)"
    using assms(2) d by (simp_all add: maintenance_tick_def Let_def flip: s1_def)
  have i1: "storage_inv s1" using assms(1) by (simp add: s1_def storage_cleanup_inv)
  then have "storage_inv s2" using republish_inv [of s1 now] d by simp
  moreover have get: "storage_get now k s2 = storage_get now k s" for k
    using republish_get [of now k now s1] d get_cleanup [OF assms(1), of now k] by (simp add: s1_def)
  moreover have "storage_get now k s = Some v" if kv: "(k, v) \<in> set d" for k v
  proof -
    obtain r where r: "(k, r) \<in> set (sto_data s1)" "due now r" "v = dr_value r"
      using kv d by (auto simp: keys_to_republish_def)
    then have "map_of (sto_data s1) k = Some r" using i1 by (simp add: storage_inv_def keys_distinct_def)
    then show ?thesis using r get_cleanup [OF assms(1), of now k]
      by (simp add: storage_get_def due_def flip: s1_def)
  qed
  ultimately show ?thesis using s' by auto
qed

end
