(* ===== verification/Net_Startup.thy ===== *)
theory Net_Startup
  imports Rpc_Network Lookup "HOL-Library.Char_ord"
begin

text \<open>
  How a node gets onto the network: binding a port (\<open>port_manager.rs\<close> and
  \<open>NetworkManager::bind_auto\<close>), contacting the bootstrap nodes (\<open>bootstrap.rs\<close>), the reconnection
  supervisor (\<open>reconnect.rs\<close>) and hole punching (\<open>hole_punch.rs\<close>). The outcome of every bind, call
  and receive is an argument. The lemmas say which ports are tried, what a bootstrap reports and leaves
  behind, and that a verified endpoint has answered the probe of this run.
\<close>

section \<open>Binding a port\<close>

text \<open>\<open>UdpSocket::bind\<close> and \<open>local_addr\<close>; error texts are strings.\<close>

datatype bind_outcome = Bound socket_addr | BoundNoAddr string | BindFailed string

datatype bind_error = LocalAddrFailed string | NoPortBound u16 string

definition saturating_add16 :: "u16 \<Rightarrow> nat \<Rightarrow> u16" where
  "saturating_add16 p n = (if unat p + n \<le> 65535 then p + of_nat n else - 1)"

text \<open>\<open>bind k p\<close> is the outcome of the \<open>k\<close>-th bind, to port \<open>p\<close>. The loop ends with a result or with the text of
  the last error.\<close>

fun pm_try :: "(nat \<Rightarrow> u16 \<Rightarrow> bind_outcome) \<Rightarrow> u16 \<Rightarrow> nat list \<Rightarrow> string \<Rightarrow> (bind_error + socket_addr) + string" where
  "pm_try bind preferred [] last_err = Inr last_err"
| "pm_try bind preferred (off # offs) last_err = (case bind off (saturating_add16 preferred off) of
      Bound a \<Rightarrow> Inl (Ok a)
    | BoundNoAddr e \<Rightarrow> Inl (Err (LocalAddrFailed e))
    | BindFailed e \<Rightarrow> pm_try bind preferred offs e)"

definition pm_bind_auto :: "(nat \<Rightarrow> u16 \<Rightarrow> bind_outcome) \<Rightarrow> u16 \<Rightarrow> u16 \<Rightarrow> bind_error + socket_addr" where
  "pm_bind_auto bind preferred max_attempts =
     (case pm_try bind preferred [0..<unat max_attempts] [] of
        Inl r \<Rightarrow> r
      | Inr last_err \<Rightarrow> (case bind (unat max_attempts) 0 of
            Bound a \<Rightarrow> Ok a
          | BoundNoAddr e \<Rightarrow> Err (LocalAddrFailed e)
          | BindFailed e \<Rightarrow> Err (NoPortBound max_attempts (max last_err e))))"

text \<open>\<open>NetworkManager::bind_auto\<close>: \<open>parse p\<close> is the parsed text of the address with port \<open>p\<close>; the port
  wraps around; the error is the last one, if any bind was tried.\<close>

fun nm_try :: "(nat \<Rightarrow> socket_addr \<Rightarrow> string + socket_addr) \<Rightarrow> (u16 \<Rightarrow> socket_addr option) \<Rightarrow> u16 \<Rightarrow> nat list \<Rightarrow>
    string option \<Rightarrow> string option + socket_addr" where
  "nm_try bind parse base [] last_err = Inl last_err"
| "nm_try bind parse base (off # offs) last_err = (case parse (base + of_nat off) of
      None \<Rightarrow> nm_try bind parse base offs last_err
    | Some a \<Rightarrow> (case bind off a of
          Inr local_addr \<Rightarrow> Inr local_addr
        | Inl e \<Rightarrow> nm_try bind parse base offs (Some e)))"

definition nm_bind_auto :: "(nat \<Rightarrow> socket_addr \<Rightarrow> string + socket_addr) \<Rightarrow> (u16 \<Rightarrow> socket_addr option) \<Rightarrow> u16 \<Rightarrow> u16 \<Rightarrow>
    string option + socket_addr" where
  "nm_bind_auto bind parse base max_attempts = nm_try bind parse base [0..<unat max_attempts] None"

section \<open>Bootstrap\<close>

record signed_bootstrap_list =
  sb_version :: u32
  sb_expires_at :: u64
  sb_nodes :: "string list"
  sb_signature_hex :: string

definition bootstrap_list_valid :: "u64 \<Rightarrow> signed_bootstrap_list \<Rightarrow> bool" where
  "bootstrap_list_valid current_time l \<longleftrightarrow> sb_nodes l \<noteq> [] \<and> sb_expires_at l > current_time"

text \<open>Milliseconds of sleep are collected; \<open>call a k\<close> is the result of the \<open>k\<close>-th attempt at \<open>a\<close>.\<close>

fun bootstrap_attempts :: "(nat \<Rightarrow> call_error + rpc_message) \<Rightarrow> nat list \<Rightarrow> nat \<Rightarrow> nat list \<Rightarrow> rpc_message option \<times> nat list" where
  "bootstrap_attempts call [] backoff slept = (None, slept)"
| "bootstrap_attempts call (k # ks) backoff slept = (case call k of
      Inr reply \<Rightarrow> (Some reply, slept)
    | Inl _ \<Rightarrow> bootstrap_attempts call ks (min (backoff * 2) 3000) (slept @ [backoff]))"

text \<open>The loop over the addresses, with the table and the count of connected nodes; \<open>now a\<close> is the time at
  which the node at \<open>a\<close> answered.\<close>

fun bootstrap_all :: "(socket_addr \<Rightarrow> instant) \<Rightarrow> (socket_addr \<Rightarrow> nat \<Rightarrow> call_error + rpc_message) \<Rightarrow> socket_addr list \<Rightarrow>
    routing_table \<times> nat \<Rightarrow> routing_table \<times> nat" where
  "bootstrap_all now call [] st = st"
| "bootstrap_all now call (a # as) (rt, n) = bootstrap_all now call as
     (case fst (bootstrap_attempts (call a) [1, 2, 3] 200 []) of
        Some reply \<Rightarrow> (snd (rt_update (contact_new (now a) (rm_sender_id reply) a) rt), n + 1)
      | None \<Rightarrow> (rt, n))"

text \<open>The result is the count or an error, then the table and the health; \<open>None\<close> when the fuel of the lookup
  runs out.\<close>

definition run_bootstrap ::
    "nat \<Rightarrow> (nat \<Rightarrow> contact list \<Rightarrow> call_result list) \<Rightarrow> (socket_addr \<Rightarrow> instant) \<Rightarrow>
     (socket_addr \<Rightarrow> nat \<Rightarrow> call_error + rpc_message) \<Rightarrow> lookup_net \<Rightarrow> socket_addr list \<Rightarrow>
     routing_table \<times> health_tracker \<Rightarrow> (nat option \<times> routing_table \<times> health_tracker) option" where
  "run_bootstrap fuel env now call net addrs st = (case st of (rt, h) \<Rightarrow>
     (if addrs = [] then Some (Some 0, rt, health_set Online h)
      else (let h = health_set Connecting h; (rt, n) = bootstrap_all now call addrs (rt, 0) in
        if n > 0 then
          (let h = health_set SearchingPeers h in
           case lookup_nodes fuel env net (ln_local_id net) rt of
             None \<Rightarrow> None
           | Some (discovered, rt, hops) \<Rightarrow> Some (Some n, rt, health_set Online h))
        else Some (None, rt, health_set Degraded h))))"

text \<open>\<open>broadcast_lan_discovery\<close>: the datagram that is broadcast.\<close>

definition LAN_DISCOVERY_MAGIC :: string where
  "LAN_DISCOVERY_MAGIC = ''NODEX_LAN_DISCOVERY_V1''"

definition lan_discovery_payload :: "u16 \<Rightarrow> bytes" where
  "lan_discovery_payload port = map of_char LAN_DISCOVERY_MAGIC @ be_bytes 2 port"

section \<open>Reconnection\<close>

text \<open>One tick of the supervisor.\<close>

definition reconnect_tick ::
    "nat \<Rightarrow> (nat \<Rightarrow> contact list \<Rightarrow> call_result list) \<Rightarrow> (socket_addr \<Rightarrow> instant) \<Rightarrow>
     (socket_addr \<Rightarrow> nat \<Rightarrow> call_error + rpc_message) \<Rightarrow> lookup_net \<Rightarrow> socket_addr list \<Rightarrow>
     routing_table \<times> health_tracker \<Rightarrow> (routing_table \<times> health_tracker) option" where
  "reconnect_tick fuel env now call net addrs st = (case st of (rt, h) \<Rightarrow>
     (let peer_count = total_contacts rt in
      if peer_count = 0 \<and> addrs \<noteq> [] then
        map_option snd (run_bootstrap fuel env now call net addrs (rt, health_set Connecting h))
      else if peer_count > 0 then Some (rt, health_set Online h)
      else Some (rt, h)))"

section \<open>Hole punching\<close>

definition HP_PROBE :: bytes where "HP_PROBE = map of_char ''NODEXHP1''"
definition HP_ACK :: bytes where "HP_ACK = map of_char ''NODEXACK''"

text \<open>The response to a probe, if there is one; \<open>sent\<close> says whether sending it works.\<close>

definition respond_to_probe :: "bytes \<Rightarrow> bytes option" where
  "respond_to_probe packet =
     (if length packet \<noteq> 24 \<or> take 8 packet \<noteq> HP_PROBE then None else Some (HP_ACK @ drop 8 packet))"

definition respond_result :: "bool \<Rightarrow> bytes \<Rightarrow> bool" where
  "respond_result sent packet \<longleftrightarrow> respond_to_probe packet \<noteq> None \<and> sent"

definition hp_probe :: "bytes \<Rightarrow> bytes" where
  "hp_probe nonce = HP_PROBE @ nonce"

text \<open>The receive loop of \<open>punch_candidates_verified\<close>: datagrams of at most 64 bytes, with their source, up
  to the first timeout.\<close>

fun verify_acks :: "bytes \<Rightarrow> socket_addr list \<Rightarrow> (bytes \<times> socket_addr) list \<Rightarrow> socket_addr list \<Rightarrow> socket_addr list" where
  "verify_acks nonce candidates [] verified = verified"
| "verify_acks nonce candidates ((d, from) # rs) verified = verify_acks nonce candidates rs
     (if length d = 24 \<and> take 8 d = HP_ACK \<and> take 16 (drop 8 d) = nonce \<and> from \<in> set candidates \<and> from \<notin> set verified
      then verified @ [from] else verified)"

definition punch_candidates_verified :: "bytes \<Rightarrow> socket_addr list \<Rightarrow> (bytes \<times> socket_addr) list \<Rightarrow>
    (bytes \<times> socket_addr) list \<times> socket_addr list" where
  "punch_candidates_verified nonce candidates received =
     (concat (map (\<lambda>a. replicate 3 (hp_probe nonce, a)) candidates), verify_acks nonce candidates received [])"

text \<open>\<open>punch_candidates\<close>: three sends to every candidate, \<open>send_ok a k\<close> is the outcome of the \<open>k\<close>-th.\<close>

fun punch_burst :: "(nat \<Rightarrow> bool) \<Rightarrow> socket_addr \<Rightarrow> nat list \<Rightarrow> socket_addr list \<Rightarrow> socket_addr list" where
  "punch_burst send_ok a [] ok = ok"
| "punch_burst send_ok a (k # ks) ok = punch_burst send_ok a ks (if send_ok k \<and> a \<notin> set ok then ok @ [a] else ok)"

fun punch_candidates :: "(socket_addr \<Rightarrow> nat \<Rightarrow> bool) \<Rightarrow> socket_addr list \<Rightarrow> socket_addr list \<Rightarrow> socket_addr list" where
  "punch_candidates send_ok [] ok = ok"
| "punch_candidates send_ok (a # as) ok = punch_candidates send_ok as (punch_burst (send_ok a) a [0, 1, 2] ok)"

section \<open>Which ports are tried\<close>

lemma pm_try_facts:
  "pm_try bind p offs le = Inl r \<Longrightarrow> \<exists>pre off post. offs = pre @ off # post \<and>
     (\<forall>o' \<in> set pre. \<exists>e. bind o' (saturating_add16 p o') = BindFailed e) \<and>
     (case r of Inr a \<Rightarrow> bind off (saturating_add16 p off) = Bound a
      | Inl x \<Rightarrow> \<exists>e. bind off (saturating_add16 p off) = BoundNoAddr e \<and> x = LocalAddrFailed e)"
  "pm_try bind p offs le = Inr le' \<Longrightarrow> \<forall>off \<in> set offs. \<exists>e. bind off (saturating_add16 p off) = BindFailed e"
proof (induction offs arbitrary: le)
  case (Cons off offs)
  {
    case 1
    show ?case
    proof (cases "bind off (saturating_add16 p off)")
      case (BindFailed e)
      then have "pm_try bind p offs e = Inl r" using 1 by simp
      from Cons.IH(1) [OF this] obtain pre o' post where "offs = pre @ o' # post"
        "\<forall>x \<in> set pre. \<exists>e. bind x (saturating_add16 p x) = BindFailed e"
        "case r of Inr a \<Rightarrow> bind o' (saturating_add16 p o') = Bound a
          | Inl x \<Rightarrow> \<exists>e. bind o' (saturating_add16 p o') = BoundNoAddr e \<and> x = LocalAddrFailed e" by blast
      then show ?thesis using BindFailed by (intro exI [of _ "off # pre"] exI [of _ o'] exI [of _ post]) simp
    qed (use 1 in \<open>auto intro!: exI [of _ "[]"]\<close>)
  next
    case 2
    then show ?case using Cons.IH(2) by (auto split: bind_outcome.splits)
  }
qed simp_all

text \<open>A port that is bound was bound in order: every earlier port of the range failed, and the port 0 is
  asked for only when the range is exhausted.\<close>

lemma pm_bind_auto_ok:
  assumes "pm_bind_auto bind p n = Ok a"
  shows "(\<exists>off < unat n. bind off (saturating_add16 p off) = Bound a \<and>
      (\<forall>o' < off. \<exists>e. bind o' (saturating_add16 p o') = BindFailed e)) \<or>
    (bind (unat n) 0 = Bound a \<and> (\<forall>o' < unat n. \<exists>e. bind o' (saturating_add16 p o') = BindFailed e))"
proof (cases "pm_try bind p [0..<unat n] []")
  case (Inl r)
  then have r: "r = Ok a" using assms by (simp add: pm_bind_auto_def)
  from pm_try_facts(1) [OF Inl] obtain pre off post where o: "[0..<unat n] = pre @ off # post"
    "\<forall>o' \<in> set pre. \<exists>e. bind o' (saturating_add16 p o') = BindFailed e" "bind off (saturating_add16 p off) = Bound a"
    unfolding r by auto
  have "off < unat n" using o(1) by (metis atLeastLessThan_iff in_set_conv_decomp set_upt)
  moreover have "pre = [0..<off]"
  proof -
    have l: "length pre < unat n" using arg_cong [OF o(1), of length] by simp
    have "off = length pre" using arg_cong [OF o(1), of "\<lambda>l. l ! length pre"] l by simp
    then show ?thesis using arg_cong [OF o(1), of "take (length pre)"] l by simp
  qed
  ultimately show ?thesis using o by auto
next
  case (Inr le)
  then show ?thesis using assms pm_try_facts(2) [OF Inr] by (auto simp: pm_bind_auto_def split: bind_outcome.splits)
qed

text \<open>The range of the port manager does not wrap; that of the network manager does and reaches the port 0,
  which binds a port of the system's choice.\<close>

lemma saturating_mono: "unat p \<le> unat (saturating_add16 p n)"
proof (cases "unat p + n \<le> 65535")
  case True
  then have "unat (p + of_nat n) = unat p + n"
    by (simp add: unat_word_ariths unat_of_nat take_bit_nat_eq_self)
  then show ?thesis using True by (simp add: saturating_add16_def)
next
  case False
  have "unat (- 1 :: u16) = 65535" by (simp add: unsigned_minus_1_eq_mask mask_eq_exp_minus_1)
  then show ?thesis using False unat_u16_less [of p] by (simp add: saturating_add16_def)
qed

lemma nm_bind_auto_wraps:
  assumes "parse 65535 = Some a" "bind 0 a = Inl e" "parse 0 = Some b" "bind 1 b = Inr c" "2 \<le> unat n"
  shows "nm_bind_auto bind parse 65535 n = Inr c"
proof -
  have "[0..<unat n] = 0 # 1 # [2..<unat n]" using assms(5) by (simp add: upt_conv_Cons numeral_2_eq_2)
  moreover have z: "(65536 :: u16) = 0" by simp
  moreover have "parse 65536 = Some b" using arg_cong [OF z, of parse] assms(3) by simp
  ultimately show ?thesis using assms(1-4) by (simp add: nm_bind_auto_def)
qed

section \<open>What a bootstrap leaves behind\<close>

lemma bootstrap_attempts_3:
  "bootstrap_attempts call [1, 2, 3] 200 [] =
    (case call 1 of Inr m \<Rightarrow> (Some m, []) | Inl _ \<Rightarrow> (case call 2 of Inr m \<Rightarrow> (Some m, [200])
      | Inl _ \<Rightarrow> (case call 3 of Inr m \<Rightarrow> (Some m, [200, 400]) | Inl _ \<Rightarrow> (None, [200, 400, 800]))))"
  by (simp split: sum.split)

definition reachable :: "(socket_addr \<Rightarrow> nat \<Rightarrow> call_error + rpc_message) \<Rightarrow> socket_addr \<Rightarrow> bool" where
  "reachable call a \<longleftrightarrow> (\<exists>k \<in> {1, 2, 3}. \<exists>m. call a k = Inr m)"

lemma reachable_iff: "fst (bootstrap_attempts (call a) [1, 2, 3] 200 []) \<noteq> None \<longleftrightarrow> reachable call a"
  unfolding reachable_def bootstrap_attempts_3 by (auto split: sum.splits)

lemma bootstrap_all_facts:
  assumes "bootstrap_all now call as (rt, n) = (rt', n')" "rt_inv rt"
  shows "rt_inv rt' \<and> n' = n + length (filter (reachable call) as) \<and> (filter (reachable call) as = [] \<longrightarrow> rt' = rt)"
  using assms
proof (induction now call as "(rt, n)" arbitrary: rt n rule: bootstrap_all.induct)
  case (2 now call a as rt n)
  show ?case
  proof (cases "fst (bootstrap_attempts (call a) [1, 2, 3] 200 [])")
    case None
    then have "\<not> reachable call a" using reachable_iff [of call a] by simp
    then show ?thesis using 2 None by simp
  next
    case (Some reply)
    then have "reachable call a" using reachable_iff [of call a] by simp
    then show ?thesis
      using "2.hyps" [of "snd (rt_update (contact_new (now a) (rm_sender_id reply) a) rt)" "n + 1"] "2.prems" Some
      by (auto simp: rt_update_inv)
  qed
qed simp

text \<open>A bootstrap reports the number of addresses that answered, is an error exactly when there were
  addresses and none answered, and the health says which.\<close>

lemma run_bootstrap_facts:
  assumes "rt_inv rt" "run_bootstrap fuel env now call net addrs (rt, h) = Some (r, rt', h')"
  shows "rt_inv rt' \<and> (r = None \<longleftrightarrow> addrs \<noteq> [] \<and> filter (reachable call) addrs = []) \<and>
    (\<forall>n. r = Some n \<longrightarrow> n = length (filter (reachable call) addrs)) \<and>
    health_get h' = (if r = None then Degraded else Online) \<and> (filter (reachable call) addrs = [] \<longrightarrow> rt' = rt)"
proof (cases "addrs = []")
  case True
  then show ?thesis using assms by (auto simp: run_bootstrap_def)
next
  case False
  obtain rt1 n where b: "bootstrap_all now call addrs (rt, 0) = (rt1, n)" by force
  note f = bootstrap_all_facts [OF b assms(1)]
  show ?thesis
  proof (cases "n = 0")
    case True
    then show ?thesis using assms(2) False b f by (auto simp: run_bootstrap_def Let_def)
  next
    case n: False
    then obtain cs rt2 hops where l: "lookup_nodes fuel env net (ln_local_id net) rt1 = Some (cs, rt2, hops)"
      "r = Some n" "rt' = rt2" "h' = health_set Online (health_set SearchingPeers (health_set Connecting h))"
      using assms(2) False b by (auto simp: run_bootstrap_def Let_def split: option.splits)
    then show ?thesis using lookup_nodes_result [OF _ l(1)] f n by auto
  qed
qed

lemma run_bootstrap_terminates:
  assumes "rt_inv rt" "finite U" "rt_ids (fst (bootstrap_all now call addrs (rt, 0))) \<subseteq> U" "reply_ids_within U env"
    "card U < fuel"
  shows "\<exists>r. run_bootstrap fuel env now call net addrs (rt, h) = Some r"
proof -
  obtain rt1 n where b: "bootstrap_all now call addrs (rt, 0) = (rt1, n)" by force
  have "rt_inv rt1" using bootstrap_all_facts [OF b assms(1)] by simp
  from lookup_nodes_terminates [OF this assms(2) _ assms(4,5)] obtain l
    where "lookup_nodes fuel env net (ln_local_id net) rt1 = Some l" using assms(3) b by (metis fst_conv)
  then show ?thesis using b by (cases l) (simp add: run_bootstrap_def Let_def)
qed

text \<open>A tick of the supervisor leaves a node with peers online and, when it has bootstrap addresses, one
  without peers online or degraded.\<close>

lemma reconnect_tick_facts:
  assumes "rt_inv rt" "reconnect_tick fuel env now call net addrs (rt, h) = Some (rt', h')"
  shows "rt_inv rt' \<and> (total_contacts rt > 0 \<longrightarrow> rt' = rt \<and> health_get h' = Online) \<and>
    (total_contacts rt = 0 \<and> addrs \<noteq> [] \<longrightarrow>
      health_get h' = (if filter (reachable call) addrs = [] then Degraded else Online)) \<and>
    (total_contacts rt = 0 \<and> addrs = [] \<longrightarrow> rt' = rt \<and> h' = h)"
proof (cases "total_contacts rt = 0 \<and> addrs \<noteq> []")
  case True
  then obtain r where "run_bootstrap fuel env now call net addrs (rt, health_set Connecting h) = Some (r, rt', h')"
    using assms(2) by (auto simp: reconnect_tick_def)
  from run_bootstrap_facts [OF assms(1) this] True show ?thesis by auto
next
  case False
  then show ?thesis using assms by (auto simp: reconnect_tick_def Let_def split: if_splits)
qed

section \<open>Verified endpoints\<close>

lemma hp_lengths [simp]: "length HP_PROBE = 8" "length HP_ACK = 8" "HP_PROBE \<noteq> HP_ACK" "HP_ACK \<noteq> HP_PROBE"
  by (simp_all add: HP_PROBE_def HP_ACK_def)

text \<open>The answer to a probe is an acknowledgement with its nonce; nothing but a probe is answered, so an
  acknowledgement is not, and two nodes do not answer each other for ever.\<close>

lemma respond_probe:
  "length nonce = 16 \<Longrightarrow> respond_to_probe (hp_probe nonce) = Some (HP_ACK @ nonce)"
  "respond_to_probe p = Some r \<Longrightarrow> respond_to_probe r = None"
  "respond_to_probe p = Some r \<Longrightarrow> length r = 24"
  by (auto simp: respond_to_probe_def hp_probe_def split: if_splits)

lemma verify_acks_facts:
  assumes "length nonce = 16"
  shows "set (verify_acks nonce cs rs v) =
      set v \<union> {a. a \<in> set cs \<and> (HP_ACK @ nonce, a) \<in> set rs}"
    and "distinct v \<Longrightarrow> distinct (verify_acks nonce cs rs v)"
proof -
  have ack: "length d = 24 \<and> take 8 d = HP_ACK \<and> take 16 (drop 8 d) = nonce \<longleftrightarrow> d = HP_ACK @ nonce" for d :: bytes
  proof
    assume d: "length d = 24 \<and> take 8 d = HP_ACK \<and> take 16 (drop 8 d) = nonce"
    have "length (drop 8 d) \<le> 16" using d by simp
    then have "take 16 (drop 8 d) = drop 8 d" by (rule take_all)
    then show "d = HP_ACK @ nonce" using d by (metis append_take_drop_id)
  qed (use assms in simp)
  show "set (verify_acks nonce cs rs v) = set v \<union> {a. a \<in> set cs \<and> (HP_ACK @ nonce, a) \<in> set rs}"
  proof (induction rs arbitrary: v)
    case (Cons x rs)
    obtain d src where x: "x = (d, src)" by force
    show ?case unfolding x verify_acks.simps Cons.IH
      using ack [of d] by (cases "d = HP_ACK @ nonce") auto
  qed simp
  show "distinct v \<Longrightarrow> distinct (verify_acks nonce cs rs v)"
    by (induction nonce cs rs v rule: verify_acks.induct) auto
qed

lemma punch_candidates_facts:
  "set (punch_candidates send_ok as ok) = set ok \<union> {a \<in> set as. \<exists>k < 3. send_ok a k}"
  "distinct ok \<Longrightarrow> distinct (punch_candidates send_ok as ok)"
proof -
  have b: "set (punch_burst f a ks ok) = set ok \<union> (if \<exists>k \<in> set ks. f k then {a} else {})" for f a ks ok
    by (induction f a ks ok rule: punch_burst.induct) auto
  have three: "(\<exists>k < (3 :: nat). P k) \<longleftrightarrow> P 0 \<or> P (Suc 0) \<or> P 2" for P
    by (auto simp: numeral_3_eq_3 less_Suc_eq numeral_2_eq_2)
  show "set (punch_candidates send_ok as ok) = set ok \<union> {a \<in> set as. \<exists>k < 3. send_ok a k}"
    by (induction as arbitrary: ok) (auto simp: b three simp del: punch_burst.simps)
  have d: "distinct ok \<Longrightarrow> distinct (punch_burst f a ks ok)" for f a ks ok
    by (induction f a ks ok rule: punch_burst.induct) auto
  show "distinct ok \<Longrightarrow> distinct (punch_candidates send_ok as ok)"
    by (induction as arbitrary: ok) (auto simp: d simp del: punch_burst.simps)
qed

end
