(* ===== verification/Relay.thy ===== *)
theory Relay
  imports Kad_Storage
begin

text \<open>
  The opt-in relay of \<open>relay_client.rs\<close>: session requests, forwarding with its rate limit, the blacklist and the
  traffic counter. The lemmas show the limits (sessions, packets of one peer in a second), that only the
  registered sender is served, and two things the code does not do: no recipient is ever entered into a
  session, so nothing is forwarded anywhere, and the quota does not stop a running session.
\<close>

section \<open>State\<close>

abbreviation MAX_RELAY_SESSIONS :: nat where "MAX_RELAY_SESSIONS \<equiv> 10"
abbreviation MAX_PACKETS_PER_SEC :: u32 where "MAX_PACKETS_PER_SEC \<equiv> 20"
abbreviation MAX_RELAY_PACKET_SIZE :: nat where "MAX_RELAY_PACKET_SIZE \<equiv> 1200"

type_synonym session_id = bytes

record relay_request =
  rq_session_id :: session_id
  rq_sender :: string
  rq_recipient :: string
  rq_created_at :: u64
  rq_expires_at :: u64
  rq_signature :: string

record relay_packet =
  rp_session_id :: session_id
  rp_sender :: string
  rp_payload :: bytes

record relay_config =
  rc_enabled :: bool
  rc_max_sessions :: nat
  rc_daily_limit :: u64

record rate_tracker =
  rt_last_reset :: instant
  rt_packets :: u32

record relay_session =
  as_sender_addr :: socket_addr
  as_recipient_addr :: "socket_addr option"
  as_sender_id :: string
  as_recipient_id :: string
  as_created_at :: instant

record relay_service =
  rs_config :: relay_config
  rs_sessions :: "(session_id \<times> relay_session) list"
  rs_raters :: "(socket_addr \<times> rate_tracker) list"
  rs_blacklist :: "string list"
  rs_bytes :: u64

datatype relay_error = RelayDisabled | RequestExpired | PeerBlacklisted | QuotaReached | CapacityFull
  | PacketTooLarge | RateLimited | UnauthorizedSender | SessionNotFound

definition relay_new :: "relay_config \<Rightarrow> relay_service" where
  "relay_new c = \<lparr>rs_config = c, rs_sessions = [], rs_raters = [], rs_blacklist = [], rs_bytes = 0\<rparr>"

definition relay_is_enabled :: "relay_service \<Rightarrow> bool" where
  "relay_is_enabled s = rc_enabled (rs_config s)"

definition daily_traffic_used :: "relay_service \<Rightarrow> u64" where
  "daily_traffic_used s = rs_bytes s"

definition blacklist_peer :: "string \<Rightarrow> relay_service \<Rightarrow> relay_service" where
  "blacklist_peer u s = s\<lparr>rs_blacklist := List.insert u (rs_blacklist s)\<rparr>"

section \<open>Operations\<close>

definition handle_session_request ::
    "instant \<Rightarrow> relay_request \<Rightarrow> socket_addr \<Rightarrow> u64 \<Rightarrow> relay_service \<Rightarrow> (relay_error + bool) \<times> relay_service" where
  "handle_session_request now r src current s =
     (if \<not> rc_enabled (rs_config s) then (Err RelayDisabled, s)
      else if rq_expires_at r \<le> current then (Err RequestExpired, s)
      else if rq_sender r \<in> set (rs_blacklist s) \<or> rq_recipient r \<in> set (rs_blacklist s) then (Err PeerBlacklisted, s)
      else if daily_traffic_used s \<ge> rc_daily_limit (rs_config s) then (Err QuotaReached, s)
      else if length (rs_sessions s) \<ge> min (rc_max_sessions (rs_config s)) MAX_RELAY_SESSIONS then (Err CapacityFull, s)
      else (Ok True, s\<lparr>rs_sessions := map_put (rq_session_id r) \<lparr>as_sender_addr = src, as_recipient_addr = None,
              as_sender_id = rq_sender r, as_recipient_id = rq_recipient r, as_created_at = now\<rparr> (rs_sessions s)\<rparr>))"

text \<open>The rate limiter: the tracker of the peer, whether the packet passes.\<close>

definition rate_check :: "instant \<Rightarrow> rate_tracker option \<Rightarrow> bool \<times> rate_tracker" where
  "rate_check now t0 =
     (let t = (case t0 of Some t \<Rightarrow> t | None \<Rightarrow> \<lparr>rt_last_reset = now, rt_packets = 0\<rparr>);
          t = (if now - rt_last_reset t \<ge> secs 1 then \<lparr>rt_last_reset = now, rt_packets = 0\<rparr> else t);
          t = t\<lparr>rt_packets := rt_packets t + 1\<rparr> in
      (\<not> rt_packets t > MAX_PACKETS_PER_SEC, t))"

definition session_target :: "socket_addr \<Rightarrow> session_id \<Rightarrow> relay_service \<Rightarrow> relay_error + socket_addr option" where
  "session_target src sid s = (case map_of (rs_sessions s) sid of
      Some e \<Rightarrow>
        if src = as_sender_addr e then Ok (as_recipient_addr e)
        else if Some src = as_recipient_addr e then Ok (Some (as_sender_addr e))
        else Err UnauthorizedSender
    | None \<Rightarrow> Err SessionNotFound)"

definition forward_packet ::
    "instant \<Rightarrow> relay_packet \<Rightarrow> socket_addr \<Rightarrow> relay_service \<Rightarrow> (relay_error + socket_addr option) \<times> relay_service" where
  "forward_packet now p src s =
     (if \<not> rc_enabled (rs_config s) then (Err RelayDisabled, s)
      else if length (rp_payload p) > MAX_RELAY_PACKET_SIZE then (Err PacketTooLarge, s)
      else (let (pass, t) = rate_check now (map_of (rs_raters s) src);
                s = s\<lparr>rs_raters := map_put src t (rs_raters s)\<rparr> in
        if \<not> pass then (Err RateLimited, s)
        else (case session_target src (rp_session_id p) s of
            Inl e \<Rightarrow> (Err e, s)
          | Inr target \<Rightarrow> (Ok target, s\<lparr>rs_bytes := rs_bytes s + of_nat (length (rp_payload p))\<rparr>))))"

section \<open>Sessions\<close>

definition relay_inv :: "relay_service \<Rightarrow> bool" where
  "relay_inv s \<longleftrightarrow> keys_distinct (rs_sessions s) \<and> keys_distinct (rs_raters s) \<and>
     length (rs_sessions s) \<le> min (rc_max_sessions (rs_config s)) MAX_RELAY_SESSIONS \<and>
     (\<forall>e \<in> set (rs_sessions s). as_recipient_addr (snd e) = None) \<and> distinct (rs_blacklist s)"

datatype relay_op = RelayRequest instant relay_request socket_addr u64 | RelayForward instant relay_packet socket_addr
  | RelayBlacklist string

fun relay_step :: "relay_op \<Rightarrow> relay_service \<Rightarrow> relay_service" where
  "relay_step (RelayRequest now r src t) s = snd (handle_session_request now r src t s)"
| "relay_step (RelayForward now p src) s = snd (forward_packet now p src s)"
| "relay_step (RelayBlacklist u) s = blacklist_peer u s"

lemma forward_frame:
  "rs_sessions (snd (forward_packet now p src s)) = rs_sessions s \<and>
   rs_config (snd (forward_packet now p src s)) = rs_config s \<and>
   rs_blacklist (snd (forward_packet now p src s)) = rs_blacklist s \<and>
   (keys_distinct (rs_raters s) \<longrightarrow> keys_distinct (rs_raters (snd (forward_packet now p src s))))"
  by (auto simp: forward_packet_def Let_def split: prod.split sum.split)

lemma request_inv: "relay_inv s \<Longrightarrow> relay_inv (snd (handle_session_request now r src t s))"
  by (auto simp: relay_inv_def handle_session_request_def length_map_put dest!: set_map_put_subset [THEN subsetD])

lemma blacklist_inv: "relay_inv s \<Longrightarrow> relay_inv (blacklist_peer u s)"
  by (simp add: relay_inv_def blacklist_peer_def)

lemma forward_inv: "relay_inv s \<Longrightarrow> relay_inv (snd (forward_packet now p src s))"
  using forward_frame [of now p src s] by (simp add: relay_inv_def)

interpretation relay_sys: op_system relay_step "\<lambda>_. True" relay_inv
proof
  fix a s assume "relay_inv s"
  then show "relay_inv (relay_step a s)" by (cases a) (simp_all add: request_inv forward_inv blacklist_inv)
qed

lemma relay_inv_new: "relay_inv (relay_new c)"
  by (simp add: relay_inv_def relay_new_def)

text \<open>A packet is accepted only from the registered sender of its session, and it is never forwarded: the
  target is always \<open>None\<close>.\<close>

lemma forward_accepts:
  assumes "relay_inv s" "fst (forward_packet now p src s) = Ok target"
  shows "target = None \<and> rc_enabled (rs_config s) \<and> length (rp_payload p) \<le> MAX_RELAY_PACKET_SIZE \<and>
    (\<exists>e. map_of (rs_sessions s) (rp_session_id p) = Some e \<and> as_sender_addr e = src)"
proof -
  have n: "as_recipient_addr e = None" if "map_of (rs_sessions s) k = Some e" for k e
    using assms(1) map_of_SomeD [OF that] by (fastforce simp: relay_inv_def)
  show ?thesis using assms(2) n
    by (auto simp: forward_packet_def session_target_def Let_def split: if_splits prod.splits sum.splits option.splits)
qed

text \<open>A second request with the same identifier takes the session over, as long as there is room.\<close>

lemma session_taken_over:
  assumes "fst (handle_session_request now r src t s) = Ok b"
    "map_of (rs_sessions s) (rq_session_id r) = Some e" "as_sender_addr e \<noteq> src"
  shows "session_target (as_sender_addr e) (rq_session_id r) (snd (handle_session_request now r src t s)) = Err UnauthorizedSender"
  using assms by (auto simp: handle_session_request_def session_target_def split: if_splits)

text \<open>The quota refuses new sessions, not packets of a running one.\<close>

lemma quota_ignored_by_forward:
  assumes "rc_enabled (rs_config s)" "length (rp_payload p) \<le> MAX_RELAY_PACKET_SIZE"
    "map_of (rs_raters s) src = None" "map_of (rs_sessions s) (rp_session_id p) = Some e" "as_sender_addr e = src"
  shows "fst (forward_packet now p src s) = Ok (as_recipient_addr e)"
    "rs_bytes (snd (forward_packet now p src s)) = rs_bytes s + of_nat (length (rp_payload p))"
  using assms by (simp_all add: forward_packet_def rate_check_def session_target_def Let_def)

section \<open>The rate limit\<close>

text \<open>Packets of any peers one after the other, with their results.\<close>

fun relay_run :: "(instant \<times> relay_packet \<times> socket_addr) list \<Rightarrow> relay_service \<Rightarrow>
    (relay_error + socket_addr option) list \<times> relay_service" where
  "relay_run [] s = ([], s)"
| "relay_run ((now, p, src) # evs) s =
     (let (r, s') = forward_packet now p src s; (rs, s'') = relay_run evs s' in (r # rs, s''))"

definition accepted_from :: "socket_addr \<Rightarrow> (instant \<times> relay_packet \<times> socket_addr) list \<Rightarrow>
    (relay_error + socket_addr option) list \<Rightarrow> nat" where
  "accepted_from src evs rs = length (filter (\<lambda>(ev, r). snd (snd ev) = src \<and> (case r of Inr _ \<Rightarrow> True | Inl _ \<Rightarrow> False)) (zip evs rs))"

lemma accepted_from_simps [simp]:
  "accepted_from src [] rs = 0"
  "accepted_from src ((now, p, a) # evs) (r # rs) =
     (if a = src \<and> (case r of Inr _ \<Rightarrow> True | Inl _ \<Rightarrow> False) then Suc (accepted_from src evs rs) else accepted_from src evs rs)"
  by (simp_all add: accepted_from_def)

lemma rate_check_in_window:
  assumes "now - rt_last_reset t < secs 1"
  shows "rate_check now (Some t) = (\<not> rt_packets t + 1 > MAX_PACKETS_PER_SEC, t\<lparr>rt_packets := rt_packets t + 1\<rparr>)"
  using assms by (simp add: rate_check_def Let_def)

lemma unat_Suc32: "unat (w :: u32) + 1 < 2 ^ 32 \<Longrightarrow> unat (w + 1) = Suc (unat w)"
  by (simp add: unat_word_ariths take_bit_nat_eq_self)

text \<open>One packet: what it does to the tracker of a peer, and when it can be accepted.\<close>

lemma forward_tracker:
  assumes "map_of (rs_raters s) src = Some t" "now - rt_last_reset t < secs 1"
  shows "\<exists>t'. map_of (rs_raters (snd (forward_packet now p a s))) src = Some t' \<and> rt_last_reset t' = rt_last_reset t \<and>
    (t' = t \<or> rt_packets t' = rt_packets t + 1) \<and>
    (a = src \<and> (\<exists>x. fst (forward_packet now p a s) = Inr x) \<longrightarrow>
      rt_packets t' = rt_packets t + 1 \<and> rt_packets t + 1 \<le> MAX_PACKETS_PER_SEC)"
proof (cases "rc_enabled (rs_config s) \<and> length (rp_payload p) \<le> MAX_RELAY_PACKET_SIZE")
  case False
  then show ?thesis using assms by (auto simp: forward_packet_def)
next
  case True
  show ?thesis
  proof (cases "a = src")
    case False
    then show ?thesis using assms True by (auto simp: forward_packet_def Let_def split: prod.splits sum.splits)
  next
    case a: True
    note c = rate_check_in_window [OF assms(2)]
    show ?thesis
      using assms True a c by (auto simp: forward_packet_def Let_def not_less split: sum.splits)
  qed
qed

text \<open>In the second after a reset at most 20 packets of the peer are accepted, whatever other peers send.\<close>

lemma relay_run_window:
  assumes "map_of (rs_raters s) src = Some t" "\<forall>ev \<in> set evs. fst ev - rt_last_reset t < secs 1"
    "unat (rt_packets t) + length evs < 2 ^ 32"
  shows "accepted_from src evs (fst (relay_run evs s)) \<le> 20 - unat (rt_packets t)"
  using assms
proof (induction evs arbitrary: s t)
  case (Cons ev evs)
  obtain now p a where ev: "ev = (now, p, a)" by (metis prod_cases3)
  obtain r s' where f: "forward_packet now p a s = (r, s')" by force
  obtain rs s'' where rr: "relay_run evs s' = (rs, s'')" by force
  have now: "now - rt_last_reset t < secs 1" using Cons.prems(2) ev by simp
  from forward_tracker [OF Cons.prems(1) now, of p a] f obtain t' where t': "map_of (rs_raters s') src = Some t'"
    "rt_last_reset t' = rt_last_reset t" "t' = t \<or> rt_packets t' = rt_packets t + 1"
    "a = src \<and> (\<exists>x. r = Inr x) \<longrightarrow> rt_packets t' = rt_packets t + 1 \<and> rt_packets t + 1 \<le> MAX_PACKETS_PER_SEC" by auto
  have u: "unat (rt_packets t + 1) = Suc (unat (rt_packets t))" using Cons.prems(3) by (intro unat_Suc32) simp
  then have le: "unat (rt_packets t) \<le> unat (rt_packets t')" "unat (rt_packets t') \<le> Suc (unat (rt_packets t))"
    using t'(3) by auto
  have IH: "accepted_from src evs rs \<le> 20 - unat (rt_packets t')"
    using Cons.IH [OF t'(1)] Cons.prems(2,3) t'(2) le(2) rr by simp
  show ?case
  proof (cases "a = src \<and> (\<exists>x. r = Inr x)")
    case True
    then have "unat (rt_packets t') = Suc (unat (rt_packets t))" "unat (rt_packets t') \<le> 20"
      using t'(4) u by (auto simp: word_le_nat_alt)
    then show ?thesis using IH True ev f rr by auto
  next
    case False
    then show ?thesis using IH le(1) ev f rr by (auto split: sum.splits)
  qed
qed simp

text \<open>Of a peer not heard of before at most 20 packets are accepted within a second.\<close>

lemma relay_rate_limit:
  assumes "map_of (rs_raters s) src = None" "\<forall>e \<in> set evs. t0 \<le> fst e \<and> fst e < t0 + secs 1" "length evs < 2 ^ 31"
  shows "accepted_from src evs (fst (relay_run evs s)) \<le> 20"
  using assms
proof (induction evs arbitrary: s)
  case (Cons ev evs)
  obtain now p a where ev: "ev = (now, p, a)" by (metis prod_cases3)
  obtain r s' where f: "forward_packet now p a s = (r, s')" by force
  obtain rs s'' where rr: "relay_run evs s' = (rs, s'')" by force
  show ?case
  proof (cases "map_of (rs_raters s') src")
    case None
    have "\<not> (a = src \<and> (\<exists>x. r = Inr x))"
      using f None by (auto simp: forward_packet_def Let_def split: if_splits prod.splits sum.splits)
    moreover have "accepted_from src evs rs \<le> 20" using Cons.IH [OF None] Cons.prems(2,3) rr by simp
    ultimately show ?thesis using ev f rr by (auto split: sum.splits)
  next
    case (Some t)
    have "rate_check now None = (True, \<lparr>rt_last_reset = now, rt_packets = 1\<rparr>)" by (simp add: rate_check_def Let_def)
    then have t: "t = \<lparr>rt_last_reset = now, rt_packets = 1\<rparr>"
      using Some f Cons.prems(1) by (auto simp: forward_packet_def Let_def split: if_splits prod.splits sum.splits)
    have "\<forall>e \<in> set evs. fst e - now < secs 1" using Cons.prems(2) ev by fastforce
    then have "accepted_from src evs rs \<le> 19" using relay_run_window [OF Some, of evs] Cons.prems(3) rr t by simp
    then show ?thesis using ev f rr by (auto split: sum.splits)
  qed
qed simp

end
