(* ===== verification/Stun.thy ===== *)
theory Stun
  imports Kad_Node
begin

text \<open>
  The STUN client of \<open>stun.rs\<close>: the binding request, the parser of binding responses with its loop over
  the attributes, and the query loop over the servers. Every index and slice is checked. The lemmas show
  that the parser is total, that it accepts only responses to its own request, and that it reads the
  address from a response, whatever attributes come before it.
\<close>

section \<open>Messages\<close>

definition STUN_MAGIC_COOKIE :: u32 where "STUN_MAGIC_COOKIE = 0x2112A442"
definition BINDING_REQUEST :: u16 where "BINDING_REQUEST = 0x0001"
definition BINDING_RESPONSE :: u16 where "BINDING_RESPONSE = 0x0101"
definition ATTR_MAPPED_ADDRESS :: u16 where "ATTR_MAPPED_ADDRESS = 0x0001"
definition ATTR_XOR_MAPPED_ADDRESS :: u16 where "ATTR_XOR_MAPPED_ADDRESS = 0x0020"

definition build_binding_request :: "bytes \<Rightarrow> bytes" where
  "build_binding_request tid =
     [ucast (drop_bit 8 BINDING_REQUEST), ucast (BINDING_REQUEST AND 0xFF), 0, 0] @ be_bytes 4 STUN_MAGIC_COOKIE @ tid"

text \<open>The address in the value of an attribute: \<open>None\<close> goes on with the next attribute.\<close>

definition stun_xor_mapped :: "bytes \<Rightarrow> socket_addr option exec" where
  "stun_xor_mapped v = exec_bind (get_byte v 1) (\<lambda>family.
     if family = 1 then
       exec_bind (get_slice 2 v 2) (\<lambda>p. exec_bind (get_slice 4 v 4) (\<lambda>i.
         Done (Some (SockV4 (of_be i XOR STUN_MAGIC_COOKIE) (of_be p XOR ucast (drop_bit 16 STUN_MAGIC_COOKIE))))))
     else Done None)"

definition stun_mapped :: "bytes \<Rightarrow> socket_addr option exec" where
  "stun_mapped v = exec_bind (get_byte v 1) (\<lambda>family.
     if family = 1 then
       exec_bind (get_slice 2 v 2) (\<lambda>p. exec_bind (get_slice 4 v 4) (\<lambda>i. Done (Some (SockV4 (of_be i) (of_be p)))))
     else Done None)"

definition stun_attr :: "u16 \<Rightarrow> bytes \<Rightarrow> socket_addr option exec" where
  "stun_attr ty v =
     (if ty = ATTR_XOR_MAPPED_ADDRESS \<and> length v \<ge> 8 then stun_xor_mapped v
      else if ty = ATTR_MAPPED_ADDRESS \<and> length v \<ge> 8 then stun_mapped v
      else Done None)"

function stun_attrs :: "bytes \<Rightarrow> nat \<Rightarrow> nat \<Rightarrow> socket_addr option exec" where
  "stun_attrs buf offset lim =
     (if offset + 4 \<le> lim then
        exec_bind (get_slice 2 buf offset) (\<lambda>t. exec_bind (get_slice 2 buf (offset + 2)) (\<lambda>l.
          let attr_len = unat (of_be l :: u16); offset4 = offset + 4 in
          if offset4 + attr_len > lim then Done None
          else exec_bind (get_slice attr_len buf offset4) (\<lambda>v.
            exec_bind (stun_attr (of_be t) v) (\<lambda>r. case r of
              Some a \<Rightarrow> Done (Some a)
            | None \<Rightarrow> stun_attrs buf (offset4 + (attr_len + (4 - attr_len mod 4) mod 4)) lim))))
      else Done None)"
  by pat_completeness auto
termination by (relation "measure (\<lambda>(buf, offset, lim). lim - offset)") auto

declare stun_attrs.simps [simp del]

definition parse_binding_response :: "bytes \<Rightarrow> bytes \<Rightarrow> socket_addr option exec" where
  "parse_binding_response buf tid =
     (if length buf < 20 then Done None
      else exec_bind (get_slice 2 buf 0) (\<lambda>t.
        if (of_be t :: u16) \<noteq> BINDING_RESPONSE then Done None
        else exec_bind (get_slice 2 buf 2) (\<lambda>l. exec_bind (get_slice 4 buf 4) (\<lambda>m. exec_bind (get_slice 12 buf 8) (\<lambda>resp_tid.
          if (of_be m :: u32) \<noteq> STUN_MAGIC_COOKIE \<or> resp_tid \<noteq> tid then Done None
          else stun_attrs buf 20 (min (20 + unat (of_be l :: u16)) (length buf)))))))"

text \<open>\<open>query_reflexive_endpoint\<close>: for every address of every server that could be resolved, what came back
  within the timeout (nothing when sending failed).\<close>

fun query_reflexive_endpoint :: "bytes \<Rightarrow> (socket_addr \<times> (bytes \<times> socket_addr) option) list \<Rightarrow> socket_addr option exec" where
  "query_reflexive_endpoint tid [] = Done None"
| "query_reflexive_endpoint tid ((addr, None) # rs) = query_reflexive_endpoint tid rs"
| "query_reflexive_endpoint tid ((addr, Some (buf, src)) # rs) =
     (if src = addr then exec_bind (parse_binding_response buf tid) (\<lambda>r. case r of
          Some a \<Rightarrow> Done (Some a)
        | None \<Rightarrow> query_reflexive_endpoint tid rs)
      else query_reflexive_endpoint tid rs)"

section \<open>No panics\<close>

lemma get_slice_in: "cursor + n \<le> length buf \<Longrightarrow> get_slice n buf cursor = Done (take n (drop cursor buf))"
  by (simp add: get_slice_def)

lemma stun_attr_total: "\<exists>r. stun_attr ty v = Done r"
  by (auto simp: stun_attr_def stun_xor_mapped_def stun_mapped_def get_byte_def get_slice_in)

text \<open>One turn of the loop with the reads done.\<close>

lemma stun_attrs_turn:
  assumes "off + 4 \<le> lim" "lim \<le> length buf" "unat (of_be (take 2 (drop (off + 2) buf)) :: u16) = l"
  shows "stun_attrs buf off lim =
    (if off + 4 + l > lim then Done None
     else exec_bind (stun_attr (of_be (take 2 (drop off buf))) (take l (drop (off + 4) buf))) (\<lambda>r. case r of
         Some a \<Rightarrow> Done (Some a)
       | None \<Rightarrow> stun_attrs buf (off + 4 + (l + (4 - l mod 4) mod 4)) lim))"
proof -
  have s: "get_slice 2 buf off = Done (take 2 (drop off buf))"
    "get_slice 2 buf (off + 2) = Done (take 2 (drop (off + 2) buf))"
    using assms(1,2) by (auto intro!: get_slice_in)
  show ?thesis
  proof (cases "off + 4 + l > lim")
    case True
    show ?thesis unfolding stun_attrs.simps [of buf off lim] s exec_bind_simps Let_def assms(3) using assms(1) True by simp
  next
    case False
    then have v: "get_slice l buf (off + 4) = Done (take l (drop (off + 4) buf))"
      using assms(2) by (auto intro!: get_slice_in)
    show ?thesis
      unfolding stun_attrs.simps [of buf off lim] s exec_bind_simps Let_def assms(3) v if_P [OF assms(1)] if_not_P [OF False] ..
  qed
qed

lemma stun_attrs_total: "lim \<le> length buf \<Longrightarrow> \<exists>r. stun_attrs buf offset lim = Done r"
proof (induction "lim - offset" arbitrary: offset rule: less_induct)
  case less
  show ?case
  proof (cases "offset + 4 \<le> lim")
    case True
    define l where "l = unat (of_be (take 2 (drop (offset + 2) buf)) :: u16)"
    have "\<exists>r. stun_attrs buf (offset + 4 + (l + (4 - l mod 4) mod 4)) lim = Done r"
      using less.prems True by (intro less.hyps) simp_all
    moreover obtain r where "stun_attr (of_be (take 2 (drop offset buf))) (take l (drop (offset + 4) buf)) = Done r"
      using stun_attr_total by blast
    ultimately show ?thesis
      unfolding stun_attrs_turn [OF True less.prems l_def [symmetric]] by (cases r) simp_all
  qed (simp add: stun_attrs.simps)
qed

lemma parse_binding_response_total: "\<exists>r. parse_binding_response buf tid = Done r"
proof (cases "length buf < 20")
  case False
  then show ?thesis using stun_attrs_total [of "min (20 + k) (length buf)" buf 20 for k]
    by (auto simp: parse_binding_response_def get_slice_in)
qed (simp add: parse_binding_response_def)

lemma query_total: "\<exists>r. query_reflexive_endpoint tid rs = Done r"
proof (induction tid rs rule: query_reflexive_endpoint.induct)
  case (3 tid addr buf src rs)
  then show ?case using parse_binding_response_total [of buf tid] by (auto split: option.split)
qed simp_all

section \<open>What is accepted\<close>

text \<open>Only a response with the cookie and the transaction of the request is accepted.\<close>

lemma parse_binding_response_genuine:
  assumes "parse_binding_response buf tid = Done (Some a)"
  shows "20 \<le> length buf \<and> of_be (take 2 buf) = BINDING_RESPONSE \<and> of_be (take 4 (drop 4 buf)) = STUN_MAGIC_COOKIE \<and>
    take 12 (drop 8 buf) = tid"
  using assms by (auto simp: parse_binding_response_def get_slice_in split: if_splits)

lemma query_source:
  "query_reflexive_endpoint tid rs = Done (Some a) \<Longrightarrow>
   \<exists>addr buf. (addr, Some (buf, addr)) \<in> set rs \<and> parse_binding_response buf tid = Done (Some a)"
proof (induction tid rs rule: query_reflexive_endpoint.induct)
  case (3 tid addr buf src rs)
  obtain r where r: "parse_binding_response buf tid = Done r" using parse_binding_response_total by blast
  show ?case
  proof (cases "src = addr \<and> r \<noteq> None")
    case True
    then show ?thesis using 3(3) r by (intro exI [of _ addr] exI [of _ buf]) auto
  next
    case False
    then have "query_reflexive_endpoint tid rs = Done (Some a)" using 3(3) r by (auto split: if_splits)
    then have "\<exists>addr buf. (addr, Some (buf, addr)) \<in> set rs \<and> parse_binding_response buf tid = Done (Some a)"
      using 3(1,2) r False by (cases "src = addr") auto
    then show ?thesis by auto
  qed
qed simp_all

section \<open>What a server sends\<close>

text \<open>An attribute with its padding, and a response with attributes.\<close>

definition attr_bytes :: "u16 \<Rightarrow> bytes \<Rightarrow> bytes" where
  "attr_bytes ty v = be_bytes 2 ty @ be_bytes 2 (of_nat (length v) :: u16) @ v @
     replicate ((4 - length v mod 4) mod 4) 0"

definition xor_mapped_value :: "u32 \<Rightarrow> u16 \<Rightarrow> bytes" where
  "xor_mapped_value ip port = [0, 1] @ be_bytes 2 (port XOR 0x2112) @ be_bytes 4 (ip XOR STUN_MAGIC_COOKIE)"

definition binding_response :: "bytes \<Rightarrow> bytes \<Rightarrow> bytes" where
  "binding_response tid attrs = be_bytes 2 BINDING_RESPONSE @ be_bytes 2 (of_nat (length attrs) :: u16) @
     be_bytes 4 STUN_MAGIC_COOKIE @ tid @ attrs"

text \<open>An attribute that the parser passes over.\<close>

definition other_attr :: "u16 \<times> bytes \<Rightarrow> bool" where
  "other_attr a \<longleftrightarrow> fst a \<noteq> ATTR_MAPPED_ADDRESS \<and> fst a \<noteq> ATTR_XOR_MAPPED_ADDRESS \<and> length (snd a) < 65536"

lemma unat_length16: "n < 65536 \<Longrightarrow> unat (of_nat n :: u16) = n"
  by (simp add: unat_of_nat take_bit_nat_eq_self)

lemma length_xor_mapped_value [simp]: "length (xor_mapped_value ip port) = 8"
  by (simp add: xor_mapped_value_def)

lemma stun_xor_mapped_value: "stun_xor_mapped (xor_mapped_value ip port) = Done (Some (SockV4 ip port))"
proof -
  have "(ucast (drop_bit 16 STUN_MAGIC_COOKIE) :: u16) = 0x2112" by (simp add: STUN_MAGIC_COOKIE_def)
  then show ?thesis
    by (simp add: stun_xor_mapped_def xor_mapped_value_def get_byte_def get_slice_def xor.assoc)
qed

text \<open>One attribute at the offset.\<close>

lemma stun_attrs_step:
  assumes "drop off buf = attr_bytes ty v @ rest" "length v < 65536" "lim = length buf"
  shows "stun_attrs buf off lim = exec_bind (stun_attr ty v) (\<lambda>r. case r of
      Some a \<Rightarrow> Done (Some a)
    | None \<Rightarrow> stun_attrs buf (off + length (attr_bytes ty v)) lim)"
proof -
  have len: "off + 4 \<le> lim" "\<not> off + 4 + length v > lim"
    using arg_cong [OF assms(1), of length] assms(3) by (simp_all add: attr_bytes_def)
  have d: "drop (off + k) buf = drop k (drop off buf)" for k by (simp add: add.commute)
  have t: "take 2 (drop off buf) = be_bytes 2 ty" using assms(1) by (simp add: attr_bytes_def)
  have l: "unat (of_be (take 2 (drop (off + 2) buf)) :: u16) = length v"
    unfolding d assms(1) using unat_length16 [OF assms(2)] by (simp add: attr_bytes_def)
  have v: "take (length v) (drop (off + 4) buf) = v" unfolding d assms(1) by (simp add: attr_bytes_def)
  have a: "off + 4 + (length v + (4 - length v mod 4) mod 4) = off + length (attr_bytes ty v)"
    by (simp add: attr_bytes_def)
  show ?thesis
    unfolding stun_attrs_turn [OF len(1) assms(3) [THEN eq_refl] l] t v a of_be_be_bytes_u16 if_not_P [OF len(2)] ..
qed

lemma stun_attrs_response:
  assumes "list_all other_attr as" "drop off buf = concat (map (\<lambda>a. attr_bytes (fst a) (snd a)) as) @
      attr_bytes ATTR_XOR_MAPPED_ADDRESS (xor_mapped_value ip port) @ rest" "lim = length buf"
  shows "stun_attrs buf off lim = Done (Some (SockV4 ip port))"
  using assms
proof (induction as arbitrary: off)
  case Nil
  then show ?case using stun_attrs_step [of off buf ATTR_XOR_MAPPED_ADDRESS "xor_mapped_value ip port" rest lim]
    by (simp add: stun_attr_def stun_xor_mapped_value)
next
  case (Cons a as)
  let ?r = "concat (map (\<lambda>a. attr_bytes (fst a) (snd a)) as) @
      attr_bytes ATTR_XOR_MAPPED_ADDRESS (xor_mapped_value ip port) @ rest"
  have o: "other_attr a" "list_all other_attr as" using Cons.prems(1) by simp_all
  have d: "drop off buf = attr_bytes (fst a) (snd a) @ ?r" using Cons.prems(2) by simp
  have "drop (off + length (attr_bytes (fst a) (snd a))) buf = drop (length (attr_bytes (fst a) (snd a))) (drop off buf)"
    by (simp add: add.commute)
  then have n: "drop (off + length (attr_bytes (fst a) (snd a))) buf = ?r" using d by simp
  have "stun_attr (fst a) (snd a) = Done None" using o(1) by (simp add: stun_attr_def other_attr_def)
  then show ?case using stun_attrs_step [OF d _ Cons.prems(3)] o(1) Cons.IH [OF o(2) n Cons.prems(3)]
    by (simp add: other_attr_def)
qed

text \<open>The address in a response is read back, whatever other attributes come before and after it.\<close>

lemma parse_binding_response_reads:
  assumes "length tid = 12" "list_all other_attr as"
    "attrs = concat (map (\<lambda>a. attr_bytes (fst a) (snd a)) as) @ attr_bytes ATTR_XOR_MAPPED_ADDRESS (xor_mapped_value ip port) @ rest"
    "length attrs < 65536"
  shows "parse_binding_response (binding_response tid attrs) tid = Done (Some (SockV4 ip port))"
proof -
  let ?b = "binding_response tid attrs"
  have len: "length ?b = 20 + length attrs" using assms(1) by (simp add: binding_response_def)
  have s: "take 2 ?b = be_bytes 2 BINDING_RESPONSE" "take 2 (drop 2 ?b) = be_bytes 2 (of_nat (length attrs) :: u16)"
    "take 4 (drop 4 ?b) = be_bytes 4 STUN_MAGIC_COOKIE" "take 12 (drop 8 ?b) = tid" "drop 20 ?b = attrs"
    using assms(1) by (simp_all add: binding_response_def)
  have "stun_attrs ?b 20 (length ?b) = Done (Some (SockV4 ip port))"
    by (rule stun_attrs_response [OF assms(2) s(5) [unfolded assms(3)] refl, folded assms(3)])
  then show ?thesis using len by (simp add: parse_binding_response_def get_slice_in s unat_length16 [OF assms(4)])
qed

text \<open>A request is not mistaken for a response.\<close>

lemma request_no_response: "length tid = 12 \<Longrightarrow> length (build_binding_request tid) = 20 \<and>
    parse_binding_response (build_binding_request tid) tid' = Done None"
  by (simp add: build_binding_request_def parse_binding_response_def get_slice_def BINDING_REQUEST_def BINDING_RESPONSE_def
      of_be_def)

end
