(* ===== verification/Json_Text.thy ===== *)
theory Json_Text
  imports Rust_Strings
begin

text \<open>
  The hand-written reading of JSON text that \<open>config.rs\<close> and \<open>state.rs\<close> share: \<open>find\<close>, \<open>split\<close>, \<open>join\<close>, the
  decimal form of numbers, and the functions that look a key up. The lemmas say how the search for a key
  passes over other text, so that written files can be read back.
\<close>

section \<open>Searching and splitting\<close>

text \<open>\<open>str::find\<close>, for a string or a character pattern; the positions after and before the ASCII patterns
  that are searched for are character boundaries, so a slice between them panics only when its ends are in
  the wrong order.\<close>

fun starts_with :: "string \<Rightarrow> string \<Rightarrow> bool" where
  "starts_with [] s = True"
| "starts_with (p # ps) [] = False"
| "starts_with (p # ps) (c # cs) = (p = c \<and> starts_with ps cs)"

fun str_find :: "string \<Rightarrow> string \<Rightarrow> nat option" where
  "str_find pat [] = (if pat = [] then Some 0 else None)"
| "str_find pat (c # cs) = (if starts_with pat (c # cs) then Some 0 else map_option Suc (str_find pat cs))"

definition str_range :: "string \<Rightarrow> nat \<Rightarrow> nat \<Rightarrow> string exec" where
  "str_range s a b = (if a \<le> b \<and> b \<le> length s then Done (take (b - a) (drop a s)) else Panic)"

fun split_on :: "char \<Rightarrow> string \<Rightarrow> string list" where
  "split_on d [] = [[]]"
| "split_on d (c # cs) = (if c = d then [] # split_on d cs
     else (case split_on d cs of [] \<Rightarrow> [[c]] | p # ps \<Rightarrow> (c # p) # ps))"

fun join_with :: "string \<Rightarrow> string list \<Rightarrow> string" where
  "join_with sep [] = []"
| "join_with sep [x] = x"
| "join_with sep (x # y # xs) = x @ sep @ join_with sep (y # xs)"

abbreviation QUOTE :: char where "QUOTE \<equiv> CHR 0x22"
abbreviation NEWLINE :: char where "NEWLINE \<equiv> CHR 0x0A"

text \<open>\<open>trim_matches('"')\<close>\<close>

definition trim_quotes :: "string \<Rightarrow> string" where
  "trim_quotes s = rev (dropWhile (\<lambda>c. c = QUOTE) (rev (dropWhile (\<lambda>c. c = QUOTE) s)))"

section \<open>Numbers\<close>

definition digit_char :: "nat \<Rightarrow> char" where
  "digit_char d = char_of (48 + d)"

fun decimal :: "nat \<Rightarrow> string" where
  "decimal n = (if n < 10 then [digit_char n] else decimal (n div 10) @ [digit_char (n mod 10)])"

declare decimal.simps [simp del]

definition is_ascii_digit :: "char \<Rightarrow> bool" where
  "is_ascii_digit c \<longleftrightarrow> 48 \<le> (of_char c :: nat) \<and> (of_char c :: nat) \<le> 57"

text \<open>\<open>parse::<u64>()\<close> of a string of digits: empty or too large is an error.\<close>

definition digits_value :: "string \<Rightarrow> nat" where
  "digits_value s = foldl (\<lambda>n c. 10 * n + (of_char c - 48)) 0 s"

definition parse_u64_digits :: "string \<Rightarrow> u64 option" where
  "parse_u64_digits s = (if s = [] \<or> digits_value s \<ge> 2 ^ 64 then None else Some (of_nat (digits_value s)))"

section \<open>Looking up a key\<close>

definition json_key :: "string \<Rightarrow> string" where
  "json_key key = [QUOTE] @ key @ [QUOTE, CHR '':'']"

text \<open>The text after the first occurrence of the key.\<close>

definition after_key :: "string \<Rightarrow> string \<Rightarrow> string option" where
  "after_key key s = map_option (\<lambda>pos. drop (pos + length (json_key key)) s) (str_find (json_key key) s)"

definition json_get_string :: "string \<Rightarrow> string \<Rightarrow> string option" where
  "json_get_string json key = (case after_key key json of
      None \<Rightarrow> None
    | Some rest \<Rightarrow> (case str_find [QUOTE] rest of
        None \<Rightarrow> None
      | Some q1 \<Rightarrow> (let value_part = drop (q1 + 1) rest in
          map_option (\<lambda>q2. take q2 value_part) (str_find [QUOTE] value_part))))"

definition json_get_u64 :: "string \<Rightarrow> string \<Rightarrow> u64 option" where
  "json_get_u64 json key = (case after_key key json of
      None \<Rightarrow> None
    | Some rest \<Rightarrow> parse_u64_digits (takeWhile is_ascii_digit (trim_start rest)))"

text \<open>The text between the first \<open>[\<close> and the first \<open>]\<close> after the key: a slice that panics when the brackets come
  in the other order.\<close>

definition json_brackets :: "string \<Rightarrow> string \<Rightarrow> string option exec" where
  "json_brackets json key = (case after_key key json of
      None \<Rightarrow> Done None
    | Some rest \<Rightarrow> (case str_find ''['' rest of
        None \<Rightarrow> Done None
      | Some b1 \<Rightarrow> (case str_find '']'' rest of
          None \<Rightarrow> Done None
        | Some b2 \<Rightarrow> exec_bind (str_range rest (b1 + 1) b2) (\<lambda>inner. Done (Some inner)))))"

definition json_get_array_strings :: "string \<Rightarrow> string \<Rightarrow> string list option exec" where
  "json_get_array_strings json key = exec_bind (json_brackets json key) (\<lambda>r. Done (case r of
      None \<Rightarrow> None
    | Some inner \<Rightarrow> Some (filter (\<lambda>s. s \<noteq> []) (map (\<lambda>s. trim_quotes (rust_trim s)) (split_on (CHR '','') inner)))))"

section \<open>Passing over text\<close>

lemma starts_with_append: "starts_with pat (pat @ s)"
  by (induction pat) auto

lemma starts_with_iff: "starts_with pat s \<longleftrightarrow> (\<exists>t. s = pat @ t)"
  by (induction pat s rule: starts_with.induct) auto

lemma str_find_skip: "hd pat \<notin> set xs \<Longrightarrow> pat \<noteq> [] \<Longrightarrow>
    str_find pat (xs @ s) = map_option (\<lambda>n. length xs + n) (str_find pat s)"
proof (induction xs)
  case Nil
  then show ?case by (cases "str_find pat s") simp_all
next
  case (Cons c xs)
  then have "\<not> starts_with pat (c # xs @ s)" by (cases pat) auto
  then show ?case using Cons by (cases "str_find pat s") simp_all
qed

lemma str_find_skip_1: "\<not> starts_with pat (c # s) \<Longrightarrow> str_find pat (c # s) = map_option Suc (str_find pat s)"
  by simp

lemma str_find_hit: "pat \<noteq> [] \<Longrightarrow> str_find pat (pat @ s) = Some 0"
  using starts_with_append [of pat s] by (cases pat) auto

lemma str_find_char: "c \<notin> set xs \<Longrightarrow> str_find [c] (xs @ c # s) = Some (length xs)"
  by (induction xs) auto

lemma str_find_None: "hd pat \<notin> set xs \<Longrightarrow> pat \<noteq> [] \<Longrightarrow> str_find pat xs = None"
  using str_find_skip [of pat xs "[]"] by simp

lemma json_key_nonempty [simp]: "json_key k \<noteq> []" "hd (json_key k) = QUOTE" "length (json_key k) = length k + 3"
  by (simp_all add: json_key_def)

text \<open>Text without quotes.\<close>

lemma after_key_plain [simp]: "QUOTE \<notin> set xs \<Longrightarrow> after_key k (xs @ s) = after_key k s"
  by (simp add: after_key_def str_find_skip option.map_comp comp_def add.assoc)

lemma after_key_plain_1: "c \<noteq> QUOTE \<Longrightarrow> after_key k (c # s) = after_key k s"
  using after_key_plain [of "[c]" k s] by simp

lemma after_key_quote: "\<not> starts_with (json_key k) (QUOTE # s) \<Longrightarrow> after_key k (QUOTE # s) = after_key k s"
  by (cases "str_find (json_key k) s") (simp_all add: after_key_def drop_Cons' eval_nat_numeral)

text \<open>The key that is searched for, another key, and a value in quotes.\<close>

lemma after_key_hit [simp]: "after_key k (json_key k @ s) = Some s"
  by (simp add: after_key_def str_find_hit)

definition key_name :: "string \<Rightarrow> bool" where
  "key_name k \<longleftrightarrow> k \<noteq> [] \<and> QUOTE \<notin> set k \<and> (hd k = CHR ''_'' \<or> 97 \<le> (of_char (hd k) :: nat))"

lemma quoted_no_key:
  "QUOTE \<notin> set k \<Longrightarrow> QUOTE \<notin> set x \<Longrightarrow> starts_with (json_key k) (QUOTE # x @ QUOTE # s) \<Longrightarrow> x = k \<and> (\<exists>t. s = CHR '':'' # t)"
proof -
  assume k: "QUOTE \<notin> set k" and x: "QUOTE \<notin> set x" and "starts_with (json_key k) (QUOTE # x @ QUOTE # s)"
  then obtain t where e: "x @ QUOTE # s = k @ QUOTE # CHR '':'' # t"
    by (auto simp: starts_with_iff json_key_def)
  have "takeWhile (\<lambda>c. c \<noteq> QUOTE) (x @ QUOTE # s) = x" using x by (subst takeWhile_append2) auto
  moreover have "takeWhile (\<lambda>c. c \<noteq> QUOTE) (k @ QUOTE # CHR '':'' # t) = k" using k by (subst takeWhile_append2) auto
  ultimately have "x = k" using e by simp
  then show ?thesis using e by simp
qed

lemma closing_no_key: "key_name k \<Longrightarrow> of_char c < (95 :: nat) \<Longrightarrow> \<not> starts_with (json_key k) (QUOTE # c # s)"
  by (cases k) (auto simp: json_key_def key_name_def)

lemma after_key_other: "key_name k \<Longrightarrow> key_name k' \<Longrightarrow> k' \<noteq> k \<Longrightarrow> after_key k (json_key k' @ s) = after_key k s"
proof -
  assume k: "key_name k" "key_name k'" "k' \<noteq> k"
  have "\<not> starts_with (json_key k) (QUOTE # k' @ QUOTE # CHR '':'' # s)"
    using quoted_no_key [of k k' "CHR '':'' # s"] k by (auto simp: key_name_def)
  then have "after_key k (json_key k' @ s) = after_key k (k' @ QUOTE # CHR '':'' # s)"
    by (simp add: json_key_def after_key_quote)
  also have "\<dots> = after_key k (QUOTE # CHR '':'' # s)" using k(2) by (simp add: key_name_def)
  also have "\<dots> = after_key k (CHR '':'' # s)" using closing_no_key [OF k(1), of "CHR '':''" s] by (intro after_key_quote) simp
  finally show ?thesis by (simp add: after_key_plain_1)
qed

lemma after_key_value:
  assumes "key_name k" "QUOTE \<notin> set x" "of_char c < (95 :: nat)" "c \<noteq> CHR '':''"
  shows "after_key k (QUOTE # x @ QUOTE # c # s) = after_key k (c # s)"
proof -
  have "\<not> starts_with (json_key k) (QUOTE # x @ QUOTE # c # s)"
    using quoted_no_key [of k x "c # s"] assms by (auto simp: key_name_def)
  then have "after_key k (QUOTE # x @ QUOTE # c # s) = after_key k (x @ QUOTE # c # s)" by (rule after_key_quote)
  also have "\<dots> = after_key k (QUOTE # c # s)" using assms(2) by simp
  also have "\<dots> = after_key k (c # s)" using closing_no_key [OF assms(1,3)] by (rule after_key_quote)
  finally show ?thesis .
qed

text \<open>A string value after its key.\<close>

lemma get_string_value:
  assumes "after_key k json = Some (CHR '' '' # QUOTE # x @ QUOTE # s)" "QUOTE \<notin> set x"
  shows "json_get_string json k = Some x"
  using assms str_find_char [OF assms(2), of s] by (simp add: json_get_string_def)

section \<open>Decimal numbers\<close>

lemma digit_char_facts:
  assumes "d < 10"
  shows "of_char (digit_char d) = 48 + d" "is_ascii_digit (digit_char d)" "digit_char d \<noteq> QUOTE"
proof -
  have "\<forall>d \<in> set [0..<10]. of_char (digit_char d) = 48 + d \<and> is_ascii_digit (digit_char d) \<and> digit_char d \<noteq> QUOTE"
    by code_simp
  then show "of_char (digit_char d) = 48 + d" "is_ascii_digit (digit_char d)" "digit_char d \<noteq> QUOTE"
    using assms by simp_all
qed

lemma decimal_digits: "list_all is_ascii_digit (decimal n) \<and> QUOTE \<notin> set (decimal n) \<and> decimal n \<noteq> []"
proof (induction n rule: decimal.induct)
  case (1 n)
  then show ?case using digit_char_facts [of n] digit_char_facts [of "n mod 10"]
    by (subst (1 2 3) decimal.simps) auto
qed

lemma digits_value_decimal [simp]: "digits_value (decimal n) = n"
proof (induction n rule: decimal.induct)
  case (1 n)
  show ?case
  proof (cases "n < 10")
    case True
    then show ?thesis by (subst decimal.simps) (simp add: digits_value_def digit_char_facts)
  next
    case False
    have "digits_value (decimal (n div 10) @ [digit_char (n mod 10)]) = 10 * (n div 10) + n mod 10"
      using 1 [OF False] digit_char_facts(1) [of "n mod 10"] by (simp add: digits_value_def)
    then show ?thesis using False by (subst decimal.simps) simp
  qed
qed

lemma ws_codes_space: "ws_codes (32 # xs) = 1"
  by (cases xs rule: ws_codes.cases) (auto simp: ws1_def)

lemma ws_codes_ascii: "33 \<le> a \<Longrightarrow> a < 128 \<Longrightarrow> ws_codes (a # xs) = 0"
  by (cases "a # xs" rule: ws_codes.cases) (auto simp: ws1_def ws3_def)

lemma trim_start_stop: "ws_head s = 0 \<Longrightarrow> trim_start s = s"
  by (subst trim_start.simps) simp

lemma trim_start_space: "ws_head s = 0 \<Longrightarrow> trim_start (CHR '' '' # s) = s"
  by (subst trim_start.simps) (simp add: ws_head_def [of "CHR '' '' # s"] ws_codes_space trim_start_stop)

lemma get_u64_value:
  fixes w :: u64
  assumes "after_key k json = Some (CHR '' '' # decimal (unat w) @ c # s)" "\<not> is_ascii_digit c"
  shows "json_get_u64 json k = Some w"
proof -
  have d: "list_all is_ascii_digit (decimal (unat w))" "decimal (unat w) \<noteq> []" using decimal_digits by auto
  obtain x xs where x: "decimal (unat w) = x # xs" using d(2) by (cases "decimal (unat w)") auto
  have "48 \<le> (of_char x :: nat) \<and> (of_char x :: nat) \<le> 57" using d(1) x by (simp add: is_ascii_digit_def)
  then have "ws_head (x # xs @ c # s) = 0" by (simp add: ws_head_def ws_codes_ascii)
  then have "trim_start (CHR '' '' # decimal (unat w) @ c # s) = decimal (unat w) @ c # s"
    using trim_start_space x by simp
  moreover have "takeWhile is_ascii_digit (decimal (unat w) @ c # s) = decimal (unat w)"
    using d(1) assms(2) by (subst takeWhile_append2) (auto simp: list_all_iff)
  moreover have "unat w < 2 ^ 64" using unsigned_less [of w] by simp
  ultimately show ?thesis using assms(1) d(2) by (simp add: json_get_u64_def parse_u64_digits_def)
qed

section \<open>Splitting what was joined\<close>

lemma split_on_nonempty [simp]: "split_on d s \<noteq> []"
  by (induction s) (auto split: list.split)

lemma split_on_append: "d \<notin> set x \<Longrightarrow> split_on d (x @ d # s) = x # split_on d s"
  by (induction x) auto

lemma split_on_plain: "d \<notin> set x \<Longrightarrow> split_on d x = [x]"
  by (induction x) auto

end
