(* ===== verification/Config_State.thy ===== *)
theory Config_State
  imports Json_Text Kad_Node
begin

text \<open>
  The configuration file (\<open>config.rs\<close>) and the state file (\<open>state.rs\<close>): writing, and reading with the
  functions of \<open>Json_Text\<close>. Reading and writing files is left out: the content is an argument or a result.
  The text form of a socket address is a parameter. The lemmas give the round trips, and the two ways in which
  reading goes wrong: an IPv6 address ends the list at its bracket, and a closing bracket before the opening
  one panics.
\<close>

section \<open>Text of addresses\<close>

text \<open>\<open>Display\<close> and \<open>FromStr\<close> of \<open>SocketAddr\<close>.\<close>

record addr_fmt =
  af_show :: "socket_addr \<Rightarrow> string"
  af_parse :: "string \<Rightarrow> socket_addr option"

text \<open>An address whose text is read back and has no character of the list syntax: every IPv4 address.\<close>

definition addr_plain :: "addr_fmt \<Rightarrow> socket_addr \<Rightarrow> bool" where
  "addr_plain f a \<longleftrightarrow> af_parse f (af_show f a) = Some a \<and> af_show f a \<noteq> [] \<and> list_all plain_char (af_show f a) \<and>
     set (af_show f a) \<inter> {QUOTE, CHR '','', CHR ''['', CHR '']'', CHR ''{'', CHR ''}''} = {}"

section \<open>Configuration\<close>

record node_config =
  nc_ip :: string
  nc_port :: u16
  nc_bootstrap :: "socket_addr list"
  nc_state_file :: string
  nc_ttl_secs :: u64
  nc_republish_secs :: u64
  nc_rpc_timeout_ms :: u64
  nc_rpc_max_retries :: u64
  nc_save_state_on_exit :: bool

definition config_default :: node_config where
  "config_default = \<lparr>nc_ip = ''0.0.0.0'', nc_port = 8443, nc_bootstrap = [SockV4 0x1F4D477A 8443],
     nc_state_file = ''node_state.json'', nc_ttl_secs = 86400, nc_republish_secs = 3600, nc_rpc_timeout_ms = 5000,
     nc_rpc_max_retries = 2, nc_save_state_on_exit = True\<rparr>"

definition opt_set :: "'a option \<Rightarrow> ('a \<Rightarrow> 'c \<Rightarrow> 'c) \<Rightarrow> 'c \<Rightarrow> 'c" where
  "opt_set v f c = (case v of Some x \<Rightarrow> f x c | None \<Rightarrow> c)"

text \<open>\<open>v as u16\<close> keeps the low bits.\<close>

definition config_from_json :: "addr_fmt \<Rightarrow> string \<Rightarrow> node_config exec" where
  "config_from_json f s =
     (let cfg = config_default;
          cfg = opt_set (json_get_string s ''ip'') (\<lambda>v c. c\<lparr>nc_ip := v\<rparr>) cfg;
          cfg = opt_set (json_get_u64 s ''port'') (\<lambda>v c. c\<lparr>nc_port := ucast v\<rparr>) cfg;
          cfg = opt_set (json_get_string s ''state_file'') (\<lambda>v c. c\<lparr>nc_state_file := v\<rparr>) cfg;
          cfg = opt_set (json_get_u64 s ''ttl_secs'') (\<lambda>v c. c\<lparr>nc_ttl_secs := v\<rparr>) cfg;
          cfg = opt_set (json_get_u64 s ''republish_secs'') (\<lambda>v c. c\<lparr>nc_republish_secs := v\<rparr>) cfg;
          cfg = opt_set (json_get_u64 s ''rpc_timeout_ms'') (\<lambda>v c. c\<lparr>nc_rpc_timeout_ms := v\<rparr>) cfg;
          cfg = opt_set (json_get_u64 s ''rpc_max_retries'') (\<lambda>v c. c\<lparr>nc_rpc_max_retries := v\<rparr>) cfg in
      exec_bind (json_get_array_strings s ''bootstrap'') (\<lambda>r. Done
        (opt_set r (\<lambda>addrs c. c\<lparr>nc_bootstrap := List.map_filter (af_parse f) addrs\<rparr>) cfg)))"

abbreviation NL2 :: string where "NL2 \<equiv> NEWLINE # ''  ''"

definition quoted :: "string \<Rightarrow> string" where
  "quoted s = [QUOTE] @ s @ [QUOTE]"

definition config_to_json :: "addr_fmt \<Rightarrow> node_config \<Rightarrow> string" where
  "config_to_json f c = ''{'' @ NL2 @
     json_key ''ip'' @ '' '' @ quoted (nc_ip c) @ '','' @ NL2 @
     json_key ''port'' @ '' '' @ decimal (unat (nc_port c)) @ '','' @ NL2 @
     json_key ''bootstrap'' @ '' ['' @ join_with '', '' (map (\<lambda>a. quoted (af_show f a)) (nc_bootstrap c)) @ ''],'' @ NL2 @
     json_key ''state_file'' @ '' '' @ quoted (nc_state_file c) @ '','' @ NL2 @
     json_key ''ttl_secs'' @ '' '' @ decimal (unat (nc_ttl_secs c)) @ '','' @ NL2 @
     json_key ''republish_secs'' @ '' '' @ decimal (unat (nc_republish_secs c)) @ '','' @ NL2 @
     json_key ''rpc_timeout_ms'' @ '' '' @ decimal (unat (nc_rpc_timeout_ms c)) @ '','' @ NL2 @
     json_key ''rpc_max_retries'' @ '' '' @ decimal (unat (nc_rpc_max_retries c)) @ [NEWLINE] @ ''}''"

section \<open>State\<close>

datatype state_error = MissingNodeId | InvalidNodeId hex_error

definition json_get_contacts_array :: "string \<Rightarrow> (string \<times> string) list option exec" where
  "json_get_contacts_array json = exec_bind (json_brackets json ''contacts'') (\<lambda>r. Done (case r of
      None \<Rightarrow> None
    | Some inner \<Rightarrow> Some (List.map_filter (\<lambda>block. case json_get_string block ''id'' of
          None \<Rightarrow> None
        | Some i \<Rightarrow> map_option (\<lambda>a. (i, a)) (json_get_string block ''addr'')) (split_on (CHR ''}'') inner))))"

fun load_contacts :: "addr_fmt \<Rightarrow> instant \<Rightarrow> (string \<times> string) list \<Rightarrow> contact list exec" where
  "load_contacts f now [] = Done []"
| "load_contacts f now ((id_hex, addr_str) # es) = exec_bind (id_from_hex id_hex) (\<lambda>r.
     exec_bind (load_contacts f now es) (\<lambda>cs. Done (case r of
         Inl _ \<Rightarrow> cs
       | Inr i \<Rightarrow> (case af_parse f addr_str of None \<Rightarrow> cs | Some a \<Rightarrow> contact_new now i a # cs))))"

definition load_state :: "addr_fmt \<Rightarrow> instant \<Rightarrow> string \<Rightarrow> (state_error + node_id \<times> contact list) exec" where
  "load_state f now content = (case json_get_string content ''node_id'' of
      None \<Rightarrow> Done (Err MissingNodeId)
    | Some node_id_hex \<Rightarrow> exec_bind (id_from_hex node_id_hex) (\<lambda>r. case r of
        Inl e \<Rightarrow> Done (Err (InvalidNodeId e))
      | Inr node_id \<Rightarrow> exec_bind (json_get_contacts_array content) (\<lambda>entries.
          exec_bind (case entries of None \<Rightarrow> Done [] | Some es \<Rightarrow> load_contacts f now es) (\<lambda>contacts.
            Done (Ok (node_id, contacts))))))"

definition contact_body :: "addr_fmt \<Rightarrow> contact \<Rightarrow> string" where
  "contact_body f c = ''{'' @ json_key ''id'' @ '' '' @ quoted (id_to_hex (ct_id c)) @ '', '' @
     json_key ''addr'' @ '' '' @ quoted (af_show f (ct_addr c))"

definition save_state :: "addr_fmt \<Rightarrow> node_id \<Rightarrow> contact list \<Rightarrow> string" where
  "save_state f i cs = ''{'' @ NL2 @ json_key ''node_id'' @ '' '' @ quoted (id_to_hex i) @ '','' @ NL2 @
     json_key ''contacts'' @ '' ['' @ NEWLINE # ''    '' @
     join_with ('','' @ NEWLINE # ''    '') (map (\<lambda>c. contact_body f c @ ''}'') cs) @ NL2 @ '']'' @ [NEWLINE] @ ''}''"

section \<open>Characters of the parts\<close>

lemma plain_no_quote_hex: "c \<in> set (id_to_hex i) \<Longrightarrow> c \<notin> {QUOTE, CHR '','', CHR ''['', CHR '']'', CHR ''{'', CHR ''}''}"
proof -
  have h: "hex_digit n \<notin> {QUOTE, CHR '','', CHR ''['', CHR '']'', CHR ''{'', CHR ''}''}" if "n < 16" for n
  proof -
    have "\<forall>n \<in> set [0..<16]. hex_digit n \<notin> {QUOTE, CHR '','', CHR ''['', CHR '']'', CHR ''{'', CHR ''}''}" by code_simp
    then show ?thesis using that by simp
  qed
  assume "c \<in> set (id_to_hex i)"
  then obtain b :: u8 where "c = hex_digit (unat b div 16) \<or> c = hex_digit (unat b mod 16)"
    by (auto simp: id_to_hex_def hex_byte_def)
  moreover have "unat (b :: u8) div 16 < 16" for b by (rule less_mult_imp_div_less) simp
  ultimately show ?thesis using h by (metis mod_less_divisor zero_less_numeral)
qed

lemma key_names [simp]: "key_name ''ip''" "key_name ''port''" "key_name ''bootstrap''" "key_name ''state_file''"
  "key_name ''ttl_secs''" "key_name ''republish_secs''" "key_name ''rpc_timeout_ms''" "key_name ''rpc_max_retries''"
  "key_name ''node_id''" "key_name ''contacts''" "key_name ''id''" "key_name ''addr''"
  by (simp_all add: key_name_def)

lemma hex_no_quote [simp]: "QUOTE \<notin> set (id_to_hex i)" "CHR ''}'' \<notin> set (id_to_hex i)" "CHR '']'' \<notin> set (id_to_hex i)"
  "CHR ''['' \<notin> set (id_to_hex i)"
  using plain_no_quote_hex by auto

lemma decimal_no_quote [simp]: "QUOTE \<notin> set (decimal n)"
  using decimal_digits by auto

text \<open>The search for a key passes over a quoted value followed by a comma or a bracket, over a number and over
  another key.\<close>

lemma after_key_quoted:
  "key_name k \<Longrightarrow> QUOTE \<notin> set x \<Longrightarrow> c \<in> {CHR '','', CHR '']'', NEWLINE} \<Longrightarrow>
   after_key k (quoted x @ c # s) = after_key k s"
  using after_key_value [of k x c s] by (auto simp: quoted_def after_key_plain_1)

lemma after_key_NL2: "after_key k (NL2 @ s) = after_key k s"
  by (rule after_key_plain) simp

lemma after_key_number: "after_key k (decimal n @ s) = after_key k s"
  by (rule after_key_plain) simp

lemmas key_search = after_key_other after_key_plain_1 after_key_quoted after_key_NL2 after_key_number append.assoc append_Cons
  append_Nil key_names

lemma get_string_quoted: "after_key k json = Some ('' '' @ quoted x @ s) \<Longrightarrow> QUOTE \<notin> set x \<Longrightarrow> json_get_string json k = Some x"
  by (rule get_string_value) (simp_all add: quoted_def)

section \<open>Round trip of the state file\<close>

lemma body_id:
  assumes "QUOTE \<notin> set pre"
  shows "json_get_string (pre @ contact_body f c) ''id'' = Some (id_to_hex (ct_id c))"
proof -
  have "after_key ''id'' (pre @ contact_body f c) = Some ('' '' @ quoted (id_to_hex (ct_id c)) @ '', '' @
      json_key ''addr'' @ '' '' @ quoted (af_show f (ct_addr c)))"
    using assms by (simp add: contact_body_def after_key_plain_1)
  then show ?thesis by (rule get_string_quoted) simp
qed

lemma body_addr:
  assumes "QUOTE \<notin> set pre" "QUOTE \<notin> set (af_show f (ct_addr c))"
  shows "json_get_string (pre @ contact_body f c) ''addr'' = Some (af_show f (ct_addr c))"
proof -
  have "after_key ''addr'' (pre @ contact_body f c) = after_key ''addr'' (json_key ''id'' @ '' '' @
      quoted (id_to_hex (ct_id c)) @ '', '' @ json_key ''addr'' @ '' '' @ quoted (af_show f (ct_addr c)))"
    using assms(1) by (simp add: contact_body_def after_key_plain_1)
  also have "\<dots> = Some ('' '' @ quoted (af_show f (ct_addr c)) @ [])"
    by (simp add: after_key_other after_key_plain_1 after_key_quoted)
  finally show ?thesis using assms(2) by (rule get_string_quoted)
qed

text \<open>The contacts that the written list gives back; an address without plain text is not covered.\<close>

definition block_entry :: "string \<Rightarrow> (string \<times> string) option" where
  "block_entry block = (case json_get_string block ''id'' of
      None \<Rightarrow> None
    | Some i \<Rightarrow> map_option (\<lambda>a. (i, a)) (json_get_string block ''addr''))"

lemma block_entry_body:
  "QUOTE \<notin> set pre \<Longrightarrow> QUOTE \<notin> set (af_show f (ct_addr c)) \<Longrightarrow>
   block_entry (pre @ contact_body f c) = Some (id_to_hex (ct_id c), af_show f (ct_addr c))"
  by (simp add: block_entry_def body_id body_addr)

lemma block_entry_none: "QUOTE \<notin> set s \<Longrightarrow> block_entry s = None"
  using str_find_None [of "json_key ''id''" s] by (simp add: block_entry_def json_get_string_def after_key_def)

lemma body_no_brace: "addr_plain f (ct_addr c) \<Longrightarrow> CHR ''}'' \<notin> set (contact_body f c)"
  by (auto simp: contact_body_def json_key_def quoted_def addr_plain_def)

lemma body_no_bracket: "addr_plain f (ct_addr c) \<Longrightarrow> CHR '']'' \<notin> set (contact_body f c)"
  by (auto simp: contact_body_def json_key_def quoted_def addr_plain_def)

lemma addr_plain_quote: "addr_plain f a \<Longrightarrow> QUOTE \<notin> set (af_show f a)"
  by (auto simp: addr_plain_def)

lemma split_contacts:
  assumes "list_all (\<lambda>c. addr_plain f (ct_addr c)) cs" "cs \<noteq> []"
    "QUOTE \<notin> set pre" "CHR ''}'' \<notin> set pre" "block_entry post = None" "CHR ''}'' \<notin> set post"
    "QUOTE \<notin> set sep" "CHR ''}'' \<notin> set sep"
  shows "List.map_filter block_entry (split_on (CHR ''}'') (pre @ join_with sep (map (\<lambda>c. contact_body f c @ ''}'') cs) @ post)) =
    map (\<lambda>c. (id_to_hex (ct_id c), af_show f (ct_addr c))) cs"
  using assms
proof (induction cs arbitrary: pre)
  case (Cons c cs)
  have c: "addr_plain f (ct_addr c)" using Cons.prems(1) by simp
  have s: "split_on (CHR ''}'') (pre @ contact_body f c @ CHR ''}'' # rest) = (pre @ contact_body f c) # split_on (CHR ''}'') rest" for rest
    using split_on_append [of "CHR ''}''" "pre @ contact_body f c" rest] Cons.prems(4) body_no_brace [OF c] by simp
  have e: "block_entry (pre @ contact_body f c) = Some (id_to_hex (ct_id c), af_show f (ct_addr c))"
    by (rule block_entry_body [OF Cons.prems(3) addr_plain_quote [OF c]])
  show ?case
  proof (cases cs)
    case Nil
    then show ?thesis using s [of post] e Cons.prems(5,6)
      by (simp add: split_on_plain List.map_filter_simps)
  next
    case (Cons d ds)
    then have "List.map_filter block_entry (split_on (CHR ''}'') (sep @ join_with sep (map (\<lambda>c. contact_body f c @ ''}'') cs) @ post)) =
        map (\<lambda>c. (id_to_hex (ct_id c), af_show f (ct_addr c))) cs"
      using Cons.IH [of sep] Cons.prems by simp
    then show ?thesis using Cons s [of "sep @ join_with sep (map (\<lambda>c. contact_body f c @ ''}'') cs) @ post"] e
      by (simp add: List.map_filter_simps)
  qed
qed simp

text \<open>The text between the brackets.\<close>

lemma json_brackets_value:
  assumes "after_key k json = Some ('' ['' @ inner @ CHR '']'' # s)" "CHR '']'' \<notin> set inner"
  shows "json_brackets json k = Done (Some inner)"
proof -
  have "str_find '']'' ('' ['' @ inner @ CHR '']'' # s) = Some (2 + length inner)"
    using str_find_char [of "CHR '']''" "'' ['' @ inner" s] assms(2) by simp
  moreover have "str_find ''['' ('' ['' @ inner @ CHR '']'' # s) = Some 1" by simp
  ultimately show ?thesis using assms(1) by (simp add: json_brackets_def str_range_def)
qed

lemma join_no_bracket:
  "\<forall>x \<in> set xs. c \<notin> set x \<Longrightarrow> c \<notin> set sep \<Longrightarrow> c \<notin> set (join_with sep xs)"
  by (induction sep xs rule: join_with.induct) auto

lemma save_state_contacts:
  assumes "list_all (\<lambda>c. addr_plain f (ct_addr c)) cs"
  shows "json_get_contacts_array (save_state f i cs) =
    Done (Some (map (\<lambda>c. (id_to_hex (ct_id c), af_show f (ct_addr c))) cs))"
proof -
  let ?sep = "'','' @ NEWLINE # ''    ''" and ?pre = "NEWLINE # ''    ''"
  let ?inner = "?pre @ join_with ?sep (map (\<lambda>c. contact_body f c @ ''}'') cs) @ NL2"
  have a: "after_key ''contacts'' (save_state f i cs) = Some ('' ['' @ ?inner @ CHR '']'' # [NEWLINE, CHR ''}''])"
    by (simp add: save_state_def after_key_other after_key_plain_1 after_key_quoted)
  have "\<forall>x \<in> set (map (\<lambda>c. contact_body f c @ ''}'') cs). CHR '']'' \<notin> set x"
    using assms body_no_bracket by (auto simp: list_all_iff)
  then have "CHR '']'' \<notin> set ?inner" using join_no_bracket [of _ "CHR '']''" ?sep] by simp
  note b = json_brackets_value [OF a this]
  have "List.map_filter block_entry (split_on (CHR ''}'') ?inner) = map (\<lambda>c. (id_to_hex (ct_id c), af_show f (ct_addr c))) cs"
  proof (cases "cs = []")
    case True
    have "block_entry (?pre @ NL2) = None" by (rule block_entry_none) simp
    then show ?thesis using True split_on_plain [of "CHR ''}''" "?pre @ NL2"] by (simp add: List.map_filter_simps)
  next
    case False
    show ?thesis by (rule split_contacts [OF assms False]) (simp_all add: block_entry_none)
  qed
  then show ?thesis using b by (simp add: json_get_contacts_array_def block_entry_def [abs_def])
qed

lemma load_contacts_saved:
  assumes "list_all (\<lambda>c. wf_id (ct_id c) \<and> addr_plain f (ct_addr c)) cs"
  shows "load_contacts f now (map (\<lambda>c. (id_to_hex (ct_id c), af_show f (ct_addr c))) cs) =
    Done (map (\<lambda>c. contact_new now (ct_id c) (ct_addr c)) cs)"
  using assms by (induction cs) (simp_all add: id_hex_roundtrip addr_plain_def)

text \<open>What is saved is restored, with the contacts seen now.\<close>

lemma state_roundtrip:
  assumes "wf_id i" "list_all (\<lambda>c. wf_id (ct_id c) \<and> addr_plain f (ct_addr c)) cs"
  shows "load_state f now (save_state f i cs) = Done (Ok (i, map (\<lambda>c. contact_new now (ct_id c) (ct_addr c)) cs))"
proof -
  have "after_key ''node_id'' (save_state f i cs) = Some ('' '' @ quoted (id_to_hex i) @ '','' @ NL2 @
      json_key ''contacts'' @ '' ['' @ NEWLINE # ''    '' @
     join_with ('','' @ NEWLINE # ''    '') (map (\<lambda>c. contact_body f c @ ''}'') cs) @ NL2 @ '']'' @ [NEWLINE] @ ''}'')"
    by (simp add: save_state_def after_key_plain_1)
  then have n: "json_get_string (save_state f i cs) ''node_id'' = Some (id_to_hex i)" by (rule get_string_quoted) simp
  have "list_all (\<lambda>c. addr_plain f (ct_addr c)) cs" using assms(2) by (simp add: list_all_iff)
  from save_state_contacts [OF this] show ?thesis
    using n id_hex_roundtrip [OF assms(1)] load_contacts_saved [OF assms(2)] by (simp add: load_state_def)
qed

section \<open>Brackets\<close>

text \<open>The list ends at the first closing bracket, that of an IPv6 address; a closing bracket before the opening
  one makes the slice panic.\<close>

lemma json_brackets_panics:
  assumes "after_key k json = Some (x @ CHR '']'' # y @ CHR ''['' # s)" "CHR '']'' \<notin> set x" "CHR ''['' \<notin> set (x @ y)"
  shows "json_brackets json k = Panic"
proof -
  have "str_find '']'' (x @ CHR '']'' # y @ CHR ''['' # s) = Some (length x)" by (rule str_find_char [OF assms(2)])
  moreover have "str_find ''['' (x @ CHR '']'' # y @ CHR ''['' # s) = Some (length x + Suc (length y))"
    using str_find_char [of "CHR ''[''" "x @ CHR '']'' # y" s] assms(3) by simp
  ultimately show ?thesis using assms(1) by (simp add: json_brackets_def str_range_def)
qed

text \<open>Of the saved contacts only those before the first one with an IPv6 address are restored.\<close>

definition v6_text :: "addr_fmt \<Rightarrow> socket_addr \<Rightarrow> string \<Rightarrow> string \<Rightarrow> bool" where
  "v6_text f a x y \<longleftrightarrow> af_show f a = CHR ''['' # x @ CHR '']'' # y \<and> QUOTE \<notin> set x \<and> CHR '']'' \<notin> set x \<and> CHR ''}'' \<notin> set x"

definition cut_body :: "contact \<Rightarrow> string \<Rightarrow> string" where
  "cut_body c x = ''{'' @ json_key ''id'' @ '' '' @ quoted (id_to_hex (ct_id c)) @ '', '' @ json_key ''addr'' @
     '' '' @ QUOTE # CHR ''['' # x"

lemma cut_body_none:
  assumes "QUOTE \<notin> set pre" "QUOTE \<notin> set x" shows "block_entry (pre @ cut_body c x) = None"
proof -
  have a: "after_key ''addr'' (pre @ cut_body c x) = Some ('' '' @ QUOTE # CHR ''['' # x)"
    using assms(1) by (simp add: cut_body_def after_key_plain_1 after_key_other after_key_quoted)
  have "str_find [QUOTE] (CHR ''['' # x) = None" using assms(2) str_find_None [of "[QUOTE]" "CHR ''['' # x"] by simp
  then have "json_get_string (pre @ cut_body c x) ''addr'' = None" using a by (simp add: json_get_string_def)
  then show ?thesis by (simp add: block_entry_def split: option.split)
qed

lemma join_with_append:
  "xs \<noteq> [] \<Longrightarrow> ys \<noteq> [] \<Longrightarrow> join_with sep (xs @ ys) = join_with sep xs @ sep @ join_with sep ys"
proof (induction sep xs rule: join_with.induct)
  case (2 sep x)
  then show ?case by (cases ys) auto
qed auto

lemma join_with_Cons: "\<exists>r. join_with sep (x # xs) = x @ r"
  by (cases xs) auto

lemma state_v6_cut:
  assumes cs: "list_all (\<lambda>c. addr_plain f (ct_addr c)) cs" and c: "v6_text f (ct_addr c) x y"
  shows "json_get_contacts_array (save_state f i (cs @ c # ds)) =
    Done (Some (map (\<lambda>c. (id_to_hex (ct_id c), af_show f (ct_addr c))) cs))"
proof -
  let ?sep = "'','' @ NEWLINE # ''    ''" and ?pre = "NEWLINE # ''    ''" and ?blk = "\<lambda>c. contact_body f c @ ''}''"
  let ?lead = "if cs = [] then ?pre else ?pre @ join_with ?sep (map ?blk cs) @ ?sep"
  obtain r where r: "join_with ?sep (map ?blk (c # ds)) = ?blk c @ r"
    using join_with_Cons [of ?sep "?blk c" "map ?blk ds"] unfolding list.map(2) by blast
  have "?pre @ join_with ?sep (map ?blk (cs @ c # ds)) = ?lead @ ?blk c @ r"
    using join_with_append [of "map ?blk cs" "map ?blk (c # ds)" ?sep] r by simp
  moreover have "?blk c = cut_body c x @ CHR '']'' # y @ QUOTE # ''}''"
    using c by (simp add: contact_body_def cut_body_def quoted_def v6_text_def)
  ultimately have e: "?pre @ join_with ?sep (map ?blk (cs @ c # ds)) @ NL2 @ '']'' @ [NEWLINE] @ ''}'' =
      (?lead @ cut_body c x) @ CHR '']'' # (y @ QUOTE # ''}'' @ r @ NL2 @ '']'' @ [NEWLINE] @ ''}'')" by simp
  have "after_key ''contacts'' (save_state f i (cs @ c # ds)) =
      Some ('' ['' @ ?pre @ join_with ?sep (map ?blk (cs @ c # ds)) @ NL2 @ '']'' @ [NEWLINE] @ ''}'')"
    by (simp add: save_state_def after_key_other after_key_plain_1 after_key_quoted)
  then have a: "after_key ''contacts'' (save_state f i (cs @ c # ds)) =
      Some ('' ['' @ (?lead @ cut_body c x) @ CHR '']'' # (y @ QUOTE # ''}'' @ r @ NL2 @ '']'' @ [NEWLINE] @ ''}''))"
    unfolding e .
  have nx: "QUOTE \<notin> set x" "CHR '']'' \<notin> set x" "CHR ''}'' \<notin> set x" using c by (simp_all add: v6_text_def)
  have nc: "CHR '']'' \<notin> set (cut_body c x)" "CHR ''}'' \<notin> set (cut_body c x)"
    using nx by (simp_all add: cut_body_def json_key_def quoted_def)
  have "\<forall>z \<in> set (map ?blk cs). CHR '']'' \<notin> set z" using cs body_no_bracket by (auto simp: list_all_iff)
  then have "CHR '']'' \<notin> set (?lead @ cut_body c x)" using join_no_bracket [of _ "CHR '']''" ?sep] nc(1) by simp
  note b = json_brackets_value [OF a this]
  have "List.map_filter block_entry (split_on (CHR ''}'') (?lead @ cut_body c x)) =
      map (\<lambda>c. (id_to_hex (ct_id c), af_show f (ct_addr c))) cs"
  proof (cases "cs = []")
    case True
    then show ?thesis using split_on_plain [of "CHR ''}''" "?pre @ cut_body c x"] nc(2) cut_body_none [OF _ nx(1), of ?pre c]
      by (simp add: List.map_filter_simps)
  next
    case False
    have "List.map_filter block_entry (split_on (CHR ''}'') (?pre @ join_with ?sep (map ?blk cs) @ (?sep @ cut_body c x))) =
        map (\<lambda>c. (id_to_hex (ct_id c), af_show f (ct_addr c))) cs"
      by (rule split_contacts [OF cs False]) (use nc(2) cut_body_none [OF _ nx(1), of ?sep c] in simp_all)
    then show ?thesis using False by simp
  qed
  then show ?thesis using b by (simp add: json_get_contacts_array_def block_entry_def [abs_def])
qed

lemma state_v6_lost:
  assumes "wf_id i" "list_all (\<lambda>c. wf_id (ct_id c) \<and> addr_plain f (ct_addr c)) cs" "v6_text f (ct_addr c) x y"
  shows "load_state f now (save_state f i (cs @ c # ds)) = Done (Ok (i, map (\<lambda>c. contact_new now (ct_id c) (ct_addr c)) cs))"
proof -
  have "json_get_string (save_state f i (cs @ c # ds)) ''node_id'' = Some (id_to_hex i)"
    by (rule get_string_quoted) (simp_all add: save_state_def after_key_plain_1)
  moreover have "list_all (\<lambda>c. addr_plain f (ct_addr c)) cs" using assms(2) by (simp add: list_all_iff)
  ultimately show ?thesis
    using state_v6_cut [OF _ assms(3)] id_hex_roundtrip [OF assms(1)] load_contacts_saved [OF assms(2)]
    by (simp add: load_state_def)
qed

section \<open>Round trip of the configuration\<close>

lemma trim_quotes_quoted: "QUOTE \<notin> set x \<Longrightarrow> trim_quotes (quoted x) = x"
proof -
  assume q: "QUOTE \<notin> set x"
  have d: "dropWhile (\<lambda>c. c = QUOTE) (s @ QUOTE # t) = s @ QUOTE # t" if "QUOTE \<notin> set s" "s \<noteq> []" for s t
    using that by (cases s) auto
  have d': "dropWhile (\<lambda>c. c = QUOTE) s = s" if "QUOTE \<notin> set s" for s using that by (cases s) auto
  show ?thesis
  proof (cases "x = []")
    case False
    then show ?thesis using q d [of x "[]"] d' [of "rev x"] by (simp add: trim_quotes_def quoted_def)
  qed (simp add: trim_quotes_def quoted_def)
qed

lemma plain_quoted: "list_all plain_char x \<Longrightarrow> list_all plain_char (quoted x)"
  by (simp add: quoted_def plain_char_def)

lemma trim_item: "list_all plain_char x \<Longrightarrow> rust_trim (quoted x) = quoted x" "list_all plain_char x \<Longrightarrow> rust_trim ('' '' @ quoted x) = quoted x"
  using plain_quoted [of x]
  by (auto simp: rust_trim_def trim_start_space ws_head_plain trim_end.simps ws_tail_plain trim_start_stop)

lemma items_of_list:
  assumes "list_all (addr_plain f) as" "as \<noteq> []" "pre \<in> {[], '' ''}"
  shows "map (\<lambda>s. trim_quotes (rust_trim s)) (split_on (CHR '','') (pre @ join_with '', '' (map (\<lambda>a. quoted (af_show f a)) as))) =
    map (af_show f) as"
  using assms
proof (induction as arbitrary: pre)
  case (Cons a as)
  have a: "QUOTE \<notin> set (af_show f a)" "CHR '','' \<notin> set (af_show f a)" "list_all plain_char (af_show f a)"
    using Cons.prems(1) by (auto simp: addr_plain_def)
  have t: "trim_quotes (rust_trim (pre @ quoted (af_show f a))) = af_show f a"
    using Cons.prems(3) trim_item [OF a(3)] trim_quotes_quoted [OF a(1)] by auto
  have n: "CHR '','' \<notin> set (pre @ quoted (af_show f a))" using a(2) Cons.prems(3) by (auto simp: quoted_def)
  show ?case
  proof (cases as)
    case Nil
    then show ?thesis using t split_on_plain [OF n] by simp
  next
    case (Cons b bs)
    have "map (\<lambda>s. trim_quotes (rust_trim s)) (split_on (CHR '','') ('' '' @ join_with '', '' (map (\<lambda>a. quoted (af_show f a)) as))) =
        map (af_show f) as"
      using Cons.IH [of "'' ''"] Cons.prems(1) Cons by simp
    then show ?thesis using t split_on_append [OF n] Cons by simp
  qed
qed simp

lemma map_filter_show: "list_all (addr_plain f) as \<Longrightarrow> List.map_filter (af_parse f) (map (af_show f) as) = as"
  by (induction as) (simp_all add: addr_plain_def List.map_filter_simps)

lemma bootstrap_items:
  assumes "list_all (addr_plain f) as"
    "after_key ''bootstrap'' s = Some ('' ['' @ join_with '', '' (map (\<lambda>a. quoted (af_show f a)) as) @ CHR '']'' # r)"
  shows "json_get_array_strings s ''bootstrap'' = Done (Some (map (af_show f) as))"
proof -
  have "CHR '']'' \<notin> set (join_with '', '' (map (\<lambda>a. quoted (af_show f a)) as))"
    using assms(1) by (intro join_no_bracket) (auto simp: quoted_def addr_plain_def list_all_iff)
  note b = json_brackets_value [OF assms(2) this]
  show ?thesis
  proof (cases "as = []")
    case True
    have "trim_quotes (rust_trim []) = []" by (simp add: trim_quotes_def rust_trim_plain)
    then show ?thesis using b True by (simp add: json_get_array_strings_def)
  next
    case False
    have "filter (\<lambda>s. s \<noteq> []) (map (af_show f) as) = map (af_show f) as"
      using assms(1) by (induction as) (simp_all add: addr_plain_def)
    then show ?thesis using b items_of_list [OF assms(1) False, of "[]"] by (simp add: json_get_array_strings_def)
  qed
qed

text \<open>The number after a key.\<close>

lemma get_u64_number:
  assumes "after_key k json = Some ('' '' @ decimal n @ c # s)" "\<not> is_ascii_digit c" "n < 2 ^ 64"
  shows "json_get_u64 json k = Some (of_nat n)"
proof -
  have "unat (of_nat n :: u64) = n" using assms(3) by (simp add: unat_of_nat take_bit_nat_eq_self)
  then show ?thesis using get_u64_value [of k json "of_nat n" c s] assms by simp
qed

lemma after_key_items:
  assumes "key_name k" "list_all (\<lambda>a. QUOTE \<notin> set (af_show f a)) as"
  shows "after_key k (join_with '', '' (map (\<lambda>a. quoted (af_show f a)) as) @ CHR '']'' # s) = after_key k s"
  using assms(2)
proof (induction as)
  case (Cons a as)
  then show ?case using assms(1) after_key_quoted [OF assms(1), of "af_show f a"]
    by (cases as) (simp_all add: after_key_plain_1)
qed (simp add: after_key_plain_1)

lemma unat_u16_64: "unat (p :: u16) < 2 ^ 64"
proof -
  have "unat p < 2 ^ 16" using unsigned_less [of p] by simp
  then show ?thesis by simp
qed

lemma unat_u64_64: "unat (p :: u64) < 2 ^ 64"
  using unsigned_less [of p] by simp

text \<open>The members of the written configuration are found, one after the other.\<close>

lemma config_members:
  assumes "QUOTE \<notin> set (nc_ip c)" "QUOTE \<notin> set (nc_state_file c)" "list_all (\<lambda>a. QUOTE \<notin> set (af_show f a)) (nc_bootstrap c)"
  defines "s \<equiv> config_to_json f c"
  shows "json_get_string s ''ip'' = Some (nc_ip c)"
    and "json_get_u64 s ''port'' = Some (of_nat (unat (nc_port c)))"
    and "json_get_string s ''state_file'' = Some (nc_state_file c)"
    and "json_get_u64 s ''ttl_secs'' = Some (of_nat (unat (nc_ttl_secs c)))"
    and "json_get_u64 s ''republish_secs'' = Some (of_nat (unat (nc_republish_secs c)))"
    and "json_get_u64 s ''rpc_timeout_ms'' = Some (of_nat (unat (nc_rpc_timeout_ms c)))"
    and "json_get_u64 s ''rpc_max_retries'' = Some (of_nat (unat (nc_rpc_max_retries c)))"
    and "\<exists>r. after_key ''bootstrap'' s =
      Some ('' ['' @ join_with '', '' (map (\<lambda>a. quoted (af_show f a)) (nc_bootstrap c)) @ CHR '']'' # r)"
proof -
  note pass = s_def config_to_json_def after_key_plain_1 after_key_other after_key_quoted after_key_number after_key_items assms(1-3)
  have d: "\<not> is_ascii_digit CHR '',''" "\<not> is_ascii_digit NEWLINE" by (simp_all add: is_ascii_digit_def)
  show "json_get_string s ''ip'' = Some (nc_ip c)" by (rule get_string_quoted) (simp_all add: pass)
  show "json_get_u64 s ''port'' = Some (of_nat (unat (nc_port c)))"
    by (rule get_u64_number [OF _ d(1) unat_u16_64]) (simp add: pass)
  show "json_get_string s ''state_file'' = Some (nc_state_file c)" by (rule get_string_quoted) (simp_all add: pass)
  show "json_get_u64 s ''ttl_secs'' = Some (of_nat (unat (nc_ttl_secs c)))"
    by (rule get_u64_number [OF _ d(1) unat_u64_64]) (simp add: pass)
  show "json_get_u64 s ''republish_secs'' = Some (of_nat (unat (nc_republish_secs c)))"
    by (rule get_u64_number [OF _ d(1) unat_u64_64]) (simp add: pass)
  show "json_get_u64 s ''rpc_timeout_ms'' = Some (of_nat (unat (nc_rpc_timeout_ms c)))"
    by (rule get_u64_number [OF _ d(1) unat_u64_64]) (simp add: pass)
  show "json_get_u64 s ''rpc_max_retries'' = Some (of_nat (unat (nc_rpc_max_retries c)))"
    by (rule get_u64_number [OF _ d(2) unat_u64_64]) (simp add: pass)
  show "\<exists>r. after_key ''bootstrap'' s =
      Some ('' ['' @ join_with '', '' (map (\<lambda>a. quoted (af_show f a)) (nc_bootstrap c)) @ CHR '']'' # r)"
    by (simp add: pass)
qed

lemma port_roundtrip: "ucast (ucast p :: u64) = (p :: u16)"
  by transfer (simp add: take_bit_take_bit)

text \<open>A written configuration is read back, but for the flag that is not written.\<close>

lemma config_roundtrip:
  assumes "QUOTE \<notin> set (nc_ip c)" "QUOTE \<notin> set (nc_state_file c)" "list_all (addr_plain f) (nc_bootstrap c)"
  shows "config_from_json f (config_to_json f c) = Done (c\<lparr>nc_save_state_on_exit := True\<rparr>)"
proof -
  have q: "list_all (\<lambda>a. QUOTE \<notin> set (af_show f a)) (nc_bootstrap c)"
    using assms(3) addr_plain_quote by (auto simp: list_all_iff)
  note m = config_members [OF assms(1,2) q]
  obtain r where "after_key ''bootstrap'' (config_to_json f c) =
      Some ('' ['' @ join_with '', '' (map (\<lambda>a. quoted (af_show f a)) (nc_bootstrap c)) @ CHR '']'' # r)" using m(8) by blast
  note b = bootstrap_items [OF assms(3) this]
  show ?thesis
    by (cases c) (use m(1-7) b map_filter_show [OF assms(3)] in
      \<open>simp add: config_from_json_def port_roundtrip opt_set_def config_default_def\<close>)
qed

end
