(* ===== verification/Utf8_Text.thy ===== *)
theory Utf8_Text
  imports Rust_Strings
begin

text \<open>
  \<open>String::from_utf8_lossy\<close> of the standard library: the longest valid pieces stay, every maximal invalid piece
  becomes U+FFFD. Used for the text of messages and the identifiers of calls. ASCII text is kept, and the result is
  text that is kept in turn.
\<close>

definition utf8_cont :: "u8 \<Rightarrow> bool" where
  "utf8_cont b \<longleftrightarrow> 0x80 \<le> b \<and> b \<le> 0xBF"

definition byte_at :: "bytes \<Rightarrow> nat \<Rightarrow> u8" where
  "byte_at bs i = (if i < length bs then bs ! i else 0)"

text \<open>The second byte that the first one admits, for characters of three and of four bytes.\<close>

definition second_of_3 :: "u8 \<Rightarrow> u8 \<Rightarrow> bool" where
  "second_of_3 a b \<longleftrightarrow> (a = 0xE0 \<and> 0xA0 \<le> b \<and> b \<le> 0xBF) \<or> (0xE1 \<le> a \<and> a \<le> 0xEC \<and> utf8_cont b) \<or>
     (a = 0xED \<and> 0x80 \<le> b \<and> b \<le> 0x9F) \<or> (0xEE \<le> a \<and> a \<le> 0xEF \<and> utf8_cont b)"

definition second_of_4 :: "u8 \<Rightarrow> u8 \<Rightarrow> bool" where
  "second_of_4 a b \<longleftrightarrow> (a = 0xF0 \<and> 0x90 \<le> b \<and> b \<le> 0xBF) \<or> (0xF1 \<le> a \<and> a \<le> 0xF3 \<and> utf8_cont b) \<or>
     (a = 0xF4 \<and> 0x80 \<le> b \<and> b \<le> 0x8F)"

text \<open>Length of the piece that \<open>bs\<close> starts with, and whether it is valid.\<close>

definition piece_of :: "u8 \<Rightarrow> u8 \<Rightarrow> u8 \<Rightarrow> u8 \<Rightarrow> nat \<times> bool" where
  "piece_of a b c d =
    (if a < 0x80 then (1, True)
     else if 0xC2 \<le> a \<and> a \<le> 0xDF then (if utf8_cont b then (2, True) else (1, False))
     else if 0xE0 \<le> a \<and> a \<le> 0xEF then
       (if \<not> second_of_3 a b then (1, False) else if utf8_cont c then (3, True) else (2, False))
     else if 0xF0 \<le> a \<and> a \<le> 0xF4 then
       (if \<not> second_of_4 a b then (1, False) else if \<not> utf8_cont c then (2, False)
        else if utf8_cont d then (4, True) else (3, False))
     else (1, False))"

definition utf8_piece :: "bytes \<Rightarrow> nat \<times> bool" where
  "utf8_piece bs = piece_of (byte_at bs 0) (byte_at bs 1) (byte_at bs 2) (byte_at bs 3)"

definition REPLACEMENT :: bytes where "REPLACEMENT = [0xEF, 0xBF, 0xBD]"

function utf8_lossy :: "bytes \<Rightarrow> bytes" where
  "utf8_lossy [] = []"
| "utf8_lossy (a # bs) = (case utf8_piece (a # bs) of (n, ok) \<Rightarrow>
     (if ok then take n (a # bs) else REPLACEMENT) @ utf8_lossy (drop (n - 1) bs))"
  by pat_completeness auto
termination by (relation "measure length") auto

definition text_of :: "bytes \<Rightarrow> string" where
  "text_of bs = map (\<lambda>b. char_of (unat b)) (utf8_lossy bs)"

lemma utf8_lossy_ascii: "list_all (\<lambda>b. b < 0x80) bs \<Longrightarrow> utf8_lossy bs = bs"
  by (induction bs rule: utf8_lossy.induct) (auto simp: utf8_piece_def piece_of_def byte_at_def)

text \<open>A valid piece is recognised whatever follows it.\<close>

lemma byte_at_append: "i < length xs \<Longrightarrow> byte_at (xs @ ys) i = byte_at xs i"
  by (simp add: byte_at_def nth_append)

lemma utf8_cont_zero [simp]: "\<not> utf8_cont 0"
  by (simp add: utf8_cont_def)

lemma second_zero [simp]: "\<not> second_of_3 a 0" "\<not> second_of_4 a 0"
  by (auto simp: second_of_3_def second_of_4_def)

lemma byte_at_take: "byte_at (take n bs @ ys) i = byte_at bs i" if "i < n" "i < length bs"
  using that by (auto simp: byte_at_def nth_append min_def)

lemma byte_at_nonzero: "byte_at bs i \<noteq> 0 \<Longrightarrow> i < length bs"
  by (auto simp: byte_at_def split: if_splits)

lemma cont_in: "utf8_cont (byte_at bs i) \<Longrightarrow> i < length bs" "second_of_3 a (byte_at bs i) \<Longrightarrow> i < length bs"
  "second_of_4 a (byte_at bs i) \<Longrightarrow> i < length bs"
  by (rule byte_at_nonzero, metis utf8_cont_zero second_zero)+

lemma piece_of_cases:
  assumes "piece_of a b c d = (n, True)"
  shows "n = 1 \<or> n = 2 \<and> utf8_cont b \<or> n = 3 \<and> utf8_cont c \<or> n = 4 \<and> utf8_cont d"
  using assms by (auto simp: piece_of_def split: if_splits)

lemma piece_of_local:
  assumes "piece_of a b c d = (n, True)" "1 < n \<longrightarrow> b' = b" "2 < n \<longrightarrow> c' = c" "3 < n \<longrightarrow> d' = d"
  shows "piece_of a b' c' d' = (n, True)"
  using assms by (auto simp: piece_of_def split: if_splits)

lemma piece_length: "utf8_piece bs = (n, True) \<Longrightarrow> bs \<noteq> [] \<Longrightarrow> n \<le> length bs \<and> 0 < n"
  unfolding utf8_piece_def by (drule piece_of_cases) (auto dest!: cont_in simp: Suc_le_eq neq_Nil_conv)

lemma piece_prefix:
  assumes "utf8_piece bs = (n, True)" "bs \<noteq> []" shows "utf8_piece (take n bs @ ys) = (n, True)"
proof -
  have n: "n \<le> length bs" "0 < n" using piece_length [OF assms] by simp_all
  have b: "i < n \<longrightarrow> byte_at (take n bs @ ys) i = byte_at bs i" for i using n by (auto intro: byte_at_take)
  have a: "byte_at (take n bs @ ys) 0 = byte_at bs 0" using b n(2) by blast
  show ?thesis using assms(1) unfolding utf8_piece_def a by (rule piece_of_local) (simp_all add: b)
qed

lemma lossy_piece:
  assumes "utf8_piece xs = (length xs, True)" "xs \<noteq> []" shows "utf8_lossy (xs @ ys) = xs @ utf8_lossy ys"
proof -
  obtain a bs where xs: "xs = a # bs" using assms(2) by (cases xs) auto
  have "utf8_piece (xs @ ys) = (length xs, True)" using piece_prefix [OF assms, of ys] by simp
  then show ?thesis by (simp add: xs)
qed

text \<open>What it gives is text: it stays as it is.\<close>

lemma utf8_lossy_idem: "utf8_lossy (utf8_lossy bs) = utf8_lossy bs"
proof (induction bs rule: utf8_lossy.induct)
  case (2 a bs)
  obtain n ok where p: "utf8_piece (a # bs) = (n, ok)" by fastforce
  let ?x = "if ok then take n (a # bs) else REPLACEMENT"
  have x: "utf8_piece ?x = (length ?x, True) \<and> ?x \<noteq> []"
  proof (cases ok)
    case True
    then have n: "utf8_piece (a # bs) = (n, True)" using p by simp
    note l = piece_length [OF n]
    from piece_prefix [OF n, of "[]"] l True show ?thesis by auto
  next
    case False
    then show ?thesis by (simp add: REPLACEMENT_def utf8_piece_def piece_of_def byte_at_def second_of_3_def utf8_cont_def)
  qed
  have "utf8_lossy (a # bs) = ?x @ utf8_lossy (drop (n - 1) bs)" by (simp add: p)
  then show ?case using lossy_piece [of ?x "utf8_lossy (drop (n - 1) bs)"] x "2.IH" [OF p [symmetric]] by simp
qed simp

lemma of_char_byte: "unat (of_char c :: u8) = of_char c"
proof -
  have "(of_char c :: u8) = of_nat (of_char c)" by (simp only: of_nat_of_char)
  moreover have "(of_char c :: nat) < 256" by (rule nat_of_char_less_256)
  ultimately show ?thesis by (simp add: unat_of_nat take_bit_nat_eq_self)
qed

lemma text_of_ascii:
  assumes "list_all (\<lambda>c. (of_char c :: nat) < 0x80) s" shows "text_of (map of_char s) = s"
proof -
  have "list_all (\<lambda>b. b < 0x80) (map of_char s :: bytes)"
    using assms of_char_byte by (simp add: list_all_iff word_less_nat_alt)
  then have "utf8_lossy (map of_char s) = map of_char s" by (rule utf8_lossy_ascii)
  then show ?thesis by (simp add: text_of_def comp_def of_char_byte)
qed

end
