(* ===== verification/Upnp.thy ===== *)
theory Upnp
  imports Json_Text Utf8_Text Kad_Node
begin

text \<open>
  Port mapping on the gateway (\<open>upnp.rs\<close>): UPnP over SSDP, HTTP and SOAP, and NAT-PMP when that fails. What the gateway answers is an
  argument, an answer that does not come in time is none; what is sent is a result. The lemmas give the round trip of an address of
  the description, say what counts as success, and show which client the gateway is asked to forward to.
\<close>

section \<open>Text\<close>

definition CRLF :: string where "CRLF = [CHR 0x0D, CHR 0x0A]"

text \<open>\<open>splitn(2, d)\<close>: the part before the first \<open>d\<close>, and the rest if there is one. \<open>lines\<close> ends a line at a line feed and drops a
  carriage return before it.\<close>

fun split_once :: "char \<Rightarrow> string \<Rightarrow> string \<times> string option" where
  "split_once d [] = ([], None)"
| "split_once d (c # s) = (if c = d then ([], Some s) else (case split_once d s of (a, r) \<Rightarrow> (c # a, r)))"

definition drop_cr :: "string \<Rightarrow> string" where
  "drop_cr l = (if l \<noteq> [] \<and> List.last l = CHR 0x0D then butlast l else l)"

definition text_lines :: "string \<Rightarrow> string list" where
  "text_lines s = (let ps = split_on NEWLINE s in
     map drop_cr (butlast ps) @ (if List.last ps = [] then [] else [List.last ps]))"

definition to_ascii_lowercase :: "string \<Rightarrow> string" where
  "to_ascii_lowercase s = map (\<lambda>a. if 65 \<le> (of_char a :: nat) \<and> (of_char a :: nat) \<le> 90 then char_of ((of_char a :: nat) + 32) else a) s"

definition text_contains :: "string \<Rightarrow> string \<Rightarrow> bool" where
  "text_contains pat s \<longleftrightarrow> str_find pat s \<noteq> None"

text \<open>The trimmed text between two tags, the first ones that follow each other.\<close>

definition between_tags :: "string \<Rightarrow> string \<Rightarrow> string \<Rightarrow> string option" where
  "between_tags a b s = (case str_find a s of
      None \<Rightarrow> None
    | Some p \<Rightarrow> (let t = drop (p + length a) s in map_option (\<lambda>e. rust_trim (take e t)) (str_find b t)))"

text \<open>\<open>parse::<u16>()\<close>\<close>

definition parse_u16 :: "string \<Rightarrow> u16 option" where
  "parse_u16 s = (let ds = (case s of c # cs \<Rightarrow> if c = CHR ''+'' then cs else s | [] \<Rightarrow> s) in
     if ds = [] \<or> \<not> list_all is_ascii_digit ds \<or> digits_value ds \<ge> 2 ^ 16 then None else Some (of_nat (digits_value ds)))"

section \<open>Addresses\<close>

definition HTTP :: string where "HTTP = ''http://''"

definition without_prefix :: "string \<Rightarrow> string \<Rightarrow> string" where
  "without_prefix p s = (if starts_with p s then drop (length p) s else s)"

definition parse_http_url :: "string \<Rightarrow> string \<times> u16 \<times> string" where
  "parse_http_url url =
     (let (host_port, rest) = split_once (CHR ''/'') (without_prefix HTTP url);
          path = (case rest of Some p \<Rightarrow> CHR ''/'' # p | None \<Rightarrow> ''/'');
          hp = split_on (CHR '':'') host_port in
      (hp ! 0, if length hp > 1 then (case parse_u16 (hp ! 1) of Some p \<Rightarrow> p | None \<Rightarrow> 80) else 80, path))"

text \<open>The address of the description in the answer to the search.\<close>

definition location_of :: "string \<Rightarrow> string option" where
  "location_of resp = (case find (\<lambda>l. starts_with ''location:'' (to_ascii_lowercase l)) (text_lines resp) of
      None \<Rightarrow> None
    | Some l \<Rightarrow> map_option rust_trim (snd (split_once (CHR '':'') l)))"

section \<open>UPnP\<close>

definition quoted_text :: "string \<Rightarrow> string" where
  "quoted_text s = QUOTE # s @ [QUOTE]"

definition WAN_IP :: string where "WAN_IP = ''urn:schemas-upnp-org:service:WANIPConnection:1''"
definition WAN_PPP :: string where "WAN_PPP = ''urn:schemas-upnp-org:service:WANPPPConnection:1''"

definition SSDP_SEARCH :: string where
  "SSDP_SEARCH = ''M-SEARCH * HTTP/1.1'' @ CRLF @ ''HOST: 239.255.255.250:1900'' @ CRLF @ ''MAN: '' @ quoted_text ''ssdp:discover'' @ CRLF @
     ''MX: 1'' @ CRLF @ ''ST: urn:schemas-upnp-org:device:InternetGatewayDevice:1'' @ CRLF @ CRLF"

definition http_addr :: "string \<Rightarrow> u16 \<Rightarrow> string" where
  "http_addr host port = host @ '':'' @ decimal (unat port)"

definition get_request :: "string \<Rightarrow> u16 \<Rightarrow> string \<Rightarrow> string" where
  "get_request host port path = ''GET '' @ path @ '' HTTP/1.1'' @ CRLF @ ''HOST: '' @ http_addr host port @ CRLF @ ''Connection: close'' @ CRLF @ CRLF"

datatype upnp_error = UpnpBindFailed | SsdpTimeout | NoLocation | NoDescription | NoWanService | SoapSilent | SoapRefused | NoExternalIp | NoNatPmp

text \<open>The service in the description, and the path of its control URL; a path without a slash gets one.\<close>

definition control_of :: "string \<Rightarrow> upnp_error + string \<times> string" where
  "control_of xml =
     (let chosen = (if text_contains WAN_IP xml then Some WAN_IP else if text_contains WAN_PPP xml then Some WAN_PPP else None) in
      case chosen of
        None \<Rightarrow> Err NoWanService
      | Some svc \<Rightarrow> Ok (svc, (case str_find svc xml of
            None \<Rightarrow> ''/ctl/IPConn''
          | Some pos \<Rightarrow> (case between_tags ''<controlURL>'' ''</controlURL>'' (drop pos xml) of
                None \<Rightarrow> ''/ctl/IPConn''
              | Some c \<Rightarrow> if starts_with ''/'' c then c else CHR ''/'' # c))))"

definition soap_envelope :: "string \<Rightarrow> string" where
  "soap_envelope inner = ''<?xml version='' @ quoted_text ''1.0'' @ ''?>'' @ CRLF @
     ''<s:Envelope xmlns:s='' @ quoted_text ''http://schemas.xmlsoap.org/soap/envelope/'' @ '' s:encodingStyle='' @
     quoted_text ''http://schemas.xmlsoap.org/soap/encoding/'' @ ''>'' @ CRLF @ ''<s:Body>'' @ CRLF @ inner @ ''</s:Body>'' @ CRLF @ ''</s:Envelope>''"

definition xml_tag :: "string \<Rightarrow> string \<Rightarrow> string" where
  "xml_tag name x = ''<'' @ name @ ''>'' @ x @ ''</'' @ name @ ''>'' @ CRLF"

definition mapping_body :: "string \<Rightarrow> u16 \<Rightarrow> string \<Rightarrow> string" where
  "mapping_body svc port client = soap_envelope (''<u:AddPortMapping xmlns:u='' @ quoted_text svc @ ''>'' @ CRLF @
     xml_tag ''NewRemoteHost'' [] @ xml_tag ''NewExternalPort'' (decimal (unat port)) @ xml_tag ''NewProtocol'' ''UDP'' @
     xml_tag ''NewInternalPort'' (decimal (unat port)) @ xml_tag ''NewInternalClient'' client @ xml_tag ''NewEnabled'' ''1'' @
     xml_tag ''NewPortMappingDescription'' ''NodeX-P2P'' @ xml_tag ''NewLeaseDuration'' ''3600'' @ ''</u:AddPortMapping>'' @ CRLF)"

definition external_ip_body :: "string \<Rightarrow> string" where
  "external_ip_body svc = soap_envelope (''<u:GetExternalIPAddress xmlns:u='' @ quoted_text svc @ ''>'' @ CRLF @ ''</u:GetExternalIPAddress>'' @ CRLF)"

definition soap_request :: "string \<Rightarrow> u16 \<Rightarrow> string \<Rightarrow> string \<Rightarrow> string \<Rightarrow> string \<Rightarrow> string" where
  "soap_request host port path svc action body = ''POST '' @ path @ '' HTTP/1.1'' @ CRLF @ ''HOST: '' @ http_addr host port @ CRLF @
     ''SOAPACTION: '' @ quoted_text (svc @ ''#'' @ action) @ CRLF @ ''CONTENT-TYPE: text/xml; charset='' @ quoted_text ''utf-8'' @ CRLF @
     ''CONTENT-LENGTH: '' @ decimal (length body) @ CRLF @ ''CONNECTION: close'' @ CRLF @ CRLF @ body"

definition soap_add_port_mapping :: "bytes option \<Rightarrow> upnp_error + unit" where
  "soap_add_port_mapping resp = (case resp of
      None \<Rightarrow> Err SoapSilent
    | Some b \<Rightarrow> if text_contains ''200 OK'' (text_of b) \<or> text_contains ''<u:AddPortMappingResponse'' (text_of b) then Ok () else Err SoapRefused)"

definition soap_get_external_ip :: "bytes option \<Rightarrow> upnp_error + string" where
  "soap_get_external_ip resp = (case resp of
      None \<Rightarrow> Err SoapSilent
    | Some b \<Rightarrow> (case between_tags ''<NewExternalIPAddress>'' ''</NewExternalIPAddress>'' (text_of b) of
          Some ip \<Rightarrow> Ok ip
        | None \<Rightarrow> Err NoExternalIp))"

record upnp_status =
  us_enabled :: bool
  us_mapped_port :: "u16 option"
  us_external_ip :: "string option"
  us_error :: "string option"

text \<open>The answers: to the search, to the request for the description, to both SOAP calls, to the request of NAT-PMP. The text of the
  address that the socket is bound to is an argument too. A request counts as sent when it is tried, also when the gateway refuses
  the connection. The buffer for the answer to the search has 2048 bytes, a longer datagram is cut.\<close>

record upnp_answers =
  ua_socket :: bool
  ua_local_ip :: "string option"
  ua_search :: "bytes option"
  ua_description :: "bytes option"
  ua_mapping :: "bytes option"
  ua_external :: "bytes option"
  ua_natpmp :: "bytes option"
  ua_in_time :: bool

datatype upnp_sent = UpnpSearch string | UpnpGet string u16 string | UpnpPost string u16 string | NatPmp bytes

definition local_client :: "string option \<Rightarrow> string" where
  "local_client ip = (case ip of Some i \<Rightarrow> i | None \<Rightarrow> ''192.168.1.100'')"

definition try_upnp_soap :: "u16 \<Rightarrow> upnp_answers \<Rightarrow> (upnp_error + upnp_status) \<times> upnp_sent list" where
  "try_upnp_soap port A =
     (if \<not> ua_socket A then (Err UpnpBindFailed, [])
      else (case ua_search A of
          None \<Rightarrow> (Err SsdpTimeout, [UpnpSearch SSDP_SEARCH])
        | Some b \<Rightarrow> (case location_of (text_of (take 2048 b)) of
              None \<Rightarrow> (Err NoLocation, [UpnpSearch SSDP_SEARCH])
            | Some loc \<Rightarrow>
                (let (host, hport, path) = parse_http_url loc;
                     sent = [UpnpSearch SSDP_SEARCH, UpnpGet host hport (get_request host hport path)] in
                 case ua_description A of
                   None \<Rightarrow> (Err NoDescription, sent)
                 | Some d \<Rightarrow> (case control_of (text_of d) of
                       Inl e \<Rightarrow> (Err e, sent)
                     | Inr (svc, control) \<Rightarrow>
                         (let sent = sent @ [UpnpPost host hport (soap_request host hport control svc ''AddPortMapping''
                                (mapping_body svc port (local_client (ua_local_ip A))))] in
                          case soap_add_port_mapping (ua_mapping A) of
                            Inl e \<Rightarrow> (Err e, sent)
                          | Inr _ \<Rightarrow>
                              (Ok \<lparr>us_enabled = True, us_mapped_port = Some port,
                                  us_external_ip = (case soap_get_external_ip (ua_external A) of Inr ip \<Rightarrow> Some ip | Inl _ \<Rightarrow> None), us_error = None\<rparr>,
                               sent @ [UpnpPost host hport (soap_request host hport control svc ''GetExternalIPAddress'' (external_ip_body svc))])))))))"

section \<open>NAT-PMP\<close>

definition natpmp_request :: "u16 \<Rightarrow> bytes" where
  "natpmp_request port = [0, 1, 0, 0] @ be_bytes 2 port @ be_bytes 2 port @ be_bytes 4 (3600 :: u32)"

text \<open>The buffer for the answer has 16 bytes; a longer datagram is cut.\<close>

definition natpmp_reply :: "bytes \<Rightarrow> u16 option" where
  "natpmp_reply dgram = (let b = take 16 dgram in
     if length b \<ge> 16 \<and> b ! 0 = 0 \<and> b ! 1 = 129 \<and> (of_be [b ! 2, b ! 3] :: u16) = 0 then Some (of_be [b ! 10, b ! 11]) else None)"

definition try_nat_pmp :: "u16 \<Rightarrow> upnp_answers \<Rightarrow> (upnp_error + upnp_status) \<times> upnp_sent list" where
  "try_nat_pmp port A =
     (if \<not> ua_socket A then (Err UpnpBindFailed, [])
      else (case Option.bind (ua_natpmp A) natpmp_reply of
          Some ext \<Rightarrow> (Ok \<lparr>us_enabled = True, us_mapped_port = Some ext, us_external_ip = None, us_error = None\<rparr>, [NatPmp (natpmp_request port)])
        | None \<Rightarrow> (Err NoNatPmp, [NatPmp (natpmp_request port)])))"

section \<open>Both\<close>

definition not_mapped :: "string \<Rightarrow> upnp_status" where
  "not_mapped e = \<lparr>us_enabled = False, us_mapped_port = None, us_external_ip = None, us_error = Some e\<rparr>"

text \<open>Everything has to be done within two and a half seconds.\<close>

definition try_map_port :: "u16 \<Rightarrow> upnp_answers \<Rightarrow> upnp_status" where
  "try_map_port port A =
     (if \<not> ua_in_time A then not_mapped ''UPnP discovery timed out or router does not support IGD/NAT-PMP''
      else (case fst (try_upnp_soap port A) of
          Inr s \<Rightarrow> s
        | Inl _ \<Rightarrow> (case fst (try_nat_pmp port A) of
              Inr s \<Rightarrow> s
            | Inl _ \<Rightarrow> not_mapped (''Neither UPnP IGD nor NAT-PMP succeeded for port '' @ decimal (unat port)))))"

section \<open>What it does\<close>

lemma split_once_hit: "d \<notin> set a \<Longrightarrow> split_once d (a @ d # s) = (a, Some s)"
  by (induction a) auto

declare starts_with_append [simp]

lemma split_on_two: "d \<notin> set a \<Longrightarrow> d \<notin> set b \<Longrightarrow> split_on d (a @ d # b) = [a, b]"
  by (induction a) (auto simp: split_on_plain)

text \<open>An address as it is written is read.\<close>

lemma decimal_u16: "parse_u16 (decimal (unat (p :: u16))) = Some p"
proof -
  have l: "unat p < 2 ^ 16" using unsigned_less [of p] by simp
  have d: "list_all is_ascii_digit (decimal (unat p))" "decimal (unat p) \<noteq> []" using decimal_digits [of "unat p"] by simp_all
  have "hd (decimal (unat p)) \<noteq> CHR ''+''" using d by (cases "decimal (unat p)") (auto simp: is_ascii_digit_def)
  then have "(case decimal (unat p) of c # cs \<Rightarrow> if c = CHR ''+'' then cs else decimal (unat p) | [] \<Rightarrow> decimal (unat p)) = decimal (unat p)"
    by (cases "decimal (unat p)") simp_all
  then show ?thesis using l d by (simp add: parse_u16_def Let_def)
qed

lemma url_read:
  assumes "CHR '':'' \<notin> set host" "CHR ''/'' \<notin> set host"
  shows "parse_http_url (HTTP @ http_addr host port @ CHR ''/'' # path) = (host, port, CHR ''/'' # path)"
proof -
  have d: "c \<in> set (decimal n) \<Longrightarrow> is_ascii_digit c" for c n using decimal_digits [of n] by (simp add: list_all_iff)
  then have n: "CHR ''/'' \<notin> set (decimal (unat port))" "CHR '':'' \<notin> set (decimal (unat port))"
    using d [of "CHR ''/''" "unat port"] d [of "CHR '':''" "unat port"] by (auto simp: is_ascii_digit_def)
  have "CHR ''/'' \<notin> set (host @ CHR '':'' # decimal (unat port))" using assms(2) n(1) by simp
  from split_once_hit [OF this, of path]
  have s: "split_once (CHR ''/'') (host @ CHR '':'' # decimal (unat port) @ CHR ''/'' # path) = (host @ CHR '':'' # decimal (unat port), Some path)" by simp
  show ?thesis using assms n
    by (simp add: parse_http_url_def without_prefix_def s http_addr_def split_on_two decimal_u16 Let_def)
qed

text \<open>Success means that a gateway said so, in time: the answer to the mapping had the words of success, or the answer of NAT-PMP had
  the right version, operation and result.\<close>

lemma soap_success:
  assumes "try_upnp_soap port A = (Ok s, sent)"
  shows "ua_socket A" "us_mapped_port s = Some port" "soap_add_port_mapping (ua_mapping A) = Ok ()"
    "\<exists>host p control svc. UpnpPost host p (soap_request host p control svc ''AddPortMapping''
       (mapping_body svc port (local_client (ua_local_ip A)))) \<in> set sent"
proof -
  have k: "ua_socket A" using assms by (auto simp: try_upnp_soap_def split: if_splits)
  then obtain b where b: "ua_search A = Some b" using assms by (auto simp: try_upnp_soap_def split: option.splits)
  then obtain loc where loc: "location_of (text_of (take 2048 b)) = Some loc" using assms k by (auto simp: try_upnp_soap_def split: option.splits)
  obtain host p path where u: "parse_http_url loc = (host, p, path)" by (cases "parse_http_url loc")
  obtain d where d: "ua_description A = Some d" using assms k b loc u by (auto simp: try_upnp_soap_def Let_def split: option.splits)
  obtain svc control where c: "control_of (text_of d) = Ok (svc, control)"
    using assms k b loc u d by (auto simp: try_upnp_soap_def Let_def split: sum.splits)
  have ok: "soap_add_port_mapping (ua_mapping A) = Ok ()"
    using assms k b loc u d c by (auto simp: try_upnp_soap_def Let_def split: sum.splits)
  show "ua_socket A" by (rule k)
  show "soap_add_port_mapping (ua_mapping A) = Ok ()" by (rule ok)
  have "us_mapped_port s = Some port \<and>
      UpnpPost host p (soap_request host p control svc ''AddPortMapping'' (mapping_body svc port (local_client (ua_local_ip A)))) \<in> set sent"
    using assms by (auto simp: try_upnp_soap_def k b loc u d c ok Let_def)
  then show "us_mapped_port s = Some port"
    "\<exists>host p control svc. UpnpPost host p (soap_request host p control svc ''AddPortMapping''
       (mapping_body svc port (local_client (ua_local_ip A)))) \<in> set sent" by blast+
qed

lemma natpmp_success:
  "try_nat_pmp port A = (Ok s, sent) \<Longrightarrow> ua_socket A \<and> (\<exists>b ext. ua_natpmp A = Some b \<and> natpmp_reply b = Some ext \<and> us_mapped_port s = Some ext)"
  by (auto simp: try_nat_pmp_def bind_eq_Some_conv split: if_splits option.splits)

lemma mapping_success:
  "soap_add_port_mapping r = Ok () \<Longrightarrow> \<exists>b. r = Some b \<and> (text_contains ''200 OK'' (text_of b) \<or> text_contains ''<u:AddPortMappingResponse'' (text_of b))"
  by (auto simp: soap_add_port_mapping_def split: option.splits if_splits)

lemma enabled_means:
  assumes "us_enabled (try_map_port port A)"
  shows "ua_in_time A \<and> ua_socket A \<and>
    (us_mapped_port (try_map_port port A) = Some port \<and>
       (\<exists>b. ua_mapping A = Some b \<and> (text_contains ''200 OK'' (text_of b) \<or> text_contains ''<u:AddPortMappingResponse'' (text_of b))) \<or>
     (\<exists>b ext. ua_natpmp A = Some b \<and> natpmp_reply b = Some ext \<and> us_mapped_port (try_map_port port A) = Some ext))"
proof -
  have t: "ua_in_time A" using assms by (auto simp: try_map_port_def not_mapped_def split: if_splits)
  show ?thesis
  proof (cases "fst (try_upnp_soap port A)")
    case (Inr s)
    then obtain sent where "try_upnp_soap port A = (Ok s, sent)" by (cases "try_upnp_soap port A") auto
    note ok = soap_success(1-3) [OF this]
    show ?thesis using t Inr ok(1,2) mapping_success [OF ok(3)] by (simp add: try_map_port_def)
  next
    case (Inl e)
    then obtain s where s: "fst (try_nat_pmp port A) = Ok s" using assms t
      by (cases "fst (try_nat_pmp port A)") (auto simp: try_map_port_def not_mapped_def)
    then obtain sent where "try_nat_pmp port A = (Ok s, sent)" by (cases "try_nat_pmp port A") auto
    from natpmp_success [OF this] show ?thesis using t Inl s by (simp add: try_map_port_def)
  qed
qed

text \<open>The request of NAT-PMP and its answer.\<close>

lemma natpmp_request_length: "length (natpmp_request port) = 12"
  by (simp add: natpmp_request_def)

lemma natpmp_reads:
  assumes "length epoch = 4" "length life = 4"
  shows "natpmp_reply ([0, 129, 0, 0] @ epoch @ be_bytes 2 port @ be_bytes 2 (ext :: u16) @ life) = Some ext"
proof -
  obtain a b c d where e: "epoch = [a, b, c, d]" using assms(1) by (auto simp: eval_nat_numeral length_Suc_conv)
  obtain p q where p: "be_bytes 2 port = [p, q]" by (simp add: be_bytes_def eval_nat_numeral)
  obtain x y where x: "be_bytes 2 ext = [x, y]" by (simp add: be_bytes_def eval_nat_numeral)
  have "(of_be [x, y] :: u16) = ext" using of_be_be_bytes_u16 [of ext] x by simp
  then show ?thesis using assms(2) by (simp add: natpmp_reply_def e p x Let_def of_be_def)
qed

text \<open>The socket of the search is bound to the address that stands for all interfaces, so its own address is no address of this host:
  that is what the gateway is asked to forward to.\<close>

lemma forwards_to_nobody:
  assumes "ua_local_ip A = Some ''0.0.0.0''" "try_upnp_soap port A = (Ok s, sent)"
  shows "\<exists>host p pre control svc post. UpnpPost host p (soap_request host p control svc ''AddPortMapping'' (mapping_body svc port ''0.0.0.0'')) \<in> set sent \<and>
    mapping_body svc port ''0.0.0.0'' = pre @ xml_tag ''NewInternalClient'' ''0.0.0.0'' @ post"
proof -
  obtain host p control svc where m: "UpnpPost host p (soap_request host p control svc ''AddPortMapping'' (mapping_body svc port ''0.0.0.0'')) \<in> set sent"
    using soap_success(4) [OF assms(2)] assms(1) by (auto simp: local_client_def)
  have "\<exists>pre post. mapping_body svc port ''0.0.0.0'' = pre @ xml_tag ''NewInternalClient'' ''0.0.0.0'' @ post"
    unfolding mapping_body_def soap_envelope_def by (metis append.assoc)
  then show ?thesis using m by blast
qed

text \<open>A control address that is a whole address is taken for a path.\<close>

lemma absolute_control:
  "control_of (WAN_IP @ ''<controlURL>http://10.0.0.1:80/c</controlURL>'') = Ok (WAN_IP, ''/http://10.0.0.1:80/c'')"
  by code_simp

end
