(* ===== verification/Bootstrap_Seed.thy ===== *)
theory Bootstrap_Seed
  imports Kademlia_Node
begin

text \<open>
  The node library that is deployed on the bootstrap server (\<open>deploy/linux/bootstrap-node-lib.rs\<close>), where it differs from the library of
  the application: merging of mailbox values and the request handler. The lemmas show that both answer alike whenever the
  JSON library writes what it read.
\<close>

section \<open>Merging\<close>

definition to_vec_or_empty :: "'j json_api \<Rightarrow> 'j list \<Rightarrow> bytes" where
  "to_vec_or_empty js es = (case js_many js es of Some b \<Rightarrow> b | None \<Rightarrow> [91, 93])"

text \<open>The two loops that drop the oldest envelope: while there are too many, and while they take too many bytes.\<close>

fun remove_while_many :: "'j list \<Rightarrow> nat \<Rightarrow> 'j list \<times> nat" where
  "remove_while_many [] pruned = ([], pruned)"
| "remove_while_many (e # es) pruned =
     (if length (e # es) > MAX_MAILBOX_ENVELOPES then remove_while_many es (pruned + 1) else (e # es, pruned))"

fun remove_while_long :: "'j json_api \<Rightarrow> 'j list \<Rightarrow> nat \<Rightarrow> 'j list \<times> nat" where
  "remove_while_long js [] pruned = ([], pruned)"
| "remove_while_long js (e # es) pruned =
     (if length (to_vec_or_empty js (e # es)) > MAX_MAILBOX_VALUE_BYTES then remove_while_long js es (pruned + 1) else (e # es, pruned))"

definition bounded_mailbox_merge :: "'j json_api \<Rightarrow> bytes option \<Rightarrow> bytes \<Rightarrow> bytes \<times> bool \<times> nat" where
  "bounded_mailbox_merge js existing incoming = (case js_parse js incoming of
      None \<Rightarrow> if length incoming \<le> MAX_VALUE_SIZE then (incoming, True, 0) else (opt_or existing [], False, 0)
    | Some new \<Rightarrow>
        (let envs = (case existing of Some b \<Rightarrow> opt_or (js_parse js b) [] | None \<Rightarrow> []);
             (envs, rejected) = merge_envelopes js new (envs, False);
             (envs, pruned) = remove_while_many envs 0;
             (envs, pruned) = remove_while_long js envs pruned;
             encoded = to_vec_or_empty js envs in
         if length encoded > MAX_MAILBOX_VALUE_BYTES then (opt_or existing [], False, pruned)
         else (encoded, \<not> rejected, pruned)))"

section \<open>The request handler\<close>

definition seed_handle_request ::
    "'j json_api \<Rightarrow> instant \<Rightarrow> node_id \<Rightarrow> rpc_message \<Rightarrow> routing_table \<Rightarrow> storage \<Rightarrow> rpc_message option \<times> storage" where
  "seed_handle_request js now local_id m rt s =
     (let reply = (\<lambda>p. Some \<lparr>rm_request_id = rm_request_id m, rm_sender_id = local_id, rm_payload = p\<rparr>) in
      case rm_payload m of
        Ping \<Rightarrow> (reply Pong, s)
      | Store key val \<Rightarrow>
          (let (merged, ok, _) = bounded_mailbox_merge js (storage_get now key s) val;
               s' = (if ok then storage_put now key merged DEFAULT_TTL s else s) in
           (reply (StoreAck ok), s'))
      | FindNode target \<Rightarrow> (reply (FindNodeResp (find_closest target K rt)), s)
      | FindValue key \<Rightarrow>
          (case storage_get now key s of
             Some val \<Rightarrow>
               (let (bounded, _, _) = bounded_mailbox_merge js None val in
                if length bounded < length val
                then (reply (FindValueResp (Some bounded) []), storage_put now key bounded DEFAULT_TTL s)
                else (reply (FindValueResp (Some val) []), s))
           | None \<Rightarrow> (reply (FindValueResp None (find_closest key K rt)), s))
      | _ \<Rightarrow> (None, s))"

section \<open>Both answer alike\<close>

definition writes_all :: "'j json_api \<Rightarrow> bool" where
  "writes_all js \<longleftrightarrow> (\<forall>es. js_many js es \<noteq> None)"

lemma to_vec_same: "writes_all js \<Longrightarrow> to_vec_or_empty js es = to_vec_or_default js es"
  by (auto simp: writes_all_def to_vec_or_empty_def to_vec_or_default_def split: option.split)

lemma many_drops: "remove_while_many es n = (drop_excess es, n + (length es - MAX_MAILBOX_ENVELOPES))"
proof (induction es arbitrary: n)
  case (Cons e es)
  show ?case
  proof (cases "length (e # es) > MAX_MAILBOX_ENVELOPES")
    case True
    then have "Suc (length es) - MAX_MAILBOX_ENVELOPES = Suc (length es - MAX_MAILBOX_ENVELOPES)" by simp
    then show ?thesis using True Cons.IH by (auto simp: drop_excess_def)
  next
    case False
    then show ?thesis by (simp add: drop_excess_def)
  qed
qed (simp add: drop_excess_def)

lemma long_prunes: "writes_all js \<Longrightarrow> remove_while_long js es n = (fst (prune_oldest js es), n + snd (prune_oldest js es))"
  by (induction es arbitrary: n) (simp_all add: to_vec_same Let_def)

text \<open>The value and whether it was taken are the same; the count of dropped envelopes, which is printed only, has those over the number here too.\<close>

lemma merges_agree:
  assumes "writes_all js"
  shows "fst (bounded_mailbox_merge js old new) = fst (merge_store_value js old new) \<and>
    fst (snd (bounded_mailbox_merge js old new)) = fst (snd (merge_store_value js old new)) \<and>
    snd (snd (merge_store_value js old new)) \<le> snd (snd (bounded_mailbox_merge js old new))"
  by (auto simp: bounded_mailbox_merge_def merge_store_value_def many_drops long_prunes [OF assms] to_vec_same [OF assms] case_prod_unfold Let_def
      split: option.split)

lemma handlers_agree:
  assumes "writes_all js"
  shows "seed_handle_request js now i m rt s = handle_request js now i m rt s"
  using merges_agree [OF assms]
  by (simp add: seed_handle_request_def handle_request_def case_prod_unfold Let_def split: rpc_payload.split option.split)

text \<open>A list that is not written makes the difference: the server stores the empty array, the application no bytes.\<close>

lemma unwritten_differs:
  assumes "js_parse js new = Some []" "js_many js [] = None"
  shows "fst (bounded_mailbox_merge js None new) = [91, 93]" "fst (merge_store_value js None new) = []"
  using assms by (simp_all add: bounded_mailbox_merge_def merge_store_value_def to_vec_or_empty_def to_vec_or_default_def drop_excess_def)

end
