(* ===== verification/Groups_Mesh.thy ===== *)
theory Groups_Mesh
  imports Json_Text Chunking
begin

text \<open>
  The small state components of the messenger: groups (\<open>groups.rs\<close>), the mesh routing table
  (\<open>mesh.rs\<close>), the block list (\<open>blocklist.rs\<close>), reactions (\<open>reactions.rs\<close>), call signals (\<open>calls.rs\<close>)
  and fingerprints (\<open>trust.rs\<close>, \<open>UserIdentity::fingerprint\<close>). Times are seconds since the epoch and arguments,
  random numbers are arguments. The lemmas say which route the mesh table gives, that it keeps no expired
  route and one per relay, and what membership operations do.
\<close>

section \<open>Helpers of the standard library\<close>

definition saturating_sub64 :: "u64 \<Rightarrow> u64 \<Rightarrow> u64" where
  "saturating_sub64 a b = (if b \<le> a then a - b else 0)"

definition saturating_add64 :: "u64 \<Rightarrow> u64 \<Rightarrow> u64" where
  "saturating_add64 a b = (if unat a + unat b < 2 ^ 64 then a + b else - 1)"

definition abs_diff64 :: "u64 \<Rightarrow> u64 \<Rightarrow> u64" where
  "abs_diff64 a b = (if b \<le> a then a - b else b - a)"

text \<open>\<open>{:x}\<close> and \<open>chars().count()\<close> of UTF-8 text; \<open>iter().min_by_key\<close> gives the first of the least.\<close>

fun lower_hex :: "nat \<Rightarrow> string" where
  "lower_hex n = (if n < 16 then [hex_digit n] else lower_hex (n div 16) @ [hex_digit (n mod 16)])"

declare lower_hex.simps [simp del]

definition chars_count :: "string \<Rightarrow> nat" where
  "chars_count s = length (filter (\<lambda>c. \<not> (128 \<le> (of_char c :: nat) \<and> (of_char c :: nat) < 192)) s)"

fun min_by_key :: "('a \<Rightarrow> 'b :: linorder) \<Rightarrow> 'a list \<Rightarrow> 'a option" where
  "min_by_key f [] = None"
| "min_by_key f (x # xs) = (case min_by_key f xs of
      None \<Rightarrow> Some x
    | Some y \<Rightarrow> if f x \<le> f y then Some x else Some y)"

lemma unat_saturating_sub64: "unat (saturating_sub64 a b) = unat a - unat b"
  by (simp add: saturating_sub64_def unat_sub word_le_nat_alt)

lemma unat_abs_diff64: "unat (abs_diff64 a b) = (if unat b \<le> unat a then unat a - unat b else unat b - unat a)"
  by (simp add: abs_diff64_def unat_sub word_le_nat_alt)

lemma unat_saturating_add64: "unat (saturating_add64 a b) = min (unat a + unat b) (2 ^ 64 - 1)"
proof (cases "unat a + unat b < 2 ^ 64")
  case True
  then show ?thesis by (simp add: saturating_add64_def unat_word_ariths take_bit_nat_eq_self)
next
  case False
  have "unat (- 1 :: u64) = 2 ^ 64 - 1" by (simp add: unsigned_minus_1_eq_mask mask_eq_exp_minus_1)
  then show ?thesis using False by (simp add: saturating_add64_def)
qed

lemma min_by_key_None [simp]: "min_by_key f xs = None \<longleftrightarrow> xs = []"
  by (cases xs) (auto split: option.splits)

lemma min_by_key_Some: "min_by_key f xs = Some y \<Longrightarrow> y \<in> set xs \<and> (\<forall>x \<in> set xs. f y \<le> f x)"
  by (induction xs arbitrary: y) (fastforce split: option.splits if_splits)+

section \<open>Groups\<close>

datatype group_role = Creator | Admin | Member

record group_member =
  gm_user_id :: string
  gm_name :: string
  gm_role :: group_role
  gm_joined_at :: u64

record p2p_group =
  pg_id :: string
  pg_title :: string
  pg_description :: string
  pg_creator_id :: string
  pg_members :: "(string \<times> group_member) list"
  pg_key_hex :: string
  pg_created_at :: u64
  pg_color :: u8

definition group_member_new :: "u64 \<Rightarrow> string \<Rightarrow> string \<Rightarrow> group_role \<Rightarrow> group_member" where
  "group_member_new now user name role = \<lparr>gm_user_id = user, gm_name = name, gm_role = role, gm_joined_at = now\<rparr>"

definition group_new :: "u64 \<Rightarrow> bytes \<Rightarrow> u32 \<Rightarrow> u8 \<Rightarrow> string \<Rightarrow> string \<Rightarrow> string \<Rightarrow> string \<Rightarrow> p2p_group" where
  "group_new now key_bytes rand_id rand_color title description creator creator_name =
     \<lparr>pg_id = ''grp_'' @ decimal (unat now) @ ''_'' @ lower_hex (unat rand_id), pg_title = title,
      pg_description = description, pg_creator_id = creator,
      pg_members = map_put creator (group_member_new now creator creator_name Creator) [],
      pg_key_hex = to_hex key_bytes, pg_created_at = now, pg_color = rand_color mod 6\<rparr>"

definition add_member :: "u64 \<Rightarrow> string \<Rightarrow> string \<Rightarrow> group_role \<Rightarrow> p2p_group \<Rightarrow> p2p_group" where
  "add_member now user name role g = g\<lparr>pg_members := map_put user (group_member_new now user name role) (pg_members g)\<rparr>"

definition remove_member :: "string \<Rightarrow> p2p_group \<Rightarrow> bool \<times> p2p_group" where
  "remove_member user g = (map_of (pg_members g) user \<noteq> None, g\<lparr>pg_members := map_del user (pg_members g)\<rparr>)"

definition is_member :: "string \<Rightarrow> p2p_group \<Rightarrow> bool" where
  "is_member user g \<longleftrightarrow> map_of (pg_members g) user \<noteq> None"

definition is_admin :: "string \<Rightarrow> p2p_group \<Rightarrow> bool" where
  "is_admin user g \<longleftrightarrow> (case map_of (pg_members g) user of
      Some m \<Rightarrow> gm_role m = Creator \<or> gm_role m = Admin
    | None \<Rightarrow> False)"

section \<open>The mesh table\<close>

record mesh_announcement =
  ma_target_id :: string
  ma_target_name :: string
  ma_target_x25519 :: string
  ma_relay_id :: string
  ma_relay_addr :: socket_addr
  ma_hops :: u8
  ma_expires_at :: u64

record mesh_gossip =
  mg_sender_id :: string
  mg_announcements :: "mesh_announcement list"
  mg_timestamp :: u64

type_synonym mesh_table = "(string \<times> mesh_announcement list) list"

definition insert_announcement :: "u64 \<Rightarrow> u8 \<Rightarrow> mesh_announcement \<Rightarrow> mesh_table \<Rightarrow> mesh_table" where
  "insert_announcement now max_hops ann t =
     (if ma_hops ann > max_hops \<or> ma_expires_at ann \<le> now then t
      else (let entry = (case map_of t (ma_target_id ann) of Some l \<Rightarrow> l | None \<Rightarrow> []);
                entry = filter (\<lambda>r. ma_relay_id r \<noteq> ma_relay_id ann \<and> ma_expires_at r > now) entry in
            map_put (ma_target_id ann) (entry @ [ann]) t))"

definition insert_announcements :: "u64 \<Rightarrow> mesh_announcement list \<Rightarrow> u8 \<Rightarrow> mesh_table \<Rightarrow> mesh_table" where
  "insert_announcements now anns max_hops t = fold (insert_announcement now max_hops) anns t"

definition find_best_route :: "u64 \<Rightarrow> string \<Rightarrow> mesh_table \<Rightarrow> mesh_announcement option" where
  "find_best_route now target t = (case map_of t target of
      Some l \<Rightarrow> min_by_key ma_hops (filter (\<lambda>r. ma_expires_at r > now) l)
    | None \<Rightarrow> None)"

definition mesh_cleanup_expired :: "u64 \<Rightarrow> mesh_table \<Rightarrow> mesh_table" where
  "mesh_cleanup_expired now t =
     filter (\<lambda>e. snd e \<noteq> []) (map (\<lambda>e. (fst e, filter (\<lambda>r. ma_expires_at r > now) (snd e))) t)"

definition all_mesh_peers :: "u64 \<Rightarrow> mesh_table \<Rightarrow> mesh_announcement list" where
  "all_mesh_peers now t = concat (map (\<lambda>e. filter (\<lambda>r. ma_expires_at r > now) (snd e)) t)"

definition add_gossip :: "u64 \<Rightarrow> mesh_gossip \<Rightarrow> mesh_table \<Rightarrow> mesh_table" where
  "add_gossip now p t = insert_announcements now (mg_announcements p) 3 t"

definition resolve_route :: "u64 \<Rightarrow> string \<Rightarrow> mesh_table \<Rightarrow> mesh_announcement option" where
  "resolve_route now target t = find_best_route now target t"

section \<open>Block list, reactions, calls, fingerprints\<close>

type_synonym blocklist = "string list"

definition blocklist_block :: "string \<Rightarrow> blocklist \<Rightarrow> blocklist" where
  "blocklist_block u b = List.insert u b"

definition blocklist_unblock :: "string \<Rightarrow> blocklist \<Rightarrow> blocklist" where
  "blocklist_unblock u b = removeAll u b"

definition blocklist_is_blocked :: "string \<Rightarrow> blocklist \<Rightarrow> bool" where
  "blocklist_is_blocked u b \<longleftrightarrow> u \<in> set b"

record message_reaction =
  mr_message_id :: string
  mr_emoji :: string
  mr_reactor :: string
  mr_timestamp :: u64

definition reaction_new :: "u64 \<Rightarrow> string \<Rightarrow> string \<Rightarrow> string \<Rightarrow> message_reaction" where
  "reaction_new now message emoji reactor =
     \<lparr>mr_message_id = message, mr_emoji = emoji, mr_reactor = reactor, mr_timestamp = now\<rparr>"

definition is_valid_emoji :: "message_reaction \<Rightarrow> bool" where
  "is_valid_emoji r \<longleftrightarrow> mr_emoji r \<noteq> [] \<and> chars_count (mr_emoji r) \<le> 4"

datatype call_signal_type = Offer | Answer | IceCandidate string | Ringing | Reject | Hangup | Busy

record call_signal =
  cs_call_id :: string
  cs_caller :: string
  cs_callee :: string
  cs_type :: call_signal_type
  cs_timestamp :: u64

definition call_signal_new :: "u64 \<Rightarrow> string \<Rightarrow> string \<Rightarrow> string \<Rightarrow> call_signal_type \<Rightarrow> call_signal" where
  "call_signal_new now call caller callee ty =
     \<lparr>cs_call_id = call, cs_caller = caller, cs_callee = callee, cs_type = ty, cs_timestamp = now\<rparr>"

record call_audio_chunk =
  ca_call_id :: string
  ca_pcm_base64 :: string
  ca_sample_rate :: u32
  ca_seq :: u64

text \<open>Blocks of four hexadecimal digits of the hash of a key.\<close>

definition key_fingerprint :: "(bytes \<Rightarrow> bytes) \<Rightarrow> bytes \<Rightarrow> string" where
  "key_fingerprint sha1 key = join_with '':'' (slices 4 (to_hex (ffi_hash_node_id sha1 key)))"

definition verify_key_unchanged :: "bytes \<Rightarrow> bytes \<Rightarrow> bool" where
  "verify_key_unchanged cached received \<longleftrightarrow> cached = received"

section \<open>Membership\<close>

lemma group_member_ops:
  "is_member u (add_member now v name role g) \<longleftrightarrow> u = v \<or> is_member u g"
  "is_member u (snd (remove_member v g)) \<longleftrightarrow> u \<noteq> v \<and> is_member u g"
  "fst (remove_member v g) \<longleftrightarrow> is_member v g"
  "is_admin u (add_member now v name role g) \<longleftrightarrow> (if u = v then role \<noteq> Member else is_admin u g)"
  "is_admin u (snd (remove_member v g)) \<longleftrightarrow> u \<noteq> v \<and> is_admin u g"
  "is_admin u g \<Longrightarrow> is_member u g"
  using group_role.exhaust [of role]
  by (auto simp: is_member_def is_admin_def add_member_def remove_member_def group_member_new_def map_of_del
      split: option.splits)

lemma group_new_members: "is_member u (group_new now kb ri rc t d c n) \<longleftrightarrow> u = c"
  "is_admin u (group_new now kb ri rc t d c n) \<longleftrightarrow> u = c"
  by (simp_all add: is_member_def is_admin_def group_new_def group_member_new_def)

section \<open>Routes\<close>

text \<open>Every entry holds live-when-stored routes for its key, at most one for a relay and none too far.\<close>

definition mesh_inv :: "u8 \<Rightarrow> mesh_table \<Rightarrow> bool" where
  "mesh_inv h t \<longleftrightarrow> keys_distinct t \<and> (\<forall>(k, l) \<in> set t. l \<noteq> [] \<and> distinct (map ma_relay_id l) \<and>
     (\<forall>r \<in> set l. ma_target_id r = k \<and> ma_hops r \<le> h))"

datatype mesh_op = MeshGossip u64 mesh_gossip | MeshCleanup u64

fun mesh_step :: "mesh_op \<Rightarrow> mesh_table \<Rightarrow> mesh_table" where
  "mesh_step (MeshGossip now p) t = add_gossip now p t"
| "mesh_step (MeshCleanup now) t = mesh_cleanup_expired now t"

lemma mesh_inv_entry: "mesh_inv h t \<Longrightarrow> map_of t k = Some l \<Longrightarrow>
    l \<noteq> [] \<and> distinct (map ma_relay_id l) \<and> (\<forall>r \<in> set l. ma_target_id r = k \<and> ma_hops r \<le> h)"
  using map_of_SomeD [of t k l] by (fastforce simp: mesh_inv_def)

lemma distinct_map_filter_subset: "distinct (map f xs) \<Longrightarrow> distinct (map f (filter p xs))"
  by (rule distinct_map_filter)

lemma insert_announcement_inv:
  assumes "mesh_inv h t" shows "mesh_inv h (insert_announcement now h ann t)"
proof (cases "ma_hops ann > h \<or> ma_expires_at ann \<le> now")
  case False
  define old where "old = (case map_of t (ma_target_id ann) of Some l \<Rightarrow> l | None \<Rightarrow> [])"
  have o: "distinct (map ma_relay_id old)" "\<forall>r \<in> set old. ma_target_id r = ma_target_id ann \<and> ma_hops r \<le> h"
    using mesh_inv_entry [OF assms, of "ma_target_id ann"]
    by (cases "map_of t (ma_target_id ann)"; simp add: old_def)+
  let ?l = "filter (\<lambda>r. ma_relay_id r \<noteq> ma_relay_id ann \<and> ma_expires_at r > now) old @ [ann]"
  have i: "insert_announcement now h ann t = map_put (ma_target_id ann) ?l t"
    using False by (simp add: insert_announcement_def old_def Let_def)
  have "distinct (map ma_relay_id ?l)"
    using distinct_map_filter_subset [OF o(1)] by auto
  moreover have "\<forall>r \<in> set ?l. ma_target_id r = ma_target_id ann \<and> ma_hops r \<le> h" using o(2) False by auto
  ultimately show ?thesis using assms unfolding i mesh_inv_def
    by (auto dest!: set_map_put_subset [THEN subsetD])
qed (use assms in \<open>auto simp: insert_announcement_def\<close>)

lemma insert_all_inv: "mesh_inv h t \<Longrightarrow> mesh_inv h (fold (insert_announcement now h) anns t)"
  by (induction anns arbitrary: t) (simp_all add: insert_announcement_inv)

lemma add_gossip_inv: "mesh_inv 3 t \<Longrightarrow> mesh_inv 3 (add_gossip now p t)"
  by (simp add: add_gossip_def insert_announcements_def insert_all_inv)

lemma mesh_cleanup_inv: "mesh_inv h t \<Longrightarrow> mesh_inv h (mesh_cleanup_expired now t)"
  by (auto simp: mesh_inv_def mesh_cleanup_expired_def keys_distinct_def comp_def distinct_map_filter)

interpretation mesh_sys: op_system mesh_step "\<lambda>_. True" "mesh_inv 3"
proof
  fix a t assume "mesh_inv 3 t"
  then show "mesh_inv 3 (mesh_step a t)" by (cases a) (simp_all add: add_gossip_inv mesh_cleanup_inv)
qed

lemma mesh_inv_new: "mesh_inv h []"
  by (simp add: mesh_inv_def)

text \<open>The routes of a target are those under its key.\<close>

lemma mesh_peers_of_target:
  assumes "mesh_inv h t"
  shows "r \<in> set (all_mesh_peers now t) \<and> ma_target_id r = k \<longleftrightarrow>
    (\<exists>l. map_of t k = Some l \<and> r \<in> set l \<and> ma_expires_at r > now)"
proof
  assume r: "r \<in> set (all_mesh_peers now t) \<and> ma_target_id r = k"
  then obtain k' l where l: "(k', l) \<in> set t" "r \<in> set l" "ma_expires_at r > now" by (auto simp: all_mesh_peers_def)
  then have "k' = k" using r assms by (fastforce simp: mesh_inv_def)
  then have "map_of t k = Some l" using l(1) assms by (simp add: mesh_inv_def keys_distinct_def)
  then show "\<exists>l. map_of t k = Some l \<and> r \<in> set l \<and> ma_expires_at r > now" using l by blast
next
  assume "\<exists>l. map_of t k = Some l \<and> r \<in> set l \<and> ma_expires_at r > now"
  then obtain l where l: "map_of t k = Some l" "r \<in> set l" "ma_expires_at r > now" by blast
  then show "r \<in> set (all_mesh_peers now t) \<and> ma_target_id r = k"
    using mesh_inv_entry [OF assms l(1)] map_of_SomeD [OF l(1)] by (force simp: all_mesh_peers_def)
qed

lemma resolve_route_facts:
  assumes "mesh_inv 3 t"
  shows "case resolve_route now target t of
      None \<Rightarrow> \<forall>r \<in> set (all_mesh_peers now t). ma_target_id r \<noteq> target
    | Some r \<Rightarrow> r \<in> set (all_mesh_peers now t) \<and> ma_target_id r = target \<and> ma_expires_at r > now \<and> ma_hops r \<le> 3 \<and>
        (\<forall>r' \<in> set (all_mesh_peers now t). ma_target_id r' = target \<longrightarrow> ma_hops r \<le> ma_hops r')"
proof (cases "map_of t target")
  case None
  then show ?thesis using mesh_peers_of_target [OF assms, of _ now target]
    by (auto simp: resolve_route_def find_best_route_def)
next
  case (Some l)
  have mem: "r \<in> set (all_mesh_peers now t) \<and> ma_target_id r = target \<longleftrightarrow> r \<in> set l \<and> ma_expires_at r > now" for r
    using mesh_peers_of_target [OF assms, of r now target] Some by simp
  show ?thesis
  proof (cases "min_by_key ma_hops (filter (\<lambda>r. ma_expires_at r > now) l)")
    case None
    then have "\<forall>r \<in> set l. \<not> ma_expires_at r > now" by (simp add: filter_empty_conv)
    then show ?thesis using Some None mem by (auto simp: resolve_route_def find_best_route_def)
  next
    case (Some r)
    note m = min_by_key_Some [OF Some]
    then have "ma_hops r \<le> 3" using mesh_inv_entry [OF assms \<open>map_of t target = Some l\<close>] by auto
    then show ?thesis using Some \<open>map_of t target = Some l\<close> m mem by (auto simp: resolve_route_def find_best_route_def)
  qed
qed

text \<open>A route that is gossiped can be resolved until it expires, as well or better.\<close>

lemma gossip_resolves:
  assumes "mesh_inv 3 t" "ma_hops ann \<le> 3" "now < ma_expires_at ann"
  shows "\<exists>r. resolve_route now (ma_target_id ann) (insert_announcement now 3 ann t) = Some r \<and> ma_hops r \<le> ma_hops ann"
proof -
  let ?t = "insert_announcement now 3 ann t"
  have inv: "mesh_inv 3 ?t" by (rule insert_announcement_inv [OF assms(1)])
  have "\<exists>l. map_of ?t (ma_target_id ann) = Some l \<and> ann \<in> set l \<and> ma_expires_at ann > now"
    using assms(2,3) by (simp add: insert_announcement_def Let_def not_less [symmetric])
  then have a: "ann \<in> set (all_mesh_peers now ?t)" using mesh_peers_of_target [OF inv] by blast
  show ?thesis using resolve_route_facts [OF inv, of now "ma_target_id ann"] a
    by (cases "resolve_route now (ma_target_id ann) ?t") auto
qed

end
