(* ===== verification/Envelope_Crypto.thy ===== *)
theory Envelope_Crypto
  imports Groups_Mesh
begin

text \<open>
  Identities, envelopes and the replay cache (\<open>crypto.rs\<close>), with the mnemonic manager (\<open>mnemonic.rs\<close>). The
  cryptographic primitives come from other crates: they are the parameter \<open>crypto\<close>, and \<open>crypto_ok\<close> states
  what is documented of them (sizes, that a signature verifies, that both sides agree on a shared secret, that
  what is sealed can be opened). Random bytes and times are arguments. The lemmas show that the recipient opens
  what the sender sealed, that an accepted envelope is addressed to the recipient, names the owner of the key
  and carries a signature of all its fields, that these fields can be read off the signed bytes, and that the
  cache lets an envelope pass once.
\<close>

section \<open>Primitives\<close>

record crypto =
  cr_sha1 :: "bytes \<Rightarrow> bytes"
  cr_sha256 :: "bytes \<Rightarrow> bytes"
  cr_hmac :: "bytes \<Rightarrow> bytes \<Rightarrow> bytes"
  cr_hkdf :: "bytes option \<Rightarrow> bytes \<Rightarrow> bytes \<Rightarrow> bytes"
  cr_ed_public :: "bytes \<Rightarrow> bytes"
  cr_ed_sign :: "bytes \<Rightarrow> bytes \<Rightarrow> bytes"
  cr_ed_valid :: "bytes \<Rightarrow> bool"
  cr_ed_verify :: "bytes \<Rightarrow> bytes \<Rightarrow> bytes \<Rightarrow> bool"
  cr_ed_verify_strict :: "bytes \<Rightarrow> bytes \<Rightarrow> bytes \<Rightarrow> bool"
  cr_x_public :: "bytes \<Rightarrow> bytes"
  cr_x_dh :: "bytes \<Rightarrow> bytes \<Rightarrow> bytes"
  cr_seal :: "bytes \<Rightarrow> bytes \<Rightarrow> bytes \<Rightarrow> bytes \<Rightarrow> bytes option"
  cr_open :: "bytes \<Rightarrow> bytes \<Rightarrow> bytes \<Rightarrow> bytes \<Rightarrow> bytes option"

definition crypto_ok :: "crypto \<Rightarrow> bool" where
  "crypto_ok C \<longleftrightarrow> (\<forall>m. length (cr_sha1 C m) = 20) \<and> (\<forall>m. length (cr_sha256 C m) = 32) \<and> (\<forall>k m. length (cr_hmac C k m) = 32) \<and>
     (\<forall>sk. length (cr_ed_public C sk) = 32 \<and> cr_ed_valid C (cr_ed_public C sk)) \<and>
     (\<forall>sk m. length (cr_ed_sign C sk m) = 64 \<and> cr_ed_verify C (cr_ed_public C sk) m (cr_ed_sign C sk m) \<and>
       cr_ed_verify_strict C (cr_ed_public C sk) m (cr_ed_sign C sk m)) \<and>
     (\<forall>sk. length (cr_x_public C sk) = 32) \<and> (\<forall>a b. cr_x_dh C a (cr_x_public C b) = cr_x_dh C b (cr_x_public C a)) \<and>
     (\<forall>k n a p. length p < 2 ^ 32 \<longrightarrow> cr_seal C k n a p \<noteq> None) \<and>
     (\<forall>k n a p c. cr_seal C k n a p = Some c \<longrightarrow> cr_open C k n a c = Some p)"

abbreviation str_bytes :: "string \<Rightarrow> bytes" where "str_bytes s \<equiv> map of_char s"

section \<open>Identities\<close>

record user_identity =
  ui_signing_key :: bytes
  ui_verifying_key :: bytes
  ui_x25519_secret :: bytes
  ui_x25519_public :: bytes
  ui_user_id :: node_id

definition user_id_hex :: "user_identity \<Rightarrow> string" where
  "user_id_hex i = id_to_hex (ui_user_id i)"

definition identity_fingerprint :: "crypto \<Rightarrow> user_identity \<Rightarrow> string" where
  "identity_fingerprint C i = key_fingerprint (cr_sha1 C) (ui_verifying_key i)"

definition identity_from_seed :: "crypto \<Rightarrow> bytes \<Rightarrow> user_identity" where
  "identity_from_seed C seed =
     (let ed_seed = cr_hkdf C None seed (str_bytes ''NodeX-Ed25519-Sign-v1''); vk = cr_ed_public C ed_seed;
          x_seed = cr_hkdf C None seed (str_bytes ''NodeX-X25519-Static-v1'') in
      \<lparr>ui_signing_key = ed_seed, ui_verifying_key = vk, ui_x25519_secret = x_seed, ui_x25519_public = cr_x_public C x_seed,
       ui_user_id = from_key (cr_sha1 C) vk\<rparr>)"

definition identity_sign :: "crypto \<Rightarrow> user_identity \<Rightarrow> bytes \<Rightarrow> bytes" where
  "identity_sign C i m = cr_ed_sign C (ui_signing_key i) m"

definition identity_verify :: "crypto \<Rightarrow> bytes \<Rightarrow> bytes \<Rightarrow> bytes \<Rightarrow> bool" where
  "identity_verify C vk m sig \<longleftrightarrow>
     length vk = 32 \<and> cr_ed_valid C vk \<and> length sig = 64 \<and> cr_ed_verify C vk m sig"

text \<open>The functions of the \<open>bip39\<close> crate behind \<open>core_ffi\<close>.\<close>

record mnemonics =
  mn_generate_12 :: "bytes \<Rightarrow> string + string"
  mn_generate_24 :: "bytes \<Rightarrow> string + string"
  mn_to_seed :: "string \<Rightarrow> string + bytes"
  mn_validate :: "string \<Rightarrow> bool"

definition identity_from_mnemonic :: "crypto \<Rightarrow> mnemonics \<Rightarrow> string \<Rightarrow> string + user_identity" where
  "identity_from_mnemonic C M s = (case mn_to_seed M s of Inl e \<Rightarrow> Err e | Inr seed \<Rightarrow> Ok (identity_from_seed C seed))"

definition generate_mnemonic :: "crypto \<Rightarrow> mnemonics \<Rightarrow> bytes \<Rightarrow> string + string \<times> user_identity" where
  "generate_mnemonic C M entropy = (case mn_generate_12 M entropy of
      Inl e \<Rightarrow> Err e
    | Inr s \<Rightarrow> (case mn_to_seed M s of Inl e \<Rightarrow> Err e | Inr seed \<Rightarrow> Ok (s, identity_from_seed C seed)))"

definition generate_mnemonic_24 :: "crypto \<Rightarrow> mnemonics \<Rightarrow> bytes \<Rightarrow> string + string \<times> user_identity" where
  "generate_mnemonic_24 C M entropy = (case mn_generate_24 M entropy of
      Inl e \<Rightarrow> Err e
    | Inr s \<Rightarrow> (case mn_to_seed M s of Inl e \<Rightarrow> Err e | Inr seed \<Rightarrow> Ok (s, identity_from_seed C seed)))"

text \<open>\<open>split_whitespace().collect()\<close>: the words of a text.\<close>

function split_words :: "string \<Rightarrow> string \<Rightarrow> string list" where
  "split_words w [] = (if w = [] then [] else [w])"
| "split_words w (c # cs) =
     (if ws_head (c # cs) = 0 then split_words (w @ [c]) cs
      else (if w = [] then [] else [w]) @ split_words [] (drop (ws_head (c # cs)) (c # cs)))"
  by pat_completeness auto
termination
proof (relation "measure (\<lambda>(w, s). length s)")
  fix w c cs assume "ws_head (c # cs) \<noteq> 0"
  then show "(([], drop (ws_head (c # cs)) (c # cs)), (w, c # cs)) \<in> measure (\<lambda>(w, s). length s)" by simp
qed simp_all

definition mnemonic_validate :: "mnemonics \<Rightarrow> string \<Rightarrow> bool" where
  "mnemonic_validate M phrase \<longleftrightarrow> length (split_words [] phrase) \<in> {12, 24} \<and> mn_validate M (rust_trim phrase)"

datatype mnemonic_error = InvalidPhrase | MnemonicFailed string

definition mnemonic_to_seed :: "mnemonics \<Rightarrow> string \<Rightarrow> mnemonic_error + bytes" where
  "mnemonic_to_seed M phrase =
     (if \<not> mnemonic_validate M phrase then Err InvalidPhrase
      else (case mn_to_seed M (rust_trim phrase) of Inl e \<Rightarrow> Err (MnemonicFailed e) | Inr s \<Rightarrow> Ok s))"

section \<open>Envelopes\<close>

abbreviation ENVELOPE_VERSION :: u8 where "ENVELOPE_VERSION \<equiv> 3"

record envelope =
  en_version :: u8
  en_sender_id :: node_id
  en_ed25519_pub :: bytes
  en_x25519_pub :: bytes
  en_ephemeral_pub :: "bytes option"
  en_recipient_id :: node_id
  en_nonce :: bytes
  en_ciphertext :: bytes
  en_signature :: bytes
  en_timestamp :: u64

definition sign_payload_v3 :: "u8 \<Rightarrow> node_id \<Rightarrow> node_id \<Rightarrow> bytes \<Rightarrow> bytes \<Rightarrow> bytes \<Rightarrow> u64 \<Rightarrow> bytes \<Rightarrow> bytes" where
  "sign_payload_v3 version sender recipient xpub eph nonce ts ct =
     str_bytes ''NodeX-envelope-v3'' @ [version] @ as_bytes sender @ as_bytes recipient @ xpub @ eph @ nonce @ be_bytes 8 ts @ ct"

definition sign_payload_v2 :: "u8 \<Rightarrow> node_id \<Rightarrow> node_id \<Rightarrow> bytes \<Rightarrow> u64 \<Rightarrow> bytes \<Rightarrow> bytes" where
  "sign_payload_v2 version sender recipient eph ts ct =
     [version] @ as_bytes sender @ as_bytes recipient @ eph @ be_bytes 8 ts @ ct"

definition sign_payload_v1 :: "node_id \<Rightarrow> node_id \<Rightarrow> u64 \<Rightarrow> bytes \<Rightarrow> bytes" where
  "sign_payload_v1 sender recipient ts ct = as_bytes sender @ as_bytes recipient @ be_bytes 8 ts @ ct"

definition payload_key :: "crypto \<Rightarrow> bytes \<Rightarrow> bytes \<Rightarrow> bytes \<Rightarrow> bytes" where
  "payload_key C nonce dh_ephemeral dh_static =
     cr_hkdf C (Some nonce) (dh_ephemeral @ dh_static) (str_bytes ''NodeX-ChaCha20Poly1305-PayloadKey-v2'')"

definition encrypt_envelope :: "crypto \<Rightarrow> bytes \<Rightarrow> bytes \<Rightarrow> u64 \<Rightarrow> user_identity \<Rightarrow> node_id \<Rightarrow> bytes \<Rightarrow> bytes \<Rightarrow> envelope option" where
  "encrypt_envelope C eph_seed nonce now sender rid rx plaintext =
     (let eph_public = cr_x_public C eph_seed;
          key = payload_key C nonce (cr_x_dh C eph_seed rx) (cr_x_dh C (ui_x25519_secret sender) rx) in
      case cr_seal C key nonce [] plaintext of
        None \<Rightarrow> None
      | Some ct \<Rightarrow> Some
          \<lparr>en_version = ENVELOPE_VERSION, en_sender_id = ui_user_id sender, en_ed25519_pub = ui_verifying_key sender,
           en_x25519_pub = ui_x25519_public sender, en_ephemeral_pub = Some eph_public, en_recipient_id = rid, en_nonce = nonce,
           en_ciphertext = ct,
           en_signature = identity_sign C sender (sign_payload_v3 ENVELOPE_VERSION (ui_user_id sender) rid (ui_x25519_public sender)
             eph_public nonce now ct),
           en_timestamp = now\<rparr>)"

datatype envelope_error = MalformedEnvelope | SenderIdMismatch | InvalidX25519Length | MissingEphemeral | BadSignature
  | InvalidEphemeralLength | DecryptionFailed

definition open_with :: "crypto \<Rightarrow> bytes \<Rightarrow> envelope \<Rightarrow> envelope_error + bytes" where
  "open_with C key e = (case cr_open C key (en_nonce e) [] (en_ciphertext e) of
      None \<Rightarrow> Err DecryptionFailed | Some p \<Rightarrow> Ok p)"

definition open_ephemeral :: "crypto \<Rightarrow> user_identity \<Rightarrow> envelope \<Rightarrow> bytes \<Rightarrow> envelope_error + bytes" where
  "open_ephemeral C r e eph =
     (if length eph \<noteq> 32 then Err InvalidEphemeralLength
      else open_with C (payload_key C (en_nonce e) (cr_x_dh C (ui_x25519_secret r) eph)
        (cr_x_dh C (ui_x25519_secret r) (en_x25519_pub e))) e)"

definition decrypt_envelope :: "crypto \<Rightarrow> user_identity \<Rightarrow> envelope \<Rightarrow> envelope_error + bytes" where
  "decrypt_envelope C r e =
     (if length (en_nonce e) \<noteq> 12 \<or> length (en_signature e) \<noteq> 64 \<or> length (en_ed25519_pub e) \<noteq> 32 \<or> length (en_x25519_pub e) \<noteq> 32 \<or>
         (case en_ephemeral_pub e of None \<Rightarrow> False | Some k \<Rightarrow> length k \<noteq> 32) \<or> en_recipient_id e \<noteq> ui_user_id r
      then Err MalformedEnvelope
      else if from_key (cr_sha1 C) (en_ed25519_pub e) \<noteq> en_sender_id e then Err SenderIdMismatch
      else if length (en_x25519_pub e) \<noteq> 32 then Err InvalidX25519Length
      else if en_version e \<ge> 3 then (case en_ephemeral_pub e of
          None \<Rightarrow> Err MissingEphemeral
        | Some eph \<Rightarrow>
            if \<not> identity_verify C (en_ed25519_pub e) (sign_payload_v3 (en_version e) (en_sender_id e) (en_recipient_id e)
                (en_x25519_pub e) eph (en_nonce e) (en_timestamp e) (en_ciphertext e)) (en_signature e) then Err BadSignature
            else open_ephemeral C r e eph)
      else if en_version e = 2 then (case en_ephemeral_pub e of
          None \<Rightarrow> Err MissingEphemeral
        | Some eph \<Rightarrow>
            if \<not> identity_verify C (en_ed25519_pub e) (sign_payload_v2 (en_version e) (en_sender_id e) (en_recipient_id e) eph
                (en_timestamp e) (en_ciphertext e)) (en_signature e) then Err BadSignature
            else open_ephemeral C r e eph)
      else if \<not> identity_verify C (en_ed25519_pub e) (sign_payload_v1 (en_sender_id e) (en_recipient_id e)
          (en_timestamp e) (en_ciphertext e)) (en_signature e) then Err BadSignature
      else open_with C (cr_x_dh C (ui_x25519_secret r) (en_x25519_pub e)) e)"

section \<open>Replay cache\<close>

abbreviation MAX_REPLAY_WINDOW_SECS :: u64 where "MAX_REPLAY_WINDOW_SECS \<equiv> 604800"
abbreviation MAX_REPLAY_CACHE_ENTRIES :: nat where "MAX_REPLAY_CACHE_ENTRIES \<equiv> 100000"

type_synonym replay_cache = "(bytes \<times> u64) list"

definition check_and_insert :: "crypto \<Rightarrow> bytes \<Rightarrow> u64 \<Rightarrow> u64 \<Rightarrow> replay_cache \<Rightarrow> bool \<times> replay_cache" where
  "check_and_insert C sig ts now cache =
     (if abs_diff64 now ts > MAX_REPLAY_WINDOW_SECS then (False, cache)
      else (let h = cr_sha256 C sig; cache = filter (\<lambda>e. saturating_sub64 now (snd e) \<le> MAX_REPLAY_WINDOW_SECS) cache in
        if map_of cache h \<noteq> None then (False, cache)
        else if length cache \<ge> MAX_REPLAY_CACHE_ENTRIES then (False, cache)
        else (True, map_put h ts cache)))"

section \<open>Mailbox keys\<close>

definition derive_secure_mailbox_key :: "crypto \<Rightarrow> string \<Rightarrow> u64 \<Rightarrow> string" where
  "derive_secure_mailbox_key C user ts =
     ''mbx_'' @ to_hex (take 16 (cr_hmac C (str_bytes user) (be_bytes 8 (ts div 86400))))"

section \<open>The recipient opens what the sender sealed\<close>

definition identity_ok :: "crypto \<Rightarrow> user_identity \<Rightarrow> bool" where
  "identity_ok C i \<longleftrightarrow> ui_verifying_key i = cr_ed_public C (ui_signing_key i) \<and> ui_x25519_public i = cr_x_public C (ui_x25519_secret i) \<and>
     ui_user_id i = from_key (cr_sha1 C) (ui_verifying_key i)"

lemma identity_from_seed_ok: "identity_ok C (identity_from_seed C seed)"
  by (simp add: identity_ok_def identity_from_seed_def Let_def)

lemma crypto_lengths:
  assumes "crypto_ok C"
  shows "length (cr_ed_public C sk) = 32" "length (cr_ed_sign C sk m) = 64" "length (cr_x_public C sk) = 32"
    "length (cr_sha1 C m) = 20" "length (cr_sha256 C m) = 32" "length (cr_hmac C k m) = 32"
  using assms by (auto simp: crypto_ok_def)

lemma sign_verifies:
  assumes "crypto_ok C" "identity_ok C i" shows "identity_verify C (ui_verifying_key i) m (identity_sign C i m)"
  using assms by (simp add: crypto_ok_def identity_ok_def identity_verify_def identity_sign_def)

lemma seal_open:
  assumes "crypto_ok C" "cr_seal C k n a p = Some c" shows "cr_open C k n a c = Some p"
  using assms unfolding crypto_ok_def by blast

lemma dh_agree: "crypto_ok C \<Longrightarrow> cr_x_dh C a (cr_x_public C b) = cr_x_dh C b (cr_x_public C a)"
  unfolding crypto_ok_def by blast

lemma seal_total: "crypto_ok C \<Longrightarrow> length p < 2 ^ 32 \<Longrightarrow> \<exists>c. cr_seal C k n a p = Some c"
  unfolding crypto_ok_def by blast

lemma envelope_opens:
  assumes C: "crypto_ok C" and s: "identity_ok C sender" and r: "identity_ok C r" and "length nonce = 12"
    and e: "encrypt_envelope C eph nonce now sender (ui_user_id r) (ui_x25519_public r) p = Some e"
  shows "decrypt_envelope C r e = Ok p"
proof -
  let ?key = "payload_key C nonce (cr_x_dh C eph (ui_x25519_public r)) (cr_x_dh C (ui_x25519_secret sender) (ui_x25519_public r))"
  obtain ct where ct: "cr_seal C ?key nonce [] p = Some ct" using e by (auto simp: encrypt_envelope_def Let_def split: option.splits)
  have x: "ui_x25519_public r = cr_x_public C (ui_x25519_secret r)" "ui_x25519_public sender = cr_x_public C (ui_x25519_secret sender)"
    using r s by (simp_all add: identity_ok_def)
  have key: "?key = payload_key C nonce (cr_x_dh C (ui_x25519_secret r) (cr_x_public C eph))
      (cr_x_dh C (ui_x25519_secret r) (ui_x25519_public sender))"
    unfolding x using dh_agree [OF C] by metis
  have l: "length (ui_verifying_key sender) = 32" "ui_user_id sender = from_key (cr_sha1 C) (ui_verifying_key sender)"
    "length (ui_x25519_public sender) = 32"
    using s crypto_lengths [OF C] by (simp_all add: identity_ok_def)
  have o: "cr_open C ?key nonce [] ct = Some p" by (rule seal_open [OF C ct])
  let ?m = "sign_payload_v3 ENVELOPE_VERSION (ui_user_id sender) (ui_user_id r) (ui_x25519_public sender) (cr_x_public C eph) nonce now ct"
  have eq: "e = \<lparr>en_version = ENVELOPE_VERSION, en_sender_id = ui_user_id sender, en_ed25519_pub = ui_verifying_key sender,
      en_x25519_pub = ui_x25519_public sender, en_ephemeral_pub = Some (cr_x_public C eph), en_recipient_id = ui_user_id r,
      en_nonce = nonce, en_ciphertext = ct, en_signature = identity_sign C sender ?m, en_timestamp = now\<rparr>"
    using e ct by (simp add: encrypt_envelope_def Let_def)
  have sig: "length (identity_sign C sender ?m) = 64" "identity_verify C (ui_verifying_key sender) ?m (identity_sign C sender ?m)"
    using crypto_lengths(2) [OF C] sign_verifies [OF C s] by (simp_all add: identity_sign_def)
  have v: "decrypt_envelope C r e = open_ephemeral C r e (cr_x_public C eph)"
    using sig assms(4) l crypto_lengths(3) [OF C] unfolding eq by (simp add: decrypt_envelope_def)
  show ?thesis unfolding v unfolding eq open_ephemeral_def open_with_def
    using o [unfolded key] crypto_lengths(3) [OF C] by simp
qed

lemma encrypt_total: "crypto_ok C \<Longrightarrow> length p < 2 ^ 32 \<Longrightarrow> \<exists>e. encrypt_envelope C eph nonce now sender rid rx p = Some e"
  using seal_total by (auto simp: encrypt_envelope_def Let_def split: option.split)

section \<open>What acceptance means\<close>

text \<open>The bytes whose signature is checked, for each version.\<close>

definition signed_bytes :: "envelope \<Rightarrow> bytes option" where
  "signed_bytes e =
     (if en_version e \<ge> 3 then map_option (\<lambda>eph. sign_payload_v3 (en_version e) (en_sender_id e) (en_recipient_id e)
         (en_x25519_pub e) eph (en_nonce e) (en_timestamp e) (en_ciphertext e)) (en_ephemeral_pub e)
      else if en_version e = 2 then map_option (\<lambda>eph. sign_payload_v2 (en_version e) (en_sender_id e) (en_recipient_id e)
         eph (en_timestamp e) (en_ciphertext e)) (en_ephemeral_pub e)
      else Some (sign_payload_v1 (en_sender_id e) (en_recipient_id e) (en_timestamp e) (en_ciphertext e)))"

definition envelope_shaped :: "envelope \<Rightarrow> bool" where
  "envelope_shaped e \<longleftrightarrow> length (en_nonce e) = 12 \<and> length (en_signature e) = 64 \<and> length (en_ed25519_pub e) = 32 \<and>
     length (en_x25519_pub e) = 32 \<and> (\<forall>k. en_ephemeral_pub e = Some k \<longrightarrow> length k = 32)"

lemma accepted_genuine:
  assumes "decrypt_envelope C r e = Ok p"
  shows "envelope_shaped e \<and> en_recipient_id e = ui_user_id r \<and> en_sender_id e = from_key (cr_sha1 C) (en_ed25519_pub e) \<and>
    (\<exists>m. signed_bytes e = Some m \<and> identity_verify C (en_ed25519_pub e) m (en_signature e)) \<and>
    (\<exists>key. cr_open C key (en_nonce e) [] (en_ciphertext e) = Some p)"
  using assms
  by (auto simp: decrypt_envelope_def envelope_shaped_def signed_bytes_def open_ephemeral_def open_with_def not_le
      split: if_splits option.splits)

text \<open>From version 3 on the signed bytes determine every field but the verifying key and the signature.\<close>

lemma append_inj: "length a = length b \<Longrightarrow> a @ x = b @ y \<longleftrightarrow> a = b \<and> x = y"
  by simp

lemma v3_injective:
  assumes "sign_payload_v3 v s r x k n t c = sign_payload_v3 v' s' r' x' k' n' t' c'"
    "wf_id s" "wf_id s'" "length (as_bytes r) = length (as_bytes r')" "length x = 32" "length x' = 32" "length k = 32" "length k' = 32"
    "length n = 12" "length n' = 12"
  shows "v = v' \<and> s = s' \<and> x = x' \<and> k = k' \<and> n = n' \<and> t = t' \<and> c = c'"
proof -
  have l: "length (as_bytes s) = length (as_bytes s')" "length (as_bytes r) = length (as_bytes r')"
    "length x = length x'" "length k = length k'" "length n = length n'" "length (be_bytes 8 t) = length (be_bytes 8 t')"
    using assms by (simp_all add: wf_id_def)
  have "v = v' \<and> as_bytes s = as_bytes s' \<and> as_bytes r = as_bytes r' \<and> x = x' \<and> k = k' \<and> n = n' \<and> be_bytes 8 t = be_bytes 8 t' \<and> c = c'"
    using assms(1) unfolding sign_payload_v3_def by (simp add: append_inj l)
  moreover have "t = t'" if "be_bytes 8 t = be_bytes 8 t'" using that be_bytes_inj [of 8 t t'] by simp
  ultimately show ?thesis using node_id.expand [of s s'] by blast
qed

lemma accepted_same_signed:
  assumes "crypto_ok C" "decrypt_envelope C r e = Ok p" "decrypt_envelope C r e' = Ok p'"
    "en_version e \<ge> 3" "en_version e' \<ge> 3" "signed_bytes e = signed_bytes e'"
  shows "e' = e\<lparr>en_ed25519_pub := en_ed25519_pub e', en_signature := en_signature e'\<rparr> \<and> p = p'"
proof -
  note g = accepted_genuine [OF assms(2)] and g' = accepted_genuine [OF assms(3)]
  have w: "wf_id (from_key (cr_sha1 C) k)" for k
    using crypto_lengths(4) [OF assms(1)] by (simp add: wf_id_def from_key_def ffi_hash_node_id_def)
  obtain k k' where k: "en_ephemeral_pub e = Some k" "en_ephemeral_pub e' = Some k'"
    using g g' assms(4,5) by (auto simp: signed_bytes_def)
  have p: "sign_payload_v3 (en_version e) (en_sender_id e) (en_recipient_id e) (en_x25519_pub e) k (en_nonce e) (en_timestamp e) (en_ciphertext e) =
      sign_payload_v3 (en_version e') (en_sender_id e') (en_recipient_id e') (en_x25519_pub e') k' (en_nonce e') (en_timestamp e') (en_ciphertext e')"
    using assms(4-6) k by (simp add: signed_bytes_def)
  have r: "wf_id (en_sender_id e)" "wf_id (en_sender_id e')" using g g' w by simp_all
  have "en_version e = en_version e' \<and> en_sender_id e = en_sender_id e' \<and> en_x25519_pub e = en_x25519_pub e' \<and> k = k' \<and>
      en_nonce e = en_nonce e' \<and> en_timestamp e = en_timestamp e' \<and> en_ciphertext e = en_ciphertext e'"
    by (rule v3_injective [OF p]) (use g g' r k in \<open>simp_all add: envelope_shaped_def\<close>)
  then have f: "en_version e = en_version e'" "en_sender_id e = en_sender_id e'" "en_recipient_id e = en_recipient_id e'"
    "en_x25519_pub e = en_x25519_pub e'" "k = k'" "en_nonce e = en_nonce e'" "en_timestamp e = en_timestamp e'"
    "en_ciphertext e = en_ciphertext e'" using g g' by simp_all
  have eq: "e' = e\<lparr>en_ed25519_pub := en_ed25519_pub e', en_signature := en_signature e'\<rparr>" using f k by (cases e; cases e') simp
  have "open_ephemeral C r e k = open_ephemeral C r e' k'" using f by (simp add: open_ephemeral_def open_with_def)
  moreover have "open_ephemeral C r e k = Ok p" "open_ephemeral C r e' k' = Ok p'"
    using assms(2-5) k by (auto simp: decrypt_envelope_def split: if_splits)
  ultimately show ?thesis using eq by simp
qed

text \<open>In the older versions the nonce and the encryption key of the sender are not signed.\<close>

lemma v2_unsigned: "en_version e \<le> 2 \<Longrightarrow> signed_bytes (e\<lparr>en_nonce := n, en_x25519_pub := x\<rparr>) = signed_bytes e"
  by (auto simp: signed_bytes_def word_le_nat_alt)

section \<open>An envelope passes once\<close>

text \<open>Checks at a clock that does not go back: which of them let the pair pass.\<close>

fun replay_run :: "crypto \<Rightarrow> (bytes \<times> u64 \<times> u64) list \<Rightarrow> replay_cache \<Rightarrow> bool list \<times> replay_cache" where
  "replay_run C [] cache = ([], cache)"
| "replay_run C ((sig, ts, now) # evs) cache =
     (let (b, cache') = check_and_insert C sig ts now cache; (bs, cache'') = replay_run C evs cache' in (b # bs, cache''))"

definition passes_of :: "bytes \<Rightarrow> u64 \<Rightarrow> (bytes \<times> u64 \<times> u64) list \<Rightarrow> bool list \<Rightarrow> nat" where
  "passes_of sig ts evs bs = length (filter (\<lambda>(ev, b). b \<and> fst ev = sig \<and> fst (snd ev) = ts) (zip evs bs))"

lemma passes_of_simps [simp]:
  "passes_of sig ts [] bs = 0"
  "passes_of sig ts (ev # evs) (b # bs) = (if b \<and> fst ev = sig \<and> fst (snd ev) = ts then 1 else 0) + passes_of sig ts evs bs"
  by (simp_all add: passes_of_def case_prod_unfold)

text \<open>Once a pair has passed, its hash is in the cache, or its time has run out.\<close>

definition spent :: "crypto \<Rightarrow> bytes \<Rightarrow> u64 \<Rightarrow> u64 \<Rightarrow> replay_cache \<Rightarrow> bool" where
  "spent C sig ts now cache \<longleftrightarrow> map_of cache (cr_sha256 C sig) = Some ts \<or> unat now > unat ts + 604800"

lemma spent_refused: "spent C sig ts now cache \<Longrightarrow> keys_distinct cache \<Longrightarrow> \<not> fst (check_and_insert C sig ts now cache)"
proof -
  assume s: "spent C sig ts now cache" and d: "keys_distinct cache"
  show ?thesis
  proof (cases "abs_diff64 now ts > MAX_REPLAY_WINDOW_SECS")
    case False
    then have w: "unat now \<le> unat ts + 604800" by (auto simp: word_less_nat_alt unat_abs_diff64 not_less split: if_splits)
    then have "map_of cache (cr_sha256 C sig) = Some ts" using s by (simp add: spent_def)
    then have "(cr_sha256 C sig, ts) \<in> set (filter (\<lambda>e. saturating_sub64 now (snd e) \<le> MAX_REPLAY_WINDOW_SECS) cache)"
      using w by (auto simp: word_le_nat_alt unat_saturating_sub64 dest: map_of_SomeD)
    then have "map_of (filter (\<lambda>e. saturating_sub64 now (snd e) \<le> MAX_REPLAY_WINDOW_SECS) cache) (cr_sha256 C sig) \<noteq> None"
      by (metis map_of_eq_None_iff fst_conv imageI)
    then show ?thesis using False by (auto simp: check_and_insert_def Let_def)
  qed (simp add: check_and_insert_def)
qed

lemma check_keys: "keys_distinct cache \<Longrightarrow> keys_distinct (snd (check_and_insert C sig ts now cache))"
  by (auto simp: check_and_insert_def Let_def)

lemma check_bound:
  "length cache \<le> MAX_REPLAY_CACHE_ENTRIES \<Longrightarrow> length (snd (check_and_insert C sig ts now cache)) \<le> MAX_REPLAY_CACHE_ENTRIES"
proof -
  assume a: "length cache \<le> MAX_REPLAY_CACHE_ENTRIES"
  have "length (filter p cache) \<le> MAX_REPLAY_CACHE_ENTRIES" for p using a length_filter_le [of p cache] by linarith
  then show ?thesis using a by (auto simp: check_and_insert_def Let_def length_map_put)
qed

lemma map_of_filter_some:
  "keys_distinct m \<Longrightarrow> map_of m k = Some v \<Longrightarrow> p (k, v) \<Longrightarrow> map_of (filter p m) k = Some v"
proof -
  assume k: "keys_distinct m" and m: "map_of m k = Some v" and p: "p (k, v)"
  have "(k, v) \<in> set (filter p m)" using map_of_SomeD [OF m] p by simp
  then show ?thesis using keys_distinct_filter [OF k, of p] by (simp add: keys_distinct_def)
qed

lemma spent_stays:
  assumes "spent C sig ts now cache" "keys_distinct cache" "now \<le> now'"
  shows "spent C sig ts now' (snd (check_and_insert C s t now' cache))"
proof (cases "unat now' > unat ts + 604800")
  case False
  then have m: "map_of cache (cr_sha256 C sig) = Some ts" using assms(1,3) by (auto simp: spent_def word_le_nat_alt)
  have "saturating_sub64 now' ts \<le> MAX_REPLAY_WINDOW_SECS" using False by (simp add: word_le_nat_alt unat_saturating_sub64)
  then have f: "map_of (filter (\<lambda>e. saturating_sub64 now' (snd e) \<le> MAX_REPLAY_WINDOW_SECS) cache) (cr_sha256 C sig) = Some ts"
    by (intro map_of_filter_some [OF assms(2) m]) simp
  then have "cr_sha256 C s = cr_sha256 C sig \<Longrightarrow> map_of (filter (\<lambda>e. saturating_sub64 now' (snd e) \<le> MAX_REPLAY_WINDOW_SECS) cache) (cr_sha256 C s) \<noteq> None"
    by simp
  then show ?thesis using f m by (auto simp: spent_def check_and_insert_def Let_def)
qed (simp add: spent_def)

lemma passed_spent: "fst (check_and_insert C sig ts now cache) \<Longrightarrow> spent C sig ts now (snd (check_and_insert C sig ts now cache))"
  by (auto simp: check_and_insert_def spent_def Let_def split: if_splits)

fun clock_ok :: "u64 \<Rightarrow> (bytes \<times> u64 \<times> u64) list \<Rightarrow> bool" where
  "clock_ok t [] = True"
| "clock_ok t ((_, _, now) # evs) = (t \<le> now \<and> clock_ok now evs)"

lemma spent_never_passes:
  "spent C sig ts t cache \<Longrightarrow> keys_distinct cache \<Longrightarrow> clock_ok t evs \<Longrightarrow> passes_of sig ts evs (fst (replay_run C evs cache)) = 0"
proof (induction evs arbitrary: t cache)
  case (Cons ev evs)
  obtain s u now where ev: "ev = (s, u, now)" by (metis prod_cases3)
  obtain b cache' where c: "check_and_insert C s u now cache = (b, cache')" by force
  obtain bs cache'' where r: "replay_run C evs cache' = (bs, cache'')" by force
  have t: "t \<le> now" "clock_ok now evs" using Cons.prems(3) ev by simp_all
  have "spent C sig ts now cache" using Cons.prems(1) t(1) by (auto simp: spent_def word_le_nat_alt)
  then have "\<not> (b \<and> s = sig \<and> u = ts)" using spent_refused [OF _ Cons.prems(2), of C sig ts now] c by auto
  moreover have "passes_of sig ts evs bs = 0"
    using Cons.IH [OF spent_stays [OF Cons.prems(1,2) t(1), of s u] check_keys [OF Cons.prems(2)] t(2)] c r by simp
  ultimately show ?case using ev c r by auto
qed simp

lemma passes_once:
  "keys_distinct cache \<Longrightarrow> clock_ok t evs \<Longrightarrow> passes_of sig ts evs (fst (replay_run C evs cache)) \<le> 1"
proof (induction evs arbitrary: t cache)
  case (Cons ev evs)
  obtain s u now where ev: "ev = (s, u, now)" by (metis prod_cases3)
  obtain b cache' where c: "check_and_insert C s u now cache = (b, cache')" by force
  obtain bs cache'' where r: "replay_run C evs cache' = (bs, cache'')" by force
  have t: "clock_ok now evs" using Cons.prems(2) ev by simp
  have k: "keys_distinct cache'" using check_keys [OF Cons.prems(1), of C s u now] c by simp
  show ?case
  proof (cases "b \<and> s = sig \<and> u = ts")
    case True
    then have "spent C sig ts now cache'" using passed_spent [of C sig ts now cache] c by simp
    then show ?thesis using spent_never_passes [OF _ k t] True ev c r by fastforce
  next
    case False
    then show ?thesis using Cons.IH [OF k t] ev c r by auto
  qed
qed simp

section \<open>Mailbox keys of a day\<close>

lemma mailbox_key_day: "a div 86400 = b div 86400 \<Longrightarrow> derive_secure_mailbox_key C u a = derive_secure_mailbox_key C u b"
  by (simp add: derive_secure_mailbox_key_def)

end
