(* ===== verification/Signed_Cards.thy ===== *)
theory Signed_Cards
  imports Envelope_Crypto Peer_Health "HOL-Library.Char_ord"
begin

text \<open>
  What users sign besides envelopes: receipts (\<open>receipts.rs\<close>), presence cards (\<open>presence.rs\<close>) with the look-up of
  peers (\<open>discovery.rs\<close>), invitation links (\<open>invite.rs\<close>) and the contact card that travels in an image
  (\<open>messenger.rs\<close>). JSON and base64 are parameters. The lemmas show what an accepted card guarantees, that what is
  created is accepted, and what the signatures leave out.
\<close>

section \<open>Hexadecimal text\<close>

text \<open>\<open>hex_decode\<close> of \<open>messenger.rs\<close>, that of \<open>invite.rs\<close>, and that of \<open>attachments.rs\<close>.\<close>

definition hex_decode :: "string \<Rightarrow> bytes option exec" where
  "hex_decode s0 = (let s = rust_trim s0 in
     if s = [] \<or> odd (length s) then Done None
     else exec_bind (parse_hex_pairs s 0 (length s div 2)) (\<lambda>r. Done (case r of Inl _ \<Rightarrow> None | Inr bs \<Rightarrow> Some bs)))"

datatype invite_hex_error = OddHex | InviteBadHex parse_int_error

definition invite_hex_decode :: "string \<Rightarrow> (invite_hex_error + bytes) exec" where
  "invite_hex_decode s =
     (if odd (length s) then Done (Err OddHex)
      else exec_bind (parse_hex_pairs s 0 (length s div 2)) (\<lambda>r. Done (case r of Inl e \<Rightarrow> Err (InviteBadHex e) | Inr bs \<Rightarrow> Ok bs)))"

definition attachment_hex_decode :: "string \<Rightarrow> bytes option exec" where
  "attachment_hex_decode s =
     (if odd (length s) then Done None
      else exec_bind (parse_hex_pairs s 0 (length s div 2)) (\<lambda>r. Done (case r of Inl _ \<Rightarrow> None | Inr bs \<Rightarrow> Some bs)))"

lemma hex_decode_to_hex: "bs \<noteq> [] \<Longrightarrow> hex_decode (to_hex bs) = Done (Some bs)"
proof -
  assume "bs \<noteq> []"
  then have "to_hex bs \<noteq> []" by (metis length_0_conv length_to_hex mult_eq_0_iff numeral_2_eq_2 zero_neq_numeral)
  then show ?thesis by (simp add: hex_decode_def)
qed

lemma invite_hex_to_hex: "invite_hex_decode (to_hex bs) = Done (Ok bs)"
  by (simp add: invite_hex_decode_def)

lemma attachment_hex_to_hex: "attachment_hex_decode (to_hex bs) = Done (Some bs)"
  by (simp add: attachment_hex_decode_def)

section \<open>Receipts\<close>

record delivery_receipt =
  dv_message_id :: string
  dv_recipient_id :: string
  dv_timestamp :: u64
  dv_signature :: bytes

definition delivery_bytes :: "string \<Rightarrow> u64 \<Rightarrow> bytes" where
  "delivery_bytes i ts = str_bytes ''DELIVERY_RECEIPT_V1'' @ str_bytes i @ be_bytes 8 ts"

definition delivery_receipt_create :: "crypto \<Rightarrow> user_identity \<Rightarrow> string \<Rightarrow> u64 \<Rightarrow> delivery_receipt" where
  "delivery_receipt_create C u i ts = \<lparr>dv_message_id = i, dv_recipient_id = user_id_hex u, dv_timestamp = ts,
     dv_signature = identity_sign C u (delivery_bytes i ts)\<rparr>"

definition delivery_receipt_verify :: "crypto \<Rightarrow> bytes \<Rightarrow> delivery_receipt \<Rightarrow> bool" where
  "delivery_receipt_verify C pub r \<longleftrightarrow> identity_verify C pub (delivery_bytes (dv_message_id r) (dv_timestamp r)) (dv_signature r)"

record read_receipt =
  rd_message_ids :: "string list"
  rd_reader_id :: string
  rd_timestamp :: u64
  rd_signature :: bytes

definition read_bytes :: "string list \<Rightarrow> u64 \<Rightarrow> bytes" where
  "read_bytes is ts = str_bytes ''READ_RECEIPT_V1'' @ concat (map str_bytes is) @ be_bytes 8 ts"

definition read_receipt_create :: "crypto \<Rightarrow> user_identity \<Rightarrow> string list \<Rightarrow> u64 \<Rightarrow> read_receipt" where
  "read_receipt_create C u is ts = \<lparr>rd_message_ids = is, rd_reader_id = user_id_hex u, rd_timestamp = ts,
     rd_signature = identity_sign C u (read_bytes is ts)\<rparr>"

definition read_receipt_verify :: "crypto \<Rightarrow> bytes \<Rightarrow> read_receipt \<Rightarrow> bool" where
  "read_receipt_verify C pub r \<longleftrightarrow> identity_verify C pub (read_bytes (rd_message_ids r) (rd_timestamp r)) (rd_signature r)"

lemma receipts_verify:
  assumes "crypto_ok C" "identity_ok C u"
  shows "delivery_receipt_verify C (ui_verifying_key u) (delivery_receipt_create C u i ts)"
    "read_receipt_verify C (ui_verifying_key u) (read_receipt_create C u is ts)"
  using sign_verifies [OF assms]
  by (simp_all add: delivery_receipt_verify_def delivery_receipt_create_def read_receipt_verify_def read_receipt_create_def)

lemma of_char_u8: "unat (of_char c :: u8) = of_char c"
proof -
  have "(of_char c :: u8) = of_nat (of_char c)" by (simp only: of_nat_of_char)
  moreover have "(of_char c :: nat) < 256" by (rule nat_of_char_less_256)
  ultimately show ?thesis by (simp add: unat_of_nat take_bit_nat_eq_self)
qed

lemma str_bytes_inj [simp]: "str_bytes a = str_bytes b \<longleftrightarrow> a = b"
proof -
  have "inj (of_char :: char \<Rightarrow> u8)" by (rule injI) (metis of_char_u8 of_char_eq_iff)
  then show ?thesis by (simp add: inj_map_eq_map)
qed

text \<open>A delivery receipt is for one message at one time; the signature says nothing of the recipient.\<close>

lemma delivery_bytes_inj: "delivery_bytes i t = delivery_bytes j u \<Longrightarrow> i = j \<and> t = u"
proof -
  assume "delivery_bytes i t = delivery_bytes j u"
  then have "str_bytes i @ be_bytes 8 t = str_bytes j @ be_bytes 8 u" by (simp add: delivery_bytes_def)
  then have "str_bytes i = str_bytes j \<and> be_bytes 8 t = be_bytes 8 u"
    using append_eq_append_conv [of "be_bytes 8 t" "be_bytes 8 u" "str_bytes i" "str_bytes j"] by (metis append_eq_append_conv length_be_bytes)
  then show ?thesis using be_bytes_inj [of 8 t u] by simp
qed

lemma delivery_recipient_unsigned: "delivery_receipt_verify C pub (r\<lparr>dv_recipient_id := x\<rparr>) = delivery_receipt_verify C pub r"
  by (simp add: delivery_receipt_verify_def)

text \<open>The identifiers of a read receipt are signed without separators: a receipt for some messages is one for any
  others whose identifiers make the same text.\<close>

lemma read_receipt_ambiguous:
  assumes "read_receipt_verify C pub r" "concat is = concat (rd_message_ids r)"
  shows "read_receipt_verify C pub (r\<lparr>rd_message_ids := is, rd_reader_id := x\<rparr>)"
proof -
  have "concat (map str_bytes xs) = str_bytes (concat xs)" for xs by (simp add: map_concat)
  then have "read_bytes is t = read_bytes (rd_message_ids r) t" for t using assms(2) by (simp add: read_bytes_def)
  then show ?thesis using assms(1) by (simp add: read_receipt_verify_def)
qed

section \<open>Presence cards\<close>

record presence_card =
  pc_user_id :: string
  pc_display_name :: string
  pc_bio :: string
  pc_ed25519_pub :: bytes
  pc_x25519_pub :: bytes
  pc_socket_addr :: socket_addr
  pc_endpoints :: "socket_addr list"
  pc_nat_category :: nat_category
  pc_timestamp :: u64
  pc_signature :: bytes

text \<open>\<open>serde_json\<close> on the signed part, on a card, and back.\<close>

record card_json =
  cj_signing :: "presence_card \<Rightarrow> bytes"
  cj_write :: "presence_card \<Rightarrow> bytes"
  cj_read :: "bytes \<Rightarrow> presence_card option"

text \<open>The signed part does not depend on the signature; what is written is read back.\<close>

definition card_json_ok :: "card_json \<Rightarrow> bool" where
  "card_json_ok J \<longleftrightarrow> (\<forall>c s. cj_signing J (c\<lparr>pc_signature := s\<rparr>) = cj_signing J c) \<and> (\<forall>c. cj_read J (cj_write J c) = Some c)"

definition presence_create_with_endpoints ::
    "crypto \<Rightarrow> card_json \<Rightarrow> user_identity \<Rightarrow> string \<Rightarrow> string \<Rightarrow> socket_addr \<Rightarrow> socket_addr list \<Rightarrow> nat_category \<Rightarrow> u64 \<Rightarrow> presence_card" where
  "presence_create_with_endpoints C J u name bio addr eps cat ts =
     (let crd = \<lparr>pc_user_id = user_id_hex u, pc_display_name = name, pc_bio = bio, pc_ed25519_pub = ui_verifying_key u,
            pc_x25519_pub = ui_x25519_public u, pc_socket_addr = addr, pc_endpoints = eps, pc_nat_category = cat,
            pc_timestamp = ts, pc_signature = []\<rparr> in
      crd\<lparr>pc_signature := identity_sign C u (cj_signing J crd)\<rparr>)"

definition presence_create :: "crypto \<Rightarrow> card_json \<Rightarrow> user_identity \<Rightarrow> string \<Rightarrow> string \<Rightarrow> socket_addr \<Rightarrow> u64 \<Rightarrow> presence_card" where
  "presence_create C J u name bio addr ts = presence_create_with_endpoints C J u name bio addr [addr] NatUnknown ts"

datatype card_error = CardKeyLength | CardBadKey | CardIdMismatch | CardSignatureLength | CardBadSignature

definition presence_verify :: "crypto \<Rightarrow> card_json \<Rightarrow> presence_card \<Rightarrow> card_error + unit" where
  "presence_verify C J c =
     (if length (pc_ed25519_pub c) \<noteq> 32 then Err CardKeyLength
      else if \<not> cr_ed_valid C (pc_ed25519_pub c) then Err CardBadKey
      else if pc_user_id c \<noteq> to_hex (ffi_hash_node_id (cr_sha1 C) (pc_ed25519_pub c)) then Err CardIdMismatch
      else if length (pc_signature c) \<noteq> 64 then Err CardSignatureLength
      else if \<not> cr_ed_verify_strict C (pc_ed25519_pub c) (cj_signing J c) (pc_signature c) then Err CardBadSignature
      else Ok ())"

text \<open>\<open>PeerDiscovery::discover\<close>: the value that the network gave for the key of the user, and the cache.\<close>

datatype discover_error = PeerNotFound | CardUnreadable | CardRejected card_error

definition presence_key :: "string \<Rightarrow> string" where
  "presence_key user = ''presence_'' @ rust_trim user"

definition peer_discover :: "crypto \<Rightarrow> card_json \<Rightarrow> string \<Rightarrow> bytes option \<Rightarrow> (string \<times> presence_card) list \<Rightarrow>
    (discover_error + presence_card) \<times> (string \<times> presence_card) list" where
  "peer_discover C J user found cache = (case found of
      None \<Rightarrow> (Err PeerNotFound, cache)
    | Some v \<Rightarrow> (case cj_read J v of
          None \<Rightarrow> (Err CardUnreadable, cache)
        | Some crd \<Rightarrow> (case presence_verify C J crd of
              Inl e \<Rightarrow> (Err (CardRejected e), cache)
            | Inr _ \<Rightarrow> (Ok crd, map_put user crd cache))))"

definition peer_get_cached :: "string \<Rightarrow> (string \<times> presence_card) list \<Rightarrow> presence_card option" where
  "peer_get_cached user cache = map_of cache user"

lemma user_id_hex_hash: "identity_ok C u \<Longrightarrow> user_id_hex u = to_hex (ffi_hash_node_id (cr_sha1 C) (ui_verifying_key u))"
  by (simp add: identity_ok_def user_id_hex_def from_key_def id_to_hex_def flip: ffi_node_id_to_hex_def)

lemma presence_created_ok:
  assumes "crypto_ok C" "card_json_ok J" "identity_ok C u"
  shows "presence_verify C J (presence_create_with_endpoints C J u name bio addr eps cat ts) = Ok ()"
proof -
  let ?c = "presence_create_with_endpoints C J u name bio addr eps cat ts"
  let ?b = "\<lparr>pc_user_id = user_id_hex u, pc_display_name = name, pc_bio = bio, pc_ed25519_pub = ui_verifying_key u,
            pc_x25519_pub = ui_x25519_public u, pc_socket_addr = addr, pc_endpoints = eps, pc_nat_category = cat,
            pc_timestamp = ts, pc_signature = []\<rparr>"
  have s: "pc_signature ?c = cr_ed_sign C (ui_signing_key u) (cj_signing J ?b)" "pc_ed25519_pub ?c = ui_verifying_key u"
    "pc_user_id ?c = user_id_hex u"
    by (simp_all add: presence_create_with_endpoints_def identity_sign_def Let_def)
  have j: "cj_signing J ?c = cj_signing J ?b"
    using assms(2) unfolding card_json_ok_def presence_create_with_endpoints_def Let_def by blast
  have v: "ui_verifying_key u = cr_ed_public C (ui_signing_key u)" using assms(3) by (simp add: identity_ok_def)
  have k: "cr_ed_valid C (ui_verifying_key u)" "cr_ed_verify_strict C (ui_verifying_key u) m (cr_ed_sign C (ui_signing_key u) m)" for m
    using assms(1) unfolding v crypto_ok_def by blast+
  have l: "length (ui_verifying_key u) = 32" unfolding v by (rule crypto_lengths(1) [OF assms(1)])
  show ?thesis
    using k l user_id_hex_hash [OF assms(3)] crypto_lengths(2) [OF assms(1)] by (simp add: presence_verify_def s j)
qed

text \<open>The card is checked against itself, not against the user that was asked for.\<close>

lemma discovered_card_of_anybody:
  assumes "crypto_ok C" "card_json_ok J" "identity_ok C mallory"
    "crd = presence_create_with_endpoints C J mallory name bio addr eps cat ts"
  shows "fst (peer_discover C J alice (Some (cj_write J crd)) cache) = Ok crd"
    "peer_get_cached alice (snd (peer_discover C J alice (Some (cj_write J crd)) cache)) = Some crd"
    "pc_x25519_pub crd = ui_x25519_public mallory"
proof -
  have "cj_read J (cj_write J crd) = Some crd" using assms(2) by (simp add: card_json_ok_def)
  moreover have "presence_verify C J crd = Ok ()" unfolding assms(4) by (rule presence_created_ok [OF assms(1-3)])
  ultimately show "fst (peer_discover C J alice (Some (cj_write J crd)) cache) = Ok crd"
    "peer_get_cached alice (snd (peer_discover C J alice (Some (cj_write J crd)) cache)) = Some crd"
    by (simp_all add: peer_discover_def peer_get_cached_def)
  show "pc_x25519_pub crd = ui_x25519_public mallory"
    unfolding assms(4) by (simp add: presence_create_with_endpoints_def Let_def)
qed

lemma presence_verified:
  "presence_verify C J c = Ok () \<longleftrightarrow> length (pc_ed25519_pub c) = 32 \<and> cr_ed_valid C (pc_ed25519_pub c) \<and>
     pc_user_id c = to_hex (ffi_hash_node_id (cr_sha1 C) (pc_ed25519_pub c)) \<and> length (pc_signature c) = 64 \<and>
     cr_ed_verify_strict C (pc_ed25519_pub c) (cj_signing J c) (pc_signature c)"
  by (simp add: presence_verify_def)

section \<open>Invitations\<close>

definition INVITE_PREFIX :: string where "INVITE_PREFIX = ''nodex://invite/''"
abbreviation DEFAULT_INVITE_TTL_SECS :: u64 where "DEFAULT_INVITE_TTL_SECS \<equiv> 604800"

record invite_payload =
  iv_user_id :: string
  iv_ed25519_pub_hex :: string
  iv_x25519_pub_hex :: string
  iv_display_name :: string
  iv_fingerprint :: string
  iv_endpoints :: "socket_addr list"
  iv_created_at :: u64
  iv_expires_at :: u64
  iv_signature_hex :: string

text \<open>JSON and the URL-safe base64 without padding.\<close>

record invite_text =
  it_write :: "invite_payload \<Rightarrow> bytes"
  it_read :: "bytes \<Rightarrow> invite_payload option"
  it_base64 :: "bytes \<Rightarrow> string"
  it_unbase64 :: "string \<Rightarrow> bytes option"

definition invite_sign_bytes :: "string \<Rightarrow> string \<Rightarrow> string \<Rightarrow> u64 \<Rightarrow> u64 \<Rightarrow> bytes" where
  "invite_sign_bytes user ed x created expires =
     str_bytes user @ str_bytes ed @ str_bytes x @ be_bytes 8 created @ be_bytes 8 expires"

definition invite_payload_new :: "crypto \<Rightarrow> user_identity \<Rightarrow> string \<Rightarrow> socket_addr list \<Rightarrow> u64 option \<Rightarrow> u64 \<Rightarrow> invite_payload" where
  "invite_payload_new C u name eps ttl now =
     (let expires = now + (case ttl of Some t \<Rightarrow> t | None \<Rightarrow> DEFAULT_INVITE_TTL_SECS);
          ed = to_hex (ui_verifying_key u); x = to_hex (ui_x25519_public u) in
      \<lparr>iv_user_id = user_id_hex u, iv_ed25519_pub_hex = ed, iv_x25519_pub_hex = x, iv_display_name = name,
       iv_fingerprint = identity_fingerprint C u, iv_endpoints = eps, iv_created_at = now, iv_expires_at = expires,
       iv_signature_hex = to_hex (identity_sign C u (invite_sign_bytes (user_id_hex u) ed x now expires))\<rparr>)"

definition create_invite :: "crypto \<Rightarrow> invite_text \<Rightarrow> user_identity \<Rightarrow> string \<Rightarrow> socket_addr list \<Rightarrow> u64 option \<Rightarrow> u64 \<Rightarrow> string" where
  "create_invite C T u name eps ttl now =
     INVITE_PREFIX @ it_base64 T (it_write T (invite_payload_new C u name eps ttl now))"

datatype invite_error = InviteBase64 | InviteJson | InviteExpired | InviteHex invite_hex_error | InviteKeyLength | InviteIdMismatch
  | InviteSignatureLength | InviteBadKey | InviteBadSignature

definition strip_invite_prefix :: "string \<Rightarrow> string" where
  "strip_invite_prefix s =
     (if take (length INVITE_PREFIX) s = INVITE_PREFIX then drop (length INVITE_PREFIX) s else s)"

text \<open>The checks on a parsed payload, in the order of the code.\<close>

definition verify_invite :: "crypto \<Rightarrow> u64 \<Rightarrow> invite_payload \<Rightarrow> (invite_error + invite_payload) exec" where
  "verify_invite C now p =
     (if iv_expires_at p \<le> now then Done (Err InviteExpired)
      else exec_bind (invite_hex_decode (iv_ed25519_pub_hex p)) (\<lambda>ed. case ed of
        Inl e \<Rightarrow> Done (Err (InviteHex e))
      | Inr key \<Rightarrow>
          if length key \<noteq> 32 then Done (Err InviteKeyLength)
          else if iv_user_id p \<noteq> id_to_hex (from_key (cr_sha1 C) key) then Done (Err InviteIdMismatch)
          else exec_bind (invite_hex_decode (iv_signature_hex p)) (\<lambda>sg. case sg of
            Inl e \<Rightarrow> Done (Err (InviteHex e))
          | Inr sig \<Rightarrow>
              if length sig \<noteq> 64 then Done (Err InviteSignatureLength)
              else if \<not> cr_ed_valid C key then Done (Err InviteBadKey)
              else if \<not> cr_ed_verify C key (invite_sign_bytes (iv_user_id p) (iv_ed25519_pub_hex p) (iv_x25519_pub_hex p)
                  (iv_created_at p) (iv_expires_at p)) sig then Done (Err InviteBadSignature)
              else Done (Ok p))))"

definition parse_and_verify_invite :: "crypto \<Rightarrow> invite_text \<Rightarrow> string \<Rightarrow> u64 \<Rightarrow> (invite_error + invite_payload) exec" where
  "parse_and_verify_invite C T s now = (case it_unbase64 T (strip_invite_prefix (rust_trim s)) of
      None \<Rightarrow> Done (Err InviteBase64)
    | Some raw \<Rightarrow> (case it_read T raw of
          None \<Rightarrow> Done (Err InviteJson)
        | Some p \<Rightarrow> verify_invite C now p))"

definition invite_text_ok :: "invite_text \<Rightarrow> bool" where
  "invite_text_ok T \<longleftrightarrow> (\<forall>p. it_read T (it_write T p) = Some p) \<and> (\<forall>b. it_unbase64 T (it_base64 T b) = Some b) \<and>
     (\<forall>b. list_all plain_char (it_base64 T b))"

text \<open>An invitation that is created is accepted until it expires.\<close>

lemma invite_roundtrip:
  assumes "crypto_ok C" "invite_text_ok T" "identity_ok C u" "t < iv_expires_at (invite_payload_new C u name eps ttl now)"
  shows "parse_and_verify_invite C T (create_invite C T u name eps ttl now) t = Done (Ok (invite_payload_new C u name eps ttl now))"
proof -
  let ?p = "invite_payload_new C u name eps ttl now" and ?s = "create_invite C T u name eps ttl now"
  have plain: "list_all plain_char ?s"
    using assms(2) by (simp add: create_invite_def invite_text_ok_def INVITE_PREFIX_def plain_char_def)
  have "strip_invite_prefix (rust_trim ?s) = it_base64 T (it_write T ?p)"
    by (simp add: rust_trim_plain [OF plain] strip_invite_prefix_def, simp add: create_invite_def)
  then have p: "parse_and_verify_invite C T ?s t = verify_invite C t ?p"
    using assms(2) by (simp add: parse_and_verify_invite_def invite_text_ok_def)
  have k: "length (ui_verifying_key u) = 32" "cr_ed_valid C (ui_verifying_key u)"
    "cr_ed_verify C (ui_verifying_key u) m (identity_sign C u m)" "length (identity_sign C u m) = 64" for m
    using sign_verifies [OF assms(1,3), of m] by (simp_all add: identity_verify_def)
  have i: "user_id_hex u = id_to_hex (from_key (cr_sha1 C) (ui_verifying_key u))"
    using assms(3) by (simp add: user_id_hex_def identity_ok_def)
  show ?thesis unfolding p using assms(4) k i
    by (simp add: verify_invite_def invite_payload_new_def Let_def invite_hex_to_hex not_le [symmetric])
qed

lemma invite_accepted:
  assumes "parse_and_verify_invite C T s now = Done (Ok p)"
  shows "now < iv_expires_at p \<and> (\<exists>key sig. invite_hex_decode (iv_ed25519_pub_hex p) = Done (Ok key) \<and>
    iv_user_id p = id_to_hex (from_key (cr_sha1 C) key) \<and>
    identity_verify C key (invite_sign_bytes (iv_user_id p) (iv_ed25519_pub_hex p) (iv_x25519_pub_hex p) (iv_created_at p)
      (iv_expires_at p)) sig)"
  using assms
  by (auto simp: parse_and_verify_invite_def verify_invite_def identity_verify_def exec_bind_def not_le
      split: option.splits if_splits exec.splits sum.splits)

text \<open>Name, addresses and fingerprint are not signed.\<close>

lemma invite_unsigned_fields:
  assumes "verify_invite C now p = Done (Ok p)"
  shows "verify_invite C now (p\<lparr>iv_display_name := n, iv_fingerprint := f, iv_endpoints := es\<rparr>) =
    Done (Ok (p\<lparr>iv_display_name := n, iv_fingerprint := f, iv_endpoints := es\<rparr>))"
  using assms by (auto simp: verify_invite_def exec_bind_def split: if_splits exec.splits sum.splits)

section \<open>The contact card in an image\<close>

record stego_card =
  sg_user_id :: string
  sg_display_name :: string
  sg_bio :: string
  sg_ed25519_pub_hex :: string
  sg_x25519_pub_hex :: string
  sg_endpoints :: "socket_addr list"
  sg_timestamp :: u64
  sg_signature_hex :: string

definition stego_sign_bytes :: "string \<Rightarrow> bytes \<Rightarrow> bytes \<Rightarrow> u64 \<Rightarrow> bytes" where
  "stego_sign_bytes user ed x ts = str_bytes user @ ed @ x @ be_bytes 8 ts"

definition stego_card_new :: "crypto \<Rightarrow> user_identity \<Rightarrow> string \<Rightarrow> string \<Rightarrow> socket_addr list \<Rightarrow> u64 \<Rightarrow> stego_card" where
  "stego_card_new C u name bio eps ts =
     \<lparr>sg_user_id = user_id_hex u, sg_display_name = name, sg_bio = bio, sg_ed25519_pub_hex = to_hex (ui_verifying_key u),
      sg_x25519_pub_hex = to_hex (ui_x25519_public u), sg_endpoints = eps, sg_timestamp = ts,
      sg_signature_hex = to_hex (identity_sign C u (stego_sign_bytes (user_id_hex u) (ui_verifying_key u) (ui_x25519_public u) ts))\<rparr>"

datatype stego_card_error = StegoEdHex | StegoKeyLength | StegoIdMismatch | StegoSigHex | StegoSigLength | StegoBadKey | StegoBadSignature

definition verify_stego_card :: "crypto \<Rightarrow> stego_card \<Rightarrow> (stego_card_error + node_id) exec" where
  "verify_stego_card C c = exec_bind (hex_decode (sg_ed25519_pub_hex c)) (\<lambda>ed. case ed of
      None \<Rightarrow> Done (Err StegoEdHex)
    | Some key \<Rightarrow>
        if length key \<noteq> 32 then Done (Err StegoKeyLength)
        else if id_to_hex (from_key (cr_sha1 C) key) \<noteq> sg_user_id c then Done (Err StegoIdMismatch)
        else exec_bind (hex_decode (sg_signature_hex c)) (\<lambda>sg. case sg of
          None \<Rightarrow> Done (Err StegoSigHex)
        | Some sig \<Rightarrow>
            if length sig \<noteq> 64 then Done (Err StegoSigLength)
            else exec_bind (hex_decode (sg_x25519_pub_hex c)) (\<lambda>x.
              if \<not> cr_ed_valid C key then Done (Err StegoBadKey)
              else if \<not> cr_ed_verify C key (stego_sign_bytes (sg_user_id c) key (case x of Some b \<Rightarrow> b | None \<Rightarrow> []) (sg_timestamp c)) sig
              then Done (Err StegoBadSignature)
              else Done (Ok (from_key (cr_sha1 C) key)))))"

lemma stego_card_roundtrip:
  assumes "crypto_ok C" "identity_ok C u"
  shows "verify_stego_card C (stego_card_new C u name bio eps ts) = Done (Ok (ui_user_id u))"
proof -
  have k: "length (ui_verifying_key u) = 32" "cr_ed_valid C (ui_verifying_key u)"
    "cr_ed_verify C (ui_verifying_key u) m (identity_sign C u m)" "length (identity_sign C u m) = 64" for m
    using sign_verifies [OF assms, of m] by (simp_all add: identity_verify_def)
  have x: "length (ui_x25519_public u) = 32" using assms(2) crypto_lengths(3) [OF assms(1)] by (simp add: identity_ok_def)
  have h: "hex_decode (to_hex (ui_verifying_key u)) = Done (Some (ui_verifying_key u))"
    "hex_decode (to_hex (identity_sign C u m)) = Done (Some (identity_sign C u m))"
    "hex_decode (to_hex (ui_x25519_public u)) = Done (Some (ui_x25519_public u))" for m
    using k(1) k(4) [of m] x by (intro hex_decode_to_hex; auto)+
  have i: "user_id_hex u = id_to_hex (from_key (cr_sha1 C) (ui_verifying_key u))" "ui_user_id u = from_key (cr_sha1 C) (ui_verifying_key u)"
    using assms(2) by (simp_all add: user_id_hex_def identity_ok_def)
  show ?thesis using k h i by (simp add: verify_stego_card_def stego_card_new_def)
qed

text \<open>A card whose encryption key is not hexadecimal is checked as if it had none; name and addresses are not signed.\<close>

lemma verify_stego_card_cong:
  assumes "sg_user_id d = sg_user_id c" "sg_ed25519_pub_hex d = sg_ed25519_pub_hex c" "sg_x25519_pub_hex d = sg_x25519_pub_hex c"
    "sg_timestamp d = sg_timestamp c" "sg_signature_hex d = sg_signature_hex c"
  shows "verify_stego_card C d = verify_stego_card C c"
  unfolding verify_stego_card_def assms by (rule refl)

lemma stego_unsigned_fields:
  "verify_stego_card C (c\<lparr>sg_display_name := n, sg_bio := b, sg_endpoints := es\<rparr>) = verify_stego_card C c"
  by (rule verify_stego_card_cong) simp_all

end
