(* ===== verification/Stego.thy ===== *)
theory Stego
  imports Signed_Cards
begin

text \<open>
  The contact card in the pixels of an image (\<open>stego.rs\<close>): one bit of the payload in the lowest bit of every
  colour channel. Decoding and encoding of images, JSON and CRC-32 are parameters, random bytes are arguments. The
  lemmas show that the card comes back from the image it was put into, and that a channel changes in its lowest bit
  only.
\<close>

section \<open>Images\<close>

type_synonym pixel = "u8 \<times> u8 \<times> u8 \<times> u8"

record rgba_image =
  im_width :: u32
  im_height :: u32
  im_pixels :: "pixel list"

text \<open>The row-major order of the loops is the order of the list.\<close>

definition image_ok :: "rgba_image \<Rightarrow> bool" where
  "image_ok im \<longleftrightarrow> length (im_pixels im) = unat (im_width im) * unat (im_height im)"

record stego_io =
  si_json_write :: "stego_card \<Rightarrow> bytes option"
  si_json_read :: "bytes \<Rightarrow> stego_card option"
  si_png :: "rgba_image \<Rightarrow> bytes option"
  si_load :: "bytes \<Rightarrow> rgba_image option"

datatype stego_error = StegoSerialize | StegoRandom | StegoEncrypt | ImageTooSmall nat nat | PngEncode | BadImage | NoStegoMagic
  | StegoLength | StegoCapacity | StegoCrc | StegoDecrypt | StegoJson

definition STEGO_MAGIC :: bytes where "STEGO_MAGIC = str_bytes ''NXSTG1''"

definition stego_key :: "crypto \<Rightarrow> string option \<Rightarrow> bytes \<Rightarrow> bytes" where
  "stego_key C passphrase salt = cr_sha256 C (str_bytes ''NODEX_STEGO_CARRIER_KEY_V1'' @ salt @
     (case passphrase of Some p \<Rightarrow> str_bytes p | None \<Rightarrow> []))"

section \<open>Bits in pixels\<close>

definition payload_bit :: "bytes \<Rightarrow> nat \<Rightarrow> u8" where
  "payload_bit raw n = and (drop_bit (7 - n mod 8) (raw ! (n div 8))) 1"

definition put_bit :: "bytes \<Rightarrow> nat \<Rightarrow> u8 \<Rightarrow> u8" where
  "put_bit raw n v = (if n < length raw * 8 then or (and v 0xFE) (payload_bit raw n) else v)"

fun write_pixels :: "bytes \<Rightarrow> nat \<Rightarrow> pixel list \<Rightarrow> pixel list" where
  "write_pixels raw n [] = []"
| "write_pixels raw n ((r, g, b, a) # ps) =
     (put_bit raw n r, put_bit raw (n + 1) g, put_bit raw (n + 2) b, a) # write_pixels raw (n + 3) ps"

definition channels :: "pixel list \<Rightarrow> u8 list" where
  "channels ps = concat (map (\<lambda>(r, g, b, a). [r, g, b]) ps)"

text \<open>One turn of the reading loop, with the bit index and the buffer.\<close>

definition get_bit :: "nat \<Rightarrow> u8 \<Rightarrow> nat \<times> bytes \<Rightarrow> nat \<times> bytes" where
  "get_bit needed v st = (case st of (n, buf) \<Rightarrow>
     if n < needed then (n + 1, buf[n div 8 := or (buf ! (n div 8)) (push_bit (7 - n mod 8) (and v 1))]) else (n, buf))"

definition read_bytes_at :: "nat \<Rightarrow> pixel list \<Rightarrow> bytes" where
  "read_bytes_at k ps = snd (fold (get_bit (k * 8)) (channels ps) (0, replicate k 0))"

section \<open>Carrying a card\<close>

definition stego_packet :: "(bytes \<Rightarrow> u32) \<Rightarrow> bytes \<Rightarrow> bytes \<Rightarrow> bytes \<Rightarrow> bytes" where
  "stego_packet crc salt nonce ct =
     (let raw = STEGO_MAGIC @ be_bytes 4 (of_nat (length ct) :: u32) @ salt @ nonce @ ct in raw @ be_bytes 4 (crc raw))"

definition embed_contact_into_image ::
    "crypto \<Rightarrow> stego_io \<Rightarrow> (bytes \<Rightarrow> u32) \<Rightarrow> bytes option \<Rightarrow> bytes option \<Rightarrow> rgba_image \<Rightarrow> stego_card \<Rightarrow> string option \<Rightarrow>
     stego_error + bytes" where
  "embed_contact_into_image C S crc rnd_salt rnd_nonce im crd passphrase = (case si_json_write S crd of
      None \<Rightarrow> Err StegoSerialize
    | Some json \<Rightarrow> (case (rnd_salt, rnd_nonce) of
          (Some salt, Some nonce) \<Rightarrow>
            (case cr_seal C (stego_key C passphrase salt) nonce [] json of
               None \<Rightarrow> Err StegoEncrypt
             | Some ct \<Rightarrow>
                 (let raw = stego_packet crc salt nonce ct; bits = length raw * 8;
                      total = unat (im_width im) * unat (im_height im) in
                  if bits > total * 3 then Err (ImageTooSmall ((bits + 2) div 3) total)
                  else (case si_png S (im\<lparr>im_pixels := write_pixels raw 0 (im_pixels im)\<rparr>) of
                      None \<Rightarrow> Err PngEncode
                    | Some png \<Rightarrow> Ok png)))
        | _ \<Rightarrow> Err StegoRandom))"

definition open_stego_packet :: "crypto \<Rightarrow> stego_io \<Rightarrow> (bytes \<Rightarrow> u32) \<Rightarrow> string option \<Rightarrow> nat \<Rightarrow> bytes \<Rightarrow> stego_error + stego_card" where
  "open_stego_packet C S crc passphrase payload_len full =
     (let dat = take (length full - 4) full in
      if crc dat \<noteq> of_be (drop (length full - 4) full) then Err StegoCrc
      else (case cr_open C (stego_key C passphrase (take 32 (drop 10 full))) (take 12 (drop 42 full)) [] (take payload_len (drop 54 full)) of
          None \<Rightarrow> Err StegoDecrypt
        | Some pt \<Rightarrow> (case si_json_read S pt of None \<Rightarrow> Err StegoJson | Some crd \<Rightarrow> Ok crd)))"

definition extract_contact_from_image ::
    "crypto \<Rightarrow> stego_io \<Rightarrow> (bytes \<Rightarrow> u32) \<Rightarrow> bytes \<Rightarrow> string option \<Rightarrow> stego_error + stego_card" where
  "extract_contact_from_image C S crc bs passphrase = (case si_load S bs of
      None \<Rightarrow> Err BadImage
    | Some im \<Rightarrow>
        (let header = read_bytes_at 10 (im_pixels im); payload_len = unat (of_be (drop 6 header) :: u32) in
         if take 6 header \<noteq> STEGO_MAGIC then Err NoStegoMagic
         else if payload_len > 1000000 then Err StegoLength
         else (let packet_size = 6 + 4 + 32 + 12 + payload_len + 4 in
           if packet_size * 8 > unat (im_width im) * unat (im_height im) * 3 then Err StegoCapacity
           else open_stego_packet C S crc passphrase payload_len (read_bytes_at packet_size (im_pixels im)))))"

section \<open>Reading what was written\<close>

definition top_bits :: "nat \<Rightarrow> u8 \<Rightarrow> u8" where
  "top_bits k x = (if k \<le> 8 then push_bit (8 - k) (drop_bit (8 - k) x) else x)"

lemma bit_top_bits: "k \<le> 8 \<Longrightarrow> bit (top_bits k x) n \<longleftrightarrow> 8 - k \<le> n \<and> bit x n"
  by (cases "8 - k \<le> n") (auto simp only: top_bits_def bit_push_bit_iff bit_drop_bit_eq o_def le_add_diff_inverse if_True
      possible_bit_word dest: bit_imp_le_length)

lemma top_bits_0: "top_bits 0 x = 0"
  by (rule bit_eqI) (auto simp: bit_top_bits dest: bit_imp_le_length)

lemma top_bits_full: "8 \<le> k \<Longrightarrow> top_bits k x = x"
  by (auto simp: top_bits_def)

lemma top_bits_step:
  assumes "k < 8" shows "or (top_bits k x) (push_bit (7 - k) (and (drop_bit (7 - k) x) 1)) = top_bits (Suc k) x"
proof (rule bit_eqI)
  fix n assume "possible_bit TYPE(8 word) n"
  then have "bit (push_bit (7 - k) (and (drop_bit (7 - k) x) 1)) n \<longleftrightarrow> 7 - k \<le> n \<and> n - (7 - k) = 0 \<and> bit x (7 - k + 0)"
    by (simp only: bit_push_bit_iff bit_drop_bit_eq bit_and_iff bit_1_iff o_def conj_commute conj_left_commute simp_thms) auto
  also have "\<dots> \<longleftrightarrow> n = 7 - k \<and> bit x n" by auto
  finally have b: "bit (push_bit (7 - k) (and (drop_bit (7 - k) x) 1)) n \<longleftrightarrow> n = 7 - k \<and> bit x n" .
  show "bit (or (top_bits k x) (push_bit (7 - k) (and (drop_bit (7 - k) x) 1))) n = bit (top_bits (Suc k) x) n"
    using assms by (auto simp only: bit_or_iff b bit_top_bits)
qed

lemma low_bit_put: "n < length raw * 8 \<Longrightarrow> and (put_bit raw n v) 1 = payload_bit raw n"
  by (rule bit_eqI) (auto simp: put_bit_def payload_bit_def bit_simps)

text \<open>The buffer after \<open>n\<close> bits.\<close>

definition read_so_far :: "bytes \<Rightarrow> nat \<Rightarrow> bytes" where
  "read_so_far raw n = map (\<lambda>j. top_bits (n - 8 * j) (raw ! j)) [0..<length raw]"

lemma read_so_far_0: "read_so_far raw 0 = replicate (length raw) 0"
  by (simp add: read_so_far_def top_bits_0 map_replicate_const)

lemma read_so_far_all: "length raw * 8 \<le> n \<Longrightarrow> read_so_far raw n = raw"
  unfolding read_so_far_def by (rule nth_equalityI) (auto simp: top_bits_full)

lemma nth_read_so_far: "i < length raw \<Longrightarrow> read_so_far raw n ! i = top_bits (n - 8 * i) (raw ! i)"
  by (simp add: read_so_far_def)

lemma length_read_so_far [simp]: "length (read_so_far raw n) = length raw"
  by (simp add: read_so_far_def)

lemma read_so_far_Suc:
  assumes "j < length raw" "k < 8"
  shows "(read_so_far raw (8 * j + k))[j := or (read_so_far raw (8 * j + k) ! j) (push_bit (7 - k) (and (drop_bit (7 - k) (raw ! j)) 1))] =
    read_so_far raw (Suc (8 * j + k))" (is "?l = ?r")
proof (rule nth_equalityI)
  show "?l ! i = ?r ! i" if "i < length ?l" for i
  proof -
    have i: "i < length raw" using that by simp
    consider "i = j" | "i < j" | "j < i" by linarith
    then show ?thesis
    proof cases
      case 1
      then show ?thesis using top_bits_step [OF assms(2), of "raw ! j"] assms by (simp add: nth_read_so_far)
    next
      case 2
      then have "8 \<le> 8 * j + k - 8 * i" "8 \<le> Suc (8 * j + k) - 8 * i" by linarith+
      then show ?thesis using 2 i by (simp add: nth_read_so_far top_bits_full)
    next
      case 3
      then have "8 * j + k - 8 * i = 0" "Suc (8 * j + k) - 8 * i = 0" using assms(2) by linarith+
      then show ?thesis using 3 i by (simp add: nth_read_so_far)
    qed
  qed
qed simp

lemma get_bit_step:
  assumes "n < length raw * 8" "and v 1 = payload_bit raw n"
  shows "get_bit (length raw * 8) v (n, read_so_far raw n) = (Suc n, read_so_far raw (Suc n))"
proof -
  define j k where "j = n div 8" and "k = n mod 8"
  have n: "n = 8 * j + k" "k < 8" by (simp_all add: j_def k_def)
  have j: "j < length raw" using assms(1) by (simp add: j_def less_mult_imp_div_less)
  have v: "and v 1 = and (drop_bit (7 - k) (raw ! j)) 1" using assms(2) by (simp add: payload_bit_def j_def k_def)
  show ?thesis using assms(1) read_so_far_Suc [OF j n(2)]
    by (simp only: get_bit_def prod.case if_True v j_def [symmetric] k_def [symmetric] n(1) [symmetric] Suc_eq_plus1)
qed

lemma get_bit_done: "length raw * 8 \<le> n \<Longrightarrow> fold (get_bit (length raw * 8)) vs (n, buf) = (n, buf)"
  by (induction vs) (auto simp: get_bit_def)

lemma read_bits:
  assumes "\<forall>i < length vs. n + i < length raw * 8 \<longrightarrow> and (vs ! i) 1 = payload_bit raw (n + i)" "length raw * 8 \<le> n + length vs"
  shows "snd (fold (get_bit (length raw * 8)) vs (n, read_so_far raw n)) = raw"
  using assms
proof (induction vs arbitrary: n)
  case Nil
  then show ?case using read_so_far_all [of raw n] by simp
next
  case (Cons v vs)
  show ?case
  proof (cases "n < length raw * 8")
    case True
    have "and v 1 = payload_bit raw n" using Cons.prems(1) True by (auto dest: spec [of _ 0])
    note step = get_bit_step [OF True this]
    have "\<forall>i < length vs. Suc n + i < length raw * 8 \<longrightarrow> and (vs ! i) 1 = payload_bit raw (Suc n + i)"
      using Cons.prems(1) by (auto dest: spec [of _ "Suc i" for i])
    then show ?thesis using Cons.IH [of "Suc n"] Cons.prems(2) step by simp
  next
    case False
    then have "length raw * 8 \<le> n" by simp
    from get_bit_done [OF this, of "v # vs" "read_so_far raw n"] read_so_far_all [OF this] show ?thesis by (simp del: fold_simps)
  qed
qed

lemma length_channels: "length (channels ps) = 3 * length ps"
  unfolding channels_def by (induction ps) auto

lemma channels_written:
  "i < length (channels ps) \<Longrightarrow> channels (write_pixels raw n ps) ! i = put_bit raw (n + i) (channels ps ! i)"
proof (induction raw n ps arbitrary: i rule: write_pixels.induct)
  case (2 raw n r g b a ps)
  consider "i = 0" | "i = 1" | "i = 2" | j where "i = Suc (Suc (Suc j))"
    by (metis One_nat_def Suc_1 not0_implies_Suc)
  then show ?case
  proof cases
    case 4
    moreover have "Suc (Suc (Suc (n + j))) = n + 3 + j" by simp
    ultimately show ?thesis using 2 by (simp only: channels_def write_pixels.simps list.map concat.simps prod.case append.simps
        nth_Cons_Suc length_Cons length_append Suc_less_eq add_Suc_right)
  qed (simp_all add: channels_def)
qed (simp add: channels_def)

lemma length_written [simp]: "length (write_pixels raw n ps) = length ps"
  by (induction raw n ps rule: write_pixels.induct) auto

lemma read_written:
  assumes "length raw * 8 \<le> length ps * 3" "k \<le> length raw"
  shows "read_bytes_at k (write_pixels raw 0 ps) = take k raw"
proof -
  have "and (channels (write_pixels raw 0 ps) ! i) 1 = payload_bit (take k raw) i" if "i < k * 8" for i
  proof -
    have "i < length raw * 8" "i div 8 < k" "i < length (channels ps)"
      using that assms by (simp_all add: less_mult_imp_div_less length_channels)
    then show ?thesis using channels_written [of i ps raw 0] low_bit_put [of i raw] by (simp add: payload_bit_def)
  qed
  then have "snd (fold (get_bit (length (take k raw) * 8)) (channels (write_pixels raw 0 ps)) (0, read_so_far (take k raw) 0)) = take k raw"
    using assms by (intro read_bits) (auto simp: length_channels min_def)
  then show ?thesis using assms(2) by (simp add: read_bytes_at_def read_so_far_0)
qed

text \<open>The pixels keep their alpha, every channel its upper seven bits, and what lies behind the payload all of it.\<close>

definition same_but_lowest :: "pixel \<Rightarrow> pixel \<Rightarrow> bool" where
  "same_but_lowest p q \<longleftrightarrow> (case (p, q) of ((r, g, b, a), (r', g', b', a')) \<Rightarrow>
     and r 0xFE = and r' 0xFE \<and> and g 0xFE = and g' 0xFE \<and> and b 0xFE = and b' 0xFE \<and> a = a')"

lemma put_bit_high: "and (put_bit raw n v) 0xFE = and v 0xFE"
proof (rule bit_eqI)
  fix m assume "possible_bit TYPE(8 word) m"
  have "\<not> bit (0xFE :: u8) 0" by simp
  moreover have "bit (payload_bit raw n) m \<Longrightarrow> m = 0" by (auto simp: payload_bit_def bit_simps)
  ultimately show "bit (and (put_bit raw n v) 0xFE) m = bit (and v 0xFE) m"
    by (auto simp only: put_bit_def bit_and_iff bit_or_iff split: if_splits)
qed

lemma written_invisible: "list_all2 same_but_lowest (write_pixels raw n ps) ps"
  by (induction raw n ps rule: write_pixels.induct) (simp_all add: same_but_lowest_def put_bit_high)

lemma written_rest: "length raw * 8 \<le> n \<Longrightarrow> write_pixels raw n ps = ps"
  by (induction raw n ps rule: write_pixels.induct) (simp_all add: put_bit_def)

section \<open>The card comes back\<close>

definition stego_io_ok :: "stego_io \<Rightarrow> bool" where
  "stego_io_ok S \<longleftrightarrow> (\<forall>c b. si_json_write S c = Some b \<longrightarrow> si_json_read S b = Some c) \<and>
     (\<forall>im b. image_ok im \<longrightarrow> si_png S im = Some b \<longrightarrow> si_load S b = Some im)"

lemma stego_packet_parts:
  fixes crc :: "bytes \<Rightarrow> u32"
  assumes "length salt = 32" "length nonce = 12" "length ct < 2 ^ 32"
  defines "raw \<equiv> stego_packet crc salt nonce ct"
  shows "length raw = 58 + length ct" "take 6 (take 10 raw) = STEGO_MAGIC" "unat (of_be (drop 6 (take 10 raw)) :: u32) = length ct"
    "take 32 (drop 10 raw) = salt" "take 12 (drop 42 raw) = nonce" "take (length ct) (drop 54 raw) = ct"
    "crc (take (length raw - 4) raw) = of_be (drop (length raw - 4) raw)"
proof -
  have m: "length STEGO_MAGIC = 6" by (simp add: STEGO_MAGIC_def)
  show "length raw = 58 + length ct" using assms(1,2) m by (simp add: raw_def stego_packet_def Let_def)
  show "take 6 (take 10 raw) = STEGO_MAGIC" using m by (simp add: raw_def stego_packet_def Let_def)
  have "drop 6 (take 10 raw) = be_bytes 4 (of_nat (length ct) :: u32)" using m by (simp add: raw_def stego_packet_def Let_def)
  then show "unat (of_be (drop 6 (take 10 raw)) :: u32) = length ct"
    using assms(3) by (simp add: of_be_be_bytes_u32 unat_of_nat)
  show "take 32 (drop 10 raw) = salt" "take 12 (drop 42 raw) = nonce" "take (length ct) (drop 54 raw) = ct"
    using assms(1,2) m by (simp_all add: raw_def stego_packet_def Let_def)
  show "crc (take (length raw - 4) raw) = of_be (drop (length raw - 4) raw)"
    by (simp add: raw_def stego_packet_def Let_def of_be_be_bytes_u32)
qed

lemma embed_cases:
  assumes "embed_contact_into_image C S crc (Some salt) (Some nonce) im crd pw = Ok png"
  shows "\<exists>json ct. si_json_write S crd = Some json \<and> cr_seal C (stego_key C pw salt) nonce [] json = Some ct \<and>
    length (stego_packet crc salt nonce ct) * 8 \<le> unat (im_width im) * unat (im_height im) * 3 \<and>
    si_png S (im\<lparr>im_pixels := write_pixels (stego_packet crc salt nonce ct) 0 (im_pixels im)\<rparr>) = Some png"
  using assms by (auto simp: embed_contact_into_image_def Let_def split: option.splits if_splits)

lemma stego_roundtrip:
  assumes C: "crypto_ok C" and S: "stego_io_ok S" and im: "image_ok im" and len: "length salt = 32" "length nonce = 12"
    and e: "embed_contact_into_image C S crc (Some salt) (Some nonce) im crd pw = Ok png"
    and small: "\<And>ct. cr_seal C (stego_key C pw salt) nonce [] (the (si_json_write S crd)) = Some ct \<Longrightarrow> length ct \<le> 1000000"
  shows "extract_contact_from_image C S crc png pw = Ok crd"
proof -
  obtain json ct where x: "si_json_write S crd = Some json" "cr_seal C (stego_key C pw salt) nonce [] json = Some ct"
    "length (stego_packet crc salt nonce ct) * 8 \<le> unat (im_width im) * unat (im_height im) * 3"
    "si_png S (im\<lparr>im_pixels := write_pixels (stego_packet crc salt nonce ct) 0 (im_pixels im)\<rparr>) = Some png"
    using embed_cases [OF e] by blast
  let ?raw = "stego_packet crc salt nonce ct" and ?ps = "write_pixels (stego_packet crc salt nonce ct) 0 (im_pixels im)"
  have ct: "length ct \<le> 1000000" using small x(1,2) by simp
  note p = stego_packet_parts [OF len, of ct crc]
  have ct32: "length ct < 2 ^ 32" using ct by simp
  have l: "si_load S png = Some (im\<lparr>im_pixels := ?ps\<rparr>)" "si_json_read S json = Some crd"
    using S im x(1,4) by (auto simp: stego_io_ok_def image_ok_def)
  have cap: "length ?raw * 8 \<le> length (im_pixels im) * 3" using x(3) im by (simp add: image_ok_def)
  have r: "read_bytes_at 10 ?ps = take 10 ?raw" "read_bytes_at (length ?raw) ?ps = ?raw"
    using read_written [OF cap, of 10] read_written [OF cap, of "length ?raw"] p(1) [OF ct32] by simp_all
  have o: "open_stego_packet C S crc pw (length ct) ?raw = Ok crd"
    using p [OF ct32] seal_open [OF C x(2)] l(2) by (simp add: open_stego_packet_def)
  show ?thesis using l(1) r p(1-3) [OF ct32] ct x(3) o
    by (simp add: extract_contact_from_image_def Let_def add.commute)
qed

text \<open>A longer card goes in, when the image is large enough, and is always refused on the way out.\<close>

lemma long_card_lost:
  assumes "stego_io_ok S" "image_ok im" "length salt = 32" "length nonce = 12"
    "embed_contact_into_image C S crc (Some salt) (Some nonce) im crd pw = Ok png"
    "cr_seal C (stego_key C pw salt) nonce [] (the (si_json_write S crd)) = Some ct" "1000000 < length ct" "length ct < 2 ^ 32"
  shows "extract_contact_from_image C S crc png pw = Err StegoLength"
proof -
  have x: "length (stego_packet crc salt nonce ct) * 8 \<le> unat (im_width im) * unat (im_height im) * 3"
    "si_png S (im\<lparr>im_pixels := write_pixels (stego_packet crc salt nonce ct) 0 (im_pixels im)\<rparr>) = Some png"
    using embed_cases [OF assms(5)] assms(6) by auto
  let ?raw = "stego_packet crc salt nonce ct"
  have l: "si_load S png = Some (im\<lparr>im_pixels := write_pixels ?raw 0 (im_pixels im)\<rparr>)"
    using assms(1,2) x(2) by (auto simp: stego_io_ok_def image_ok_def)
  have cap: "length ?raw * 8 \<le> length (im_pixels im) * 3" using x(1) assms(2) by (simp add: image_ok_def)
  note p = stego_packet_parts [OF assms(3,4,8), of crc]
  have "read_bytes_at 10 (write_pixels ?raw 0 (im_pixels im)) = take 10 ?raw" using read_written [OF cap, of 10] p(1) by simp
  then show ?thesis using l p(2,3) assms(7) by (simp add: extract_contact_from_image_def Let_def)
qed

text \<open>An image without a packet is refused without a panic, however small it is.\<close>

lemma blank_image_refused:
  assumes "si_load S bs = Some im" "im_pixels im = []" shows "extract_contact_from_image C S crc bs pw = Err NoStegoMagic"
proof -
  have "hd (take 6 (read_bytes_at 10 (im_pixels im))) \<noteq> hd STEGO_MAGIC"
    using assms(2) by (simp add: read_bytes_at_def channels_def STEGO_MAGIC_def)
  then have "take 6 (read_bytes_at 10 (im_pixels im)) \<noteq> STEGO_MAGIC" by metis
  then show ?thesis using assms(1) by (simp add: extract_contact_from_image_def Let_def)
qed

end
