(* ===== verification/Message_Db.thy ===== *)
theory Message_Db
  imports Groups_Mesh
begin

text \<open>
  The message store of the messenger: \<open>MessengerDb\<close> in memory (\<open>db.rs\<close>), voice notes (\<open>voice.rs\<close>), the
  contact list (\<open>contacts.rs\<close>) and the check for changed keys (\<open>contact_verification.rs\<close>). The lemmas show
  that every operation keeps the identifiers distinct and apart from the deleted ones, that a deleted message
  never comes back, that edits and deletions from outside touch the messages of their author only, and that
  every user has at most one reaction to a message.
\<close>

section \<open>Voice notes\<close>

abbreviation MAX_VOICE_NOTE_SECS :: u32 where "MAX_VOICE_NOTE_SECS \<equiv> 300"
abbreviation WAVEFORM_SAMPLES_COUNT :: nat where "WAVEFORM_SAMPLES_COUNT \<equiv> 48"

record voice_note =
  vn_duration_secs :: u32
  vn_waveform :: bytes
  vn_mime_type :: string
  vn_audio_base64 :: string
  vn_file_size :: nat

text \<open>One bar of the waveform. The average is at most 128, so \<open>avg / 128 * 100\<close> is exact in single precision
  and its cast rounds down.\<close>

definition waveform_bar :: "bytes \<Rightarrow> u8" where
  "waveform_bar chunk =
     (let total = sum_list (map (\<lambda>b. nat \<bar>int (unat b) - 128\<bar>) chunk); avg = total div length chunk in
      of_nat (min 100 (max 10 (avg * 100 div 128))))"

text \<open>Zero samples of some bytes divide by zero.\<close>

definition generate_waveform :: "bytes \<Rightarrow> nat \<Rightarrow> bytes exec" where
  "generate_waveform audio num_samples =
     (if audio = [] then Done (replicate num_samples 20)
      else if num_samples = 0 then Panic
      else (let chunk_size = max (length audio div num_samples) 1;
                samples = map waveform_bar (take num_samples (slices chunk_size audio)) in
            Done (samples @ replicate (num_samples - length samples) 15)))"

definition voice_note_new :: "(bytes \<Rightarrow> string) \<Rightarrow> u32 \<Rightarrow> bytes \<Rightarrow> string \<Rightarrow> voice_note exec" where
  "voice_note_new base64 duration audio mime = exec_bind (generate_waveform audio WAVEFORM_SAMPLES_COUNT) (\<lambda>w. Done
     \<lparr>vn_duration_secs = min duration MAX_VOICE_NOTE_SECS, vn_waveform = w, vn_mime_type = mime,
      vn_audio_base64 = base64 audio, vn_file_size = length audio\<rparr>)"

definition formatted_duration :: "voice_note \<Rightarrow> string" where
  "formatted_duration v =
     (let mins = unat (vn_duration_secs v) div 60; secs = unat (vn_duration_secs v) mod 60 in
      decimal mins @ '':'' @ (if secs < 10 then ''0'' else []) @ decimal secs)"

section \<open>Contacts\<close>

record saved_contact =
  sc_user_id :: string
  sc_name :: string
  sc_bio :: string
  sc_ed25519_pub_hex :: string
  sc_x25519_pub_hex :: string
  sc_last_seen_addr :: string

record contacts_manager =
  cm_contacts :: "(string \<times> saved_contact) list"
  cm_blocked :: "(string \<times> bool) list"

definition contacts_add :: "saved_contact \<Rightarrow> contacts_manager \<Rightarrow> contacts_manager" where
  "contacts_add c m = m\<lparr>cm_contacts := map_put (sc_user_id c) c (cm_contacts m)\<rparr>"

definition contacts_remove :: "string \<Rightarrow> contacts_manager \<Rightarrow> saved_contact option \<times> contacts_manager" where
  "contacts_remove u m = (map_of (cm_contacts m) u, m\<lparr>cm_contacts := map_del u (cm_contacts m)\<rparr>)"

definition contacts_get :: "string \<Rightarrow> contacts_manager \<Rightarrow> saved_contact option" where
  "contacts_get u m = map_of (cm_contacts m) u"

definition contacts_block :: "string \<Rightarrow> contacts_manager \<Rightarrow> contacts_manager" where
  "contacts_block u m = m\<lparr>cm_blocked := map_put u True (cm_blocked m)\<rparr>"

definition contacts_unblock :: "string \<Rightarrow> contacts_manager \<Rightarrow> contacts_manager" where
  "contacts_unblock u m = m\<lparr>cm_blocked := map_del u (cm_blocked m)\<rparr>"

definition contacts_is_blocked :: "string \<Rightarrow> contacts_manager \<Rightarrow> bool" where
  "contacts_is_blocked u m = (case map_of (cm_blocked m) u of Some b \<Rightarrow> b | None \<Rightarrow> False)"

definition contacts_list :: "contacts_manager \<Rightarrow> saved_contact list" where
  "contacts_list m = map snd (cm_contacts m)"

record key_rotation_alert =
  kr_contact_user_id :: string
  kr_contact_name :: string
  kr_old_key :: string
  kr_new_key :: string
  kr_detected_at :: u64

definition detect_key_rotation :: "saved_contact \<Rightarrow> string \<Rightarrow> u64 \<Rightarrow> key_rotation_alert option" where
  "detect_key_rotation c incoming now =
     (if sc_ed25519_pub_hex c \<noteq> [] \<and> incoming \<noteq> [] \<and> sc_ed25519_pub_hex c \<noteq> incoming
      then Some \<lparr>kr_contact_user_id = sc_user_id c, kr_contact_name = sc_name c, kr_old_key = sc_ed25519_pub_hex c,
                 kr_new_key = incoming, kr_detected_at = now\<rparr>
      else None)"

section \<open>The message store\<close>

record chat_message =
  sm_id :: string
  sm_sender :: string
  sm_recipient :: string
  sm_text :: string
  sm_image :: "string option"
  sm_voice :: "voice_note option"
  sm_reply_to :: "string option"
  sm_reply_snippet :: "string option"
  sm_is_edited :: bool
  sm_edit_timestamp :: "u64 option"
  sm_reactions :: "(string \<times> string list) list"
  sm_group_id :: "string option"
  sm_is_pinned :: bool
  sm_expires_at :: "u64 option"
  sm_timestamp :: u64
  sm_incoming :: bool
  sm_delivered :: bool

record messenger_db =
  db_user_seed :: bytes
  db_mnemonic :: string
  db_display_name :: string
  db_bio :: string
  db_contacts :: "(string \<times> saved_contact) list"
  db_messages :: "chat_message list"
  db_groups :: "(string \<times> p2p_group) list"
  db_pinned :: "string list"
  db_deleted :: "string list"
  db_blocked :: "string list"
  db_tombstones :: "(string \<times> string) list"

definition db_default :: messenger_db where
  "db_default = \<lparr>db_user_seed = replicate 32 0, db_mnemonic = [], db_display_name = [], db_bio = [], db_contacts = [],
     db_messages = [], db_groups = [], db_pinned = [], db_deleted = [], db_blocked = [], db_tombstones = []\<rparr>"

text \<open>\<open>iter_mut().find(p)\<close> followed by a change of what was found.\<close>

fun update_first :: "('a \<Rightarrow> bool) \<Rightarrow> ('a \<Rightarrow> 'a) \<Rightarrow> 'a list \<Rightarrow> 'a list" where
  "update_first p f [] = []"
| "update_first p f (x # xs) = (if p x then f x # xs else x # update_first p f xs)"

definition find_message :: "string \<Rightarrow> messenger_db \<Rightarrow> chat_message option" where
  "find_message i db = List.find (\<lambda>m. sm_id m = i) (db_messages db)"

definition register_pending_tombstones :: "string \<Rightarrow> string list \<Rightarrow> messenger_db \<Rightarrow> messenger_db" where
  "register_pending_tombstones author ids db =
     db\<lparr>db_tombstones := fold (\<lambda>i. List.insert (author, i)) ids (db_tombstones db)\<rparr>"

definition is_tombstoned :: "string \<Rightarrow> string \<Rightarrow> messenger_db \<Rightarrow> bool" where
  "is_tombstoned author i db \<longleftrightarrow> i \<in> set (db_deleted db) \<or> (author, i) \<in> set (db_tombstones db)"

definition db_is_blocked :: "string \<Rightarrow> messenger_db \<Rightarrow> bool" where
  "db_is_blocked u db \<longleftrightarrow> u \<in> set (db_blocked db)"

definition block_user :: "string \<Rightarrow> messenger_db \<Rightarrow> messenger_db" where
  "block_user u db = db\<lparr>db_blocked := List.insert u (db_blocked db)\<rparr>"

definition unblock_user :: "string \<Rightarrow> messenger_db \<Rightarrow> messenger_db" where
  "unblock_user u db = db\<lparr>db_blocked := removeAll u (db_blocked db)\<rparr>"

definition db_add_contact :: "saved_contact \<Rightarrow> messenger_db \<Rightarrow> messenger_db" where
  "db_add_contact c db = db\<lparr>db_contacts := map_put (sc_user_id c) c (db_contacts db)\<rparr>"

definition add_message :: "chat_message \<Rightarrow> messenger_db \<Rightarrow> messenger_db" where
  "add_message m db =
     (if sm_id m \<in> set (db_deleted db) then db
      else (case find_index (\<lambda>m'. sm_id m' = sm_id m) (db_messages db) of
          Some pos \<Rightarrow> db\<lparr>db_messages := (db_messages db)[pos := m]\<rparr>
        | None \<Rightarrow> db\<lparr>db_messages := db_messages db @ [m]\<rparr>))"

definition mark_message_delivered :: "string \<Rightarrow> messenger_db \<Rightarrow> messenger_db" where
  "mark_message_delivered i db =
     db\<lparr>db_messages := update_first (\<lambda>m. sm_id m = i) (\<lambda>m. m\<lparr>sm_delivered := True\<rparr>) (db_messages db)\<rparr>"

definition of_contact :: "string \<Rightarrow> chat_message \<Rightarrow> bool" where
  "of_contact c m \<longleftrightarrow> sm_group_id m = None \<and> (sm_sender m = c \<or> sm_recipient m = c)"

definition get_messages_for_contact :: "string \<Rightarrow> messenger_db \<Rightarrow> chat_message list" where
  "get_messages_for_contact c db = filter (of_contact c) (db_messages db)"

definition get_messages_paginated :: "string \<Rightarrow> nat \<Rightarrow> u64 option \<Rightarrow> messenger_db \<Rightarrow> chat_message list" where
  "get_messages_paginated c limit before db =
     (let matching = filter (\<lambda>m. of_contact c m \<and> (case before of None \<Rightarrow> True | Some ts \<Rightarrow> sm_timestamp m < ts)) (db_messages db) in
      if length matching > limit then drop (length matching - limit) matching else matching)"

definition get_last_message_for_contact :: "string \<Rightarrow> messenger_db \<Rightarrow> chat_message option" where
  "get_last_message_for_contact c db = List.find (of_contact c) (rev (db_messages db))"

definition edit_text :: "string \<Rightarrow> u64 \<Rightarrow> chat_message \<Rightarrow> chat_message" where
  "edit_text t ts m = m\<lparr>sm_text := t, sm_is_edited := True, sm_edit_timestamp := Some ts\<rparr>"

definition db_edit_message :: "string \<Rightarrow> string \<Rightarrow> u64 \<Rightarrow> messenger_db \<Rightarrow> bool \<times> messenger_db" where
  "db_edit_message i t ts db = (case find_message i db of
      Some m \<Rightarrow> (True, db\<lparr>db_messages := update_first (\<lambda>m. sm_id m = i) (edit_text t ts) (db_messages db)\<rparr>)
    | None \<Rightarrow> (False, db))"

definition edit_message_by_author :: "string \<Rightarrow> string \<Rightarrow> u64 \<Rightarrow> string \<Rightarrow> messenger_db \<Rightarrow> bool \<times> messenger_db" where
  "edit_message_by_author i t ts author db = (case find_message i db of
      Some m \<Rightarrow> if sm_sender m \<noteq> author then (False, db)
        else (True, db\<lparr>db_messages := update_first (\<lambda>m. sm_id m = i) (edit_text t ts) (db_messages db)\<rparr>)
    | None \<Rightarrow> (False, db))"

definition react :: "string \<Rightarrow> string \<Rightarrow> (string \<times> string list) list \<Rightarrow> (string \<times> string list) list" where
  "react emoji reactor rs =
     (let rs = map (\<lambda>e. (fst e, filter (\<lambda>r. r \<noteq> reactor) (snd e))) rs;
          rs = filter (\<lambda>e. snd e \<noteq> []) rs in
      map_put emoji ((case map_of rs emoji of Some l \<Rightarrow> l | None \<Rightarrow> []) @ [reactor]) rs)"

definition add_reaction :: "string \<Rightarrow> string \<Rightarrow> string \<Rightarrow> messenger_db \<Rightarrow> bool \<times> messenger_db" where
  "add_reaction i emoji reactor db = (case find_message i db of
      Some m \<Rightarrow> (True, db\<lparr>db_messages := update_first (\<lambda>m. sm_id m = i)
          (\<lambda>m. m\<lparr>sm_reactions := react emoji reactor (sm_reactions m)\<rparr>) (db_messages db)\<rparr>)
    | None \<Rightarrow> (False, db))"

definition toggle_pin_message :: "string \<Rightarrow> messenger_db \<Rightarrow> bool \<times> messenger_db" where
  "toggle_pin_message i db = (case find_message i db of
      Some m \<Rightarrow> (let pin = \<not> sm_is_pinned m in (pin,
          db\<lparr>db_messages := update_first (\<lambda>m. sm_id m = i) (\<lambda>m. m\<lparr>sm_is_pinned := pin\<rparr>) (db_messages db),
             db_pinned := (if pin then List.insert i (db_pinned db) else removeAll i (db_pinned db))\<rparr>))
    | None \<Rightarrow> (False, db))"

definition cleanup_expired_messages :: "u64 \<Rightarrow> messenger_db \<Rightarrow> nat \<times> messenger_db" where
  "cleanup_expired_messages now db =
     (let kept = filter (\<lambda>m. case sm_expires_at m of Some e \<Rightarrow> e > now | None \<Rightarrow> True) (db_messages db) in
      (length (db_messages db) - length kept, db\<lparr>db_messages := kept\<rparr>))"

definition db_add_group :: "p2p_group \<Rightarrow> messenger_db \<Rightarrow> messenger_db" where
  "db_add_group g db = db\<lparr>db_groups := map_put (pg_id g) g (db_groups db)\<rparr>"

definition get_group :: "string \<Rightarrow> messenger_db \<Rightarrow> p2p_group option" where
  "get_group i db = map_of (db_groups db) i"

definition mark_deleted :: "string \<Rightarrow> messenger_db \<Rightarrow> messenger_db" where
  "mark_deleted i db = db\<lparr>db_deleted := List.insert i (db_deleted db), db_pinned := removeAll i (db_pinned db)\<rparr>"

definition db_delete_message :: "string \<Rightarrow> messenger_db \<Rightarrow> messenger_db" where
  "db_delete_message i db = (mark_deleted i db)\<lparr>db_messages := filter (\<lambda>m. sm_id m \<noteq> i) (db_messages db)\<rparr>"

definition db_delete_messages :: "string list \<Rightarrow> messenger_db \<Rightarrow> messenger_db" where
  "db_delete_messages ids db = (fold mark_deleted ids db)\<lparr>db_messages := filter (\<lambda>m. sm_id m \<notin> set ids) (db_messages db)\<rparr>"

fun delete_messages_by_author :: "string list \<Rightarrow> string \<Rightarrow> messenger_db \<Rightarrow> string list \<times> messenger_db" where
  "delete_messages_by_author [] author db = ([], db)"
| "delete_messages_by_author (i # ids) author db =
     (case find_index (\<lambda>m. sm_id m = i) (db_messages db) of
        Some pos \<Rightarrow>
          if sm_sender (db_messages db ! pos) = author then
            (let (deleted, db') = delete_messages_by_author ids author
               ((mark_deleted i db)\<lparr>db_messages := remove_at pos (db_messages db)\<rparr>) in (i # deleted, db'))
          else delete_messages_by_author ids author db
      | None \<Rightarrow> delete_messages_by_author ids author db)"

definition clear_messages_for_contact :: "string \<Rightarrow> messenger_db \<Rightarrow> messenger_db" where
  "clear_messages_for_contact c db =
     (fold mark_deleted (map sm_id (filter (of_contact c) (db_messages db))) db)
       \<lparr>db_messages := filter (\<lambda>m. \<not> of_contact c m) (db_messages db)\<rparr>"

definition db_delete_contact :: "string \<Rightarrow> messenger_db \<Rightarrow> messenger_db" where
  "db_delete_contact c db = clear_messages_for_contact c (db\<lparr>db_contacts := map_del c (db_contacts db)\<rparr>)"

section \<open>Updating the first match\<close>

lemma map_update_first: "(\<And>x. g (f x) = g x) \<Longrightarrow> map g (update_first p f xs) = map g xs"
  by (induction xs) auto

lemma length_update_first [simp]: "length (update_first p f xs) = length xs"
  by (induction xs) auto

lemma update_first_distinct:
  "distinct (map g xs) \<Longrightarrow> update_first (\<lambda>x. g x = i) f xs = map (\<lambda>x. if g x = i then f x else x) xs"
proof (induction xs)
  case (Cons x xs)
  show ?case
  proof (cases "g x = i")
    case True
    then have "i \<notin> g ` set xs" using Cons.prems by auto
    then have "\<forall>y \<in> set xs. g y \<noteq> i" by blast
    then show ?thesis using True by (simp add: map_idI)
  qed (use Cons in simp)
qed simp

lemma remove_at_key:
  assumes "distinct (map g xs)" "i < length xs"
  shows "remove_at i xs = filter (\<lambda>x. g x \<noteq> g (xs ! i)) xs"
proof -
  have s: "xs = take i xs @ xs ! i # drop (Suc i) xs" using assms(2) by (rule id_take_nth_drop)
  have "g (xs ! i) \<notin> g ` set (take i xs)" "g (xs ! i) \<notin> g ` set (drop (Suc i) xs)"
    using assms(1) arg_cong [OF s, of "\<lambda>l. distinct (map g l)"] by auto
  then have "\<forall>x \<in> set (take i xs). g x \<noteq> g (xs ! i)" "\<forall>x \<in> set (drop (Suc i) xs). g x \<noteq> g (xs ! i)"
    by (metis imageI, metis imageI)
  then have "filter (\<lambda>x. g x \<noteq> g (xs ! i)) (take i xs) = take i xs"
    "filter (\<lambda>x. g x \<noteq> g (xs ! i)) (drop (Suc i) xs) = drop (Suc i) xs"
    by (simp_all add: filter_id_conv)
  then show ?thesis by (subst (2) s) (simp add: remove_at_def)
qed

lemma find_add:
  assumes "distinct (map sm_id xs)"
  shows "find_index (\<lambda>x. sm_id x = sm_id m) xs = None \<Longrightarrow> List.find (\<lambda>x. sm_id x = sm_id m) (xs @ [m]) = Some m"
    "find_index (\<lambda>x. sm_id x = sm_id m) xs = Some p \<Longrightarrow> List.find (\<lambda>x. sm_id x = sm_id m) (xs[p := m]) = Some m"
    "i \<noteq> sm_id m \<Longrightarrow> List.find (\<lambda>x. sm_id x = i) (xs @ [m]) = List.find (\<lambda>x. sm_id x = i) xs"
    "i \<noteq> sm_id m \<Longrightarrow> find_index (\<lambda>x. sm_id x = sm_id m) xs = Some p \<Longrightarrow>
      List.find (\<lambda>x. sm_id x = i) (xs[p := m]) = List.find (\<lambda>x. sm_id x = i) xs"
  by (induction xs arbitrary: p) (auto split: if_splits)

lemma fold_mark_messages: "fold mark_deleted ids (db\<lparr>db_messages := ms\<rparr>) = (fold mark_deleted ids db)\<lparr>db_messages := ms\<rparr>"
proof (induction ids arbitrary: db)
  case (Cons i ids)
  have "mark_deleted i (db\<lparr>db_messages := ms\<rparr>) = (mark_deleted i db)\<lparr>db_messages := ms\<rparr>"
    by (cases db) (simp add: mark_deleted_def)
  then show ?case using Cons.IH by simp
qed simp

lemma find_message_None: "find_message i db = None \<longleftrightarrow> i \<notin> sm_id ` set (db_messages db)"
  by (auto simp: find_message_def find_None_iff)

lemma find_message_Some: "find_message i db = Some m \<Longrightarrow> m \<in> set (db_messages db) \<and> sm_id m = i"
  by (auto simp: find_message_def find_Some_iff)

lemma find_message_unique:
  assumes "distinct (map sm_id (db_messages db))"
  shows "find_message i db = Some m \<longleftrightarrow> m \<in> set (db_messages db) \<and> sm_id m = i"
proof
  assume m: "m \<in> set (db_messages db) \<and> sm_id m = i"
  then obtain m' where m': "find_message i db = Some m'" using find_message_None [of i db] by (cases "find_message i db") auto
  then have "m' = m" using find_message_Some [OF m'] m assms by (auto simp: distinct_map inj_on_def)
  then show "find_message i db = Some m" using m' by simp
qed (simp add: find_message_Some)

section \<open>Reactions\<close>

definition reacted :: "(string \<times> string list) list \<Rightarrow> string \<Rightarrow> string \<Rightarrow> bool" where
  "reacted rs e r \<longleftrightarrow> (\<exists>l. map_of rs e = Some l \<and> r \<in> set l)"

definition reactions_ok :: "(string \<times> string list) list \<Rightarrow> bool" where
  "reactions_ok rs \<longleftrightarrow> keys_distinct rs \<and> (\<forall>e \<in> set rs. snd e \<noteq> [] \<and> distinct (snd e)) \<and>
     (\<forall>r e e'. reacted rs e r \<and> reacted rs e' r \<longrightarrow> e = e')"

definition unreact :: "string \<Rightarrow> (string \<times> string list) list \<Rightarrow> (string \<times> string list) list" where
  "unreact reactor rs = filter (\<lambda>e. snd e \<noteq> []) (map (\<lambda>e. (fst e, filter (\<lambda>r. r \<noteq> reactor) (snd e))) rs)"

lemma react_unreact: "react e r rs = map_put e ((case map_of (unreact r rs) e of Some l \<Rightarrow> l | None \<Rightarrow> []) @ [r]) (unreact r rs)"
  by (simp add: react_def unreact_def Let_def)

lemma unreact_keys: "keys_distinct rs \<Longrightarrow> keys_distinct (unreact r rs)"
  by (simp add: unreact_def keys_distinct_def comp_def distinct_map_filter)

lemma map_of_unreact:
  assumes "keys_distinct rs"
  shows "map_of (unreact r rs) e = (case map_of rs e of None \<Rightarrow> None
    | Some l \<Rightarrow> if filter (\<lambda>x. x \<noteq> r) l = [] then None else Some (filter (\<lambda>x. x \<noteq> r) l))"
  using assms
proof (induction rs)
  case (Cons x rs)
  have k: "keys_distinct rs" "map_of rs (fst x) = None"
    using Cons.prems by (auto simp: keys_distinct_def map_of_eq_None_iff)
  have u: "unreact r (x # rs) = (if filter (\<lambda>y. y \<noteq> r) (snd x) = [] then unreact r rs
      else (fst x, filter (\<lambda>y. y \<noteq> r) (snd x)) # unreact r rs)"
    by (simp add: unreact_def)
  show ?case using Cons.IH [OF k(1)] k(2) unfolding u by (cases x) (auto split: option.split)
qed (simp add: unreact_def)

lemma reacted_unreact: "keys_distinct rs \<Longrightarrow> reacted (unreact r rs) e x \<longleftrightarrow> x \<noteq> r \<and> reacted rs e x"
  by (auto simp: reacted_def map_of_unreact filter_empty_conv split: option.split)

text \<open>A user has exactly the last reaction; the others keep theirs.\<close>

lemma reacted_react:
  assumes "keys_distinct rs"
  shows "reacted (react e r rs) e' x \<longleftrightarrow> (if x = r then e' = e else reacted rs e' x)"
proof -
  have "reacted (react e r rs) e' x \<longleftrightarrow> (x = r \<and> e' = e) \<or> reacted (unreact r rs) e' x"
    by (auto simp: reacted_def react_unreact split: option.splits)
  then show ?thesis using reacted_unreact [OF assms] by auto
qed

lemma react_ok:
  assumes "reactions_ok rs" shows "reactions_ok (react e r rs)"
proof -
  have k: "keys_distinct rs" "\<forall>x \<in> set rs. snd x \<noteq> [] \<and> distinct (snd x)" using assms by (auto simp: reactions_ok_def)
  have u: "\<forall>x \<in> set (unreact r rs). snd x \<noteq> [] \<and> distinct (snd x) \<and> r \<notin> set (snd x)"
    using k(2) by (auto simp: unreact_def)
  have l: "distinct ((case map_of (unreact r rs) e of Some l \<Rightarrow> l | None \<Rightarrow> []) @ [r])"
    using u map_of_SomeD [of "unreact r rs" e] by (fastforce split: option.split)
  have "\<forall>x \<in> set (react e r rs). snd x \<noteq> [] \<and> distinct (snd x)"
    unfolding react_unreact using u l set_map_put_subset [of e _ "unreact r rs"] by (fastforce dest: subsetD)
  moreover have "keys_distinct (react e r rs)" by (simp add: react_unreact unreact_keys k(1))
  moreover have "reacted (react e r rs) a x \<and> reacted (react e r rs) b x \<longrightarrow> a = b" for a b x
    using assms reacted_react [OF k(1), of e r _ x] by (auto simp: reactions_ok_def)
  ultimately show ?thesis by (auto simp: reactions_ok_def)
qed

section \<open>The invariant of the store\<close>

definition db_ids :: "messenger_db \<Rightarrow> string set" where
  "db_ids db = sm_id ` set (db_messages db)"

definition db_inv :: "messenger_db \<Rightarrow> bool" where
  "db_inv db \<longleftrightarrow> distinct (map sm_id (db_messages db)) \<and> db_ids db \<inter> set (db_deleted db) = {} \<and>
     set (db_pinned db) \<inter> set (db_deleted db) = {} \<and> (\<forall>m \<in> set (db_messages db). reactions_ok (sm_reactions m)) \<and>
     keys_distinct (db_contacts db) \<and> (\<forall>(k, c) \<in> set (db_contacts db). sc_user_id c = k) \<and>
     keys_distinct (db_groups db) \<and> (\<forall>(k, g) \<in> set (db_groups db). pg_id g = k)"

lemma db_inv_default: "db_inv db_default"
  by (simp add: db_inv_def db_default_def db_ids_def)

text \<open>A change of messages that keeps identifiers and well-formed reactions.\<close>

lemma db_inv_update:
  assumes "db_inv db" "\<And>m. sm_id (f m) = sm_id m" "\<And>m. reactions_ok (sm_reactions m) \<Longrightarrow> reactions_ok (sm_reactions (f m))"
  shows "db_inv (db\<lparr>db_messages := update_first p f (db_messages db)\<rparr>)"
proof -
  have i: "map sm_id (update_first p f xs) = map sm_id xs" for xs by (rule map_update_first) (rule assms(2))
  have s: "sm_id ` set (update_first p f xs) = sm_id ` set xs" for xs using arg_cong [OF i, of set xs] by simp
  have r: "\<forall>m \<in> set xs. reactions_ok (sm_reactions m) \<Longrightarrow> \<forall>m \<in> set (update_first p f xs). reactions_ok (sm_reactions m)" for xs
    by (induction xs) (auto simp: assms(3))
  have "\<forall>m \<in> set (update_first p f (db_messages db)). reactions_ok (sm_reactions m)"
    using assms(1) by (intro r) (simp add: db_inv_def)
  then show ?thesis using assms(1) i s by (simp add: db_inv_def db_ids_def)
qed

lemma add_message_inv:
  assumes "db_inv db" "reactions_ok (sm_reactions m)" shows "db_inv (add_message m db)"
proof (cases "sm_id m \<in> set (db_deleted db)")
  case False
  show ?thesis
  proof (cases "find_index (\<lambda>m'. sm_id m' = sm_id m) (db_messages db)")
    case None
    then have a: "add_message m db = db\<lparr>db_messages := db_messages db @ [m]\<rparr>" "sm_id m \<notin> sm_id ` set (db_messages db)"
      using False None by (simp add: add_message_def, use None in \<open>auto simp: find_index_None\<close>)
    then show ?thesis using assms False by (auto simp: db_inv_def db_ids_def)
  next
    case (Some pos)
    note f = find_index_Some [OF Some]
    have i: "map sm_id ((db_messages db)[pos := m]) = map sm_id (db_messages db)"
      using f by (simp add: map_update list_update_same_conv)
    then have s: "sm_id ` set ((db_messages db)[pos := m]) = sm_id ` set (db_messages db)" by (metis set_map)
    have "\<forall>x \<in> set ((db_messages db)[pos := m]). reactions_ok (sm_reactions x)"
      using assms set_update_subset_insert [of "db_messages db" pos m] by (auto simp: db_inv_def)
    then show ?thesis using assms(1) False Some i s by (simp add: add_message_def db_inv_def db_ids_def)
  qed
qed (use assms in \<open>simp add: add_message_def\<close>)

lemma set_fold_insert: "set (fold List.insert xs ys) = set xs \<union> set ys"
  by (induction xs arbitrary: ys) auto

lemma fold_mark_deleted:
  "db_deleted (fold mark_deleted ids db) = fold List.insert ids (db_deleted db)"
  "set (db_deleted (fold mark_deleted ids db)) = set ids \<union> set (db_deleted db)"
  "set (db_pinned (fold mark_deleted ids db)) = set (db_pinned db) - set ids"
  "db_messages (fold mark_deleted ids db) = db_messages db"
  "db_contacts (fold mark_deleted ids db) = db_contacts db"
  "db_groups (fold mark_deleted ids db) = db_groups db"
  "db_blocked (fold mark_deleted ids db) = db_blocked db"
  "db_tombstones (fold mark_deleted ids db) = db_tombstones db"
proof -
  show d: "db_deleted (fold mark_deleted ids db) = fold List.insert ids (db_deleted db)"
    by (induction ids arbitrary: db) (simp_all add: mark_deleted_def)
  then show "set (db_deleted (fold mark_deleted ids db)) = set ids \<union> set (db_deleted db)" by (simp add: set_fold_insert)
  show "set (db_pinned (fold mark_deleted ids db)) = set (db_pinned db) - set ids"
    by (induction ids arbitrary: db) (auto simp: mark_deleted_def)
  show "db_messages (fold mark_deleted ids db) = db_messages db"
    "db_contacts (fold mark_deleted ids db) = db_contacts db"
    "db_groups (fold mark_deleted ids db) = db_groups db"
    "db_blocked (fold mark_deleted ids db) = db_blocked db"
    "db_tombstones (fold mark_deleted ids db) = db_tombstones db"
    by (induction ids arbitrary: db; simp add: mark_deleted_def)+
qed

lemma db_inv_delete:
  assumes "db_inv db" "\<forall>m \<in> set (db_messages db). sm_id m \<in> set ids \<longrightarrow> \<not> keep m"
  shows "db_inv ((fold mark_deleted ids db)\<lparr>db_messages := filter keep (db_messages db)\<rparr>)"
  using assms by (auto simp: db_inv_def db_ids_def fold_mark_deleted set_fold_insert distinct_map_filter)

lemma delete_contact_map_inv: "db_inv db \<Longrightarrow> db_inv (db\<lparr>db_contacts := map_del c (db_contacts db)\<rparr>)"
  by (auto simp: db_inv_def db_ids_def map_del_def)

lemma db_delete_message_fold: "db_delete_message i db = db_delete_messages [i] db"
  by (simp add: db_delete_message_def db_delete_messages_def)

lemma clear_messages_inv: "db_inv db \<Longrightarrow> db_inv (clear_messages_for_contact c db)"
  unfolding clear_messages_for_contact_def
  by (rule db_inv_delete) (auto simp: db_inv_def distinct_map inj_on_def)

text \<open>Deletion by author removes exactly the messages of the author among those named.\<close>

lemma delete_by_author_facts:
  assumes "distinct (map sm_id (db_messages db))" "delete_messages_by_author ids author db = (del, db')"
  shows "db_messages db' = filter (\<lambda>m. sm_id m \<notin> set del) (db_messages db) \<and>
    set del = {i \<in> set ids. \<exists>m \<in> set (db_messages db). sm_id m = i \<and> sm_sender m = author} \<and>
    db' = (fold mark_deleted del db)\<lparr>db_messages := db_messages db'\<rparr>"
  using assms
proof (induction ids arbitrary: db del db')
  case (Cons i ids)
  show ?case
  proof (cases "find_index (\<lambda>m. sm_id m = i) (db_messages db)")
    case None
    then have n: "\<forall>m \<in> set (db_messages db). sm_id m \<noteq> i" by (simp add: find_index_None)
    have "delete_messages_by_author ids author db = (del, db')" using Cons.prems(2) None by simp
    from Cons.IH [OF Cons.prems(1) this] show ?thesis using n by auto
  next
    case (Some pos)
    note f = find_index_Some [OF Some]
    let ?m = "db_messages db ! pos"
    have one: "\<forall>m \<in> set (db_messages db). sm_id m = i \<longrightarrow> m = ?m"
      using f Cons.prems(1) by (auto simp: distinct_map inj_on_def)
    show ?thesis
    proof (cases "sm_sender ?m = author")
      case False
      then have "delete_messages_by_author ids author db = (del, db')" using Cons.prems(2) Some by simp
      from Cons.IH [OF Cons.prems(1) this] show ?thesis using one False by auto
    next
      case True
      let ?d = "(mark_deleted i db)\<lparr>db_messages := remove_at pos (db_messages db)\<rparr>"
      obtain d' where d': "delete_messages_by_author ids author ?d = (d', db')" "del = i # d'"
        using Cons.prems(2) Some True by (auto split: prod.splits)
      have rem: "remove_at pos (db_messages db) = filter (\<lambda>m. sm_id m \<noteq> i) (db_messages db)"
        using remove_at_key [OF Cons.prems(1), of pos] f by simp
      have "distinct (map sm_id (db_messages ?d))"
        unfolding rem using Cons.prems(1) by (simp add: distinct_map_filter rem)
      note IH = Cons.IH [OF this d'(1)]
      have "db_messages db' = filter (\<lambda>m. sm_id m \<notin> set del) (db_messages db)"
        using IH d'(2) by (simp add: rem conj_commute)
      moreover have "set del = {i' \<in> set (i # ids). \<exists>m \<in> set (db_messages db). sm_id m = i' \<and> sm_sender m = author}"
        using IH d'(2) f True one by (auto simp: rem)
      moreover have "db' = (fold mark_deleted del db)\<lparr>db_messages := db_messages db'\<rparr>"
      proof -
        have "db' = (fold mark_deleted d' ?d)\<lparr>db_messages := db_messages db'\<rparr>" using IH by blast
        also have "\<dots> = (fold mark_deleted del db)\<lparr>db_messages := db_messages db'\<rparr>"
          unfolding d'(2) fold_mark_messages by simp
        finally show ?thesis .
      qed
      ultimately show ?thesis by blast
    qed
  qed
qed simp

lemma delete_by_author_inv:
  assumes "db_inv db" shows "db_inv (snd (delete_messages_by_author ids author db))"
proof -
  obtain del db' where d: "delete_messages_by_author ids author db = (del, db')" by force
  have "distinct (map sm_id (db_messages db))" using assms by (simp add: db_inv_def)
  note f = delete_by_author_facts [OF this d]
  have "db_inv ((fold mark_deleted del db)\<lparr>db_messages := filter (\<lambda>m. sm_id m \<notin> set del) (db_messages db)\<rparr>)"
    by (rule db_inv_delete [OF assms]) simp
  then show ?thesis using f d by (metis snd_conv)
qed

text \<open>What \<open>wipe_local_data\<close> makes of the database. It forgets the identifiers of deleted messages with everything else.\<close>

definition wiped_db :: "messenger_db \<Rightarrow> messenger_db" where
  "wiped_db db = db\<lparr>db_contacts := [], db_messages := [], db_deleted := [], db_blocked := [], db_mnemonic := [],
     db_user_seed := replicate 32 0, db_display_name := [], db_bio := []\<rparr>"

lemma wiped_db_inv: "db_inv db \<Longrightarrow> db_inv (wiped_db db)"
  by (auto simp: db_inv_def wiped_db_def db_ids_def keys_distinct_def)

text \<open>The operations together. A message that is stored has its reactions well formed; new messages have none.\<close>

datatype db_op = DbAddMessage chat_message | DbDelivered string | DbEdit string string u64 | DbEditBy string string u64 string
  | DbReact string string string | DbTogglePin string | DbCleanup u64 | DbAddGroup p2p_group | DbDelete string
  | DbDeleteMany "string list" | DbDeleteBy "string list" string | DbClear string | DbAddContact saved_contact
  | DbDeleteContact string | DbBlock string | DbUnblock string | DbTombstones string "string list" | DbWipe

fun db_step :: "db_op \<Rightarrow> messenger_db \<Rightarrow> messenger_db" where
  "db_step (DbAddMessage m) db = add_message m db"
| "db_step (DbDelivered i) db = mark_message_delivered i db"
| "db_step (DbEdit i t ts) db = snd (db_edit_message i t ts db)"
| "db_step (DbEditBy i t ts a) db = snd (edit_message_by_author i t ts a db)"
| "db_step (DbReact i e r) db = snd (add_reaction i e r db)"
| "db_step (DbTogglePin i) db = snd (toggle_pin_message i db)"
| "db_step (DbCleanup now) db = snd (cleanup_expired_messages now db)"
| "db_step (DbAddGroup g) db = db_add_group g db"
| "db_step (DbDelete i) db = db_delete_message i db"
| "db_step (DbDeleteMany is) db = db_delete_messages is db"
| "db_step (DbDeleteBy is a) db = snd (delete_messages_by_author is a db)"
| "db_step (DbClear c) db = clear_messages_for_contact c db"
| "db_step (DbAddContact c) db = db_add_contact c db"
| "db_step (DbDeleteContact c) db = db_delete_contact c db"
| "db_step (DbBlock u) db = block_user u db"
| "db_step (DbUnblock u) db = unblock_user u db"
| "db_step (DbTombstones a is) db = register_pending_tombstones a is db"
| "db_step DbWipe db = wiped_db db"

fun db_op_ok :: "db_op \<Rightarrow> bool" where
  "db_op_ok (DbAddMessage m) = reactions_ok (sm_reactions m)"
| "db_op_ok _ = True"

lemma toggle_pin_inv: "db_inv db \<Longrightarrow> db_inv (snd (toggle_pin_message i db))"
proof (cases "find_message i db")
  case (Some m)
  assume inv: "db_inv db"
  let ?f = "\<lambda>x. x\<lparr>sm_is_pinned := \<not> sm_is_pinned m\<rparr>"
  have "db_inv (db\<lparr>db_messages := update_first (\<lambda>m. sm_id m = i) ?f (db_messages db)\<rparr>)"
    by (rule db_inv_update [OF inv]) simp_all
  moreover have "i \<notin> set (db_deleted db)" using inv find_message_Some [OF Some] by (auto simp: db_inv_def db_ids_def)
  ultimately show ?thesis using Some by (auto simp: toggle_pin_message_def db_inv_def db_ids_def Let_def)
qed (simp add: toggle_pin_message_def)

lemma db_update_ops_inv:
  assumes "db_inv db"
  shows "db_inv (mark_message_delivered i db)" "db_inv (snd (db_edit_message i t ts db))"
    "db_inv (snd (edit_message_by_author i t ts a db))" "db_inv (snd (add_reaction i e r db))"
proof -
  show "db_inv (mark_message_delivered i db)"
    unfolding mark_message_delivered_def by (rule db_inv_update [OF assms]) simp_all
  have e: "db_inv (db\<lparr>db_messages := update_first (\<lambda>m. sm_id m = i) (edit_text t ts) (db_messages db)\<rparr>)"
    by (rule db_inv_update [OF assms]) (simp_all add: edit_text_def)
  show "db_inv (snd (db_edit_message i t ts db))" "db_inv (snd (edit_message_by_author i t ts a db))"
    using assms e by (auto simp: db_edit_message_def edit_message_by_author_def split: option.split)
  have "db_inv (db\<lparr>db_messages := update_first (\<lambda>m. sm_id m = i)
      (\<lambda>m. m\<lparr>sm_reactions := react e r (sm_reactions m)\<rparr>) (db_messages db)\<rparr>)"
    by (rule db_inv_update [OF assms]) (simp_all add: react_ok)
  then show "db_inv (snd (add_reaction i e r db))" using assms by (auto simp: add_reaction_def split: option.split)
qed

lemma db_map_ops_inv:
  assumes "db_inv db"
  shows "db_inv (db_add_group g db)" "db_inv (db_add_contact c db)" "db_inv (block_user u db)" "db_inv (unblock_user u db)"
    "db_inv (register_pending_tombstones a ids db)" "db_inv (snd (cleanup_expired_messages now db))"
  using assms set_map_put_subset [of "pg_id g" g "db_groups db"] set_map_put_subset [of "sc_user_id c" c "db_contacts db"]
  by (auto simp: db_inv_def db_ids_def db_add_group_def db_add_contact_def block_user_def unblock_user_def
      register_pending_tombstones_def cleanup_expired_messages_def Let_def distinct_map_filter dest: subsetD)

lemma db_delete_messages_inv: "db_inv db \<Longrightarrow> db_inv (db_delete_messages ids db)"
  unfolding db_delete_messages_def by (rule db_inv_delete) auto

interpretation db_sys: op_system db_step db_op_ok db_inv
proof
  fix a db assume "db_op_ok a" "db_inv db"
  then show "db_inv (db_step a db)"
    by (cases a) (simp_all add: add_message_inv db_update_ops_inv db_map_ops_inv toggle_pin_inv db_delete_message_fold
        db_delete_messages_inv delete_by_author_inv clear_messages_inv db_delete_contact_def delete_contact_map_inv wiped_db_inv)
qed

text \<open>Only the wipe takes an identifier off the deleted ones: short of it a deleted message never comes back.\<close>

lemma delete_by_author_deleted: "set (db_deleted db) \<subseteq> set (db_deleted (snd (delete_messages_by_author ids author db)))"
proof (induction ids author db rule: delete_messages_by_author.induct)
  case (2 i ids author db)
  then show ?case by (cases "find_index (\<lambda>m. sm_id m = i) (db_messages db)")
      (auto simp: mark_deleted_def split: prod.splits dest: subsetD)
qed simp

lemma db_step_deleted: "a \<noteq> DbWipe \<Longrightarrow> set (db_deleted db) \<subseteq> set (db_deleted (db_step a db))"
proof (cases a)
  case (DbDeleteBy ids u)
  then show ?thesis using delete_by_author_deleted by simp
qed (auto simp: add_message_def mark_message_delivered_def db_edit_message_def edit_message_by_author_def add_reaction_def
    toggle_pin_message_def cleanup_expired_messages_def db_add_group_def db_delete_message_fold db_delete_messages_def
    clear_messages_for_contact_def db_add_contact_def db_delete_contact_def block_user_def unblock_user_def
    register_pending_tombstones_def fold_mark_deleted set_fold_insert mark_deleted_def Let_def split: option.split)

lemma db_run_deleted: "DbWipe \<notin> set ops \<Longrightarrow> set (db_deleted db) \<subseteq> set (db_deleted (fold db_step ops db))"
proof (induction ops arbitrary: db)
  case (Cons a ops)
  then show ?case using db_step_deleted [of a db] by fastforce
qed simp

lemma deleted_stays_deleted:
  assumes "db_inv db" "i \<in> set (db_deleted db)" "list_all db_op_ok ops" "DbWipe \<notin> set ops"
  shows "find_message i (fold db_step ops db) = None"
proof -
  have "db_inv (fold db_step ops db)" by (rule db_sys.run_inv [OF assms(3,1)])
  then show ?thesis using db_run_deleted [of ops db] assms(2,4) by (auto simp: find_message_None db_inv_def db_ids_def)
qed

text \<open>After a wipe the identifier is like any other.\<close>

lemma wiped_comes_back:
  "find_message (sm_id m) (fold db_step (ops @ [DbWipe, DbAddMessage m]) db) = Some m"
  by (simp add: wiped_db_def add_message_def find_message_def)

section \<open>What the operations do\<close>

lemma add_message_find:
  assumes "db_inv db" "sm_id m \<notin> set (db_deleted db)"
  shows "find_message (sm_id m) (add_message m db) = Some m"
    "i \<noteq> sm_id m \<Longrightarrow> find_message i (add_message m db) = find_message i db"
proof -
  have d: "distinct (map sm_id (db_messages db))" using assms(1) by (simp add: db_inv_def)
  show "find_message (sm_id m) (add_message m db) = Some m"
    "i \<noteq> sm_id m \<Longrightarrow> find_message i (add_message m db) = find_message i db"
    using assms(2) find_add [OF d, where m = m] by (auto simp: add_message_def find_message_def split: option.split)
qed

lemma edit_by_author_facts:
  assumes "distinct (map sm_id (db_messages db))" "edit_message_by_author i t ts author db = (r, db')"
  shows "db' = db\<lparr>db_messages := map (\<lambda>m. if sm_id m = i \<and> sm_sender m = author then edit_text t ts m else m) (db_messages db)\<rparr> \<and>
    (r \<longleftrightarrow> (\<exists>m \<in> set (db_messages db). sm_id m = i \<and> sm_sender m = author))"
proof (cases "find_message i db")
  case None
  then have "\<forall>m \<in> set (db_messages db). sm_id m \<noteq> i" using find_message_None [of i db] by auto
  then show ?thesis using assms(2) None by (simp add: edit_message_by_author_def map_idI)
next
  case (Some m)
  have u: "\<forall>x \<in> set (db_messages db). sm_id x = i \<longrightarrow> x = m"
    using find_message_Some [OF Some] assms(1) by (auto simp: distinct_map inj_on_def)
  have m: "m \<in> set (db_messages db)" "sm_id m = i" using find_message_Some [OF Some] by auto
  show ?thesis
  proof (cases "sm_sender m = author")
    case True
    have "map (\<lambda>x. if sm_id x = i then edit_text t ts x else x) (db_messages db) =
        map (\<lambda>x. if sm_id x = i \<and> sm_sender x = author then edit_text t ts x else x) (db_messages db)"
      using u True by (intro map_cong) auto
    then show ?thesis using assms(2) Some True m
      by (auto simp: edit_message_by_author_def update_first_distinct [OF assms(1)])
  next
    case False
    have "map (\<lambda>x. if sm_id x = i \<and> sm_sender x = author then edit_text t ts x else x) (db_messages db) = db_messages db"
      using u False by (intro map_idI) auto
    then show ?thesis using assms(2) Some False u by (auto simp: edit_message_by_author_def)
  qed
qed

text \<open>An edit takes effect whatever the time of the last one was: a late older edit replaces a newer one.\<close>

lemma old_edit_wins:
  assumes "find_message i db = Some m" "sm_sender m = author"
  shows "\<exists>m'. find_message i (snd (edit_message_by_author i t ts author db)) = Some m' \<and> sm_text m' = t"
proof -
  have "List.find (\<lambda>m. sm_id m = i) (update_first (\<lambda>m. sm_id m = i) (edit_text t ts) xs) =
      map_option (edit_text t ts) (List.find (\<lambda>m. sm_id m = i) xs)" for xs
    by (induction xs) (simp_all add: edit_text_def)
  then show ?thesis using assms by (simp add: edit_message_by_author_def find_message_def edit_text_def)
qed

lemma paginated_facts:
  "\<exists>rest. filter (\<lambda>m. of_contact c m \<and> (case before of None \<Rightarrow> True | Some ts \<Rightarrow> sm_timestamp m < ts)) (db_messages db) =
     rest @ get_messages_paginated c limit before db \<and>
   length (get_messages_paginated c limit before db) =
     min limit (length (filter (\<lambda>m. of_contact c m \<and> (case before of None \<Rightarrow> True | Some ts \<Rightarrow> sm_timestamp m < ts)) (db_messages db)))"
  (is "\<exists>rest. ?l = rest @ ?p \<and> _")
proof (intro exI conjI)
  show "?l = (if length ?l > limit then take (length ?l - limit) ?l else []) @ ?p"
    by (simp add: get_messages_paginated_def Let_def)
  show "length ?p = min limit (length ?l)" by (simp add: get_messages_paginated_def Let_def)
qed

lemma clear_messages_gone: "get_messages_for_contact c (clear_messages_for_contact c db) = []"
  by (simp add: get_messages_for_contact_def clear_messages_for_contact_def filter_empty_conv)

lemma waveform_facts:
  "generate_waveform audio WAVEFORM_SAMPLES_COUNT = Done w \<Longrightarrow> length w = WAVEFORM_SAMPLES_COUNT \<and> (\<forall>b \<in> set w. 10 \<le> b \<and> b \<le> 100)"
proof -
  have b: "10 \<le> waveform_bar c \<and> waveform_bar c \<le> 100" for c
  proof -
    define n where "n = min 100 (max 10 (sum_list (map (\<lambda>b. nat \<bar>int (unat b) - 128\<bar>) c) div length c * 100 div 128))"
    have "10 \<le> n" "n \<le> 100" by (auto simp: n_def)
    then show ?thesis
      by (simp add: waveform_bar_def Let_def word_le_nat_alt unat_of_nat take_bit_nat_eq_self flip: n_def)
  qed
  assume "generate_waveform audio WAVEFORM_SAMPLES_COUNT = Done w"
  then show ?thesis using b by (auto simp: generate_waveform_def Let_def split: if_splits dest: in_set_takeD)
qed

lemma voice_note_total: "\<exists>v. voice_note_new b64 d audio mime = Done v \<and> vn_duration_secs v \<le> MAX_VOICE_NOTE_SECS \<and>
    length (vn_waveform v) = WAVEFORM_SAMPLES_COUNT"
proof -
  obtain w where w: "generate_waveform audio WAVEFORM_SAMPLES_COUNT = Done w"
    unfolding generate_waveform_def Let_def by (cases "audio = []") auto
  then show ?thesis using waveform_facts [OF w] by (simp add: voice_note_new_def)
qed

text \<open>A changed key is reported, but no operation that stores a contact asks: the new key replaces the old one.\<close>

lemma contact_key_replaced:
  assumes "map_of (db_contacts db) (sc_user_id c) = Some old" "detect_key_rotation old (sc_ed25519_pub_hex c) now = Some alert"
  shows "map_of (db_contacts (db_add_contact c db)) (sc_user_id c) = Some c \<and> sc_ed25519_pub_hex c \<noteq> sc_ed25519_pub_hex old"
  using assms by (auto simp: db_add_contact_def detect_key_rotation_def split: if_splits)

end
