(* ===== verification/Call_Audio.thy ===== *)
theory Call_Audio
  imports Signed_Cards Message_Db Utf8_Text
begin

text \<open>
  Frames of a voice call (\<open>messenger.rs\<close>: \<open>send_call_audio\<close> and the first task of
  \<open>start_inbox_polling_task\<close>): packing samples, encryption with the header as associated data, the parser of the
  receiver with its checks and its table of sequence numbers. The lemmas show that a frame arrives as it was sent, that the
  parser never panics but for the key text of a contact, that the frames of one stream come with growing numbers, and
  that the table is bounded.
\<close>

section \<open>Samples\<close>

type_synonym i16 = "16 word"

definition le_bytes16 :: "i16 \<Rightarrow> bytes" where
  "le_bytes16 s = [ucast s, ucast (drop_bit 8 s)]"

definition from_le16 :: "u8 \<Rightarrow> u8 \<Rightarrow> i16" where
  "from_le16 a b = or (ucast a) (push_bit 8 (ucast b))"

fun pcm_of :: "bytes \<Rightarrow> i16 list" where
  "pcm_of (a # b # bs) = from_le16 a b # pcm_of bs"
| "pcm_of _ = []"

lemma from_le_bytes16: "from_le16 (ucast s) (ucast (drop_bit 8 s)) = s"
proof (rule bit_eqI)
  fix n assume "possible_bit TYPE(16 word) n"
  then show "bit (from_le16 (ucast s) (ucast (drop_bit 8 s))) n = bit s n"
    by (auto simp: from_le16_def bit_simps)
qed

lemma pcm_of_bytes: "pcm_of (concat (map le_bytes16 ss)) = ss"
  by (induction ss) (simp_all add: le_bytes16_def from_le_bytes16)

lemma length_pcm_bytes: "length (concat (map le_bytes16 ss)) = 2 * length ss"
  by (induction ss) (simp_all add: le_bytes16_def)

section \<open>Frames\<close>

definition AUDIO_INFO :: bytes where "AUDIO_INFO = str_bytes ''NodeX-call-audio-v1''"

definition audio_key :: "crypto \<Rightarrow> bytes \<Rightarrow> bytes \<Rightarrow> bytes \<Rightarrow> bytes" where
  "audio_key C nonce dh_eph dh_static = cr_hkdf C (Some nonce) (dh_eph @ dh_static) AUDIO_INFO"

text \<open>The header of a frame behind its magic bytes is the associated data behind its prefix.\<close>

definition audio_aad :: "bytes \<Rightarrow> bytes \<Rightarrow> u64 \<Rightarrow> u32 \<Rightarrow> bytes" where
  "audio_aad ids call_bytes seq rate =
     AUDIO_INFO @ ids @ [of_nat (length call_bytes)] @ call_bytes @ be_bytes 8 seq @ be_bytes 4 rate"

datatype audio_error = BadAudioFrame | BadRecipientHex hex_error | NoAudioKey | CallIdTooLong | AudioEncrypt | NoAudioPeer | AudioSend

definition audio_frame :: "bytes \<Rightarrow> bytes \<Rightarrow> u64 \<Rightarrow> u32 \<Rightarrow> bytes \<Rightarrow> bytes \<Rightarrow> bytes \<Rightarrow> bytes" where
  "audio_frame ids call_bytes seq rate nonce eph ct =
     str_bytes ''NXCA'' @ ids @ [of_nat (length call_bytes)] @ call_bytes @ be_bytes 8 seq @ be_bytes 4 rate @ nonce @ eph @
     be_bytes 2 (of_nat (length ct) :: u16) @ ct"

definition rate_ok :: "u32 \<Rightarrow> bool" where
  "rate_ok r \<longleftrightarrow> 8000 \<le> r \<and> r \<le> 48000"

text \<open>Key and address of the recipient: the contact first, then the routing table (\<open>try_read\<close> may fail: \<open>rt\<close>).\<close>

definition audio_peer ::
    "(string \<Rightarrow> socket_addr option) \<Rightarrow> routing_table option \<Rightarrow> string \<Rightarrow> node_id \<Rightarrow> messenger_db \<Rightarrow> (bytes option \<times> socket_addr option) exec" where
  "audio_peer parse rt recipient rid db = (case map_of (db_contacts db) recipient of
      None \<Rightarrow> Done (None, map_option ct_addr (Option.bind rt (\<lambda>t. find (\<lambda>c. ct_id c = rid) (all_contacts t))))
    | Some c \<Rightarrow> exec_bind (hex_decode (sc_x25519_pub_hex c)) (\<lambda>k. Done (k, case parse (sc_last_seen_addr c) of
          Some a \<Rightarrow> Some a
        | None \<Rightarrow> map_option ct_addr (Option.bind rt (\<lambda>t. find (\<lambda>c. ct_id c = rid) (all_contacts t))))))"

definition send_call_audio ::
    "crypto \<Rightarrow> (string \<Rightarrow> socket_addr option) \<Rightarrow> routing_table option \<Rightarrow> bytes \<Rightarrow> bytes \<Rightarrow> (bytes \<Rightarrow> socket_addr \<Rightarrow> bool) \<Rightarrow>
     user_identity \<Rightarrow> messenger_db \<Rightarrow> string \<Rightarrow> string \<Rightarrow> i16 list \<Rightarrow> u32 \<Rightarrow> u64 \<Rightarrow> (audio_error + socket_addr \<times> bytes) exec" where
  "send_call_audio C parse rt nonce eph_seed send me db recipient call_id samples rate seq =
     (let pcm = concat (map le_bytes16 samples) in
      if length pcm > 900 \<or> call_id = [] \<or> \<not> rate_ok rate then Done (Err BadAudioFrame)
      else exec_bind (id_from_hex recipient) (\<lambda>r. case r of
          Inl e \<Rightarrow> Done (Err (BadRecipientHex e))
        | Inr rid \<Rightarrow> exec_bind (audio_peer parse rt recipient rid db) (\<lambda>(key, target). case key of
              None \<Rightarrow> Done (Err NoAudioKey)
            | Some x \<Rightarrow>
                if length x \<noteq> 32 then Done (Err NoAudioKey)
                else if length call_id > 128 then Done (Err CallIdTooLong)
                else (let ids = as_bytes (ui_user_id me) @ as_bytes rid; call_bytes = str_bytes call_id;
                          k = audio_key C nonce (cr_x_dh C eph_seed x) (cr_x_dh C (ui_x25519_secret me) x) in
                  case cr_seal C k nonce (audio_aad ids call_bytes seq rate) pcm of
                    None \<Rightarrow> Done (Err AudioEncrypt)
                  | Some ct \<Rightarrow> (case target of
                        None \<Rightarrow> Done (Err NoAudioPeer)
                      | Some a \<Rightarrow>
                          (let frame = audio_frame ids call_bytes seq rate nonce (cr_x_public C eph_seed) ct in
                           if send frame a then Done (Ok (a, frame)) else Done (Err AudioSend)))))))"

section \<open>Receiving\<close>

record audio_event =
  ae_sender :: string
  ae_call_id :: string
  ae_seq :: u64
  ae_rate :: u32
  ae_pcm :: "i16 list"

type_synonym audio_sequences = "(string \<times> u64) list"

definition MAX_AUDIO_STREAMS :: nat where "MAX_AUDIO_STREAMS = 4096"

text \<open>The check of the sequence number, and its recording.\<close>

definition audio_sequence :: "string \<Rightarrow> u64 \<Rightarrow> audio_sequences \<Rightarrow> audio_sequences option" where
  "audio_sequence stream seq q =
     (if (case map_of q stream of None \<Rightarrow> False | Some prev \<Rightarrow> seq \<le> prev) then None
      else if length q \<ge> MAX_AUDIO_STREAMS \<and> map_of q stream = None then None
      else Some (map_put stream seq q))"

record audio_header =
  ah_sender :: string
  ah_recipient :: string
  ah_call_id :: string
  ah_seq :: u64
  ah_rate :: u32
  ah_nonce :: bytes
  ah_eph :: bytes
  ah_ids :: bytes
  ah_id_len :: u8
  ah_ct :: bytes

text \<open>The parser: the fields at their offsets, once the packet is long enough; the tests of the rate and of the length of the
  ciphertext stand where the code has them.\<close>

definition parse_audio :: "string \<Rightarrow> bytes \<Rightarrow> audio_header option" where
  "parse_audio me p =
     (if length p < 120 \<or> take 4 p \<noteq> str_bytes ''NXCA'' then None
      else (let id_len = unat (p ! 44) in
        if id_len = 0 \<or> id_len > 128 \<or> length p < 45 + id_len + 8 + 4 + 12 + 32 + 2 + 16 then None
        else (let cur = 45 + id_len; rate = of_be (take 4 (drop (cur + 8) p)); recipient = to_hex (take 20 (drop 24 p)) in
          if \<not> rate_ok rate \<or> recipient \<noteq> me then None
          else (let ct_len = unat (of_be (take 2 (drop (cur + 56) p)) :: u16) in
            if ct_len < 16 \<or> ct_len > 1100 \<or> length p \<noteq> cur + 58 + ct_len then None
            else Some \<lparr>ah_sender = to_hex (take 20 (drop 4 p)), ah_recipient = recipient, ah_call_id = text_of (take id_len (drop 45 p)),
              ah_seq = of_be (take 8 (drop cur p)), ah_rate = rate, ah_nonce = take 12 (drop (cur + 12) p),
              ah_eph = take 32 (drop (cur + 24) p), ah_ids = take 40 (drop 4 p), ah_id_len = p ! 44, ah_ct = drop (cur + 58) p\<rparr>))))"

text \<open>One turn of the receiving task. \<open>unlocked\<close> tells whether the identity could be read without waiting.\<close>

definition audio_turn ::
    "crypto \<Rightarrow> bool \<Rightarrow> user_identity \<Rightarrow> messenger_db \<Rightarrow> bytes \<Rightarrow> audio_sequences \<Rightarrow> (audio_event option \<times> audio_sequences) exec" where
  "audio_turn C unlocked me db p q = (case parse_audio (user_id_hex me) p of
      None \<Rightarrow> Done (None, q)
    | Some h \<Rightarrow>
        if \<not> unlocked then Done (None, q)
        else (case map_of (db_contacts db) (ah_sender h) of
            None \<Rightarrow> Done (None, q)
          | Some c \<Rightarrow> exec_bind (hex_decode (sc_x25519_pub_hex c)) (\<lambda>x. case x of
                None \<Rightarrow> Done (None, q)
              | Some xb \<Rightarrow>
                  if length xb \<noteq> 32 then Done (None, q)
                  else (let key = audio_key C (ah_nonce h) (cr_x_dh C (ui_x25519_secret me) (ah_eph h)) (cr_x_dh C (ui_x25519_secret me) xb);
                            aad = AUDIO_INFO @ ah_ids h @ [ah_id_len h] @ str_bytes (ah_call_id h) @ be_bytes 8 (ah_seq h) @ be_bytes 4 (ah_rate h) in
                    case cr_open C key (ah_nonce h) aad (ah_ct h) of
                      None \<Rightarrow> Done (None, q)
                    | Some plain \<Rightarrow> (case audio_sequence (ah_sender h @ '':'' @ ah_call_id h) (ah_seq h) q of
                          None \<Rightarrow> Done (None, q)
                        | Some q' \<Rightarrow>
                            if odd (length plain) then Done (None, q')
                            else Done (Some \<lparr>ae_sender = ah_sender h, ae_call_id = ah_call_id h, ae_seq = ah_seq h, ae_rate = ah_rate h,
                              ae_pcm = pcm_of plain\<rparr>, q'))))))"

section \<open>A frame arrives as it was sent\<close>

lemma nth_at: "n = length xs \<Longrightarrow> (xs @ y # ys) ! n = y"
  by simp

lemma parse_audio_frame:
  assumes "length s = 20" "length r = 20" "1 \<le> length cid" "length cid \<le> 128" "length nonce = 12" "length eph = 32"
    "16 \<le> length ct" "length ct \<le> 1100" "rate_ok rate"
  shows "parse_audio (to_hex r) (audio_frame (s @ r) cid seq rate nonce eph ct) =
    Some \<lparr>ah_sender = to_hex s, ah_recipient = to_hex r, ah_call_id = text_of cid, ah_seq = seq, ah_rate = rate, ah_nonce = nonce,
      ah_eph = eph, ah_ids = s @ r, ah_id_len = of_nat (length cid), ah_ct = ct\<rparr>"
proof -
  let ?p = "audio_frame (s @ r) cid seq rate nonce eph ct"
  have l: "length ?p = 103 + length cid + length ct" using assms by (simp add: audio_frame_def)
  have i: "?p ! 44 = of_nat (length cid)"
  proof -
    have "?p = (str_bytes ''NXCA'' @ s @ r) @ of_nat (length cid) # (cid @ be_bytes 8 seq @ be_bytes 4 rate @ nonce @ eph @
        be_bytes 2 (of_nat (length ct) :: u16) @ ct)" by (simp add: audio_frame_def)
    then show ?thesis using nth_at [of 44 "str_bytes ''NXCA'' @ s @ r"] assms(1,2) by simp
  qed
  have n: "unat (of_nat (length cid) :: u8) = length cid" using assms(4) by (simp add: unat_of_nat take_bit_nat_eq_self)
  have c: "unat (of_nat (length ct) :: u16) = length ct" using assms(8) by (simp add: unat_of_nat take_bit_nat_eq_self)
  let ?t = "be_bytes 8 seq @ be_bytes 4 rate @ nonce @ eph @ be_bytes 2 (of_nat (length ct) :: u16) @ ct"
  define pre where "pre = str_bytes ''NXCA'' @ s @ r @ [of_nat (length cid)] @ cid"
  have p: "?p = pre @ ?t" by (simp add: audio_frame_def pre_def)
  have lp: "length pre = 45 + length cid" using assms(1,2) by (simp add: pre_def)
  have d: "drop (45 + length cid + k) ?p = drop k ?t" for k unfolding p lp [symmetric] by simp
  have d0: "drop (45 + length cid) ?p = ?t" unfolding p lp [symmetric] by simp
  have parts: "take 8 (drop (45 + length cid) ?p) = be_bytes 8 seq"
    "take 4 (drop (45 + length cid + 8) ?p) = be_bytes 4 rate" "take 12 (drop (45 + length cid + 12) ?p) = nonce"
    "take 32 (drop (45 + length cid + 24) ?p) = eph" "take 2 (drop (45 + length cid + 56) ?p) = be_bytes 2 (of_nat (length ct) :: u16)"
    "drop (45 + length cid + 58) ?p = ct"
    unfolding d0 d using assms(5,6) by simp_all
  have front: "take 4 ?p = str_bytes ''NXCA''" "take 20 (drop 4 ?p) = s" "take 20 (drop 24 ?p) = r" "take 40 (drop 4 ?p) = s @ r"
    "take (length cid) (drop 45 ?p) = cid"
    using assms(1,2) by (simp_all add: audio_frame_def)
  have t: "length ?p \<ge> 120" "length ?p \<ge> 45 + length cid + 8 + 4 + 12 + 32 + 2 + 16" "length ?p = 45 + length cid + 58 + length ct"
    using l assms(3,7) by simp_all
  have nz: "length cid \<noteq> 0" "\<not> length cid > 128" "\<not> length ct < 16" "\<not> length ct > 1100" using assms by auto
  show ?thesis
    using t nz assms(9) unfolding parse_audio_def Let_def i n front parts of_be_be_bytes_u16 of_be_be_bytes_u32 of_be_be_bytes_u64 c
    by (simp only: not_less [symmetric] if_False if_True simp_thms not_False_eq_True)
qed

lemma identity_wf: "crypto_ok C \<Longrightarrow> identity_ok C i \<Longrightarrow> wf_id (ui_user_id i)"
  using crypto_lengths(4) [of C] by (simp add: identity_ok_def from_key_def wf_id_def ffi_hash_node_id_def)

lemma audio_roundtrip:
  assumes C: "crypto_ok C" and a: "identity_ok C a" and b: "identity_ok C b" and nonce: "length nonce = 12"
    and seal: "\<And>k n x p c. cr_seal C k n x p = Some c \<Longrightarrow> length c = length p + 16"
    and cb: "map_of (db_contacts dba) (user_id_hex b) = Some cb" "sc_x25519_pub_hex cb = to_hex (ui_x25519_public b)"
    and ca: "map_of (db_contacts dbb) (user_id_hex a) = Some ca" "sc_x25519_pub_hex ca = to_hex (ui_x25519_public a)"
    and ascii: "list_all (\<lambda>c. (of_char c :: nat) < 0x80) call_id"
    and sent: "send_call_audio C parse rt nonce eph send a dba (user_id_hex b) call_id samples rate seq = Done (Ok (addr, frame))"
    and fresh: "audio_sequence (user_id_hex a @ '':'' @ call_id) seq q = Some q'"
  shows "audio_turn C True b dbb frame q = Done (Some \<lparr>ae_sender = user_id_hex a, ae_call_id = call_id, ae_seq = seq, ae_rate = rate,
    ae_pcm = samples\<rparr>, q')"
proof -
  have wf: "wf_id (ui_user_id a)" "wf_id (ui_user_id b)" using identity_wf [OF C] a b by blast+
  have x: "ui_x25519_public a = cr_x_public C (ui_x25519_secret a)" "ui_x25519_public b = cr_x_public C (ui_x25519_secret b)"
    using a b by (simp_all add: identity_ok_def)
  have xl: "length (ui_x25519_public a) = 32" "length (ui_x25519_public b) = 32" using crypto_lengths(3) [OF C] x by simp_all
  then have hd: "hex_decode (to_hex (ui_x25519_public a)) = Done (Some (ui_x25519_public a))"
    "hex_decode (to_hex (ui_x25519_public b)) = Done (Some (ui_x25519_public b))"
    by (metis hex_decode_to_hex list.size(3) zero_neq_numeral)+
  have r: "id_from_hex (user_id_hex b) = Done (Ok (ui_user_id b))" unfolding user_id_hex_def by (rule id_hex_roundtrip [OF wf(2)])
  let ?ids = "as_bytes (ui_user_id a) @ as_bytes (ui_user_id b)" and ?cid = "str_bytes call_id" and ?pcm = "concat (map le_bytes16 samples)"
  let ?k = "audio_key C nonce (cr_x_dh C eph (ui_x25519_public b)) (cr_x_dh C (ui_x25519_secret a) (ui_x25519_public b))"
  obtain ct where s: "cr_seal C ?k nonce (audio_aad ?ids ?cid seq rate) ?pcm = Some ct" "length ?pcm \<le> 900" "call_id \<noteq> []"
    "rate_ok rate" "length call_id \<le> 128" "frame = audio_frame ?ids ?cid seq rate nonce (cr_x_public C eph) ct"
    using sent cb hd(2) xl(2) r
    by (auto simp: send_call_audio_def audio_peer_def Let_def split: if_splits option.splits)
  have k: "?k = audio_key C nonce (cr_x_dh C (ui_x25519_secret b) (cr_x_public C eph)) (cr_x_dh C (ui_x25519_secret b) (ui_x25519_public a))"
    unfolding x using dh_agree [OF C] by metis
  have o: "cr_open C ?k nonce (audio_aad ?ids ?cid seq rate) ct = Some ?pcm" by (rule seal_open [OF C s(1)])
  have ids: "length (as_bytes (ui_user_id a)) = 20" "length (as_bytes (ui_user_id b)) = 20" using wf by (simp_all add: wf_id_def)
  have cid: "1 \<le> length ?cid" "length ?cid \<le> 128" using s(3,5) by (simp_all add: Suc_le_eq)
  have ctl: "16 \<le> length ct" "length ct \<le> 1100" using seal [OF s(1)] s(2) by simp_all
  have h: "to_hex (as_bytes (ui_user_id a)) = user_id_hex a" "to_hex (as_bytes (ui_user_id b)) = user_id_hex b"
    by (simp_all add: user_id_hex_def id_to_hex_def ffi_node_id_to_hex_def)
  have parse: "parse_audio (user_id_hex b) frame = Some \<lparr>ah_sender = user_id_hex a, ah_recipient = user_id_hex b, ah_call_id = call_id,
      ah_seq = seq, ah_rate = rate, ah_nonce = nonce, ah_eph = cr_x_public C eph, ah_ids = ?ids, ah_id_len = of_nat (length ?cid), ah_ct = ct\<rparr>"
    using parse_audio_frame [OF ids cid nonce crypto_lengths(3) [OF C] ctl s(4), of seq] text_of_ascii [OF ascii]
    unfolding s(6) h by simp
  have "even (length ?pcm)" "pcm_of ?pcm = samples" by (simp_all add: length_pcm_bytes pcm_of_bytes)
  then show ?thesis using parse ca hd(1) xl(1) o [unfolded k audio_aad_def] fresh by (simp add: audio_turn_def Let_def)
qed

section \<open>Sequence numbers\<close>

definition audio_inv :: "audio_sequences \<Rightarrow> bool" where
  "audio_inv q \<longleftrightarrow> keys_distinct q \<and> length q \<le> MAX_AUDIO_STREAMS"

lemma audio_sequence_facts:
  assumes "audio_sequence k n q = Some q'"
  shows "map_of q' = (map_of q)(k \<mapsto> n)" "case map_of q k of None \<Rightarrow> True | Some m \<Rightarrow> m < n" "audio_inv q \<Longrightarrow> audio_inv q'"
  using assms by (auto simp: audio_sequence_def audio_inv_def length_map_put split: if_splits option.splits)

definition audio_stream :: "audio_event \<Rightarrow> string" where
  "audio_stream e = ae_sender e @ '':'' @ ae_call_id e"

lemma audio_turn_cases:
  assumes "audio_turn C u me db p q = Done (r, q')"
  shows "q' = q \<and> r = None \<or> (\<exists>k n. audio_sequence k n q = Some q' \<and> (\<forall>e. r = Some e \<longrightarrow> audio_stream e = k \<and> ae_seq e = n))"
  using assms by (auto simp: audio_turn_def Let_def exec_bind_def audio_stream_def split: option.splits if_splits exec.splits)

text \<open>The receiving task over some packets: a panic ends it.\<close>

fun audio_run :: "crypto \<Rightarrow> user_identity \<Rightarrow> (bool \<times> messenger_db \<times> bytes) list \<Rightarrow> audio_sequences \<Rightarrow> audio_event list \<times> audio_sequences" where
  "audio_run C me [] q = ([], q)"
| "audio_run C me ((u, db, p) # ps) q = (case audio_turn C u me db p q of
      Panic \<Rightarrow> ([], q)
    | Done (r, q') \<Rightarrow> (case audio_run C me ps q' of (es, q'') \<Rightarrow> ((case r of None \<Rightarrow> es | Some e \<Rightarrow> e # es), q'')))"

definition rising :: "audio_sequences \<Rightarrow> string \<Rightarrow> audio_event list \<Rightarrow> bool" where
  "rising q k es \<longleftrightarrow> sorted_wrt (<) (map ae_seq (filter (\<lambda>e. audio_stream e = k) es)) \<and>
     (\<forall>m. map_of q k = Some m \<longrightarrow> (\<forall>e \<in> set es. audio_stream e = k \<longrightarrow> m < ae_seq e))"

lemma rising_none:
  assumes "rising q' k es" "map_of q' = (map_of q)(k' \<mapsto> n)" "case map_of q k' of None \<Rightarrow> True | Some m \<Rightarrow> m < n"
  shows "rising q k es"
  using assms by (auto simp: rising_def split: if_splits option.splits dest: less_trans)

lemma rising_event:
  assumes "rising q' k es" "map_of q' = (map_of q)(audio_stream e \<mapsto> ae_seq e)" "case map_of q (audio_stream e) of None \<Rightarrow> True | Some m \<Rightarrow> m < ae_seq e"
  shows "rising q k (e # es)"
proof -
  have "\<forall>x \<in> set es. audio_stream x = audio_stream e \<and> k = audio_stream e \<longrightarrow> ae_seq e < ae_seq x" using assms(1,2) by (auto simp: rising_def)
  then show ?thesis using assms rising_none [OF assms] by (auto simp: rising_def split: option.splits)
qed

text \<open>Within a stream the numbers of what is played grow strictly, whatever arrives.\<close>

lemma audio_run_facts:
  "audio_inv q \<Longrightarrow> audio_inv (snd (audio_run C me ps q)) \<and> rising q k (fst (audio_run C me ps q))"
proof (induction C me ps q rule: audio_run.induct)
  case (2 C me u db p ps q)
  show ?case
  proof (cases "audio_turn C u me db p q")
    case (Done x)
    obtain r q' where x: "x = (r, q')" by (cases x)
    obtain es q'' where run: "audio_run C me ps q' = (es, q'')" by fastforce
    from audio_turn_cases [OF Done [unfolded x]]
    show ?thesis
    proof (elim disjE exE conjE)
      assume "q' = q" "r = None"
      then show ?thesis using "2.IH" [OF Done x [symmetric]] "2.prems" Done x run by simp
    next
      fix k' n assume s: "audio_sequence k' n q = Some q'" and e: "\<forall>e. r = Some e \<longrightarrow> audio_stream e = k' \<and> ae_seq e = n"
      note f = audio_sequence_facts [OF s]
      have i: "audio_inv q''" "rising q' k es" using "2.IH" [OF Done x [symmetric] f(3) [OF "2.prems"]] run by simp_all
      have "rising q k (case r of None \<Rightarrow> es | Some e \<Rightarrow> e # es)"
        using rising_none [OF i(2) f(1,2)] rising_event [OF i(2), of q] f(1,2) e by (cases r) auto
      then show ?thesis using Done x run i(1) by simp
    qed
  qed (use "2.prems" in \<open>simp add: rising_def\<close>)
qed (simp add: rising_def)

section \<open>The key text of a contact\<close>

text \<open>An invitation carries the text of the key unchecked: signed by its owner, it may be no hexadecimal text, and cutting
  it in pairs can end inside a character. A frame that names this contact then ends the receiving task.\<close>

definition split_char_text :: string where
  "split_char_text = [CHR ''a'', char_of (0xC3 :: nat), char_of (0xA9 :: nat), CHR ''a'']"

lemma split_char_panics: "hex_decode split_char_text = Panic"
  by code_simp

lemma audio_turn_panics:
  assumes "parse_audio (user_id_hex me) p = Some h" "map_of (db_contacts db) (ah_sender h) = Some c" "sc_x25519_pub_hex c = split_char_text"
  shows "audio_turn C True me db p q = Panic"
  using assms split_char_panics by (simp add: audio_turn_def)

text \<open>Keys that were written as hexadecimal text are safe.\<close>

lemma hex_decode_written: "hex_decode (to_hex b) \<noteq> Panic"
proof (cases "b = []")
  case True
  have "rust_trim (to_hex []) = to_hex []" by (rule trim_to_hex)
  then show ?thesis using True by (simp add: hex_decode_def Let_def)
qed (simp add: hex_decode_to_hex)

lemma audio_turn_total:
  assumes "\<forall>c \<in> ran (map_of (db_contacts db)). \<exists>b. sc_x25519_pub_hex c = to_hex b"
  shows "audio_turn C u me db p q \<noteq> Panic"
proof -
  have "hex_decode (sc_x25519_pub_hex c) \<noteq> Panic" if "map_of (db_contacts db) k = Some c" for c k
    using assms that hex_decode_written by (metis ranI)
  then show ?thesis
    by (auto simp: audio_turn_def Let_def exec_bind_def split: option.splits exec.splits)
qed

end
