(* ===== verification/Peer_Directory.thy ===== *)
theory Peer_Directory
  imports Stego Message_Db Call_Audio Json_Text
begin

text \<open>
  How the messenger learns of peers (\<open>messenger.rs\<close>): publishing and discovering presence cards, invitation links and
  contact cards in images, each of which writes a contact into the database. The answers of STUN and of the network, the
  text of addresses and JSON are arguments. The lemmas show what a stored contact was verified against, that what is published
  is discovered, and that nothing compares the card with the user that was asked for.
\<close>

definition hex_string :: "bytes \<Rightarrow> string" where
  "hex_string bs = (if length bs = 20 then ffi_node_id_to_hex bs else concat (map hex_byte bs))"

lemma hex_string_to_hex [simp]: "hex_string bs = to_hex bs"
  by (simp add: hex_string_def ffi_node_id_to_hex_def)

section \<open>Publishing\<close>

text \<open>\<open>SocketAddr::new(ip, port)\<close> with the address of another.\<close>

fun with_port :: "socket_addr \<Rightarrow> u16 \<Rightarrow> socket_addr" where
  "with_port (SockV4 ip _) p = SockV4 ip p"
| "with_port (SockV6 ip _ _ _) p = SockV6 ip p 0 0"

fun port_of :: "socket_addr \<Rightarrow> u16" where
  "port_of (SockV4 _ p) = p"
| "port_of (SockV6 _ p _ _) = p"

text \<open>The endpoints that a node publishes, and the primary one.\<close>

definition own_endpoints :: "socket_addr \<Rightarrow> socket_addr option \<Rightarrow> socket_addr list \<times> socket_addr" where
  "own_endpoints local_addr public = (case public of
      None \<Rightarrow> ([local_addr], local_addr)
    | Some a \<Rightarrow>
        (let mapped = with_port a (port_of local_addr); eps = [local_addr];
             eps = (if mapped \<in> set eps then eps else mapped # eps);
             eps = (if a \<in> set eps then eps else eps @ [a]) in
         (eps, mapped)))"

text \<open>The key and the value that \<open>publish_presence\<close> puts into the network.\<close>

definition publish_presence :: "crypto \<Rightarrow> card_json \<Rightarrow> socket_addr \<Rightarrow> socket_addr option \<Rightarrow> u64 \<Rightarrow> user_identity \<Rightarrow> messenger_db \<Rightarrow> string \<times> bytes" where
  "publish_presence C J local_addr public now me db =
     (let (eps, primary) = own_endpoints local_addr public in
      (''presence_'' @ user_id_hex me,
       cj_write J (presence_create_with_endpoints C J me (db_display_name db) (db_bio db) primary eps NatUnknown now)))"

definition create_invite_link ::
    "crypto \<Rightarrow> invite_text \<Rightarrow> socket_addr \<Rightarrow> socket_addr option \<Rightarrow> u64 \<Rightarrow> user_identity \<Rightarrow> messenger_db \<Rightarrow> u64 option \<Rightarrow> string" where
  "create_invite_link C T local_addr public now me db ttl_days =
     create_invite C T me (db_display_name db) (fst (own_endpoints local_addr public)) (map_option (\<lambda>d. d * 86400) ttl_days) now"

section \<open>Discovering\<close>

datatype discover_failure = GetFailed | NoCard | CardNotRead | CardKeySize | CardIdWrong | CardSignature card_error

definition blank :: "string \<Rightarrow> bool" where
  "blank s \<longleftrightarrow> rust_trim s = []"

text \<open>The name under which a discovered peer is kept.\<close>

definition name_to_use :: "presence_card \<Rightarrow> messenger_db \<Rightarrow> string" where
  "name_to_use crd db =
     (let fallback = (if \<not> blank (pc_display_name crd) then pc_display_name crd else ''Peer_'' @ take 6 (pc_user_id crd)) in
      case map_of (db_contacts db) (pc_user_id crd) of
        None \<Rightarrow> fallback
      | Some c \<Rightarrow> if \<not> blank (sc_name c) \<and> \<not> starts_with ''Peer_'' (sc_name c) then sc_name c else fallback)"

definition card_contact :: "(socket_addr \<Rightarrow> string) \<Rightarrow> presence_card \<Rightarrow> messenger_db \<Rightarrow> saved_contact" where
  "card_contact show_addr crd db = \<lparr>sc_user_id = pc_user_id crd, sc_name = name_to_use crd db, sc_bio = pc_bio crd,
     sc_ed25519_pub_hex = hex_string (pc_ed25519_pub crd), sc_x25519_pub_hex = hex_string (pc_x25519_pub crd),
     sc_last_seen_addr = show_addr (pc_socket_addr crd)\<rparr>"

text \<open>\<open>found\<close> is what the network answers for \<open>presence_<user>\<close>: an error, nothing, or a value.\<close>

definition discover_peer ::
    "crypto \<Rightarrow> card_json \<Rightarrow> (socket_addr \<Rightarrow> string) \<Rightarrow> instant \<Rightarrow> bytes option option \<Rightarrow> messenger_db \<Rightarrow> routing_table \<Rightarrow>
     (discover_failure + presence_card) \<times> messenger_db \<times> routing_table" where
  "discover_peer C J show_addr t found db rt = (case found of
      None \<Rightarrow> (Err GetFailed, db, rt)
    | Some None \<Rightarrow> (Err NoCard, db, rt)
    | Some (Some v) \<Rightarrow> (case cj_read J v of
          None \<Rightarrow> (Err CardNotRead, db, rt)
        | Some crd \<Rightarrow>
            if length (pc_ed25519_pub crd) \<noteq> 32 then (Err CardKeySize, db, rt)
            else (let i = from_key (cr_sha1 C) (pc_ed25519_pub crd) in
              if id_to_hex i \<noteq> pc_user_id crd then (Err CardIdWrong, db, rt)
              else (case presence_verify C J crd of
                  Inl e \<Rightarrow> (Err (CardSignature e), db, rt)
                | Inr _ \<Rightarrow> (Ok crd, db_add_contact (card_contact show_addr crd db) db,
                    snd (rt_force_update (contact_new t i (pc_socket_addr crd)) rt))))))"

section \<open>Invitations and images\<close>

definition invite_contact :: "(socket_addr \<Rightarrow> string) \<Rightarrow> invite_payload \<Rightarrow> saved_contact exec" where
  "invite_contact show_addr p =
     exec_bind (if iv_display_name p = [] then exec_bind (str_slice (iv_user_id p) 0 (min 6 (length (iv_user_id p)))) (\<lambda>s. Done (''Peer_'' @ s))
                else Done (iv_display_name p))
       (\<lambda>name. Done \<lparr>sc_user_id = iv_user_id p, sc_name = name, sc_bio = [], sc_ed25519_pub_hex = iv_ed25519_pub_hex p,
          sc_x25519_pub_hex = iv_x25519_pub_hex p,
          sc_last_seen_addr = (case iv_endpoints p of [] \<Rightarrow> ''unknown'' | a # _ \<Rightarrow> show_addr a)\<rparr>)"

definition add_contact_by_invite ::
    "crypto \<Rightarrow> invite_text \<Rightarrow> (socket_addr \<Rightarrow> string) \<Rightarrow> u64 \<Rightarrow> string \<Rightarrow> messenger_db \<Rightarrow> ((invite_error + saved_contact) \<times> messenger_db) exec" where
  "add_contact_by_invite C T show_addr now s db = exec_bind (parse_and_verify_invite C T s now) (\<lambda>r. case r of
      Inl e \<Rightarrow> Done (Err e, db)
    | Inr p \<Rightarrow> exec_bind (invite_contact show_addr p) (\<lambda>c. Done (Ok c, db_add_contact c db)))"

datatype import_error = ImportImage stego_error | ImportCard stego_card_error

definition export_stego_avatar ::
    "crypto \<Rightarrow> stego_io \<Rightarrow> (bytes \<Rightarrow> u32) \<Rightarrow> bytes option \<Rightarrow> bytes option \<Rightarrow> socket_addr \<Rightarrow> u64 \<Rightarrow> user_identity \<Rightarrow> messenger_db \<Rightarrow>
     bytes \<Rightarrow> string option \<Rightarrow> stego_error + bytes" where
  "export_stego_avatar C S crc salt nonce local_addr now me db img passphrase = (case si_load S img of
      None \<Rightarrow> Err BadImage
    | Some im \<Rightarrow> embed_contact_into_image C S crc salt nonce im
        (stego_card_new C me (db_display_name db) (db_bio db) [local_addr] now) passphrase)"

definition stego_contact :: "(socket_addr \<Rightarrow> string) \<Rightarrow> stego_card \<Rightarrow> saved_contact" where
  "stego_contact show_addr c = \<lparr>sc_user_id = sg_user_id c,
     sc_name = (if blank (sg_display_name c) then ''Peer_'' @ take 8 (sg_user_id c) else sg_display_name c), sc_bio = sg_bio c,
     sc_ed25519_pub_hex = sg_ed25519_pub_hex c, sc_x25519_pub_hex = sg_x25519_pub_hex c,
     sc_last_seen_addr = (case sg_endpoints c of [] \<Rightarrow> ''unknown'' | a # _ \<Rightarrow> show_addr a)\<rparr>"

definition import_stego_avatar ::
    "crypto \<Rightarrow> stego_io \<Rightarrow> (bytes \<Rightarrow> u32) \<Rightarrow> (socket_addr \<Rightarrow> string) \<Rightarrow> instant \<Rightarrow> bytes \<Rightarrow> string option \<Rightarrow> messenger_db \<Rightarrow> routing_table \<Rightarrow>
     ((import_error + saved_contact) \<times> messenger_db \<times> routing_table) exec" where
  "import_stego_avatar C S crc show_addr t img passphrase db rt = (case extract_contact_from_image C S crc img passphrase of
      Inl e \<Rightarrow> Done (Err (ImportImage e), db, rt)
    | Inr crd \<Rightarrow> exec_bind (verify_stego_card C crd) (\<lambda>r. case r of
          Inl e \<Rightarrow> Done (Err (ImportCard e), db, rt)
        | Inr i \<Rightarrow> Done (Ok (stego_contact show_addr crd),
            db\<lparr>db_contacts := map_put (sg_user_id crd) (stego_contact show_addr crd) (db_contacts db)\<rparr>,
            case sg_endpoints crd of [] \<Rightarrow> rt | a # _ \<Rightarrow> snd (rt_force_update (contact_new t i a) rt))))"

section \<open>What is published is discovered\<close>

lemma own_endpoints_facts:
  "own_endpoints l p = (eps, primary) \<Longrightarrow> distinct eps \<and> l \<in> set eps \<and> primary \<in> set eps \<and> (\<forall>a. p = Some a \<longrightarrow> a \<in> set eps) \<and> length eps \<le> 3"
  by (auto simp: own_endpoints_def Let_def split: option.splits if_splits)

lemma discover_peer_accepts:
  assumes "discover_peer C J show_addr t found db rt = (Ok crd, db', rt')"
  shows "presence_verify C J crd = Ok () \<and> (\<exists>v. found = Some (Some v) \<and> cj_read J v = Some crd) \<and>
    pc_user_id crd = id_to_hex (from_key (cr_sha1 C) (pc_ed25519_pub crd)) \<and>
    db' = db_add_contact (card_contact show_addr crd db) db \<and>
    rt' = snd (rt_force_update (contact_new t (from_key (cr_sha1 C) (pc_ed25519_pub crd)) (pc_socket_addr crd)) rt)"
  using assms by (auto simp: discover_peer_def Let_def split: option.splits if_splits sum.splits)

lemma discover_peer_refuses:
  assumes "discover_peer C J show_addr t found db rt = (Err e, db', rt')" shows "db' = db \<and> rt' = rt"
  using assms by (auto simp: discover_peer_def Let_def split: option.splits if_splits sum.splits)

lemma card_fields:
  "pc_ed25519_pub (presence_create_with_endpoints C J u n b a es k ts) = ui_verifying_key u"
  "pc_x25519_pub (presence_create_with_endpoints C J u n b a es k ts) = ui_x25519_public u"
  "pc_user_id (presence_create_with_endpoints C J u n b a es k ts) = user_id_hex u"
  "pc_socket_addr (presence_create_with_endpoints C J u n b a es k ts) = a"
  "pc_display_name (presence_create_with_endpoints C J u n b a es k ts) = n"
  by (simp_all add: presence_create_with_endpoints_def Let_def)

text \<open>The contact that a published card leaves: the key of its owner.\<close>

lemma publish_discover:
  assumes "crypto_ok C" "card_json_ok J" "identity_ok C u" "publish_presence C J l p now u dbu = (k, v)"
  shows "\<exists>crd. fst (discover_peer C J show_addr t (Some (Some v)) db rt) = Ok crd \<and>
    map_of (db_contacts (fst (snd (discover_peer C J show_addr t (Some (Some v)) db rt)))) (user_id_hex u) = Some (card_contact show_addr crd db) \<and>
    pc_x25519_pub crd = ui_x25519_public u \<and> k = ''presence_'' @ user_id_hex u"
proof -
  obtain eps primary where e: "own_endpoints l p = (eps, primary)" by fastforce
  let ?c = "presence_create_with_endpoints C J u (db_display_name dbu) (db_bio dbu) primary eps NatUnknown now"
  have v: "v = cj_write J ?c" "k = ''presence_'' @ user_id_hex u" using assms(4) e by (auto simp: publish_presence_def)
  have r: "cj_read J v = Some ?c" using assms(2) v(1) by (simp add: card_json_ok_def)
  have ok: "presence_verify C J ?c = Ok ()" by (rule presence_created_ok [OF assms(1-3)])
  have i: "id_to_hex (from_key (cr_sha1 C) (ui_verifying_key u)) = user_id_hex u" "length (ui_verifying_key u) = 32"
    using assms(3) crypto_lengths(1) [OF assms(1)] by (simp_all add: identity_ok_def user_id_hex_def)
  have d: "discover_peer C J show_addr t (Some (Some v)) db rt = (Ok ?c, db_add_contact (card_contact show_addr ?c db) db,
      snd (rt_force_update (contact_new t (from_key (cr_sha1 C) (ui_verifying_key u)) primary) rt))"
    using r ok i by (simp add: discover_peer_def card_fields)
  show ?thesis unfolding d using v(2) by (simp add: db_add_contact_def card_contact_def card_fields)
qed

section \<open>Contacts and what they were checked against\<close>

text \<open>Every way in keeps the invariants of the database and the routing table.\<close>

lemma add_contact_inv: "db_inv db \<Longrightarrow> db_inv (db_add_contact c db)"
  using db_sys.step_inv [of "DbAddContact c" db] by simp

lemma discover_peer_inv:
  assumes "db_inv db" "rt_inv rt" "discover_peer C J show_addr t found db rt = (r, db', rt')"
  shows "db_inv db' \<and> rt_inv rt'"
  using assms discover_peer_accepts [of C J show_addr t found db rt] discover_peer_refuses [of C J show_addr t found db rt]
  by (cases r) (auto intro: add_contact_inv rt_force_update_inv)

lemma invite_contact_added:
  assumes "add_contact_by_invite C T show_addr now s db = Done (Ok c, db')"
  shows "map_of (db_contacts db') (sc_user_id c) = Some c \<and> (\<exists>key. invite_hex_decode (sc_ed25519_pub_hex c) = Done (Ok key) \<and>
    sc_user_id c = id_to_hex (from_key (cr_sha1 C) key))"
proof -
  obtain p where p: "parse_and_verify_invite C T s now = Done (Ok p)" "invite_contact show_addr p = Done c" "db' = db_add_contact c db"
    using assms by (auto simp: add_contact_by_invite_def exec_bind_def split: exec.splits sum.splits)
  have f: "sc_user_id c = iv_user_id p" "sc_ed25519_pub_hex c = iv_ed25519_pub_hex p"
    using p(2) by (auto simp: invite_contact_def exec_bind_def split: exec.splits if_splits)
  show ?thesis using invite_accepted [OF p(1)] p(3) f by (auto simp: db_add_contact_def)
qed

text \<open>The text of the encryption key is taken from the invitation as it stands: one whose text splits a character in two
  is accepted, and the first frame of a call with its owner's identifier ends the task that receives calls.\<close>

lemma bad_invite_stored:
  assumes "crypto_ok C" "identity_ok C u" "now < expires"
    "p = \<lparr>iv_user_id = user_id_hex u, iv_ed25519_pub_hex = to_hex (ui_verifying_key u), iv_x25519_pub_hex = split_char_text,
       iv_display_name = ''x'', iv_fingerprint = [], iv_endpoints = [], iv_created_at = t, iv_expires_at = expires,
       iv_signature_hex = to_hex (identity_sign C u (invite_sign_bytes (user_id_hex u) (to_hex (ui_verifying_key u)) split_char_text t expires))\<rparr>"
    "it_unbase64 T (strip_invite_prefix (rust_trim s)) = Some raw" "it_read T raw = Some p"
  shows "\<exists>c. add_contact_by_invite C T show_addr now s db = Done (Ok c, db_add_contact c db) \<and> sc_user_id c = user_id_hex u \<and>
    sc_x25519_pub_hex c = split_char_text"
proof -
  have k: "length (ui_verifying_key u) = 32" "cr_ed_valid C (ui_verifying_key u)"
    "cr_ed_verify C (ui_verifying_key u) m (identity_sign C u m)" "length (identity_sign C u m) = 64" for m
    using sign_verifies [OF assms(1,2), of m] by (simp_all add: identity_verify_def)
  have i: "user_id_hex u = id_to_hex (from_key (cr_sha1 C) (ui_verifying_key u))"
    using assms(2) by (simp add: user_id_hex_def identity_ok_def)
  have "verify_invite C now p = Done (Ok p)"
    unfolding verify_invite_def using assms(3) k i by (simp add: assms(4) invite_hex_to_hex)
  then have "parse_and_verify_invite C T s now = Done (Ok p)" using assms(5,6) by (simp add: parse_and_verify_invite_def)
  then show ?thesis by (simp add: add_contact_by_invite_def invite_contact_def assms(4))
qed

text \<open>A card of one user, found under the key of another one, is accepted.\<close>

lemma discover_wrong_user:
  assumes "crypto_ok C" "card_json_ok J" "identity_ok C mallory"
    "crd = presence_create_with_endpoints C J mallory name bio addr eps cat ts"
  shows "fst (discover_peer C J show_addr t (Some (Some (cj_write J crd))) db rt) = Ok crd"
proof -
  have "presence_verify C J crd = Ok ()" unfolding assms(4) by (rule presence_created_ok [OF assms(1-3)])
  moreover have "cj_read J (cj_write J crd) = Some crd" using assms(2) by (simp add: card_json_ok_def)
  moreover have "length (ui_verifying_key mallory) = 32" "id_to_hex (from_key (cr_sha1 C) (ui_verifying_key mallory)) = user_id_hex mallory"
    using assms(3) crypto_lengths(1) [OF assms(1)] by (simp_all add: identity_ok_def user_id_hex_def)
  ultimately show ?thesis by (simp add: discover_peer_def assms(4) card_fields)
qed

lemma import_facts:
  assumes "import_stego_avatar C S crc show_addr t img pw db rt = Done (Ok c, db', rt')"
  shows "map_of (db_contacts db') (sc_user_id c) = Some c \<and> (\<exists>crd i. verify_stego_card C crd = Done (Ok i) \<and> c = stego_contact show_addr crd)"
  using assms by (auto simp: import_stego_avatar_def exec_bind_def stego_contact_def split: sum.splits exec.splits)

end
