(* ===== verification/Outbox.thy ===== *)
theory Outbox
  imports Message_Db
begin

text \<open>
  The outbox (\<open>message_queue.rs\<close>), the status of a message (\<open>message_status.rs\<close>) and the retry worker that
  \<open>KadMessenger::start\<close> spawns. A message that is being delivered is out of the queue; the worker puts it
  back with \<open>schedule_retry\<close> whatever the delivery said. The lemmas bound the number of attempts and the size
  of the queue over every interleaving of the worker with sends and receipts, show that a pass of the worker
  ends after trying each due message once, and that a receipt that arrives during an attempt is lost.
\<close>

section \<open>Messages in the queue\<close>

datatype message_status = MsComposing | MsSending | MsSent | MsDelivered | MsRead | MsFailed | MsExpired

record message_timestamps =
  mt_created_at :: u64
  mt_sent_at :: "u64 option"
  mt_delivered_at :: "u64 option"
  mt_read_at :: "u64 option"
  mt_failed_at :: "u64 option"

definition message_timestamps_new :: "u64 \<Rightarrow> message_timestamps" where
  "message_timestamps_new t = \<lparr>mt_created_at = t, mt_sent_at = None, mt_delivered_at = None, mt_read_at = None, mt_failed_at = None\<rparr>"

abbreviation MAX_RETRY_ATTEMPTS :: u32 where "MAX_RETRY_ATTEMPTS \<equiv> 6"
abbreviation MAX_QUEUED_MESSAGES :: nat where "MAX_QUEUED_MESSAGES \<equiv> 100"

record queued_message =
  qm_message :: chat_message
  qm_recipient :: string
  qm_attempts :: u32
  qm_status :: message_status
  qm_next_retry_at :: u64

type_synonym message_queue = "queued_message list"

abbreviation qm_id :: "queued_message \<Rightarrow> string" where "qm_id q \<equiv> sm_id (qm_message q)"

section \<open>Operations\<close>

definition push_after :: "u64 \<Rightarrow> chat_message \<Rightarrow> string \<Rightarrow> u64 \<Rightarrow> message_queue \<Rightarrow> message_queue" where
  "push_after now m recipient delay q =
     (if \<exists>x \<in> set q. qm_id x = sm_id m then q
      else if length q \<ge> MAX_QUEUED_MESSAGES then q
      else q @ [\<lparr>qm_message = m, qm_recipient = recipient, qm_attempts = 0, qm_status = MsSending,
                 qm_next_retry_at = saturating_add64 now delay\<rparr>])"

definition queue_push :: "u64 \<Rightarrow> chat_message \<Rightarrow> string \<Rightarrow> message_queue \<Rightarrow> message_queue" where
  "queue_push now m recipient q = push_after now m recipient 0 q"

definition pop_pending :: "u64 \<Rightarrow> message_queue \<Rightarrow> queued_message option \<times> message_queue" where
  "pop_pending now q = (case find_index (\<lambda>m. qm_status m = MsSending \<and> qm_next_retry_at m \<le> now) q of
      Some pos \<Rightarrow> (Some ((q ! pos)\<lparr>qm_attempts := qm_attempts (q ! pos) + 1\<rparr>), remove_at pos q)
    | None \<Rightarrow> (None, q))"

text \<open>\<open>2u64.pow(attempts.min(5)).min(32)\<close>; \<open>now + backoff\<close> wraps in a release build.\<close>

definition backoff_secs :: "u32 \<Rightarrow> u64" where
  "backoff_secs attempts = min (2 ^ unat (min attempts 5)) 32"

definition retried :: "u64 \<Rightarrow> queued_message \<Rightarrow> queued_message" where
  "retried now m =
     (if qm_attempts m \<ge> MAX_RETRY_ATTEMPTS then m\<lparr>qm_status := MsFailed\<rparr>
      else m\<lparr>qm_next_retry_at := now + backoff_secs (qm_attempts m), qm_status := MsSending\<rparr>)"

definition schedule_retry :: "queued_message \<Rightarrow> u64 \<Rightarrow> message_queue \<Rightarrow> message_queue" where
  "schedule_retry m now q = q @ [retried now m]"

definition queue_mark_delivered :: "string \<Rightarrow> message_queue \<Rightarrow> message_queue" where
  "queue_mark_delivered i q = (case find_index (\<lambda>m. qm_id m = i) q of
      Some pos \<Rightarrow> remove_at pos q
    | None \<Rightarrow> q)"

definition queue_len :: "message_queue \<Rightarrow> nat" where "queue_len q = length q"

definition queue_is_empty :: "message_queue \<Rightarrow> bool" where "queue_is_empty q \<longleftrightarrow> q = []"

definition queue_get_all :: "message_queue \<Rightarrow> queued_message list" where "queue_get_all q = q"

text \<open>One tick of the retry worker, undisturbed: what it delivers, in order, and the queue; \<open>None\<close> when the
  fuel runs out.\<close>

fun outbox_pass :: "nat \<Rightarrow> u64 \<Rightarrow> message_queue \<Rightarrow> (queued_message list \<times> message_queue) option" where
  "outbox_pass 0 now q = None"
| "outbox_pass (Suc fuel) now q = (case pop_pending now q of
      (None, q') \<Rightarrow> Some ([], q')
    | (Some m, q') \<Rightarrow> (case outbox_pass fuel now (schedule_retry m now q') of
          None \<Rightarrow> None
        | Some (tried, q'') \<Rightarrow> Some (m # tried, q'')))"

text \<open>The messages that \<open>start\<close> queues again: own messages that are not delivered.\<close>

definition SELF_SAVED :: string where "SELF_SAVED = ''self_saved_messages''"

definition restore_outbox :: "u64 \<Rightarrow> string \<Rightarrow> messenger_db \<Rightarrow> message_queue" where
  "restore_outbox now me db =
     fold (\<lambda>m. queue_push now m (sm_recipient m))
       (filter (\<lambda>m. \<not> sm_incoming m \<and> \<not> sm_delivered m \<and> sm_recipient m \<noteq> SELF_SAVED \<and> sm_recipient m \<noteq> me) (db_messages db)) []"

section \<open>Attempts and size\<close>

text \<open>The queue with what the worker has taken out of it.\<close>

datatype outbox_op = OutPush u64 chat_message string u64 | OutPop u64 | OutRetry u64 | OutDelivered string

text \<open>The worker takes a message only when it has none.\<close>

fun outbox_step :: "outbox_op \<Rightarrow> message_queue \<times> queued_message option \<Rightarrow> message_queue \<times> queued_message option" where
  "outbox_step (OutPush now m r d) (q, w) = (push_after now m r d q, w)"
| "outbox_step (OutPop now) (q, None) = (case pop_pending now q of (w, q') \<Rightarrow> (q', w))"
| "outbox_step (OutPop now) (q, Some m) = (q, Some m)"
| "outbox_step (OutRetry now) (q, Some m) = (schedule_retry m now q, None)"
| "outbox_step (OutRetry now) (q, None) = (q, None)"
| "outbox_step (OutDelivered i) (q, w) = (queue_mark_delivered i q, w)"

definition queued_ok :: "queued_message \<Rightarrow> bool" where
  "queued_ok m \<longleftrightarrow> (qm_status m = MsSending \<and> unat (qm_attempts m) \<le> 5) \<or> (qm_status m = MsFailed \<and> unat (qm_attempts m) = 6)"

text \<open>The limit is asked only when a message is pushed, not when the worker puts one back: with a message in the worker's hands the
  queue has at most \<open>MAX_QUEUED_MESSAGES\<close> entries, and one more may come back (see \<open>limit_overrun\<close>).\<close>

definition outbox_inv :: "message_queue \<times> queued_message option \<Rightarrow> bool" where
  "outbox_inv s \<longleftrightarrow> (case s of (q, w) \<Rightarrow> (\<forall>m \<in> set q. queued_ok m) \<and> length q \<le> MAX_QUEUED_MESSAGES + 1 \<and>
     (case w of None \<Rightarrow> True | Some m \<Rightarrow> length q \<le> MAX_QUEUED_MESSAGES \<and> qm_status m = MsSending \<and> 1 \<le> unat (qm_attempts m) \<and> unat (qm_attempts m) \<le> 6))"

lemma unat_inc32: "unat (a :: u32) \<le> 5 \<Longrightarrow> unat (a + 1) = Suc (unat a)"
  by (simp add: unat_word_ariths take_bit_nat_eq_self)

lemma pop_pending_facts:
  assumes "pop_pending now q = (w, q')"
  shows "case w of None \<Rightarrow> q' = q \<and> (\<forall>m \<in> set q. \<not> (qm_status m = MsSending \<and> qm_next_retry_at m \<le> now))
    | Some m \<Rightarrow> \<exists>a x b. q = a @ x # b \<and> q' = a @ b \<and> m = x\<lparr>qm_attempts := qm_attempts x + 1\<rparr> \<and>
        qm_status x = MsSending \<and> qm_next_retry_at x \<le> now \<and>
        (\<forall>y \<in> set a. \<not> (qm_status y = MsSending \<and> qm_next_retry_at y \<le> now))"
proof (cases "find_index (\<lambda>m. qm_status m = MsSending \<and> qm_next_retry_at m \<le> now) q")
  case None
  then have "w = None" "q' = q" using assms by (auto simp: pop_pending_def)
  then show ?thesis using None unfolding find_index_None by simp
next
  case (Some pos)
  note f = find_index_Some [OF Some]
  have s: "q = take pos q @ q ! pos # drop (Suc pos) q" using f by (intro id_take_nth_drop) simp
  have "\<forall>y \<in> set (take pos q). \<not> (qm_status y = MsSending \<and> qm_next_retry_at y \<le> now)"
    using f by (auto simp: in_set_conv_nth)
  then have p: "q = take pos q @ q ! pos # drop (Suc pos) q \<and> remove_at pos q = take pos q @ drop (Suc pos) q \<and>
      qm_status (q ! pos) = MsSending \<and> qm_next_retry_at (q ! pos) \<le> now \<and>
      (\<forall>y \<in> set (take pos q). \<not> (qm_status y = MsSending \<and> qm_next_retry_at y \<le> now))"
    using s f by (simp add: remove_at_def)
  have w: "w = Some ((q ! pos)\<lparr>qm_attempts := qm_attempts (q ! pos) + 1\<rparr>)" "q' = remove_at pos q"
    using assms Some by (auto simp: pop_pending_def)
  show ?thesis unfolding w option.case using p by blast
qed

lemma retried_ok:
  assumes "qm_status m = MsSending" "unat (qm_attempts m) \<le> 6" shows "queued_ok (retried now m)"
  using assms by (auto simp: retried_def queued_ok_def word_le_nat_alt)

lemma outbox_step_inv: "outbox_inv s \<Longrightarrow> outbox_inv (outbox_step a s)"
proof (induction a s rule: outbox_step.induct)
  case (2 now q)
  obtain w q' where p: "pop_pending now q = (w, q')" by force
  note f = pop_pending_facts [OF p]
  show ?case
  proof (cases w)
    case None
    then show ?thesis using 2 p f by (simp add: outbox_inv_def)
  next
    case (Some m)
    then obtain a x b where q: "q = a @ x # b" "q' = a @ b" "m = x\<lparr>qm_attempts := qm_attempts x + 1\<rparr>" "qm_status x = MsSending"
      using f by auto
    have "unat (qm_attempts x) \<le> 5" using 2 q by (auto simp: outbox_inv_def queued_ok_def)
    then show ?thesis using 2 p Some q by (auto simp: outbox_inv_def unat_inc32)
  qed
next
  case (1 now m r d q w)
  then show ?case by (auto simp: outbox_inv_def push_after_def queued_ok_def split: option.splits)
next
  case (4 now q m)
  then show ?case by (auto simp: outbox_inv_def schedule_retry_def intro: retried_ok)
next
  case (6 i q w)
  have "set (queue_mark_delivered i q) \<subseteq> set q" "length (queue_mark_delivered i q) \<le> length q"
    using set_remove_at_subset by (auto simp: queue_mark_delivered_def remove_at_def split: option.split dest: in_set_takeD in_set_dropD)
  then show ?case using 6 by (auto simp: outbox_inv_def split: option.splits)
qed simp_all

interpretation outbox_sys: op_system outbox_step "\<lambda>_. True" outbox_inv
  by unfold_locales (rule outbox_step_inv)

text \<open>How often a message with an identifier is taken out, and how often one is put in.\<close>

fun pops_of :: "string \<Rightarrow> outbox_op list \<Rightarrow> message_queue \<times> queued_message option \<Rightarrow> nat" where
  "pops_of i [] s = 0"
| "pops_of i (a # ops) s = (let s' = outbox_step a s in
     (case (a, s, s') of (OutPop _, (_, None), (_, Some m)) \<Rightarrow> if qm_id m = i then 1 else 0 | _ \<Rightarrow> 0) + pops_of i ops s')"

fun pushes_of :: "string \<Rightarrow> outbox_op list \<Rightarrow> nat" where
  "pushes_of i [] = 0"
| "pushes_of i (OutPush now m r d # ops) = (if sm_id m = i then 1 else 0) + pushes_of i ops"
| "pushes_of i (_ # ops) = pushes_of i ops"

definition tries_left :: "string \<Rightarrow> queued_message \<Rightarrow> nat" where
  "tries_left i m = (if qm_id m = i then 6 - unat (qm_attempts m) else 0)"

definition outbox_budget :: "string \<Rightarrow> message_queue \<times> queued_message option \<Rightarrow> nat" where
  "outbox_budget i s = sum_list (map (tries_left i) (fst s)) + (case snd s of None \<Rightarrow> 0 | Some m \<Rightarrow> tries_left i m)"

lemma tries_left_retried [simp]: "tries_left i (retried now m) = tries_left i m"
  by (simp add: tries_left_def retried_def)

lemma budget_step:
  assumes "outbox_inv s"
  shows "pops_of i [a] s + outbox_budget i (outbox_step a s) \<le> outbox_budget i s + 6 * pushes_of i [a]"
  using assms
proof (induction a s rule: outbox_step.induct)
  case (2 now q)
  obtain w q' where p: "pop_pending now q = (w, q')" by force
  note f = pop_pending_facts [OF p]
  show ?case
  proof (cases w)
    case None
    then show ?thesis using p f by (simp add: outbox_budget_def)
  next
    case (Some m)
    then obtain a x b where q: "q = a @ x # b" "q' = a @ b" "m = x\<lparr>qm_attempts := qm_attempts x + 1\<rparr>" "qm_status x = MsSending"
      using f by auto
    have "unat (qm_attempts x) \<le> 5" using 2 q by (auto simp: outbox_inv_def queued_ok_def)
    then show ?thesis using p Some q by (auto simp: outbox_budget_def tries_left_def unat_inc32)
  qed
next
  case (1 now m r d q w)
  then show ?case by (auto simp: outbox_budget_def push_after_def tries_left_def)
next
  case (4 now q m)
  then show ?case by (simp add: outbox_budget_def schedule_retry_def)
next
  case (6 i' q w)
  have "sum_list (map (tries_left i) (queue_mark_delivered i' q)) \<le> sum_list (map (tries_left i) q)"
  proof (cases "find_index (\<lambda>m. qm_id m = i') q")
    case (Some pos)
    then have "pos < length q" using find_index_Some [OF Some] by simp
    from sum_list_remove_at [OF this, of "tries_left i"] show ?thesis using Some by (simp add: queue_mark_delivered_def)
  qed (simp add: queue_mark_delivered_def)
  then show ?case by (simp add: outbox_budget_def)
qed (simp_all add: outbox_budget_def)

lemma pops_bounded: "outbox_inv s \<Longrightarrow> pops_of i ops s \<le> outbox_budget i s + 6 * pushes_of i ops"
proof (induction ops arbitrary: s)
  case (Cons a ops)
  have "pops_of i ops (outbox_step a s) \<le> outbox_budget i (outbox_step a s) + 6 * pushes_of i ops"
    using Cons outbox_step_inv by blast
  moreover have "pops_of i (a # ops) s = pops_of i [a] s + pops_of i ops (outbox_step a s)" by (simp add: Let_def)
  moreover have "pushes_of i (a # ops) = pushes_of i [a] + pushes_of i ops" by (cases a) simp_all
  ultimately show ?case using budget_step [OF Cons.prems, of i a] by simp
qed simp

text \<open>From an empty queue every message that is queued once is tried at most six times.\<close>

lemma attempts_bounded: "pops_of i ops ([], None) \<le> 6 * pushes_of i ops"
proof -
  have "outbox_inv ([], None)" by (simp add: outbox_inv_def)
  from pops_bounded [OF this, of i ops] show ?thesis by (simp add: outbox_budget_def)
qed

section \<open>A pass of the worker\<close>

definition retry_due :: "u64 \<Rightarrow> queued_message \<Rightarrow> bool" where
  "retry_due now m \<longleftrightarrow> qm_status m = MsSending \<and> qm_next_retry_at m \<le> now"

lemma backoff_bounds: "1 \<le> unat a \<Longrightarrow> 2 \<le> unat (backoff_secs a) \<and> unat (backoff_secs a) \<le> 32"
proof -
  assume a: "1 \<le> unat a"
  have "unat (min a 5) \<in> {1, 2, 3, 4, 5}" using a by (auto simp: min_def word_le_nat_alt)
  then show ?thesis by (auto simp: backoff_secs_def min_def word_le_nat_alt)
qed

lemma retried_not_due:
  assumes "1 \<le> unat (qm_attempts m)" "unat now + 32 < 2 ^ 64" shows "\<not> retry_due now (retried now m)"
proof (cases "qm_attempts m \<ge> MAX_RETRY_ATTEMPTS")
  case False
  have "unat (now + backoff_secs (qm_attempts m)) = unat now + unat (backoff_secs (qm_attempts m))"
    using backoff_bounds [OF assms(1)] assms(2) by (simp add: unat_word_ariths take_bit_nat_eq_self)
  then show ?thesis using False backoff_bounds [OF assms(1)] by (simp add: retry_due_def retried_def word_le_nat_alt)
qed (simp add: retry_due_def retried_def)

definition attempted :: "queued_message \<Rightarrow> queued_message" where
  "attempted m = m\<lparr>qm_attempts := qm_attempts m + 1\<rparr>"

text \<open>A pass ends, tries each due message once in order, and puts them behind the others.\<close>

lemma outbox_pass_facts:
  assumes "\<forall>m \<in> set q. queued_ok m" "unat now + 32 < 2 ^ 64" "length (filter (retry_due now) q) < fuel"
  shows "outbox_pass fuel now q = Some (map attempted (filter (retry_due now) q),
    filter (\<lambda>m. \<not> retry_due now m) q @ map (\<lambda>m. retried now (attempted m)) (filter (retry_due now) q))"
  using assms
proof (induction fuel arbitrary: q)
  case (Suc fuel)
  obtain w q' where p: "pop_pending now q = (w, q')" by force
  note f = pop_pending_facts [OF p]
  show ?case
  proof (cases w)
    case None
    then have "filter (retry_due now) q = []" "filter (\<lambda>m. \<not> retry_due now m) q = q" "q' = q"
      using f by (auto simp: retry_due_def filter_empty_conv filter_id_conv)
    then show ?thesis using p None by simp
  next
    case (Some m)
    then obtain a x b where q: "q = a @ x # b" "q' = a @ b" "m = attempted x" "retry_due now x" "\<forall>y \<in> set a. \<not> retry_due now y"
      using f by (auto simp: retry_due_def attempted_def)
    then have a: "filter (retry_due now) a = []" "filter (\<lambda>m. \<not> retry_due now m) a = a" by (auto simp: filter_empty_conv filter_id_conv)
    have n: "unat (qm_attempts m) = Suc (unat (qm_attempts x))" "unat (qm_attempts x) \<le> 5" "qm_status m = MsSending"
      using Suc.prems(1) q by (auto simp: queued_ok_def retry_due_def attempted_def unat_inc32)
    let ?q = "a @ b @ [retried now m]"
    have nd: "\<not> retry_due now (retried now m)" by (rule retried_not_due) (use n Suc.prems(2) in simp_all)
    have "queued_ok (retried now m)" by (rule retried_ok) (use n in simp_all)
    then have ok: "\<forall>y \<in> set ?q. queued_ok y" using Suc.prems(1) q(1) by simp
    have len: "length (filter (retry_due now) ?q) < fuel" using Suc.prems(3) q(1,4) a nd by simp
    note IH = Suc.IH [OF ok Suc.prems(2) len]
    have "outbox_pass (Suc fuel) now q = (case outbox_pass fuel now ?q of
        None \<Rightarrow> None | Some (tried, q'') \<Rightarrow> Some (m # tried, q''))"
      using p Some q(2) by (simp add: schedule_retry_def)
    then show ?thesis using IH a nd q by simp
  qed
qed simp


text \<open>The receipt of a message that the worker has in its hands finds nothing to remove: the message is queued
  again, to be sent once more.\<close>

lemma receipt_in_flight_lost:
  assumes "pop_pending now q = (Some m, q')" "distinct (map qm_id q)"
  shows "queue_mark_delivered (qm_id m) q' = q' \<and>
    (\<exists>x \<in> set (schedule_retry m now (queue_mark_delivered (qm_id m) q')). qm_id x = qm_id m)"
proof -
  from pop_pending_facts [OF assms(1)] obtain a x b where q: "q = a @ x # b" "q' = a @ b" "qm_id m = qm_id x" by auto
  have "qm_id x \<notin> qm_id ` set (a @ b)" using assms(2) q(1) by auto
  then have "\<forall>y \<in> set q'. qm_id y \<noteq> qm_id m" unfolding q(2,3) by (metis imageI)
  then have "find_index (\<lambda>y. qm_id y = qm_id m) q' = None" unfolding find_index_None .
  then show ?thesis by (simp add: queue_mark_delivered_def schedule_retry_def retried_def)
qed

text \<open>A receipt that arrives between attempts stops the retries.\<close>

lemma mark_delivered_stops:
  assumes "distinct (map qm_id q)"
  shows "\<forall>x \<in> set (queue_mark_delivered i q). qm_id x \<noteq> i"
proof (cases "find_index (\<lambda>m. qm_id m = i) q")
  case None
  then have "queue_mark_delivered i q = q" by (simp add: queue_mark_delivered_def)
  then show ?thesis using None unfolding find_index_None by simp
next
  case (Some pos)
  note f = find_index_Some [OF Some]
  then show ?thesis using Some remove_at_key [OF assms, of pos] by (simp add: queue_mark_delivered_def)
qed

text \<open>A failed message keeps its place: when a hundred have failed, nothing is queued any more.\<close>

lemma failed_messages_block:
  assumes "length q \<ge> MAX_QUEUED_MESSAGES" shows "push_after now m r d q = q"
  using assms by (simp add: push_after_def)

lemma outbox_pass_keeps_failed:
  assumes "\<forall>m \<in> set q. qm_status m = MsFailed" shows "outbox_pass (Suc n) now q = Some ([], q)"
proof -
  have "find_index (\<lambda>m. qm_status m = MsSending \<and> qm_next_retry_at m \<le> now) q = None"
    using assms by (simp add: find_index_None)
  then show ?thesis by (simp add: pop_pending_def)
qed

text \<open>A full queue grows over its limit when a message is pushed while the worker has one in its hands.\<close>

lemma limit_overrun:
  assumes "length q = MAX_QUEUED_MESSAGES" "pop_pending now q = (Some x, q')" "\<forall>y \<in> set q. qm_id y \<noteq> sm_id m"
  shows "length (fst (fold outbox_step [OutPop now, OutPush now m r d, OutRetry now] (q, None))) = MAX_QUEUED_MESSAGES + 1"
proof -
  from pop_pending_facts [OF assms(2)] obtain a y b where q: "q = a @ y # b" "q' = a @ b" by auto
  then have "\<forall>y \<in> set q'. qm_id y \<noteq> sm_id m" "length q' = 99" using assms(1,3) by auto
  then show ?thesis using assms(2) by (simp add: push_after_def schedule_retry_def)
qed

text \<open>\<open>start\<close> queues each message once, all to be tried at once.\<close>

definition freshly_queued :: "u64 \<Rightarrow> message_queue \<Rightarrow> bool" where
  "freshly_queued now q \<longleftrightarrow> list_all (\<lambda>x. queued_ok x \<and> qm_attempts x = 0 \<and> retry_due now x \<and> \<not> sm_delivered (qm_message x)) q \<and>
     distinct (map qm_id q) \<and> length q \<le> 100"

lemma saturating_add64_0: "saturating_add64 now 0 = now"
proof -
  have "unat now < 2 ^ 64" using unsigned_less [of now] by simp
  then show ?thesis by (simp add: saturating_add64_def)
qed

lemma push_fresh:
  assumes "freshly_queued now q" "\<not> sm_delivered m" shows "freshly_queued now (queue_push now m r q)"
proof (cases "(\<exists>x \<in> set q. qm_id x = sm_id m) \<or> length q \<ge> 100")
  case True
  then have "queue_push now m r q = q" by (auto simp: queue_push_def push_after_def)
  then show ?thesis using assms(1) by simp
next
  case False
  then have p: "queue_push now m r q = q @ [\<lparr>qm_message = m, qm_recipient = r, qm_attempts = 0,
      qm_status = MsSending, qm_next_retry_at = now\<rparr>]" by (simp add: queue_push_def push_after_def saturating_add64_0)
  have "sm_id m \<notin> qm_id ` set q" using False by auto
  then show ?thesis unfolding p using assms False by (simp add: freshly_queued_def queued_ok_def retry_due_def)
qed

lemma restore_outbox_facts: "freshly_queued now (restore_outbox now me db)"
proof -
  have "freshly_queued now q \<Longrightarrow> list_all (\<lambda>m. \<not> sm_delivered m) ms \<Longrightarrow>
      freshly_queued now (fold (\<lambda>m. queue_push now m (sm_recipient m)) ms q)" for ms q
    by (induction ms arbitrary: q) (simp_all add: push_fresh)
  moreover have "freshly_queued now []" by (simp add: freshly_queued_def)
  ultimately show ?thesis unfolding restore_outbox_def by (simp add: list_all_iff)
qed

text \<open>Exactly the first hundred own messages that wait for delivery, in the order of the database.\<close>

definition waiting_messages :: "string \<Rightarrow> messenger_db \<Rightarrow> chat_message list" where
  "waiting_messages me db = filter (\<lambda>m. \<not> sm_incoming m \<and> \<not> sm_delivered m \<and> sm_recipient m \<noteq> SELF_SAVED \<and> sm_recipient m \<noteq> me) (db_messages db)"

definition fresh_entry :: "u64 \<Rightarrow> chat_message \<Rightarrow> queued_message" where
  "fresh_entry now m = \<lparr>qm_message = m, qm_recipient = sm_recipient m, qm_attempts = 0, qm_status = MsSending, qm_next_retry_at = now\<rparr>"

lemma push_all:
  assumes "distinct (map sm_id ms)" "\<forall>m \<in> set ms. \<forall>x \<in> set q. qm_id x \<noteq> sm_id m"
  shows "fold (\<lambda>m. queue_push now m (sm_recipient m)) ms q = q @ map (fresh_entry now) (take (MAX_QUEUED_MESSAGES - length q) ms)"
  using assms
proof (induction ms arbitrary: q)
  case (Cons m ms)
  show ?case
  proof (cases "length q \<ge> MAX_QUEUED_MESSAGES")
    case True
    then have "queue_push now m (sm_recipient m) q = q" by (simp add: queue_push_def push_after_def)
    then show ?thesis using Cons True by simp
  next
    case False
    then have p: "queue_push now m (sm_recipient m) q = q @ [fresh_entry now m]"
      using Cons.prems(2) by (simp add: queue_push_def push_after_def fresh_entry_def saturating_add64_0)
    have "\<forall>m' \<in> set ms. \<forall>x \<in> set (q @ [fresh_entry now m]). qm_id x \<noteq> sm_id m'" using Cons.prems by (auto simp: fresh_entry_def)
    from Cons.IH [OF _ this] have "fold (\<lambda>m. queue_push now m (sm_recipient m)) ms (q @ [fresh_entry now m]) =
        q @ fresh_entry now m # map (fresh_entry now) (take (MAX_QUEUED_MESSAGES - Suc (length q)) ms)" using Cons.prems(1) by simp
    moreover have "MAX_QUEUED_MESSAGES - length q = Suc (MAX_QUEUED_MESSAGES - Suc (length q))" using False by simp
    ultimately show ?thesis using p by simp
  qed
qed simp

lemma restore_outbox_exact:
  assumes "distinct (map sm_id (db_messages db))"
  shows "restore_outbox now me db = map (fresh_entry now) (take MAX_QUEUED_MESSAGES (waiting_messages me db))"
  using push_all [of "waiting_messages me db" "[]" now] assms
  by (simp add: restore_outbox_def waiting_messages_def distinct_map_filter)

end
