(* ===== verification/Attachments.thy ===== *)
theory Attachments
  imports Signed_Cards
begin

text \<open>
  File transfers (\<open>attachments.rs\<close>): cutting a file into encrypted chunks with a manifest, and putting it together
  again. Random values are arguments, CRC-32 and base64 are parameters. A nonce of the wrong length, a manifest
  with too few hashes and one with a size no vector can reserve make the code panic, which is the value \<open>Panic\<close>. The lemmas show that the file comes back
  whatever the order of the chunks, and that what is accepted has the hashes of the manifest.
\<close>

section \<open>Data\<close>

abbreviation MAX_MEDIA_FILE_BYTES :: nat where "MAX_MEDIA_FILE_BYTES \<equiv> 104857600"
abbreviation MEDIA_CHUNK_SIZE :: nat where "MEDIA_CHUNK_SIZE \<equiv> 32768"
abbreviation MAX_LEGACY_INLINE_BYTES :: nat where "MAX_LEGACY_INLINE_BYTES \<equiv> 24576"

record file_manifest =
  fm_file_id :: string
  fm_file_name :: string
  fm_file_size :: nat
  fm_mime_type :: string
  fm_sha256_root :: string
  fm_chunk_size :: nat
  fm_chunk_count :: nat
  fm_chunk_hashes :: "string list"
  fm_key_hex :: string
  fm_thumbnail :: "string option"

record media_chunk =
  mc_file_id :: string
  mc_index :: nat
  mc_count :: nat
  mc_nonce :: bytes
  mc_ciphertext :: bytes
  mc_checksum :: u32

datatype attachment_error = AttachmentTooLarge nat nat | ChunkEncryption | Incomplete nat nat | BadKeyHex | BadKeyLength
  | MissingChunk nat | ChecksumMismatch nat | ChunkDecrypt | HashMismatch nat | RootMismatch | Base64Error

text \<open>\<open>to_lowercase\<close> and \<open>ends_with\<close> as far as \<open>guess_mime_type\<close> can tell: no character outside ASCII has a lower
  case that ends in one of the suffixes.\<close>

definition ascii_lower :: "char \<Rightarrow> char" where
  "ascii_lower c = (let a = of_char c :: nat in if 65 \<le> a \<and> a \<le> 90 then char_of (a + 32) else c)"

definition ends_with :: "string \<Rightarrow> string \<Rightarrow> bool" where
  "ends_with s suf \<longleftrightarrow> length suf \<le> length s \<and> drop (length s - length suf) s = suf"

definition guess_mime_type :: "string \<Rightarrow> string" where
  "guess_mime_type name = (let lower = map ascii_lower name in
     if ends_with lower ''.png'' then ''image/png''
     else if ends_with lower ''.jpg'' \<or> ends_with lower ''.jpeg'' then ''image/jpeg''
     else if ends_with lower ''.gif'' then ''image/gif''
     else if ends_with lower ''.webp'' then ''image/webp''
     else if ends_with lower ''.pdf'' then ''application/pdf''
     else if ends_with lower ''.zip'' then ''application/zip''
     else ''application/octet-stream'')"

section \<open>Sending\<close>

definition media_file_id :: "u64 \<Rightarrow> nat \<Rightarrow> string" where
  "media_file_id r len = lower_hex (unat r) @ ''_'' @ decimal len"

definition media_chunk_new :: "crypto \<Rightarrow> (bytes \<Rightarrow> u32) \<Rightarrow> bytes \<Rightarrow> (nat \<Rightarrow> bytes) \<Rightarrow> string \<Rightarrow> nat \<Rightarrow> nat \<times> bytes \<Rightarrow> attachment_error + media_chunk" where
  "media_chunk_new C crc key nonces fid cnt p = (case p of (idx, part) \<Rightarrow>
     (case cr_seal C key (nonces idx) [] part of
        None \<Rightarrow> Err ChunkEncryption
      | Some ct \<Rightarrow> Ok \<lparr>mc_file_id = fid, mc_index = idx, mc_count = cnt, mc_nonce = nonces idx, mc_ciphertext = ct,
          mc_checksum = crc ct\<rparr>))"

definition create_file_transfer ::
    "crypto \<Rightarrow> (bytes \<Rightarrow> u32) \<Rightarrow> (bytes \<Rightarrow> string) \<Rightarrow> u64 \<Rightarrow> bytes \<Rightarrow> (nat \<Rightarrow> bytes) \<Rightarrow> string \<Rightarrow> bytes \<Rightarrow> bytes option \<Rightarrow>
     attachment_error + file_manifest \<times> media_chunk list" where
  "create_file_transfer C crc base64 r key nonces name raw thumb =
     (if length raw > MAX_MEDIA_FILE_BYTES then Err (AttachmentTooLarge (length raw) MAX_MEDIA_FILE_BYTES)
      else (let fid = media_file_id r (length raw);
                cnt = (length raw + (MEDIA_CHUNK_SIZE - 1)) div MEDIA_CHUNK_SIZE;
                slcs = slices MEDIA_CHUNK_SIZE raw in
        case res_map (media_chunk_new C crc key nonces fid cnt) (enumerate 0 slcs) of
          Inl e \<Rightarrow> Err e
        | Inr chunks \<Rightarrow> Ok
            (\<lparr>fm_file_id = fid, fm_file_name = name, fm_file_size = length raw, fm_mime_type = guess_mime_type name,
              fm_sha256_root = to_hex (cr_sha256 C raw), fm_chunk_size = MEDIA_CHUNK_SIZE, fm_chunk_count = cnt,
              fm_chunk_hashes = map (\<lambda>s. to_hex (cr_sha256 C s)) slcs, fm_key_hex = to_hex key,
              fm_thumbnail = map_option base64 thumb\<rparr>, chunks)))"

definition encode_attachment :: "(bytes \<Rightarrow> string) \<Rightarrow> string \<Rightarrow> bytes \<Rightarrow> attachment_error + string" where
  "encode_attachment base64 name raw =
     (if length raw > MAX_LEGACY_INLINE_BYTES then Err (AttachmentTooLarge (length raw) MAX_LEGACY_INLINE_BYTES)
      else Ok (base64 raw))"

definition decode_attachment :: "(string \<Rightarrow> bytes option) \<Rightarrow> string \<Rightarrow> attachment_error + bytes" where
  "decode_attachment unbase64 s = (case unbase64 s of None \<Rightarrow> Err Base64Error | Some b \<Rightarrow> Ok b)"

section \<open>Receiving\<close>

text \<open>The loop over the sorted chunks, from the expected index on.\<close>

fun assemble_chunks :: "crypto \<Rightarrow> (bytes \<Rightarrow> u32) \<Rightarrow> bytes \<Rightarrow> string list \<Rightarrow> nat \<Rightarrow> media_chunk list \<Rightarrow> bytes \<Rightarrow> (attachment_error + bytes) exec" where
  "assemble_chunks C crc key hashes i [] acc = Done (Ok acc)"
| "assemble_chunks C crc key hashes i (c # cs) acc =
     (if mc_index c \<noteq> i then Done (Err (MissingChunk i))
      else if crc (mc_ciphertext c) \<noteq> mc_checksum c then Done (Err (ChecksumMismatch (mc_index c)))
      else if length (mc_nonce c) \<noteq> 12 then Panic
      else (case cr_open C key (mc_nonce c) [] (mc_ciphertext c) of
          None \<Rightarrow> Done (Err ChunkDecrypt)
        | Some p \<Rightarrow>
            if i \<ge> length hashes then Panic
            else if to_hex (cr_sha256 C p) \<noteq> hashes ! i then Done (Err (HashMismatch i))
            else assemble_chunks C crc key hashes (i + 1) cs (acc @ p)))"

definition assemble_file_transfer :: "crypto \<Rightarrow> (bytes \<Rightarrow> u32) \<Rightarrow> file_manifest \<Rightarrow> media_chunk list \<Rightarrow> (attachment_error + bytes) exec" where
  "assemble_file_transfer C crc m chunks =
     (if length chunks \<noteq> fm_chunk_count m then Done (Err (Incomplete (length chunks) (fm_chunk_count m)))
      else exec_bind (attachment_hex_decode (fm_key_hex m)) (\<lambda>k. case k of
          None \<Rightarrow> Done (Err BadKeyHex)
        | Some key \<Rightarrow>
            if length key \<noteq> 32 then Done (Err BadKeyLength)
            else if fm_file_size m \<ge> 2 ^ 63 then Panic
            else exec_bind (assemble_chunks C crc key (fm_chunk_hashes m) 0 (sort_key mc_index chunks) []) (\<lambda>r. case r of
                Inl e \<Rightarrow> Done (Err e)
              | Inr bs \<Rightarrow> if to_hex (cr_sha256 C bs) \<noteq> fm_sha256_root m then Done (Err RootMismatch) else Done (Ok bs))))"

section \<open>The file comes back\<close>

text \<open>The chunks of some slices from an index on.\<close>

definition chunks_of :: "crypto \<Rightarrow> (bytes \<Rightarrow> u32) \<Rightarrow> bytes \<Rightarrow> nat \<Rightarrow> bytes list \<Rightarrow> media_chunk list \<Rightarrow> bool" where
  "chunks_of C crc key i slcs cs \<longleftrightarrow> list_all2 (\<lambda>(j, s) c. mc_index c = j \<and> length (mc_nonce c) = 12 \<and> crc (mc_ciphertext c) = mc_checksum c \<and>
     cr_open C key (mc_nonce c) [] (mc_ciphertext c) = Some s) (enumerate i slcs) cs"

lemma chunks_of_simps [simp]:
  "chunks_of C crc key i [] cs \<longleftrightarrow> cs = []"
  "chunks_of C crc key i (s # ss) cs \<longleftrightarrow> (\<exists>c cs'. cs = c # cs' \<and> mc_index c = i \<and> length (mc_nonce c) = 12 \<and>
     crc (mc_ciphertext c) = mc_checksum c \<and> cr_open C key (mc_nonce c) [] (mc_ciphertext c) = Some s \<and> chunks_of C crc key (Suc i) ss cs')"
  by (auto simp: chunks_of_def list_all2_Cons1)

lemma created_chunks:
  assumes "crypto_ok C" "\<forall>i. length (nonces i) = 12"
  shows "res_map (media_chunk_new C crc key nonces fid n) (enumerate i slcs) = Inr cs \<Longrightarrow> chunks_of C crc key i slcs cs"
proof (induction slcs arbitrary: i cs)
  case (Cons s slcs)
  then obtain c cs' where c: "media_chunk_new C crc key nonces fid n (i, s) = Inr c"
    "res_map (media_chunk_new C crc key nonces fid n) (enumerate (Suc i) slcs) = Inr cs'" "cs = c # cs'"
    by (auto split: sum.splits)
  then obtain ct where ct: "cr_seal C key (nonces i) [] s = Some ct" by (auto simp: media_chunk_new_def split: option.splits)
  then show ?case using c Cons.IH [OF c(2)] seal_open [OF assms(1) ct] assms(2) by (auto simp: media_chunk_new_def)
qed simp

lemma assemble_chunks_ok:
  assumes "chunks_of C crc key i slcs cs" "\<forall>j < length slcs. i + j < length hashes \<and> hashes ! (i + j) = to_hex (cr_sha256 C (slcs ! j))"
  shows "assemble_chunks C crc key hashes i cs acc = Done (Ok (acc @ concat slcs))"
  using assms
proof (induction slcs arbitrary: i cs acc)
  case (Cons s slcs)
  then obtain c cs' where c: "cs = c # cs'" "mc_index c = i" "length (mc_nonce c) = 12" "crc (mc_ciphertext c) = mc_checksum c"
    "cr_open C key (mc_nonce c) [] (mc_ciphertext c) = Some s" "chunks_of C crc key (Suc i) slcs cs'" by auto
  have h: "i < length hashes" "hashes ! i = to_hex (cr_sha256 C s)" using Cons.prems(2) by (auto dest: spec [of _ 0])
  have "\<forall>j < length slcs. Suc i + j < length hashes \<and> hashes ! (Suc i + j) = to_hex (cr_sha256 C (slcs ! j))"
    using Cons.prems(2) by (auto dest: spec [of _ "Suc j" for j])
  from Cons.IH [OF c(6) this, of "acc @ s"] show ?case using c h by simp
qed simp

lemma chunks_of_indices: "chunks_of C crc key i slcs cs \<Longrightarrow> map mc_index cs = [i..<i + length slcs]"
proof (induction slcs arbitrary: i cs)
  case (Cons s slcs)
  then obtain c cs' where "cs = c # cs'" "mc_index c = i" "map mc_index cs' = [Suc i..<Suc i + length slcs]" by auto
  then have "map mc_index cs = i # [Suc i..<i + Suc (length slcs)]" by simp
  also have "\<dots> = [i..<i + length (s # slcs)]" by (subst (2) upt_conv_Cons) simp_all
  finally show ?case .
qed simp

lemma sort_permuted:
  assumes "sorted (map f xs)" "distinct (map f xs)" "mset ys = mset xs" shows "sort_key f ys = xs"
proof -
  have s: "set ys = set xs" "mset (map f ys) = mset (map f xs)" using assms(3) by (metis mset_eq_setD, simp)
  have "distinct (map f (sort_key f ys))" using s(2) assms(2) by (metis mset_eq_imp_distinct_iff mset_map mset_sort)
  then show ?thesis using assms(1,2) s(1)
    by (intro map_sorted_distinct_set_unique [of f]) (auto simp: distinct_map)
qed

lemma file_transfer_roundtrip:
  assumes "crypto_ok C" "\<forall>i. length (nonces i) = 12" "length key = 32"
    "create_file_transfer C crc b64 r key nonces name raw thumb = Ok (m, cs)" "mset cs' = mset cs"
  shows "assemble_file_transfer C crc m cs' = Done (Ok raw)"
proof -
  let ?s = "slices MEDIA_CHUNK_SIZE raw"
  have cs: "res_map (media_chunk_new C crc key nonces (media_file_id r (length raw)) (fm_chunk_count m)) (enumerate 0 ?s) = Inr cs"
    "fm_chunk_count m = (length raw + (MEDIA_CHUNK_SIZE - 1)) div MEDIA_CHUNK_SIZE" "fm_key_hex m = to_hex key"
    "fm_chunk_hashes m = map (\<lambda>s. to_hex (cr_sha256 C s)) ?s" "fm_sha256_root m = to_hex (cr_sha256 C raw)"
    "fm_file_size m < 2 ^ 63"
    using assms(4) by (auto simp: create_file_transfer_def Let_def split: if_splits sum.splits)
  note ch = created_chunks [OF assms(1,2) cs(1)]
  have i: "map mc_index cs = [0..<length ?s]" using chunks_of_indices [OF ch] by simp
  have sorted: "sort_key mc_index cs' = cs" by (rule sort_permuted [OF _ _ assms(5)]) (simp_all add: i)
  have n: "length ?s = fm_chunk_count m" unfolding cs(2) by (rule length_slices) simp
  have l: "length cs' = fm_chunk_count m"
    using arg_cong [OF i, of length] n assms(5) by (metis length_map length_upt minus_nat.diff_0 size_mset)
  have "assemble_chunks C crc key (fm_chunk_hashes m) 0 cs [] = Done (Ok ([] @ concat ?s))"
    by (rule assemble_chunks_ok [OF ch]) (simp add: cs(4))
  then show ?thesis using l sorted cs(3,5,6) assms(3) concat_slices [of MEDIA_CHUNK_SIZE raw]
    by (simp add: assemble_file_transfer_def attachment_hex_to_hex)
qed

section \<open>What is accepted\<close>

lemma assemble_chunks_sound:
  "assemble_chunks C crc key hashes i cs acc = Done (Ok bs) \<Longrightarrow>
   \<exists>ps. bs = acc @ concat ps \<and> length ps = length cs \<and> (\<forall>j < length ps. i + j < length hashes \<and> to_hex (cr_sha256 C (ps ! j)) = hashes ! (i + j))"
proof (induction C crc key hashes i cs acc rule: assemble_chunks.induct)
  case (2 C crc key hashes i c cs acc)
  from "2.prems" obtain p where p: "cr_open C key (mc_nonce c) [] (mc_ciphertext c) = Some p" "i < length hashes"
    "to_hex (cr_sha256 C p) = hashes ! i" "assemble_chunks C crc key hashes (i + 1) cs (acc @ p) = Done (Ok bs)"
    "mc_index c = i" "crc (mc_ciphertext c) = mc_checksum c" "length (mc_nonce c) = 12"
    by (auto split: if_splits option.splits)
  from "2.IH" p obtain ps where ps: "bs = (acc @ p) @ concat ps" "length ps = length cs"
    "\<forall>j < length ps. (i + 1) + j < length hashes \<and> to_hex (cr_sha256 C (ps ! j)) = hashes ! ((i + 1) + j)"
    by (metis not_le)
  have "\<forall>j < length (p # ps). i + j < length hashes \<and> to_hex (cr_sha256 C ((p # ps) ! j)) = hashes ! (i + j)"
    using ps(3) p(2,3) by (auto simp: nth_Cons split: nat.split)
  then show ?case using ps(1,2) by (intro exI [of _ "p # ps"]) simp
qed simp

lemma file_transfer_sound:
  assumes "assemble_file_transfer C crc m cs = Done (Ok bs)"
  shows "to_hex (cr_sha256 C bs) = fm_sha256_root m \<and> length cs = fm_chunk_count m \<and>
    (\<exists>ps. bs = concat ps \<and> length ps = fm_chunk_count m \<and>
      (\<forall>j < length ps. j < length (fm_chunk_hashes m) \<and> to_hex (cr_sha256 C (ps ! j)) = fm_chunk_hashes m ! j))"
proof -
  obtain key where k: "assemble_chunks C crc key (fm_chunk_hashes m) 0 (sort_key mc_index cs) [] = Done (Ok bs)"
    "to_hex (cr_sha256 C bs) = fm_sha256_root m" "length cs = fm_chunk_count m"
    using assms by (auto simp: assemble_file_transfer_def exec_bind_def split: if_splits exec.splits option.splits sum.splits)
  from assemble_chunks_sound [OF k(1)] k(2,3) show ?thesis by auto
qed

text \<open>A chunk with a short nonce stops the program, whoever sent it.\<close>

lemma short_nonce_panics:
  assumes "fm_key_hex m = to_hex key" "length key = 32" "fm_chunk_count m = 1" "fm_file_size m < 2 ^ 63" "mc_index c = 0" "crc (mc_ciphertext c) = mc_checksum c"
    "length (mc_nonce c) \<noteq> 12"
  shows "assemble_file_transfer C crc m [c] = Panic"
  using assms by (simp add: assemble_file_transfer_def attachment_hex_to_hex)

lemma attachment_inline:
  "(\<forall>b. unb (b64 b) = Some b) \<Longrightarrow> encode_attachment b64 name raw = Ok s \<Longrightarrow> decode_attachment unb s = Ok raw"
  by (auto simp: encode_attachment_def decode_attachment_def split: if_splits)

end
