(* ===== verification/Inbox.thy ===== *)
theory Inbox
  imports Peer_Directory Outbox Attachments
begin

text \<open>
  The receiving side of the messenger (\<open>messenger.rs\<close>: \<open>ChatMessagePayload\<close>, \<open>SignedTombstone\<close> and the second task of
  \<open>start_inbox_polling_task\<close>): which mailboxes are polled, how an envelope passes the gate (recipient, own echo, block
  list, decryption, replay cache), and what each kind of payload does to the database, the outbox and the listener.
  The answers of the network, the clock and JSON are arguments; the writing of the database file after a change is in
  \<open>Db_File\<close>.

  The lemmas show that only accepted envelopes change anything, that the database stays well formed, that edits,
  deletions and reactions are limited to their author and the participants, and that plain messages are not.
\<close>

section \<open>Payloads\<close>

record tombstone =
  tb_recipient :: string
  tb_timestamp :: u64
  tb_deleted :: "string list"
  tb_signature :: bytes

record chat_payload =
  cp_id :: string
  cp_text :: string
  cp_image :: "string option"
  cp_voice :: "voice_note option"
  cp_manifest :: "file_manifest option"
  cp_delivery :: "delivery_receipt option"
  cp_read :: "read_receipt option"
  cp_reaction :: "message_reaction option"
  cp_reply_to :: "string option"
  cp_reply_snippet :: "string option"
  cp_is_edited :: bool
  cp_edit_timestamp :: "u64 option"
  cp_group_id :: "string option"
  cp_call_signal :: "call_signal option"
  cp_call_audio :: "call_audio_chunk option"
  cp_delete_ids :: "string list option"
  cp_tombstone :: "tombstone option"

definition empty_payload :: chat_payload where
  "empty_payload = \<lparr>cp_id = [], cp_text = [], cp_image = None, cp_voice = None, cp_manifest = None, cp_delivery = None, cp_read = None,
     cp_reaction = None, cp_reply_to = None, cp_reply_snippet = None, cp_is_edited = False, cp_edit_timestamp = None, cp_group_id = None,
     cp_call_signal = None, cp_call_audio = None, cp_delete_ids = None, cp_tombstone = None\<rparr>"

text \<open>JSON: payloads, the signed part of a tombstone, one envelope, and lists of envelopes.\<close>

record msg_json =
  mj_write :: "chat_payload \<Rightarrow> bytes option"
  mj_read :: "bytes \<Rightarrow> chat_payload option"
  mj_tombstone :: "string \<Rightarrow> u64 \<Rightarrow> string list \<Rightarrow> bytes"
  mj_list :: "bytes \<Rightarrow> envelope list option"
  mj_single :: "bytes \<Rightarrow> envelope option"
  mj_write_list :: "envelope list \<Rightarrow> bytes option"

definition tombstone_bytes :: "msg_json \<Rightarrow> tombstone \<Rightarrow> bytes" where
  "tombstone_bytes J tb = mj_tombstone J (tb_recipient tb) (tb_timestamp tb) (tb_deleted tb)"

definition parse_mailbox :: "msg_json \<Rightarrow> bytes \<Rightarrow> envelope list" where
  "parse_mailbox J b = (case mj_list J b of
      Some l \<Rightarrow> l
    | None \<Rightarrow> (case mj_single J b of Some e \<Rightarrow> [e] | None \<Rightarrow> []))"

definition payload_of :: "msg_json \<Rightarrow> bytes \<Rightarrow> chat_payload" where
  "payload_of J plain = (case mj_read J plain of
      Some p \<Rightarrow> p
    | None \<Rightarrow> empty_payload\<lparr>cp_text := text_of plain\<rparr>)"

datatype messenger_event = EvContacts "saved_contact list" | EvMessage chat_message | EvDelivered string string
  | EvDeleted string "string list" | EvEdited string string | EvReaction string string string | EvCall call_signal
  | EvCallAudio string call_audio_chunk

section \<open>Which mailboxes\<close>

definition polling_keys :: "crypto \<Rightarrow> string \<Rightarrow> u64 \<Rightarrow> u64 \<Rightarrow> string list" where
  "polling_keys C me tick now =
     [derive_secure_mailbox_key C me now] @
     (if tick mod 10 = 0 then [derive_secure_mailbox_key C me (saturating_sub64 now 86400)] else []) @
     (if tick mod 60 = 0 then
        map (\<lambda>d. derive_secure_mailbox_key C me (saturating_sub64 now (d * 86400))) [2, 3, 4, 5, 6] @
        [derive_secure_mailbox_key C me (now + 86400)]
      else if now mod 86400 \<ge> 82800 \<and> tick mod 10 = 0 then [derive_secure_mailbox_key C me (now + 86400)] else [])"

text \<open>What the network answers for each key, and the record under the own identifier, which is taken out of the store.\<close>

definition fetch_batches :: "msg_json \<Rightarrow> (string \<times> bytes option) list \<Rightarrow> bytes option \<Rightarrow> (string option \<times> envelope list) list" where
  "fetch_batches J fetched direct =
     concat (map (\<lambda>(k, r). case r of Some b \<Rightarrow> [(Some k, parse_mailbox J b)] | None \<Rightarrow> []) fetched) @
     (case direct of
        Some b \<Rightarrow> if parse_mailbox J b \<noteq> [] then [(None, parse_mailbox J b)] else []
      | None \<Rightarrow> [])"

section \<open>The gate\<close>

record inbox_state =
  ib_db :: messenger_db
  ib_queue :: message_queue
  ib_cache :: replay_cache
  ib_table :: routing_table

text \<open>The answers for one envelope: the two times that the clock is read, the monotonic time, and what the network gives
  for the presence card of the sender.\<close>

record envelope_io =
  ei_now :: u64
  ei_later :: u64
  ei_instant :: instant
  ei_found :: "bytes option option"

datatype gate = Foreign | Dropped | Opened chat_payload

definition replay_key :: "envelope \<Rightarrow> bytes" where
  "replay_key e = (if en_signature e \<noteq> [] then en_signature e else if en_nonce e \<noteq> [] then en_nonce e else en_ciphertext e)"

abbreviation sender_hex :: "envelope \<Rightarrow> string" where "sender_hex e \<equiv> id_to_hex (en_sender_id e)"

definition envelope_gate :: "crypto \<Rightarrow> msg_json \<Rightarrow> u64 \<Rightarrow> user_identity \<Rightarrow> envelope \<Rightarrow> inbox_state \<Rightarrow> gate \<times> inbox_state" where
  "envelope_gate C J now me e s =
     (if en_recipient_id e \<noteq> ui_user_id me then (Foreign, s)
      else if en_sender_id e = ui_user_id me \<and> list_ex (\<lambda>m. sm_timestamp m = en_timestamp e) (db_messages (ib_db s)) then (Dropped, s)
      else if db_is_blocked (sender_hex e) (ib_db s) then (Dropped, s)
      else (case decrypt_envelope C me e of
          Inl _ \<Rightarrow> (Dropped, s)
        | Inr plain \<Rightarrow>
            (let (fresh, cache) = check_and_insert C (replay_key e) (en_timestamp e) now (ib_cache s); s' = s\<lparr>ib_cache := cache\<rparr> in
             if fresh then (Opened (payload_of J plain), s') else (Dropped, s'))))"

section \<open>One kind of payload after the other\<close>

text \<open>A handler gives the new state and the events, or nothing when the code falls through to the next one.\<close>

type_synonym handled = "(inbox_state \<times> messenger_event list) option"

definition handle_delivery :: "crypto \<Rightarrow> envelope \<Rightarrow> chat_payload \<Rightarrow> inbox_state \<Rightarrow> handled" where
  "handle_delivery C e p s = (case cp_delivery p of
      None \<Rightarrow> None
    | Some r \<Rightarrow>
        if \<not> delivery_receipt_verify C (en_ed25519_pub e) r then None
        else if list_ex (\<lambda>m. sm_id m = dv_message_id r \<and> sm_recipient m = sender_hex e \<and> \<not> sm_incoming m) (db_messages (ib_db s))
        then Some (s\<lparr>ib_db := mark_message_delivered (dv_message_id r) (ib_db s), ib_queue := queue_mark_delivered (dv_message_id r) (ib_queue s)\<rparr>,
          [EvDelivered (dv_message_id r) (sender_hex e)])
        else Some (s, []))"

definition handle_read :: "crypto \<Rightarrow> envelope \<Rightarrow> chat_payload \<Rightarrow> inbox_state \<Rightarrow> handled" where
  "handle_read C e p s = (case cp_read p of
      None \<Rightarrow> None
    | Some r \<Rightarrow> if read_receipt_verify C (en_ed25519_pub e) r then Some (s, []) else None)"

definition handle_tombstone :: "crypto \<Rightarrow> msg_json \<Rightarrow> user_identity \<Rightarrow> envelope \<Rightarrow> chat_payload \<Rightarrow> inbox_state \<Rightarrow> handled" where
  "handle_tombstone C J me e p s = (case cp_tombstone p of
      None \<Rightarrow> None
    | Some tb \<Rightarrow>
        if tb_recipient tb = user_id_hex me \<and> identity_verify C (en_ed25519_pub e) (tombstone_bytes J tb) (tb_signature tb) then
          (let (deleted, db) = delete_messages_by_author (tb_deleted tb) (sender_hex e) (ib_db s);
               db = register_pending_tombstones (sender_hex e) (tb_deleted tb) db in
           Some (s\<lparr>ib_db := db\<rparr>, if deleted = [] then [] else [EvDeleted (sender_hex e) deleted]))
        else None)"

definition handle_call_signal :: "u64 \<Rightarrow> user_identity \<Rightarrow> envelope \<Rightarrow> chat_payload \<Rightarrow> inbox_state \<Rightarrow> handled" where
  "handle_call_signal now me e p s = (case cp_call_signal p of
      None \<Rightarrow> None
    | Some c \<Rightarrow>
        if cs_caller c \<noteq> sender_hex e \<or> cs_callee c \<noteq> user_id_hex me then Some (s, [])
        else if abs_diff64 now (cs_timestamp c) > 45 then Some (s, [])
        else Some (s, [EvCall c]))"

definition handle_call_audio :: "user_identity \<Rightarrow> envelope \<Rightarrow> chat_payload \<Rightarrow> inbox_state \<Rightarrow> handled" where
  "handle_call_audio me e p s = (case cp_call_audio p of
      None \<Rightarrow> None
    | Some a \<Rightarrow>
        if en_recipient_id e \<noteq> ui_user_id me \<or> ca_call_id a = [] \<or> length (ca_pcm_base64 a) > 16384 \<or> \<not> rate_ok (ca_sample_rate a)
        then Some (s, []) else Some (s, [EvCallAudio (sender_hex e) a]))"

definition is_participant :: "string \<Rightarrow> string \<Rightarrow> messenger_db \<Rightarrow> bool" where
  "is_participant u i db \<longleftrightarrow> list_ex (\<lambda>m. sm_id m = i \<and> (sm_sender m = u \<or> sm_recipient m = u \<or>
     (case sm_group_id m of
        None \<Rightarrow> False
      | Some g \<Rightarrow> (case map_of (db_groups db) g of None \<Rightarrow> False | Some grp \<Rightarrow> map_of (pg_members grp) u \<noteq> None)))) (db_messages db)"

definition handle_reaction :: "envelope \<Rightarrow> chat_payload \<Rightarrow> inbox_state \<Rightarrow> handled" where
  "handle_reaction e p s = (case cp_reaction p of
      None \<Rightarrow> None
    | Some r \<Rightarrow>
        if \<not> is_valid_emoji r then None
        else if is_participant (sender_hex e) (mr_message_id r) (ib_db s) then
          Some (s\<lparr>ib_db := snd (add_reaction (mr_message_id r) (mr_emoji r) (sender_hex e) (ib_db s))\<rparr>,
            [EvReaction (mr_message_id r) (mr_emoji r) (sender_hex e)])
        else Some (s, []))"

definition handle_edit :: "u64 \<Rightarrow> envelope \<Rightarrow> chat_payload \<Rightarrow> inbox_state \<Rightarrow> handled" where
  "handle_edit now e p s =
     (if cp_is_edited p \<and> cp_id p \<noteq> [] then
        (let ts = (case cp_edit_timestamp p of Some ts \<Rightarrow> ts | None \<Rightarrow> now);
             (ok, db) = edit_message_by_author (cp_id p) (cp_text p) ts (sender_hex e) (ib_db s) in
         if ok then Some (s\<lparr>ib_db := db\<rparr>, [EvEdited (cp_id p) (cp_text p)]) else Some (s, []))
      else None)"

section \<open>Plain messages\<close>

definition incoming_id :: "envelope \<Rightarrow> chat_payload \<Rightarrow> string" where
  "incoming_id e p = (if cp_id p \<noteq> [] then cp_id p else decimal (unat (en_timestamp e)) @ ''_'' @ sender_hex e)"

definition incoming_message :: "user_identity \<Rightarrow> envelope \<Rightarrow> chat_payload \<Rightarrow> chat_message" where
  "incoming_message me e p = \<lparr>sm_id = incoming_id e p, sm_sender = sender_hex e, sm_recipient = user_id_hex me, sm_text = cp_text p,
     sm_image = cp_image p, sm_voice = cp_voice p, sm_reply_to = cp_reply_to p, sm_reply_snippet = cp_reply_snippet p,
     sm_is_edited = False, sm_edit_timestamp = None, sm_reactions = [], sm_group_id = cp_group_id p, sm_is_pinned = False,
     sm_expires_at = None, sm_timestamp = en_timestamp e, sm_incoming = True, sm_delivered = True\<rparr>"

text \<open>The sender becomes a contact, under the keys of the envelope.\<close>

definition ensure_contact ::
    "crypto \<Rightarrow> card_json \<Rightarrow> (socket_addr \<Rightarrow> string) \<Rightarrow> envelope_io \<Rightarrow> envelope \<Rightarrow> inbox_state \<Rightarrow> inbox_state" where
  "ensure_contact C CJ show_addr io e s =
     (if map_of (db_contacts (ib_db s)) (sender_hex e) \<noteq> None then s
      else (case discover_peer C CJ show_addr (ei_instant io) (ei_found io) (ib_db s) (ib_table s) of
          (r, db, rt) \<Rightarrow>
            (let (name, bio) = (case r of Inr crd \<Rightarrow> (pc_display_name crd, pc_bio crd) | Inl _ \<Rightarrow> (''Peer_'' @ take 6 (sender_hex e), [])) in
             s\<lparr>ib_db := db_add_contact \<lparr>sc_user_id = sender_hex e, sc_name = name, sc_bio = bio,
                  sc_ed25519_pub_hex = hex_string (en_ed25519_pub e), sc_x25519_pub_hex = hex_string (en_x25519_pub e),
                  sc_last_seen_addr = ''unknown''\<rparr> db, ib_table := rt\<rparr>)))"

text \<open>Storing, the events, and the receipt that is sent back (to whom, for which message).\<close>

definition store_incoming ::
    "crypto \<Rightarrow> card_json \<Rightarrow> (socket_addr \<Rightarrow> string) \<Rightarrow> envelope_io \<Rightarrow> user_identity \<Rightarrow> envelope \<Rightarrow> chat_payload \<Rightarrow> inbox_state \<Rightarrow>
     inbox_state \<times> messenger_event list \<times> (string \<times> string) option" where
  "store_incoming C CJ show_addr io me e p s =
     (let m = incoming_message me e p; s1 = ensure_contact C CJ show_addr io e s; db = ib_db s1 in
      if is_tombstoned (sender_hex e) (sm_id m) db then (s1, [], None)
      else (let db' = add_message m db in
        (s1\<lparr>ib_db := db'\<rparr>,
         if length (db_messages db') > length (db_messages db) then [EvContacts (map snd (db_contacts db')), EvMessage m] else [],
         Some (sender_hex e, sm_id m))))"

section \<open>One envelope\<close>

definition handle_payload ::
    "crypto \<Rightarrow> card_json \<Rightarrow> msg_json \<Rightarrow> (socket_addr \<Rightarrow> string) \<Rightarrow> envelope_io \<Rightarrow> user_identity \<Rightarrow> envelope \<Rightarrow> chat_payload \<Rightarrow> inbox_state \<Rightarrow>
     inbox_state \<times> messenger_event list \<times> (string \<times> string) option" where
  "handle_payload C CJ J show_addr io me e p s =
     (let done = (\<lambda>r. (fst r, snd r, None)) in
      case handle_delivery C e p s of Some r \<Rightarrow> done r | None \<Rightarrow>
     (case handle_read C e p s of Some r \<Rightarrow> done r | None \<Rightarrow>
     (case handle_tombstone C J me e p s of Some r \<Rightarrow> done r | None \<Rightarrow>
     (case handle_call_signal (ei_later io) me e p s of Some r \<Rightarrow> done r | None \<Rightarrow>
     (case handle_call_audio me e p s of Some r \<Rightarrow> done r | None \<Rightarrow>
     (case handle_reaction e p s of Some r \<Rightarrow> done r | None \<Rightarrow>
     (case handle_edit (ei_later io) e p s of Some r \<Rightarrow> done r | None \<Rightarrow>
      store_incoming C CJ show_addr io me e p s)))))))"

definition process_envelope ::
    "crypto \<Rightarrow> card_json \<Rightarrow> msg_json \<Rightarrow> (socket_addr \<Rightarrow> string) \<Rightarrow> envelope_io \<Rightarrow> user_identity \<Rightarrow> envelope \<Rightarrow> inbox_state \<Rightarrow>
     gate \<times> inbox_state \<times> messenger_event list \<times> (string \<times> string) option" where
  "process_envelope C CJ J show_addr io me e s = (case envelope_gate C J (ei_now io) me e s of
      (Opened p, s') \<Rightarrow> (Opened p, handle_payload C CJ J show_addr io me e p s')
    | (g, s') \<Rightarrow> (g, s', [], None))"

text \<open>A batch from one mailbox: what is not for this user is kept.\<close>

fun process_batch ::
    "crypto \<Rightarrow> card_json \<Rightarrow> msg_json \<Rightarrow> (socket_addr \<Rightarrow> string) \<Rightarrow> user_identity \<Rightarrow> (envelope_io \<times> envelope) list \<Rightarrow> inbox_state \<Rightarrow>
     envelope list \<times> inbox_state \<times> messenger_event list \<times> (string \<times> string) list" where
  "process_batch C CJ J show_addr me [] s = ([], s, [], [])"
| "process_batch C CJ J show_addr me ((io, e) # es) s =
     (let (g, s1, ev, ack) = process_envelope C CJ J show_addr io me e s;
          (rest, s2, evs, acks) = process_batch C CJ J show_addr me es s1 in
      ((if g = Foreign then [e] else []) @ rest, s2, ev @ evs, (case ack of Some a \<Rightarrow> [a] | None \<Rightarrow> []) @ acks))"

text \<open>What happens to the mailbox: nothing to the direct record, which is gone already.\<close>

datatype drain = DrainNothing | DrainRemove node_id | DrainPut string bytes

definition drain_mailbox :: "crypto \<Rightarrow> msg_json \<Rightarrow> string option \<Rightarrow> envelope list \<Rightarrow> drain" where
  "drain_mailbox C J key unconsumed = (case key of
      None \<Rightarrow> DrainNothing
    | Some k \<Rightarrow>
        if unconsumed = [] then DrainRemove (from_key (cr_sha1 C) (str_bytes k))
        else DrainPut k (case mj_write_list J unconsumed of Some b \<Rightarrow> b | None \<Rightarrow> []))"

section \<open>The gate lets in what was accepted\<close>

lemma gate_opened:
  assumes "envelope_gate C J now me e s = (Opened p, s')"
  shows "en_recipient_id e = ui_user_id me \<and> \<not> db_is_blocked (sender_hex e) (ib_db s) \<and>
    (\<exists>plain. decrypt_envelope C me e = Ok plain \<and> p = payload_of J plain) \<and>
    (\<exists>cache. check_and_insert C (replay_key e) (en_timestamp e) now (ib_cache s) = (True, cache) \<and> s' = s\<lparr>ib_cache := cache\<rparr>)"
  using assms by (auto simp: envelope_gate_def Let_def split: if_splits sum.splits prod.splits)

lemma gate_frame:
  assumes "envelope_gate C J now me e s = (g, s')"
  shows "ib_db s' = ib_db s \<and> ib_queue s' = ib_queue s \<and> ib_table s' = ib_table s \<and>
    (ib_cache s' = ib_cache s \<or> ib_cache s' = snd (check_and_insert C (replay_key e) (en_timestamp e) now (ib_cache s)))"
  using assms by (auto simp: envelope_gate_def Let_def split: if_splits sum.splits prod.splits)

text \<open>An envelope that is not let in leaves database, outbox and routing table alone, is not told to the listener and not
  acknowledged.\<close>

lemma refused_no_effect:
  assumes "process_envelope C CJ J show_addr io me e s = (g, s', ev, ack)" "\<forall>p. g \<noteq> Opened p"
  shows "ib_db s' = ib_db s \<and> ib_queue s' = ib_queue s \<and> ib_table s' = ib_table s \<and> ev = [] \<and> ack = None"
  using assms gate_frame [of C J "ei_now io" me e s] by (auto simp: process_envelope_def split: prod.splits gate.splits)

section \<open>The database changes by its operations, without the wipe\<close>

definition db_reaches :: "messenger_db \<Rightarrow> messenger_db \<Rightarrow> bool" where
  "db_reaches db db' \<longleftrightarrow> (\<exists>ops. list_all db_op_ok ops \<and> DbWipe \<notin> set ops \<and> db' = fold db_step ops db)"

lemma db_reaches_refl [simp, intro]: "db_reaches db db"
  by (auto simp: db_reaches_def intro: exI [of _ "[]"])

lemma db_reaches_step [intro]: "db_op_ok a \<Longrightarrow> a \<noteq> DbWipe \<Longrightarrow> db_reaches db (db_step a db)"
  by (auto simp: db_reaches_def intro: exI [of _ "[a]"])

lemma db_reaches_trans: "db_reaches a b \<Longrightarrow> db_reaches b c \<Longrightarrow> db_reaches a c"
  unfolding db_reaches_def by (metis fold_append list_all_append comp_apply set_append UnE)

lemma db_reaches_inv: "db_reaches db db' \<Longrightarrow> db_inv db \<Longrightarrow> db_inv db'"
  unfolding db_reaches_def using db_sys.run_inv by blast

lemma db_reaches_deleted:
  assumes "db_reaches db db'" "db_inv db" "i \<in> set (db_deleted db)" shows "find_message i db' = None"
  using assms deleted_stays_deleted by (auto simp: db_reaches_def)

lemma db_reaches_keeps_deleted: "db_reaches db db' \<Longrightarrow> set (db_deleted db) \<subseteq> set (db_deleted db')"
  unfolding db_reaches_def using db_run_deleted by blast

lemma reaches_ops:
  "db_reaches db (mark_message_delivered i db)" "db_reaches db (snd (add_reaction i em r db))" "db_reaches db (db_add_contact c db)"
  "db_reaches db (snd (delete_messages_by_author ids u db))" "db_reaches db (register_pending_tombstones u ids db)"
  "db_reaches db (snd (edit_message_by_author i x ts u db))"
  "reactions_ok (sm_reactions m) \<Longrightarrow> db_reaches db (add_message m db)"
  using db_reaches_step [of "DbDelivered i" db] db_reaches_step [of "DbReact i em r" db] db_reaches_step [of "DbAddContact c" db]
    db_reaches_step [of "DbDeleteBy ids u" db] db_reaches_step [of "DbTombstones u ids" db] db_reaches_step [of "DbEditBy i x ts u" db]
    db_reaches_step [of "DbAddMessage m" db] by simp_all

lemma reaches_results:
  "edit_message_by_author i x ts u db = (b, d) \<Longrightarrow> db_reaches db d" "delete_messages_by_author ids u db = (del, d) \<Longrightarrow> db_reaches db d"
  using reaches_ops(4) [of db ids u] reaches_ops(6) [of db i x ts u] by simp_all

lemma handlers_reach:
  "handle_delivery C e p s = Some r \<Longrightarrow> db_reaches (ib_db s) (ib_db (fst r))"
  "handle_read C e p s = Some r \<Longrightarrow> db_reaches (ib_db s) (ib_db (fst r))"
  "handle_call_signal now me e p s = Some r \<Longrightarrow> db_reaches (ib_db s) (ib_db (fst r))"
  "handle_call_audio me e p s = Some r \<Longrightarrow> db_reaches (ib_db s) (ib_db (fst r))"
  "handle_reaction e p s = Some r \<Longrightarrow> db_reaches (ib_db s) (ib_db (fst r))"
  "handle_edit now e p s = Some r \<Longrightarrow> db_reaches (ib_db s) (ib_db (fst r))"
  by (auto simp: handle_delivery_def handle_read_def handle_call_signal_def handle_call_audio_def handle_reaction_def handle_edit_def
      Let_def reaches_ops reaches_results split: option.splits if_splits prod.splits)

lemma tombstone_reaches:
  "handle_tombstone C J me e p s = Some r \<Longrightarrow> db_reaches (ib_db s) (ib_db (fst r))"
  by (auto simp: handle_tombstone_def Let_def split: option.splits if_splits prod.splits
      intro: db_reaches_trans [OF reaches_results(2) reaches_ops(5)])

lemma incoming_reactions [simp]: "reactions_ok (sm_reactions (incoming_message me e p))"
  by (simp add: incoming_message_def reactions_ok_def reacted_def keys_distinct_def)

lemma discover_reaches:
  assumes "discover_peer C CJ show_addr t found db rt = (r, db', rt')" shows "db_reaches db db'"
  using assms discover_peer_accepts [of C CJ show_addr t found db rt] discover_peer_refuses [of C CJ show_addr t found db rt]
  by (cases r) (auto simp: reaches_ops)

lemma ensure_contact_reaches: "db_reaches (ib_db s) (ib_db (ensure_contact C CJ show_addr io e s))"
  by (auto simp: ensure_contact_def Let_def split: prod.split sum.split
      intro: db_reaches_trans [OF discover_reaches reaches_ops(3)])

lemma store_incoming_reaches:
  assumes "store_incoming C CJ show_addr io me e p s = (s', ev, ack)" shows "db_reaches (ib_db s) (ib_db s')"
  using assms ensure_contact_reaches [of s C CJ show_addr io e] db_reaches_trans [OF ensure_contact_reaches reaches_ops(7) [OF incoming_reactions]]
  by (auto simp: store_incoming_def Let_def split: if_splits)

lemma handle_payload_reaches:
  assumes "handle_payload C CJ J show_addr io me e p s = (s', ev, ack)" shows "db_reaches (ib_db s) (ib_db s')"
  using assms handlers_reach [where s = s] tombstone_reaches [where s = s] store_incoming_reaches
  unfolding handle_payload_def Let_def by (auto split: option.splits)

lemma process_envelope_reaches:
  assumes "process_envelope C CJ J show_addr io me e s = (g, s', ev, ack)" shows "db_reaches (ib_db s) (ib_db s')"
  using assms gate_frame [of C J "ei_now io" me e s] handle_payload_reaches
  by (auto simp: process_envelope_def split: prod.splits gate.splits) (metis handle_payload_reaches)+

section \<open>The invariants of the receiving side\<close>

definition inbox_inv :: "inbox_state \<Rightarrow> bool" where
  "inbox_inv s \<longleftrightarrow> db_inv (ib_db s) \<and> rt_inv (ib_table s) \<and> outbox_inv (ib_queue s, None) \<and> keys_distinct (ib_cache s) \<and>
     length (ib_cache s) \<le> MAX_REPLAY_CACHE_ENTRIES"

text \<open>What the payload does not touch.\<close>

definition rest_kept :: "inbox_state \<Rightarrow> inbox_state \<Rightarrow> bool" where
  "rest_kept s s' \<longleftrightarrow> ib_cache s' = ib_cache s \<and> (rt_inv (ib_table s) \<longrightarrow> rt_inv (ib_table s')) \<and>
     (\<exists>is. ib_queue s' = fold queue_mark_delivered is (ib_queue s))"

lemma rest_kept_same: "ib_cache s' = ib_cache s \<Longrightarrow> ib_table s' = ib_table s \<Longrightarrow> ib_queue s' = ib_queue s \<Longrightarrow> rest_kept s s'"
  by (auto simp: rest_kept_def intro: exI [of _ "[]"])

lemma handlers_rest:
  "handle_delivery C e p s = Some r \<Longrightarrow> rest_kept s (fst r)" "handle_read C e p s = Some r \<Longrightarrow> rest_kept s (fst r)"
  "handle_tombstone C J me e p s = Some r \<Longrightarrow> rest_kept s (fst r)" "handle_call_signal now me e p s = Some r \<Longrightarrow> rest_kept s (fst r)"
  "handle_call_audio me e p s = Some r \<Longrightarrow> rest_kept s (fst r)" "handle_reaction e p s = Some r \<Longrightarrow> rest_kept s (fst r)"
  "handle_edit now e p s = Some r \<Longrightarrow> rest_kept s (fst r)"
proof -
  show "handle_delivery C e p s = Some r \<Longrightarrow> rest_kept s (fst r)"
    by (auto simp: handle_delivery_def rest_kept_def split: option.splits if_splits
        intro: exI [of _ "[dv_message_id x]" for x] exI [of _ "[]"])
qed (auto simp: handle_read_def handle_tombstone_def handle_call_signal_def handle_call_audio_def handle_reaction_def handle_edit_def
    Let_def split: option.splits if_splits prod.splits intro!: rest_kept_same)

lemma store_incoming_rest:
  assumes "store_incoming C CJ show_addr io me e p s = (s', ev, ack)" shows "rest_kept s s'"
proof -
  have "rest_kept s (ensure_contact C CJ show_addr io e s)"
  proof (cases "map_of (db_contacts (ib_db s)) (sender_hex e)")
    case None
    obtain r db rt where d: "discover_peer C CJ show_addr (ei_instant io) (ei_found io) (ib_db s) (ib_table s) = (r, db, rt)"
      by (metis prod_cases3)
    have "rt_inv (ib_table s) \<longrightarrow> rt_inv rt"
      using discover_peer_accepts [of C CJ show_addr "ei_instant io" "ei_found io" "ib_db s" "ib_table s" _ db rt]
        discover_peer_refuses [of C CJ show_addr "ei_instant io" "ei_found io" "ib_db s" "ib_table s" _ db rt] d
      by (cases r) (auto intro: rt_force_update_inv)
    then show ?thesis using None d by (auto simp: ensure_contact_def rest_kept_def Let_def split: prod.split intro: exI [of _ "[]"])
  qed (auto simp: ensure_contact_def intro: rest_kept_same)
  then show ?thesis using assms by (auto simp: store_incoming_def rest_kept_def Let_def split: if_splits)
qed

lemma handle_payload_rest:
  assumes "handle_payload C CJ J show_addr io me e p s = (s', ev, ack)" shows "rest_kept s s'"
  using assms handlers_rest [where s = s] store_incoming_rest unfolding handle_payload_def Let_def by (auto split: option.splits)

lemma queue_delivered_inv: "outbox_inv (q, None) \<Longrightarrow> outbox_inv (fold queue_mark_delivered is q, None)"
proof (induction "is" arbitrary: q)
  case (Cons i "is")
  then show ?case using outbox_sys.step_inv [OF TrueI Cons.prems, of "OutDelivered i"] by simp
qed simp

lemma process_envelope_inv:
  assumes "inbox_inv s" "process_envelope C CJ J show_addr io me e s = (g, s', ev, ack)" shows "inbox_inv s'"
proof -
  obtain s1 where g: "envelope_gate C J (ei_now io) me e s = (g, s1)"
    and r: "\<forall>p. g = Opened p \<longrightarrow> rest_kept s1 s'" "(\<forall>p. g \<noteq> Opened p) \<longrightarrow> s' = s1"
    using assms(2) handle_payload_rest by (auto simp: process_envelope_def split: prod.splits gate.splits)
  note f = gate_frame [OF g]
  have k: "rest_kept s1 s'" using r by (cases g) (auto intro: rest_kept_same)
  have db: "db_inv (ib_db s')"
    using db_reaches_inv [OF process_envelope_reaches [OF assms(2)]] assms(1) by (simp add: inbox_inv_def)
  have c: "keys_distinct (ib_cache s1)" "length (ib_cache s1) \<le> MAX_REPLAY_CACHE_ENTRIES"
    using f assms(1) check_keys check_bound by (auto simp: inbox_inv_def)
  have "outbox_inv (ib_queue s', None)" "rt_inv (ib_table s')" "ib_cache s' = ib_cache s1"
    using k f assms(1) queue_delivered_inv by (auto simp: rest_kept_def inbox_inv_def)
  then show ?thesis using db c by (simp add: inbox_inv_def)
qed

definition inbox_step :: "crypto \<Rightarrow> card_json \<Rightarrow> msg_json \<Rightarrow> (socket_addr \<Rightarrow> string) \<Rightarrow> user_identity \<Rightarrow> envelope_io \<times> envelope \<Rightarrow> inbox_state \<Rightarrow> inbox_state" where
  "inbox_step C CJ J show_addr me x s = fst (snd (process_envelope C CJ J show_addr (fst x) me (snd x) s))"

interpretation inbox_sys: op_system "inbox_step C CJ J show_addr me" "\<lambda>_. True" inbox_inv for C CJ J show_addr me
  by unfold_locales (metis inbox_step_def process_envelope_inv fst_conv snd_conv prod_cases4)

text \<open>A batch is its envelopes one after the other; what stays in the mailbox is for others.\<close>

lemma process_batch_state:
  "fst (snd (process_batch C CJ J show_addr me es s)) = fold (inbox_step C CJ J show_addr me) es s"
  by (induction C CJ J show_addr me es s rule: process_batch.induct) (auto simp: inbox_step_def Let_def split: prod.split)

lemma process_foreign:
  "fst (process_envelope C CJ J show_addr io me e s) = Foreign \<longleftrightarrow> en_recipient_id e \<noteq> ui_user_id me"
  by (auto simp: process_envelope_def envelope_gate_def Let_def split: prod.splits gate.splits if_splits sum.splits)

lemma process_batch_unconsumed:
  "fst (process_batch C CJ J show_addr me es s) = filter (\<lambda>e. en_recipient_id e \<noteq> ui_user_id me) (map snd es)"
proof (induction C CJ J show_addr me es s rule: process_batch.induct)
  case (2 C CJ J show_addr me io e es s)
  obtain g s1 ev ack where p: "process_envelope C CJ J show_addr io me e s = (g, s1, ev, ack)" by (metis prod_cases4)
  have "g = Foreign \<longleftrightarrow> en_recipient_id e \<noteq> ui_user_id me" using process_foreign [of C CJ J show_addr io me e s] p by simp
  then show ?case using "2.IH" [OF p [symmetric] refl refl refl] p by (auto split: prod.split)
qed simp

section \<open>An envelope is let in once\<close>

definition opened :: "gate \<Rightarrow> bool" where
  "opened g = (case g of Opened _ \<Rightarrow> True | _ \<Rightarrow> False)"

fun inbox_gates :: "crypto \<Rightarrow> card_json \<Rightarrow> msg_json \<Rightarrow> (socket_addr \<Rightarrow> string) \<Rightarrow> user_identity \<Rightarrow> (envelope_io \<times> envelope) list \<Rightarrow> inbox_state \<Rightarrow> gate list" where
  "inbox_gates C CJ J show_addr me [] s = []"
| "inbox_gates C CJ J show_addr me ((io, e) # es) s = (case process_envelope C CJ J show_addr io me e s of
      (g, s', _, _) \<Rightarrow> g # inbox_gates C CJ J show_addr me es s')"

definition openings :: "bytes \<Rightarrow> u64 \<Rightarrow> (envelope_io \<times> envelope) list \<Rightarrow> gate list \<Rightarrow> nat" where
  "openings k ts es gs = length (filter (\<lambda>(x, g). opened g \<and> replay_key (snd x) = k \<and> en_timestamp (snd x) = ts) (zip es gs))"

lemma openings_simps [simp]:
  "openings k ts [] gs = 0"
  "openings k ts (x # es) (g # gs) = (if opened g \<and> replay_key (snd x) = k \<and> en_timestamp (snd x) = ts then 1 else 0) + openings k ts es gs"
  by (simp_all add: openings_def case_prod_unfold)

fun times_ok :: "u64 \<Rightarrow> (envelope_io \<times> envelope) list \<Rightarrow> bool" where
  "times_ok t [] = True"
| "times_ok t ((io, e) # es) = (t \<le> ei_now io \<and> times_ok (ei_now io) es)"

text \<open>The cache of one step: untouched, or asked about this envelope.\<close>

lemma process_cache:
  assumes "process_envelope C CJ J show_addr io me e s = (g, s', ev, ack)"
  shows "(ib_cache s' = ib_cache s \<and> \<not> opened g) \<or>
    (\<exists>b. check_and_insert C (replay_key e) (en_timestamp e) (ei_now io) (ib_cache s) = (b, ib_cache s') \<and> (opened g \<longrightarrow> b))"
proof -
  obtain s1 where g: "envelope_gate C J (ei_now io) me e s = (g, s1)" and c: "ib_cache s' = ib_cache s1"
    using assms handle_payload_rest by (auto simp: process_envelope_def rest_kept_def split: prod.splits gate.splits)
  show ?thesis using g unfolding c envelope_gate_def Let_def
    by (auto simp: opened_def split: if_splits sum.splits prod.splits)
qed

lemma spent_step:
  assumes "process_envelope C CJ J show_addr io me e s = (g, s', ev, ack)" "spent C k ts t (ib_cache s)" "keys_distinct (ib_cache s)" "t \<le> ei_now io"
  shows "\<not> (opened g \<and> replay_key e = k \<and> en_timestamp e = ts) \<and> spent C k ts (ei_now io) (ib_cache s') \<and> keys_distinct (ib_cache s')"
proof -
  have n: "spent C k ts (ei_now io) (ib_cache s)" using assms(2,4) by (auto simp: spent_def word_le_nat_alt)
  from process_cache [OF assms(1)] show ?thesis
    using n spent_refused [OF n assms(3)] spent_stays [OF assms(2-4), of "replay_key e" "en_timestamp e"]
      check_keys [OF assms(3), of C "replay_key e" "en_timestamp e" "ei_now io"] assms(3) by fastforce
qed

lemma spent_never_opens:
  "spent C k ts t (ib_cache s) \<Longrightarrow> keys_distinct (ib_cache s) \<Longrightarrow> times_ok t es \<Longrightarrow>
   openings k ts es (inbox_gates C CJ J show_addr me es s) = 0"
proof (induction es arbitrary: t s)
  case (Cons x es)
  obtain io e where x: "x = (io, e)" by (cases x)
  obtain g s' ev ack where p: "process_envelope C CJ J show_addr io me e s = (g, s', ev, ack)" by (metis prod_cases4)
  have t: "t \<le> ei_now io" "times_ok (ei_now io) es" using Cons.prems(3) x by simp_all
  note st = spent_step [OF p Cons.prems(1,2) t(1)]
  have "openings k ts es (inbox_gates C CJ J show_addr me es s') = 0" using Cons.IH st t(2) by blast
  then show ?case using x p st by simp
qed simp

lemma opened_once:
  "keys_distinct (ib_cache s) \<Longrightarrow> times_ok t es \<Longrightarrow> openings k ts es (inbox_gates C CJ J show_addr me es s) \<le> 1"
proof (induction es arbitrary: t s)
  case (Cons x es)
  obtain io e where x: "x = (io, e)" by (cases x)
  obtain g s' ev ack where p: "process_envelope C CJ J show_addr io me e s = (g, s', ev, ack)" by (metis prod_cases4)
  have t: "times_ok (ei_now io) es" using Cons.prems(2) x by simp
  have d: "keys_distinct (ib_cache s')" using process_cache [OF p] Cons.prems(1) by (metis check_keys snd_conv)
  show ?case
  proof (cases "opened g \<and> replay_key e = k \<and> en_timestamp e = ts")
    case True
    then have "fst (check_and_insert C k ts (ei_now io) (ib_cache s))" "snd (check_and_insert C k ts (ei_now io) (ib_cache s)) = ib_cache s'"
      using process_cache [OF p] by auto
    then have "spent C k ts (ei_now io) (ib_cache s')" using passed_spent by metis
    then show ?thesis using spent_never_opens [OF _ d t] x p True by simp
  next
    case False
    then show ?thesis using Cons.IH [OF d t] x p by auto
  qed
qed simp

section \<open>Receipts\<close>

text \<open>A message is reported as delivered only on a receipt signed by the one it was sent to.\<close>

definition reports :: "string \<Rightarrow> string \<Rightarrow> messenger_event list \<Rightarrow> bool" where
  "reports i u ev \<longleftrightarrow> EvDelivered i u \<in> set ev"

lemma others_report_nothing:
  "handle_read C e p s = Some r \<Longrightarrow> \<not> reports i u (snd r)" "handle_tombstone C J me e p s = Some r \<Longrightarrow> \<not> reports i u (snd r)"
  "handle_call_signal now me e p s = Some r \<Longrightarrow> \<not> reports i u (snd r)" "handle_call_audio me e p s = Some r \<Longrightarrow> \<not> reports i u (snd r)"
  "handle_reaction e p s = Some r \<Longrightarrow> \<not> reports i u (snd r)" "handle_edit now e p s = Some r \<Longrightarrow> \<not> reports i u (snd r)"
  "store_incoming C CJ show_addr io me e p s = (s', ev, ack) \<Longrightarrow> \<not> reports i u ev"
  by (auto simp: reports_def handle_read_def handle_tombstone_def handle_call_signal_def handle_call_audio_def handle_reaction_def
      handle_edit_def store_incoming_def Let_def split: option.splits if_splits prod.splits)

lemma payload_reports:
  assumes "handle_payload C CJ J show_addr io me e p s = (s', ev, ack)" "reports i u ev"
  shows "\<exists>r. handle_delivery C e p s = Some r \<and> reports i u (snd r)"
  using assms others_report_nothing [where s = s] unfolding handle_payload_def Let_def by (auto split: option.splits)

lemma delivered_by_recipient:
  assumes "process_envelope C CJ J show_addr io me e s = (g, s', ev, ack)" "EvDelivered i u \<in> set ev"
  shows "u = sender_hex e \<and> en_sender_id e = from_key (cr_sha1 C) (en_ed25519_pub e) \<and>
    (\<exists>m \<in> set (db_messages (ib_db s)). sm_id m = i \<and> sm_recipient m = u \<and> \<not> sm_incoming m) \<and>
    (\<exists>p r. g = Opened p \<and> cp_delivery p = Some r \<and> dv_message_id r = i \<and> delivery_receipt_verify C (en_ed25519_pub e) r \<and>
       ib_db s' = mark_message_delivered i (ib_db s) \<and> ib_queue s' = queue_mark_delivered i (ib_queue s) \<and> ev = [EvDelivered i u])"
proof -
  obtain p s1 where g: "envelope_gate C J (ei_now io) me e s = (Opened p, s1)" and o: "g = Opened p"
    and h: "handle_payload C CJ J show_addr io me e p s1 = (s', ev, ack)"
    using assms by (auto simp: process_envelope_def split: prod.splits gate.splits)
  obtain plain where "decrypt_envelope C me e = Ok plain" using gate_opened [OF g] by blast
  from accepted_genuine [OF this] have a: "en_sender_id e = from_key (cr_sha1 C) (en_ed25519_pub e)" by simp
  obtain r where r: "handle_delivery C e p s1 = Some r" "EvDelivered i u \<in> set (snd r)"
    using payload_reports [OF h, of i u] assms(2) unfolding reports_def by blast
  then have "(s', ev) = r" using h by (simp add: handle_payload_def Let_def prod_eq_iff)
  then show ?thesis using r a o gate_frame [OF g]
    by (auto simp: handle_delivery_def list_ex_iff split: option.splits if_splits)
qed

section \<open>Polling\<close>

lemma today_polled: "derive_secure_mailbox_key C me now \<in> set (polling_keys C me tick now)"
  by (simp add: polling_keys_def)

text \<open>On every sixtieth turn all mailboxes of the last six days are asked for, and today's and tomorrow's.\<close>

lemma week_polled:
  assumes "tick mod 60 = 0" "d \<in> {0, 1, 2, 3, 4, 5, 6}" "d * 86400 \<le> now"
  shows "derive_secure_mailbox_key C me (now - d * 86400) \<in> set (polling_keys C me tick now)"
proof -
  have "unat tick mod 60 = 0" using arg_cong [OF assms(1), of unat] by (simp add: unat_mod)
  then have "unat tick mod 10 = 0" by presburger
  then have "unat (tick mod 10) = 0" by (simp add: unat_mod)
  then have t: "tick mod 10 = 0" by (simp add: unat_eq_zero)
  have "saturating_sub64 now (d * 86400) = now - d * 86400" using assms(3) by (simp add: saturating_sub64_def)
  then show ?thesis using assms(1,2) t by (auto simp: polling_keys_def)
qed

lemma day_offset:
  assumes "n \<le> 6" shows "(of_nat n :: u64) \<in> {0, 1, 2, 3, 4, 5, 6}" "unat (of_nat n * 86400 :: u64) = n * 86400"
proof -
  consider "n = 0" | "n = 1" | "n = 2" | "n = 3" | "n = 4" | "n = 5" | "n = 6" using assms by linarith
  then show "(of_nat n :: u64) \<in> {0, 1, 2, 3, 4, 5, 6}" by cases simp_all
  have "unat (of_nat (n * 86400) :: u64) = n * 86400" using assms by (simp only: unat_of_nat take_bit_nat_eq_self) simp
  then show "unat (of_nat n * 86400 :: u64) = n * 86400" by simp
qed

text \<open>A mailbox key depends on the day only: what was put into the mailbox of a day is asked for on that day and on the six
  days after it.\<close>

lemma deposited_polled:
  assumes "unat tick mod 60 = 0" "unat ts div 86400 \<le> unat now div 86400" "unat now div 86400 \<le> unat ts div 86400 + 6"
  shows "derive_secure_mailbox_key C me ts \<in> set (polling_keys C me tick now)"
proof -
  define n where "n = unat now div 86400 - unat ts div 86400"
  define d :: u64 where "d = of_nat n"
  have n: "n \<le> 6" "unat now div 86400 = unat ts div 86400 + n" using assms(2,3) by (simp_all add: n_def)
  have d: "d \<in> {0, 1, 2, 3, 4, 5, 6}" "unat (d * 86400) = n * 86400" using day_offset [OF n(1)] by (simp_all only: d_def)
  have le: "n * 86400 \<le> unat now" using div_times_less_eq_dividend [of "unat now" 86400] n(2) by (simp add: add_mult_distrib)
  have dn: "d * 86400 \<le> now" using le d(2) by (simp add: word_le_nat_alt)
  have "unat (now - d * 86400) = unat now - n * 86400" using dn d(2) by (simp add: unat_sub)
  moreover have "unat now div 86400 = (unat now - n * 86400) div 86400 + n"
    using div_mult_self1 [of 86400 "unat now - n * 86400" n] le by simp
  ultimately have "unat ((now - d * 86400) div 86400) = unat (ts div 86400)" using n(2) by (simp add: unat_div)
  then have k: "(now - d * 86400) div 86400 = ts div 86400" by (rule unsigned_word_eqI)
  have "unat (tick mod 60) = unat (0 :: u64)" using assms(1) by (simp add: unat_mod)
  then have "tick mod 60 = 0" by (rule unsigned_word_eqI)
  from week_polled [OF this d(1) dn, of C me] show ?thesis using mailbox_key_day [OF k, of C me] by simp
qed

section \<open>Whose messages an envelope can change\<close>

text \<open>The same message up to its reactions and its delivery.\<close>

definition same_content :: "chat_message \<Rightarrow> chat_message \<Rightarrow> bool" where
  "same_content m m' \<longleftrightarrow> m' = m\<lparr>sm_reactions := sm_reactions m', sm_delivered := sm_delivered m'\<rparr>"

lemma same_content_refl [simp]: "same_content m m"
  by (simp add: same_content_def)

definition keeps :: "messenger_db \<Rightarrow> messenger_db \<Rightarrow> chat_message \<Rightarrow> bool" where
  "keeps db db' m \<longleftrightarrow> m \<in> set (db_messages db) \<longrightarrow> (\<exists>m' \<in> set (db_messages db'). same_content m m')"

lemma keeps_same: "db_messages db' = db_messages db \<Longrightarrow> keeps db db' m"
  using same_content_refl unfolding keeps_def by metis

lemma in_update_first: "m \<in> set xs \<Longrightarrow> m \<in> set (update_first p f xs) \<or> f m \<in> set (update_first p f xs)"
  by (induction xs) auto

lemma keeps_update:
  assumes "\<And>m. same_content m (f m)" shows "keeps db (db\<lparr>db_messages := update_first p f (db_messages db)\<rparr>) m"
  using in_update_first [of m "db_messages db" p f] assms [of m] by (auto simp: keeps_def intro: same_content_refl)

lemma keeps_ops:
  "keeps db (mark_message_delivered i db) m" "keeps db (snd (add_reaction i em r db)) m"
  by (auto simp: mark_message_delivered_def add_reaction_def same_content_def intro!: keeps_update intro: keeps_same split: option.split)

lemma keeps_add:
  assumes "sm_id m \<noteq> sm_id x" shows "keeps db (add_message x db) m"
proof -
  have "m \<in> set ((db_messages db)[pos := x])"
    if m: "m \<in> set (db_messages db)" and p: "find_index (\<lambda>m'. sm_id m' = sm_id x) (db_messages db) = Some pos" for pos
  proof -
    obtain k where k: "k < length (db_messages db)" "db_messages db ! k = m" using m by (auto simp: in_set_conv_nth)
    have "k \<noteq> pos" using find_index_Some [OF p] k assms by auto
    then show ?thesis using k by (metis length_list_update nth_list_update_neq nth_mem)
  qed
  then show ?thesis unfolding keeps_def add_message_def by (auto intro: same_content_refl split: option.split)
qed

lemma keeps_by_author:
  assumes "distinct (map sm_id (db_messages db))" "sm_sender m \<noteq> u"
  shows "delete_messages_by_author ids u db = (del, db') \<Longrightarrow> keeps db db' m"
    "edit_message_by_author i x ts u db = (b, db') \<Longrightarrow> keeps db db' m"
proof -
  assume d: "delete_messages_by_author ids u db = (del, db')"
  note f = delete_by_author_facts [OF assms(1) d]
  have "sm_id m \<notin> set del" if m: "m \<in> set (db_messages db)"
  proof
    assume "sm_id m \<in> set del"
    then obtain m2 where "m2 \<in> set (db_messages db)" "sm_id m2 = sm_id m" "sm_sender m2 = u" using f by auto
    then show False using assms m by (metis distinct_map inj_onD)
  qed
  then show "keeps db db' m" using f same_content_refl [of m] by (fastforce simp: keeps_def)
next
  assume "edit_message_by_author i x ts u db = (b, db')"
  from edit_by_author_facts [OF assms(1) this] assms(2) show "keeps db db' m"
    unfolding keeps_def by (auto intro!: image_eqI [of _ _ m] bexI [of _ m])
qed

text \<open>The messages of others keep their content. The one exception is a plain message that is stored under the same identifier: not
  an edit, and nothing that one of the other handlers takes.\<close>

lemma handlers_keep:
  assumes "distinct (map sm_id (db_messages (ib_db s)))" "sm_sender m \<noteq> sender_hex e"
  shows "handle_delivery C e p s = Some r \<Longrightarrow> keeps (ib_db s) (ib_db (fst r)) m" "handle_read C e p s = Some r \<Longrightarrow> keeps (ib_db s) (ib_db (fst r)) m"
    "handle_tombstone C J me e p s = Some r \<Longrightarrow> keeps (ib_db s) (ib_db (fst r)) m"
    "handle_call_signal now me e p s = Some r \<Longrightarrow> keeps (ib_db s) (ib_db (fst r)) m"
    "handle_call_audio me e p s = Some r \<Longrightarrow> keeps (ib_db s) (ib_db (fst r)) m"
    "handle_reaction e p s = Some r \<Longrightarrow> keeps (ib_db s) (ib_db (fst r)) m"
    "handle_edit now e p s = Some r \<Longrightarrow> keeps (ib_db s) (ib_db (fst r)) m"
proof -
  show "handle_tombstone C J me e p s = Some r \<Longrightarrow> keeps (ib_db s) (ib_db (fst r)) m"
    using keeps_by_author(1) [OF assms]
    by (auto simp: handle_tombstone_def Let_def register_pending_tombstones_def keeps_def split: option.splits if_splits prod.splits)
  show "handle_edit now e p s = Some r \<Longrightarrow> keeps (ib_db s) (ib_db (fst r)) m"
    using keeps_by_author(2) [OF assms]
    by (auto simp: handle_edit_def Let_def keeps_same split: option.splits if_splits prod.splits)
qed (auto simp: handle_delivery_def handle_read_def handle_call_signal_def handle_call_audio_def handle_reaction_def
    split: option.splits if_splits intro: keeps_ops keeps_same)

lemma discover_messages:
  "discover_peer C CJ show_addr t found db rt = (r, db', rt') \<Longrightarrow> db_messages db' = db_messages db \<and> db_deleted db' = db_deleted db \<and> db_tombstones db' = db_tombstones db"
  by (auto simp: discover_peer_def db_add_contact_def Let_def split: option.splits if_splits sum.splits)

lemma ensure_contact_messages:
  "db_messages (ib_db (ensure_contact C CJ show_addr io e s)) = db_messages (ib_db s)"
  "db_deleted (ib_db (ensure_contact C CJ show_addr io e s)) = db_deleted (ib_db s)"
  "db_tombstones (ib_db (ensure_contact C CJ show_addr io e s)) = db_tombstones (ib_db s)"
  using discover_messages [of C CJ show_addr "ei_instant io" "ei_found io" "ib_db s" "ib_table s"]
  by (auto simp: ensure_contact_def db_add_contact_def Let_def split: prod.split sum.split)

lemma store_keeps:
  assumes "store_incoming C CJ show_addr io me e p s = (s', ev, ack)" "sm_id m \<noteq> incoming_id e p"
  shows "keeps (ib_db s) (ib_db s') m"
proof -
  have "sm_id (incoming_message me e p) = incoming_id e p" by (simp add: incoming_message_def)
  then have "keeps (ib_db (ensure_contact C CJ show_addr io e s)) (add_message (incoming_message me e p) (ib_db (ensure_contact C CJ show_addr io e s))) m"
    using assms(2) by (intro keeps_add) simp
  then show ?thesis using assms(1) ensure_contact_messages(1) [of C CJ show_addr io e s]
    by (auto simp: store_incoming_def Let_def keeps_def split: if_splits intro: same_content_refl)
qed

lemma add_message_in: "sm_id x \<notin> set (db_deleted db) \<Longrightarrow> x \<in> set (db_messages (add_message x db))"
  by (auto simp: add_message_def intro: set_update_memI dest: find_index_Some split: option.split)

lemma store_keeps_or_takes:
  assumes "store_incoming C CJ show_addr io me e p s = (s', ev, ack)"
  shows "keeps (ib_db s) (ib_db s') m \<or>
    (ack = Some (sender_hex e, sm_id m) \<and> incoming_id e p = sm_id m \<and> incoming_message me e p \<in> set (db_messages (ib_db s')))"
proof (cases "sm_id m = incoming_id e p")
  case True
  let ?s = "ensure_contact C CJ show_addr io e s"
  show ?thesis
  proof (cases "is_tombstoned (sender_hex e) (incoming_id e p) (ib_db ?s)")
    case True
    then have "s' = ?s" using assms by (simp add: store_incoming_def incoming_message_def Let_def)
    then show ?thesis using ensure_contact_messages(1) keeps_same by metis
  next
    case False
    then have "sm_id (incoming_message me e p) \<notin> set (db_deleted (ib_db ?s))" by (simp add: is_tombstoned_def incoming_message_def)
    from add_message_in [OF this] show ?thesis using assms False True
      by (auto simp: store_incoming_def incoming_message_def Let_def)
  qed
qed (use store_keeps [OF assms] in blast)

lemma others_keep_content:
  assumes "db_inv (ib_db s)" "process_envelope C CJ J show_addr io me e s = (g, s', ev, ack)" "m \<in> set (db_messages (ib_db s))"
    "sm_sender m \<noteq> sender_hex e"
  shows "(\<exists>m' \<in> set (db_messages (ib_db s')). same_content m m') \<or>
    (\<exists>p. g = Opened p \<and> ack = Some (sender_hex e, sm_id m) \<and> incoming_id e p = sm_id m \<and> \<not> (cp_is_edited p \<and> cp_id p \<noteq> []) \<and>
       incoming_message me e p \<in> set (db_messages (ib_db s')))"
proof (cases g)
  case (Opened p)
  obtain s1 where g: "envelope_gate C J (ei_now io) me e s = (Opened p, s1)"
    and h: "handle_payload C CJ J show_addr io me e p s1 = (s', ev, ack)"
    using assms(2) Opened by (auto simp: process_envelope_def split: prod.splits gate.splits)
  have db: "ib_db s1 = ib_db s" using gate_frame [OF g] by simp
  have d: "distinct (map sm_id (db_messages (ib_db s1)))" using assms(1) db by (simp add: db_inv_def)
  note k = handlers_keep [OF d assms(4)]
  have "keeps (ib_db s1) (ib_db s') m \<or> (handle_edit (ei_later io) e p s1 = None \<and> store_incoming C CJ show_addr io me e p s1 = (s', ev, ack))"
    using h k unfolding handle_payload_def Let_def by (auto split: option.splits)
  moreover have "\<not> (cp_is_edited p \<and> cp_id p \<noteq> [])" if "handle_edit (ei_later io) e p s1 = None"
    using that by (auto simp: handle_edit_def Let_def split: prod.splits if_splits)
  ultimately show ?thesis using store_keeps_or_takes [of C CJ show_addr io me e p s1 s' ev ack m] assms(3) db Opened unfolding keeps_def by auto
qed (use assms(3) refused_no_effect [OF assms(2)] in \<open>auto intro: same_content_refl\<close>)

text \<open>A plain message replaces whatever has its identifier: the author of what is replaced is not looked at.\<close>

definition plain_payload :: "string \<Rightarrow> string \<Rightarrow> chat_payload" where
  "plain_payload i x = empty_payload\<lparr>cp_id := i, cp_text := x\<rparr>"

lemma plain_falls_through: "handle_payload C CJ J show_addr io me e (plain_payload i x) s = store_incoming C CJ show_addr io me e (plain_payload i x) s"
  by (simp add: handle_payload_def handle_delivery_def handle_read_def handle_tombstone_def handle_call_signal_def handle_call_audio_def
      handle_reaction_def handle_edit_def plain_payload_def empty_payload_def)

lemma plain_overwrites:
  assumes "db_inv (ib_db s)" "find_message i (ib_db s) = Some m" "i \<noteq> []" "\<not> is_tombstoned (sender_hex e) i (ib_db s)"
  shows "\<exists>s' ev. handle_payload C CJ J show_addr io me e (plain_payload i x) s = (s', ev, Some (sender_hex e, i)) \<and>
    find_message i (ib_db s') = Some (incoming_message me e (plain_payload i x))"
proof -
  let ?m = "incoming_message me e (plain_payload i x)" and ?s = "ensure_contact C CJ show_addr io e s"
  have i: "sm_id ?m = i" using assms(3) by (simp add: incoming_message_def incoming_id_def plain_payload_def)
  have t: "\<not> is_tombstoned (sender_hex e) i (ib_db ?s)" using assms(4) ensure_contact_messages(2,3) [of C CJ show_addr io e s]
    by (simp add: is_tombstoned_def)
  have "db_inv (ib_db ?s)" using db_reaches_inv [OF ensure_contact_reaches assms(1)] .
  from add_message_find(1) [OF this, of ?m] have f: "find_message i (add_message ?m (ib_db ?s)) = Some ?m"
    using t i by (simp add: is_tombstoned_def)
  show ?thesis unfolding plain_falls_through using t i f by (simp add: store_incoming_def Let_def)
qed

end
