(* ===== verification/Cascade.thy ===== *)
theory Cascade
  imports Inbox Net_Startup
begin

text \<open>
  How a payload leaves the messenger (\<open>messenger.rs\<close>): finding the key and the addresses of the recipient, sealing, and the
  transport cascade of \<open>try_deliver_payload\<close> (a STORE to known addresses with the TCP bridge behind it, hole punching, the
  mailbox in the network), delivery receipts, and the receiving end of the TCP bridge. The answers of the network are
  arguments, and what is sent is part of the result.

  The lemmas show that only sealed envelopes leave, that a success names a send that was acknowledged or a mailbox that took
  the envelope, that a mailbox is never written with more than thirty envelopes, and that the bridge reads the packet that
  the cascade writes.
\<close>

section \<open>Errors\<close>

datatype other_reason = BadRecipient hex_error | NotSerialized | SealFailed | DepositFailed | GroupNotFound

datatype messenger_error = IdentityNotFound | InvalidKeyLength string | CryptoError string | NetworkError string
  | PeerNotFoundError string | MailboxError string | DatabaseError string | MnemonicFailure string | ContactBlocked string
  | RecipientVerifiedKeyMissing string | AttachmentFailed attachment_error | ReplayDetected string | OtherError other_reason

section \<open>What is sent\<close>

datatype network_send = SendStore socket_addr node_id bytes | SendTcp socket_addr bytes | SendProbe socket_addr bytes
  | SendPut string bytes

text \<open>The packet of the TCP bridge, and what its receiver makes of the first read of a connection.\<close>

definition tcp_store_packet :: "u64 \<Rightarrow> node_id \<Rightarrow> node_id \<Rightarrow> bytes \<Rightarrow> bytes" where
  "tcp_store_packet rid self key val = [3] @ be_bytes 8 rid @ as_bytes self @ as_bytes key @ be_bytes 4 (of_nat (length val) :: u32) @ val"

definition tcp_bridge :: "bytes \<Rightarrow> (node_id \<times> bytes) option" where
  "tcp_bridge buf =
     (let n = length buf in
      if n \<ge> 53 \<and> buf ! 0 = 3 then
        (let key = NodeId (take 20 (drop 29 buf)); val_len = unat (of_be (take 4 (drop 49 buf)) :: u32) in
         if n \<ge> 53 + val_len then Some (key, take val_len (drop 53 buf)) else None)
      else None)"

definition tcp_bridge_turn :: "instant \<Rightarrow> bytes \<Rightarrow> storage \<Rightarrow> bytes option \<times> storage" where
  "tcp_bridge_turn now buf st = (case tcp_bridge buf of
      Some (key, val) \<Rightarrow> (Some [4, 0], storage_put now key val (86400 * 1000000000) st)
    | None \<Rightarrow> (None, st))"

section \<open>The mailbox in the network\<close>

abbreviation MAILBOX_CAP :: nat where "MAILBOX_CAP \<equiv> 30"

text \<open>The envelopes of a mailbox with a new one: the last thirty.\<close>

definition mailbox_with :: "envelope \<Rightarrow> envelope list \<Rightarrow> envelope list" where
  "mailbox_with e es =
     (let es' = (if list_ex (\<lambda>x. en_signature x = en_signature e \<and> en_timestamp x = en_timestamp e) es then es else es @ [e]) in
      if length es' > MAILBOX_CAP then drop (length es' - MAILBOX_CAP) es' else es')"

text \<open>\<open>found\<close> is what the network answers for the mailbox, \<open>put_ok\<close> whether the put succeeds.\<close>

definition deposit_envelope_to_mailbox ::
    "crypto \<Rightarrow> msg_json \<Rightarrow> u64 \<Rightarrow> bytes option \<Rightarrow> bool \<Rightarrow> string \<Rightarrow> envelope \<Rightarrow> bool \<times> network_send list" where
  "deposit_envelope_to_mailbox C J now found put_ok recipient e =
     (let key = derive_secure_mailbox_key C recipient now;
          es = (case found of Some b \<Rightarrow> parse_mailbox J b | None \<Rightarrow> []) in
      case mj_write_list J (mailbox_with e es) of
        None \<Rightarrow> (False, [])
      | Some b \<Rightarrow> (put_ok, [SendPut key b]))"

section \<open>The cascade\<close>

text \<open>The answers during one delivery: random bytes and times for the envelope and the mailbox keys, what discovery finds,
  how every address answers, what the hole punching receives, and the mailbox.\<close>

datatype tcp_answer = NoConnection | NotAcked | TcpAcked

record direct_answer =
  da_acked :: bool
  da_tcp_id :: u64
  da_tcp :: tcp_answer

record deliver_io =
  dl_seed :: bytes
  dl_nonce :: bytes
  dl_seal_time :: u64
  dl_key_time :: u64
  dl_deposit_time :: u64
  dl_instant :: instant
  dl_found :: "bytes option option"
  dl_table_free :: bool
  dl_direct :: "nat \<Rightarrow> direct_answer"
  dl_punch_nonce :: bytes
  dl_punch_replies :: "(bytes \<times> socket_addr) list"
  dl_punch_acked :: "nat \<Rightarrow> bool"
  dl_mailbox :: "bytes option"
  dl_put_ok :: bool

datatype route = DirectUdp socket_addr | DirectTcp socket_addr | HolePunched socket_addr | InMailbox

fun ip_is_loopback :: "socket_addr \<Rightarrow> bool" where
  "ip_is_loopback (SockV4 ip _) \<longleftrightarrow> drop_bit 24 ip = 127"
| "ip_is_loopback (SockV6 ip _ _ _) \<longleftrightarrow> ip = 1"

text \<open>Tier 1: every address in turn, the \<open>k\<close>-th with the \<open>k\<close>-th answer.\<close>

fun tier_direct :: "(nat \<Rightarrow> direct_answer) \<Rightarrow> node_id \<Rightarrow> node_id \<Rightarrow> bytes \<Rightarrow> nat \<Rightarrow> socket_addr list \<Rightarrow> network_send list \<times> route option" where
  "tier_direct ans self key val k [] = ([], None)"
| "tier_direct ans self key val k (a # as) =
     (let sent = [SendStore a key val] in
      if da_acked (ans k) then (sent, Some (DirectUdp a))
      else (let tcp = (port_of a = 8444 \<or> ip_is_loopback a) \<and> da_tcp (ans k) \<noteq> NoConnection;
                sent = (if tcp then sent @ [SendTcp a (tcp_store_packet (da_tcp_id (ans k)) self key val)] else sent) in
        if tcp \<and> da_tcp (ans k) = TcpAcked then (sent, Some (DirectTcp a))
        else (let (sent', r) = tier_direct ans self key val (Suc k) as in (sent @ sent', r))))"

text \<open>Tier 2: the addresses that answered the probes.\<close>

fun tier_punched :: "(nat \<Rightarrow> bool) \<Rightarrow> node_id \<Rightarrow> bytes \<Rightarrow> nat \<Rightarrow> socket_addr list \<Rightarrow> network_send list \<times> route option" where
  "tier_punched acked key val k [] = ([], None)"
| "tier_punched acked key val k (a # as) =
     (if acked k then ([SendStore a key val], Some (HolePunched a))
      else (let (sent, r) = tier_punched acked key val (Suc k) as in (SendStore a key val # sent, r)))"

text \<open>The key and the addresses of the recipient: the contact when it can be used, a presence card otherwise.\<close>

definition contact_unusable :: "saved_contact \<Rightarrow> bool" where
  "contact_unusable c \<longleftrightarrow> sc_x25519_pub_hex c = [] \<or> sc_x25519_pub_hex c = sc_ed25519_pub_hex c \<or>
     sc_last_seen_addr c = ''127.0.0.1:8444'' \<or> sc_last_seen_addr c = ''unknown''"

type_synonym resolved = "(bytes \<times> socket_addr option \<times> socket_addr list) option \<times> messenger_db \<times> routing_table"

definition resolve_by_card :: "crypto \<Rightarrow> card_json \<Rightarrow> (socket_addr \<Rightarrow> string) \<Rightarrow> deliver_io \<Rightarrow> messenger_db \<Rightarrow> routing_table \<Rightarrow> resolved" where
  "resolve_by_card C CJ show_addr io db rt = (case discover_peer C CJ show_addr (dl_instant io) (dl_found io) db rt of
      (Inr crd, db', rt') \<Rightarrow> (Some (pc_x25519_pub crd, Some (pc_socket_addr crd), pc_endpoints crd), db', rt')
    | (Inl _, db', rt') \<Rightarrow> (None, db', rt'))"

definition resolve_recipient ::
    "crypto \<Rightarrow> card_json \<Rightarrow> (string \<Rightarrow> socket_addr option) \<Rightarrow> (socket_addr \<Rightarrow> string) \<Rightarrow> deliver_io \<Rightarrow> string \<Rightarrow> messenger_db \<Rightarrow> routing_table \<Rightarrow>
     resolved exec" where
  "resolve_recipient C CJ parse show_addr io recipient db rt = (case map_of (db_contacts db) recipient of
      None \<Rightarrow> Done (resolve_by_card C CJ show_addr io db rt)
    | Some c \<Rightarrow> exec_bind (hex_decode (sc_x25519_pub_hex c)) (\<lambda>x.
        let direct = parse (sc_last_seen_addr c) in
        case x of
          Some k \<Rightarrow> if \<not> contact_unusable c \<and> length k = 32
            then Done (Some (k, direct, case direct of Some a \<Rightarrow> [a] | None \<Rightarrow> []), db, rt)
            else Done (resolve_by_card C CJ show_addr io db rt)
        | None \<Rightarrow> Done (resolve_by_card C CJ show_addr io db rt)))"

type_synonym delivery = "(messenger_error + route) \<times> network_send list \<times> messenger_db \<times> routing_table"

text \<open>The sealed envelope through the tiers.\<close>

definition single_envelope :: "msg_json \<Rightarrow> envelope \<Rightarrow> bytes" where
  "single_envelope J e = (case mj_write_list J [e] of Some b \<Rightarrow> b | None \<Rightarrow> [])"

definition send_envelope ::
    "crypto \<Rightarrow> msg_json \<Rightarrow> deliver_io \<Rightarrow> node_id \<Rightarrow> string \<Rightarrow> socket_addr list \<Rightarrow> socket_addr list \<Rightarrow> envelope \<Rightarrow>
     (messenger_error + route) \<times> network_send list" where
  "send_envelope C J io self recipient addrs candidates e =
     (let key = from_key (cr_sha1 C) (str_bytes (derive_secure_mailbox_key C recipient (dl_key_time io)));
          single = single_envelope J e;
          (sent1, r1) = tier_direct (dl_direct io) self key single 0 addrs in
      case r1 of
        Some r \<Rightarrow> (Ok r, sent1)
      | None \<Rightarrow>
          (let (probes, punched) = (if candidates = [] then ([], [])
                 else punch_candidates_verified (dl_punch_nonce io) candidates (dl_punch_replies io));
               (sent2, r2) = tier_punched (dl_punch_acked io) key single 0 punched;
               sent = sent1 @ map (\<lambda>(p, a). SendProbe a p) probes @ sent2 in
           case r2 of
             Some r \<Rightarrow> (Ok r, sent)
           | None \<Rightarrow> (case deposit_envelope_to_mailbox C J (dl_deposit_time io) (dl_mailbox io) (dl_put_ok io) recipient e of
                 (ok, sent3) \<Rightarrow> (if ok then Ok InMailbox else Err (OtherError DepositFailed), sent @ sent3))))"

definition try_deliver_payload ::
    "crypto \<Rightarrow> card_json \<Rightarrow> msg_json \<Rightarrow> (string \<Rightarrow> socket_addr option) \<Rightarrow> (socket_addr \<Rightarrow> string) \<Rightarrow> deliver_io \<Rightarrow> node_id \<Rightarrow>
     user_identity \<Rightarrow> string \<Rightarrow> chat_payload \<Rightarrow> messenger_db \<Rightarrow> routing_table \<Rightarrow> delivery exec" where
  "try_deliver_payload C CJ J parse show_addr io self me recipient p db rt = exec_bind (id_from_hex recipient) (\<lambda>r. case r of
      Inl x \<Rightarrow> Done (Err (OtherError (BadRecipient x)), [], db, rt)
    | Inr rid \<Rightarrow> exec_bind (resolve_recipient C CJ parse show_addr io recipient db rt) (\<lambda>res. case res of
        (None, db', rt') \<Rightarrow> Done (Err (RecipientVerifiedKeyMissing recipient), [], db', rt')
      | (Some (xkey, target, candidates), db', rt') \<Rightarrow>
          (let target' = (case target of
                 Some a \<Rightarrow> Some a
               | None \<Rightarrow> if dl_table_free io then map_option ct_addr (find (\<lambda>c. ct_id c = rid) (all_contacts rt')) else None);
               addrs = (case target' of Some a \<Rightarrow> if a \<in> set candidates then candidates else a # candidates | None \<Rightarrow> candidates) in
           if length xkey \<noteq> 32 then Done (Err (RecipientVerifiedKeyMissing recipient), [], db', rt')
           else (case mj_write J p of
               None \<Rightarrow> Done (Err (OtherError NotSerialized), [], db', rt')
             | Some b \<Rightarrow> (case encrypt_envelope C (dl_seed io) (dl_nonce io) (dl_seal_time io) me rid xkey b of
                 None \<Rightarrow> Done (Err (OtherError SealFailed), [], db', rt')
               | Some e \<Rightarrow> (case send_envelope C J io self recipient addrs candidates e of
                   (out, sent) \<Rightarrow> Done (out, sent, db', rt')))))))"

text \<open>The payload of a chat message.\<close>

definition message_payload :: "chat_message \<Rightarrow> chat_payload" where
  "message_payload m = empty_payload\<lparr>cp_id := sm_id m, cp_text := sm_text m, cp_image := sm_image m, cp_voice := sm_voice m,
     cp_reply_to := sm_reply_to m, cp_reply_snippet := sm_reply_snippet m, cp_is_edited := sm_is_edited m,
     cp_edit_timestamp := sm_edit_timestamp m, cp_group_id := sm_group_id m\<rparr>"

definition try_deliver_message ::
    "crypto \<Rightarrow> card_json \<Rightarrow> msg_json \<Rightarrow> (string \<Rightarrow> socket_addr option) \<Rightarrow> (socket_addr \<Rightarrow> string) \<Rightarrow> deliver_io \<Rightarrow> node_id \<Rightarrow>
     user_identity \<Rightarrow> string \<Rightarrow> chat_message \<Rightarrow> messenger_db \<Rightarrow> routing_table \<Rightarrow> delivery exec" where
  "try_deliver_message C CJ J parse show_addr io self me recipient m db rt =
     try_deliver_payload C CJ J parse show_addr io self me recipient (message_payload m) db rt"

section \<open>Receipts\<close>

definition receipt_payload :: "crypto \<Rightarrow> user_identity \<Rightarrow> string \<Rightarrow> u64 \<Rightarrow> chat_payload" where
  "receipt_payload C me i now = empty_payload\<lparr>cp_id := ''rcpt_'' @ i, cp_delivery := Some (delivery_receipt_create C me i now)\<rparr>"

text \<open>What is put and stored without looking at the answers, as receipts and deletions are.\<close>

definition send_quietly :: "crypto \<Rightarrow> msg_json \<Rightarrow> deliver_io \<Rightarrow> string \<Rightarrow> socket_addr option \<Rightarrow> envelope \<Rightarrow> network_send list" where
  "send_quietly C J io recipient target e =
     (let key = from_key (cr_sha1 C) (str_bytes (derive_secure_mailbox_key C recipient (dl_key_time io)));
          single = single_envelope J e in
      (case target of Some a \<Rightarrow> [SendStore a key single] | None \<Rightarrow> []) @
      snd (deposit_envelope_to_mailbox C J (dl_deposit_time io) (dl_mailbox io) (dl_put_ok io) recipient e))"

definition send_delivery_receipt ::
    "crypto \<Rightarrow> msg_json \<Rightarrow> (string \<Rightarrow> socket_addr option) \<Rightarrow> deliver_io \<Rightarrow> u64 \<Rightarrow> user_identity \<Rightarrow> messenger_db \<Rightarrow> string \<Rightarrow> string \<Rightarrow>
     ((other_reason + unit) \<times> network_send list) exec" where
  "send_delivery_receipt C J parse io now me db recipient i = exec_bind (id_from_hex recipient) (\<lambda>r. case r of
      Inl x \<Rightarrow> Done (Err (BadRecipient x), [])
    | Inr rid \<Rightarrow> (case map_of (db_contacts db) recipient of
        None \<Rightarrow> Done (Ok (), [])
      | Some c \<Rightarrow> exec_bind (hex_decode (sc_x25519_pub_hex c)) (\<lambda>x. case x of
          None \<Rightarrow> Done (Ok (), [])
        | Some k \<Rightarrow>
            if length k \<noteq> 32 then Done (Ok (), [])
            else (case mj_write J (receipt_payload C me i now) of
              None \<Rightarrow> Done (Err NotSerialized, [])
            | Some b \<Rightarrow> (case encrypt_envelope C (dl_seed io) (dl_nonce io) (dl_seal_time io) me rid k b of
                None \<Rightarrow> Done (Err SealFailed, [])
              | Some e \<Rightarrow> Done (Ok (), send_quietly C J io recipient (parse (sc_last_seen_addr c)) e))))))"

section \<open>The TCP bridge reads what the cascade writes\<close>

lemma tcp_bridge_packet:
  assumes "length (as_bytes self) = 20" "length (as_bytes key) = 20" "length val < 2 ^ 32"
  shows "tcp_bridge (tcp_store_packet rid self key val) = Some (key, val)"
proof -
  let ?p = "tcp_store_packet rid self key val"
  have l: "length ?p = 53 + length val" using assms by (simp add: tcp_store_packet_def)
  have k: "take 20 (drop 29 ?p) = as_bytes key" "take 4 (drop 49 ?p) = be_bytes 4 (of_nat (length val) :: u32)" "drop 53 ?p = val" "?p ! 0 = 3"
    using assms by (simp_all add: tcp_store_packet_def)
  have "unat (of_nat (length val) :: u32) = length val" using assms(3) by (simp add: unat_of_nat take_bit_nat_eq_self)
  then show ?thesis using l k by (simp add: tcp_bridge_def Let_def)
qed

text \<open>The bridge writes over the mailbox: whatever was there is gone.\<close>

lemma tcp_bridge_overwrites:
  assumes "length (as_bytes self) = 20" "length (as_bytes key) = 20" "length val \<le> MAX_STORAGE_BYTES"
  shows "tcp_bridge_turn now (tcp_store_packet rid self key val) st = (Some [4, 0], storage_put now key val (86400 * 1000000000) st) \<and>
    storage_get now key (snd (tcp_bridge_turn now (tcp_store_packet rid self key val) st)) = Some val"
proof -
  have "length val < 2 ^ 32" using assms(3) by simp
  from tcp_bridge_packet [OF assms(1,2) this] get_put_same [OF assms(3), where ttl = "86400 * 1000000000"] show ?thesis
    by (simp add: tcp_bridge_turn_def)
qed

section \<open>The mailbox holds the last thirty\<close>

lemma mailbox_with_bound: "length (mailbox_with e es) \<le> MAILBOX_CAP"
  by (simp add: mailbox_with_def Let_def)

lemma mailbox_with_suffix: "\<exists>old. es @ [e] = old @ mailbox_with e es \<or> es = old @ mailbox_with e es"
  unfolding mailbox_with_def Let_def by (auto intro: exI [of _ "take (length es - 30) es"] exI [of _ "take (Suc (length es) - 30) (es @ [e])"] simp del: append_take_drop_id) (metis append_take_drop_id)+

text \<open>A new envelope is in the mailbox afterwards.\<close>

lemma mailbox_with_new:
  assumes "\<not> list_ex (\<lambda>x. en_signature x = en_signature e \<and> en_timestamp x = en_timestamp e) es" shows "e \<in> set (mailbox_with e es)"
proof -
  have "drop (length (es @ [e]) - MAILBOX_CAP) (es @ [e]) = drop (length (es @ [e]) - MAILBOX_CAP) es @ [e]" by simp
  then show ?thesis using assms by (simp add: mailbox_with_def Let_def)
qed

section \<open>Only sealed envelopes leave\<close>

definition sealed_send :: "msg_json \<Rightarrow> bytes \<Rightarrow> envelope \<Rightarrow> network_send \<Rightarrow> bool" where
  "sealed_send J nonce e x = (case x of
      SendStore a k v \<Rightarrow> v = single_envelope J e
    | SendTcp a pkt \<Rightarrow> (\<exists>rid self k. pkt = tcp_store_packet rid self k (single_envelope J e))
    | SendProbe a p \<Rightarrow> p = hp_probe nonce
    | SendPut k v \<Rightarrow> (\<exists>es. mj_write_list J (mailbox_with e es) = Some v))"

lemma sealed_simps [simp]:
  "sealed_send J nonce e (SendStore a k (single_envelope J e))"
  "sealed_send J nonce e (SendTcp a (tcp_store_packet rid self k (single_envelope J e)))"
  "mj_write_list J (mailbox_with e es) = Some v \<Longrightarrow> sealed_send J nonce e (SendPut mk v)"
  "sealed_send J nonce e (SendProbe a (hp_probe nonce))"
  by (auto simp: sealed_send_def)

abbreviation all_sealed :: "msg_json \<Rightarrow> bytes \<Rightarrow> envelope \<Rightarrow> network_send list \<Rightarrow> bool" where
  "all_sealed J nonce e sent \<equiv> \<forall>x \<in> set sent. sealed_send J nonce e x"

lemma tier_direct_sealed: "all_sealed J nonce e (fst (tier_direct ans self key (single_envelope J e) k as))"
  by (induction ans self key "single_envelope J e" k as rule: tier_direct.induct) (auto simp: Let_def split: prod.splits)

lemma tier_punched_sealed: "all_sealed J nonce e (fst (tier_punched acked key (single_envelope J e) k as))"
  by (induction acked key "single_envelope J e" k as rule: tier_punched.induct) (auto simp: Let_def split: prod.splits)

lemma deposit_sealed: "all_sealed J nonce e (snd (deposit_envelope_to_mailbox C J now found ok u e))"
  by (auto simp: deposit_envelope_to_mailbox_def Let_def split: option.splits)

lemma probes_sealed: "all_sealed J nonce e (map (\<lambda>(p, a). SendProbe a p) (fst (punch_candidates_verified nonce cs rs)))"
  by (auto simp: punch_candidates_verified_def)

lemma send_envelope_sealed:
  assumes "send_envelope C J io self u addrs cs e = (out, sent)" shows "all_sealed J (dl_punch_nonce io) e sent"
proof -
  define key where "key = from_key (cr_sha1 C) (str_bytes (derive_secure_mailbox_key C u (dl_key_time io)))"
  obtain sent1 r1 where t1: "tier_direct (dl_direct io) self key (single_envelope J e) 0 addrs = (sent1, r1)" by fastforce
  obtain probes punched where pr: "(if cs = [] then ([], []) else punch_candidates_verified (dl_punch_nonce io) cs (dl_punch_replies io)) = (probes, punched)"
    by fastforce
  obtain sent2 r2 where t2: "tier_punched (dl_punch_acked io) key (single_envelope J e) 0 punched = (sent2, r2)" by fastforce
  obtain ok sent3 where t3: "deposit_envelope_to_mailbox C J (dl_deposit_time io) (dl_mailbox io) (dl_put_ok io) u e = (ok, sent3)" by fastforce
  let ?a = "all_sealed J (dl_punch_nonce io) e"
  have "?a sent1" "?a sent2" "?a sent3"
    using tier_direct_sealed [of "dl_direct io" self key J e 0 addrs] tier_punched_sealed [of "dl_punch_acked io" key J e 0 punched]
      deposit_sealed [of C J "dl_deposit_time io" "dl_mailbox io" "dl_put_ok io" u e] t1 t2 t3 by simp_all
  moreover have "?a (map (\<lambda>(p, a). SendProbe a p) probes)"
    using probes_sealed [of "dl_punch_nonce io" cs "dl_punch_replies io" J e] pr by (auto split: if_splits)
  ultimately have "?a (sent1 @ map (\<lambda>(p, a). SendProbe a p) probes @ sent2 @ sent3)" by (simp only: set_append ball_Un)
  moreover have "set sent \<subseteq> set (sent1 @ map (\<lambda>(p, a). SendProbe a p) probes @ sent2 @ sent3)"
    using assms t1 pr t2 t3 by (auto simp: send_envelope_def Let_def key_def [symmetric] split: option.splits)
  ultimately show ?thesis by blast
qed

lemma deliver_cases:
  assumes "try_deliver_payload C CJ J parse show_addr io self me u p db rt = Done (out, sent, db', rt')"
  shows "(\<exists>err. out = Inl err \<and> sent = []) \<or>
    (\<exists>rid k target cs addrs b e. id_from_hex u = Done (Ok rid) \<and>
       resolve_recipient C CJ parse show_addr io u db rt = Done (Some (k, target, cs), db', rt') \<and> length k = 32 \<and> mj_write J p = Some b \<and>
       encrypt_envelope C (dl_seed io) (dl_nonce io) (dl_seal_time io) me rid k b = Some e \<and>
       send_envelope C J io self u addrs cs e = (out, sent))"
  using assms by (auto simp: try_deliver_payload_def exec_bind_def Let_def split: exec.splits sum.splits prod.splits option.splits if_splits)

text \<open>Whose key that is: the one of a usable contact, or the one of a card that discovery gave for the recipient.\<close>

definition recipient_key ::
    "crypto \<Rightarrow> card_json \<Rightarrow> (socket_addr \<Rightarrow> string) \<Rightarrow> deliver_io \<Rightarrow> string \<Rightarrow> messenger_db \<Rightarrow> routing_table \<Rightarrow> bytes \<Rightarrow> bool" where
  "recipient_key C CJ show_addr io u db rt k \<longleftrightarrow>
     (\<exists>c. map_of (db_contacts db) u = Some c \<and> \<not> contact_unusable c \<and> hex_decode (sc_x25519_pub_hex c) = Done (Some k)) \<or>
     (\<exists>crd. fst (discover_peer C CJ show_addr (dl_instant io) (dl_found io) db rt) = Ok crd \<and> pc_x25519_pub crd = k)"

lemma resolved_key:
  assumes "resolve_recipient C CJ parse show_addr io u db rt = Done (Some (k, target, cs), db', rt')"
  shows "recipient_key C CJ show_addr io u db rt k"
  using assms by (auto simp: resolve_recipient_def recipient_key_def resolve_by_card_def exec_bind_def Let_def
      split: option.splits exec.splits if_splits prod.splits sum.splits)

lemma only_sealed_leaves:
  assumes "try_deliver_payload C CJ J parse show_addr io self me u p db rt = Done (out, sent, db', rt')" "x \<in> set sent"
  shows "\<exists>rid k b e. id_from_hex u = Done (Ok rid) \<and> recipient_key C CJ show_addr io u db rt k \<and> length k = 32 \<and> mj_write J p = Some b \<and>
    encrypt_envelope C (dl_seed io) (dl_nonce io) (dl_seal_time io) me rid k b = Some e \<and> sealed_send J (dl_punch_nonce io) e x"
proof -
  obtain rid k target cs addrs b e where d: "id_from_hex u = Done (Ok rid)"
    "resolve_recipient C CJ parse show_addr io u db rt = Done (Some (k, target, cs), db', rt')" "length k = 32" "mj_write J p = Some b"
    "encrypt_envelope C (dl_seed io) (dl_nonce io) (dl_seal_time io) me rid k b = Some e" "send_envelope C J io self u addrs cs e = (out, sent)"
    using deliver_cases [OF assms(1)] assms(2) by auto
  then show ?thesis using resolved_key [OF d(2)] send_envelope_sealed [OF d(6)] assms(2) by blast
qed

section \<open>A success names who took the envelope\<close>

text \<open>Which addresses are asked over TCP too, and an address that acknowledged neither way.\<close>

definition has_bridge :: "socket_addr \<Rightarrow> bool" where
  "has_bridge a \<longleftrightarrow> port_of a = 8444 \<or> ip_is_loopback a"

definition direct_silent :: "direct_answer \<Rightarrow> socket_addr \<Rightarrow> bool" where
  "direct_silent d a \<longleftrightarrow> \<not> da_acked d \<and> \<not> (has_bridge a \<and> da_tcp d = TcpAcked)"

lemma tier_direct_route:
  "tier_direct ans self key val k as = (sent, r) \<Longrightarrow> (case r of
      None \<Rightarrow> \<forall>i < length as. direct_silent (ans (k + i)) (as ! i)
    | Some (DirectUdp a) \<Rightarrow> \<exists>i < length as. as ! i = a \<and> da_acked (ans (k + i)) \<and> SendStore a key val \<in> set sent
    | Some (DirectTcp a) \<Rightarrow> \<exists>i < length as. as ! i = a \<and> has_bridge a \<and> da_tcp (ans (k + i)) = TcpAcked \<and>
        SendTcp a (tcp_store_packet (da_tcp_id (ans (k + i))) self key val) \<in> set sent
    | Some _ \<Rightarrow> False)"
proof (induction ans self key val k as arbitrary: sent r rule: tier_direct.induct)
  case (2 ans self key val k a as)
  obtain sent' r' where rest: "tier_direct ans self key val (Suc k) as = (sent', r')" by fastforce
  note IH = "2.IH" [OF refl _ refl refl _ rest]
  let ?tcp = "(port_of a = 8444 \<or> ip_is_loopback a) \<and> da_tcp (ans k) \<noteq> NoConnection"
  consider (udp) "da_acked (ans k)" | (tcp) "\<not> da_acked (ans k)" "?tcp \<and> da_tcp (ans k) = TcpAcked"
    | (step) "\<not> da_acked (ans k)" "\<not> (?tcp \<and> da_tcp (ans k) = TcpAcked)" by blast
  then show ?case
  proof cases
    case step
    have on: "r = r'" "set sent' \<subseteq> set sent" using "2.prems" rest step by (auto simp: Let_def split: if_splits)
    note ih = IH [OF step]
    have "direct_silent (ans k) a" using step by (auto simp: direct_silent_def has_bridge_def)
    then have all: "\<forall>i < length (a # as). direct_silent (ans (k + i)) ((a # as) ! i)"
      if "\<forall>i < length as. direct_silent (ans (Suc k + i)) (as ! i)"
      using that by (auto simp: less_Suc_eq_0_disj)
    show ?thesis
    proof (cases r')
      case None
      then show ?thesis using ih on(1) all by simp
    next
      case (Some q)
      then show ?thesis using ih on by (cases q) (auto simp: Ex_less_Suc2)
    qed
  qed (use "2.prems" in \<open>auto simp: Let_def Ex_less_Suc2 has_bridge_def\<close>)
qed simp

lemma tier_punched_route:
  "tier_punched acked key val k as = (sent, r) \<Longrightarrow> (case r of
      None \<Rightarrow> \<forall>i < length as. \<not> acked (k + i)
    | Some (HolePunched a) \<Rightarrow> \<exists>i < length as. as ! i = a \<and> acked (k + i) \<and> SendStore a key val \<in> set sent
    | Some _ \<Rightarrow> False)"
proof (induction acked key val k as arbitrary: sent r rule: tier_punched.induct)
  case (2 acked key val k a as)
  show ?case
  proof (cases "acked k")
    case False
    obtain sent' r' where rest: "tier_punched acked key val (Suc k) as = (sent', r')" by fastforce
    have on: "r = r'" "set sent' \<subseteq> set sent" using "2.prems" False rest by auto
    note ih = "2.IH" [OF False rest]
    show ?thesis
    proof (cases r')
      case None
      then show ?thesis using ih on(1) False by (auto simp: less_Suc_eq_0_disj)
    next
      case (Some q)
      then show ?thesis using ih on by (cases q) (auto simp: Ex_less_Suc2)
    qed
  qed (use 2 in \<open>auto simp: Ex_less_Suc2\<close>)
qed simp

text \<open>The answer of the cascade, and what stands behind it.\<close>

definition mailbox_id :: "crypto \<Rightarrow> deliver_io \<Rightarrow> string \<Rightarrow> node_id" where
  "mailbox_id C io u = from_key (cr_sha1 C) (str_bytes (derive_secure_mailbox_key C u (dl_key_time io)))"

definition mailbox_found :: "msg_json \<Rightarrow> deliver_io \<Rightarrow> envelope list" where
  "mailbox_found J io = (case dl_mailbox io of Some b \<Rightarrow> parse_mailbox J b | None \<Rightarrow> [])"

text \<open>The addresses that returned the nonce, in the order in which they answered.\<close>

definition punched_addrs :: "deliver_io \<Rightarrow> socket_addr list \<Rightarrow> socket_addr list" where
  "punched_addrs io cs = (if cs = [] then [] else snd (punch_candidates_verified (dl_punch_nonce io) cs (dl_punch_replies io)))"

lemma punched_addrs_facts:
  assumes "length (dl_punch_nonce io) = 16"
  shows "distinct (punched_addrs io cs)" "set (punched_addrs io cs) = {a \<in> set cs. (HP_ACK @ dl_punch_nonce io, a) \<in> set (dl_punch_replies io)}"
  using verify_acks_facts [OF assms, where v = "[]" and cs = cs and rs = "dl_punch_replies io"]
  by (auto simp: punched_addrs_def punch_candidates_verified_def)

lemma send_envelope_outcome:
  assumes "send_envelope C J io self u addrs cs e = (out, sent)"
  defines "ps \<equiv> punched_addrs io cs"
  shows "case out of
      Inr (DirectUdp a) \<Rightarrow> \<exists>i < length addrs. addrs ! i = a \<and> da_acked (dl_direct io i) \<and> SendStore a (mailbox_id C io u) (single_envelope J e) \<in> set sent
    | Inr (DirectTcp a) \<Rightarrow> \<exists>i < length addrs. addrs ! i = a \<and> has_bridge a \<and> da_tcp (dl_direct io i) = TcpAcked \<and>
        SendTcp a (tcp_store_packet (da_tcp_id (dl_direct io i)) self (mailbox_id C io u) (single_envelope J e)) \<in> set sent
    | Inr (HolePunched a) \<Rightarrow> \<exists>i < length ps. ps ! i = a \<and> dl_punch_acked io i \<and> SendStore a (mailbox_id C io u) (single_envelope J e) \<in> set sent
    | Inr InMailbox \<Rightarrow> dl_put_ok io \<and> (\<exists>v. mj_write_list J (mailbox_with e (mailbox_found J io)) = Some v \<and>
        SendPut (derive_secure_mailbox_key C u (dl_deposit_time io)) v \<in> set sent)
    | Inl err \<Rightarrow> err = OtherError DepositFailed \<and> (\<forall>i < length addrs. direct_silent (dl_direct io i) (addrs ! i)) \<and>
        (\<forall>i < length ps. \<not> dl_punch_acked io i) \<and> (dl_put_ok io \<longrightarrow> mj_write_list J (mailbox_with e (mailbox_found J io)) = None)"
proof -
  let ?key = "mailbox_id C io u"
  obtain sent1 r1 where t1: "tier_direct (dl_direct io) self ?key (single_envelope J e) 0 addrs = (sent1, r1)" by fastforce
  note k = mailbox_id_def [of C io u, symmetric]
  show ?thesis
  proof (cases r1)
    case (Some r)
    then show ?thesis using assms(1) tier_direct_route [OF t1] t1 by (cases r) (auto simp: send_envelope_def k)
  next
    case None
    obtain probes punched where pr: "(if cs = [] then ([], []) else punch_candidates_verified (dl_punch_nonce io) cs (dl_punch_replies io)) = (probes, punched)"
      by fastforce
    obtain sent2 r2 where t2: "tier_punched (dl_punch_acked io) ?key (single_envelope J e) 0 punched = (sent2, r2)" by fastforce
    have v: "punched = ps" using pr by (auto simp: ps_def punched_addrs_def split: if_splits)
    show ?thesis
    proof (cases r2)
      case (Some r)
      then show ?thesis using assms(1) tier_punched_route [OF t2] t1 t2 pr None v by (cases r) (auto simp: send_envelope_def k)
    next
      case None2: None
      obtain ok sent3 where t3: "deposit_envelope_to_mailbox C J (dl_deposit_time io) (dl_mailbox io) (dl_put_ok io) u e = (ok, sent3)" by fastforce
      have o: "out = (if ok then Inr InMailbox else Inl (OtherError DepositFailed))" "set sent3 \<subseteq> set sent"
        using assms(1) t1 t2 t3 pr None None2 by (auto simp: send_envelope_def k)
      have "ok \<longrightarrow> dl_put_ok io \<and> (\<exists>v. mj_write_list J (mailbox_with e (mailbox_found J io)) = Some v \<and>
          SendPut (derive_secure_mailbox_key C u (dl_deposit_time io)) v \<in> set sent3)"
        "\<not> ok \<longrightarrow> dl_put_ok io \<longrightarrow> mj_write_list J (mailbox_with e (mailbox_found J io)) = None"
        using t3 by (auto simp: deposit_envelope_to_mailbox_def mailbox_found_def Let_def split: option.splits)
      then show ?thesis using o tier_direct_route [OF t1] tier_punched_route [OF t2] None None2 v by (cases ok) auto
    qed
  qed
qed

section \<open>What a delivery leaves in the database\<close>

definition only_contacts :: "messenger_db \<Rightarrow> messenger_db \<Rightarrow> bool" where
  "only_contacts db db' \<longleftrightarrow> db' = db\<lparr>db_contacts := db_contacts db'\<rparr> \<and> db_reaches db db'"

lemma only_contacts_refl [simp]: "only_contacts db db"
  by (simp add: only_contacts_def)

lemma only_contacts_fields:
  assumes "only_contacts db db'"
  shows "db_messages db' = db_messages db" "db_deleted db' = db_deleted db" "db_tombstones db' = db_tombstones db" "db_blocked db' = db_blocked db"
    "db_groups db' = db_groups db" "db_inv db \<Longrightarrow> db_inv db'"
proof -
  have e: "db' = db\<lparr>db_contacts := db_contacts db'\<rparr>" and r: "db_reaches db db'" using assms by (simp_all add: only_contacts_def)
  show "db_messages db' = db_messages db" by (subst e) simp
  show "db_deleted db' = db_deleted db" by (subst e) simp
  show "db_tombstones db' = db_tombstones db" by (subst e) simp
  show "db_blocked db' = db_blocked db" by (subst e) simp
  show "db_groups db' = db_groups db" by (subst e) simp
  show "db_inv db \<Longrightarrow> db_inv db'" by (rule db_reaches_inv [OF r])
qed

lemma resolve_by_card_frame:
  assumes "resolve_by_card C CJ show_addr io db rt = (r, db', rt')"
  shows "only_contacts db db' \<and> (rt_inv rt \<longrightarrow> rt_inv rt')"
proof -
  obtain d where d: "discover_peer C CJ show_addr (dl_instant io) (dl_found io) db rt = (d, db', rt')"
    using assms by (auto simp: resolve_by_card_def split: prod.splits sum.splits)
  show ?thesis
  proof (cases d)
    case (Inl e)
    then show ?thesis using discover_peer_refuses d by fastforce
  next
    case (Inr crd)
    have "db' = db_add_contact (card_contact show_addr crd db) db" using discover_peer_accepts d Inr by blast
    then show ?thesis using discover_peer_accepts [OF d [unfolded Inr]] discover_reaches [OF d]
      by (auto simp: only_contacts_def db_add_contact_def intro: rt_force_update_inv)
  qed
qed

lemma resolve_recipient_frame:
  assumes "resolve_recipient C CJ parse show_addr io u db rt = Done (r, db', rt')"
  shows "only_contacts db db' \<and> (rt_inv rt \<longrightarrow> rt_inv rt')"
  using assms resolve_by_card_frame [of C CJ show_addr io db rt r db' rt']
  by (auto simp: resolve_recipient_def exec_bind_def Let_def split: option.splits exec.splits if_splits)

lemma deliver_frame:
  assumes "try_deliver_payload C CJ J parse show_addr io self me u p db rt = Done (out, sent, db', rt')"
  shows "only_contacts db db' \<and> (rt_inv rt \<longrightarrow> rt_inv rt')"
  using assms resolve_recipient_frame [of C CJ parse show_addr io u db rt _ db' rt']
  by (auto simp: try_deliver_payload_def exec_bind_def Let_def split: exec.splits sum.splits prod.splits option.splits if_splits)

text \<open>With a usable contact nobody is asked for a card, and the key is the contact's.\<close>

lemma resolve_contact:
  assumes "map_of (db_contacts db) u = Some c" "sc_x25519_pub_hex c = to_hex k" "length k = 32" "\<not> contact_unusable c"
  shows "\<exists>t cs. resolve_recipient C CJ parse show_addr io u db rt = Done (Some (k, t, cs), db, rt)"
proof -
  have "hex_decode (to_hex k) = Done (Some k)" using assms(3) by (intro hex_decode_to_hex) auto
  then show ?thesis using assms by (simp add: resolve_recipient_def Let_def)
qed

lemma id_from_hex_id: "length (as_bytes i) = 20 \<Longrightarrow> id_from_hex (id_to_hex i) = Done (Ok i)"
  by (rule id_hex_roundtrip) (simp add: wf_id_def)

text \<open>What is sealed for a contact opens at its owner.\<close>

lemma delivered_opens:
  assumes C: "crypto_ok C" "identity_ok C me" "identity_ok C r" and n: "length (dl_nonce io) = 12"
    and c: "map_of (db_contacts db) (user_id_hex r) = Some c" "sc_x25519_pub_hex c = to_hex (ui_x25519_public r)" "\<not> contact_unusable c"
    and w: "mj_write J p = Some b" "length b < 2 ^ 32"
  shows "\<exists>e addrs cs out sent. encrypt_envelope C (dl_seed io) (dl_nonce io) (dl_seal_time io) me (ui_user_id r) (ui_x25519_public r) b = Some e \<and>
    decrypt_envelope C r e = Ok b \<and>
    send_envelope C J io self (user_id_hex r) addrs cs e = (out, sent) \<and>
    try_deliver_payload C CJ J parse show_addr io self me (user_id_hex r) p db rt = Done (out, sent, db, rt)"
proof -
  have x: "length (ui_x25519_public r) = 32" "length (as_bytes (ui_user_id r)) = 20"
    using C(3) crypto_lengths [OF C(1)] by (simp_all add: identity_ok_def from_key_def ffi_hash_node_id_def)
  obtain e where e: "encrypt_envelope C (dl_seed io) (dl_nonce io) (dl_seal_time io) me (ui_user_id r) (ui_x25519_public r) b = Some e"
    using encrypt_total [OF C(1) w(2)] by blast
  obtain t cs where rs: "resolve_recipient C CJ parse show_addr io (user_id_hex r) db rt = Done (Some (ui_x25519_public r, t, cs), db, rt)"
    using resolve_contact [OF c(1,2) x(1) c(3)] by blast
  have i: "id_from_hex (user_id_hex r) = Done (Ok (ui_user_id r))" using id_from_hex_id x(2) by (simp add: user_id_hex_def)
  let ?t = "case t of Some a \<Rightarrow> Some a | None \<Rightarrow> if dl_table_free io then map_option ct_addr (find (\<lambda>c. ct_id c = ui_user_id r) (all_contacts rt)) else None"
  let ?addrs = "case ?t of Some a \<Rightarrow> if a \<in> set cs then cs else a # cs | None \<Rightarrow> cs"
  obtain out sent where s: "send_envelope C J io self (user_id_hex r) ?addrs cs e = (out, sent)" by (cases "send_envelope C J io self (user_id_hex r) ?addrs cs e")
  then have "try_deliver_payload C CJ J parse show_addr io self me (user_id_hex r) p db rt = Done (out, sent, db, rt)"
    unfolding try_deliver_payload_def i rs using w(1) x(1) e by (simp only: exec_bind_simps sum.case option.case prod.case Let_def) simp
  then show ?thesis using e envelope_opens [OF C n e] s by blast
qed

end
