(* ===== verification/Db_File.thy ===== *)
theory Db_File
  imports Message_Db Envelope_Crypto
begin

text \<open>
  The database file (\<open>db.rs\<close>): the key of the installation with its cache, loading and saving, encrypted backups,
  and \<open>wipe_local_data\<close> of \<open>messenger.rs\<close>. The file system is explicit: the contents of the database, the key file
  and the \<open>.bak\<close> copy are the state, the outcome of each operation on them is an argument. A path and the
  canonical path that the system gives for it are two keys of the cache. JSON and Argon2 are parameters.

  The lemmas show that what is saved is loaded, that no new key is made while a database exists, that only encrypted
  files are read, that backups come back under their password, and how a wiped database is lost: the cache keeps the
  old key under the canonical path.
\<close>

section \<open>Files\<close>

record db_files =
  df_cache :: "(string \<times> bytes) list"
  df_key :: "bytes option"
  df_db :: "bytes option"
  df_bak :: "(bytes \<times> instant) option"

text \<open>How a write ends: what is on the disk afterwards when it fails is anything.\<close>

datatype write_outcome = Written | WriteFailed "bytes option"

definition written :: "write_outcome \<Rightarrow> bytes \<Rightarrow> bytes option" where
  "written w b = (case w of Written \<Rightarrow> Some b | WriteFailed left \<Rightarrow> left)"

record file_io =
  io_key_write :: write_outcome
  io_key_readable :: bool
  io_db_readable :: bool
  io_backup :: "bytes option \<Rightarrow> bool"
  io_tmp_write :: bool
  io_rename :: bool
  io_copy :: write_outcome

definition io_fine :: file_io where
  "io_fine = \<lparr>io_key_write = Written, io_key_readable = True, io_db_readable = True, io_backup = (\<lambda>_. True),
     io_tmp_write = True, io_rename = True, io_copy = Written\<rparr>"

datatype db_error = ReadFailed | KeyMissing | KeyWriteFailed | CorruptHeader | DecryptFailed | ParseFailed | LegacyFormat
  | SerializeFailed | EncryptFailed | TmpWriteFailed | CopyFailed | BadBackup | BadBackupHeader | Argon2Failed

text \<open>The JSON library on databases.\<close>

record db_json =
  dj_write :: "messenger_db \<Rightarrow> bytes option"
  dj_read :: "bytes \<Rightarrow> messenger_db option"

definition DB_MAGIC_V2 :: bytes where "DB_MAGIC_V2 = str_bytes ''NODEXENC2''"
definition BACKUP_MAGIC :: bytes where "BACKUP_MAGIC = str_bytes ''NODEXBAK1''"
definition BACKUP_ARGON2_MARKER :: bytes where "BACKUP_ARGON2_MARKER = str_bytes ''ARGON2ID''"

definition has_prefix :: "bytes \<Rightarrow> bytes \<Rightarrow> bool" where
  "has_prefix p b \<longleftrightarrow> take (length p) b = p"

section \<open>The key of the installation\<close>

text \<open>\<open>canonicalize\<close> succeeds exactly for a file that exists.\<close>

definition abs_path :: "string \<Rightarrow> string \<Rightarrow> db_files \<Rightarrow> string" where
  "abs_path p canon s = (if df_db s = None then p else canon)"

definition forget_instance_key :: "string \<Rightarrow> string \<Rightarrow> db_files \<Rightarrow> db_files" where
  "forget_instance_key p canon s = s\<lparr>df_cache := map_del p (map_del (abs_path p canon s) (df_cache s))\<rparr>"

text \<open>A new key, unless there is a database that it could not read.\<close>

definition create_instance_key :: "file_io \<Rightarrow> bytes \<Rightarrow> string \<Rightarrow> db_files \<Rightarrow> (db_error + bytes) \<times> db_files" where
  "create_instance_key io rnd a s =
     (if df_db s \<noteq> None \<and> df_db s \<noteq> Some [] then (Err KeyMissing, s)
      else (let s' = s\<lparr>df_key := written (io_key_write io) rnd\<rparr> in
        if io_key_write io = Written then (Ok rnd, s'\<lparr>df_cache := map_put a rnd (df_cache s')\<rparr>)
        else (Err KeyWriteFailed, s')))"

definition get_or_create_instance_key ::
    "file_io \<Rightarrow> bytes \<Rightarrow> string \<Rightarrow> string \<Rightarrow> db_files \<Rightarrow> (db_error + bytes) \<times> db_files" where
  "get_or_create_instance_key io rnd p canon s =
     (let a = abs_path p canon s in
      case map_of (df_cache s) a of
        Some k \<Rightarrow> (Ok k, if df_key s = None then s\<lparr>df_key := written (io_key_write io) k\<rparr> else s)
      | None \<Rightarrow>
          (case (if io_key_readable io then df_key s else None) of
             Some d \<Rightarrow> if length d = 32 then (Ok d, s\<lparr>df_cache := map_put a d (df_cache s)\<rparr>)
               else create_instance_key io rnd a s
           | None \<Rightarrow> create_instance_key io rnd a s))"

section \<open>Loading and saving\<close>

definition derive_cipher_key :: "crypto \<Rightarrow> bytes \<Rightarrow> bytes \<Rightarrow> bytes" where
  "derive_cipher_key C master salt = cr_sha256 C (str_bytes ''NODEX_DB_CIPHER_KEY_DERIVATION_V2'' @ master @ salt)"

definition decrypt_db_bytes :: "crypto \<Rightarrow> db_json \<Rightarrow> bytes \<Rightarrow> bytes \<Rightarrow> db_error + messenger_db" where
  "decrypt_db_bytes C J key dat =
     (if has_prefix DB_MAGIC_V2 dat then
        (if length dat < 9 + 16 + 12 then Err CorruptHeader
         else (let salt = take 16 (drop 9 dat); nonce = take 12 (drop 25 dat); ct = drop 37 dat in
           case cr_open C (derive_cipher_key C key salt) nonce [] ct of
             None \<Rightarrow> Err DecryptFailed
           | Some pt \<Rightarrow> (case dj_read J pt of None \<Rightarrow> Err ParseFailed | Some db \<Rightarrow> Ok db)))
      else Err LegacyFormat)"

definition load_from_file ::
    "crypto \<Rightarrow> db_json \<Rightarrow> file_io \<Rightarrow> bytes \<Rightarrow> string \<Rightarrow> string \<Rightarrow> db_files \<Rightarrow> (db_error + messenger_db) \<times> db_files" where
  "load_from_file C J io rnd p canon s = (case df_db s of
      None \<Rightarrow> (Ok db_default, s)
    | Some dat \<Rightarrow>
        if \<not> io_db_readable io then (Err ReadFailed, s)
        else if dat = [] then (Ok db_default, s)
        else (case get_or_create_instance_key io rnd p canon s of
            (Inl e, s') \<Rightarrow> (Err e, s')
          | (Inr key, s') \<Rightarrow> (decrypt_db_bytes C J key dat, s')))"

definition db_bytes :: "bytes \<Rightarrow> bytes \<Rightarrow> bytes \<Rightarrow> bytes" where
  "db_bytes salt nonce ct = DB_MAGIC_V2 @ salt @ nonce @ ct"

definition should_backup :: "instant \<Rightarrow> db_files \<Rightarrow> bool" where
  "should_backup now s = (case df_bak s of
      None \<Rightarrow> True
    | Some (_, mtime) \<Rightarrow> now < mtime \<or> (now - mtime) div 1000000000 > 60)"

definition rotate_backup :: "file_io \<Rightarrow> instant \<Rightarrow> db_files \<Rightarrow> db_files" where
  "rotate_backup io now s = (case df_db s of
      None \<Rightarrow> s
    | Some old \<Rightarrow> if should_backup now s \<and> io_backup io (Some old) then s\<lparr>df_bak := Some (old, now)\<rparr> else s)"

definition replace_db :: "file_io \<Rightarrow> bytes \<Rightarrow> db_files \<Rightarrow> (db_error + unit) \<times> db_files" where
  "replace_db io out s =
     (if \<not> io_tmp_write io then (Err TmpWriteFailed, s)
      else if io_rename io then (Ok (), s\<lparr>df_db := Some out\<rparr>)
      else (case io_copy io of
          Written \<Rightarrow> (Ok (), s\<lparr>df_db := Some out\<rparr>)
        | WriteFailed left \<Rightarrow> (Err CopyFailed, s\<lparr>df_db := left\<rparr>)))"

definition save_to_file ::
    "crypto \<Rightarrow> db_json \<Rightarrow> file_io \<Rightarrow> bytes \<Rightarrow> bytes \<Rightarrow> bytes \<Rightarrow> instant \<Rightarrow> string \<Rightarrow> string \<Rightarrow> messenger_db \<Rightarrow> db_files \<Rightarrow>
     (db_error + unit) \<times> db_files" where
  "save_to_file C J io rnd salt nonce now p canon db s = (case get_or_create_instance_key io rnd p canon s of
      (Inl e, s1) \<Rightarrow> (Err e, s1)
    | (Inr key, s1) \<Rightarrow> (case dj_write J db of
          None \<Rightarrow> (Err SerializeFailed, s1)
        | Some pt \<Rightarrow> (case cr_seal C (derive_cipher_key C key salt) nonce [] pt of
              None \<Rightarrow> (Err EncryptFailed, s1)
            | Some ct \<Rightarrow> replace_db io (db_bytes salt nonce ct) (rotate_backup io now s1))))"

section \<open>Backups\<close>

definition legacy_backup_key :: "crypto \<Rightarrow> string \<Rightarrow> bytes \<Rightarrow> bytes" where
  "legacy_backup_key C password salt = cr_sha256 C (str_bytes ''NODEX_ENCRYPTED_BACKUP_V1'' @ str_bytes password @ salt)"

definition export_encrypted_backup ::
    "crypto \<Rightarrow> db_json \<Rightarrow> (bytes \<Rightarrow> bytes \<Rightarrow> bytes option) \<Rightarrow> bytes \<Rightarrow> bytes \<Rightarrow> string \<Rightarrow> messenger_db \<Rightarrow> db_error + bytes" where
  "export_encrypted_backup C J argon2 salt nonce password db = (case dj_write J db of
      None \<Rightarrow> Err SerializeFailed
    | Some pt \<Rightarrow> (case argon2 (str_bytes password) salt of
          None \<Rightarrow> Err Argon2Failed
        | Some key \<Rightarrow> (case cr_seal C key nonce [] pt of
              None \<Rightarrow> Err EncryptFailed
            | Some ct \<Rightarrow> Ok (BACKUP_MAGIC @ BACKUP_ARGON2_MARKER @ salt @ nonce @ ct))))"

definition import_encrypted_backup ::
    "crypto \<Rightarrow> db_json \<Rightarrow> (bytes \<Rightarrow> bytes \<Rightarrow> bytes option) \<Rightarrow> string \<Rightarrow> bytes \<Rightarrow> db_error + messenger_db" where
  "import_encrypted_backup C J argon2 password dat =
     (if \<not> has_prefix BACKUP_MAGIC dat \<or> length dat < 9 + 16 + 12 then Err BadBackup
      else (let is_argon2 = has_prefix BACKUP_ARGON2_MARKER (drop 9 dat); off = (if is_argon2 then 9 + 8 else 9) in
        if length dat < off + 16 + 12 then Err BadBackupHeader
        else (let salt = take 16 (drop off dat); nonce = take 12 (drop (off + 16) dat); ct = drop (off + 28) dat in
          case (if is_argon2 then argon2 (str_bytes password) salt else Some (legacy_backup_key C password salt)) of
            None \<Rightarrow> Err Argon2Failed
          | Some key \<Rightarrow> (case cr_open C key nonce [] ct of
                None \<Rightarrow> Err DecryptFailed
              | Some pt \<Rightarrow> (case dj_read J pt of None \<Rightarrow> Err ParseFailed | Some db \<Rightarrow> Ok db)))))"

section \<open>Wiping\<close>

text \<open>The files that \<open>wipe_local_data\<close> removes, before it forgets the key; \<open>removed\<close> tells whether the database file
  could be removed.\<close>

definition wipe_files :: "bool \<Rightarrow> bool \<Rightarrow> string \<Rightarrow> string \<Rightarrow> db_files \<Rightarrow> db_files" where
  "wipe_files db_removed key_removed p canon s =
     (let s1 = (if db_removed then s\<lparr>df_db := None\<rparr> else s); s2 = (if key_removed then s1\<lparr>df_key := None\<rparr> else s1) in
      forget_instance_key p canon s2)"

text \<open>Another start of the program: the cache is empty.\<close>

definition restarted :: "db_files \<Rightarrow> db_files" where
  "restarted s = s\<lparr>df_cache := []\<rparr>"

section \<open>What is saved is loaded\<close>

definition db_json_ok :: "db_json \<Rightarrow> bool" where
  "db_json_ok J \<longleftrightarrow> (\<forall>db b. dj_write J db = Some b \<longrightarrow> dj_read J b = Some db)"

lemma has_prefix_append [simp]: "has_prefix p (p @ b)"
  by (simp add: has_prefix_def)

lemma length_magic_v2 [simp]: "length DB_MAGIC_V2 = 9"
  by (simp add: DB_MAGIC_V2_def)

lemma decrypt_db_bytes_eq:
  assumes "length salt = 16" "length nonce = 12"
  shows "decrypt_db_bytes C J key (db_bytes salt nonce ct) = (case cr_open C (derive_cipher_key C key salt) nonce [] ct of
      None \<Rightarrow> Err DecryptFailed
    | Some pt \<Rightarrow> (case dj_read J pt of None \<Rightarrow> Err ParseFailed | Some db \<Rightarrow> Ok db))"
proof -
  have "take 16 (drop 9 (db_bytes salt nonce ct)) = salt" "take 12 (drop 25 (db_bytes salt nonce ct)) = nonce"
    "drop 37 (db_bytes salt nonce ct) = ct" "length (db_bytes salt nonce ct) = 37 + length ct"
    using assms by (simp_all add: db_bytes_def)
  moreover have "has_prefix DB_MAGIC_V2 (db_bytes salt nonce ct)" by (simp add: db_bytes_def)
  ultimately show ?thesis by (simp add: decrypt_db_bytes_def)
qed

lemma decrypt_db_bytes_ok:
  assumes "crypto_ok C" "db_json_ok J" "length salt = 16" "length nonce = 12" "dj_write J db = Some pt"
    "cr_seal C (derive_cipher_key C key salt) nonce [] pt = Some ct"
  shows "decrypt_db_bytes C J key (db_bytes salt nonce ct) = Ok db"
  using seal_open [OF assms(1,6)] assms(2,5) by (auto simp: decrypt_db_bytes_eq [OF assms(3,4)] db_json_ok_def)

text \<open>Everything that names the key names the same one.\<close>

definition keys_agree :: "string \<Rightarrow> string \<Rightarrow> db_files \<Rightarrow> bytes \<Rightarrow> bool" where
  "keys_agree p canon s k \<longleftrightarrow> length k = 32 \<and> map_of (df_cache s) p \<in> {None, Some k} \<and> map_of (df_cache s) canon \<in> {None, Some k} \<and>
     df_key s \<in> {None, Some k} \<and> (df_key s = None \<longrightarrow> map_of (df_cache s) p = map_of (df_cache s) canon)"

lemma create_key_facts:
  assumes "create_instance_key io rnd a s = (Ok k, s')"
  shows "k = rnd \<and> io_key_write io = Written \<and> s' = s\<lparr>df_key := Some k, df_cache := map_put a k (df_cache s)\<rparr>"
  using assms by (auto simp: create_instance_key_def written_def Let_def split: if_splits)

lemma get_key_frame:
  "get_or_create_instance_key io rnd p canon s = (r, s') \<Longrightarrow> df_db s' = df_db s \<and> df_bak s' = df_bak s"
  by (auto simp: get_or_create_instance_key_def create_instance_key_def Let_def split: option.splits if_splits)

text \<open>A key that is found is cached afterwards.\<close>

lemma get_key_cached:
  assumes "get_or_create_instance_key io rnd p canon s = (Ok k, s')"
  shows "map_of (df_cache s') (abs_path p canon s) = Some k"
  using assms by (auto simp: get_or_create_instance_key_def Let_def dest!: create_key_facts split: option.splits if_splits)

lemma agree_put: "keys_agree p canon s k \<Longrightarrow> q = p \<or> q = canon \<Longrightarrow> df_key s = Some k \<Longrightarrow>
    keys_agree p canon (s\<lparr>df_cache := map_put q k (df_cache s)\<rparr>) k"
  unfolding keys_agree_def by auto

lemma agree_new: "length k = 32 \<Longrightarrow> map_of (df_cache s) p = None \<Longrightarrow> map_of (df_cache s) canon = None \<Longrightarrow> q = p \<or> q = canon \<Longrightarrow>
    keys_agree p canon (s\<lparr>df_key := Some k, df_cache := map_put q k (df_cache s)\<rparr>) k"
  unfolding keys_agree_def by auto

lemma get_key_agree:
  assumes "keys_agree p canon s k0" "length rnd = 32" "io_key_write io = Written" "io_key_readable io"
    "get_or_create_instance_key io rnd p canon s = (Ok k, s')"
  shows "keys_agree p canon s' k \<and> df_key s' = Some k"
proof -
  define a where "a = abs_path p canon s"
  have a: "a = p \<or> a = canon" by (simp add: a_def abs_path_def)
  note k0 = assms(1) [unfolded keys_agree_def]
  note g = assms(5) [unfolded get_or_create_instance_key_def Let_def, folded a_def]
  show ?thesis
  proof (cases "map_of (df_cache s) a")
    case (Some k1)
    then have "k1 = k0" using k0 a by auto
    then have e: "k = k0" "s' = (if df_key s = None then s\<lparr>df_key := Some k0\<rparr> else s)"
      using g Some assms(3) by (auto simp: written_def)
    show ?thesis using k0 unfolding e(1) e(2) keys_agree_def by auto
  next
    case cold: None
    show ?thesis
    proof (cases "df_key s")
      case None
      then have e: "k = rnd" "s' = s\<lparr>df_key := Some k, df_cache := map_put a k (df_cache s)\<rparr>"
        using assms(4) g cold by (auto dest: create_key_facts)
      have "map_of (df_cache s) p = None" "map_of (df_cache s) canon = None" using None k0 cold a by auto
      then show ?thesis using agree_new [OF _ _ _ a, of k s] assms(2) unfolding e(2) using e(1) by simp
    next
      case (Some d)
      then have d: "d = k0" "length d = 32" using k0 by auto
      then have e: "k = k0" "s' = s\<lparr>df_cache := map_put a k0 (df_cache s)\<rparr>" using Some g cold assms(4) by auto
      show ?thesis unfolding e using agree_put [OF assms(1) a] Some d(1) by simp
    qed
  qed
qed

lemma save_to_file_cases:
  assumes "save_to_file C J io rnd salt nonce now p canon db s = (Ok (), s')"
  shows "\<exists>k s1 pt ct. get_or_create_instance_key io rnd p canon s = (Ok k, s1) \<and> dj_write J db = Some pt \<and>
    cr_seal C (derive_cipher_key C k salt) nonce [] pt = Some ct \<and>
    s' = (rotate_backup io now s1)\<lparr>df_db := Some (db_bytes salt nonce ct)\<rparr>"
  using assms by (auto simp: save_to_file_def replace_db_def split: prod.splits sum.splits option.splits if_splits write_outcome.splits)

lemma rotate_backup_frame: "df_cache (rotate_backup io now s) = df_cache s \<and> df_key (rotate_backup io now s) = df_key s \<and>
    df_db (rotate_backup io now s) = df_db s"
  by (simp add: rotate_backup_def split: option.split)

lemma db_bytes_nonempty: "db_bytes salt nonce ct \<noteq> []"
  by (simp add: db_bytes_def DB_MAGIC_V2_def)

text \<open>Saving and loading, in the same run of the program or after a restart.\<close>

lemma save_load:
  assumes "crypto_ok C" "db_json_ok J" "length salt = 16" "length nonce = 12" "keys_agree p canon s k0" "length rnd = 32"
    "io_key_write io = Written" "io_key_readable io" "io_db_readable io"
    "save_to_file C J io rnd salt nonce now p canon db s = (Ok (), s')"
  shows "fst (load_from_file C J io rnd' p canon s') = Ok db" "fst (load_from_file C J io rnd' p canon (restarted s')) = Ok db"
    "\<exists>k. keys_agree p canon s' k"
proof -
  obtain k s1 pt ct where sv: "get_or_create_instance_key io rnd p canon s = (Ok k, s1)" "dj_write J db = Some pt"
    "cr_seal C (derive_cipher_key C k salt) nonce [] pt = Some ct"
    "s' = (rotate_backup io now s1)\<lparr>df_db := Some (db_bytes salt nonce ct)\<rparr>"
    using save_to_file_cases [OF assms(10)] by blast
  have k: "keys_agree p canon s1 k" "df_key s1 = Some k" using get_key_agree [OF assms(5-8) sv(1)] by simp_all
  have s': "df_cache s' = df_cache s1" "df_key s' = Some k" "df_db s' = Some (db_bytes salt nonce ct)"
    using rotate_backup_frame [of io now s1] k(2) by (simp_all add: sv(4))
  have ok: "decrypt_db_bytes C J k (db_bytes salt nonce ct) = Ok db"
    by (rule decrypt_db_bytes_ok [OF assms(1-4) sv(2,3)])
  have c: "map_of (df_cache s1) canon \<in> {None, Some k}" "length k = 32" using k(1) by (auto simp: keys_agree_def)
  have "\<exists>s2. get_or_create_instance_key io rnd' p canon s' = (Ok k, s2)"
    using c s' assms(8) by (auto simp: get_or_create_instance_key_def abs_path_def)
  then show "fst (load_from_file C J io rnd' p canon s') = Ok db"
    using s'(3) ok assms(9) db_bytes_nonempty [of salt nonce ct] by (auto simp: load_from_file_def)
  have "\<exists>s2. get_or_create_instance_key io rnd' p canon (restarted s') = (Ok k, s2)"
    using c(2) s' assms(8) by (auto simp: get_or_create_instance_key_def abs_path_def restarted_def)
  then show "fst (load_from_file C J io rnd' p canon (restarted s')) = Ok db"
    using s'(3) ok assms(9) db_bytes_nonempty [of salt nonce ct] by (auto simp: load_from_file_def restarted_def)
  show "\<exists>k. keys_agree p canon s' k" using k s' by (auto simp: keys_agree_def)
qed

text \<open>While a database exists the key is the cached one or that of the key file, never a new one.\<close>

lemma no_new_key:
  assumes "df_db s = Some b" "b \<noteq> []" "get_or_create_instance_key io rnd p canon s = (r, s')"
  shows "(case r of Inl e \<Rightarrow> e = KeyMissing \<and> s' = s
    | Inr k \<Rightarrow> map_of (df_cache s) canon = Some k \<or> (map_of (df_cache s) canon = None \<and> df_key s = Some k \<and> df_key s' = Some k))"
  using assms by (auto simp: get_or_create_instance_key_def create_instance_key_def abs_path_def split: option.splits if_splits)

text \<open>A save that fails keeps the old database, but for a failed copy on a system that can not rename.\<close>

lemma failed_save_keeps:
  assumes "save_to_file C J io rnd salt nonce now p canon db s = (Inl e, s')" "e \<noteq> CopyFailed"
  shows "df_db s' = df_db s"
  using assms rotate_backup_frame get_key_frame
  by (auto simp: save_to_file_def replace_db_def split: prod.splits sum.splits option.splits if_splits write_outcome.splits)

text \<open>What is loaded was sealed: text that is not encrypted is refused.\<close>

lemma loaded_sealed:
  assumes "load_from_file C J io rnd p canon s = (Ok db, s')" "df_db s = Some dat" "dat \<noteq> []"
  shows "\<exists>key pt. has_prefix DB_MAGIC_V2 dat \<and> 37 \<le> length dat \<and> dj_read J pt = Some db \<and>
    cr_open C (derive_cipher_key C key (take 16 (drop 9 dat))) (take 12 (drop 25 dat)) [] (drop 37 dat) = Some pt"
  using assms by (auto simp: load_from_file_def decrypt_db_bytes_def Let_def split: if_splits prod.splits sum.splits option.splits)

section \<open>Backups come back\<close>

lemma backup_roundtrip:
  assumes "crypto_ok C" "db_json_ok J" "length salt = 16" "length nonce = 12"
    "export_encrypted_backup C J argon2 salt nonce password db = Ok dat"
  shows "import_encrypted_backup C J argon2 password dat = Ok db"
proof -
  obtain pt key ct where e: "dj_write J db = Some pt" "argon2 (str_bytes password) salt = Some key" "cr_seal C key nonce [] pt = Some ct"
    "dat = BACKUP_MAGIC @ BACKUP_ARGON2_MARKER @ salt @ nonce @ ct"
    using assms(5) by (auto simp: export_encrypted_backup_def split: option.splits)
  have o: "cr_open C key nonce [] ct = Some pt" "dj_read J pt = Some db"
    using seal_open [OF assms(1) e(3)] assms(2) e(1) by (auto simp: db_json_ok_def)
  have l: "length BACKUP_MAGIC = 9" "length BACKUP_ARGON2_MARKER = 8" by (simp_all add: BACKUP_MAGIC_def BACKUP_ARGON2_MARKER_def)
  have d: "drop 9 dat = BACKUP_ARGON2_MARKER @ salt @ nonce @ ct" "take 16 (drop 17 dat) = salt" "take 12 (drop 33 dat) = nonce"
    "drop 45 dat = ct" "has_prefix BACKUP_MAGIC dat" "length dat = 45 + length ct"
    using assms(3,4) l by (simp_all add: e(4))
  have "has_prefix BACKUP_ARGON2_MARKER (drop 9 dat)" unfolding d(1) by simp
  then show ?thesis using d(2-6) e(2) o by (simp add: import_encrypted_backup_def)
qed

section \<open>A wiped database\<close>

text \<open>The path of the program is relative, so the canonical path is another one. Wiping removes the files first and
  asks for the canonical path afterwards, when there is none: the old key stays in the cache. The first save then makes
  a new key, the second one encrypts with the old key, and the key file has the new one. After a restart the
  database is read with the wrong key.\<close>

lemma wiped_files: "wipe_files True True p canon s = s\<lparr>df_db := None, df_key := None, df_cache := map_del p (map_del p (df_cache s))\<rparr>"
  by (simp add: wipe_files_def forget_instance_key_def abs_path_def)

lemma wiped_then_lost:
  assumes C: "crypto_ok C" "db_json_ok J" "length rnd = 32" "length salt = 16" "length nonce = 12" and p: "p \<noteq> canon"
    and s: "map_of (df_cache s) canon = Some old"
    and s1: "save_to_file C J io_fine rnd salt1 nonce1 now1 p canon db1 (wipe_files True True p canon s) = (Ok (), s1)"
    and s2: "save_to_file C J io_fine rnd2 salt nonce now2 p canon db2 s1 = (Ok (), s2)"
  shows "\<exists>ct. df_db s2 = Some (db_bytes salt nonce ct) \<and> decrypt_db_bytes C J old (db_bytes salt nonce ct) = Ok db2 \<and>
    fst (load_from_file C J io_fine rnd3 p canon (restarted s2)) =
      (case cr_open C (derive_cipher_key C rnd salt) nonce [] ct of None \<Rightarrow> Err DecryptFailed
       | Some pt \<Rightarrow> (case dj_read J pt of None \<Rightarrow> Err ParseFailed | Some db \<Rightarrow> Ok db))"
proof -
  let ?w = "wipe_files True True p canon s"
  have w: "df_db ?w = None" "df_key ?w = None" "map_of (df_cache ?w) p = None" "map_of (df_cache ?w) canon = Some old"
    using p s by (simp_all add: wiped_files map_of_del)
  obtain k t pt ct where g1: "get_or_create_instance_key io_fine rnd p canon ?w = (Ok k, t)"
    "s1 = (rotate_backup io_fine now1 t)\<lparr>df_db := Some (db_bytes salt1 nonce1 ct)\<rparr>"
    using save_to_file_cases [OF s1] by blast
  have t: "k = rnd" "t = ?w\<lparr>df_key := Some rnd, df_cache := map_put p rnd (df_cache ?w)\<rparr>"
    using g1(1) w by (auto simp: get_or_create_instance_key_def abs_path_def io_fine_def dest: create_key_facts)
  have s1': "df_key s1 = Some rnd" "map_of (df_cache s1) canon = Some old" "df_db s1 \<noteq> None"
    using rotate_backup_frame [of io_fine now1 t] w(4) p by (simp_all add: g1(2) t(2))
  obtain k2 t2 pt2 ct2 where g2: "get_or_create_instance_key io_fine rnd2 p canon s1 = (Ok k2, t2)" "dj_write J db2 = Some pt2"
    "cr_seal C (derive_cipher_key C k2 salt) nonce [] pt2 = Some ct2"
    "s2 = (rotate_backup io_fine now2 t2)\<lparr>df_db := Some (db_bytes salt nonce ct2)\<rparr>"
    using save_to_file_cases [OF s2] by blast
  have t2: "k2 = old" "t2 = s1" using g2(1) s1' by (auto simp: get_or_create_instance_key_def abs_path_def)
  have s2': "df_db s2 = Some (db_bytes salt nonce ct2)" "df_key s2 = Some rnd"
    using rotate_backup_frame [of io_fine now2 t2] s1'(1) by (simp_all add: g2(4) t2(2))
  have "decrypt_db_bytes C J old (db_bytes salt nonce ct2) = Ok db2"
    using decrypt_db_bytes_ok [OF C(1,2,4,5) g2(2)] g2(3) t2(1) by blast
  moreover have "fst (get_or_create_instance_key io_fine rnd3 p canon (restarted s2)) = Ok rnd"
    using s2' C(3) by (simp add: get_or_create_instance_key_def restarted_def io_fine_def)
  then have "fst (load_from_file C J io_fine rnd3 p canon (restarted s2)) = decrypt_db_bytes C J rnd (db_bytes salt nonce ct2)"
    using s2'(1) db_bytes_nonempty [of salt nonce ct2]
    by (cases "get_or_create_instance_key io_fine rnd3 p canon (restarted s2)")
      (simp add: load_from_file_def restarted_def io_fine_def)
  ultimately show ?thesis using s2'(1) decrypt_db_bytes_eq [OF C(4,5), of C J rnd ct2] by auto
qed

text \<open>With the canonical path the key is forgotten, and the next one is the only one.\<close>

lemma wiped_canonical: "length rnd = 32 \<Longrightarrow> keys_agree p p (wipe_files True True p p s) rnd"
  by (simp add: wiped_files keys_agree_def map_of_del)

text \<open>What a wiped database still holds.\<close>

lemma wiped_db_leftovers: "db_groups (wiped_db db) = db_groups db \<and> db_pinned (wiped_db db) = db_pinned db \<and>
    db_tombstones (wiped_db db) = db_tombstones db"
  by (simp add: wiped_db_def)

end
