(* ===== verification/Messenger.thy ===== *)
theory Messenger
  imports Cascade Db_File
begin

text \<open>
  \<open>KadMessenger\<close> itself (\<open>messenger.rs\<close>): its start from the database file, the identity it takes, and what the user does
  with it: sending messages, files, voice notes, reactions, edits, deletions and group messages, blocking, clearing and
  wiping. The state of the receiving side (\<open>inbox_state\<close>) is the state here too; what is written to the database file is
  \<open>save_to_file\<close> after every change.

  The lemmas show that a restart keeps the identity and the database, that every operation keeps the invariants, that a
  message reaches the database of its recipient and comes back as delivered, and which undelivered message never can.
\<close>

section \<open>Identity\<close>

text \<open>The identity that a start takes, and the mnemonic that goes into the database when one was made.\<close>

definition choose_identity ::
    "crypto \<Rightarrow> mnemonics \<Rightarrow> bytes \<Rightarrow> bytes \<Rightarrow> messenger_db \<Rightarrow> string + user_identity \<times> string option" where
  "choose_identity C M entropy seed db =
     (if db_mnemonic db \<noteq> [] then (case identity_from_mnemonic C M (db_mnemonic db) of
          Inl e \<Rightarrow> Err e
        | Inr me \<Rightarrow> Ok (me, None))
      else if db_user_seed db \<noteq> replicate 32 0 then Ok (identity_from_seed C (db_user_seed db), None)
      else (case generate_mnemonic C M entropy of
          Inr (mn, me) \<Rightarrow> Ok (me, Some mn)
        | Inl _ \<Rightarrow> Ok (identity_from_seed C seed, Some [])))"

definition started_db :: "string \<Rightarrow> user_identity \<Rightarrow> string option \<Rightarrow> messenger_db \<Rightarrow> messenger_db" where
  "started_db name me mn db =
     (let db = (if name \<noteq> [] \<and> name \<noteq> ''UserNode'' \<and> name \<noteq> ''NodeX User'' then db\<lparr>db_display_name := name\<rparr> else db);
          db = db\<lparr>db_user_seed := ui_signing_key me\<rparr> in
      case mn of Some m \<Rightarrow> db\<lparr>db_mnemonic := m\<rparr> | None \<Rightarrow> db)"

text \<open>Times and random bytes of a start.\<close>

record start_io =
  so_entropy :: bytes
  so_seed :: bytes
  so_load_rnd :: bytes
  so_save_rnd :: bytes
  so_salt :: bytes
  so_nonce :: bytes
  so_instant :: instant
  so_now :: u64

datatype start_error = LoadFailed db_error | BadMnemonic string

definition messenger_start ::
    "crypto \<Rightarrow> mnemonics \<Rightarrow> db_json \<Rightarrow> file_io \<Rightarrow> start_io \<Rightarrow> string \<Rightarrow> string \<Rightarrow> string \<Rightarrow> routing_table \<Rightarrow> db_files \<Rightarrow>
     (start_error + user_identity \<times> inbox_state) \<times> db_files" where
  "messenger_start C M DJ fio io p canon name rt files = (case load_from_file C DJ fio (so_load_rnd io) p canon files of
      (Inl e, files) \<Rightarrow> (Err (LoadFailed e), files)
    | (Inr db, files) \<Rightarrow> (case choose_identity C M (so_entropy io) (so_seed io) db of
          Inl e \<Rightarrow> (Err (BadMnemonic e), files)
        | Inr (me, mn) \<Rightarrow>
            (let db = started_db name me mn db;
                 (_, files) = save_to_file C DJ fio (so_save_rnd io) (so_salt io) (so_nonce io) (so_instant io) p canon db files in
             (Ok (me, \<lparr>ib_db = db, ib_queue = restore_outbox (so_now io) (user_id_hex me) db, ib_cache = [], ib_table = rt\<rparr>), files))))"

definition restore_mnemonic :: "crypto \<Rightarrow> mnemonics \<Rightarrow> string \<Rightarrow> string option \<Rightarrow> messenger_db \<Rightarrow> string + user_identity \<times> messenger_db" where
  "restore_mnemonic C M mn name db = (case identity_from_mnemonic C M (rust_trim mn) of
      Inl e \<Rightarrow> Err e
    | Inr me \<Rightarrow>
        (let db = db\<lparr>db_mnemonic := rust_trim mn, db_user_seed := ui_signing_key me\<rparr> in
         Ok (me, case name of Some n \<Rightarrow> db\<lparr>db_display_name := n\<rparr> | None \<Rightarrow> db)))"

definition update_display_name :: "string \<Rightarrow> messenger_db \<Rightarrow> messenger_db" where
  "update_display_name name db = db\<lparr>db_display_name := name\<rparr>"

definition update_profile :: "string \<Rightarrow> string \<Rightarrow> messenger_db \<Rightarrow> messenger_db" where
  "update_profile name bio db = db\<lparr>db_display_name := name, db_bio := bio\<rparr>"

section \<open>Messages of the user\<close>

text \<open>The environment of the user's operations: the parameters of the cascade, the own node, the own identity.\<close>

record user_env =
  ue_crypto :: crypto
  ue_cards :: card_json
  ue_json :: msg_json
  ue_parse :: "string \<Rightarrow> socket_addr option"
  ue_show :: "socket_addr \<Rightarrow> string"
  ue_node :: node_id
  ue_me :: user_identity

abbreviation ue_hex :: "user_env \<Rightarrow> string" where "ue_hex E \<equiv> user_id_hex (ue_me E)"

definition deliver_payload :: "user_env \<Rightarrow> deliver_io \<Rightarrow> string \<Rightarrow> chat_payload \<Rightarrow> inbox_state \<Rightarrow> ((messenger_error + route) \<times> network_send list \<times> inbox_state) exec" where
  "deliver_payload E io recipient p s = exec_bind
     (try_deliver_payload (ue_crypto E) (ue_cards E) (ue_json E) (ue_parse E) (ue_show E) io (ue_node E) (ue_me E) recipient p (ib_db s) (ib_table s))
     (\<lambda>(out, sent, db, rt). Done (out, sent, s\<lparr>ib_db := db, ib_table := rt\<rparr>))"

text \<open>Random number and times of one message: for its identifier, its time stamp, that of a note to oneself, and the queue.\<close>

record stamp =
  st_rand :: u32
  st_id_time :: u64
  st_time :: u64
  st_self_time :: u64
  st_queue_time :: u64

definition new_message_id :: "stamp \<Rightarrow> string \<Rightarrow> string" where
  "new_message_id st me = decimal (unat (st_id_time st)) @ ''_'' @ take 8 me @ ''_'' @ lower_hex (unat (st_rand st))"

definition own_message :: "string \<Rightarrow> string \<Rightarrow> string \<Rightarrow> string \<Rightarrow> u64 \<Rightarrow> chat_message" where
  "own_message i me recipient text ts = \<lparr>sm_id = i, sm_sender = me, sm_recipient = recipient, sm_text = text,
     sm_image = None, sm_voice = None, sm_reply_to = None, sm_reply_snippet = None, sm_is_edited = False, sm_edit_timestamp = None,
     sm_reactions = [], sm_group_id = None, sm_is_pinned = False, sm_expires_at = None, sm_timestamp = ts, sm_incoming = False,
     sm_delivered = False\<rparr>"

text \<open>The texts are Russian; a string is its bytes. They say: my node (you), (you), personal messages.\<close>

definition utf8_str :: "nat list \<Rightarrow> string" where
  "utf8_str ns = map char_of ns"

definition MY_NODE :: string where
  "MY_NODE = utf8_str [0xD0, 0x9C, 0xD0, 0xBE, 0xD0, 0xB9, 0x20, 0xD1, 0x83, 0xD0, 0xB7, 0xD0, 0xB5, 0xD0, 0xBB]"

definition YOU_SUFFIX :: string where
  "YOU_SUFFIX = utf8_str [0x20, 0x28, 0xD0, 0x92, 0xD1, 0x8B, 0x29]"

definition PERSONAL_BIO :: string where
  "PERSONAL_BIO = utf8_str [0xD0, 0x9B, 0xD0, 0xB8, 0xD1, 0x87, 0xD0, 0xBD, 0xD1, 0x8B, 0xD0, 0xB5, 0x20,
     0xD1, 0x81, 0xD0, 0xBE, 0xD0, 0xBE, 0xD0, 0xB1, 0xD1, 0x89, 0xD0, 0xB5, 0xD0, 0xBD, 0xD0, 0xB8, 0xD1, 0x8F]"

definition self_contact :: "string \<Rightarrow> string \<Rightarrow> saved_contact" where
  "self_contact me name = \<lparr>sc_user_id = me, sc_name = (if name = [] then MY_NODE else name) @ YOU_SUFFIX, sc_bio = PERSONAL_BIO,
     sc_ed25519_pub_hex = me, sc_x25519_pub_hex = me, sc_last_seen_addr = ''127.0.0.1:0''\<rparr>"

text \<open>A note to oneself makes a contact of oneself.\<close>

definition add_self_contact :: "string \<Rightarrow> string \<Rightarrow> messenger_db \<Rightarrow> messenger_db" where
  "add_self_contact me recipient db =
     (if recipient = me \<and> map_of (db_contacts db) me = None then db_add_contact (self_contact me (db_display_name db)) db else db)"

definition is_self :: "string \<Rightarrow> string \<Rightarrow> bool" where
  "is_self me recipient \<longleftrightarrow> recipient = SELF_SAVED \<or> recipient = me"

type_synonym 'a outcome = "(messenger_error + 'a) \<times> network_send list \<times> inbox_state"

definition send_chat :: "user_env \<Rightarrow> deliver_io \<Rightarrow> stamp \<Rightarrow> string \<Rightarrow> string \<Rightarrow> string option \<Rightarrow> inbox_state \<Rightarrow> chat_message outcome exec" where
  "send_chat E io st recipient text img s =
     (let me = ue_hex E; m = (own_message (new_message_id st me) me recipient text (st_time st))\<lparr>sm_image := img\<rparr> in
      if db_is_blocked recipient (ib_db s) then Done (Err (ContactBlocked recipient), [], s)
      else if is_self me recipient then
        (let m = m\<lparr>sm_timestamp := st_self_time st, sm_delivered := True\<rparr> in
         Done (Ok m, [], s\<lparr>ib_db := add_self_contact me recipient (add_message m (ib_db s))\<rparr>))
      else exec_bind (deliver_payload E io recipient (message_payload m) s) (\<lambda>(out, sent, s). case out of
          Inr _ \<Rightarrow>
            (let m = m\<lparr>sm_delivered := recipient = SELF_SAVED\<rparr> in
             Done (Ok m, sent, s\<lparr>ib_db := add_message m (ib_db s), ib_queue := push_after (st_queue_time st) m recipient 8 (ib_queue s)\<rparr>))
        | Inl (RecipientVerifiedKeyMissing i) \<Rightarrow> Done (Err (RecipientVerifiedKeyMissing i), sent, s)
        | Inl (ContactBlocked i) \<Rightarrow> Done (Err (ContactBlocked i), sent, s)
        | Inl _ \<Rightarrow> Done (Ok m, sent, s\<lparr>ib_db := add_message m (ib_db s), ib_queue := queue_push (st_queue_time st) m recipient (ib_queue s)\<rparr>)))"

text \<open>What is delivered without a queue entry in case of success: files and voice notes.\<close>

definition deliver_once :: "user_env \<Rightarrow> deliver_io \<Rightarrow> stamp \<Rightarrow> chat_message \<Rightarrow> chat_payload \<Rightarrow> inbox_state \<Rightarrow> (chat_message \<times> network_send list \<times> inbox_state) exec" where
  "deliver_once E io st m p s = exec_bind (deliver_payload E io (sm_recipient m) p s) (\<lambda>(out, sent, s).
     (case out of
        Inr _ \<Rightarrow> (let m' = m\<lparr>sm_delivered := True\<rparr> in Done (m', sent, s\<lparr>ib_db := add_message m' (ib_db s)\<rparr>))
      | Inl _ \<Rightarrow> (let m' = m\<lparr>sm_delivered := False\<rparr> in
          Done (m', sent, s\<lparr>ib_db := add_message m' (ib_db s), ib_queue := queue_push (st_queue_time st) m' (sm_recipient m) (ib_queue s)\<rparr>))))"

text \<open>\<open>{:.1}\<close> of a size in KB: tenths, half to even.\<close>

definition tenths :: "nat \<Rightarrow> nat" where
  "tenths n = (let q = n * 10 div 1024; r = n * 10 mod 1024 in if r > 512 \<or> (r = 512 \<and> odd q) then q + 1 else q)"

definition size_kb :: "nat \<Rightarrow> string" where
  "size_kb n = decimal (tenths n div 10) @ ''.'' @ decimal (tenths n mod 10)"

text \<open>Random bytes of a file transfer; the JSON of a chunk is \<open>write_chunk\<close>, every put goes into the network.\<close>

record file_rand =
  fr_id :: u64
  fr_key :: bytes
  fr_nonces :: "nat \<Rightarrow> bytes"

definition chunk_puts :: "(media_chunk \<Rightarrow> bytes) \<Rightarrow> media_chunk list \<Rightarrow> network_send list" where
  "chunk_puts write_chunk chunks = map (\<lambda>c. SendPut (''chunk_'' @ mc_file_id c @ ''_'' @ decimal (mc_index c)) (write_chunk c)) chunks"

definition send_file ::
    "user_env \<Rightarrow> (bytes \<Rightarrow> u32) \<Rightarrow> (bytes \<Rightarrow> string) \<Rightarrow> (media_chunk \<Rightarrow> bytes) \<Rightarrow> deliver_io \<Rightarrow> stamp \<Rightarrow> file_rand \<Rightarrow> string \<Rightarrow> string \<Rightarrow> bytes \<Rightarrow>
     inbox_state \<Rightarrow> (chat_message \<times> file_manifest) outcome exec" where
  "send_file E crc base64 write_chunk io st fr recipient name dat s =
     (case create_file_transfer (ue_crypto E) crc base64 (fr_id fr) (fr_key fr) (fr_nonces fr) name dat None of
        Inl e \<Rightarrow> Done (Err (AttachmentFailed e), [], s)
      | Inr (manifest, chunks) \<Rightarrow>
          (let me = ue_hex E; puts = chunk_puts write_chunk chunks;
               text = ''Shared a file: '' @ name @ '' ('' @ size_kb (length dat) @ '' KB)'';
               m = own_message (new_message_id st me) me recipient text (st_time st);
               p = empty_payload\<lparr>cp_id := sm_id m, cp_text := text, cp_manifest := Some manifest\<rparr> in
           exec_bind (deliver_once E io st m p s) (\<lambda>(m, sent, s). Done (Ok (m, manifest), puts @ sent, s))))"

definition MICROPHONE :: string where
  "MICROPHONE = utf8_str [0xF0, 0x9F, 0x8E, 0xA4]"

definition send_voice_note :: "user_env \<Rightarrow> deliver_io \<Rightarrow> stamp \<Rightarrow> string \<Rightarrow> voice_note \<Rightarrow> inbox_state \<Rightarrow> chat_message outcome exec" where
  "send_voice_note E io st recipient v s =
     (let me = ue_hex E; text = MICROPHONE @ '' Voice message ('' @ formatted_duration v @ '')'';
          m = (own_message (new_message_id st me) me recipient text (st_time st))\<lparr>sm_voice := Some v\<rparr> in
      if is_self me recipient then
        (let m = m\<lparr>sm_delivered := True\<rparr> in Done (Ok m, [], s\<lparr>ib_db := add_self_contact me recipient (add_message m (ib_db s))\<rparr>))
      else exec_bind (deliver_once E io st m (message_payload m) s) (\<lambda>(m, sent, s). Done (Ok m, sent, s)))"

section \<open>Reactions, edits, deletions, groups, calls\<close>

definition react_to_message :: "user_env \<Rightarrow> deliver_io \<Rightarrow> u64 \<Rightarrow> string \<Rightarrow> string \<Rightarrow> string \<Rightarrow> inbox_state \<Rightarrow> (network_send list \<times> inbox_state) exec" where
  "react_to_message E io now recipient i emoji s =
     (let me = ue_hex E; s = s\<lparr>ib_db := snd (add_reaction i emoji me (ib_db s))\<rparr>;
          p = empty_payload\<lparr>cp_id := ''react_'' @ i, cp_text := emoji, cp_reaction := Some (reaction_new now i emoji me)\<rparr> in
      exec_bind (deliver_payload E io recipient p s) (\<lambda>(_, sent, s). Done (sent, s)))"

definition edit_message :: "user_env \<Rightarrow> deliver_io \<Rightarrow> u64 \<Rightarrow> string \<Rightarrow> string \<Rightarrow> string \<Rightarrow> inbox_state \<Rightarrow> (network_send list \<times> inbox_state) exec" where
  "edit_message E io ts recipient i text s =
     (let s = s\<lparr>ib_db := snd (db_edit_message i text ts (ib_db s))\<rparr>;
          m = (own_message i (ue_hex E) recipient text ts)\<lparr>sm_is_edited := True, sm_edit_timestamp := Some ts\<rparr> in
      exec_bind (deliver_payload E io recipient (message_payload m) s) (\<lambda>(_, sent, s). Done (sent, s)))"

definition pin_message :: "string \<Rightarrow> inbox_state \<Rightarrow> bool \<times> inbox_state" where
  "pin_message i s = (let (r, db) = toggle_pin_message i (ib_db s) in (r, s\<lparr>ib_db := db\<rparr>))"

definition create_group :: "user_env \<Rightarrow> u64 \<Rightarrow> bytes \<Rightarrow> u32 \<Rightarrow> u8 \<Rightarrow> string \<Rightarrow> string \<Rightarrow> inbox_state \<Rightarrow> p2p_group \<times> inbox_state" where
  "create_group E now key_bytes rand_id rand_color title description s =
     (let g = group_new now key_bytes rand_id rand_color title description (ue_hex E) (db_display_name (ib_db s)) in
      (g, s\<lparr>ib_db := db_add_group g (ib_db s)\<rparr>))"

text \<open>One delivery per member, the \<open>k\<close>-th with the \<open>k\<close>-th answers.\<close>

fun deliver_all :: "user_env \<Rightarrow> (nat \<Rightarrow> deliver_io) \<Rightarrow> nat \<Rightarrow> chat_payload \<Rightarrow> string list \<Rightarrow> inbox_state \<Rightarrow> (network_send list \<times> inbox_state) exec" where
  "deliver_all E ios k p [] s = Done ([], s)"
| "deliver_all E ios k p (u # us) s = exec_bind (deliver_payload E (ios k) u p s) (\<lambda>(_, sent, s).
     exec_bind (deliver_all E ios (Suc k) p us s) (\<lambda>(sent', s). Done (sent @ sent', s)))"

definition send_group_message :: "user_env \<Rightarrow> (nat \<Rightarrow> deliver_io) \<Rightarrow> stamp \<Rightarrow> string \<Rightarrow> string \<Rightarrow> inbox_state \<Rightarrow> chat_message outcome exec" where
  "send_group_message E ios st gid text s = (case get_group gid (ib_db s) of
      None \<Rightarrow> Done (Err (OtherError GroupNotFound), [], s)
    | Some g \<Rightarrow>
        (let me = ue_hex E;
             m = (own_message (new_message_id st me) me gid text (st_time st))\<lparr>sm_group_id := Some gid, sm_delivered := True\<rparr>;
             s = s\<lparr>ib_db := add_message m (ib_db s)\<rparr> in
         exec_bind (deliver_all E ios 0 (message_payload m) (filter (\<lambda>u. u \<noteq> me) (map fst (pg_members g))) s) (\<lambda>(sent, s).
           Done (Ok m, sent, s))))"

text \<open>\<open>debug\<close> is the derived text of a signal type.\<close>

definition send_call_signal :: "user_env \<Rightarrow> (call_signal_type \<Rightarrow> string) \<Rightarrow> deliver_io \<Rightarrow> u64 \<Rightarrow> u64 \<Rightarrow> string \<Rightarrow> call_signal_type \<Rightarrow> string \<Rightarrow> inbox_state \<Rightarrow> route outcome exec" where
  "send_call_signal E debug io now suffix recipient ty call s =
     (let c = call_signal_new now call (ue_hex E) recipient ty;
          p = empty_payload\<lparr>cp_id := ''call_'' @ call @ ''_'' @ decimal (unat (cs_timestamp c)) @ ''_'' @ lower_hex (unat suffix),
            cp_text := ''[Call Signal '' @ debug ty @ '']'', cp_call_signal := Some c\<rparr> in
      deliver_payload E io recipient p s)"

definition delete_message :: "string \<Rightarrow> inbox_state \<Rightarrow> inbox_state" where
  "delete_message i s = s\<lparr>ib_db := db_delete_message i (ib_db s)\<rparr>"

definition delete_messages :: "string list \<Rightarrow> inbox_state \<Rightarrow> inbox_state" where
  "delete_messages is s = s\<lparr>ib_db := db_delete_messages is (ib_db s)\<rparr>"

text \<open>The key for a deletion: the contact's when it has 32 bytes, that of a card otherwise.\<close>

definition resolve_for_deletion :: "user_env \<Rightarrow> deliver_io \<Rightarrow> string \<Rightarrow> inbox_state \<Rightarrow> ((bytes \<times> socket_addr option) option \<times> inbox_state) exec" where
  "resolve_for_deletion E io recipient s =
     (let by_card = (case discover_peer (ue_crypto E) (ue_cards E) (ue_show E) (dl_instant io) (dl_found io) (ib_db s) (ib_table s) of
            (r, db, rt) \<Rightarrow> (case r of Inr crd \<Rightarrow> Some (pc_x25519_pub crd, Some (pc_socket_addr crd)) | Inl _ \<Rightarrow> None, s\<lparr>ib_db := db, ib_table := rt\<rparr>)) in
      case map_of (db_contacts (ib_db s)) recipient of
        None \<Rightarrow> Done by_card
      | Some c \<Rightarrow> exec_bind (hex_decode (sc_x25519_pub_hex c)) (\<lambda>x. case x of
          Some k \<Rightarrow> if length k = 32 then Done (Some (k, ue_parse E (sc_last_seen_addr c)), s) else Done by_card
        | None \<Rightarrow> Done by_card))"

definition signed_tombstone :: "user_env \<Rightarrow> string \<Rightarrow> u64 \<Rightarrow> string list \<Rightarrow> tombstone" where
  "signed_tombstone E recipient now is =
     (let tb = \<lparr>tb_recipient = recipient, tb_timestamp = now, tb_deleted = is, tb_signature = []\<rparr> in
      tb\<lparr>tb_signature := identity_sign (ue_crypto E) (ue_me E) (tombstone_bytes (ue_json E) tb)\<rparr>)"

definition delete_messages_for_everyone ::
    "user_env \<Rightarrow> deliver_io \<Rightarrow> u64 \<Rightarrow> string \<Rightarrow> string list \<Rightarrow> inbox_state \<Rightarrow> ((hex_error + unit) \<times> network_send list \<times> inbox_state) exec" where
  "delete_messages_for_everyone E io now recipient is s =
     (if is = [] then Done (Ok (), [], s)
      else (let (deleted, db) = delete_messages_by_author is (ue_hex E) (ib_db s); s = s\<lparr>ib_db := db\<rparr> in
        if deleted = [] then Done (Ok (), [], s)
        else exec_bind (id_from_hex recipient) (\<lambda>r. case r of
            Inl x \<Rightarrow> Done (Err x, [], s)
          | Inr rid \<Rightarrow> exec_bind (resolve_for_deletion E io recipient s) (\<lambda>(res, s). case res of
              None \<Rightarrow> Done (Ok (), [], s)
            | Some (k, target) \<Rightarrow>
                if length k \<noteq> 32 then Done (Ok (), [], s)
                else (case mj_write (ue_json E) (empty_payload\<lparr>cp_tombstone := Some (signed_tombstone E recipient now deleted)\<rparr>) of
                    None \<Rightarrow> Done (Ok (), [], s)
                  | Some b \<Rightarrow> (case encrypt_envelope (ue_crypto E) (dl_seed io) (dl_nonce io) (dl_seal_time io) (ue_me E) rid k b of
                      None \<Rightarrow> Done (Ok (), [], s)
                    | Some e \<Rightarrow> Done (Ok (), send_quietly (ue_crypto E) (ue_json E) io recipient target e, s)))))))"

definition block_contact :: "string \<Rightarrow> inbox_state \<Rightarrow> inbox_state" where
  "block_contact u s = s\<lparr>ib_db := block_user u (ib_db s)\<rparr>"

definition unblock_contact :: "string \<Rightarrow> inbox_state \<Rightarrow> inbox_state" where
  "unblock_contact u s = s\<lparr>ib_db := unblock_user u (ib_db s)\<rparr>"

text \<open>Clearing a chat drops both mailboxes of the day from the own store.\<close>

definition clear_chat :: "user_env \<Rightarrow> u64 \<Rightarrow> string \<Rightarrow> inbox_state \<times> storage \<Rightarrow> inbox_state \<times> storage" where
  "clear_chat E now u = (\<lambda>(s, st).
     (let mailbox = (\<lambda>w. from_key (cr_sha1 (ue_crypto E)) (str_bytes (derive_secure_mailbox_key (ue_crypto E) w now))) in
      (s\<lparr>ib_db := clear_messages_for_contact u (ib_db s)\<rparr>,
       snd (storage_remove (mailbox u) (snd (storage_remove (mailbox (ue_hex E)) st))))))"

definition delete_contact :: "user_env \<Rightarrow> u64 \<Rightarrow> string \<Rightarrow> inbox_state \<times> storage \<Rightarrow> inbox_state \<times> storage" where
  "delete_contact E now u x = (case clear_chat E now u x of (s, st) \<Rightarrow> (s\<lparr>ib_db := db_delete_contact u (ib_db s)\<rparr>, st))"

definition wipe_local_data ::
    "bool \<Rightarrow> bool \<Rightarrow> string \<Rightarrow> string \<Rightarrow> inbox_state \<times> storage \<times> db_files \<Rightarrow> inbox_state \<times> storage \<times> db_files" where
  "wipe_local_data db_removed key_removed p canon = (\<lambda>(s, st, files).
     (s\<lparr>ib_db := wiped_db (ib_db s)\<rparr>, storage_clear st, wipe_files db_removed key_removed p canon files))"

section \<open>Identities are well formed, and a restart keeps them\<close>

lemma chosen_identity_ok: "choose_identity C M entropy seed db = Ok (me, mn) \<Longrightarrow> identity_ok C me"
  by (auto simp: choose_identity_def identity_from_mnemonic_def generate_mnemonic_def identity_from_seed_ok split: if_splits sum.splits)

lemma started_db_fields:
  "db_mnemonic (started_db name me mn db) = (case mn of Some m \<Rightarrow> m | None \<Rightarrow> db_mnemonic db)"
  "db_user_seed (started_db name me mn db) = ui_signing_key me"
  "db_messages (started_db name me mn db) = db_messages db"
  "db_inv (started_db name me mn db) \<longleftrightarrow> db_inv db"
  by (simp_all add: started_db_def Let_def db_inv_def db_ids_def split: option.split)

lemma identity_kept:
  assumes "choose_identity C M r1 r2 db = Ok (me, mn)" "db_mnemonic (started_db name me mn db) \<noteq> []"
  shows "choose_identity C M r1' r2' (started_db name' me mn db) = Ok (me, None)"
  using assms
  by (auto simp: choose_identity_def started_db_fields identity_from_mnemonic_def generate_mnemonic_def split: if_splits sum.splits option.splits)

text \<open>Without a mnemonic the seed in the database is replaced by the signing key that was derived from it: the next start derives
  another identity from that.\<close>

lemma identity_drifts:
  assumes "db_mnemonic db = []" "db_user_seed db \<noteq> replicate 32 0" "choose_identity C M r1 r2 db = Ok (me, mn)"
    "ui_signing_key me \<noteq> replicate 32 0"
  shows "me = identity_from_seed C (db_user_seed db) \<and>
    choose_identity C M r1' r2' (started_db name me mn db) = Ok (identity_from_seed C (ui_signing_key me), None)"
  using assms by (auto simp: choose_identity_def started_db_fields)

lemma start_cases:
  assumes "messenger_start C M DJ fio io p canon name rt files = (Ok (me, s), files')"
  shows "\<exists>db files1 mn r. load_from_file C DJ fio (so_load_rnd io) p canon files = (Ok db, files1) \<and>
    choose_identity C M (so_entropy io) (so_seed io) db = Ok (me, mn) \<and> ib_db s = started_db name me mn db \<and>
    save_to_file C DJ fio (so_save_rnd io) (so_salt io) (so_nonce io) (so_instant io) p canon (ib_db s) files1 = (r, files') \<and>
    ib_queue s = restore_outbox (so_now io) (user_id_hex me) (ib_db s) \<and> ib_cache s = [] \<and> ib_table s = rt"
  using assms by (auto simp: messenger_start_def Let_def split: prod.splits sum.splits)

text \<open>The program is started, stopped and started again: the same identity, the same messages.\<close>

lemma restart_keeps:
  assumes "crypto_ok C" "db_json_ok DJ" "length (so_salt io) = 16" "length (so_nonce io) = 12" "length (so_save_rnd io) = 32"
    and start: "messenger_start C M DJ io_fine io p canon name rt files = (Ok (me, s), files')"
    and agree: "\<exists>k. keys_agree p canon (snd (load_from_file C DJ io_fine (so_load_rnd io) p canon files)) k"
    and saved: "fst (save_to_file C DJ io_fine (so_save_rnd io) (so_salt io) (so_nonce io) (so_instant io) p canon (ib_db s)
      (snd (load_from_file C DJ io_fine (so_load_rnd io) p canon files))) = Ok ()"
    and mn: "db_mnemonic (ib_db s) \<noteq> []" and ids: "distinct (map sm_id (db_messages (ib_db s)))"
  shows "\<exists>s' files''. messenger_start C M DJ io_fine io' p canon name' rt' (restarted files') = (Ok (me, s'), files'') \<and>
    db_messages (ib_db s') = db_messages (ib_db s) \<and> db_mnemonic (ib_db s') = db_mnemonic (ib_db s) \<and>
    ib_queue s' = map (fresh_entry (so_now io')) (take MAX_QUEUED_MESSAGES (waiting_messages (user_id_hex me) (ib_db s)))"
proof -
  obtain db files1 mn r where st: "load_from_file C DJ io_fine (so_load_rnd io) p canon files = (Ok db, files1)"
    "choose_identity C M (so_entropy io) (so_seed io) db = Ok (me, mn)" "ib_db s = started_db name me mn db"
    "save_to_file C DJ io_fine (so_save_rnd io) (so_salt io) (so_nonce io) (so_instant io) p canon (ib_db s) files1 = (r, files')"
    using start_cases [OF start] by blast
  obtain k where k: "keys_agree p canon files1 k" using agree st(1) by auto
  have r: "r = Ok ()" using saved st(1,4) by simp
  have "fst (load_from_file C DJ io_fine (so_load_rnd io') p canon (restarted files')) = Ok (ib_db s)"
    by (rule save_load(2) [OF assms(1-4) k assms(5) _ _ _ st(4) [unfolded r]]) (simp_all add: io_fine_def)
  then obtain files2 where l: "load_from_file C DJ io_fine (so_load_rnd io') p canon (restarted files') = (Ok (ib_db s), files2)"
    by (metis prod.collapse)
  have c: "choose_identity C M (so_entropy io') (so_seed io') (ib_db s) = Ok (me, None)"
    unfolding st(3) by (rule identity_kept [OF st(2)]) (use mn st(3) in simp)
  have q: "waiting_messages u (started_db name' me None (ib_db s)) = waiting_messages u (ib_db s)" for u
    by (simp add: waiting_messages_def started_db_fields)
  show ?thesis using l c ids by (auto simp: messenger_start_def Let_def started_db_fields restore_outbox_exact q split: prod.split)
qed

section \<open>Every turn keeps the invariants\<close>

text \<open>The state with the message that the retry worker has taken out of the queue. A turn is an operation of the user that
  returns, an envelope that is processed, or a part of the worker's loop.\<close>

type_synonym run_state = "inbox_state \<times> queued_message option"

inductive messenger_turn :: "user_env \<Rightarrow> run_state \<Rightarrow> run_state \<Rightarrow> bool" for E where
  TSend: "send_chat E io st r x img s = Done (out, sent, s') \<Longrightarrow> messenger_turn E (s, w) (s', w)"
| TFile: "send_file E crc base64 wc io st fr r name dat s = Done (res, sent, s') \<Longrightarrow> messenger_turn E (s, w) (s', w)"
| TVoice: "send_voice_note E io st r v s = Done (out, sent, s') \<Longrightarrow> messenger_turn E (s, w) (s', w)"
| TReact: "react_to_message E io now r i em s = Done (sent, s') \<Longrightarrow> messenger_turn E (s, w) (s', w)"
| TEdit: "edit_message E io now r i x s = Done (sent, s') \<Longrightarrow> messenger_turn E (s, w) (s', w)"
| TPin: "pin_message i s = (b, s') \<Longrightarrow> messenger_turn E (s, w) (s', w)"
| TGroup: "create_group E now kb ri rc t d s = (g, s') \<Longrightarrow> messenger_turn E (s, w) (s', w)"
| TGroupSend: "send_group_message E ios st gid x s = Done (out, sent, s') \<Longrightarrow> messenger_turn E (s, w) (s', w)"
| TCall: "send_call_signal E debug io now suffix r ty call s = Done (route, sent, s') \<Longrightarrow> messenger_turn E (s, w) (s', w)"
| TDelete: "messenger_turn E (s, w) (delete_message i s, w)"
| TDeleteMany: "messenger_turn E (s, w) (delete_messages is s, w)"
| TDeleteAll: "delete_messages_for_everyone E io now r is s = Done (done, sent, s') \<Longrightarrow> messenger_turn E (s, w) (s', w)"
| TBlock: "messenger_turn E (s, w) (block_contact u s, w)"
| TUnblock: "messenger_turn E (s, w) (unblock_contact u s, w)"
| TClear: "clear_chat E now u (s, store) = (s', store') \<Longrightarrow> messenger_turn E (s, w) (s', w)"
| TDeleteContact: "delete_contact E now u (s, store) = (s', store') \<Longrightarrow> messenger_turn E (s, w) (s', w)"
| TWipe: "wipe_local_data a b p canon (s, store, files) = (s', store', files') \<Longrightarrow> messenger_turn E (s, w) (s', w)"
| TReceive: "process_envelope (ue_crypto E) (ue_cards E) (ue_json E) (ue_show E) eio (ue_me E) e s = (g, s', ev, ack) \<Longrightarrow>
    messenger_turn E (s, w) (s', w)"
| TTake: "pop_pending now (ib_queue s) = (w, q') \<Longrightarrow> messenger_turn E (s, None) (s\<lparr>ib_queue := q'\<rparr>, w)"
| TTry: "deliver_payload E io (qm_recipient m) (message_payload (qm_message m)) s = Done (out, sent, s') \<Longrightarrow>
    messenger_turn E (s, Some m) (s', Some m)"
| TBack: "messenger_turn E (s, Some m) (s\<lparr>ib_queue := schedule_retry m now (ib_queue s)\<rparr>, None)"

definition messenger_inv :: "run_state \<Rightarrow> bool" where
  "messenger_inv x \<longleftrightarrow> inbox_inv (fst x) \<and> outbox_inv (ib_queue (fst x), snd x)"

text \<open>How an operation other than the wipe may change the state: the database by its operations, the queue by pushes and receipts,
  the rest not.\<close>

definition fair_change :: "inbox_state \<Rightarrow> inbox_state \<Rightarrow> bool" where
  "fair_change s s' \<longleftrightarrow> (db_inv (ib_db s) \<longrightarrow> db_inv (ib_db s')) \<and> (rt_inv (ib_table s) \<longrightarrow> rt_inv (ib_table s')) \<and>
     (\<forall>w. outbox_inv (ib_queue s, w) \<longrightarrow> outbox_inv (ib_queue s', w)) \<and>
     (keys_distinct (ib_cache s) \<and> length (ib_cache s) \<le> MAX_REPLAY_CACHE_ENTRIES \<longrightarrow>
       keys_distinct (ib_cache s') \<and> length (ib_cache s') \<le> MAX_REPLAY_CACHE_ENTRIES) \<and>
     set (db_deleted (ib_db s)) \<subseteq> set (db_deleted (ib_db s'))"

lemma fair_refl [simp, intro]: "fair_change s s"
  by (simp add: fair_change_def)

lemma fair_trans: "fair_change a b \<Longrightarrow> fair_change b c \<Longrightarrow> fair_change a c"
  by (auto simp: fair_change_def)

lemma fair_inv: "fair_change s s' \<Longrightarrow> messenger_inv (s, w) \<Longrightarrow> messenger_inv (s', w)"
  by (auto simp: fair_change_def messenger_inv_def inbox_inv_def)

lemma fair_db: "db_reaches (ib_db s) db \<Longrightarrow> fair_change s (s\<lparr>ib_db := db\<rparr>)"
  using db_reaches_keeps_deleted [of "ib_db s" db] by (auto simp: fair_change_def intro: db_reaches_inv)

lemma push_inv: "outbox_inv (q, w) \<Longrightarrow> outbox_inv (push_after now m r d q, w)"
  using outbox_sys.step_inv [of "(q, w)" "OutPush now m r d"] by simp

lemma fair_push: "fair_change s (s\<lparr>ib_queue := push_after now m r d (ib_queue s)\<rparr>)"
  by (simp add: fair_change_def push_inv)

lemma fair_db_queue: "db_reaches (ib_db s) db \<Longrightarrow> fair_change s (s\<lparr>ib_db := db, ib_queue := push_after now m r d (ib_queue s)\<rparr>)"
  using fair_trans [OF fair_db fair_push] by fastforce

lemma fair_deliver: "deliver_payload E io u p s = Done (out, sent, s') \<Longrightarrow> fair_change s s'"
proof -
  assume "deliver_payload E io u p s = Done (out, sent, s')"
  then obtain db rt where d: "try_deliver_payload (ue_crypto E) (ue_cards E) (ue_json E) (ue_parse E) (ue_show E) io (ue_node E) (ue_me E) u p
      (ib_db s) (ib_table s) = Done (out, sent, db, rt)" "s' = s\<lparr>ib_db := db, ib_table := rt\<rparr>"
    by (auto simp: deliver_payload_def exec_bind_def split: exec.splits)
  then show ?thesis using deliver_frame [OF d(1)] only_contacts_fields(2,6) by (auto simp: fair_change_def)
qed

lemma own_reactions [simp]: "reactions_ok (sm_reactions (own_message i me r x ts))"
  by (simp add: own_message_def reactions_ok_def reacted_def keys_distinct_def)

lemma reaches_self: "db_reaches db db' \<Longrightarrow> db_reaches db (add_self_contact me r db')"
  by (auto simp: add_self_contact_def intro: db_reaches_trans reaches_ops(3))

lemma more_reaches:
  "db_reaches db (snd (db_edit_message i x ts db))" "db_reaches db (snd (toggle_pin_message i db))" "db_reaches db (db_add_group g db)"
  "db_reaches db (db_delete_message i db)" "db_reaches db (db_delete_messages is db)" "db_reaches db (clear_messages_for_contact u db)"
  "db_reaches db (db_delete_contact u db)" "db_reaches db (block_user u db)" "db_reaches db (unblock_user u db)"
  using db_reaches_step [of "DbEdit i x ts" db] db_reaches_step [of "DbTogglePin i" db] db_reaches_step [of "DbAddGroup g" db]
    db_reaches_step [of "DbDelete i" db] db_reaches_step [of "DbDeleteMany is" db] db_reaches_step [of "DbClear u" db]
    db_reaches_step [of "DbDeleteContact u" db] db_reaches_step [of "DbBlock u" db] db_reaches_step [of "DbUnblock u" db] by simp_all

lemma fair_add: "reactions_ok (sm_reactions m) \<Longrightarrow> fair_change s b \<Longrightarrow> fair_change s (b\<lparr>ib_db := add_message m (ib_db b)\<rparr>)"
  using fair_trans [OF _ fair_db [OF reaches_ops(7)]] .

lemma fair_add_push: "reactions_ok (sm_reactions m) \<Longrightarrow> fair_change s b \<Longrightarrow>
    fair_change s (b\<lparr>ib_db := add_message m (ib_db b), ib_queue := push_after n m' r d (ib_queue b)\<rparr>)"
  using fair_trans [OF _ fair_db_queue [OF reaches_ops(7)]] .

lemma fair_send: "send_chat E io st r x img s = Done (out, sent, s') \<Longrightarrow> fair_change s s'"
  by (auto simp: send_chat_def exec_bind_def Let_def queue_push_def reaches_ops split: if_splits exec.splits sum.splits messenger_error.splits
      dest!: fair_deliver intro!: fair_db reaches_self fair_add_push)

lemma fair_deliver_once: "deliver_once E io st m p s = Done (m', sent, s') \<Longrightarrow> reactions_ok (sm_reactions m) \<Longrightarrow> fair_change s s'"
  by (auto simp: deliver_once_def exec_bind_def Let_def queue_push_def split: exec.splits sum.splits dest!: fair_deliver intro!: fair_add fair_add_push)

lemma fair_file: "send_file E crc base64 wc io st fr r name dat s = Done (res, sent, s') \<Longrightarrow> fair_change s s'"
  by (auto simp: send_file_def exec_bind_def Let_def split: sum.splits exec.splits elim!: fair_deliver_once)

lemma fair_voice: "send_voice_note E io st r v s = Done (out, sent, s') \<Longrightarrow> fair_change s s'"
  by (auto simp: send_voice_note_def exec_bind_def Let_def reaches_ops split: if_splits exec.splits elim!: fair_deliver_once
      intro!: fair_db reaches_self)

lemma fair_after_db: "db_reaches (ib_db s) db \<Longrightarrow> deliver_payload E io u p (s\<lparr>ib_db := db\<rparr>) = Done (out, sent, s') \<Longrightarrow> fair_change s s'"
  using fair_trans [OF fair_db fair_deliver] by blast

lemma fair_react: "react_to_message E io now r i em s = Done (sent, s') \<Longrightarrow> fair_change s s'"
  by (auto simp: react_to_message_def exec_bind_def Let_def split: exec.splits intro: fair_after_db [OF reaches_ops(2)])

lemma fair_edit: "edit_message E io now r i x s = Done (sent, s') \<Longrightarrow> fair_change s s'"
  by (auto simp: edit_message_def exec_bind_def Let_def split: exec.splits intro: fair_after_db [OF more_reaches(1)])

lemma fair_all: "deliver_all E ios k p us s = Done (sent, s') \<Longrightarrow> fair_change s s'"
proof (induction us arbitrary: k s sent)
  case (Cons u us)
  then obtain out sent1 s1 sent2 where d: "deliver_payload E (ios k) u p s = Done (out, sent1, s1)" "deliver_all E ios (Suc k) p us s1 = Done (sent2, s')"
    by (auto simp: exec_bind_def split: exec.splits prod.splits)
  show ?case using fair_trans [OF fair_deliver [OF d(1)] Cons.IH [OF d(2)]] .
qed simp

lemma fair_after_all: "db_reaches (ib_db s) db \<Longrightarrow> deliver_all E ios k p us (s\<lparr>ib_db := db\<rparr>) = Done (sent, s') \<Longrightarrow> fair_change s s'"
  using fair_trans [OF fair_db fair_all] by blast

lemma fair_group_send: "send_group_message E ios st gid x s = Done (out, sent, s') \<Longrightarrow> fair_change s s'"
  by (auto simp: send_group_message_def exec_bind_def Let_def split: option.splits exec.splits elim!: fair_after_all [OF reaches_ops(7), rotated])

lemma fair_call: "send_call_signal E debug io now suffix r ty call s = Done (route, sent, s') \<Longrightarrow> fair_change s s'"
  by (auto simp: send_call_signal_def Let_def dest: fair_deliver)

lemma fair_resolve: "resolve_for_deletion E io u s = Done (r, s') \<Longrightarrow> fair_change s s'"
proof -
  obtain d db rt where c: "discover_peer (ue_crypto E) (ue_cards E) (ue_show E) (dl_instant io) (dl_found io) (ib_db s) (ib_table s) = (d, db, rt)"
    by (metis prod_cases3)
  have "fair_change s (s\<lparr>ib_db := db, ib_table := rt\<rparr>)"
  proof (cases d)
    case (Inl x)
    then show ?thesis using discover_peer_refuses [OF c [unfolded Inl]] by simp
  next
    case (Inr crd)
    then show ?thesis using discover_peer_accepts [OF c [unfolded Inr]] db_reaches_inv [OF discover_reaches [OF c]]
        db_reaches_keeps_deleted [OF discover_reaches [OF c]]
      by (auto simp: fair_change_def intro: rt_force_update_inv)
  qed
  moreover assume "resolve_for_deletion E io u s = Done (r, s')"
  ultimately show ?thesis using c by (auto simp: resolve_for_deletion_def Let_def exec_bind_def split: option.splits exec.splits if_splits)
qed

lemma fair_delete_all: "delete_messages_for_everyone E io now u is s = Done (done, sent, s') \<Longrightarrow> fair_change s s'"
  by (auto simp: delete_messages_for_everyone_def exec_bind_def Let_def split: if_splits prod.splits exec.splits sum.splits option.splits
      dest!: fair_resolve intro: fair_trans [OF fair_db] reaches_results fair_db)

lemma marks_inv: "outbox_inv (q, w) \<Longrightarrow> outbox_inv (fold queue_mark_delivered is q, w)"
proof (induction "is" arbitrary: q)
  case (Cons i "is")
  then show ?case using outbox_sys.step_inv [OF TrueI Cons.prems, of "OutDelivered i"] by simp
qed simp

lemma fair_receive:
  assumes "process_envelope C CJ J show_addr io me e s = (g, s', ev, ack)" shows "fair_change s s'"
proof -
  obtain s1 where g: "envelope_gate C J (ei_now io) me e s = (g, s1)"
    and r: "\<forall>p. g = Opened p \<longrightarrow> rest_kept s1 s'" "(\<forall>p. g \<noteq> Opened p) \<longrightarrow> s' = s1"
    using assms handle_payload_rest by (auto simp: process_envelope_def split: prod.splits gate.splits)
  have k: "rest_kept s1 s'" using r by (cases g) (auto intro: rest_kept_same)
  note f = gate_frame [OF g]
  have "keys_distinct (ib_cache s) \<and> length (ib_cache s) \<le> MAX_REPLAY_CACHE_ENTRIES \<longrightarrow>
      keys_distinct (ib_cache s1) \<and> length (ib_cache s1) \<le> MAX_REPLAY_CACHE_ENTRIES"
    using f check_keys check_bound by auto
  moreover have "db_inv (ib_db s) \<longrightarrow> db_inv (ib_db s')" using db_reaches_inv [OF process_envelope_reaches [OF assms]] by blast
  moreover have "set (db_deleted (ib_db s)) \<subseteq> set (db_deleted (ib_db s'))"
    by (rule db_reaches_keeps_deleted [OF process_envelope_reaches [OF assms]])
  moreover have "ib_cache s' = ib_cache s1" "rt_inv (ib_table s) \<longrightarrow> rt_inv (ib_table s')"
    "\<forall>w. outbox_inv (ib_queue s, w) \<longrightarrow> outbox_inv (ib_queue s', w)"
    using k f marks_inv by (auto simp: rest_kept_def)
  ultimately show ?thesis by (simp add: fair_change_def)
qed

lemma fair_clear: "clear_chat E now u (s, store) = (s', store') \<Longrightarrow> fair_change s s'"
  by (auto simp: clear_chat_def Let_def intro: fair_db more_reaches)

lemma fair_delete_contact: "delete_contact E now u (s, store) = (s', store') \<Longrightarrow> fair_change s s'"
  by (auto simp: delete_contact_def split: prod.splits intro!: fair_trans [OF fair_clear fair_db] more_reaches)

lemma wipe_inv: "wipe_local_data a b p canon (s, store, files) = (s', store', files') \<Longrightarrow> messenger_inv (s, w) \<Longrightarrow>
    messenger_inv (s', w) \<and> ib_db s' = wiped_db (ib_db s)"
  by (auto simp: wipe_local_data_def messenger_inv_def inbox_inv_def wiped_db_inv)

lemma outbox_weaken: "outbox_inv (q, w) \<Longrightarrow> outbox_inv (q, None)"
  by (auto simp: outbox_inv_def split: option.splits)

lemma queue_turn: "messenger_inv (s, w) \<Longrightarrow> outbox_inv (q, w') \<Longrightarrow> messenger_inv (s\<lparr>ib_queue := q\<rparr>, w')"
  using outbox_weaken by (auto simp: messenger_inv_def inbox_inv_def)

lemmas fair_turns = fair_send fair_file fair_voice fair_react fair_edit fair_group_send fair_call fair_delete_all fair_clear
  fair_delete_contact fair_receive fair_deliver

lemma messenger_turn_inv: "messenger_turn E x y \<Longrightarrow> messenger_inv x \<Longrightarrow> messenger_inv y"
proof (induction rule: messenger_turn.induct)
  case (TPin i s b s' w)
  then show ?case using fair_inv [OF fair_db [OF more_reaches(2) [of "ib_db s" i]]] by (auto simp: pin_message_def split: prod.splits)
next
  case (TGroup now kb ri rc t d s g s' w)
  then show ?case using fair_inv [OF fair_db [OF more_reaches(3)]] by (auto simp: create_group_def Let_def)
next
  case (TTake now s w q')
  have "outbox_inv (ib_queue s, None)" using TTake.prems by (simp add: messenger_inv_def)
  from outbox_sys.step_inv [OF TrueI this, of "OutPop now"] have "outbox_inv (q', w)" using TTake.hyps by simp
  then show ?case using queue_turn TTake.prems by blast
next
  case (TBack s m now)
  have "outbox_inv (ib_queue s, Some m)" using TBack.prems by (simp add: messenger_inv_def)
  from outbox_sys.step_inv [OF TrueI this, of "OutRetry now"] have "outbox_inv (schedule_retry m now (ib_queue s), None)" by simp
  then show ?case using queue_turn TBack.prems by blast
next
  case (TDelete s w i)
  then show ?case using fair_inv [OF fair_db [OF more_reaches(4)]] by (simp add: delete_message_def)
next
  case (TDeleteMany s w "is")
  then show ?case using fair_inv [OF fair_db [OF more_reaches(5)]] by (simp add: delete_messages_def)
next
  case (TBlock s w u)
  then show ?case using fair_inv [OF fair_db [OF more_reaches(8)]] by (simp add: block_contact_def)
next
  case (TUnblock s w u)
  then show ?case using fair_inv [OF fair_db [OF more_reaches(9)]] by (simp add: unblock_contact_def)
next
  case (TWipe a b p canon s store files s' store' files' w)
  then show ?case using wipe_inv by blast
qed (erule fair_turns [THEN fair_inv], assumption)+

lemma messenger_run_inv: "(messenger_turn E)\<^sup>*\<^sup>* x y \<Longrightarrow> messenger_inv x \<Longrightarrow> messenger_inv y"
  by (induction rule: rtranclp_induct) (auto intro: messenger_turn_inv)

text \<open>Short of a wipe a turn forgets no deletion.\<close>

lemma messenger_turn_deleted: "messenger_turn E x y \<Longrightarrow>
    set (db_deleted (ib_db (fst x))) \<subseteq> set (db_deleted (ib_db (fst y))) \<or> ib_db (fst y) = wiped_db (ib_db (fst x))"
proof (induction rule: messenger_turn.induct)
  case (TPin i s b s' w)
  then show ?case using db_reaches_keeps_deleted [OF more_reaches(2) [of "ib_db s" i]] by (auto simp: pin_message_def split: prod.splits)
next
  case (TGroup now kb ri rc t d s g s' w)
  then show ?case by (auto simp: create_group_def db_add_group_def Let_def)
next
  case (TDelete s w i)
  then show ?case using db_reaches_keeps_deleted [OF more_reaches(4)] by (simp add: delete_message_def)
next
  case (TDeleteMany s w "is")
  then show ?case using db_reaches_keeps_deleted [OF more_reaches(5)] by (simp add: delete_messages_def)
next
  case (TBlock s w u)
  then show ?case using db_reaches_keeps_deleted [OF more_reaches(8)] by (simp add: block_contact_def)
next
  case (TUnblock s w u)
  then show ?case using db_reaches_keeps_deleted [OF more_reaches(9)] by (simp add: unblock_contact_def)
next
  case (TWipe a b p canon s store files s' store' files' w)
  then show ?case by (auto simp: wipe_local_data_def)
qed (auto dest!: fair_turns simp: fair_change_def)

definition wiping_turn :: "user_env \<Rightarrow> run_state \<Rightarrow> run_state \<Rightarrow> bool" where
  "wiping_turn E x y \<longleftrightarrow> messenger_turn E x y \<and> ib_db (fst y) = wiped_db (ib_db (fst x))"

lemma messenger_run_deleted:
  assumes "(messenger_turn E)\<^sup>*\<^sup>* x y" "i \<in> set (db_deleted (ib_db (fst x)))"
  shows "i \<in> set (db_deleted (ib_db (fst y))) \<or> (\<exists>u v. (messenger_turn E)\<^sup>*\<^sup>* x u \<and> wiping_turn E u v \<and> (messenger_turn E)\<^sup>*\<^sup>* v y)"
  using assms
proof (induction rule: rtranclp_induct)
  case (step y z)
  consider "i \<in> set (db_deleted (ib_db (fst y)))" | u v where "(messenger_turn E)\<^sup>*\<^sup>* x u" "wiping_turn E u v" "(messenger_turn E)\<^sup>*\<^sup>* v y"
    using step.IH [OF step.prems] by blast
  then show ?case
  proof cases
    case 1
    show ?thesis
    proof (cases "ib_db (fst z) = wiped_db (ib_db (fst y))")
      case True
      then have "wiping_turn E y z" using step.hyps(2) by (simp add: wiping_turn_def)
      then show ?thesis using step.hyps(1) by blast
    next
      case False
      then show ?thesis using messenger_turn_deleted [OF step.hyps(2)] 1 by auto
    qed
  next
    case 2
    then show ?thesis using rtranclp.rtrancl_into_rtrancl [OF 2(3) step.hyps(2)] by blast
  qed
qed simp

end
