(* ===== verification/Desktop.thy ===== *)
theory Desktop
  imports Messenger Call_Audio
begin

text \<open>
  The desktop application (\<open>nodex-gui\<close>): the state behind its windows (\<open>state.rs\<close>), the events that it takes from the
  messenger, calls, and the operations of the main view (\<open>app.rs\<close>). What an operation asks of the messenger, of the sound card and of the
  microphone is a list of effects, in their order; drawing is left out. The messenger runs these requests as tasks of their own.
\<close>

section \<open>State\<close>

text \<open>A string is its bytes in UTF-8; this takes its first characters.\<close>

definition utf8_follows :: "char \<Rightarrow> bool" where
  "utf8_follows c \<longleftrightarrow> 128 \<le> (of_char c :: nat) \<and> (of_char c :: nat) < 192"

fun char_take :: "nat \<Rightarrow> string \<Rightarrow> string" where
  "char_take 0 s = []"
| "char_take (Suc n) [] = []"
| "char_take (Suc n) (c # s) = c # takeWhile utf8_follows s @ char_take n (dropWhile utf8_follows s)"

text \<open>The texts of the call log and of contacts: incoming, outgoing, missed, cancelled and declined call; node; P2P contact; voice
  message; file.\<close>

definition INCOMING_CALL :: string where "INCOMING_CALL = utf8_str [0xF0, 0x9F, 0x93, 0x9E, 0x20, 0xD0, 0x92, 0xD1, 0x85, 0xD0, 0xBE, 0xD0, 0xB4, 0xD1, 0x8F, 0xD1, 0x89, 0xD0,
     0xB8, 0xD0, 0xB9, 0x20, 0xD0, 0xB7, 0xD0, 0xB2, 0xD0, 0xBE, 0xD0, 0xBD, 0xD0, 0xBE, 0xD0, 0xBA]"
definition OUTGOING_CALL :: string where "OUTGOING_CALL = utf8_str [0xF0, 0x9F, 0x93, 0x9E, 0x20, 0xD0, 0x98, 0xD1, 0x81, 0xD1, 0x85, 0xD0, 0xBE, 0xD0, 0xB4, 0xD1, 0x8F, 0xD1,
     0x89, 0xD0, 0xB8, 0xD0, 0xB9, 0x20, 0xD0, 0xB7, 0xD0, 0xB2, 0xD0, 0xBE, 0xD0, 0xBD, 0xD0, 0xBE, 0xD0, 0xBA]"
definition MISSED_CALL :: string where "MISSED_CALL = utf8_str [0xF0, 0x9F, 0x93, 0xB5, 0x20, 0xD0, 0x9F, 0xD1, 0x80, 0xD0, 0xBE, 0xD0, 0xBF, 0xD1, 0x83, 0xD1, 0x89, 0xD0,
     0xB5, 0xD0, 0xBD, 0xD0, 0xBD, 0xD1, 0x8B, 0xD0, 0xB9, 0x20, 0xD0, 0xB7, 0xD0, 0xB2, 0xD0, 0xBE, 0xD0, 0xBD,
     0xD0, 0xBE, 0xD0, 0xBA]"
definition CANCELLED_CALL :: string where "CANCELLED_CALL = utf8_str [0xF0, 0x9F, 0x93, 0xB5, 0x20, 0xD0, 0x9E, 0xD1, 0x82, 0xD0, 0xBC, 0xD0, 0xB5, 0xD0, 0xBD, 0xD0, 0xB5, 0xD0,
     0xBD, 0xD0, 0xBD, 0xD1, 0x8B, 0xD0, 0xB9, 0x20, 0xD0, 0xB7, 0xD0, 0xB2, 0xD0, 0xBE, 0xD0, 0xBD, 0xD0, 0xBE,
     0xD0, 0xBA]"
definition DECLINED_CALL :: string where "DECLINED_CALL = utf8_str [0xF0, 0x9F, 0x9A, 0xAB, 0x20, 0xD0, 0x9E, 0xD1, 0x82, 0xD0, 0xBA, 0xD0, 0xBB, 0xD0, 0xBE, 0xD0, 0xBD, 0xD0,
     0xB5, 0xD0, 0xBD, 0xD0, 0xBD, 0xD1, 0x8B, 0xD0, 0xB9, 0x20, 0xD0, 0xB7, 0xD0, 0xB2, 0xD0, 0xBE, 0xD0, 0xBD,
     0xD0, 0xBE, 0xD0, 0xBA]"
definition NODE_NAME :: string where "NODE_NAME = utf8_str [0xD0, 0xA3, 0xD0, 0xB7, 0xD0, 0xB5, 0xD0, 0xBB, 0x20]"
definition P2P_CONTACT :: string where "P2P_CONTACT = utf8_str [0x50, 0x32, 0x50, 0x20, 0xD0, 0xBA, 0xD0, 0xBE, 0xD0, 0xBD, 0xD1, 0x82, 0xD0, 0xB0, 0xD0, 0xBA, 0xD1, 0x82]"
definition VOICE_TEXT :: string where "VOICE_TEXT = utf8_str [0xF0, 0x9F, 0x8E, 0x99, 0x20, 0xD0, 0x93, 0xD0, 0xBE, 0xD0, 0xBB, 0xD0, 0xBE, 0xD1, 0x81, 0xD0, 0xBE, 0xD0,
     0xB2, 0xD0, 0xBE, 0xD0, 0xB5, 0x20, 0xD1, 0x81, 0xD0, 0xBE, 0xD0, 0xBE, 0xD0, 0xB1, 0xD1, 0x89, 0xD0, 0xB5,
     0xD0, 0xBD, 0xD0, 0xB8, 0xD0, 0xB5, 0x20, 0x28]"
definition VOICE_TOAST :: string where "VOICE_TOAST = utf8_str [0xD0, 0x93, 0xD0, 0xBE, 0xD0, 0xBB, 0xD0, 0xBE, 0xD1, 0x81, 0xD0, 0xBE, 0xD0, 0xB2, 0xD0, 0xBE, 0xD0, 0xB5,
     0x20, 0xD1, 0x81, 0xD0, 0xBE, 0xD0, 0xBE, 0xD0, 0xB1, 0xD1, 0x89, 0xD0, 0xB5, 0xD0, 0xBD, 0xD0, 0xB8, 0xD0,
     0xB5]"
definition FILE_TOAST :: string where "FILE_TOAST = utf8_str [0xD0, 0xA4, 0xD0, 0xB0, 0xD0, 0xB9, 0xD0, 0xBB, 0x3A, 0x20]"

text \<open>A call. The time of a call is a sum of frame times in single precision; the frames are kept, and their sum is an argument
  of the operations that show it.\<close>

record ui_call =
  cl_id :: string
  cl_peer :: string
  cl_name :: string
  cl_incoming :: bool
  cl_connected :: bool
  cl_muted :: bool
  cl_frames :: "nat list"
  cl_last_audio :: instant
  cl_seq :: u64

record toast =
  to_sender :: string
  to_name :: string
  to_text :: string
  to_created :: instant

record device_session =
  dv_id :: string
  dv_current :: bool

record desktop =
  dk_me :: string
  dk_name :: string
  dk_backend :: bool
  dk_contacts :: "saved_contact list"
  dk_groups :: "p2p_group list"
  dk_messages :: "chat_message list"
  dk_call :: "ui_call option"
  dk_chat :: "string option"
  dk_group :: "string option"
  dk_toast :: "toast option"
  dk_notify :: bool
  dk_sent :: nat
  dk_delivered :: nat
  dk_received :: nat
  dk_last_seen :: "(string \<times> u64) list"
  dk_sessions :: "device_session list"
  dk_confirm_delete :: "string option"

text \<open>What is asked of the sound card, the microphone and the messenger.\<close>

datatype sound = NotificationSound | SentSound | RingtoneLoop | DialToneLoop | HangupSound

datatype request = RqDiscover string | RqSignal string call_signal_type string | RqAudio string string "i16 list" u32 u64
  | RqSend string string | RqVoice string voice_note | RqReact string string string | RqEdit string string string | RqPin string
  | RqDelete string | RqDeleteEveryone string "string list" | RqClearChat string | RqDeleteContact string
  | RqAddContact saved_contact | RqLog chat_message | RqInvite string saved_contact

datatype effect = Play sound | StartCallAudio | StopPlayer | StopCallAudio | PlaySamples "i16 list" u32 | MicStart | MicStop | Ask request

definition ask :: "request \<Rightarrow> desktop \<Rightarrow> effect list" where
  "ask r d = (if dk_backend d then [Ask r] else [])"

text \<open>\<open>mark_peer_active\<close> and \<open>is_peer_online\<close>.\<close>

definition mark_peer_active :: "u64 \<Rightarrow> string \<Rightarrow> desktop \<Rightarrow> desktop" where
  "mark_peer_active now peer d = d\<lparr>dk_last_seen := map_put peer now (dk_last_seen d)\<rparr>"

definition is_peer_online :: "u64 \<Rightarrow> string \<Rightarrow> desktop \<Rightarrow> bool" where
  "is_peer_online now peer d \<longleftrightarrow>
     (if peer = SELF_SAVED \<or> peer = dk_me d then False
      else (case map_of (dk_last_seen d) peer of
          Some t \<Rightarrow> saturating_sub64 now t < 120
        | None \<Rightarrow> False))"

section \<open>Events of the messenger\<close>

definition peer_label :: "string \<Rightarrow> string" where
  "peer_label peer = ''Peer '' @ char_take 8 peer"

definition known_contact :: "string \<Rightarrow> desktop \<Rightarrow> saved_contact option" where
  "known_contact peer d = find (\<lambda>c. sc_user_id c = peer \<or> sc_ed25519_pub_hex c = peer) (dk_contacts d)"

definition own_contact :: "desktop \<Rightarrow> saved_contact" where
  "own_contact d = \<lparr>sc_user_id = dk_me d, sc_name = dk_name d @ YOU_SUFFIX, sc_bio = PERSONAL_BIO,
     sc_ed25519_pub_hex = dk_me d, sc_x25519_pub_hex = dk_me d, sc_last_seen_addr = ''127.0.0.1:0''\<rparr>"

definition has_contact :: "string \<Rightarrow> desktop \<Rightarrow> bool" where
  "has_contact u d \<longleftrightarrow> list_ex (\<lambda>c. sc_user_id c = u) (dk_contacts d)"

definition add_own_contact :: "desktop \<Rightarrow> desktop" where
  "add_own_contact d = (if has_contact (dk_me d) d then d else d\<lparr>dk_contacts := own_contact d # dk_contacts d\<rparr>)"

definition message_received :: "u64 \<Rightarrow> instant \<Rightarrow> chat_message \<Rightarrow> desktop \<Rightarrow> desktop \<times> effect list" where
  "message_received now t m d =
     (let sender = sm_sender m; d = d\<lparr>dk_received := dk_received d + 1\<rparr>;
          sound = (if dk_notify d \<and> sender \<noteq> dk_me d then [Play NotificationSound] else []);
          d = (if sender \<noteq> dk_me d then mark_peer_active now sender d else d);
          (name, d, asked) =
            (if sender = dk_me d then (dk_name d @ YOU_SUFFIX, add_own_contact d, [])
             else (case known_contact sender d of
                 Some c \<Rightarrow> (sc_name c, d, [])
               | None \<Rightarrow> (peer_label sender, d\<lparr>dk_contacts := \<lparr>sc_user_id = sender, sc_name = peer_label sender, sc_bio = ''Direct Contact'',
                     sc_ed25519_pub_hex = sender, sc_x25519_pub_hex = sender, sc_last_seen_addr = []\<rparr> # dk_contacts d\<rparr>, ask (RqDiscover sender) d)));
          d = (if dk_notify d then d\<lparr>dk_toast := Some \<lparr>to_sender = sender, to_name = name, to_text = sm_text m, to_created = t\<rparr>\<rparr> else d)
      in (d\<lparr>dk_messages := dk_messages d @ [m]\<rparr>, sound @ asked))"

definition delivery_shown :: "string \<Rightarrow> desktop \<Rightarrow> desktop" where
  "delivery_shown i d = d\<lparr>dk_delivered := dk_delivered d + 1,
     dk_messages := update_first (\<lambda>m. sm_id m = i) (\<lambda>m. m\<lparr>sm_delivered := True\<rparr>) (dk_messages d)\<rparr>"

definition edit_shown :: "string \<Rightarrow> string \<Rightarrow> desktop \<Rightarrow> desktop" where
  "edit_shown i x d = d\<lparr>dk_messages := update_first (\<lambda>m. sm_id m = i) (\<lambda>m. m\<lparr>sm_text := x, sm_is_edited := True\<rparr>) (dk_messages d)\<rparr>"

definition reaction_shown :: "string \<Rightarrow> string \<Rightarrow> string \<Rightarrow> desktop \<Rightarrow> desktop" where
  "reaction_shown i emoji reactor d = d\<lparr>dk_messages := update_first (\<lambda>m. sm_id m = i)
     (\<lambda>m. let rs = (case map_of (sm_reactions m) emoji of Some rs \<Rightarrow> rs | None \<Rightarrow> []) in
        m\<lparr>sm_reactions := map_put emoji (if reactor \<in> set rs then rs else rs @ [reactor]) (sm_reactions m)\<rparr>) (dk_messages d)\<rparr>"

text \<open>An entry of the call log. It is shown and stored; the identifier has the time in microseconds and a random number.\<close>

record log_io =
  lg_micros :: nat
  lg_rand :: u32
  lg_time :: u64

definition log_entry :: "log_io \<Rightarrow> string \<Rightarrow> string \<Rightarrow> bool \<Rightarrow> desktop \<Rightarrow> chat_message" where
  "log_entry io peer text incoming d = \<lparr>sm_id = ''call_log_'' @ decimal (lg_micros io) @ ''_'' @ lower_hex (unat (lg_rand io)),
     sm_sender = (if incoming then peer else dk_me d), sm_recipient = (if incoming then dk_me d else peer), sm_text = text,
     sm_image = None, sm_voice = None, sm_reply_to = None, sm_reply_snippet = None, sm_is_edited = False, sm_edit_timestamp = None,
     sm_reactions = [], sm_group_id = None, sm_is_pinned = False, sm_expires_at = None, sm_timestamp = lg_time io,
     sm_incoming = incoming, sm_delivered = True\<rparr>"

definition log_call_message :: "log_io \<Rightarrow> string \<Rightarrow> string \<Rightarrow> bool \<Rightarrow> desktop \<Rightarrow> desktop \<times> effect list" where
  "log_call_message io peer text incoming d =
     (let m = log_entry io peer text incoming d in (d\<lparr>dk_messages := dk_messages d @ [m]\<rparr>, ask (RqLog m) d))"

text \<open>The line for a call that ended: how long it took, or that it was not taken. \<open>sec\<close> is its time in seconds.\<close>

definition end_label :: "nat \<Rightarrow> ui_call \<Rightarrow> string" where
  "end_label sec c =
     (if cl_connected c then (if cl_incoming c then INCOMING_CALL else OUTGOING_CALL) @ '' ('' @ decimal (sec div 60) @ '':'' @
        (if sec mod 60 < 10 then ''0'' else []) @ decimal (sec mod 60) @ '')''
      else if cl_incoming c then MISSED_CALL else CANCELLED_CALL)"

definition silence :: "effect list" where
  "silence = [StopPlayer, StopCallAudio, Play HangupSound, MicStop]"

definition other_call :: "call_signal \<Rightarrow> ui_call option \<Rightarrow> bool" where
  "other_call s c \<longleftrightarrow> (case c of None \<Rightarrow> True | Some c \<Rightarrow> cl_peer c \<noteq> cs_caller s \<or> cl_id c \<noteq> cs_call_id s)"

text \<open>A signal of the other side. A \<open>Reject\<close> or \<open>Hangup\<close> stops all sound and the microphone before it is compared with the call.\<close>

definition call_offered :: "instant \<Rightarrow> call_signal \<Rightarrow> desktop \<Rightarrow> desktop \<times> effect list" where
  "call_offered t s d =
     (if (case dk_call d of None \<Rightarrow> False | Some c \<Rightarrow> cl_connected c \<or> cl_id c \<noteq> []) then (d, ask (RqSignal (cs_caller s) Reject (cs_call_id s)) d)
      else (d\<lparr>dk_call := Some \<lparr>cl_id = cs_call_id s, cl_peer = cs_caller s,
            cl_name = (case known_contact (cs_caller s) d of Some c \<Rightarrow> sc_name c | None \<Rightarrow> peer_label (cs_caller s)),
            cl_incoming = True, cl_connected = False, cl_muted = False, cl_frames = [], cl_last_audio = t, cl_seq = 0\<rparr>\<rparr>, [Play RingtoneLoop]))"

definition call_answered :: "call_signal \<Rightarrow> desktop \<Rightarrow> desktop \<times> effect list" where
  "call_answered s d = (case dk_call d of
      None \<Rightarrow> (d, [StartCallAudio])
    | Some c \<Rightarrow> if cl_peer c \<noteq> cs_caller s \<or> cl_id c \<noteq> cs_call_id s \<or> cl_incoming c then (d, [StartCallAudio])
        else (d\<lparr>dk_call := Some (c\<lparr>cl_connected := True\<rparr>)\<rparr>, [StartCallAudio, MicStart]))"

definition logged_peer :: "call_signal \<Rightarrow> ui_call \<Rightarrow> string" where
  "logged_peer s c = (if cl_peer c \<noteq> [] then cl_peer c else cs_caller s)"

definition call_rejected :: "log_io \<Rightarrow> call_signal \<Rightarrow> desktop \<Rightarrow> desktop \<times> effect list" where
  "call_rejected io s d = (if other_call s (dk_call d) then (d, silence)
     else (case dk_call d of
         None \<Rightarrow> (d, silence)
       | Some c \<Rightarrow> (let (d, e) = log_call_message io (logged_peer s c) DECLINED_CALL False (d\<lparr>dk_call := None\<rparr>) in (d, silence @ e))))"

definition call_hung_up :: "log_io \<Rightarrow> nat \<Rightarrow> call_signal \<Rightarrow> desktop \<Rightarrow> desktop \<times> effect list" where
  "call_hung_up io sec s d = (if other_call s (dk_call d) then (d, silence)
     else (case dk_call d of
         None \<Rightarrow> (d, silence)
       | Some c \<Rightarrow> (let (d, e) = log_call_message io (logged_peer s c) (end_label sec c) (cl_incoming c) (d\<lparr>dk_call := None\<rparr>) in (d, silence @ e))))"

definition call_signalled :: "log_io \<Rightarrow> nat \<Rightarrow> instant \<Rightarrow> call_signal \<Rightarrow> desktop \<Rightarrow> desktop \<times> effect list" where
  "call_signalled io sec t s d = (case cs_type s of
      Offer \<Rightarrow> call_offered t s d
    | Answer \<Rightarrow> call_answered s d
    | Reject \<Rightarrow> call_rejected io s d
    | Hangup \<Rightarrow> call_hung_up io sec s d
    | _ \<Rightarrow> (d, []))"

definition in_call_with :: "string \<Rightarrow> string \<Rightarrow> desktop \<Rightarrow> bool" where
  "in_call_with peer call d \<longleftrightarrow> (case dk_call d of None \<Rightarrow> False | Some c \<Rightarrow> cl_connected c \<and> cl_peer c = peer \<and> cl_id c = call)"

text \<open>All events. \<open>unbase64\<close> is the decoder of the base64 crate; empty audio is not played.\<close>

datatype desktop_event = FromInbox messenger_event | FromCall audio_event

definition play_samples :: "i16 list \<Rightarrow> u32 \<Rightarrow> effect list" where
  "play_samples pcm rate = (if pcm = [] then [] else [PlaySamples pcm rate])"

record event_io =
  ev_now :: u64
  ev_instant :: instant
  ev_log :: log_io
  ev_secs :: nat
  ev_unbase64 :: "string \<Rightarrow> bytes option"

fun handle_event :: "event_io \<Rightarrow> desktop_event \<Rightarrow> desktop \<Rightarrow> desktop \<times> effect list" where
  "handle_event io (FromInbox (EvContacts cs)) d = (d\<lparr>dk_contacts := cs\<rparr>, [])"
| "handle_event io (FromInbox (EvMessage m)) d = message_received (ev_now io) (ev_instant io) m d"
| "handle_event io (FromInbox (EvDelivered i u)) d = (delivery_shown i d, [])"
| "handle_event io (FromInbox (EvEdited i x)) d = (edit_shown i x d, [])"
| "handle_event io (FromInbox (EvReaction i emoji u)) d = (reaction_shown i emoji u d, [])"
| "handle_event io (FromInbox (EvCall s)) d = call_signalled (ev_log io) (ev_secs io) (ev_instant io) s d"
| "handle_event io (FromInbox (EvCallAudio u c)) d =
     (d, if in_call_with u (ca_call_id c) d then (case ev_unbase64 io (ca_pcm_base64 c) of
         Some b \<Rightarrow> play_samples (pcm_of b) (ca_sample_rate c)
       | None \<Rightarrow> []) else [])"
| "handle_event io (FromInbox (EvDeleted u is)) d = (d\<lparr>dk_messages := filter (\<lambda>m. sm_id m \<notin> set is) (dk_messages d)\<rparr>, [])"
| "handle_event io (FromCall e) d =
     (d, if in_call_with (ae_sender e) (ae_call_id e) d then play_samples (ae_pcm e) (ae_rate e) else [])"

fun handle_incoming_events :: "(event_io \<times> desktop_event) list \<Rightarrow> desktop \<Rightarrow> desktop \<times> effect list" where
  "handle_incoming_events [] d = (d, [])"
| "handle_incoming_events ((io, e) # es) d =
     (let (d, a) = handle_event io e d; (d, b) = handle_incoming_events es d in (d, a @ b))"

end
