(* ===== verification/Desktop_Actions.thy ===== *)
theory Desktop_Actions
  imports Desktop
begin

text \<open>
  The desktop application, continued: one frame of an active call, the chat that is shown, and the operations that its view, the
  sidebar and the dialogs start (\<open>app.rs\<close>, \<open>call_modal.rs\<close>, \<open>add_contact.rs\<close>, \<open>create_group.rs\<close>).
\<close>

section \<open>A frame of a call\<close>

text \<open>The time of the frame, how long ago audio was sent, and what the microphone recorded since.\<close>

definition call_frame :: "nat \<Rightarrow> instant \<Rightarrow> i16 list \<Rightarrow> desktop \<Rightarrow> desktop \<times> effect list" where
  "call_frame dt now samples d = (case dk_call d of
      Some c \<Rightarrow>
        if cl_connected c then
          (let c = c\<lparr>cl_frames := cl_frames c @ [dt]\<rparr> in
           if (now - cl_last_audio c) div 1000000 \<ge> 20 then
             (let c = c\<lparr>cl_last_audio := now\<rparr> in
              if \<not> cl_muted c \<and> samples \<noteq> [] then
                (let c = c\<lparr>cl_seq := cl_seq c + 1\<rparr> in
                 (d\<lparr>dk_call := Some c\<rparr>, MicStart # ask (RqAudio (cl_peer c) (cl_id c) samples 16000 (cl_seq c)) d))
              else (d\<lparr>dk_call := Some c\<rparr>, [MicStart]))
           else (d\<lparr>dk_call := Some c\<rparr>, [MicStart]))
        else (d, [])
    | None \<Rightarrow> (d, []))"

section \<open>The chat that is shown\<close>

definition saved_shown :: "desktop \<Rightarrow> bool" where
  "saved_shown d \<longleftrightarrow> dk_chat d = Some SELF_SAVED"

definition self_shown :: "desktop \<Rightarrow> bool" where
  "self_shown d \<longleftrightarrow> dk_chat d = Some (dk_me d)"

text \<open>A contact for an identifier that nobody has: its name has the first six bytes, which may cut a character.\<close>

definition unknown_contact :: "string \<Rightarrow> saved_contact exec" where
  "unknown_contact u = exec_bind (str_slice u 0 (min 6 (length u))) (\<lambda>p.
     Done \<lparr>sc_user_id = u, sc_name = NODE_NAME @ p, sc_bio = P2P_CONTACT, sc_ed25519_pub_hex = u, sc_x25519_pub_hex = u, sc_last_seen_addr = []\<rparr>)"

definition active_contact :: "desktop \<Rightarrow> saved_contact option exec" where
  "active_contact d =
     (if saved_shown d then Done None
      else if self_shown d then Done (Some (own_contact d))
      else (case dk_chat d of
          None \<Rightarrow> Done None
        | Some u \<Rightarrow> (case find (\<lambda>c. sc_user_id c = u) (dk_contacts d) of
              Some c \<Rightarrow> Done (Some c)
            | None \<Rightarrow> exec_bind (unknown_contact u) (\<lambda>c. Done (Some c)))))"

definition active_group :: "desktop \<Rightarrow> p2p_group option" where
  "active_group d =
     (if \<not> saved_shown d \<and> \<not> self_shown d
      then (case dk_group d of None \<Rightarrow> None | Some g \<Rightarrow> find (\<lambda>x. pg_id x = g) (dk_groups d)) else None)"

definition active_target :: "saved_contact option \<Rightarrow> desktop \<Rightarrow> string option" where
  "active_target c d =
     (if saved_shown d then Some SELF_SAVED
      else if self_shown d then Some (dk_me d)
      else (case c of
          Some c \<Rightarrow> Some (sc_user_id c)
        | None \<Rightarrow> (case active_group d of Some g \<Rightarrow> Some (pg_id g) | None \<Rightarrow> dk_chat d)))"

definition own_note :: "desktop \<Rightarrow> chat_message \<Rightarrow> bool" where
  "own_note d m \<longleftrightarrow> sm_recipient m = SELF_SAVED \<or> (sm_sender m = dk_me d \<and> sm_recipient m = dk_me d)"

definition active_messages :: "saved_contact option \<Rightarrow> desktop \<Rightarrow> chat_message list" where
  "active_messages c d =
     (if saved_shown d \<or> self_shown d then filter (own_note d) (dk_messages d)
      else (case active_target c d of
          None \<Rightarrow> []
        | Some u \<Rightarrow> filter (\<lambda>m. \<not> own_note d m \<and>
            (case sm_group_id m of Some g \<Rightarrow> g = u
             | None \<Rightarrow> (sm_sender m = u \<and> sm_recipient m = dk_me d) \<or> (sm_sender m = dk_me d \<and> sm_recipient m = u))) (dk_messages d)))"

section \<open>Operations of the chat\<close>

text \<open>Random bytes for an identifier, and times.\<close>

record ui_io =
  ui_rand :: bytes
  ui_time :: u64
  ui_instant :: instant

text \<open>The message as the window shows it. Its identifier is made here; the messenger makes another one for what it stores and sends.\<close>

definition shown_message :: "ui_io \<Rightarrow> string \<Rightarrow> string \<Rightarrow> desktop \<Rightarrow> chat_message" where
  "shown_message io target text d = \<lparr>sm_id = ''msg_'' @ to_hex (ui_rand io), sm_sender = dk_me d, sm_recipient = target, sm_text = text,
     sm_image = None, sm_voice = None, sm_reply_to = None, sm_reply_snippet = None, sm_is_edited = False, sm_edit_timestamp = None,
     sm_reactions = [], sm_group_id = map_option pg_id (active_group d), sm_is_pinned = False, sm_expires_at = None,
     sm_timestamp = ui_time io, sm_incoming = False, sm_delivered = (target = SELF_SAVED \<or> target = dk_me d)\<rparr>"

definition show_own :: "chat_message \<Rightarrow> desktop \<Rightarrow> desktop" where
  "show_own m d = d\<lparr>dk_messages := dk_messages d @ [m], dk_sent := dk_sent d + 1\<rparr>"

definition own_toast :: "ui_io \<Rightarrow> string \<Rightarrow> desktop \<Rightarrow> desktop" where
  "own_toast io text d =
     (if dk_notify d then d\<lparr>dk_toast := Some \<lparr>to_sender = dk_me d, to_name = dk_name d @ YOU_SUFFIX, to_text = text, to_created = ui_instant io\<rparr>\<rparr> else d)"

text \<open>\<open>SendMessage\<close>: the contact of the user or of the other side is added when it is missing; the answered message is shown, and not
  sent.\<close>

definition send_shown :: "ui_io \<Rightarrow> string option \<Rightarrow> string \<Rightarrow> string option \<Rightarrow> desktop \<Rightarrow> (desktop \<times> effect list) exec" where
  "send_shown io target text reply d = (case target of
      None \<Rightarrow> Done (d, [])
    | Some u \<Rightarrow>
        (let no_group = (active_group d = None);
             d = show_own ((shown_message io u text d)\<lparr>sm_reply_to := reply\<rparr>) d;
             sent = (if u = SELF_SAVED then [] else ask (RqSend u text) d) in
         if u = dk_me d then
           (let added = (if has_contact (dk_me d) d then [] else ask (RqAddContact (own_contact d)) d) in
            Done (own_toast io text (add_own_contact d), Play SentSound # added @ sent))
         else if u \<noteq> SELF_SAVED \<and> \<not> has_contact u d \<and> no_group then exec_bind (unknown_contact u) (\<lambda>c.
            Done (d\<lparr>dk_contacts := c # dk_contacts d\<rparr>, Play SentSound # ask (RqAddContact c) d @ sent))
         else Done (d, Play SentSound # sent)))"

definition send_voice_shown :: "ui_io \<Rightarrow> string option \<Rightarrow> voice_note \<Rightarrow> desktop \<Rightarrow> desktop \<times> effect list" where
  "send_voice_shown io target v d = (case target of
      None \<Rightarrow> (d, [])
    | Some u \<Rightarrow>
        (let d = show_own ((shown_message io u (VOICE_TEXT @ formatted_duration v @ '')'') d)\<lparr>sm_voice := Some v\<rparr>) d;
             sent = (if u = SELF_SAVED then [] else ask (RqVoice u v) d) in
         (if u = dk_me d then own_toast io VOICE_TOAST (add_own_contact d) else d, Play SentSound # sent)))"

text \<open>\<open>SendFile\<close>: the file is shown in the window; only its name is sent. \<open>content\<close> is what the file system gave.\<close>

definition send_file_shown :: "ui_io \<Rightarrow> (bytes \<Rightarrow> string) \<Rightarrow> string option \<Rightarrow> string \<Rightarrow> bytes option \<Rightarrow> desktop \<Rightarrow> desktop \<times> effect list" where
  "send_file_shown io base64 target filename content d = (case (target, content) of
      (Some u, Some raw) \<Rightarrow>
        (let text = ''[File: '' @ filename @ '']'';
             d = show_own ((shown_message io u text d)\<lparr>sm_image := Some (base64 raw)\<rparr>) d;
             sent = (if u = SELF_SAVED then [] else ask (RqSend u text) d) in
         (if u = dk_me d then own_toast io (FILE_TOAST @ filename) (add_own_contact d) else d, Play SentSound # sent))
    | _ \<Rightarrow> (d, []))"

text \<open>A request about a message goes to the messenger unless the saved messages are shown.\<close>

definition ask_target :: "string option \<Rightarrow> (string \<Rightarrow> request) \<Rightarrow> desktop \<Rightarrow> effect list" where
  "ask_target target r d = (case target of Some u \<Rightarrow> if saved_shown d then [] else ask (r u) d | None \<Rightarrow> [])"

definition toggle_own_reaction :: "string \<Rightarrow> string \<Rightarrow> (string \<times> string list) list \<Rightarrow> (string \<times> string list) list" where
  "toggle_own_reaction emoji me rs =
     (let had = (case map_of rs emoji of Some r \<Rightarrow> me \<in> set r | None \<Rightarrow> False);
          rs = filter (\<lambda>e. snd e \<noteq> []) (map (\<lambda>e. (fst e, filter (\<lambda>r. r \<noteq> me) (snd e))) rs) in
      if had then rs else map_put emoji ((case map_of rs emoji of Some r \<Rightarrow> r | None \<Rightarrow> []) @ [me]) rs)"

definition react_shown :: "string option \<Rightarrow> string \<Rightarrow> string \<Rightarrow> desktop \<Rightarrow> desktop \<times> effect list" where
  "react_shown target i emoji d =
     (d\<lparr>dk_messages := update_first (\<lambda>m. sm_id m = i) (\<lambda>m. m\<lparr>sm_reactions := toggle_own_reaction emoji (dk_me d) (sm_reactions m)\<rparr>) (dk_messages d)\<rparr>,
      ask_target target (\<lambda>u. RqReact u i emoji) d)"

definition edit_own_shown :: "string option \<Rightarrow> string \<Rightarrow> string \<Rightarrow> desktop \<Rightarrow> desktop \<times> effect list" where
  "edit_own_shown target i x d = (edit_shown i x d, ask_target target (\<lambda>u. RqEdit u i x) d)"

definition pin_shown :: "string \<Rightarrow> desktop \<Rightarrow> desktop \<times> effect list" where
  "pin_shown i d = (d\<lparr>dk_messages := update_first (\<lambda>m. sm_id m = i) (\<lambda>m. m\<lparr>sm_is_pinned := \<not> sm_is_pinned m\<rparr>) (dk_messages d)\<rparr>, ask (RqPin i) d)"

definition drop_shown :: "string \<Rightarrow> desktop \<Rightarrow> desktop" where
  "drop_shown i d = d\<lparr>dk_messages := filter (\<lambda>m. sm_id m \<noteq> i) (dk_messages d)\<rparr>"

definition delete_shown :: "string \<Rightarrow> desktop \<Rightarrow> desktop \<times> effect list" where
  "delete_shown i d = (drop_shown i d, ask (RqDelete i) d)"

definition delete_everyone_shown :: "string option \<Rightarrow> string \<Rightarrow> desktop \<Rightarrow> desktop \<times> effect list" where
  "delete_everyone_shown target i d = (drop_shown i d, ask (RqDelete i) d @ ask_target target (\<lambda>u. RqDeleteEveryone u [i]) d)"

section \<open>Calls of the user\<close>

definition start_call :: "ui_io \<Rightarrow> string \<Rightarrow> desktop \<Rightarrow> desktop \<times> effect list" where
  "start_call io peer d =
     (let call = decimal (unat (ui_time io)) @ ''_'' @ char_take 8 peer in
      (d\<lparr>dk_call := Some \<lparr>cl_id = call, cl_peer = peer, cl_name = (case known_contact peer d of Some c \<Rightarrow> sc_name c | None \<Rightarrow> peer_label peer),
          cl_incoming = False, cl_connected = False, cl_muted = False, cl_frames = [], cl_last_audio = ui_instant io, cl_seq = 0\<rparr>\<rparr>,
       Play DialToneLoop # ask (RqSignal peer Offer call) d))"

text \<open>The window of a call: accept or decline while an incoming call rings, otherwise mute or end; closing it ends the call.\<close>

datatype call_click = AcceptClick | DeclineClick | MuteClick | EndClick | CloseClick

datatype call_choice = AcceptCall string | DeclineCall string | EndCall string

definition call_modal :: "call_click \<Rightarrow> desktop \<Rightarrow> call_choice option \<times> desktop" where
  "call_modal k d = (case dk_call d of
      None \<Rightarrow> (None, d)
    | Some c \<Rightarrow> (let ringing = (cl_incoming c \<and> \<not> cl_connected c) in (case k of
          AcceptClick \<Rightarrow> if ringing then (Some (AcceptCall (cl_peer c)), d\<lparr>dk_call := Some (c\<lparr>cl_connected := True\<rparr>)\<rparr>) else (None, d)
        | DeclineClick \<Rightarrow> (if ringing then Some (DeclineCall (cl_peer c)) else None, d)
        | MuteClick \<Rightarrow> (None, if ringing then d else d\<lparr>dk_call := Some (c\<lparr>cl_muted := \<not> cl_muted c\<rparr>)\<rparr>)
        | EndClick \<Rightarrow> (if ringing then None else Some (EndCall (cl_peer c)), d)
        | CloseClick \<Rightarrow> (Some (EndCall (cl_peer c)), d))))"

definition call_id_of :: "desktop \<Rightarrow> string" where
  "call_id_of d = (case dk_call d of Some c \<Rightarrow> cl_id c | None \<Rightarrow> [])"

definition call_chosen :: "log_io \<Rightarrow> nat \<Rightarrow> u64 \<Rightarrow> call_choice \<Rightarrow> desktop \<Rightarrow> desktop \<times> effect list" where
  "call_chosen io sec now ch d = (case ch of
      AcceptCall peer \<Rightarrow>
        (let call = (case dk_call d of Some c \<Rightarrow> cl_id c | None \<Rightarrow> decimal (unat now) @ ''_'' @ char_take 8 peer) in
         (d\<lparr>dk_call := map_option (\<lambda>c. c\<lparr>cl_connected := True\<rparr>) (dk_call d)\<rparr>, [StartCallAudio, MicStart] @ ask (RqSignal peer Answer call) d))
    | DeclineCall peer \<Rightarrow>
        (let (d', e) = log_call_message io peer MISSED_CALL True (d\<lparr>dk_call := None\<rparr>) in
         (d', silence @ e @ ask (RqSignal peer Reject (call_id_of d)) d))
    | EndCall peer \<Rightarrow>
        (let (d', e) = (case dk_call d of
             Some c \<Rightarrow> log_call_message io peer (end_label sec c) (cl_incoming c) (d\<lparr>dk_call := None\<rparr>)
           | None \<Rightarrow> (d, [])) in
         (d', silence @ e @ ask (RqSignal peer Hangup (call_id_of d)) d)))"

section \<open>Chats and sessions that are removed\<close>

datatype sidebar_action = ClearHistory string | DeleteChat string | DeleteGroup string

definition with_peer :: "string \<Rightarrow> chat_message \<Rightarrow> bool" where
  "with_peer u m \<longleftrightarrow> sm_sender m = u \<or> sm_recipient m = u"

definition unselect :: "string \<Rightarrow> string option \<Rightarrow> string option" where
  "unselect u s = (if s = Some u then None else s)"

fun sidebar_chosen :: "sidebar_action \<Rightarrow> desktop \<Rightarrow> desktop \<times> effect list" where
  "sidebar_chosen (ClearHistory u) d = (d\<lparr>dk_messages := filter (\<lambda>m. \<not> with_peer u m) (dk_messages d)\<rparr>, ask (RqClearChat u) d)"
| "sidebar_chosen (DeleteChat u) d =
     (d\<lparr>dk_contacts := filter (\<lambda>c. sc_user_id c \<noteq> u) (dk_contacts d), dk_messages := filter (\<lambda>m. \<not> with_peer u m) (dk_messages d),
        dk_chat := unselect u (dk_chat d)\<rparr>, ask (RqDeleteContact u) d)"
| "sidebar_chosen (DeleteGroup g) d =
     (d\<lparr>dk_groups := filter (\<lambda>x. pg_id x \<noteq> g) (dk_groups d),
        dk_messages := filter (\<lambda>m. sm_group_id m \<noteq> Some g \<and> sm_recipient m \<noteq> g) (dk_messages d), dk_group := unselect g (dk_group d)\<rparr>, [])"

text \<open>The dialog that asks before a session is removed, once it was confirmed.\<close>

definition ALL_SESSIONS :: string where "ALL_SESSIONS = ''all_other_sessions''"

definition delete_session :: "string \<Rightarrow> desktop \<Rightarrow> desktop \<times> effect list" where
  "delete_session u d =
     (let d' = d\<lparr>dk_confirm_delete := None\<rparr> in
      if u = ALL_SESSIONS then (d'\<lparr>dk_sessions := filter dv_current (dk_sessions d)\<rparr>, [Play NotificationSound])
      else if list_ex (\<lambda>s. dv_id s = u) (dk_sessions d) then (d'\<lparr>dk_sessions := filter (\<lambda>s. dv_id s \<noteq> u) (dk_sessions d)\<rparr>, [Play NotificationSound])
      else (d'\<lparr>dk_contacts := filter (\<lambda>c. sc_user_id c \<noteq> u) (dk_contacts d), dk_groups := filter (\<lambda>g. pg_id g \<noteq> u) (dk_groups d),
               dk_messages := filter (\<lambda>m. \<not> with_peer u m \<and> sm_group_id m \<noteq> Some u) (dk_messages d),
               dk_chat := unselect u (dk_chat d), dk_group := unselect u (dk_group d)\<rparr>, ask (RqDeleteContact u) d))"

section \<open>New contacts and groups\<close>

text \<open>What was typed as a contact: an invitation or a pairing link loses its prefix and its query.\<close>

definition strip_prefix :: "string \<Rightarrow> string \<Rightarrow> string option" where
  "strip_prefix p s = (if take (length p) s = p then Some (drop (length p) s) else None)"

definition contact_request :: "string \<Rightarrow> string \<Rightarrow> (string \<times> string) option" where
  "contact_request typed alias =
     (let raw = rust_trim typed;
          raw = (case strip_prefix ''nodex://invite/'' raw of Some s \<Rightarrow> takeWhile (\<lambda>c. c \<noteq> CHR ''?'') s | None \<Rightarrow> raw);
          raw = (case strip_prefix ''nodex://pair/'' raw of Some s \<Rightarrow> takeWhile (\<lambda>c. c \<noteq> CHR ''/'') s | None \<Rightarrow> raw);
          alias = rust_trim alias in
      if raw \<noteq> [] \<and> alias \<noteq> [] then Some (raw, alias) else None)"

text \<open>A contact whose key is not known gets a hash of its identifier as its key. The messenger first tries an invitation, then
  the network, and stores this contact when both fail.\<close>

definition guessed_key :: "(bytes \<Rightarrow> bytes) \<Rightarrow> string \<Rightarrow> string" where
  "guessed_key sha256 u = (if length u = 64 then u else to_hex (sha256 (str_bytes ''NodeX-Deterministic-X25519'' @ str_bytes u)))"

definition add_typed_contact :: "(bytes \<Rightarrow> bytes) \<Rightarrow> string \<Rightarrow> string \<Rightarrow> desktop \<Rightarrow> desktop \<times> effect list" where
  "add_typed_contact sha256 u alias d =
     (let c = \<lparr>sc_user_id = u, sc_name = alias, sc_bio = [], sc_ed25519_pub_hex = u, sc_x25519_pub_hex = guessed_key sha256 u,
              sc_last_seen_addr = ''127.0.0.1:8444''\<rparr> in
      (d\<lparr>dk_contacts := c # filter (\<lambda>x. sc_user_id x \<noteq> u) (dk_contacts d), dk_chat := Some u, dk_group := None\<rparr>, ask (RqInvite u c) d))"

definition add_member_shown :: "u64 \<Rightarrow> desktop \<Rightarrow> p2p_group \<Rightarrow> string \<Rightarrow> p2p_group" where
  "add_member_shown now d g u = (case find (\<lambda>c. sc_user_id c = u) (dk_contacts d) of
      Some c \<Rightarrow> g\<lparr>pg_members := map_put (sc_user_id c) (group_member_new now (sc_user_id c) (sc_name c) Member) (pg_members g)\<rparr>
    | None \<Rightarrow> g)"

text \<open>A group is made in the window only: nothing is asked of the messenger.\<close>

definition create_group_shown :: "u64 \<Rightarrow> bytes \<Rightarrow> u32 \<Rightarrow> u8 \<Rightarrow> string \<Rightarrow> string list \<Rightarrow> desktop \<Rightarrow> desktop \<times> effect list" where
  "create_group_shown now key rid color title members d =
     (let g = fold (\<lambda>u g. add_member_shown now d g u) members (group_new now key rid color title [] (dk_me d) (dk_name d)) in
      (d\<lparr>dk_groups := g # dk_groups d, dk_group := Some (pg_id g), dk_chat := None\<rparr>, []))"

end
