(* ===== verification/Desktop_Run.thy ===== *)
theory Desktop_Run
  imports Desktop_Actions
begin

text \<open>
  The desktop application as it runs: every input of the user, of the messenger and of the clock is one step. The lemmas say when
  the voice of the user leaves, and what becomes of what the window sends once the messenger handles it.
\<close>

section \<open>Steps\<close>

record desk_env =
  de_base64 :: "bytes \<Rightarrow> string"
  de_sha256 :: "bytes \<Rightarrow> bytes"

text \<open>The toast at the top of the window, in one frame: it goes away after four and a half seconds, and its buttons open the chat of the
  sender or close it. It is drawn whatever else is shown, unless notifications are off or the zen mode is on (\<open>zen\<close>).\<close>

datatype toast_click = ToastOpen | ToastClose | ToastLeave

definition toast_frame :: "bool \<Rightarrow> instant \<Rightarrow> toast_click \<Rightarrow> desktop \<Rightarrow> desktop" where
  "toast_frame zen now k d =
     (if dk_notify d \<and> \<not> zen then (case dk_toast d of
         None \<Rightarrow> d
       | Some t \<Rightarrow>
           if now - to_created t > 4500000000 then d\<lparr>dk_toast := None\<rparr>
           else (case k of
               ToastOpen \<Rightarrow> d\<lparr>dk_chat := Some (to_sender t), dk_group := None, dk_toast := None\<rparr>
             | ToastClose \<Rightarrow> d\<lparr>dk_toast := None\<rparr>
             | ToastLeave \<Rightarrow> d))
      else d)"

lemma toast_keeps [simp]:
  "dk_call (toast_frame zen now k d) = dk_call d" "dk_messages (toast_frame zen now k d) = dk_messages d" "dk_me (toast_frame zen now k d) = dk_me d"
  by (simp_all add: toast_frame_def split: option.split toast_click.split)

datatype desk_input = InEvent event_io desktop_event | InFrame nat instant "i16 list" | InSend ui_io string "string option"
  | InVoice ui_io voice_note | InFile ui_io string "bytes option" | InReact string string | InEdit string string | InPin string
  | InDelete string | InDeleteEveryone string | InStartCall ui_io string | InCall log_io nat u64 call_click | InSidebar sidebar_action
  | InWantDelete string | InConfirmDelete | InContact string string | InGroup u64 bytes u32 u8 string "string list"
  | InSelectChat string | InSelectGroup string | InToast bool instant toast_click | InCancelDelete | InCopy

text \<open>The chat is computed in every frame; that it can be is part of every operation on it.\<close>

definition with_target :: "(string option \<Rightarrow> (desktop \<times> effect list) exec) \<Rightarrow> desktop \<Rightarrow> (desktop \<times> effect list) exec" where
  "with_target f d = exec_bind (active_contact d) (\<lambda>c. f (active_target c d))"

fun desk_step :: "desk_env \<Rightarrow> desk_input \<Rightarrow> desktop \<Rightarrow> (desktop \<times> effect list) exec" where
  "desk_step E (InEvent io e) d = Done (handle_event io e d)"
| "desk_step E (InFrame dt now pcm) d = Done (call_frame dt now pcm d)"
| "desk_step E (InSend io x reply) d = with_target (\<lambda>u. send_shown io u x reply d) d"
| "desk_step E (InVoice io v) d = with_target (\<lambda>u. Done (send_voice_shown io u v d)) d"
| "desk_step E (InFile io name raw) d = with_target (\<lambda>u. Done (send_file_shown io (de_base64 E) u name raw d)) d"
| "desk_step E (InReact i emoji) d = with_target (\<lambda>u. Done (react_shown u i emoji d)) d"
| "desk_step E (InEdit i x) d = with_target (\<lambda>u. Done (edit_own_shown u i x d)) d"
| "desk_step E (InPin i) d = with_target (\<lambda>u. Done (pin_shown i d)) d"
| "desk_step E (InDelete i) d = with_target (\<lambda>u. Done (delete_shown i d)) d"
| "desk_step E (InDeleteEveryone i) d = with_target (\<lambda>u. Done (delete_everyone_shown u i d)) d"
| "desk_step E (InStartCall io peer) d = with_target (\<lambda>u. Done (start_call io peer d)) d"
| "desk_step E (InCall io sec now k) d = (case call_modal k d of
      (None, d') \<Rightarrow> Done (d', [])
    | (Some ch, d') \<Rightarrow> Done (call_chosen io sec now ch d'))"
| "desk_step E (InSidebar a) d = Done (sidebar_chosen a d)"
| "desk_step E (InWantDelete u) d = Done (d\<lparr>dk_confirm_delete := Some u\<rparr>, [])"
| "desk_step E InConfirmDelete d = (case dk_confirm_delete d of None \<Rightarrow> Done (d, []) | Some u \<Rightarrow> Done (delete_session u d))"
| "desk_step E (InContact typed alias) d = (case contact_request typed alias of
      None \<Rightarrow> Done (d, [])
    | Some (u, a) \<Rightarrow> Done (add_typed_contact (de_sha256 E) u a d))"
| "desk_step E (InGroup now key rid color title ms) d = Done (create_group_shown now key rid color title ms d)"
| "desk_step E (InSelectChat u) d = Done (d\<lparr>dk_chat := Some u, dk_group := None\<rparr>, [])"
| "desk_step E (InSelectGroup g) d = Done (d\<lparr>dk_group := Some g, dk_chat := None\<rparr>, [])"
| "desk_step E (InToast zen now k) d = Done (toast_frame zen now k d, [])"
| "desk_step E InCancelDelete d = Done (d\<lparr>dk_confirm_delete := None\<rparr>, [])"
| "desk_step E InCopy d = Done (d, [Play SentSound])"

text \<open>A run with what happened: the state before each input, the input, and its effects.\<close>

type_synonym desk_trace = "(desktop \<times> desk_input \<times> effect list) list"

fun desk_run :: "desk_env \<Rightarrow> desk_input list \<Rightarrow> desktop \<Rightarrow> (desk_trace \<times> desktop) exec" where
  "desk_run E [] d = Done ([], d)"
| "desk_run E (i # is) d = exec_bind (desk_step E i d) (\<lambda>(d', e). exec_bind (desk_run E is d') (\<lambda>(tr, d''). Done ((d, i, e) # tr, d'')))"

section \<open>Calls\<close>

text \<open>Most inputs leave the call alone.\<close>

lemma calls_kept [simp]:
  "dk_call (mark_peer_active n u d) = dk_call d" "dk_call (add_own_contact d) = dk_call d" "dk_call (fst (message_received n t m d)) = dk_call d"
  "dk_call (delivery_shown i d) = dk_call d" "dk_call (edit_shown i x d) = dk_call d" "dk_call (reaction_shown i em u d) = dk_call d"
  "dk_call (own_toast uio x d) = dk_call d" "dk_call (show_own m d) = dk_call d" "dk_call (drop_shown i d) = dk_call d"
  "dk_call (fst (log_call_message lio u x b d)) = dk_call d" "dk_call (fst (sidebar_chosen a d)) = dk_call d" "dk_call (fst (delete_session u d)) = dk_call d"
  by (auto simp: mark_peer_active_def add_own_contact_def message_received_def delivery_shown_def edit_shown_def reaction_shown_def
      own_toast_def show_own_def drop_shown_def log_call_message_def delete_session_def Let_def split: option.split)
    (cases a; simp)+

text \<open>The only request with the voice of the user is made in a frame of a call that is connected and not muted.\<close>

fun audio_request :: "request \<Rightarrow> bool" where
  "audio_request (RqAudio u call pcm rate q) = True"
| "audio_request _ = False"

fun is_audio :: "effect \<Rightarrow> bool" where
  "is_audio (Ask r) = audio_request r"
| "is_audio _ = False"

lemma ask_audio [simp]: "list_all (\<lambda>x. \<not> is_audio x) (ask r d) \<longleftrightarrow> (dk_backend d \<longrightarrow> \<not> audio_request r)"
  by (simp add: ask_def)

lemma no_audio [simp]:
  "list_all (\<lambda>x. \<not> is_audio x) silence" "list_all (\<lambda>x. \<not> is_audio x) (play_samples pcm rate)"
  "list_all (\<lambda>x. \<not> is_audio x) (snd (log_call_message lio u x b d))"
  by (simp_all add: silence_def play_samples_def log_call_message_def ask_def Let_def)

lemma ask_target_audio [simp]: "(\<And>u. \<not> audio_request (r u)) \<Longrightarrow> list_all (\<lambda>x. \<not> is_audio x) (ask_target t r d)"
  by (auto simp: ask_target_def split: option.split)

lemma event_no_audio: "list_all (\<lambda>x. \<not> is_audio x) (snd (handle_event io e d))"
proof (cases "(io, e, d)" rule: handle_event.cases)
  case (2 io m d)
  then show ?thesis by (auto simp: message_received_def Let_def split: option.split)
next
  case (6 io s d)
  then show ?thesis
    by (auto simp: call_signalled_def call_offered_def call_answered_def call_rejected_def call_hung_up_def case_prod_unfold Let_def
        split: call_signal_type.split option.split)
qed (auto split: option.split)

lemma chosen_no_audio: "list_all (\<lambda>x. \<not> is_audio x) (snd (call_chosen lio sec now ch d))"
  by (auto simp: call_chosen_def case_prod_unfold Let_def split: call_choice.split option.split)

lemma removal_no_audio: "list_all (\<lambda>x. \<not> is_audio x) (snd (sidebar_chosen a d))" "list_all (\<lambda>x. \<not> is_audio x) (snd (delete_session u d))"
  by (cases a; simp add:) (simp add: delete_session_def Let_def)

lemma send_no_audio: "send_shown io t x r d = Done (d', e) \<Longrightarrow> list_all (\<lambda>x. \<not> is_audio x) e"
  by (auto simp: send_shown_def Let_def exec_bind_def split: option.splits if_splits exec.splits)

lemma step_audio:
  assumes "desk_step E i d = Done (d', e)" "Ask (RqAudio u call pcm rate q) \<in> set e"
  shows "\<exists>c. dk_call d = Some c \<and> cl_connected c \<and> \<not> cl_muted c \<and> cl_peer c = u \<and> cl_id c = call \<and> q = cl_seq c + 1"
proof -
  have n: "\<not> list_all (\<lambda>x. \<not> is_audio x) e" using assms(2) by (force simp: list_all_iff)
  show ?thesis
  proof (cases i)
    case (InEvent io ev)
    then show ?thesis using assms(1) n event_no_audio [of io ev d] by simp
  next
    case (InFrame dt now smp)
    then show ?thesis using assms by (auto simp: call_frame_def ask_def Let_def split: option.splits if_splits)
  next
    case (InCall lio sec now k)
    then show ?thesis using assms(1) n chosen_no_audio by (auto split: prod.splits option.splits) (metis snd_conv)
  next
    case (InSidebar a)
    then show ?thesis using assms(1) n removal_no_audio(1) by simp (metis snd_conv)
  next
    case InConfirmDelete
    then show ?thesis using assms(1) n removal_no_audio(2) by (auto split: option.splits) (metis snd_conv)
  next
    case (InSend io x r)
    then show ?thesis using assms(1) n send_no_audio by (auto simp: with_target_def exec_bind_def split: exec.splits)
  qed (use assms(1) n in \<open>auto simp: with_target_def exec_bind_def send_voice_shown_def send_file_shown_def react_shown_def edit_own_shown_def
      pin_shown_def delete_shown_def delete_everyone_shown_def start_call_def add_typed_contact_def create_group_shown_def
      Let_def split: exec.splits option.splits if_splits\<close>)
qed

text \<open>What a call has to have seen. An incoming one was offered, and accepted by a click while it was shown; an outgoing one was
  started, and answered by the one who was called, for this call.\<close>

fun signal_of :: "desk_input \<Rightarrow> call_signal option" where
  "signal_of (InEvent io (FromInbox (EvCall s))) = Some s"
| "signal_of _ = None"

definition signalled :: "call_signal_type \<Rightarrow> string \<Rightarrow> string \<Rightarrow> desk_input \<Rightarrow> bool" where
  "signalled ty u call i \<longleftrightarrow> (case signal_of i of Some s \<Rightarrow> cs_type s = ty \<and> cs_caller s = u \<and> cs_call_id s = call | None \<Rightarrow> False)"

fun accept_clicked :: "desk_input \<Rightarrow> bool" where
  "accept_clicked (InCall io sec now AcceptClick) = True"
| "accept_clicked _ = False"

fun call_started :: "string \<Rightarrow> desk_input \<Rightarrow> bool" where
  "call_started u (InStartCall io peer) = (peer = u)"
| "call_started u _ = False"

definition shows_call :: "string \<Rightarrow> string \<Rightarrow> desktop \<Rightarrow> bool" where
  "shows_call u call d \<longleftrightarrow> (case dk_call d of Some c \<Rightarrow> cl_peer c = u \<and> cl_id c = call \<and> cl_incoming c | None \<Rightarrow> False)"

definition agreed :: "desk_trace \<Rightarrow> ui_call \<Rightarrow> bool" where
  "agreed tr c \<longleftrightarrow>
     (if cl_incoming c then (\<exists>(d, i, e) \<in> set tr. signalled Offer (cl_peer c) (cl_id c) i) \<and>
        (cl_connected c \<longrightarrow> (\<exists>(d, i, e) \<in> set tr. accept_clicked i \<and> shows_call (cl_peer c) (cl_id c) d))
      else (\<exists>(d, i, e) \<in> set tr. call_started (cl_peer c) i) \<and>
        (cl_connected c \<longrightarrow> (\<exists>(d, i, e) \<in> set tr. signalled Answer (cl_peer c) (cl_id c) i)))"

definition call_agreed :: "desk_trace \<Rightarrow> desktop \<Rightarrow> bool" where
  "call_agreed tr d \<longleftrightarrow> (\<forall>c. dk_call d = Some c \<longrightarrow> agreed tr c)"

text \<open>What one step makes of the call.\<close>

definition same_call :: "ui_call \<Rightarrow> ui_call \<Rightarrow> bool" where
  "same_call c c' \<longleftrightarrow> cl_peer c' = cl_peer c \<and> cl_id c' = cl_id c \<and> cl_incoming c' = cl_incoming c"

definition call_follows :: "desktop \<Rightarrow> desk_input \<Rightarrow> ui_call \<Rightarrow> bool" where
  "call_follows d i c' \<longleftrightarrow>
     (\<exists>c. dk_call d = Some c \<and> same_call c c' \<and>
        (cl_connected c' \<longrightarrow> cl_connected c \<or> (if cl_incoming c then accept_clicked i else signalled Answer (cl_peer c) (cl_id c) i))) \<or>
     (\<not> cl_connected c' \<and> (if cl_incoming c' then signalled Offer (cl_peer c') (cl_id c') i else call_started (cl_peer c') i))"

lemma follows_same: "dk_call d = Some c \<Longrightarrow> call_follows d i c"
  by (simp add: call_follows_def same_call_def)

lemma follows_none: "dk_call d' = None \<Longrightarrow> dk_call d' = Some c' \<Longrightarrow> call_follows d i c'"
  by simp

lemma offered_call:
  "cs_type s = Offer \<Longrightarrow> dk_call (fst (call_offered t s d)) = Some c' \<Longrightarrow> call_follows d (InEvent io (FromInbox (EvCall s))) c'"
  by (auto simp: call_offered_def call_follows_def signalled_def same_call_def split: if_splits)

lemma answered_call:
  assumes "cs_type s = Answer" "dk_call (fst (call_answered s d)) = Some c'"
  shows "call_follows d (InEvent io (FromInbox (EvCall s))) c'"
proof (cases "dk_call d")
  case None
  then show ?thesis using assms(2) by (simp add: call_answered_def)
next
  case (Some c)
  show ?thesis
  proof (cases "cl_peer c \<noteq> cs_caller s \<or> cl_id c \<noteq> cs_call_id s \<or> cl_incoming c")
    case True
    then show ?thesis using assms(2) Some by (simp add: call_answered_def follows_same)
  next
    case False
    then have "c' = c\<lparr>cl_connected := True\<rparr>" using assms(2) Some by (simp add: call_answered_def)
    then show ?thesis using False assms(1) Some by (simp add: call_follows_def same_call_def signalled_def)
  qed
qed

lemma ended_call:
  "dk_call (fst (call_rejected lio s d)) = Some c' \<Longrightarrow> dk_call d = Some c'"
  "dk_call (fst (call_hung_up lio sec s d)) = Some c' \<Longrightarrow> dk_call d = Some c'"
  by (auto simp: call_rejected_def call_hung_up_def log_call_message_def Let_def split: option.splits if_splits)

lemma event_call:
  assumes "dk_call (fst (handle_event io e d)) = Some c'"
  shows "call_follows d (InEvent io e) c'"
proof (cases "\<exists>s. e = FromInbox (EvCall s)")
  case True
  then obtain s where e: "e = FromInbox (EvCall s)" by blast
  show ?thesis
  proof (cases "cs_type s")
    case Offer
    then show ?thesis using assms offered_call [OF Offer] unfolding e by (simp add: call_signalled_def)
  next
    case Answer
    then show ?thesis using assms answered_call [OF Answer] unfolding e by (simp add: call_signalled_def)
  next
    case Reject
    then have "dk_call (fst (call_rejected (ev_log io) s d)) = Some c'" using assms by (simp add: e call_signalled_def)
    from follows_same [OF ended_call(1) [OF this]] show ?thesis .
  next
    case Hangup
    then have "dk_call (fst (call_hung_up (ev_log io) (ev_secs io) s d)) = Some c'" using assms by (simp add: e call_signalled_def)
    from follows_same [OF ended_call(2) [OF this]] show ?thesis .
  qed (use assms in \<open>simp_all add: e call_signalled_def follows_same\<close>)
next
  case False
  then have "dk_call (fst (handle_event io e d)) = dk_call d"
    by (cases "(io, e, d)" rule: handle_event.cases) auto
  then show ?thesis using assms by (simp add: follows_same)
qed

lemma chosen_ends: "dk_call (fst (call_chosen lio sec now (DeclineCall u) d)) = None" "dk_call (fst (call_chosen lio sec now (EndCall u) d)) = None"
  by (simp_all add: call_chosen_def log_call_message_def Let_def split: option.split)

lemma click_call:
  assumes "desk_step E (InCall lio sec now k) d = Done (d', e)" "dk_call d' = Some c'"
  shows "call_follows d (InCall lio sec now k) c'"
proof (cases "dk_call d")
  case None
  then show ?thesis using assms by (simp add: call_modal_def)
next
  case (Some c)
  note end1 = chosen_ends(1) [of lio sec now "cl_peer c" d] and end2 = chosen_ends(2) [of lio sec now "cl_peer c" d]
  show ?thesis
  proof (cases k)
    case AcceptClick
    then show ?thesis using assms Some
      by (auto simp: call_modal_def call_chosen_def call_follows_def same_call_def Let_def split: if_splits)
  next
    case MuteClick
    then show ?thesis using assms Some by (auto simp: call_modal_def call_follows_def same_call_def Let_def split: if_splits)
  qed (use assms Some end1 end2 in \<open>auto simp: call_modal_def Let_def intro: follows_same split: if_splits\<close>)
qed

lemma frame_keeps: "\<exists>c'. dk_call d = Some c \<longrightarrow> dk_call (fst (call_frame dt now pcm d)) = Some c' \<and> same_call c c' \<and> cl_connected c' = cl_connected c"
  by (simp add: call_frame_def same_call_def Let_def)

lemma frame_call: "dk_call (fst (call_frame dt now pcm d)) = Some c' \<Longrightarrow> call_follows d i c'"
proof (cases "dk_call d")
  case (Some c)
  moreover assume "dk_call (fst (call_frame dt now pcm d)) = Some c'"
  ultimately have "same_call c c' \<and> cl_connected c' = cl_connected c" using frame_keeps [of d c dt now pcm] by auto
  then show ?thesis using Some by (simp add: call_follows_def)
qed (simp add: call_frame_def)

lemma send_call: "send_shown io t x r d = Done (d', e) \<Longrightarrow> dk_call d' = dk_call d"
  by (auto simp: send_shown_def Let_def exec_bind_def split: option.splits if_splits exec.splits)

lemma step_call:
  assumes "desk_step E i d = Done (d', e)" "dk_call d' = Some c'"
  shows "call_follows d i c'"
proof (cases i)
  case (InEvent io ev)
  then show ?thesis using assms event_call [of io ev d c'] by simp
next
  case (InFrame dt now pcm)
  then show ?thesis using assms frame_call [of dt now pcm d c'] by simp
next
  case (InCall lio sec now k)
  then show ?thesis using assms click_call by blast
next
  case (InStartCall io u)
  then show ?thesis using assms by (auto simp: with_target_def exec_bind_def start_call_def call_follows_def Let_def split: exec.splits)
next
  case (InSend io x r)
  then show ?thesis using assms send_call by (auto simp: with_target_def exec_bind_def intro: follows_same split: exec.splits)
next
  case (InSidebar a)
  then show ?thesis using assms calls_kept(11) [of a d] by (simp add: follows_same)
next
  case InConfirmDelete
  then show ?thesis using assms calls_kept(12) by (auto split: option.splits intro: follows_same) (metis calls_kept(12) follows_same fst_conv)
qed (use assms in \<open>auto simp: with_target_def exec_bind_def send_voice_shown_def send_file_shown_def react_shown_def edit_own_shown_def
    pin_shown_def delete_shown_def delete_everyone_shown_def add_typed_contact_def create_group_shown_def Let_def intro: follows_same
    split: exec.splits option.splits if_splits\<close>)

lemma follows_agreed:
  assumes "call_agreed tr d" "call_follows d i c'"
  shows "agreed (tr @ [(d, i, e)]) c'"
proof -
  consider (old) c where "dk_call d = Some c" "same_call c c'"
      "cl_connected c' \<longrightarrow> cl_connected c \<or> (if cl_incoming c then accept_clicked i else signalled Answer (cl_peer c) (cl_id c) i)"
    | (new) "\<not> cl_connected c'" "if cl_incoming c' then signalled Offer (cl_peer c') (cl_id c') i else call_started (cl_peer c') i"
    using assms(2) unfolding call_follows_def by blast
  then show ?thesis
  proof cases
    case old
    have "agreed tr c" using assms(1) old(1) by (simp add: call_agreed_def)
    then show ?thesis using old by (auto simp: agreed_def same_call_def shows_call_def split: if_splits)
  next
    case new
    then show ?thesis by (auto simp: agreed_def)
  qed
qed

lemma run_agreed:
  assumes "desk_run E is d = Done (tr, d')" "call_agreed pre d"
  shows "call_agreed (pre @ tr) d' \<and> (\<forall>k < length tr. call_agreed (pre @ take k tr) (fst (tr ! k)))"
  using assms
proof (induction "is" arbitrary: d pre tr)
  case (Cons i "is")
  obtain d1 e tr1 where s: "desk_step E i d = Done (d1, e)" "desk_run E is d1 = Done (tr1, d')" "tr = (d, i, e) # tr1"
    using Cons.prems(1) by (auto simp: exec_bind_def split: exec.splits)
  have "call_agreed (pre @ [(d, i, e)]) d1"
    using follows_agreed [OF Cons.prems(2) step_call [OF s(1)]] by (simp add: call_agreed_def)
  from Cons.IH [OF s(2) this] have r: "call_agreed (pre @ tr) d'" "\<forall>k < length tr1. call_agreed (pre @ (d, i, e) # take k tr1) (fst (tr1 ! k))"
    by (simp_all add: s(3))
  have "call_agreed (pre @ take k tr) (fst (tr ! k))" if "k < length tr" for k
    using that Cons.prems(2) r(2) by (cases k) (simp_all add: s(3))
  then show ?case using r(1) by blast
qed simp

lemma run_steps:
  assumes "desk_run E is d = Done (tr, d')" "k < length tr"
  shows "\<exists>d1. desk_step E (fst (snd (tr ! k))) (fst (tr ! k)) = Done (d1, snd (snd (tr ! k)))"
  using assms
proof (induction "is" arbitrary: d tr k)
  case (Cons i "is")
  then show ?case by (cases k) (auto simp: exec_bind_def split: exec.splits)
qed simp

text \<open>The voice of the user leaves only in a call that both sides agreed to before.\<close>

lemma voice_agreed:
  assumes "desk_run E is d = Done (tr, d')" "dk_call d = None" "k < length tr" "Ask (RqAudio u call pcm rate q) \<in> set (snd (snd (tr ! k)))"
  shows "\<exists>c. dk_call (fst (tr ! k)) = Some c \<and> cl_connected c \<and> \<not> cl_muted c \<and> cl_peer c = u \<and> cl_id c = call \<and> agreed (take k tr) c"
proof -
  obtain d1 where "desk_step E (fst (snd (tr ! k))) (fst (tr ! k)) = Done (d1, snd (snd (tr ! k)))" using run_steps [OF assms(1,3)] by blast
  from step_audio [OF this assms(4)] obtain c where c: "dk_call (fst (tr ! k)) = Some c" "cl_connected c" "\<not> cl_muted c" "cl_peer c = u" "cl_id c = call"
    by blast
  have "call_agreed (take k tr) (fst (tr ! k))" using run_agreed [OF assms(1), of "[]"] assms(2,3) by (simp add: call_agreed_def)
  then show ?thesis using c by (auto simp: call_agreed_def)
qed

end
