(* ===== verification/Desktop_Backend.thy ===== *)
theory Desktop_Backend
  imports Desktop_Run
begin

text \<open>
  The requests of the desktop application as the messenger handles them: each is a task of its own that calls one operation of
  \<open>Messenger\<close>. The lemmas say what becomes of them.
\<close>

section \<open>Handling a request\<close>

record serve_io =
  sv_deliver :: deliver_io
  sv_stamp :: stamp
  sv_now :: u64
  sv_suffix :: u64
  sv_debug :: "call_signal_type \<Rightarrow> string"
  sv_invite :: invite_text
  sv_table_free :: bool
  sv_audio_nonce :: bytes
  sv_audio_seed :: bytes
  sv_audio_send :: "bytes \<Rightarrow> socket_addr \<Rightarrow> bool"

text \<open>What leaves: what the cascade sends, and a packet with a frame of a call.\<close>

record served =
  sd_sent :: "network_send list"
  sd_frame :: "(socket_addr \<times> bytes) option"
  sd_state :: inbox_state
  sd_store :: storage

definition serves :: "inbox_state \<Rightarrow> storage \<Rightarrow> served" where
  "serves s st = \<lparr>sd_sent = [], sd_frame = None, sd_state = s, sd_store = st\<rparr>"

definition serve_outcome :: "storage \<Rightarrow> ('a \<times> network_send list \<times> inbox_state) exec \<Rightarrow> served exec" where
  "serve_outcome st r = exec_bind r (\<lambda>(_, sent, s). Done (serves s st\<lparr>sd_sent := sent\<rparr>))"

definition serve_discover :: "user_env \<Rightarrow> serve_io \<Rightarrow> inbox_state \<Rightarrow> (discover_failure + presence_card) \<times> inbox_state" where
  "serve_discover E io s = (case discover_peer (ue_crypto E) (ue_cards E) (ue_show E) (dl_instant (sv_deliver io)) (dl_found (sv_deliver io)) (ib_db s) (ib_table s) of
      (r, db, rt) \<Rightarrow> (r, s\<lparr>ib_db := db, ib_table := rt\<rparr>))"

text \<open>A typed contact: an invitation, then the network, and the guessed contact when both fail.\<close>

definition serve_invite :: "user_env \<Rightarrow> serve_io \<Rightarrow> string \<Rightarrow> saved_contact \<Rightarrow> inbox_state \<Rightarrow> inbox_state exec" where
  "serve_invite E io u c s =
     exec_bind (add_contact_by_invite (ue_crypto E) (sv_invite io) (ue_show E) (sv_now io) u (ib_db s)) (\<lambda>(r, db).
       let s = s\<lparr>ib_db := db\<rparr> in
       case r of
         Inr _ \<Rightarrow> Done s
       | Inl _ \<Rightarrow> (case serve_discover E io s of
             (Inr _, s) \<Rightarrow> Done s
           | (Inl _, s) \<Rightarrow> Done (s\<lparr>ib_db := db_add_contact c (ib_db s)\<rparr>)))"

definition serve_audio :: "user_env \<Rightarrow> serve_io \<Rightarrow> string \<Rightarrow> string \<Rightarrow> i16 list \<Rightarrow> u32 \<Rightarrow> u64 \<Rightarrow> inbox_state \<Rightarrow> storage \<Rightarrow> served exec" where
  "serve_audio E io u call pcm rate q s st =
     exec_bind (send_call_audio (ue_crypto E) (ue_parse E) (if sv_table_free io then Some (ib_table s) else None) (sv_audio_nonce io) (sv_audio_seed io)
         (sv_audio_send io) (ue_me E) (ib_db s) u call pcm rate q)
       (\<lambda>r. Done (serves s st\<lparr>sd_frame := (case r of Inr x \<Rightarrow> Some x | Inl _ \<Rightarrow> None)\<rparr>))"

fun serve :: "user_env \<Rightarrow> serve_io \<Rightarrow> request \<Rightarrow> inbox_state \<Rightarrow> storage \<Rightarrow> served exec" where
  "serve E io (RqDiscover u) s st = Done (serves (snd (serve_discover E io s)) st)"
| "serve E io (RqSignal u ty call) s st = serve_outcome st (send_call_signal E (sv_debug io) (sv_deliver io) (sv_now io) (sv_suffix io) u ty call s)"
| "serve E io (RqAudio u call pcm rate q) s st = serve_audio E io u call pcm rate q s st"
| "serve E io (RqSend u x) s st = serve_outcome st (send_chat E (sv_deliver io) (sv_stamp io) u x None s)"
| "serve E io (RqVoice u v) s st = serve_outcome st (send_voice_note E (sv_deliver io) (sv_stamp io) u v s)"
| "serve E io (RqReact u i emoji) s st = exec_bind (react_to_message E (sv_deliver io) (sv_now io) u i emoji s) (\<lambda>(sent, s). Done (serves s st\<lparr>sd_sent := sent\<rparr>))"
| "serve E io (RqEdit u i x) s st = exec_bind (edit_message E (sv_deliver io) (sv_now io) u i x s) (\<lambda>(sent, s). Done (serves s st\<lparr>sd_sent := sent\<rparr>))"
| "serve E io (RqPin i) s st = Done (serves (snd (pin_message i s)) st)"
| "serve E io (RqDelete i) s st = Done (serves (delete_message i s) st)"
| "serve E io (RqDeleteEveryone u is) s st = serve_outcome st (delete_messages_for_everyone E (sv_deliver io) (sv_now io) u is s)"
| "serve E io (RqClearChat u) s st = (case clear_chat E (sv_now io) u (s, st) of (s, st) \<Rightarrow> Done (serves s st))"
| "serve E io (RqDeleteContact u) s st = (case delete_contact E (sv_now io) u (s, st) of (s, st) \<Rightarrow> Done (serves s st))"
| "serve E io (RqAddContact c) s st = Done (serves (s\<lparr>ib_db := db_add_contact c (ib_db s)\<rparr>) st)"
| "serve E io (RqLog m) s st = Done (serves (s\<lparr>ib_db := add_message m (ib_db s)\<rparr>) st)"
| "serve E io (RqInvite u c) s st = exec_bind (serve_invite E io u c s) (\<lambda>s. Done (serves s st))"

section \<open>Identifiers\<close>

text \<open>The identifier in the window begins with a letter, that of the messenger with a digit.\<close>

definition window_id :: "string \<Rightarrow> bool" where
  "window_id i \<longleftrightarrow> take 4 i = ''msg_''"

lemma decimal_hd: "is_ascii_digit (hd (decimal n @ s))"
  using decimal_digits [of n] by (cases "decimal n") auto

lemma new_id_not_window: "\<not> window_id (new_message_id st me)"
proof
  assume "window_id (new_message_id st me)"
  then have "hd (new_message_id st me) = CHR ''m''" unfolding window_id_def by (cases "new_message_id st me") auto
  moreover have "is_ascii_digit (hd (new_message_id st me))" unfolding new_message_id_def by (rule decimal_hd)
  ultimately show False by (simp add: is_ascii_digit_def)
qed

lemma shown_id_window: "window_id (sm_id (shown_message io u x d))"
  by (simp add: window_id_def shown_message_def)

lemma window_ids_differ: "window_id i \<Longrightarrow> sm_id m = new_message_id st me \<Longrightarrow> i \<noteq> sm_id m"
  using new_id_not_window by metis

text \<open>The identifier of what was sent, and that it was stored.\<close>

lemma send_chat_id:
  assumes "send_chat E io st u x img s = Done (Ok m, sent, s')"
  shows "sm_id m = new_message_id st (ue_hex E)"
  using assms by (auto simp: send_chat_def own_message_def Let_def exec_bind_def split: if_splits exec.splits sum.splits messenger_error.splits)

text \<open>A deletion of messages that the user did not write sends nothing.\<close>

lemma delete_foreign_silent:
  assumes "distinct (map sm_id (db_messages (ib_db s)))" "\<forall>m \<in> set (db_messages (ib_db s)). sm_sender m = ue_hex E \<longrightarrow> sm_id m \<notin> set is"
  shows "\<exists>s'. delete_messages_for_everyone E io now u is s = Done (Ok (), [], s') \<and> db_messages (ib_db s') = db_messages (ib_db s)"
proof (cases "is = []")
  case True
  then show ?thesis by (simp add: delete_messages_for_everyone_def)
next
  case False
  obtain del db' where d: "delete_messages_by_author is (ue_hex E) (ib_db s) = (del, db')" by fastforce
  note f = delete_by_author_facts [OF assms(1) d]
  have "set del = {}" unfolding conjunct1 [OF conjunct2 [OF f]] using assms(2) by blast
  then have del: "del = []" by simp
  then have "db_messages db' = db_messages (ib_db s)" using f by simp
  then show ?thesis using False d del by (simp add: delete_messages_for_everyone_def Let_def)
qed

section \<open>Groups\<close>

text \<open>The identifier of a group is no identifier of a user.\<close>

lemma plain_lower_hex: "list_all plain_char (lower_hex n)"
proof (induction n rule: lower_hex.induct)
  case (1 n)
  show ?case
    using 1 hex_digit_facts(2) [of "n mod 16"] hex_digit_facts(2) [of n] by (subst lower_hex.simps) simp
qed

lemma plain_decimal: "list_all plain_char (decimal n)"
  using decimal_digits [of n] by (auto simp: list_all_iff is_ascii_digit_def plain_char_def)

lemma plain_group_id: "list_all plain_char (pg_id (group_new now key rid color title descr me name))"
  by (simp add: group_new_def plain_lower_hex plain_decimal) (simp add: plain_char_def)

lemma group_id_no_user: "\<exists>x. id_from_hex (pg_id (group_new now key rid color title descr me name)) = Done (Err x)"
proof -
  let ?g = "pg_id (group_new now key rid color title descr me name)"
  have t: "rust_trim ?g = ?g" by (rule rust_trim_plain [OF plain_group_id])
  have p: "take 2 ?g = ''gr''" by (simp add: group_new_def)
  have l: "2 \<le> length ?g" by (simp add: group_new_def)
  have s: "str_slice ?g 0 (0 + 2) = Done ''gr''"
    using str_slice_plain [OF plain_group_id, of 0 2] p l by (simp add: numeral_2_eq_2)
  show ?thesis
  proof (cases "length ?g = 40")
    case False
    then show ?thesis by (simp add: id_from_hex_def t Let_def)
  next
    case True
    have h: "u8_from_hex ''gr'' = Err InvalidDigit" by code_simp
    have "parse_hex_pairs ?g 0 (Suc 19) = Done (Err InvalidDigit)"
      unfolding parse_hex_pairs.simps s exec_bind_def by (simp add: h)
    then show ?thesis using True by (simp add: id_from_hex_def t Let_def exec_bind_def)
  qed
qed

text \<open>What is sent to no user is put on the queue, and nothing leaves.\<close>

lemma send_to_no_user:
  assumes "id_from_hex u = Done (Err x)" "\<not> db_is_blocked u (ib_db s)" "\<not> is_self (ue_hex E) u"
  shows "\<exists>m s'. send_chat E io st u t img s = Done (Ok m, [], s') \<and> ib_queue s' = queue_push (st_queue_time st) m u (ib_queue s)"
  using assms by (simp add: send_chat_def deliver_payload_def try_deliver_payload_def exec_bind_def Let_def)

section \<open>Calls\<close>

text \<open>A frame has at most 900 bytes, that is 450 samples; more of them are not sent.\<close>

lemma pcm_bytes: "length (concat (map le_bytes16 xs)) = 2 * length xs"
  by (induction xs) (simp_all add: le_bytes16_def)

lemma long_frame_lost:
  "length pcm > 450 \<Longrightarrow> serve E io (RqAudio u call pcm rate q) s st = Done (serves s st)"
  by (simp add: serve_audio_def send_call_audio_def pcm_bytes Let_def serves_def)

text \<open>A signal from anybody stops all sound and the microphone, and the call goes on.\<close>

lemma foreign_signal_silences:
  assumes "dk_call d = Some c" "cl_peer c \<noteq> cs_caller s \<or> cl_id c \<noteq> cs_call_id s" "cs_type s \<in> {Reject, Hangup}"
  shows "handle_event io (FromInbox (EvCall s)) d = (d, silence)"
  using assms by (auto simp: call_signalled_def call_rejected_def call_hung_up_def other_call_def)

section \<open>Deleting twice\<close>

text \<open>Deleting for everyone asks for the deletion here first; when the messenger has done that, nobody else is told.\<close>

lemma deleted_for_nobody:
  assumes "db_inv (ib_db s)" "serve E io (RqDelete i) s st = Done v"
  shows "\<exists>s'. serve E io' (RqDeleteEveryone u [i]) (sd_state v) (sd_store v) = Done (serves s' st)"
proof -
  have v: "sd_state v = delete_message i s" "sd_store v = st" using assms(2) by (auto simp: serves_def)
  have "db_inv (ib_db (sd_state v))" "\<forall>m \<in> set (db_messages (ib_db (sd_state v))). sm_id m \<noteq> i"
    using assms(1) by (simp_all add: v(1) delete_message_def db_delete_message_fold db_delete_messages_inv) (simp add: db_delete_messages_def)
  then obtain s' where "delete_messages_for_everyone E (sv_deliver io') (sv_now io') u [i] (sd_state v) = Done (Ok (), [], s')"
    using delete_foreign_silent [of "sd_state v" E "[i]" "sv_deliver io'" "sv_now io'" u] by (auto simp: db_inv_def)
  then show ?thesis by (simp add: serve_outcome_def serves_def v(2))
qed

end
