(* ===== verification/Desktop_Lock.thy ===== *)
theory Desktop_Lock
  imports Desktop_Actions
begin

text \<open>
  The lock of the desktop application and its first steps (\<open>lock_screen.rs\<close>, \<open>onboarding.rs\<close>, \<open>profile_modal.rs\<close>,
  \<open>settings_modal.rs\<close>, \<open>app.rs\<close>): which screen is shown, and what each of them lets the user do.
\<close>

section \<open>State\<close>

record lock_state =
  lk_passcode :: "string option"
  lk_locked :: bool
  lk_auto_mins :: u32
  lk_last_active :: instant
  lk_input :: string
  lk_error :: bool
  lk_onboarded :: bool
  lk_step :: u8
  lk_seed :: string
  lk_words :: nat
  lk_confirmed :: bool
  lk_restore_input :: string
  lk_restore_error :: "string option"
  lk_settings :: bool
  lk_profile :: bool
  lk_phrase :: bool
  lk_ready_file :: bool

definition lock_new :: "string \<Rightarrow> bool \<Rightarrow> instant \<Rightarrow> lock_state" where
  "lock_new seed onboarded t = \<lparr>lk_passcode = None, lk_locked = False, lk_auto_mins = 0, lk_last_active = t, lk_input = [], lk_error = False,
     lk_onboarded = onboarded, lk_step = 0, lk_seed = seed, lk_words = 24, lk_confirmed = False, lk_restore_input = [], lk_restore_error = None,
     lk_settings = False, lk_profile = False, lk_phrase = False, lk_ready_file = onboarded\<rparr>"

definition hash_passcode :: "(bytes \<Rightarrow> bytes) \<Rightarrow> string \<Rightarrow> string" where
  "hash_passcode sha256 p = to_hex (sha256 (str_bytes ''nodex_app_passcode_salt_'' @ str_bytes p))"

definition verify_passcode :: "(bytes \<Rightarrow> bytes) \<Rightarrow> string \<Rightarrow> string \<Rightarrow> bool" where
  "verify_passcode sha256 p expected \<longleftrightarrow> hash_passcode sha256 p = expected"

section \<open>Locking\<close>

text \<open>In every frame: the shortcut, the timer, and then the activity of the user.\<close>

definition lock_frame :: "instant \<Rightarrow> bool \<Rightarrow> bool \<Rightarrow> lock_state \<Rightarrow> lock_state" where
  "lock_frame now shortcut active l =
     (let l = (if shortcut \<and> lk_passcode l \<noteq> None then l\<lparr>lk_locked := True\<rparr> else l);
          l = (if lk_auto_mins l > 0 \<and> \<not> lk_locked l \<and> lk_passcode l \<noteq> None \<and>
                 (now - lk_last_active l) div 1000000000 > unat (lk_auto_mins l) * 60
               then l\<lparr>lk_locked := True\<rparr> else l) in
      if active then l\<lparr>lk_last_active := now\<rparr> else l)"

datatype screen = LockScreen | Onboarding | MainView

definition screen_of :: "lock_state \<Rightarrow> screen" where
  "screen_of l = (if lk_locked l then LockScreen else if \<not> lk_onboarded l then Onboarding else MainView)"

text \<open>The button of the lock screen, and the one for a forgotten passcode, which leaves the lock for the restore step.\<close>

definition try_unlock :: "(bytes \<Rightarrow> bytes) \<Rightarrow> instant \<Rightarrow> lock_state \<Rightarrow> lock_state" where
  "try_unlock sha256 now l =
     (if lk_input l = [] then l
      else (case lk_passcode l of
          Some expected \<Rightarrow>
            if hash_passcode sha256 (lk_input l) = expected
            then l\<lparr>lk_locked := False, lk_input := [], lk_error := False, lk_last_active := now\<rparr>
            else l\<lparr>lk_error := True, lk_input := []\<rparr>
        | None \<Rightarrow> l\<lparr>lk_locked := False, lk_input := [], lk_error := False, lk_last_active := now\<rparr>))"

definition forgot_passcode :: "lock_state \<Rightarrow> lock_state" where
  "forgot_passcode l = l\<lparr>lk_step := 3, lk_onboarded := False, lk_locked := False, lk_input := [], lk_error := False\<rparr>"

section \<open>First steps\<close>

text \<open>A new mnemonic of the chosen length; the random bytes are an argument.\<close>

definition fresh_words :: "mnemonics \<Rightarrow> bytes \<Rightarrow> nat \<Rightarrow> string" where
  "fresh_words M entropy n = (case (if n = 12 then mn_generate_12 M entropy else mn_generate_24 M entropy) of Inl _ \<Rightarrow> [] | Inr s \<Rightarrow> s)"

datatype onboard_click = CreateAccount bytes | WantRestore | ChooseLength nat bytes | ToSeed bytes | BackToStart | BackToProfile | CancelSteps
  | Regenerate bytes | ToggleConfirmed | Finish | TypeRestore string | Restore

text \<open>The button for cancelling is there once an account was set up in this directory. Finishing takes the identifier of the new
  mnemonic as the own one, for the window only.\<close>

definition account_made :: "string \<Rightarrow> lock_state \<times> desktop \<Rightarrow> lock_state \<times> desktop" where
  "account_made me x = (case x of (l, d) \<Rightarrow> (l\<lparr>lk_ready_file := True, lk_onboarded := True\<rparr>, d\<lparr>dk_me := me\<rparr>))"

definition create_account :: "mnemonics \<Rightarrow> bytes \<Rightarrow> lock_state \<Rightarrow> lock_state" where
  "create_account M r l = l\<lparr>lk_seed := fresh_words M r (lk_words l), lk_step := 1\<rparr>"

definition want_restore :: "lock_state \<Rightarrow> lock_state" where
  "want_restore l = l\<lparr>lk_restore_input := [], lk_restore_error := None, lk_step := 3\<rparr>"

definition choose_length :: "mnemonics \<Rightarrow> nat \<Rightarrow> bytes \<Rightarrow> lock_state \<Rightarrow> lock_state" where
  "choose_length M n r l = (if n \<in> {12, 24} then l\<lparr>lk_words := n, lk_seed := fresh_words M r n\<rparr> else l)"

definition to_seed_step :: "mnemonics \<Rightarrow> bytes \<Rightarrow> string \<Rightarrow> lock_state \<Rightarrow> lock_state" where
  "to_seed_step M r name l =
     (if rust_trim name \<noteq> []
      then (if rust_trim (lk_seed l) = [] then l\<lparr>lk_seed := fresh_words M r (lk_words l), lk_step := 2\<rparr> else l\<lparr>lk_step := 2\<rparr>) else l)"

definition cancel_steps :: "lock_state \<Rightarrow> lock_state" where
  "cancel_steps l = (if lk_ready_file l then l\<lparr>lk_onboarded := True\<rparr> else l)"

definition regenerate_words :: "mnemonics \<Rightarrow> bytes \<Rightarrow> lock_state \<Rightarrow> lock_state" where
  "regenerate_words M r l = l\<lparr>lk_seed := fresh_words M r (lk_words l)\<rparr>"

definition finish_account :: "crypto \<Rightarrow> mnemonics \<Rightarrow> lock_state \<times> desktop \<Rightarrow> lock_state \<times> desktop" where
  "finish_account C M x = (case x of (l, d) \<Rightarrow>
     if lk_confirmed l then account_made
       (case identity_from_mnemonic C M (lk_seed l) of Inr i \<Rightarrow> user_id_hex i | Inl _ \<Rightarrow> dk_me d) (l, d) else (l, d))"

definition restore_account :: "crypto \<Rightarrow> mnemonics \<Rightarrow> lock_state \<times> desktop \<Rightarrow> lock_state \<times> desktop" where
  "restore_account C M x = (case x of (l, d) \<Rightarrow>
     if mn_validate M (lk_restore_input l) then (case identity_from_mnemonic C M (lk_restore_input l) of
         Inr i \<Rightarrow> account_made (user_id_hex i) (l\<lparr>lk_seed := rust_trim (lk_restore_input l), lk_restore_error := None\<rparr>, d)
       | Inl e \<Rightarrow> (l\<lparr>lk_restore_error := Some (''Failed to derive identity: '' @ e)\<rparr>, d)) else (l, d))"

text \<open>The step that is shown decides what can be clicked.\<close>

fun onboarding_step :: "crypto \<Rightarrow> mnemonics \<Rightarrow> onboard_click \<Rightarrow> lock_state \<times> desktop \<Rightarrow> lock_state \<times> desktop" where
  "onboarding_step C M (CreateAccount r) (l, d) = (if lk_step l = 0 then create_account M r l else l, d)"
| "onboarding_step C M WantRestore (l, d) = (if lk_step l = 0 then want_restore l else l, d)"
| "onboarding_step C M (ChooseLength n r) (l, d) = (if lk_step l = 1 then choose_length M n r l else l, d)"
| "onboarding_step C M (ToSeed r) (l, d) = (if lk_step l = 1 then to_seed_step M r (dk_name d) l else l, d)"
| "onboarding_step C M BackToStart (l, d) = (if lk_step l = 1 \<or> lk_step l = 3 then l\<lparr>lk_step := 0\<rparr> else l, d)"
| "onboarding_step C M BackToProfile (l, d) = (if lk_step l = 2 then l\<lparr>lk_step := 1\<rparr> else l, d)"
| "onboarding_step C M CancelSteps (l, d) = (if lk_step l \<in> {1, 2, 3} then cancel_steps l else l, d)"
| "onboarding_step C M (Regenerate r) (l, d) = (if lk_step l = 2 then regenerate_words M r l else l, d)"
| "onboarding_step C M ToggleConfirmed (l, d) = (if lk_step l = 2 then l\<lparr>lk_confirmed := \<not> lk_confirmed l\<rparr> else l, d)"
| "onboarding_step C M Finish (l, d) = (if lk_step l = 2 then finish_account C M (l, d) else (l, d))"
| "onboarding_step C M (TypeRestore s) (l, d) = (if lk_step l = 3 then l\<lparr>lk_restore_input := s\<rparr> else l, d)"
| "onboarding_step C M Restore (l, d) = (if lk_step l = 3 then restore_account C M (l, d) else (l, d))"

lemmas onboarding_defs = create_account_def want_restore_def choose_length_def to_seed_step_def cancel_steps_def regenerate_words_def
  finish_account_def restore_account_def account_made_def

section \<open>What the user can click\<close>

text \<open>The dialogs are drawn after the screen, whichever it is: settings that are open stay open when the application locks.\<close>

datatype ui_click = TypePasscode string | Unlock instant | Forgot | FirstStep onboard_click | LockButton | OpenSettings | CloseSettings
  | OpenPhrase | ClosePhrase | PhraseLength nat bytes | PhraseNew bytes | SettingsLock | SettingsRemovePin | SettingsSetPin | SettingsAutoLock u32 | NewAccount bytes | RestoreAccount | Frame instant bool bool

fun click_enabled :: "ui_click \<Rightarrow> lock_state \<Rightarrow> bool" where
  "click_enabled (TypePasscode s) l \<longleftrightarrow> screen_of l = LockScreen"
| "click_enabled (Unlock t) l \<longleftrightarrow> screen_of l = LockScreen"
| "click_enabled Forgot l \<longleftrightarrow> screen_of l = LockScreen"
| "click_enabled (FirstStep a) l \<longleftrightarrow> screen_of l = Onboarding"
| "click_enabled LockButton l \<longleftrightarrow> screen_of l = MainView \<and> lk_passcode l \<noteq> None"
| "click_enabled OpenSettings l \<longleftrightarrow> screen_of l = MainView"
| "click_enabled CloseSettings l \<longleftrightarrow> lk_settings l"
| "click_enabled OpenPhrase l \<longleftrightarrow> screen_of l = MainView \<or> lk_settings l"
| "click_enabled ClosePhrase l \<longleftrightarrow> lk_phrase l"
| "click_enabled (PhraseLength n r) l \<longleftrightarrow> lk_phrase l \<and> n \<in> {12, 24}"
| "click_enabled (PhraseNew r) l \<longleftrightarrow> lk_phrase l"
| "click_enabled SettingsLock l \<longleftrightarrow> lk_settings l \<and> lk_passcode l \<noteq> None"
| "click_enabled SettingsRemovePin l \<longleftrightarrow> lk_settings l \<and> lk_passcode l \<noteq> None"
| "click_enabled SettingsSetPin l \<longleftrightarrow> lk_settings l \<and> lk_passcode l = None"
| "click_enabled (SettingsAutoLock m) l \<longleftrightarrow> lk_settings l \<and> m \<in> {0, 1, 5, 15}"
| "click_enabled (NewAccount r) l \<longleftrightarrow> lk_profile l"
| "click_enabled RestoreAccount l \<longleftrightarrow> lk_profile l"
| "click_enabled (Frame t a b) l \<longleftrightarrow> True"

text \<open>The dialog of the recovery phrase keeps the phrase when no new one can be made.\<close>

definition new_phrase :: "mnemonics \<Rightarrow> bytes \<Rightarrow> nat \<Rightarrow> lock_state \<Rightarrow> lock_state" where
  "new_phrase M r n l = (case (if n = 12 then mn_generate_12 M r else mn_generate_24 M r) of Inl e \<Rightarrow> l | Inr s \<Rightarrow> l\<lparr>lk_seed := s\<rparr>)"

text \<open>A new mnemonic for a new account always has twenty-four words.\<close>

fun lock_click :: "crypto \<Rightarrow> mnemonics \<Rightarrow> ui_click \<Rightarrow> lock_state \<times> desktop \<Rightarrow> lock_state \<times> desktop" where
  "lock_click C M (TypePasscode s) (l, d) = (l\<lparr>lk_input := s\<rparr>, d)"
| "lock_click C M (Unlock t) (l, d) = (try_unlock (cr_sha256 C) t l, d)"
| "lock_click C M Forgot (l, d) = (forgot_passcode l, d)"
| "lock_click C M (FirstStep a) x = onboarding_step C M a x"
| "lock_click C M LockButton (l, d) = (l\<lparr>lk_locked := True\<rparr>, d)"
| "lock_click C M OpenSettings (l, d) = (l\<lparr>lk_settings := True\<rparr>, d)"
| "lock_click C M CloseSettings (l, d) = (l\<lparr>lk_settings := False\<rparr>, d)"
| "lock_click C M OpenPhrase (l, d) = (l\<lparr>lk_phrase := True\<rparr>, d)"
| "lock_click C M ClosePhrase (l, d) = (l\<lparr>lk_phrase := False\<rparr>, d)"
| "lock_click C M (PhraseLength n r) (l, d) = (new_phrase M r n (l\<lparr>lk_words := n\<rparr>), d)"
| "lock_click C M (PhraseNew r) (l, d) = (new_phrase M r (lk_words l) l, d)"
| "lock_click C M SettingsLock (l, d) = (l\<lparr>lk_locked := True, lk_settings := False\<rparr>, d)"
| "lock_click C M SettingsRemovePin (l, d) = (l\<lparr>lk_passcode := None\<rparr>, d)"
| "lock_click C M SettingsSetPin (l, d) = (l\<lparr>lk_passcode := Some (hash_passcode (cr_sha256 C) ''1234'')\<rparr>, d)"
| "lock_click C M (SettingsAutoLock m) (l, d) = (l\<lparr>lk_auto_mins := m\<rparr>, d)"
| "lock_click C M (NewAccount r) (l, d) =
     (l\<lparr>lk_step := 1, lk_onboarded := False, lk_seed := fresh_words M r 24, lk_confirmed := False, lk_profile := False\<rparr>, d\<lparr>dk_name := []\<rparr>)"
| "lock_click C M RestoreAccount (l, d) =
     (l\<lparr>lk_step := 3, lk_onboarded := False, lk_restore_input := [], lk_restore_error := None, lk_profile := False\<rparr>, d)"
| "lock_click C M (Frame t a b) (l, d) = (lock_frame t a b l, d)"

definition click :: "crypto \<Rightarrow> mnemonics \<Rightarrow> ui_click \<Rightarrow> lock_state \<times> desktop \<Rightarrow> lock_state \<times> desktop" where
  "click C M k x = (if click_enabled k (fst x) then lock_click C M k x else x)"

text \<open>The words that can be read on the screen in the dialog of the recovery phrase.\<close>

definition phrase_on_screen :: "lock_state \<Rightarrow> string option" where
  "phrase_on_screen l = (if lk_phrase l then Some (lk_seed l) else None)"

section \<open>What the lock promises\<close>

lemma new_phrase_keeps [simp]:
  "lk_passcode (new_phrase M r n l) = lk_passcode l" "lk_locked (new_phrase M r n l) = lk_locked l" "lk_settings (new_phrase M r n l) = lk_settings l"
  "lk_profile (new_phrase M r n l) = lk_profile l" "lk_input (new_phrase M r n l) = lk_input l" "lk_onboarded (new_phrase M r n l) = lk_onboarded l"
  by (simp_all add: new_phrase_def split: sum.split)

text \<open>The only passcode that can be set is 1234.\<close>

definition pin_inv :: "crypto \<Rightarrow> lock_state \<times> desktop \<Rightarrow> bool" where
  "pin_inv C x \<longleftrightarrow> lk_passcode (fst x) \<in> {None, Some (hash_passcode (cr_sha256 C) ''1234'')}"

lemma onboarding_passcode [simp]: "lk_passcode (fst (onboarding_step C M a (l, d))) = lk_passcode l"
  by (cases a) (simp_all add: onboarding_defs split: sum.split)

interpretation lock_sys: op_system "click C M" "\<lambda>_. True" "pin_inv C" for C M
proof
  fix k x assume "pin_inv C x"
  moreover obtain l d where "x = (l, d)" by fastforce
  ultimately show "pin_inv C (click C M k x)"
    by (cases k) (auto simp: click_def pin_inv_def try_unlock_def forgot_passcode_def lock_frame_def Let_def split: option.splits)
qed

lemma unlock_1234:
  assumes "pin_inv C (l, d)" "lk_locked l"
  shows "screen_of (fst (fold (click C M) [TypePasscode ''1234'', Unlock t] (l, d))) \<noteq> LockScreen \<and>
    snd (fold (click C M) [TypePasscode ''1234'', Unlock t] (l, d)) = d"
  using assms by (auto simp: click_def pin_inv_def screen_of_def try_unlock_def)

text \<open>Without any passcode: through the button for a forgotten passcode, and out of the restore step.\<close>

lemma forgot_bypass:
  assumes "lk_locked l" "lk_ready_file l"
  shows "\<exists>l'. fold (click C M) [Forgot, FirstStep CancelSteps] (l, d) = (l', d) \<and> screen_of l' = MainView \<and> lk_passcode l' = lk_passcode l"
  using assms by (simp add: click_def screen_of_def forgot_passcode_def cancel_steps_def)

text \<open>Settings that were open when the application locked remove the passcode, and then anything unlocks.\<close>

lemma settings_bypass:
  assumes "lk_locked l" "lk_settings l" "lk_passcode l \<noteq> None" "s \<noteq> []"
  shows "\<exists>l'. fold (click C M) [SettingsRemovePin, TypePasscode s, Unlock t] (l, d) = (l', d) \<and> \<not> lk_locked l'"
  using assms by (simp add: click_def screen_of_def try_unlock_def)

text \<open>Otherwise the lock holds: only the right passcode, the button for a forgotten one, and open settings change a locked screen.\<close>

lemma lock_holds:
  assumes "lk_locked l" "\<not> lk_settings l" "lk_passcode l = Some h"
    "case k of Forgot \<Rightarrow> False | Unlock t \<Rightarrow> hash_passcode (cr_sha256 C) (lk_input l) \<noteq> h | NewAccount r \<Rightarrow> False | RestoreAccount \<Rightarrow> False | _ \<Rightarrow> True"
  shows "lk_locked (fst (click C M k (l, d))) \<and> \<not> lk_settings (fst (click C M k (l, d))) \<and> lk_passcode (fst (click C M k (l, d))) = Some h \<and>
    snd (click C M k (l, d)) = d"
  using assms by (cases k) (auto simp: click_def screen_of_def try_unlock_def lock_frame_def Let_def)

text \<open>The timer locks.\<close>

lemma auto_lock:
  assumes "lk_passcode l \<noteq> None" "lk_auto_mins l > 0" "(now - lk_last_active l) div 1000000000 > unat (lk_auto_mins l) * 60"
  shows "lk_locked (lock_frame now False b l)"
  using assms by (simp add: lock_frame_def Let_def)

text \<open>The dialog of the recovery phrase stays where it is: the words can be read on a locked screen.\<close>

lemma phrase_over_lock:
  assumes "lk_phrase l" "lk_passcode l \<noteq> None" "lk_auto_mins l > 0" "(now - lk_last_active l) div 1000000000 > unat (lk_auto_mins l) * 60"
  shows "screen_of (lock_frame now False b l) = LockScreen \<and> phrase_on_screen (lock_frame now False b l) = Some (lk_seed l)"
  using assms by (simp add: lock_frame_def screen_of_def phrase_on_screen_def Let_def)

text \<open>Its buttons show the words of another account as if they were those of this one.\<close>

lemma phrase_of_another:
  assumes "lk_phrase l" "mn_generate_12 M r = Ok s"
  shows "\<exists>l'. click C M (PhraseLength 12 r) (l, d) = (l', d) \<and> phrase_on_screen l' = Some s"
  using assms by (simp add: click_def new_phrase_def phrase_on_screen_def)

text \<open>Restoring another account changes who the window thinks the user is; the messenger is not told.\<close>

lemma restore_changes_window_only:
  assumes "lk_step l = 3" "mn_validate M (lk_restore_input l)" "identity_from_mnemonic C M (lk_restore_input l) = Ok i"
  shows "snd (onboarding_step C M Restore (l, d)) = d\<lparr>dk_me := user_id_hex i\<rparr>"
  using assms by (simp add: onboarding_defs)

end
