(* ===== verification/Delivery.thy ===== *)
theory Delivery
  imports Messenger
begin

text \<open>
  A message on its way: what the cascade (\<open>Cascade\<close>) sends for one user, what the inbox (\<open>Inbox\<close>) of the recipient makes of
  it, and the receipt back. The lemmas compose the two sides: a message that is delivered is stored by its recipient under its
  identifier, the receipt marks it and takes it out of the outbox, an envelope in a mailbox is found within a week; and they
  show which messages can not arrive.
\<close>

section \<open>Through the gate\<close>

definition msg_json_ok :: "msg_json \<Rightarrow> bool" where
  "msg_json_ok J \<longleftrightarrow> (\<forall>p b. mj_write J p = Some b \<longrightarrow> mj_read J b = Some p) \<and> (\<forall>es b. mj_write_list J es = Some b \<longrightarrow> mj_list J b = Some es)"

definition gate_free :: "crypto \<Rightarrow> u64 \<Rightarrow> user_identity \<Rightarrow> envelope \<Rightarrow> inbox_state \<Rightarrow> bool" where
  "gate_free C now r e s \<longleftrightarrow> en_sender_id e \<noteq> ui_user_id r \<and> \<not> db_is_blocked (sender_hex e) (ib_db s) \<and>
     fst (check_and_insert C (replay_key e) (en_timestamp e) now (ib_cache s))"

lemma gate_lets_in:
  assumes "gate_free C now r e s" "decrypt_envelope C r e = Ok plain"
  shows "envelope_gate C J now r e s =
    (Opened (payload_of J plain), s\<lparr>ib_cache := snd (check_and_insert C (replay_key e) (en_timestamp e) now (ib_cache s))\<rparr>)"
  using assms accepted_genuine [OF assms(2)] by (auto simp: envelope_gate_def gate_free_def Let_def split: prod.split)

lemma sealed_fields:
  assumes "encrypt_envelope C seed nonce now sender rid rx p = Some e"
  shows "en_sender_id e = ui_user_id sender" "en_recipient_id e = rid" "en_timestamp e = now" "en_ed25519_pub e = ui_verifying_key sender"
    "en_x25519_pub e = ui_x25519_public sender" "en_version e = ENVELOPE_VERSION"
  using assms by (auto simp: encrypt_envelope_def Let_def split: option.splits)

lemma sealed_sender: "encrypt_envelope C seed nonce now sender rid rx p = Some e \<Longrightarrow> sender_hex e = user_id_hex sender"
  by (simp add: sealed_fields user_id_hex_def)

section \<open>Messages arrive\<close>

text \<open>A payload that no handler takes is a message.\<close>

definition ordinary :: "chat_payload \<Rightarrow> bool" where
  "ordinary p \<longleftrightarrow> cp_delivery p = None \<and> cp_read p = None \<and> cp_tombstone p = None \<and> cp_call_signal p = None \<and> cp_call_audio p = None \<and>
     cp_reaction p = None \<and> \<not> cp_is_edited p"

lemma ordinary_stored:
  assumes "ordinary p" "db_inv (ib_db s)" "\<not> is_tombstoned (sender_hex e) (incoming_id e p) (ib_db s)"
  shows "\<exists>s' ev. handle_payload C CJ J show_addr io me e p s = (s', ev, Some (sender_hex e, incoming_id e p)) \<and>
    find_message (incoming_id e p) (ib_db s') = Some (incoming_message me e p) \<and>
    (find_message (incoming_id e p) (ib_db s) = None \<longrightarrow> EvMessage (incoming_message me e p) \<in> set ev)"
proof -
  let ?m = "incoming_message me e p" and ?s = "ensure_contact C CJ show_addr io e s"
  have f: "handle_payload C CJ J show_addr io me e p s = store_incoming C CJ show_addr io me e p s"
    using assms(1) by (simp add: ordinary_def handle_payload_def handle_delivery_def handle_read_def handle_tombstone_def
        handle_call_signal_def handle_call_audio_def handle_reaction_def handle_edit_def)
  have i: "sm_id ?m = incoming_id e p" by (simp add: incoming_message_def)
  have t: "\<not> is_tombstoned (sender_hex e) (incoming_id e p) (ib_db ?s)" using assms(3) ensure_contact_messages(2,3) [of C CJ show_addr io e s]
    by (simp add: is_tombstoned_def)
  have "db_inv (ib_db ?s)" using db_reaches_inv [OF ensure_contact_reaches assms(2)] .
  from add_message_find(1) [OF this, of ?m] have g: "find_message (incoming_id e p) (add_message ?m (ib_db ?s)) = Some ?m"
    using t i by (simp add: is_tombstoned_def)
  have n: "length (db_messages (add_message ?m (ib_db ?s))) > length (db_messages (ib_db ?s))" if "find_message (incoming_id e p) (ib_db s) = None"
  proof -
    have "incoming_id e p \<notin> sm_id ` set (db_messages (ib_db ?s))" using that ensure_contact_messages(1) [of C CJ show_addr io e s]
      by (simp add: find_message_None)
    then have "\<forall>m' \<in> set (db_messages (ib_db ?s)). sm_id m' \<noteq> incoming_id e p" by (metis imageI)
    then have "find_index (\<lambda>m'. sm_id m' = sm_id ?m) (db_messages (ib_db ?s)) = None" unfolding find_index_None i .
    then show ?thesis using t i by (simp add: add_message_def is_tombstoned_def)
  qed
  show ?thesis unfolding f using t i g n by (auto simp: store_incoming_def Let_def)
qed

text \<open>What a user seals for another is stored by the other, under its identifier, and acknowledged.\<close>

lemma message_arrives:
  assumes C: "crypto_ok C" "identity_ok C a" "identity_ok C b" "length nonce = 12" and J: "msg_json_ok J"
    and p: "mj_write J (message_payload m) = Some raw" "sm_id m \<noteq> []" "\<not> sm_is_edited m"
    and e: "encrypt_envelope C seed nonce now a (ui_user_id b) (ui_x25519_public b) raw = Some e"
    and gate: "gate_free C (ei_now io) b e s" and s: "db_inv (ib_db s)" "\<not> is_tombstoned (user_id_hex a) (sm_id m) (ib_db s)"
  shows "\<exists>s' ev. process_envelope C CJ J show_addr io b e s = (Opened (message_payload m), s', ev, Some (user_id_hex a, sm_id m)) \<and>
    find_message (sm_id m) (ib_db s') = Some (incoming_message b e (message_payload m)) \<and>
    sm_text (incoming_message b e (message_payload m)) = sm_text m \<and> sm_sender (incoming_message b e (message_payload m)) = user_id_hex a \<and>
    (find_message (sm_id m) (ib_db s) = None \<longrightarrow> EvMessage (incoming_message b e (message_payload m)) \<in> set ev)"
proof -
  let ?p = "message_payload m"
  have d: "decrypt_envelope C b e = Ok raw" by (rule envelope_opens [OF C(1-4) e])
  have pl: "payload_of J raw = ?p" using J p(1) by (simp add: payload_of_def msg_json_ok_def)
  have i: "incoming_id e ?p = sm_id m" using p(2) by (simp add: incoming_id_def message_payload_def)
  have o: "ordinary ?p" using p(3) by (simp add: ordinary_def message_payload_def empty_payload_def)
  let ?s = "s\<lparr>ib_cache := snd (check_and_insert C (replay_key e) (en_timestamp e) (ei_now io) (ib_cache s))\<rparr>"
  have g: "envelope_gate C J (ei_now io) b e s = (Opened ?p, ?s)" using gate_lets_in [OF gate d, of J] pl by simp
  have "\<exists>s' ev. handle_payload C CJ J show_addr io b e ?p ?s = (s', ev, Some (sender_hex e, incoming_id e ?p)) \<and>
    find_message (incoming_id e ?p) (ib_db s') = Some (incoming_message b e ?p) \<and>
    (find_message (incoming_id e ?p) (ib_db ?s) = None \<longrightarrow> EvMessage (incoming_message b e ?p) \<in> set ev)"
    by (rule ordinary_stored [OF o]) (use s i sealed_sender [OF e] in simp_all)
  then show ?thesis using g i sealed_sender [OF e] by (auto simp: process_envelope_def incoming_message_def message_payload_def)
qed

lemma find_update_first: "(\<And>x. p x \<Longrightarrow> p (f x)) \<Longrightarrow> find p (update_first p f xs) = map_option f (find p xs)"
  by (induction xs) auto

lemma mark_delivered_find: "find_message i db = Some m \<Longrightarrow> find_message i (mark_message_delivered i db) = Some (m\<lparr>sm_delivered := True\<rparr>)"
  by (simp add: find_message_def mark_message_delivered_def find_update_first)

text \<open>The receipt of the recipient marks the message of the sender and takes it out of the queue.\<close>

lemma receipt_marks:
  assumes C: "crypto_ok C" "identity_ok C a" "identity_ok C b" "length nonce = 12" and J: "msg_json_ok J"
    and p: "mj_write J (receipt_payload C b i t) = Some raw"
    and e: "encrypt_envelope C seed nonce now b (ui_user_id a) (ui_x25519_public a) raw = Some e"
    and gate: "gate_free C (ei_now io) a e s" and s: "db_inv (ib_db s)"
    and m: "find_message i (ib_db s) = Some m" "sm_recipient m = user_id_hex b" "\<not> sm_incoming m"
  shows "\<exists>s'. process_envelope C CJ J show_addr io a e s = (Opened (receipt_payload C b i t), s', [EvDelivered i (user_id_hex b)], None) \<and>
    find_message i (ib_db s') = Some (m\<lparr>sm_delivered := True\<rparr>) \<and> ib_queue s' = queue_mark_delivered i (ib_queue s)"
proof -
  let ?p = "receipt_payload C b i t"
  have d: "decrypt_envelope C a e = Ok raw" by (rule envelope_opens [OF C(1,3,2,4) e])
  have pl: "payload_of J raw = ?p" using J p by (simp add: payload_of_def msg_json_ok_def)
  let ?s = "s\<lparr>ib_cache := snd (check_and_insert C (replay_key e) (en_timestamp e) (ei_now io) (ib_cache s))\<rparr>"
  have g: "envelope_gate C J (ei_now io) a e s = (Opened ?p, ?s)" using gate_lets_in [OF gate d, of J] pl by simp
  have v: "delivery_receipt_verify C (en_ed25519_pub e) (delivery_receipt_create C b i t)"
    using receipts_verify(1) [OF C(1,3)] sealed_fields(4) [OF e] by simp
  have "m \<in> set (db_messages (ib_db s))" "sm_id m = i" using find_message_Some [OF m(1)] by auto
  then have l: "list_ex (\<lambda>x. sm_id x = i \<and> sm_recipient x = user_id_hex b \<and> \<not> sm_incoming x) (db_messages (ib_db s))"
    using m(2,3) by (auto simp: list_ex_iff)
  have h: "handle_delivery C e ?p ?s = Some (?s\<lparr>ib_db := mark_message_delivered i (ib_db s), ib_queue := queue_mark_delivered i (ib_queue s)\<rparr>,
      [EvDelivered i (user_id_hex b)])"
    using v l sealed_sender [OF e] by (simp add: handle_delivery_def receipt_payload_def empty_payload_def delivery_receipt_create_def)
  have f: "find_message i (mark_message_delivered i (ib_db s)) = Some (m\<lparr>sm_delivered := True\<rparr>)"
    by (rule mark_delivered_find [OF m(1)])
  show ?thesis using g h f by (simp add: process_envelope_def handle_payload_def Let_def)
qed

section \<open>From the mailbox to the inbox\<close>

lemma fetched_batch:
  assumes "(k, Some b) \<in> set fetched" shows "(Some k, parse_mailbox J b) \<in> set (fetch_batches J fetched direct)"
  using assms by (force simp: fetch_batches_def)

text \<open>What the cascade puts into the mailbox of a day is in a batch of the recipient's poll on that day and the six days after,
  as long as the network answers with it.\<close>

lemma deposit_fetched:
  assumes J: "msg_json_ok J" and d: "deposit_envelope_to_mailbox C J ts found ok (user_id_hex r) e = (True, sent)"
    and new: "case found of None \<Rightarrow> True | Some b \<Rightarrow> \<not> list_ex (\<lambda>x. en_signature x = en_signature e \<and> en_timestamp x = en_timestamp e) (parse_mailbox J b)"
    and day: "unat tick mod 60 = 0" "unat ts div 86400 \<le> unat now div 86400" "unat now div 86400 \<le> unat ts div 86400 + 6"
    and net: "\<And>k v. SendPut k v \<in> set sent \<Longrightarrow> k \<in> set (polling_keys C (user_id_hex r) tick now) \<Longrightarrow> (k, Some v) \<in> set fetched"
  shows "\<exists>k es. (Some k, es) \<in> set (fetch_batches J fetched direct) \<and> e \<in> set es \<and> length es \<le> MAILBOX_CAP"
proof -
  let ?k = "derive_secure_mailbox_key C (user_id_hex r) ts"
  let ?es = "mailbox_with e (case found of Some b \<Rightarrow> parse_mailbox J b | None \<Rightarrow> [])"
  obtain v where v: "mj_write_list J ?es = Some v" "SendPut ?k v \<in> set sent"
    using d by (auto simp: deposit_envelope_to_mailbox_def Let_def split: option.splits)
  have "(?k, Some v) \<in> set fetched" using net [OF v(2)] deposited_polled [OF day, of C "user_id_hex r"] by blast
  then have b: "(Some ?k, parse_mailbox J v) \<in> set (fetch_batches J fetched direct)" by (rule fetched_batch)
  have p: "parse_mailbox J v = ?es" using J v(1) by (simp add: parse_mailbox_def msg_json_ok_def)
  have "e \<in> set ?es" using new by (intro mailbox_with_new) (auto split: option.splits)
  then show ?thesis using b p mailbox_with_bound [of e] by metis
qed

section \<open>Messages that can not arrive\<close>

text \<open>A message that was edited before it was delivered is queued as an edit at the next start; whoever has no such message
  yet drops it without an answer, so it is never stored and never acknowledged.\<close>

lemma edited_unsent_lost:
  assumes C: "crypto_ok C" "identity_ok C a" "identity_ok C b" "length nonce = 12" and J: "msg_json_ok J"
    and p: "mj_write J (message_payload m) = Some raw" "sm_id m \<noteq> []" "sm_is_edited m"
    and e: "encrypt_envelope C seed nonce now a (ui_user_id b) (ui_x25519_public b) raw = Some e"
    and s: "find_message (sm_id m) (ib_db s) = None"
  shows "\<exists>g s'. process_envelope C CJ J show_addr io b e s = (g, s', [], None) \<and> ib_db s' = ib_db s"
proof -
  let ?p = "message_payload m"
  obtain g s1 where g: "envelope_gate C J (ei_now io) b e s = (g, s1)" by fastforce
  have d: "decrypt_envelope C b e = Ok raw" by (rule envelope_opens [OF C(1-4) e])
  have pl: "payload_of J raw = ?p" using J p(1) by (simp add: payload_of_def msg_json_ok_def)
  have h: "handle_payload C CJ J show_addr io b e ?p s1 = (s1, [], None)" if "ib_db s1 = ib_db s"
    using p s that by (simp add: handle_payload_def Let_def handle_delivery_def handle_read_def handle_tombstone_def handle_call_signal_def
        handle_call_audio_def handle_reaction_def handle_edit_def message_payload_def empty_payload_def edit_message_by_author_def)
  show ?thesis
  proof (cases g)
    case (Opened q)
    have "q = ?p" using gate_opened [OF g [unfolded Opened]] d pl by auto
    then show ?thesis using g Opened h gate_frame [OF g] by (simp add: process_envelope_def)
  qed (use g gate_frame [OF g] in \<open>simp_all add: process_envelope_def\<close>)
qed

text \<open>Such a message is in the outbox after a restart.\<close>

lemma restored_edited:
  assumes "db_messages db = [m]" "\<not> sm_incoming m" "\<not> sm_delivered m" "sm_recipient m \<noteq> SELF_SAVED" "sm_recipient m \<noteq> me"
  shows "\<exists>q \<in> set (restore_outbox now me db). qm_message q = m"
  using assms by (simp add: restore_outbox_def queue_push_def push_after_def)

text \<open>A reaction that the recipient does not know arrives as a message with the symbol as its text.\<close>

lemma unknown_reaction_is_message:
  assumes "\<not> is_valid_emoji r" "db_inv (ib_db s)" "i \<noteq> []" "\<not> is_tombstoned (sender_hex e) i (ib_db s)"
  shows "\<exists>s' ev. handle_payload C CJ J show_addr io me e (empty_payload\<lparr>cp_id := i, cp_text := mr_emoji r, cp_reaction := Some r\<rparr>) s =
      (s', ev, Some (sender_hex e, i)) \<and> (\<exists>m. find_message i (ib_db s') = Some m \<and> sm_text m = mr_emoji r)"
proof -
  let ?p = "empty_payload\<lparr>cp_id := i, cp_text := mr_emoji r, cp_reaction := Some r\<rparr>"
  let ?q = "empty_payload\<lparr>cp_id := i, cp_text := mr_emoji r\<rparr>"
  have eq: "handle_payload C CJ J show_addr io me e ?p s = handle_payload C CJ J show_addr io me e ?q s"
    using assms(1) by (simp add: handle_payload_def Let_def handle_delivery_def handle_read_def handle_tombstone_def handle_call_signal_def
        handle_call_audio_def handle_reaction_def handle_edit_def empty_payload_def store_incoming_def incoming_message_def incoming_id_def)
  have i: "incoming_id e ?q = i" using assms(3) by (simp add: incoming_id_def)
  have "\<exists>s' ev. handle_payload C CJ J show_addr io me e ?q s = (s', ev, Some (sender_hex e, incoming_id e ?q)) \<and>
    find_message (incoming_id e ?q) (ib_db s') = Some (incoming_message me e ?q) \<and>
    (find_message (incoming_id e ?q) (ib_db s) = None \<longrightarrow> EvMessage (incoming_message me e ?q) \<in> set ev)"
    by (rule ordinary_stored) (use assms i in \<open>simp_all add: ordinary_def empty_payload_def\<close>)
  then show ?thesis unfolding eq i by (auto simp: incoming_message_def)
qed

section \<open>The operations of both sides together\<close>

text \<open>The receipt is sealed for the contact, which has the key of the envelope that was acknowledged or a newer one.\<close>

lemma receipt_sent:
  assumes C: "crypto_ok C" "identity_ok C a" and c: "map_of (db_contacts db) (user_id_hex a) = Some c" "sc_x25519_pub_hex c = to_hex (ui_x25519_public a)"
    and w: "mj_write J (receipt_payload C b i t) = Some raw"
      "encrypt_envelope C (dl_seed io) (dl_nonce io) (dl_seal_time io) b (ui_user_id a) (ui_x25519_public a) raw = Some e"
  shows "send_delivery_receipt C J parse io t b db (user_id_hex a) i =
    Done (Ok (), send_quietly C J io (user_id_hex a) (parse (sc_last_seen_addr c)) e)"
proof -
  have x: "length (ui_x25519_public a) = 32" "length (as_bytes (ui_user_id a)) = 20"
    using C(2) crypto_lengths [OF C(1)] by (simp_all add: identity_ok_def from_key_def ffi_hash_node_id_def)
  have i: "id_from_hex (user_id_hex a) = Done (Ok (ui_user_id a))" using id_from_hex_id x(2) by (simp add: user_id_hex_def)
  have "ui_x25519_public a \<noteq> []" using x(1) by auto
  then have h: "hex_decode (to_hex (ui_x25519_public a)) = Done (Some (ui_x25519_public a))" by (rule hex_decode_to_hex)
  show ?thesis using i h x(1) c w by (simp add: send_delivery_receipt_def)
qed

section \<open>A card of another user\<close>

text \<open>Opening with the payload key looks at nonce, key of the sender and ciphertext only.\<close>

lemma open_ephemeral_cong:
  "en_nonce e = en_nonce e' \<Longrightarrow> en_x25519_pub e = en_x25519_pub e' \<Longrightarrow> en_ciphertext e = en_ciphertext e' \<Longrightarrow>
   open_ephemeral C r e k = open_ephemeral C r e' k"
  by (simp add: open_ephemeral_def open_with_def)

lemma sealed_readable:
  assumes C: "crypto_ok C" "identity_ok C me" "identity_ok C r" "length nonce = 12"
    and e: "encrypt_envelope C seed nonce now me rid (ui_x25519_public r) b = Some e"
  shows "\<exists>k. en_ephemeral_pub e = Some k \<and> open_ephemeral C r e k = Ok b"
proof -
  obtain e' where e': "encrypt_envelope C seed nonce now me (ui_user_id r) (ui_x25519_public r) b = Some e'"
    using e by (auto simp: encrypt_envelope_def Let_def split: option.splits)
  have f: "en_nonce e = en_nonce e'" "en_x25519_pub e = en_x25519_pub e'" "en_ciphertext e = en_ciphertext e'"
    "en_ephemeral_pub e = en_ephemeral_pub e'" "en_version e' = 3"
    using e e' by (auto simp: encrypt_envelope_def Let_def split: option.splits)
  have "decrypt_envelope C r e' = Ok b" by (rule envelope_opens [OF C e'])
  then obtain k where "en_ephemeral_pub e' = Some k" "open_ephemeral C r e' k = Ok b"
    using f(5) by (auto simp: decrypt_envelope_def split: if_splits option.splits)
  then show ?thesis using f open_ephemeral_cong [OF f(1-3)] by auto
qed

text \<open>When the network answers for a user with a card of somebody else, which is valid as such, the messages to the user are
  sealed for that somebody.\<close>

lemma card_substitution:
  assumes C: "crypto_ok C" "identity_ok C me" "identity_ok C mallory" "length (dl_nonce io) = 12"
    and card: "dl_found io = Some (Some v)" "cj_read CJ v = Some crd" "presence_verify C CJ crd = Ok ()"
      "pc_ed25519_pub crd = ui_verifying_key mallory" "pc_x25519_pub crd = ui_x25519_public mallory"
    and u: "id_from_hex u = Done (Ok rid)" "map_of (db_contacts db) u = None"
    and sent: "try_deliver_payload C CJ J parse show_addr io self me u p db rt = Done (out, sent, db', rt')" "x \<in> set sent"
  shows "\<exists>b e k. mj_write J p = Some b \<and> en_recipient_id e = rid \<and> sealed_send J (dl_punch_nonce io) e x \<and>
    en_ephemeral_pub e = Some k \<and> open_ephemeral C mallory e k = Ok b"
proof -
  have i: "id_to_hex (from_key (cr_sha1 C) (ui_verifying_key mallory)) = pc_user_id crd" "length (ui_verifying_key mallory) = 32"
    using card(3,4) C(3) crypto_lengths(1) [OF C(1)]
    by (auto simp: presence_verify_def identity_ok_def id_to_hex_def from_key_def ffi_node_id_to_hex_def split: if_splits)
  have d: "fst (discover_peer C CJ show_addr (dl_instant io) (dl_found io) db rt) = Ok crd"
    using card i by (simp add: discover_peer_def Let_def)
  obtain db1 rt1 where d1: "discover_peer C CJ show_addr (dl_instant io) (dl_found io) db rt = (Ok crd, db1, rt1)"
    using d by (metis prod.collapse)
  have r: "resolve_recipient C CJ parse show_addr io u db rt =
      Done (Some (ui_x25519_public mallory, Some (pc_socket_addr crd), pc_endpoints crd), db1, rt1)"
    using u(2) card(5) by (simp add: resolve_recipient_def resolve_by_card_def d1)
  obtain b e addrs where s: "mj_write J p = Some b"
    "encrypt_envelope C (dl_seed io) (dl_nonce io) (dl_seal_time io) me rid (ui_x25519_public mallory) b = Some e"
    "send_envelope C J io self u addrs (pc_endpoints crd) e = (out, sent)"
    using deliver_cases [OF sent(1)] sent(2) u(1) r by auto
  show ?thesis
    using s(1) sealed_readable [OF C s(2)] send_envelope_sealed [OF s(3)] sent(2) sealed_fields(2) [OF s(2)] by blast
qed

end
