(* ===== verification/Messaging.thy ===== *)
theory Messaging
  imports Delivery Onion
begin

text \<open>
  The promises of the messenger: what its parts (\<open>Inbox\<close>, \<open>Cascade\<close>, \<open>Messenger\<close>, \<open>Db_File\<close>, \<open>Outbox\<close> and the rest)
  give together. Each property is followed by its use at a concrete input. The ciphers of the samples are simple functions
  with the laws of \<open>crypto_ok\<close>; the JSON of the samples knows the two payloads that are sent.
\<close>

section \<open>Samples\<close>

definition pad :: "nat \<Rightarrow> bytes \<Rightarrow> bytes" where
  "pad n b = take n (b @ replicate n 0)"

lemma length_pad [simp]: "length (pad n b) = n"
  by (simp add: pad_def)

lemma pad_pad [simp]: "pad n (pad n b) = pad n b"
  by (simp add: pad_def)

definition demo_crypto :: crypto where
  "demo_crypto = \<lparr>cr_sha1 = pad 20, cr_sha256 = (\<lambda>m. pad 32 (rev m)), cr_hmac = (\<lambda>k m. pad 32 (m @ k)),
     cr_hkdf = (\<lambda>salt ikm info. pad 32 (take 10 ikm @ info)), cr_ed_public = pad 32, cr_ed_sign = (\<lambda>sk m. pad 64 (pad 32 sk @ m)),
     cr_ed_valid = (\<lambda>k. length k = 32), cr_ed_verify = (\<lambda>k m s. s = pad 64 (k @ m)), cr_ed_verify_strict = (\<lambda>k m s. s = pad 64 (k @ m)),
     cr_x_public = pad 32, cr_x_dh = (\<lambda>a b. map2 xor (pad 32 a) (pad 32 b)),
     cr_seal = (\<lambda>k n a p. Some (pad 32 k @ p)), cr_open = (\<lambda>k n a c. if take 32 c = pad 32 k then Some (drop 32 c) else None)\<rparr>"

lemma map2_xor_comm: "map2 xor (xs :: bytes) ys = map2 xor ys xs"
  by (induction xs ys rule: list_induct2') (simp_all add: xor.commute)

lemma demo_crypto_ok: "crypto_ok demo_crypto"
  by (auto simp: crypto_ok_def demo_crypto_def map2_xor_comm)

definition alice :: user_identity where "alice = identity_from_seed demo_crypto (replicate 32 1)"
definition bob :: user_identity where "bob = identity_from_seed demo_crypto (replicate 32 2)"
definition mallory :: user_identity where "mallory = identity_from_seed demo_crypto (replicate 32 3)"

lemma demo_identities: "identity_ok demo_crypto alice" "identity_ok demo_crypto bob" "identity_ok demo_crypto mallory"
  by (simp_all add: alice_def bob_def mallory_def identity_from_seed_ok)

lemma demo_ids_differ: "ui_user_id alice \<noteq> ui_user_id bob" "user_id_hex alice \<noteq> user_id_hex bob" "user_id_hex bob \<noteq> SELF_SAVED"
    "user_id_hex mallory \<noteq> user_id_hex alice"
proof -
  have "ui_user_id alice \<noteq> ui_user_id bob \<and> user_id_hex alice \<noteq> user_id_hex bob \<and> user_id_hex bob \<noteq> SELF_SAVED \<and> user_id_hex mallory \<noteq> user_id_hex alice"
    by code_simp
  then show "ui_user_id alice \<noteq> ui_user_id bob" "user_id_hex alice \<noteq> user_id_hex bob" "user_id_hex bob \<noteq> SELF_SAVED"
    "user_id_hex mallory \<noteq> user_id_hex alice" by blast+
qed

definition demo_message :: chat_message where
  "demo_message = own_message ''m1'' (user_id_hex alice) (user_id_hex bob) ''hi'' 100"

definition demo_edited :: chat_message where
  "demo_edited = demo_message\<lparr>sm_is_edited := True, sm_edit_timestamp := Some 120\<rparr>"

definition demo_receipt :: chat_payload where
  "demo_receipt = receipt_payload demo_crypto bob ''m1'' 100"

text \<open>What one user seals for another.\<close>

definition demo_sealed :: "user_identity \<Rightarrow> user_identity \<Rightarrow> bytes \<Rightarrow> envelope" where
  "demo_sealed a b raw = the (encrypt_envelope demo_crypto (replicate 32 9) (replicate 12 7) 100 a (ui_user_id b) (ui_x25519_public b) raw)"

lemma demo_seals: "encrypt_envelope demo_crypto (replicate 32 9) (replicate 12 7) 100 a (ui_user_id b) (ui_x25519_public b) raw = Some (demo_sealed a b raw)"
  by (simp add: demo_sealed_def encrypt_envelope_def demo_crypto_def Let_def)

lemma demo_sealed_sender: "en_sender_id (demo_sealed a b raw) = ui_user_id a" "en_timestamp (demo_sealed a b raw) = 100"
  using sealed_fields [OF demo_seals] by simp_all

text \<open>JSON of the payloads and of one mailbox.\<close>

definition demo_json :: msg_json where
  "demo_json = \<lparr>mj_write = (\<lambda>p. if p = message_payload demo_message then Some [1] else if p = demo_receipt then Some [2]
       else if p = message_payload demo_edited then Some [3] else None),
     mj_read = (\<lambda>b. if b = [1] then Some (message_payload demo_message) else if b = [2] then Some demo_receipt
       else if b = [3] then Some (message_payload demo_edited) else None),
     mj_tombstone = (\<lambda>u t is. str_bytes u), mj_list = (\<lambda>b. if b = [4] then Some [demo_sealed alice bob [1]] else None), mj_single = (\<lambda>b. None),
     mj_write_list = (\<lambda>es. if es = [demo_sealed alice bob [1]] then Some [4] else None)\<rparr>"

lemma demo_json_ok: "msg_json_ok demo_json"
  by (auto simp: msg_json_ok_def demo_json_def)

lemma demo_writes:
  "mj_write demo_json (message_payload demo_message) = Some [1]" "mj_write demo_json demo_receipt = Some [2]"
  "mj_write demo_json (message_payload demo_edited) = Some [3]" "mj_write_list demo_json [demo_sealed alice bob [1]] = Some [4]"
proof -
  have "demo_receipt \<noteq> message_payload demo_message" "message_payload demo_edited \<noteq> message_payload demo_message"
    "message_payload demo_edited \<noteq> demo_receipt"
    by (simp_all add: demo_receipt_def receipt_payload_def message_payload_def empty_payload_def demo_edited_def demo_message_def own_message_def)
  then show "mj_write demo_json (message_payload demo_message) = Some [1]" "mj_write demo_json demo_receipt = Some [2]"
    "mj_write demo_json (message_payload demo_edited) = Some [3]" "mj_write_list demo_json [demo_sealed alice bob [1]] = Some [4]"
    by (simp_all add: demo_json_def)
qed

text \<open>Presence cards: the network knows the card of one user.\<close>

definition demo_card :: "user_identity \<Rightarrow> presence_card" where
  "demo_card u = \<lparr>pc_user_id = user_id_hex u, pc_display_name = ''u'', pc_bio = [], pc_ed25519_pub = ui_verifying_key u,
     pc_x25519_pub = ui_x25519_public u, pc_socket_addr = SockV4 1 4000, pc_endpoints = [], pc_nat_category = NatUnknown,
     pc_timestamp = 1, pc_signature = identity_sign demo_crypto u [5]\<rparr>"

definition demo_cards :: card_json where
  "demo_cards = \<lparr>cj_signing = (\<lambda>c. [5]), cj_write = (\<lambda>c. [6]), cj_read = (\<lambda>b. if b = [6] then Some (demo_card mallory) else None)\<rparr>"

definition demo_show :: "socket_addr \<Rightarrow> string" where "demo_show a = ''10.0.0.2:4000''"
definition demo_parse :: "string \<Rightarrow> socket_addr option" where "demo_parse s = (if s = ''10.0.0.2:4000'' then Some (SockV4 0x0A000002 4000) else None)"

definition demo_contact :: "user_identity \<Rightarrow> saved_contact" where
  "demo_contact u = \<lparr>sc_user_id = user_id_hex u, sc_name = ''u'', sc_bio = [], sc_ed25519_pub_hex = to_hex (ui_verifying_key u),
     sc_x25519_pub_hex = to_hex (ui_x25519_public u), sc_last_seen_addr = ''10.0.0.2:4000''\<rparr>"

definition demo_db :: "user_identity \<Rightarrow> chat_message list \<Rightarrow> messenger_db" where
  "demo_db u ms = db_default\<lparr>db_contacts := [(user_id_hex u, demo_contact u)], db_messages := ms\<rparr>"

definition demo_state :: "user_identity \<Rightarrow> chat_message list \<Rightarrow> inbox_state" where
  "demo_state u ms = \<lparr>ib_db = demo_db u ms, ib_queue = [], ib_cache = [], ib_table = rt_new (ui_user_id alice)\<rparr>"

text \<open>Answers: the contact's address acknowledges, discovery finds the card, the mailbox is empty.\<close>

definition demo_io :: "bool \<Rightarrow> deliver_io" where
  "demo_io acked = \<lparr>dl_seed = replicate 32 9, dl_nonce = replicate 12 7, dl_seal_time = 100, dl_key_time = 100, dl_deposit_time = 100,
     dl_instant = 0, dl_found = Some (Some [6]), dl_table_free = True, dl_direct = (\<lambda>k. \<lparr>da_acked = acked, da_tcp_id = 1, da_tcp = NoConnection\<rparr>),
     dl_punch_nonce = replicate 16 8, dl_punch_replies = [], dl_punch_acked = (\<lambda>k. False), dl_mailbox = None, dl_put_ok = True\<rparr>"

definition demo_eio :: envelope_io where
  "demo_eio = \<lparr>ei_now = 100, ei_later = 100, ei_instant = 0, ei_found = None\<rparr>"

lemma demo_gate: "ui_user_id a \<noteq> ui_user_id b \<Longrightarrow> gate_free demo_crypto (ei_now demo_eio) b (demo_sealed a b raw) (demo_state u ms)"
  by (simp add: gate_free_def demo_sealed_sender demo_state_def demo_db_def db_default_def db_is_blocked_def check_and_insert_def demo_eio_def
      abs_diff64_def Let_def)

lemma demo_db_inv: "distinct (map sm_id ms) \<Longrightarrow> \<forall>m \<in> set ms. sm_reactions m = [] \<Longrightarrow> db_inv (ib_db (demo_state u ms))"
  by (auto simp: db_inv_def db_ids_def demo_state_def demo_db_def db_default_def demo_contact_def keys_distinct_def reactions_ok_def reacted_def)

lemma demo_contact_usable: "\<not> contact_unusable (demo_contact bob)"
  by code_simp

lemma demo_lookup: "map_of (db_contacts (ib_db (demo_state u ms))) (user_id_hex u) = Some (demo_contact u)"
    "sc_x25519_pub_hex (demo_contact u) = to_hex (ui_x25519_public u)"
  by (simp_all add: demo_state_def demo_db_def demo_contact_def)


lemma demo_rt_inv: "rt_inv (ib_table (demo_state u ms))"
  by (simp add: demo_state_def rt_inv_new)

lemma demo_io_sel [simp]:
  "dl_seed (demo_io b) = replicate 32 9" "dl_nonce (demo_io b) = replicate 12 7" "dl_seal_time (demo_io b) = 100"
  "dl_key_time (demo_io b) = 100" "dl_deposit_time (demo_io b) = 100" "dl_found (demo_io b) = Some (Some [6])"
  "dl_direct (demo_io b) k = \<lparr>da_acked = b, da_tcp_id = 1, da_tcp = NoConnection\<rparr>" "dl_punch_nonce (demo_io b) = replicate 16 8"
  "dl_mailbox (demo_io b) = None" "dl_put_ok (demo_io b)" "dl_instant (demo_io b) = 0"
  by (simp_all add: demo_io_def)

lemma demo_delivery:
  "try_deliver_payload demo_crypto demo_cards demo_json demo_parse demo_show (demo_io True) (NodeId []) alice (user_id_hex bob)
     (message_payload demo_message) (demo_db bob []) (rt_new (NodeId [])) = Done (Ok (DirectUdp (SockV4 0x0A000002 4000)),
       [SendStore (SockV4 0x0A000002 4000) (mailbox_id demo_crypto (demo_io True) (user_id_hex bob)) (single_envelope demo_json (demo_sealed alice bob [1]))],
       demo_db bob [], rt_new (NodeId []))"
proof -
  have x: "length (ui_x25519_public bob) = 32" "wf_id (ui_user_id bob)"
    using crypto_lengths(3) [OF demo_crypto_ok] identity_wf [OF demo_crypto_ok demo_identities(2)] demo_identities(2) by (simp_all add: identity_ok_def)
  then have "ui_x25519_public bob \<noteq> []" by auto
  then have h: "hex_decode (to_hex (ui_x25519_public bob)) = Done (Some (ui_x25519_public bob))" by (rule hex_decode_to_hex)
  have r: "resolve_recipient demo_crypto demo_cards demo_parse demo_show (demo_io True) (user_id_hex bob) (demo_db bob []) (rt_new (NodeId [])) =
      Done (Some (ui_x25519_public bob, Some (SockV4 0x0A000002 4000), [SockV4 0x0A000002 4000]), demo_db bob [], rt_new (NodeId []))"
    using h x(1) demo_contact_usable by (simp add: resolve_recipient_def demo_db_def demo_contact_def demo_parse_def Let_def)
  have i: "id_from_hex (user_id_hex bob) = Done (Ok (ui_user_id bob))" using id_hex_roundtrip [OF x(2)] by (simp add: user_id_hex_def)
  show ?thesis using demo_seals [of alice bob "[1]"] x(1)
    by (simp add: try_deliver_payload_def i r demo_writes send_envelope_def Let_def mailbox_id_def)
qed

definition demo_env :: user_env where
  "demo_env = \<lparr>ue_crypto = demo_crypto, ue_cards = demo_cards, ue_json = demo_json, ue_parse = demo_parse, ue_show = demo_show,
     ue_node = NodeId [], ue_me = alice\<rparr>"

text \<open>The receipt of the other side arrives; a delivery to a user whose card was exchanged.\<close>

lemma demo_receipt_arrives:
  "\<exists>s'. process_envelope demo_crypto demo_cards demo_json demo_show demo_eio alice (demo_sealed bob alice [2]) (demo_state bob [demo_message]) =
     (Opened demo_receipt, s', [EvDelivered ''m1'' (user_id_hex bob)], None)"
proof -
  have "find_message ''m1'' (ib_db (demo_state bob [demo_message])) = Some demo_message" "sm_recipient demo_message = user_id_hex bob"
    "\<not> sm_incoming demo_message" "db_inv (ib_db (demo_state bob [demo_message]))"
    by (simp_all add: demo_message_def own_message_def find_message_def demo_state_def demo_db_def demo_db_inv [unfolded demo_state_def demo_db_def, simplified])
  from receipt_marks [OF demo_crypto_ok demo_identities(1,2) _ demo_json_ok demo_writes(2) [unfolded demo_receipt_def] demo_seals
      demo_gate [OF demo_ids_differ(1) [symmetric]] this(4,1-3)]
  show ?thesis by (auto simp: demo_receipt_def)
qed

lemma demo_card_valid: "presence_verify demo_crypto demo_cards (demo_card mallory) = Ok ()"
  by code_simp

lemma demo_wrong_card:
  "\<exists>x out sent db' rt'. try_deliver_payload demo_crypto demo_cards demo_json demo_parse demo_show (demo_io True) (NodeId []) alice (user_id_hex bob)
     (message_payload demo_message) db_default (rt_new (NodeId [])) = Done (out, sent, db', rt') \<and> x \<in> set sent"
proof -
  have x: "length (ui_x25519_public mallory) = 32" "length (ui_verifying_key mallory) = 32" "wf_id (ui_user_id bob)"
    using crypto_lengths [OF demo_crypto_ok] identity_wf [OF demo_crypto_ok demo_identities(2)] demo_identities(3) by (simp_all add: identity_ok_def)
  have u: "id_to_hex (from_key (cr_sha1 demo_crypto) (ui_verifying_key mallory)) = user_id_hex mallory"
    using demo_identities(3) by (simp add: identity_ok_def user_id_hex_def)
  have c: "cj_read demo_cards [6] = Some (demo_card mallory)" "pc_ed25519_pub (demo_card mallory) = ui_verifying_key mallory"
    "pc_user_id (demo_card mallory) = user_id_hex mallory" by (simp_all add: demo_cards_def demo_card_def)
  obtain db' rt' where d: "discover_peer demo_crypto demo_cards demo_show (dl_instant (demo_io True)) (Some (Some [6])) db_default (rt_new (NodeId [])) =
      (Ok (demo_card mallory), db', rt')"
    using x(2) u demo_card_valid by (simp add: discover_peer_def c Let_def)
  have i: "id_from_hex (user_id_hex bob) = Done (Ok (ui_user_id bob))" using id_hex_roundtrip [OF x(3)] by (simp add: user_id_hex_def)
  have "map_of (db_contacts db_default) (user_id_hex bob) = None" by (simp add: db_default_def)
  then have r: "resolve_recipient demo_crypto demo_cards demo_parse demo_show (demo_io True) (user_id_hex bob) db_default (rt_new (NodeId [])) =
      Done (Some (ui_x25519_public mallory, Some (SockV4 1 4000), []), db', rt')"
    using d by (simp add: resolve_recipient_def resolve_by_card_def) (simp add: demo_card_def)
  obtain e where "encrypt_envelope demo_crypto (replicate 32 9) (replicate 12 7) 100 alice (ui_user_id bob) (ui_x25519_public mallory) [1] = Some e"
    by (simp add: encrypt_envelope_def demo_crypto_def Let_def)
  then show ?thesis using x(1) by (simp add: try_deliver_payload_def i r demo_writes send_envelope_def Let_def exI)
qed

text \<open>A first start on an empty disk, and the state of a disk on which the key cache knows another key.\<close>

definition demo_words :: mnemonics where
  "demo_words = \<lparr>mn_generate_12 = (\<lambda>e. Ok ''twelve words''), mn_generate_24 = (\<lambda>e. Err ''no''), mn_to_seed = (\<lambda>s. Ok (replicate 32 1)), mn_validate = (\<lambda>s. True)\<rparr>"

definition demo_started :: messenger_db where
  "demo_started = started_db ''alice'' alice (Some ''twelve words'') db_default"

definition demo_db_json :: db_json where
  "demo_db_json = \<lparr>dj_write = (\<lambda>db. if db = demo_started then Some [7] else None), dj_read = (\<lambda>b. if b = [7] then Some demo_started else None)\<rparr>"

definition demo_start :: start_io where
  "demo_start = \<lparr>so_entropy = [], so_seed = [], so_load_rnd = replicate 32 6, so_save_rnd = replicate 32 6, so_salt = replicate 16 5,
     so_nonce = replicate 12 4, so_instant = 0, so_now = 100\<rparr>"

definition no_files :: db_files where "no_files = \<lparr>df_cache = [], df_key = None, df_db = None, df_bak = None\<rparr>"
definition used_files :: db_files where "used_files = \<lparr>df_cache = [(''/db'', replicate 32 1)], df_key = Some (replicate 32 1), df_db = Some [1], df_bak = None\<rparr>"

lemma demo_db_json_ok: "db_json_ok demo_db_json"
  by (simp add: db_json_ok_def demo_db_json_def)

lemma demo_saves:
  "fst (save_to_file demo_crypto demo_db_json io_fine (replicate 32 6) salt nonce t ''db'' ''/db'' demo_started no_files) = Ok ()"
  by (simp add: save_to_file_def get_or_create_instance_key_def create_instance_key_def no_files_def io_fine_def abs_path_def written_def
      demo_db_json_def demo_crypto_def replace_db_def rotate_backup_def Let_def)

lemma demo_wiped_saves:
  defines "w \<equiv> wipe_files True True ''db'' ''/db'' used_files" and "sv \<equiv> save_to_file demo_crypto demo_db_json io_fine (replicate 32 6) (replicate 16 5)
      (replicate 12 4) 0 ''db'' ''/db'' demo_started"
  shows "\<exists>s1 s2. sv w = (Ok (), s1) \<and> sv s1 = (Ok (), s2)"
  by (simp add: w_def sv_def save_to_file_def get_or_create_instance_key_def create_instance_key_def used_files_def io_fine_def abs_path_def written_def
      demo_db_json_def demo_crypto_def replace_db_def rotate_backup_def Let_def wipe_files_def forget_instance_key_def map_del_def map_put.simps
      should_backup_def)

lemma demo_first_start:
  "\<exists>s. ib_db s = demo_started \<and> messenger_start demo_crypto demo_words demo_db_json io_fine demo_start ''db'' ''/db'' ''alice'' (rt_new (NodeId [])) no_files =
     (Ok (alice, s), snd (save_to_file demo_crypto demo_db_json io_fine (replicate 32 6) (replicate 16 5) (replicate 12 4) 0 ''db'' ''/db'' demo_started no_files))"
proof -
  have c: "choose_identity demo_crypto demo_words [] [] db_default = Ok (alice, Some ''twelve words'')"
    by (simp add: choose_identity_def db_default_def generate_mnemonic_def demo_words_def alice_def)
  have l: "load_from_file demo_crypto demo_db_json io_fine (replicate 32 6) ''db'' ''/db'' no_files = (Ok db_default, no_files)"
    by (simp add: load_from_file_def no_files_def)
  show ?thesis using c l by (simp add: messenger_start_def demo_start_def demo_started_def [symmetric] Let_def case_prod_unfold)
qed

text \<open>A file of two chunks, an image of three hundred pixels, and the header of an onion.\<close>

lemma res_map_total:
  assumes "\<And>x. \<exists>y. f x = Inr y"
  shows "\<exists>ys. res_map f xs = Inr ys"
proof (induction xs)
  case (Cons x xs)
  then show ?case using assms [of x] by auto
qed simp

lemma demo_file:
  "\<exists>m cs. create_file_transfer demo_crypto (\<lambda>b. 0) (\<lambda>b. []) 7 (replicate 32 1) (\<lambda>i. replicate 12 2) ''a.txt'' (replicate 40000 3) None = Ok (m, cs)"
proof -
  let ?f = "media_chunk_new demo_crypto (\<lambda>b. 0) (replicate 32 1) (\<lambda>i. replicate 12 2) (media_file_id 7 40000) ((40000 + (MEDIA_CHUNK_SIZE - 1)) div MEDIA_CHUNK_SIZE)"
  have "\<exists>y. ?f x = Inr y" for x by (simp add: media_chunk_new_def demo_crypto_def case_prod_unfold)
  from res_map_total [of ?f "enumerate 0 (slices MEDIA_CHUNK_SIZE (replicate 40000 3))", OF this] show ?thesis
    by (auto simp: create_file_transfer_def Let_def)
qed

definition demo_stego_card :: stego_card where
  "demo_stego_card = \<lparr>sg_user_id = user_id_hex alice, sg_display_name = ''alice'', sg_bio = [], sg_ed25519_pub_hex = [], sg_x25519_pub_hex = [],
     sg_endpoints = [], sg_timestamp = 1, sg_signature_hex = []\<rparr>"

definition demo_picture :: rgba_image where
  "demo_picture = \<lparr>im_width = 20, im_height = 15, im_pixels = replicate 300 (0, 0, 0, 255)\<rparr>"

definition demo_raw :: bytes where
  "demo_raw = stego_packet (\<lambda>b. 0) (replicate 32 3) (replicate 12 4) (pad 32 (stego_key demo_crypto (Some ''pw'') (replicate 32 3)) @ [5])"

definition demo_stego :: stego_io where
  "demo_stego = \<lparr>si_json_write = (\<lambda>c. if c = demo_stego_card then Some [5] else None), si_json_read = (\<lambda>b. if b = [5] then Some demo_stego_card else None),
     si_png = (\<lambda>i. if i = demo_picture\<lparr>im_pixels := write_pixels demo_raw 0 (im_pixels demo_picture)\<rparr> then Some [1] else None),
     si_load = (\<lambda>b. if b = [1] then Some (demo_picture\<lparr>im_pixels := write_pixels demo_raw 0 (im_pixels demo_picture)\<rparr>) else None)\<rparr>"

lemma demo_stego_ok: "stego_io_ok demo_stego"
  by (simp add: stego_io_ok_def demo_stego_def)

lemma demo_picture_ok: "image_ok demo_picture"
  by (simp add: image_ok_def demo_picture_def)

lemma demo_embeds:
  "embed_contact_into_image demo_crypto demo_stego (\<lambda>b. 0) (Some (replicate 32 3)) (Some (replicate 12 4)) demo_picture demo_stego_card (Some ''pw'') = Ok [1]"
proof -
  have "length demo_raw = 91" unfolding demo_raw_def by (subst stego_packet_parts(1)) simp_all
  then show ?thesis
    by (simp add: embed_contact_into_image_def demo_stego_def demo_raw_def [symmetric] demo_crypto_def [THEN arg_cong, of cr_seal] Let_def)
      (simp add: demo_picture_def)
qed

definition demo_header :: header_json where
  "demo_header = \<lparr>hj_write = (\<lambda>h. on_payload (rh_inner h)), hj_read = (\<lambda>b. Some \<lparr>rh_next_addr = SockV4 1 2, rh_next_id = NodeId [],
     rh_inner = \<lparr>on_ephemeral_pub = cr_x_public demo_crypto (replicate 32 1), on_nonce = replicate 12 2, on_payload = b\<rparr>\<rparr>)\<rparr>"

lemma demo_onion:
  "\<exists>pkt. build_2hop_onion demo_crypto demo_header (replicate 32 1, replicate 12 2) (replicate 32 3, replicate 12 4)
     (cr_x_public demo_crypto (replicate 32 5)) (cr_x_public demo_crypto (replicate 32 6)) (SockV4 1 2) (NodeId []) [7, 8] = Ok pkt"
  by (simp add: build_2hop_onion_def demo_crypto_def Let_def case_prod_unfold)


section \<open>A message and its receipt\<close>

text \<open>C1. A message that was not edited, and is sent to a contact that is usable and stands with the right key, leaves only as an envelope for
  that contact. When the owner of the contact's identity takes this envelope from a mailbox, and the gate is free for it (it is not for the
  sender itself, the sender is not blocked, the envelope was not seen before and its time is near the clock's) and the message was not deleted
  or called back there, then the recipient stores exactly this message: its identifier, text, image, voice note, reply, snippet and group
  are those of the sender, it stands under the sender's identifier with the time of sealing, as incoming and delivered, without
  reactions, pin and expiry. The listener is told of it if it is new, and it is acknowledged to the sender.\<close>

theorem message_end_to_end:
  assumes "crypto_ok C" "identity_ok C a" "identity_ok C b" "length (dl_nonce io) = 12" "msg_json_ok J"
    and "map_of (db_contacts dba) (user_id_hex b) = Some c" "sc_x25519_pub_hex c = to_hex (ui_x25519_public b)" "\<not> contact_unusable c"
    and "mj_write J (message_payload m) = Some raw" "length raw < 2 ^ 32" "sm_id m \<noteq> []" "\<not> sm_is_edited m"
    and "encrypt_envelope C (dl_seed io) (dl_nonce io) (dl_seal_time io) a (ui_user_id b) (ui_x25519_public b) raw = Some e"
    and "gate_free C (ei_now eio) b e sb" "db_inv (ib_db sb)" "\<not> is_tombstoned (user_id_hex a) (sm_id m) (ib_db sb)"
  shows "(\<exists>out sent. try_deliver_message C CJ J parse show_addr io self a (user_id_hex b) m dba rt = Done (out, sent, dba, rt) \<and>
      (\<forall>x \<in> set sent. sealed_send J (dl_punch_nonce io) e x)) \<and>
    (\<exists>sb' ev m'. process_envelope C CJ J show_addr eio b e sb = (Opened (message_payload m), sb', ev, Some (user_id_hex a, sm_id m)) \<and>
      m' = m\<lparr>sm_sender := user_id_hex a, sm_recipient := user_id_hex b, sm_timestamp := dl_seal_time io, sm_incoming := True, sm_delivered := True,
        sm_is_edited := False, sm_edit_timestamp := None, sm_reactions := [], sm_is_pinned := False, sm_expires_at := None\<rparr> \<and>
      find_message (sm_id m) (ib_db sb') = Some m' \<and> (find_message (sm_id m) (ib_db sb) = None \<longrightarrow> EvMessage m' \<in> set ev))"
proof -
  obtain e' addrs cs out sent where d: "encrypt_envelope C (dl_seed io) (dl_nonce io) (dl_seal_time io) a (ui_user_id b) (ui_x25519_public b) raw = Some e'"
    "send_envelope C J io self (user_id_hex b) addrs cs e' = (out, sent)"
    "try_deliver_payload C CJ J parse show_addr io self a (user_id_hex b) (message_payload m) dba rt = Done (out, sent, dba, rt)"
    using delivered_opens [OF assms(1-4,6-10)] by blast
  have "e' = e" using d(1) assms(13) by simp
  then have sends: "\<exists>out sent. try_deliver_message C CJ J parse show_addr io self a (user_id_hex b) m dba rt = Done (out, sent, dba, rt) \<and>
      (\<forall>x \<in> set sent. sealed_send J (dl_punch_nonce io) e x)"
    using d send_envelope_sealed [OF d(2)] by (auto simp: try_deliver_message_def)
  let ?m' = "incoming_message b e (message_payload m)"
  have same: "?m' = m\<lparr>sm_sender := user_id_hex a, sm_recipient := user_id_hex b, sm_timestamp := dl_seal_time io, sm_incoming := True,
      sm_delivered := True, sm_is_edited := False, sm_edit_timestamp := None, sm_reactions := [], sm_is_pinned := False, sm_expires_at := None\<rparr>"
    using sealed_fields [OF assms(13)] assms(11)
    by (simp add: incoming_message_def incoming_id_def message_payload_def empty_payload_def user_id_hex_def)
  obtain sb' ev where "process_envelope C CJ J show_addr eio b e sb = (Opened (message_payload m), sb', ev, Some (user_id_hex a, sm_id m))"
    "find_message (sm_id m) (ib_db sb') = Some ?m'" "find_message (sm_id m) (ib_db sb) = None \<longrightarrow> EvMessage ?m' \<in> set ev"
    using message_arrives [OF assms(1-5,9,11-16), of CJ show_addr] by (elim exE conjE) (rule that)
  then show ?thesis using sends same by (intro conjI exI [of _ sb'] exI [of _ ev] exI [of _ ?m']) simp_all
qed

theorem message_end_to_end_witness:
  "(\<exists>out sent. try_deliver_message demo_crypto demo_cards demo_json demo_parse demo_show (demo_io True) (NodeId []) alice (user_id_hex bob)
      demo_message (demo_db bob []) (rt_new (NodeId [])) = Done (out, sent, demo_db bob [], rt_new (NodeId [])) \<and>
      (\<forall>x \<in> set sent. sealed_send demo_json (dl_punch_nonce (demo_io True)) (demo_sealed alice bob [1]) x)) \<and>
    (\<exists>sb' ev m'. process_envelope demo_crypto demo_cards demo_json demo_show demo_eio bob (demo_sealed alice bob [1]) (demo_state alice []) =
        (Opened (message_payload demo_message), sb', ev, Some (user_id_hex alice, ''m1'')) \<and>
      m' = demo_message\<lparr>sm_timestamp := 100, sm_incoming := True, sm_delivered := True\<rparr> \<and>
      find_message ''m1'' (ib_db sb') = Some m' \<and> EvMessage m' \<in> set ev)"
proof -
  have m: "sm_id demo_message = ''m1''" "\<not> sm_is_edited demo_message" by (simp_all add: demo_message_def own_message_def)
  have m': "demo_message\<lparr>sm_sender := user_id_hex alice, sm_recipient := user_id_hex bob, sm_timestamp := 100, sm_incoming := True, sm_delivered := True,
      sm_is_edited := False, sm_edit_timestamp := None, sm_reactions := [], sm_is_pinned := False, sm_expires_at := None\<rparr> =
    demo_message\<lparr>sm_timestamp := 100, sm_incoming := True, sm_delivered := True\<rparr>" by (simp add: demo_message_def own_message_def)
  have f: "find_message ''m1'' (ib_db (demo_state alice [])) = None" by (simp add: find_message_def demo_state_def demo_db_def db_default_def)
  have "dba = demo_db bob [] \<Longrightarrow> map_of (db_contacts dba) (user_id_hex bob) = Some (demo_contact bob)" for dba by (simp add: demo_db_def)
  from message_end_to_end [OF demo_crypto_ok demo_identities(1,2) _ demo_json_ok this [OF refl] demo_lookup(2) demo_contact_usable demo_writes(1),
      where e = "demo_sealed alice bob [1]" and io = "demo_io True" and eio = demo_eio and sb = "demo_state alice []" and CJ = demo_cards
        and show_addr = demo_show and parse = demo_parse and self = "NodeId []" and rt = "rt_new (NodeId [])"]
  show ?thesis using m m' f demo_gate [OF demo_ids_differ(1), of "[1]" alice "[]"] demo_db_inv [of "[]" alice] demo_seals [of alice bob "[1]"]
    by (simp add: is_tombstoned_def demo_state_def demo_db_def db_default_def)
qed

text \<open>C2. The receipt that the recipient sends for a message is an envelope which marks that message as delivered in the database
  of its sender, takes it out of the sender's outbox, and is told to the listener.\<close>

theorem receipt_end_to_end:
  assumes "crypto_ok C" "identity_ok C a" "identity_ok C b" "length (dl_nonce io) = 12" "msg_json_ok J"
    and "map_of (db_contacts dbb) (user_id_hex a) = Some c" "sc_x25519_pub_hex c = to_hex (ui_x25519_public a)"
    and "mj_write J (receipt_payload C b i t) = Some raw"
    and "encrypt_envelope C (dl_seed io) (dl_nonce io) (dl_seal_time io) b (ui_user_id a) (ui_x25519_public a) raw = Some e"
    and "gate_free C (ei_now eio) a e sa" "db_inv (ib_db sa)" "distinct (map qm_id (ib_queue sa))"
    and "find_message i (ib_db sa) = Some m" "sm_recipient m = user_id_hex b" "\<not> sm_incoming m"
  shows "send_delivery_receipt C J parse io t b dbb (user_id_hex a) i = Done (Ok (), send_quietly C J io (user_id_hex a) (parse (sc_last_seen_addr c)) e) \<and>
    (\<exists>sa'. process_envelope C CJ J show_addr eio a e sa = (Opened (receipt_payload C b i t), sa', [EvDelivered i (user_id_hex b)], None) \<and>
      find_message i (ib_db sa') = Some (m\<lparr>sm_delivered := True\<rparr>) \<and> (\<forall>q \<in> set (ib_queue sa'). qm_id q \<noteq> i))"
  using receipt_sent [OF assms(1,2,6-9), of parse] receipt_marks [OF assms(1-5,8-11,13-15), of CJ show_addr]
    mark_delivered_stops [OF assms(12), of i] by metis

theorem receipt_end_to_end_witness:
  "send_delivery_receipt demo_crypto demo_json demo_parse (demo_io True) 100 bob (demo_db alice []) (user_id_hex alice) ''m1'' =
     Done (Ok (), send_quietly demo_crypto demo_json (demo_io True) (user_id_hex alice) (Some (SockV4 0x0A000002 4000)) (demo_sealed bob alice [2])) \<and>
   (\<exists>sa'. process_envelope demo_crypto demo_cards demo_json demo_show demo_eio alice (demo_sealed bob alice [2]) (demo_state bob [demo_message]) =
       (Opened demo_receipt, sa', [EvDelivered ''m1'' (user_id_hex bob)], None) \<and>
     find_message ''m1'' (ib_db sa') = Some (demo_message\<lparr>sm_delivered := True\<rparr>) \<and> (\<forall>q \<in> set (ib_queue sa'). qm_id q \<noteq> ''m1''))"
proof -
  have m: "find_message ''m1'' (ib_db (demo_state bob [demo_message])) = Some demo_message" "sm_recipient demo_message = user_id_hex bob"
    "\<not> sm_incoming demo_message" "sm_reactions demo_message = []"
    by (simp_all add: demo_message_def own_message_def find_message_def demo_state_def demo_db_def)
  have c: "map_of (db_contacts (demo_db alice [])) (user_id_hex alice) = Some (demo_contact alice)" by (simp add: demo_db_def)
  have d: "demo_parse (sc_last_seen_addr (demo_contact alice)) = Some (SockV4 0x0A000002 4000)" by (simp add: demo_parse_def demo_contact_def)
  have s: "encrypt_envelope demo_crypto (dl_seed (demo_io True)) (dl_nonce (demo_io True)) (dl_seal_time (demo_io True)) bob (ui_user_id alice)
      (ui_x25519_public alice) [2] = Some (demo_sealed bob alice [2])" using demo_seals by simp
  from receipt_end_to_end [OF demo_crypto_ok demo_identities(1,2) _ demo_json_ok c demo_lookup(2) demo_writes(2) [unfolded demo_receipt_def] s
      demo_gate [OF demo_ids_differ(1) [symmetric]] demo_db_inv _ m(1-3), where CJ = demo_cards and show_addr = demo_show and parse = demo_parse]
  show ?thesis using m(4) d by (simp add: demo_state_def demo_receipt_def)
qed

text \<open>C3. An envelope is accepted only if it is for the user, names the owner of its key, and carries that key's signature over
  its fields; from version 3 on the signature fixes all of them, so two accepted envelopes with the same signed bytes are the
  same up to the key and the signature, and have the same content.\<close>

theorem accepted_authentic:
  assumes "crypto_ok C" "decrypt_envelope C r e = Ok p"
  shows "en_recipient_id e = ui_user_id r \<and> en_sender_id e = from_key (cr_sha1 C) (en_ed25519_pub e) \<and>
    (\<exists>m. signed_bytes e = Some m \<and> identity_verify C (en_ed25519_pub e) m (en_signature e)) \<and>
    (\<forall>e' p'. decrypt_envelope C r e' = Ok p' \<and> en_version e \<ge> 3 \<and> en_version e' \<ge> 3 \<and> signed_bytes e = signed_bytes e' \<longrightarrow>
       e' = e\<lparr>en_ed25519_pub := en_ed25519_pub e', en_signature := en_signature e'\<rparr> \<and> p' = p)"
  using accepted_genuine [OF assms(2)] accepted_same_signed [OF assms] by blast

theorem accepted_authentic_witness:
  "en_recipient_id (demo_sealed alice bob [1]) = ui_user_id bob \<and>
    en_sender_id (demo_sealed alice bob [1]) = from_key (cr_sha1 demo_crypto) (en_ed25519_pub (demo_sealed alice bob [1])) \<and>
    (\<exists>m. signed_bytes (demo_sealed alice bob [1]) = Some m \<and>
      identity_verify demo_crypto (en_ed25519_pub (demo_sealed alice bob [1])) m (en_signature (demo_sealed alice bob [1])))"
proof -
  have "decrypt_envelope demo_crypto bob (demo_sealed alice bob [1]) = Ok [1]"
    by (rule envelope_opens [OF demo_crypto_ok demo_identities(1,2) _ demo_seals]) simp
  from accepted_authentic [OF demo_crypto_ok this] show ?thesis by blast
qed

text \<open>C4. As long as the clock does not go back while the program runs, of all envelopes that come in, however often and in whatever order,
  and that carry one signature and one time stamp, at most one is let in.\<close>

theorem let_in_once:
  assumes "inbox_inv s" "times_ok t es"
  shows "openings k ts es (inbox_gates C CJ J show_addr me es s) \<le> 1"
  by (rule opened_once) (use assms in \<open>auto simp: inbox_inv_def\<close>)

theorem let_in_once_witness:
  "openings (en_signature (demo_sealed alice bob [1])) 100 [(demo_eio, demo_sealed alice bob [1]), (demo_eio, demo_sealed alice bob [1])]
    (inbox_gates demo_crypto demo_cards demo_json demo_show bob [(demo_eio, demo_sealed alice bob [1]), (demo_eio, demo_sealed alice bob [1])]
      (demo_state alice [])) \<le> 1"
  by (rule let_in_once [where t = 0]) (use demo_db_inv [of "[]" alice] demo_rt_inv in
    \<open>simp_all add: inbox_inv_def outbox_inv_def demo_state_def keys_distinct_def demo_eio_def\<close>)

text \<open>A clock that is set back undoes this: the cache has dropped the signature at the later time, and lets it in again at the earlier one.\<close>

lemma clock_back_opens_again:
  assumes "abs_diff64 t1 ts \<le> MAX_REPLAY_WINDOW_SECS" "abs_diff64 t2 ts2 \<le> MAX_REPLAY_WINDOW_SECS" "saturating_sub64 t2 ts > MAX_REPLAY_WINDOW_SECS"
    "cr_sha256 C sig \<noteq> cr_sha256 C sig2"
  shows "case check_and_insert C sig ts t1 [] of (b1, c1) \<Rightarrow> case check_and_insert C sig2 ts2 t2 c1 of (b2, c2) \<Rightarrow>
    case check_and_insert C sig ts t1 c2 of (b3, c3) \<Rightarrow> b1 \<and> b2 \<and> b3"
  using assms by (auto simp: check_and_insert_def map_put.simps Let_def not_less)



text \<open>C6. Nothing that the cascade sends has the payload in the clear: every STORE, every TCP packet and every mailbox carries
  the envelope that is sealed for the recipient's identifier under the key found for the recipient, and a probe carries its nonce. That key
  is the one of the recipient's contact, when this is usable, or else the one of the card that discovery answered with.\<close>

theorem only_sealed_sent:
  assumes "try_deliver_payload C CJ J parse show_addr io self me u p db rt = Done (out, sent, db', rt')" "x \<in> set sent"
  shows "\<exists>rid k b e. id_from_hex u = Done (Ok rid) \<and>
    ((\<exists>c. map_of (db_contacts db) u = Some c \<and> \<not> contact_unusable c \<and> hex_decode (sc_x25519_pub_hex c) = Done (Some k)) \<or>
     (\<exists>crd. fst (discover_peer C CJ show_addr (dl_instant io) (dl_found io) db rt) = Ok crd \<and> pc_x25519_pub crd = k)) \<and>
    length k = 32 \<and> mj_write J p = Some b \<and>
    encrypt_envelope C (dl_seed io) (dl_nonce io) (dl_seal_time io) me rid k b = Some e \<and>
    (case x of SendStore a key v \<Rightarrow> v = single_envelope J e
      | SendTcp a pkt \<Rightarrow> \<exists>i self' key. pkt = tcp_store_packet i self' key (single_envelope J e)
      | SendProbe a d \<Rightarrow> d = hp_probe (dl_punch_nonce io)
      | SendPut key v \<Rightarrow> \<exists>es. mj_write_list J (mailbox_with e es) = Some v)"
  using only_sealed_leaves [OF assms] unfolding sealed_send_def recipient_key_def .

theorem only_sealed_sent_witness:
  "\<exists>rid k b e. id_from_hex (user_id_hex bob) = Done (Ok rid) \<and>
    ((\<exists>c. map_of (db_contacts (demo_db bob [])) (user_id_hex bob) = Some c \<and> \<not> contact_unusable c \<and> hex_decode (sc_x25519_pub_hex c) = Done (Some k)) \<or>
     (\<exists>crd. fst (discover_peer demo_crypto demo_cards demo_show 0 (Some (Some [6])) (demo_db bob []) (rt_new (NodeId []))) = Ok crd \<and> pc_x25519_pub crd = k)) \<and>
    length k = 32 \<and> mj_write demo_json (message_payload demo_message) = Some b \<and>
    encrypt_envelope demo_crypto (replicate 32 9) (replicate 12 7) 100 alice rid k b = Some e \<and>
    single_envelope demo_json (demo_sealed alice bob [1]) = single_envelope demo_json e"
proof -
  let ?a = "SockV4 0x0A000002 4000" and ?v = "single_envelope demo_json (demo_sealed alice bob [1])"
  have d: "try_deliver_payload demo_crypto demo_cards demo_json demo_parse demo_show (demo_io True) (NodeId []) alice (user_id_hex bob)
      (message_payload demo_message) (demo_db bob []) (rt_new (NodeId [])) = Done (Ok (DirectUdp ?a),
        [SendStore ?a (mailbox_id demo_crypto (demo_io True) (user_id_hex bob)) ?v], demo_db bob [], rt_new (NodeId []))"
    by (rule demo_delivery)
  from only_sealed_sent [OF d, of "SendStore ?a (mailbox_id demo_crypto (demo_io True) (user_id_hex bob)) ?v"]
  show ?thesis by simp
qed

text \<open>C7. The cascade reports a route only if it was taken: an address named for UDP is one that was tried and acknowledged, one named for TCP has
  a bridge (its port is 8444, or it is a loopback address) and acknowledged over it, a punched one is one of the candidates that returned
  the nonce and acknowledged when it was asked in their order, and a mailbox was written with what was found in it and the envelope. It fails
  only when no address acknowledged over UDP or its bridge, no punched address acknowledged, and the mailbox could not be put or its
  envelopes could not be written as JSON.\<close>

theorem cascade_outcome:
  assumes "send_envelope C J io self u addrs cs e = (out, sent)" "length (dl_punch_nonce io) = 16"
  shows "\<exists>ps. distinct ps \<and> set ps = {a \<in> set cs. (HP_ACK @ dl_punch_nonce io, a) \<in> set (dl_punch_replies io)} \<and> (case out of
      Inr (DirectUdp a) \<Rightarrow> \<exists>i < length addrs. addrs ! i = a \<and> da_acked (dl_direct io i) \<and> SendStore a (mailbox_id C io u) (single_envelope J e) \<in> set sent
    | Inr (DirectTcp a) \<Rightarrow> \<exists>i < length addrs. addrs ! i = a \<and> has_bridge a \<and> da_tcp (dl_direct io i) = TcpAcked \<and>
        SendTcp a (tcp_store_packet (da_tcp_id (dl_direct io i)) self (mailbox_id C io u) (single_envelope J e)) \<in> set sent
    | Inr (HolePunched a) \<Rightarrow> \<exists>i < length ps. ps ! i = a \<and> dl_punch_acked io i \<and> SendStore a (mailbox_id C io u) (single_envelope J e) \<in> set sent
    | Inr InMailbox \<Rightarrow> dl_put_ok io \<and> (\<exists>v. mj_write_list J (mailbox_with e (mailbox_found J io)) = Some v \<and>
        SendPut (derive_secure_mailbox_key C u (dl_deposit_time io)) v \<in> set sent)
    | Inl err \<Rightarrow> err = OtherError DepositFailed \<and>
        (\<forall>i < length addrs. \<not> da_acked (dl_direct io i) \<and> \<not> (has_bridge (addrs ! i) \<and> da_tcp (dl_direct io i) = TcpAcked)) \<and>
        (\<forall>i < length ps. \<not> dl_punch_acked io i) \<and> (dl_put_ok io \<longrightarrow> mj_write_list J (mailbox_with e (mailbox_found J io)) = None))"
  by (rule exI [of _ "punched_addrs io cs"])
    (intro conjI punched_addrs_facts [OF assms(2)] send_envelope_outcome [OF assms(1), unfolded direct_silent_def])

theorem cascade_outcome_witness:
  "\<exists>i < length [SockV4 1 1, SockV4 2 2]. [SockV4 1 1, SockV4 2 2] ! i = SockV4 1 1 \<and> da_acked (dl_direct (demo_io True) i)"
proof -
  obtain sent where s: "send_envelope demo_crypto demo_json (demo_io True) (NodeId []) ''u'' [SockV4 1 1, SockV4 2 2] [] (demo_sealed alice bob [1]) =
      (Ok (DirectUdp (SockV4 1 1)), sent)" by (simp add: send_envelope_def)
  from cascade_outcome [OF s] show ?thesis by auto
qed

text \<open>C8. An envelope that was put into the mailbox of a day is in a batch that the recipient fetches, on that day or one of the
  six days after it, at the latest at the next turn whose number is a multiple of sixty, as long as the network gives back what
  was put; the batch has at most thirty envelopes.\<close>

theorem deposit_is_fetched:
  assumes "msg_json_ok J" "deposit_envelope_to_mailbox C J ts found ok (user_id_hex r) e = (True, sent)"
    and "case found of None \<Rightarrow> True | Some b \<Rightarrow> \<not> list_ex (\<lambda>x. en_signature x = en_signature e \<and> en_timestamp x = en_timestamp e) (parse_mailbox J b)"
    and "unat tick mod 60 = 0" "unat ts div 86400 \<le> unat now div 86400" "unat now div 86400 \<le> unat ts div 86400 + 6"
    and "\<And>k v. SendPut k v \<in> set sent \<Longrightarrow> k \<in> set (polling_keys C (user_id_hex r) tick now) \<Longrightarrow> (k, Some v) \<in> set fetched"
  shows "\<exists>k es. (Some k, es) \<in> set (fetch_batches J fetched direct) \<and> e \<in> set es \<and> length es \<le> MAILBOX_CAP"
  by (rule deposit_fetched [OF assms])

theorem deposit_is_fetched_witness:
  "\<exists>k es. (Some k, es) \<in> set (fetch_batches demo_json (map (\<lambda>k. (k, Some [4])) (polling_keys demo_crypto (user_id_hex bob) 60 500000)) None) \<and>
    demo_sealed alice bob [1] \<in> set es \<and> length es \<le> MAILBOX_CAP"
proof (rule deposit_is_fetched [OF demo_json_ok, where ts = 100 and found = None and ok = True])
  show "deposit_envelope_to_mailbox demo_crypto demo_json 100 None True (user_id_hex bob) (demo_sealed alice bob [1]) =
      (True, [SendPut (derive_secure_mailbox_key demo_crypto (user_id_hex bob) 100) [4]])"
    using demo_writes(4) by (simp add: deposit_envelope_to_mailbox_def mailbox_with_def Let_def)
qed auto

section \<open>Who can change what\<close>

text \<open>C9. An envelope leaves the content of every message that its sender did not write as it was, text, attachments and all, whatever its
  payload is: an edit, a deletion, a reaction, a receipt; only reactions and the delivery mark may change. The one exception is a payload that
  is no edit, names the identifier of that message, and is stored and acknowledged as a new message in its place.\<close>

theorem others_content_kept:
  assumes "db_inv (ib_db s)" "process_envelope C CJ J show_addr io me e s = (g, s', ev, ack)" "m \<in> set (db_messages (ib_db s))"
    "sm_sender m \<noteq> sender_hex e"
  shows "(\<exists>m' \<in> set (db_messages (ib_db s')). m' = m\<lparr>sm_reactions := sm_reactions m', sm_delivered := sm_delivered m'\<rparr>) \<or>
    (\<exists>p. g = Opened p \<and> ack = Some (sender_hex e, sm_id m) \<and> incoming_id e p = sm_id m \<and> \<not> (cp_is_edited p \<and> cp_id p \<noteq> []) \<and>
       incoming_message me e p \<in> set (db_messages (ib_db s')))"
  using others_keep_content [OF assms] unfolding same_content_def .

theorem others_content_kept_witness:
  "\<exists>g s' ev ack. process_envelope demo_crypto demo_cards demo_json demo_show demo_eio alice (demo_sealed bob alice [2]) (demo_state bob [demo_message]) =
      (g, s', ev, ack) \<and> (\<exists>m' \<in> set (db_messages (ib_db s')).
        m' = demo_message\<lparr>sm_reactions := sm_reactions m', sm_delivered := sm_delivered m'\<rparr>)"
proof -
  obtain s' where p: "process_envelope demo_crypto demo_cards demo_json demo_show demo_eio alice (demo_sealed bob alice [2]) (demo_state bob [demo_message]) =
      (Opened demo_receipt, s', [EvDelivered ''m1'' (user_id_hex bob)], None)" using demo_receipt_arrives by blast
  have d: "db_inv (ib_db (demo_state bob [demo_message]))" by (rule demo_db_inv) (simp_all add: demo_message_def own_message_def)
  have m: "demo_message \<in> set (db_messages (ib_db (demo_state bob [demo_message])))" by (simp add: demo_state_def demo_db_def)
  have a: "sm_sender demo_message \<noteq> sender_hex (demo_sealed bob alice [2])"
    using demo_ids_differ(2) by (simp add: demo_sealed_sender demo_message_def own_message_def user_id_hex_def [symmetric])
  from others_content_kept [OF d p m a] p show ?thesis by blast
qed

text \<open>C10. The exception is real: a plain message replaces any stored message whose identifier it takes, whoever wrote that one,
  though edits and deletions are limited to the author; the new text then stands under the attacker's name.\<close>

theorem plain_message_overwrites:
  assumes "db_inv (ib_db s)" "find_message i (ib_db s) = Some m" "sm_sender m \<noteq> sender_hex e" "i \<noteq> []"
    "\<not> is_tombstoned (sender_hex e) i (ib_db s)"
  shows "\<exists>s' ev m'. handle_payload C CJ J show_addr io me e (empty_payload\<lparr>cp_id := i, cp_text := x\<rparr>) s = (s', ev, Some (sender_hex e, i)) \<and>
    find_message i (ib_db s') = Some m' \<and> sm_text m' = x \<and> sm_sender m' = sender_hex e \<and> sm_sender m' \<noteq> sm_sender m"
  using plain_overwrites [OF assms(1,2,4,5), of C CJ J show_addr io me x] assms(3)
  by (auto simp: plain_payload_def incoming_message_def)

theorem plain_message_overwrites_witness:
  "\<exists>s' ev m'. handle_payload demo_crypto demo_cards demo_json demo_show demo_eio bob (demo_sealed mallory bob [1]) (empty_payload\<lparr>cp_id := ''m1'', cp_text := ''no''\<rparr>)
      (demo_state alice [demo_message]) = (s', ev, Some (sender_hex (demo_sealed mallory bob [1]), ''m1'')) \<and>
    find_message ''m1'' (ib_db s') = Some m' \<and> sm_text m' = ''no'' \<and> sm_sender m' = sender_hex (demo_sealed mallory bob [1]) \<and>
    sm_sender m' \<noteq> sm_sender demo_message"
proof (rule plain_message_overwrites)
  show "db_inv (ib_db (demo_state alice [demo_message]))" by (rule demo_db_inv) (simp_all add: demo_message_def own_message_def)
  show "sm_sender demo_message \<noteq> sender_hex (demo_sealed mallory bob [1])"
    using demo_ids_differ(4) by (simp add: demo_sealed_sender demo_message_def own_message_def user_id_hex_def [symmetric])
qed (simp_all add: find_message_def demo_message_def own_message_def demo_state_def demo_db_def is_tombstoned_def db_default_def)

text \<open>A message that was edited before it was delivered can not be delivered any more after a restart: the start queues it
  as it stands, the recipient takes it for an edit of a message that it does not have and drops it, without storing and
  without acknowledging.\<close>

theorem edited_message_lost:
  assumes "crypto_ok C" "identity_ok C a" "identity_ok C b" "length nonce = 12" "msg_json_ok J"
    "mj_write J (message_payload m) = Some raw" "sm_id m \<noteq> []" "sm_is_edited m" "db_messages dba = [m]" "\<not> sm_incoming m" "\<not> sm_delivered m"
    "sm_recipient m = user_id_hex b" "user_id_hex b \<noteq> user_id_hex a" "user_id_hex b \<noteq> SELF_SAVED"
    "encrypt_envelope C seed nonce now a (ui_user_id b) (ui_x25519_public b) raw = Some e" "find_message (sm_id m) (ib_db s) = None"
  shows "(\<exists>q \<in> set (restore_outbox t (user_id_hex a) dba). qm_message q = m) \<and>
    (\<exists>g s'. process_envelope C CJ J show_addr io b e s = (g, s', [], None) \<and> ib_db s' = ib_db s)"
  using restored_edited [OF assms(9-11)] edited_unsent_lost [OF assms(1-8,15,16)] assms(12-14) by auto

theorem edited_message_lost_witness:
  "(\<exists>q \<in> set (restore_outbox 130 (user_id_hex alice) (demo_db bob [demo_edited])). qm_message q = demo_edited) \<and>
    (\<exists>g s'. process_envelope demo_crypto demo_cards demo_json demo_show demo_eio bob (demo_sealed alice bob [3]) (demo_state alice []) =
      (g, s', [], None) \<and> ib_db s' = ib_db (demo_state alice []))"
proof (rule edited_message_lost [OF demo_crypto_ok demo_identities(1,2) _ demo_json_ok demo_writes(3)])
  show "encrypt_envelope demo_crypto (replicate 32 9) (replicate 12 7) 100 alice (ui_user_id bob) (ui_x25519_public bob) [3] =
    Some (demo_sealed alice bob [3])" by (rule demo_seals)
  show "user_id_hex bob \<noteq> user_id_hex alice" "user_id_hex bob \<noteq> SELF_SAVED" using demo_ids_differ by simp_all
qed (simp_all add: find_message_def demo_edited_def demo_message_def own_message_def demo_state_def demo_db_def db_default_def)

text \<open>C11. When the network answers for the presence of a user with the valid card of somebody else, everything that is sent to
  the user is sealed for that somebody, who can read it: the card is never compared with the user it was looked up for.\<close>

theorem substituted_card_reads:
  assumes "crypto_ok C" "identity_ok C me" "identity_ok C other" "length (dl_nonce io) = 12"
    and "dl_found io = Some (Some v)" "cj_read CJ v = Some crd" "presence_verify C CJ crd = Ok ()"
      "pc_ed25519_pub crd = ui_verifying_key other" "pc_x25519_pub crd = ui_x25519_public other"
    and "id_from_hex u = Done (Ok rid)" "map_of (db_contacts db) u = None"
    and "try_deliver_payload C CJ J parse show_addr io self me u p db rt = Done (out, sent, db', rt')" "x \<in> set sent"
  shows "\<exists>b e k. mj_write J p = Some b \<and> en_recipient_id e = rid \<and> sealed_send J (dl_punch_nonce io) e x \<and>
    en_ephemeral_pub e = Some k \<and> open_ephemeral C other e k = Ok b"
  by (rule card_substitution [OF assms])

theorem substituted_card_reads_witness:
  "\<exists>x out sent db' rt'. try_deliver_payload demo_crypto demo_cards demo_json demo_parse demo_show (demo_io True) (NodeId []) alice (user_id_hex bob)
     (message_payload demo_message) db_default (rt_new (NodeId [])) = Done (out, sent, db', rt') \<and> x \<in> set sent \<and>
    (\<exists>b e k. mj_write demo_json (message_payload demo_message) = Some b \<and> en_recipient_id e = ui_user_id bob \<and>
      sealed_send demo_json (dl_punch_nonce (demo_io True)) e x \<and> en_ephemeral_pub e = Some k \<and> open_ephemeral demo_crypto mallory e k = Ok b)"
proof -
  obtain x out sent db' rt' where d: "try_deliver_payload demo_crypto demo_cards demo_json demo_parse demo_show (demo_io True) (NodeId []) alice
      (user_id_hex bob) (message_payload demo_message) db_default (rt_new (NodeId [])) = Done (out, sent, db', rt')" "x \<in> set sent"
    using demo_wrong_card by blast
  have i: "id_from_hex (user_id_hex bob) = Done (Ok (ui_user_id bob))"
    using id_hex_roundtrip [OF identity_wf [OF demo_crypto_ok demo_identities(2)]] by (simp add: user_id_hex_def)
  from substituted_card_reads [OF demo_crypto_ok demo_identities(1,3) _ _ _ demo_card_valid _ _ i _ d] d show ?thesis
    by (simp add: demo_cards_def demo_card_def db_default_def) blast
qed

text \<open>C12. The polling task reports a message as delivered only when the envelope it opened brings a receipt for exactly that message: the payload
  names the message and carries, over its identifier and a time, the signature of the key in the envelope, whose hash is the sender of the
  envelope and the one the message was sent to. With the report the message gets its delivery mark and leaves the outbox, and nothing else
  changes there. (Notes to oneself and group messages are marked when they are sent, files and voice notes when the transport took them, without a receipt.)\<close>

theorem delivered_only_by_recipient:
  assumes "process_envelope C CJ J show_addr io me e s = (g, s', ev, ack)" "EvDelivered i u \<in> set ev"
  shows "u = sender_hex e \<and> en_sender_id e = from_key (cr_sha1 C) (en_ed25519_pub e) \<and>
    (\<exists>m \<in> set (db_messages (ib_db s)). sm_id m = i \<and> sm_recipient m = u \<and> \<not> sm_incoming m) \<and>
    (\<exists>p r. g = Opened p \<and> cp_delivery p = Some r \<and> dv_message_id r = i \<and>
       identity_verify C (en_ed25519_pub e) (delivery_bytes i (dv_timestamp r)) (dv_signature r)) \<and>
    ib_db s' = mark_message_delivered i (ib_db s) \<and> ib_queue s' = queue_mark_delivered i (ib_queue s) \<and> ev = [EvDelivered i u]"
  using delivered_by_recipient [OF assms] by (auto simp: delivery_receipt_verify_def)

theorem delivered_only_by_recipient_witness:
  "user_id_hex bob = sender_hex (demo_sealed bob alice [2]) \<and>
    en_sender_id (demo_sealed bob alice [2]) = from_key (cr_sha1 demo_crypto) (en_ed25519_pub (demo_sealed bob alice [2])) \<and>
    (\<exists>r. cp_delivery demo_receipt = Some r \<and> dv_message_id r = ''m1'' \<and>
       identity_verify demo_crypto (en_ed25519_pub (demo_sealed bob alice [2])) (delivery_bytes ''m1'' (dv_timestamp r)) (dv_signature r))"
proof -
  obtain s' where "process_envelope demo_crypto demo_cards demo_json demo_show demo_eio alice (demo_sealed bob alice [2]) (demo_state bob [demo_message]) =
      (Opened demo_receipt, s', [EvDelivered ''m1'' (user_id_hex bob)], None)" using demo_receipt_arrives by blast
  from delivered_only_by_recipient [OF this, of "''m1''" "user_id_hex bob"] show ?thesis by auto
qed

text \<open>C13. A message that was deleted stays deleted, whatever is done to the database afterwards short of wiping all data: adding it again, editing
  it or reacting to it do not bring it back. After a wipe, which forgets the deletions too, a message with that identifier can be stored again.\<close>

theorem deleted_stays_gone:
  assumes "db_inv db" "list_all db_op_ok ops"
  shows "(DbWipe \<notin> set ops \<longrightarrow> find_message i (fold db_step ops (db_delete_message i db)) = None) \<and>
    (\<forall>m. sm_id m = i \<longrightarrow> find_message i (fold db_step (ops @ [DbWipe, DbAddMessage m]) (db_delete_message i db)) = Some m)"
proof
  have "i \<in> set (db_deleted (db_delete_message i db))" "db_inv (db_delete_message i db)"
    using db_sys.step_inv [OF _ assms(1), of "DbDelete i"] by (simp_all add: db_delete_message_def mark_deleted_def)
  then show "DbWipe \<notin> set ops \<longrightarrow> find_message i (fold db_step ops (db_delete_message i db)) = None"
    using deleted_stays_deleted assms(2) by blast
qed (use wiped_comes_back in blast)

theorem deleted_stays_gone_witness:
  "find_message ''m1'' (fold db_step [DbAddMessage demo_message, DbEdit ''m1'' ''back'' 5] (db_delete_message ''m1'' (demo_db bob [demo_message]))) = None"
proof -
  have "db_inv (demo_db bob [demo_message])" using demo_db_inv [of "[demo_message]" bob] by (simp add: demo_state_def demo_message_def own_message_def)
  moreover have "list_all db_op_ok [DbAddMessage demo_message, DbEdit ''m1'' ''back'' 5]"
    by (simp add: demo_message_def own_message_def reactions_ok_def reacted_def keys_distinct_def)
  ultimately have "DbWipe \<notin> set [DbAddMessage demo_message, DbEdit ''m1'' ''back'' 5] \<longrightarrow>
      find_message ''m1'' (fold db_step [DbAddMessage demo_message, DbEdit ''m1'' ''back'' 5] (db_delete_message ''m1'' (demo_db bob [demo_message]))) = None"
    by (rule deleted_stays_gone [THEN conjunct1])
  then show ?thesis by simp
qed

text \<open>C14. Deleting the messages of an author by their identifiers, one removal at an index after the other, is the same as
  keeping those that are of another author or were not named; it reports the identifiers that were removed.\<close>

theorem deletion_is_filter:
  assumes "distinct (map sm_id (db_messages db))" "delete_messages_by_author is u db = (removed, db')"
  shows "db_messages db' = filter (\<lambda>m. \<not> (sm_id m \<in> set is \<and> sm_sender m = u)) (db_messages db) \<and>
    set removed = sm_id ` {m \<in> set (db_messages db). sm_id m \<in> set is \<and> sm_sender m = u}"
proof -
  note f = delete_by_author_facts [OF assms]
  have s: "set removed = sm_id ` {m \<in> set (db_messages db). sm_id m \<in> set is \<and> sm_sender m = u}" using f by auto
  have "sm_id m \<notin> set removed \<longleftrightarrow> \<not> (sm_id m \<in> set is \<and> sm_sender m = u)" if "m \<in> set (db_messages db)" for m
    using that assms(1) unfolding s by (auto simp: distinct_map dest: inj_onD)
  then have "filter (\<lambda>m. sm_id m \<notin> set removed) (db_messages db) = filter (\<lambda>m. \<not> (sm_id m \<in> set is \<and> sm_sender m = u)) (db_messages db)"
    by (intro filter_cong) auto
  then show ?thesis using f s by metis
qed


theorem deletion_is_filter_witness:
  "set (fst (delete_messages_by_author [''m2'', ''m3''] (user_id_hex alice) (demo_db bob [demo_message, demo_message\<lparr>sm_id := ''m2''\<rparr>]))) = {''m2''}"
proof -
  let ?m = "demo_message\<lparr>sm_id := ''m2''\<rparr>" and ?db = "demo_db bob [demo_message, demo_message\<lparr>sm_id := ''m2''\<rparr>]"
  have m: "db_messages ?db = [demo_message, ?m]" "sm_id demo_message = ''m1''" "sm_id ?m = ''m2''" "sm_sender ?m = user_id_hex alice"
    by (simp_all add: demo_db_def demo_message_def own_message_def)
  obtain removed db' where d: "delete_messages_by_author [''m2'', ''m3''] (user_id_hex alice) ?db = (removed, db')" by fastforce
  have "distinct (map sm_id (db_messages ?db))" using m by simp
  from deletion_is_filter [OF this d]
  have r: "set removed = sm_id ` {x \<in> set (db_messages ?db). sm_id x \<in> set [''m2'', ''m3''] \<and> sm_sender x = user_id_hex alice}" by blast
  have "{x \<in> set (db_messages ?db). sm_id x \<in> set [''m2'', ''m3''] \<and> sm_sender x = user_id_hex alice} = {?m}"
    unfolding m(1) using m(2-4) by fastforce
  then show ?thesis using r m(3) d by simp
qed

section \<open>Across restarts\<close>

text \<open>C15. A messenger that was started from its database file, with a mnemonic and messages with different identifiers, is after a restart the same
  user with the same messages, and the first hundred of its own messages to others that are not delivered, in the order of the database,
  are queued again to be tried at once, each for its recipient; provided that the key file and the key cache agreed when it started,
  and that it could save the database then.\<close>

theorem restart_keeps_all:
  assumes "crypto_ok C" "db_json_ok DJ" "length (so_salt io) = 16" "length (so_nonce io) = 12" "length (so_save_rnd io) = 32"
    and "messenger_start C M DJ io_fine io p canon name rt files = (Ok (me, s), files')"
    and "\<exists>k. keys_agree p canon (snd (load_from_file C DJ io_fine (so_load_rnd io) p canon files)) k"
    and "fst (save_to_file C DJ io_fine (so_save_rnd io) (so_salt io) (so_nonce io) (so_instant io) p canon (ib_db s)
      (snd (load_from_file C DJ io_fine (so_load_rnd io) p canon files))) = Ok ()"
    and "db_mnemonic (ib_db s) \<noteq> []" "distinct (map sm_id (db_messages (ib_db s)))"
  shows "\<exists>s' files''. messenger_start C M DJ io_fine io' p canon name' rt' (restarted files') = (Ok (me, s'), files'') \<and>
    db_messages (ib_db s') = db_messages (ib_db s) \<and> db_mnemonic (ib_db s') = db_mnemonic (ib_db s) \<and>
    ib_queue s' = map (\<lambda>m. \<lparr>qm_message = m, qm_recipient = sm_recipient m, qm_attempts = 0, qm_status = MsSending, qm_next_retry_at = so_now io'\<rparr>)
      (take MAX_QUEUED_MESSAGES (filter (\<lambda>m. \<not> sm_incoming m \<and> \<not> sm_delivered m \<and> sm_recipient m \<noteq> SELF_SAVED \<and> sm_recipient m \<noteq> user_id_hex me)
        (db_messages (ib_db s))))"
  using restart_keeps [OF assms] unfolding waiting_messages_def fresh_entry_def .

theorem restart_keeps_all_witness:
  "\<exists>me s files' s' files''. messenger_start demo_crypto demo_words demo_db_json io_fine demo_start ''db'' ''/db'' ''alice'' (rt_new (NodeId [])) no_files =
      (Ok (me, s), files') \<and> messenger_start demo_crypto demo_words demo_db_json io_fine demo_start ''db'' ''/db'' ''other'' (rt_new (NodeId []))
      (restarted files') = (Ok (me, s'), files'') \<and> db_mnemonic (ib_db s') = ''twelve words''"
proof -
  let ?f = "snd (save_to_file demo_crypto demo_db_json io_fine (replicate 32 6) (replicate 16 5) (replicate 12 4) 0 ''db'' ''/db'' demo_started no_files)"
  obtain s where s: "ib_db s = demo_started" "messenger_start demo_crypto demo_words demo_db_json io_fine demo_start ''db'' ''/db'' ''alice'' (rt_new (NodeId [])) no_files =
      (Ok (alice, s), ?f)" using demo_first_start by blast
  have l: "load_from_file demo_crypto demo_db_json io_fine (so_load_rnd demo_start) ''db'' ''/db'' no_files = (Ok db_default, no_files)"
    by (simp add: load_from_file_def no_files_def)
  have k: "keys_agree ''db'' ''/db'' no_files (replicate 32 6)" by (simp add: keys_agree_def no_files_def)
  have w: "fst (save_to_file demo_crypto demo_db_json io_fine (replicate 32 6) (replicate 16 5) (replicate 12 4) 0 ''db'' ''/db'' demo_started no_files) = Ok ()"
    by (rule demo_saves)
  have m: "db_mnemonic demo_started = ''twelve words''" by (simp add: demo_started_def started_db_def Let_def)
  from restart_keeps_all [OF demo_crypto_ok demo_db_json_ok _ _ _ s(2), where io' = demo_start and name' = "''other''" and rt' = "rt_new (NodeId [])"]
  obtain s' files'' where "messenger_start demo_crypto demo_words demo_db_json io_fine demo_start ''db'' ''/db'' ''other'' (rt_new (NodeId [])) (restarted ?f) =
      (Ok (alice, s'), files'')" "db_mnemonic (ib_db s') = ''twelve words''"
    using s(1) k w m l by (auto simp: demo_start_def demo_started_def started_db_fields db_default_def)
  then show ?thesis using s(2) by blast
qed

text \<open>C16. Every identity that a start takes is well typed: its identifier is the hash of its verifying key and has twenty bytes, its
  keys have thirty-two, the text of its identifier reads back, and every envelope it seals has the shape that a recipient
  asks for.\<close>

theorem identity_well_typed:
  assumes "crypto_ok C" "choose_identity C M entropy seed db = Ok (me, mn)"
  shows "wf_id (ui_user_id me) \<and> ui_user_id me = from_key (cr_sha1 C) (ui_verifying_key me) \<and> length (ui_verifying_key me) = 32 \<and>
    length (ui_x25519_public me) = 32 \<and> id_from_hex (user_id_hex me) = Done (Ok (ui_user_id me)) \<and>
    (\<forall>eph nonce now rid rx p e. length nonce = 12 \<and> encrypt_envelope C eph nonce now me rid rx p = Some e \<longrightarrow>
      envelope_shaped e \<and> en_sender_id e = ui_user_id me)"
proof -
  have i: "identity_ok C me" by (rule chosen_identity_ok [OF assms(2)])
  have w: "wf_id (ui_user_id me)" by (rule identity_wf [OF assms(1) i])
  have l: "length (ui_verifying_key me) = 32" "length (ui_x25519_public me) = 32" using i crypto_lengths [OF assms(1)] by (simp_all add: identity_ok_def)
  have "envelope_shaped e \<and> en_sender_id e = ui_user_id me"
    if "length nonce = 12" "encrypt_envelope C eph nonce now me rid rx p = Some e" for eph nonce now rid rx p e
    using that l crypto_lengths [OF assms(1)]
    by (auto simp: encrypt_envelope_def Let_def envelope_shaped_def identity_sign_def split: option.splits)
  then show ?thesis using i w l id_hex_roundtrip [OF w] by (auto simp: identity_ok_def user_id_hex_def)
qed

theorem identity_well_typed_witness:
  "wf_id (ui_user_id alice) \<and> length (ui_verifying_key alice) = 32 \<and> id_from_hex (user_id_hex alice) = Done (Ok (ui_user_id alice))"
proof -
  have "choose_identity demo_crypto demo_words [] [] (db_default\<lparr>db_user_seed := replicate 32 1\<rparr>) = Ok (alice, None)"
    by (simp add: choose_identity_def alice_def db_default_def)
  from identity_well_typed [OF demo_crypto_ok this] show ?thesis by blast
qed

text \<open>C17. Wiping a database whose path is not its canonical path loses the next one: the key cache keeps the old key under the
  canonical path, later saves are sealed with it, and after a restart the file is opened with the new key from the key file.\<close>

theorem wiped_database_lost:
  assumes "crypto_ok C" "db_json_ok J" "length rnd = 32" "length salt = 16" "length nonce = 12" "p \<noteq> canon"
    and "map_of (df_cache s) canon = Some old"
    and "save_to_file C J io_fine rnd salt1 nonce1 now1 p canon db1 (wipe_files True True p canon s) = (Ok (), s1)"
    and "save_to_file C J io_fine rnd2 salt nonce now2 p canon db2 s1 = (Ok (), s2)"
  shows "\<exists>ct. df_db s2 = Some (db_bytes salt nonce ct) \<and> decrypt_db_bytes C J old (db_bytes salt nonce ct) = Ok db2 \<and>
    fst (load_from_file C J io_fine rnd3 p canon (restarted s2)) =
      (case cr_open C (derive_cipher_key C rnd salt) nonce [] ct of None \<Rightarrow> Err DecryptFailed
       | Some pt \<Rightarrow> (case dj_read J pt of None \<Rightarrow> Err ParseFailed | Some db \<Rightarrow> Ok db))"
  by (rule wiped_then_lost [OF assms])

theorem wiped_database_lost_witness:
  "\<exists>s1 s2 ct. save_to_file demo_crypto demo_db_json io_fine (replicate 32 6) (replicate 16 5) (replicate 12 4) 0 ''db'' ''/db'' demo_started
      (wipe_files True True ''db'' ''/db'' used_files) = (Ok (), s1) \<and>
    save_to_file demo_crypto demo_db_json io_fine (replicate 32 6) (replicate 16 5) (replicate 12 4) 0 ''db'' ''/db'' demo_started s1 = (Ok (), s2) \<and>
    df_db s2 = Some (db_bytes (replicate 16 5) (replicate 12 4) ct) \<and>
    fst (load_from_file demo_crypto demo_db_json io_fine [] ''db'' ''/db'' (restarted s2)) = Err DecryptFailed"
proof -
  obtain s1 s2 where s: "save_to_file demo_crypto demo_db_json io_fine (replicate 32 6) (replicate 16 5) (replicate 12 4) 0 ''db'' ''/db'' demo_started
      (wipe_files True True ''db'' ''/db'' used_files) = (Ok (), s1)"
    "save_to_file demo_crypto demo_db_json io_fine (replicate 32 6) (replicate 16 5) (replicate 12 4) 0 ''db'' ''/db'' demo_started s1 = (Ok (), s2)"
    using demo_wiped_saves by blast
  obtain ct where ct: "df_db s2 = Some (db_bytes (replicate 16 5) (replicate 12 4) ct)"
    "decrypt_db_bytes demo_crypto demo_db_json (replicate 32 1) (db_bytes (replicate 16 5) (replicate 12 4) ct) = Ok demo_started"
    "fst (load_from_file demo_crypto demo_db_json io_fine [] ''db'' ''/db'' (restarted s2)) =
      (case cr_open demo_crypto (derive_cipher_key demo_crypto (replicate 32 6) (replicate 16 5)) (replicate 12 4) [] ct of None \<Rightarrow> Err DecryptFailed
       | Some pt \<Rightarrow> (case dj_read demo_db_json pt of None \<Rightarrow> Err ParseFailed | Some db \<Rightarrow> Ok db))"
    using wiped_database_lost [OF demo_crypto_ok demo_db_json_ok _ _ _ _ _ s, of "replicate 32 1" "[]"] by (auto simp: used_files_def)
  have o: "cr_open demo_crypto k n a c = (if take 32 c = pad 32 k then Some (drop 32 c) else None)" for k n a c by (simp add: demo_crypto_def)
  have "take 32 ct = pad 32 (derive_cipher_key demo_crypto (replicate 32 1) (replicate 16 5))"
    using ct(2) by (simp add: decrypt_db_bytes_eq o split: if_splits)
  moreover have "pad 32 (derive_cipher_key demo_crypto (replicate 32 1) (replicate 16 5)) \<noteq> pad 32 (derive_cipher_key demo_crypto (replicate 32 6) (replicate 16 5))"
    by code_simp
  ultimately have "fst (load_from_file demo_crypto demo_db_json io_fine [] ''db'' ''/db'' (restarted s2)) = Err DecryptFailed" using ct(3) by (simp add: o)
  then show ?thesis using s ct(1) by blast
qed

section \<open>The outbox\<close>

text \<open>C18. However sends, receipts and the worker interleave, a message is taken out for delivery at most six times for every time
  it was queued; and one pass of the worker ends, after at most one attempt per message that was due.\<close>

theorem retries_bounded:
  assumes "unat now + 32 < 2 ^ 64" "\<forall>m \<in> set q. queued_ok m"
  shows "pops_of i ops ([], None) \<le> 6 * pushes_of i ops \<and>
    (\<exists>tried q'. outbox_pass (Suc (length (filter (retry_due now) q))) now q = Some (tried, q') \<and>
      length tried = length (filter (retry_due now) q))"
proof -
  let ?n = "length (filter (retry_due now) q)"
  have "outbox_pass (Suc ?n) now q = Some (map attempted (filter (retry_due now) q),
      filter (\<lambda>m. \<not> retry_due now m) q @ map (\<lambda>m. retried now (attempted m)) (filter (retry_due now) q))"
    by (rule outbox_pass_facts [OF assms(2,1)]) simp
  then show ?thesis using attempts_bounded [of i ops] by (metis length_map)
qed

theorem retries_bounded_witness:
  "\<exists>tried q'. outbox_pass 2 10 (queue_push 5 demo_message ''bob'' []) = Some (tried, q') \<and> length tried = 1"
proof -
  let ?q = "queue_push 5 demo_message ''bob'' []"
  have "unat (10 :: u64) + 32 < 2 ^ 64" "\<forall>m \<in> set ?q. queued_ok m"
    by (simp_all add: queue_push_def push_after_def queued_ok_def)
  note r = retries_bounded [OF this, of "''m1''" "[]"]
  have "length (filter (retry_due 10) ?q) = 1"
    by (simp add: queue_push_def push_after_def retry_due_def saturating_add64_def word_le_nat_alt)
  then show ?thesis using r by (simp add: numeral_2_eq_2)
qed

section \<open>Files, calls, images, relays\<close>

text \<open>C19. A file that was cut into encrypted chunks is put together again, whole, from these chunks in any order.\<close>

theorem file_comes_whole:
  assumes "crypto_ok C" "\<forall>i. length (nonces i) = 12" "length key = 32"
    "create_file_transfer C crc b64 r key nonces name raw thumb = Ok (m, cs)" "mset cs' = mset cs"
  shows "assemble_file_transfer C crc m cs' = Done (Ok raw)"
  by (rule file_transfer_roundtrip [OF assms])

theorem file_comes_whole_witness:
  "\<exists>m cs. create_file_transfer demo_crypto (\<lambda>b. 0) (\<lambda>b. []) 7 (replicate 32 1) (\<lambda>i. replicate 12 2) ''a.txt'' (replicate 40000 3) None = Ok (m, cs) \<and>
    assemble_file_transfer demo_crypto (\<lambda>b. 0) m (rev cs) = Done (Ok (replicate 40000 3))"
proof -
  obtain m cs where f: "create_file_transfer demo_crypto (\<lambda>b. 0) (\<lambda>b. []) 7 (replicate 32 1) (\<lambda>i. replicate 12 2) ''a.txt'' (replicate 40000 3) None = Ok (m, cs)"
    using demo_file by blast
  from file_comes_whole [OF demo_crypto_ok _ _ f, of "rev cs"] f show ?thesis by (auto)
qed

text \<open>C20. The task that receives a call hands over the frames of a stream with strictly growing numbers, whatever packets come in,
  and its table of streams keeps one entry per stream and at most 4096.\<close>

theorem call_frames_rise:
  assumes "audio_inv q"
  shows "keys_distinct (snd (audio_run C me ps q)) \<and> length (snd (audio_run C me ps q)) \<le> 4096 \<and>
    sorted_wrt (<) (map ae_seq (filter (\<lambda>e. audio_stream e = k) (fst (audio_run C me ps q))))"
  using audio_run_facts [OF assms, of C me ps k] by (simp add: audio_inv_def rising_def MAX_AUDIO_STREAMS_def)

theorem call_frames_rise_witness:
  "length (snd (audio_run demo_crypto alice [(True, demo_db bob [], []), (True, demo_db bob [], str_bytes ''NXCA'')] [(''x:c'', 5)])) \<le> 4096"
proof -
  have "audio_inv [(''x:c'', 5)]" by (simp add: audio_inv_def keys_distinct_def MAX_AUDIO_STREAMS_def)
  from call_frames_rise [OF this] show ?thesis by blast
qed

text \<open>A contact card that was hidden in an image, with or without a password, comes out of the image again, as long as its
  ciphertext is not longer than the reader accepts.\<close>

theorem image_card_comes_out:
  assumes "crypto_ok C" "stego_io_ok S" "image_ok im" "length salt = 32" "length nonce = 12"
    and "embed_contact_into_image C S crc (Some salt) (Some nonce) im crd pw = Ok png"
    and "\<And>ct. cr_seal C (stego_key C pw salt) nonce [] (the (si_json_write S crd)) = Some ct \<Longrightarrow> length ct \<le> 1000000"
  shows "extract_contact_from_image C S crc png pw = Ok crd"
  by (rule stego_roundtrip [OF assms])

theorem image_card_comes_out_witness:
  "extract_contact_from_image demo_crypto demo_stego (\<lambda>b. 0) [1] (Some ''pw'') = Ok demo_stego_card"
proof (rule image_card_comes_out [OF demo_crypto_ok demo_stego_ok demo_picture_ok _ _ demo_embeds])
  fix ct assume "cr_seal demo_crypto (stego_key demo_crypto (Some ''pw'') (replicate 32 3)) (replicate 12 4) []
      (the (si_json_write demo_stego demo_stego_card)) = Some ct"
  then show "length ct \<le> 1000000" by (auto simp: demo_crypto_def demo_stego_def)
qed simp_all

text \<open>An onion packet of two layers opens at the relay to the next hop and an inner packet, and that opens at the
  destination to the payload.\<close>

theorem onion_two_hops:
  assumes "crypto_ok C" "\<And>h. rh_next_addr h = addr \<Longrightarrow> rh_next_id h = i \<Longrightarrow> on_ephemeral_pub (rh_inner h) = cr_x_public C (fst fr) \<Longrightarrow>
      on_nonce (rh_inner h) = snd fr \<Longrightarrow> hj_read J (hj_write J h) = Some h"
    and "build_2hop_onion C J fr rr (cr_x_public C dest) (cr_x_public C relay) addr i p = Ok pkt"
  shows "\<exists>inner. process_at_relay C J relay pkt = Ok \<lparr>rh_next_addr = addr, rh_next_id = i, rh_inner = inner\<rparr> \<and>
    process_at_destination C dest inner = Ok p"
  by (rule onion_roundtrip [OF assms])

theorem onion_two_hops_witness:
  "\<exists>pkt inner. build_2hop_onion demo_crypto demo_header (replicate 32 1, replicate 12 2) (replicate 32 3, replicate 12 4)
      (cr_x_public demo_crypto (replicate 32 5)) (cr_x_public demo_crypto (replicate 32 6)) (SockV4 1 2) (NodeId []) [7, 8] = Ok pkt \<and>
    process_at_relay demo_crypto demo_header (replicate 32 6) pkt = Ok \<lparr>rh_next_addr = SockV4 1 2, rh_next_id = NodeId [], rh_inner = inner\<rparr> \<and>
    process_at_destination demo_crypto (replicate 32 5) inner = Ok [7, 8]"
proof -
  obtain pkt where b: "build_2hop_onion demo_crypto demo_header (replicate 32 1, replicate 12 2) (replicate 32 3, replicate 12 4)
      (cr_x_public demo_crypto (replicate 32 5)) (cr_x_public demo_crypto (replicate 32 6)) (SockV4 1 2) (NodeId []) [7, 8] = Ok pkt"
    using demo_onion by blast
  from onion_two_hops [OF demo_crypto_ok _ b] b show ?thesis by (auto simp: demo_header_def)
qed

text \<open>The TCP bridge reads the packet that the cascade writes, and stores its envelope over the whole mailbox: what was
  waiting there is gone, where a STORE would have merged.\<close>

theorem bridge_overwrites:
  assumes "length (as_bytes self) = 20" "length (as_bytes key) = 20" "length val \<le> MAX_STORAGE_BYTES"
  shows "tcp_bridge (tcp_store_packet rid self key val) = Some (key, val) \<and>
    fst (tcp_bridge_turn now (tcp_store_packet rid self key val) st) = Some [4, 0] \<and>
    storage_get now key (snd (tcp_bridge_turn now (tcp_store_packet rid self key val) st)) = Some val"
proof -
  have "length val < 2 ^ 32" using assms(3) by simp
  from tcp_bridge_packet [OF assms(1,2) this] tcp_bridge_overwrites [OF assms] show ?thesis by (metis fst_conv)
qed

theorem bridge_overwrites_witness:
  "storage_get 9 (NodeId (replicate 20 2)) (snd (tcp_bridge_turn 9 (tcp_store_packet 1 (NodeId (replicate 20 1)) (NodeId (replicate 20 2)) [3])
     (storage_put 1 (NodeId (replicate 20 2)) [4, 5] 86400000000000 storage_new))) = Some [3]"
  using bridge_overwrites [of "NodeId (replicate 20 1)" "NodeId (replicate 20 2)" "[3]" 1 9] by simp

end
