(* ===== verification/Desktop_Promises.thy ===== *)
theory Desktop_Promises
  imports Desktop_Backend Desktop_Lock Messaging
begin

text \<open>
  What the desktop application promises and what it does not, from the click to the messenger: when the voice of the user leaves,
  what becomes of a message, of a file and of a group, and what the lock is worth.
\<close>

section \<open>What the effects do not depend on\<close>

text \<open>The messages that the window shows have no influence on what it asks for.\<close>

definition without_messages :: "desktop \<Rightarrow> desktop" where
  "without_messages d = d\<lparr>dk_messages := []\<rparr>"

fun same_but_content :: "desk_input \<Rightarrow> desk_input \<Rightarrow> bool" where
  "same_but_content (InFile io name raw) j = (\<exists>raw'. j = InFile io name raw' \<and> (raw = None) = (raw' = None))"
| "same_but_content i j = (j = i)"

definition wm_result :: "(desktop \<times> effect list) exec \<Rightarrow> (desktop \<times> effect list) exec" where
  "wm_result r = exec_bind r (\<lambda>(d, e). Done (without_messages d, e))"

lemma wm_result_simps [simp]: "wm_result (Done (d, e)) = Done (without_messages d, e)" "wm_result Panic = Panic"
  by (simp_all add: wm_result_def exec_bind_def)

lemma wm_fields [simp]:
  "dk_me (without_messages d) = dk_me d" "dk_name (without_messages d) = dk_name d" "dk_backend (without_messages d) = dk_backend d" "dk_contacts (without_messages d) = dk_contacts d"
  "dk_groups (without_messages d) = dk_groups d" "dk_call (without_messages d) = dk_call d" "dk_chat (without_messages d) = dk_chat d" "dk_group (without_messages d) = dk_group d"
  "dk_notify (without_messages d) = dk_notify d" "dk_confirm_delete (without_messages d) = dk_confirm_delete d" "dk_sessions (without_messages d) = dk_sessions d"
  "dk_sent (without_messages d) = dk_sent d" "dk_received (without_messages d) = dk_received d" "dk_delivered (without_messages d) = dk_delivered d"
  "dk_last_seen (without_messages d) = dk_last_seen d" "dk_toast (without_messages d) = dk_toast d"
  by (simp_all add: without_messages_def)

lemma wm_wm [simp]: "without_messages (without_messages d) = without_messages d"
  by (simp add: without_messages_def)

lemma wm_reads [simp]:
  "ask r (without_messages d) = ask r d" "active_contact (without_messages d) = active_contact d" "active_target c (without_messages d) = active_target c d"
  "active_group (without_messages d) = active_group d" "saved_shown (without_messages d) = saved_shown d" "ask_target t f (without_messages d) = ask_target t f d"
  "known_contact u (without_messages d) = known_contact u d" "has_contact u (without_messages d) = has_contact u d" "own_contact (without_messages d) = own_contact d"
  "shown_message io u x (without_messages d) = shown_message io u x d" "log_entry lio u x b (without_messages d) = log_entry lio u x b d"
  "in_call_with u i (without_messages d) = in_call_with u i d"
  by (simp_all add: ask_def active_contact_def active_target_def active_group_def saved_shown_def self_shown_def ask_target_def
      known_contact_def has_contact_def own_contact_def shown_message_def log_entry_def in_call_with_def split: option.split)

text \<open>The steps of the operations commute with it.\<close>

lemma wm_steps [simp]:
  "without_messages (add_own_contact d) = add_own_contact (without_messages d)"
  "without_messages (own_toast io x d) = own_toast io x (without_messages d)"
  "without_messages (show_own m d) = (without_messages d)\<lparr>dk_sent := dk_sent d + 1\<rparr>"
  "without_messages (d\<lparr>dk_contacts := cs\<rparr>) = (without_messages d)\<lparr>dk_contacts := cs\<rparr>"
  by (simp_all add: add_own_contact_def own_toast_def show_own_def without_messages_def has_contact_def own_contact_def)

lemma show_own_reads [simp]:
  "dk_me (show_own m d) = dk_me d" "dk_contacts (show_own m d) = dk_contacts d" "ask r (show_own m d) = ask r d"
  "has_contact u (show_own m d) = has_contact u d" "own_contact (show_own m d) = own_contact d" "dk_backend (show_own m d) = dk_backend d"
  by (simp_all add: show_own_def ask_def has_contact_def own_contact_def)

lemma event_wm: "wm_result (Done (handle_event io e d)) = wm_result (Done (handle_event io e (without_messages d)))"
proof (cases "(io, e, d)" rule: handle_event.cases)
  case (2 io m d)
  then show ?thesis
    by (simp add: message_received_def mark_peer_active_def add_own_contact_def Let_def without_messages_def known_contact_def has_contact_def own_contact_def ask_def split: option.split)
next
  case (6 io s d)
  then show ?thesis
    by (cases "cs_type s") (auto simp: call_signalled_def call_offered_def call_answered_def call_rejected_def call_hung_up_def log_call_message_def
      other_call_def case_prod_unfold Let_def without_messages_def ask_def known_contact_def log_entry_def split: option.split)
qed (simp_all add: without_messages_def delivery_shown_def edit_shown_def reaction_shown_def in_call_with_def)

lemma send_wm: "wm_result (send_shown io u x r d) = wm_result (send_shown io u x r (without_messages d))"
proof (cases u)
  case (Some w)
  show ?thesis
  proof (cases "unknown_contact w")
    case (Done c)
    then show ?thesis using Some by (simp add: send_shown_def Let_def exec_bind_def)
  qed (simp add: Some send_shown_def Let_def exec_bind_def)
qed (simp add: send_shown_def)

lemma voice_wm: "wm_result (Done (send_voice_shown io u v d)) = wm_result (Done (send_voice_shown io u v (without_messages d)))"
  by (cases u) (simp_all add: send_voice_shown_def Let_def)

lemma file_wm:
  "(raw = None) = (raw' = None) \<Longrightarrow>
    wm_result (Done (send_file_shown io f u name raw d)) = wm_result (Done (send_file_shown io f u name raw' (without_messages d)))"
  by (cases u; cases raw; cases raw') (simp_all add: send_file_shown_def Let_def)

lemma target_wm:
  "(\<And>u. wm_result (f u) = wm_result (g u)) \<Longrightarrow> wm_result (with_target f d) = wm_result (with_target g (without_messages d))"
  by (simp add: with_target_def exec_bind_def split: exec.split)

lemma step_wm:
  assumes "same_but_content i j"
  shows "wm_result (desk_step E i d) = wm_result (desk_step E j (without_messages d))"
proof (cases i)
  case (InEvent io e)
  then show ?thesis using assms event_wm [of io e d] by simp
next
  case (InFrame dt now smp)
  then show ?thesis using assms by (simp add: call_frame_def without_messages_def ask_def Let_def split: option.split)
next
  case (InSend io x r)
  then show ?thesis using assms by (auto intro: target_wm send_wm)
next
  case (InFile io name raw)
  then obtain raw' where "j = InFile io name raw'" "(raw = None) = (raw' = None)" using assms by auto
  then show ?thesis using InFile by (simp only: desk_step.simps) (rule target_wm, rule file_wm)
next
  case (InVoice io v)
  then show ?thesis using assms by (auto intro: target_wm voice_wm)
next
  case (InCall lio sec now k)
  then show ?thesis using assms
    by (cases k) (auto simp: call_modal_def call_chosen_def log_call_message_def log_entry_def call_id_of_def case_prod_unfold Let_def without_messages_def ask_def
        split: option.split)
next
  case (InSidebar a)
  then show ?thesis using assms by (cases a) (simp_all add: without_messages_def ask_def)
next
  case InConfirmDelete
  then show ?thesis using assms by (simp add: delete_session_def Let_def without_messages_def ask_def split: option.split)
next
  case (InContact typed al)
  then show ?thesis using assms by (simp add: add_typed_contact_def Let_def without_messages_def ask_def case_prod_unfold split: option.split)
next
  case (InGroup now key rid color title ms)
  have "add_member_shown now (without_messages d) = add_member_shown now d"
    by (simp add: add_member_shown_def without_messages_def fun_eq_iff)
  then show ?thesis using assms InGroup by (simp add: create_group_shown_def Let_def) (simp add: without_messages_def)
next
  case (InToast zen now k)
  then show ?thesis using assms by (simp add: toast_frame_def without_messages_def split: option.split toast_click.split)
next
  case (InStartCall io u)
  then have "j = i" using assms by simp
  then show ?thesis unfolding InStartCall desk_step.simps
    by simp (rule target_wm, simp add: start_call_def Let_def, simp add: without_messages_def)
next
  case (InReact m x)
  then have "j = i" using assms by simp
  then show ?thesis unfolding InReact desk_step.simps by simp (rule target_wm, simp add: react_shown_def, simp add: without_messages_def)
next
  case (InEdit m x)
  then have "j = i" using assms by simp
  then show ?thesis unfolding InEdit desk_step.simps by simp (rule target_wm, simp add: edit_own_shown_def edit_shown_def, simp add: without_messages_def)
next
  case (InPin m)
  then have "j = i" using assms by simp
  then show ?thesis unfolding InPin desk_step.simps by simp (rule target_wm, simp add: pin_shown_def, simp add: without_messages_def)
next
  case (InDelete m)
  then have "j = i" using assms by simp
  then show ?thesis unfolding InDelete desk_step.simps by simp (rule target_wm, simp add: delete_shown_def drop_shown_def, simp add: without_messages_def)
next
  case (InDeleteEveryone m)
  then have "j = i" using assms by simp
  then show ?thesis unfolding InDeleteEveryone desk_step.simps
    by simp (rule target_wm, simp add: delete_everyone_shown_def drop_shown_def, simp add: without_messages_def)
qed (use assms in \<open>simp_all add: without_messages_def\<close>)

lemma run_wm:
  assumes "desk_run E is d = Done (tr, d')" "list_all2 same_but_content is js" "without_messages d2 = without_messages d"
  shows "\<exists>tr2 d2'. desk_run E js d2 = Done (tr2, d2') \<and> map (snd \<circ> snd) tr2 = map (snd \<circ> snd) tr \<and> without_messages d2' = without_messages d'"
  using assms
proof (induction "is" arbitrary: d d2 js tr)
  case (Cons i "is")
  obtain j ks where js: "js = j # ks" "same_but_content i j" "list_all2 same_but_content is ks" using Cons.prems(2) by (cases js) auto
  obtain d1 e tr1 where s: "desk_step E i d = Done (d1, e)" "desk_run E is d1 = Done (tr1, d')" "tr = (d, i, e) # tr1"
    using Cons.prems(1) by (auto simp: exec_bind_def split: exec.splits)
  have "same_but_content j j" by (cases j) auto
  from step_wm [OF js(2), of E d] step_wm [OF this, of E d2] Cons.prems(3)
  have "wm_result (desk_step E j d2) = Done (without_messages d1, e)" by (simp add: s(1))
  then obtain d3 where d3: "desk_step E j d2 = Done (d3, e)" "without_messages d3 = without_messages d1"
    by (auto simp: wm_result_def exec_bind_def split: exec.splits)
  from Cons.IH [OF s(2) js(3) d3(2)] show ?case by (auto simp: js(1) s(3) d3(1) exec_bind_def)
qed simp

section \<open>Messages in the window and in the messenger\<close>

definition no_window_ids :: "string \<Rightarrow> inbox_state \<Rightarrow> bool" where
  "no_window_ids me s \<longleftrightarrow> (\<forall>m \<in> set (db_messages (ib_db s)). sm_sender m = me \<longrightarrow> \<not> window_id (sm_id m))"

lemma add_message_messages: "set (db_messages (add_message m db)) \<subseteq> insert m (set (db_messages db))"
  by (auto simp: add_message_def Let_def dest: set_update_subset_insert [THEN subsetD] split: option.splits)

lemma send_chat_keeps:
  assumes "send_chat E io st u x img s = Done (Ok m, sent, s')" "no_window_ids (ue_hex E) s"
  shows "no_window_ids (ue_hex E) s'"
proof -
  have frame: "db_messages (ib_db s1) = db_messages (ib_db s)" if "deliver_payload E io u p s = Done (out, sent1, s1)" for p out sent1 s1
    using that deliver_frame only_contacts_fields(1) by (fastforce simp: deliver_payload_def exec_bind_def split: exec.splits)
  have "set (db_messages (ib_db s')) \<subseteq> insert m (set (db_messages (ib_db s)))"
    using assms(1) frame add_message_messages
    by (fastforce simp: send_chat_def add_self_contact_def db_add_contact_def Let_def exec_bind_def
        split: if_splits exec.splits sum.splits messenger_error.splits)
  then show ?thesis using assms(2) new_id_not_window send_chat_id [OF assms(1)] by (fastforce simp: no_window_ids_def)
qed

lemma send_shown_message:
  assumes "send_shown io (Some u) x reply d = Done (d', e)"
  shows "dk_messages d' = dk_messages d @ [(shown_message io u x d)\<lparr>sm_reply_to := reply\<rparr>]"
    "u \<noteq> SELF_SAVED \<Longrightarrow> dk_backend d \<Longrightarrow> Ask (RqSend u x) \<in> set e"
  using assms by (auto simp: send_shown_def show_own_def own_toast_def add_own_contact_def ask_def Let_def exec_bind_def split: if_splits exec.splits)

lemma delivery_misses: "w \<in> set xs \<Longrightarrow> sm_id w \<noteq> i \<Longrightarrow> w \<in> set (update_first (\<lambda>m. sm_id m = i) f xs)"
  by (induction xs) auto

text \<open>What the messenger brings: new messages are incoming ones, and a delivery names one of its own identifiers.\<close>

fun from_messenger :: "desk_input \<Rightarrow> bool" where
  "from_messenger (InEvent io (FromInbox (EvMessage m))) \<longleftrightarrow> sm_incoming m"
| "from_messenger (InEvent io (FromInbox (EvDelivered i u))) \<longleftrightarrow> \<not> window_id i"
| "from_messenger _ \<longleftrightarrow> True"

text \<open>The messages that the window made for others stand there without a delivery mark.\<close>

definition waits_forever :: "string \<Rightarrow> chat_message \<Rightarrow> bool" where
  "waits_forever me m \<longleftrightarrow> window_id (sm_id m) \<and> \<not> sm_incoming m \<and> sm_recipient m \<noteq> SELF_SAVED \<and> sm_recipient m \<noteq> me \<longrightarrow> \<not> sm_delivered m"

definition unconfirmed :: "string \<Rightarrow> desktop \<Rightarrow> bool" where
  "unconfirmed me d \<longleftrightarrow> dk_me d = me \<and> list_all (waits_forever me) (dk_messages d)"

lemma waits_fields [simp]:
  "dk_me d = me \<Longrightarrow> waits_forever me (shown_message io u x d)" "waits_forever me (log_entry lio u x b d)"
  "waits_forever me (m\<lparr>sm_reply_to := r\<rparr>) = waits_forever me m" "waits_forever me (m\<lparr>sm_voice := v\<rparr>) = waits_forever me m"
  "waits_forever me (m\<lparr>sm_image := i\<rparr>) = waits_forever me m" "waits_forever me (m\<lparr>sm_text := x, sm_is_edited := e\<rparr>) = waits_forever me m"
  "waits_forever me (m\<lparr>sm_reactions := rs\<rparr>) = waits_forever me m" "waits_forever me (m\<lparr>sm_is_pinned := p\<rparr>) = waits_forever me m"
  "sm_incoming m \<Longrightarrow> waits_forever me m" "\<not> window_id (sm_id m) \<Longrightarrow> waits_forever me m"
  by (auto simp: waits_forever_def shown_message_def log_entry_def window_id_def)

lemma all_update: "list_all P xs \<Longrightarrow> (\<And>m. P m \<Longrightarrow> Q m \<Longrightarrow> P (f m)) \<Longrightarrow> list_all P (update_first Q f xs)"
  by (induction xs) auto

lemma all_filter: "list_all P xs \<Longrightarrow> list_all P (filter Q xs)"
  by (simp add: list_all_iff)

lemma event_unconfirmed: "from_messenger (InEvent io e) \<Longrightarrow> unconfirmed me d \<Longrightarrow> unconfirmed me (fst (handle_event io e d))"
proof (cases "(io, e, d)" rule: handle_event.cases)
  case (2 io' m d')
  assume "from_messenger (InEvent io e)" "unconfirmed me d"
  then show ?thesis using 2 by (auto simp: message_received_def unconfirmed_def mark_peer_active_def add_own_contact_def Let_def split: option.split)
next
  case (6 io' s d')
  assume "unconfirmed me d"
  then show ?thesis using 6
    by (auto simp: call_signalled_def call_offered_def call_answered_def call_rejected_def call_hung_up_def unconfirmed_def log_call_message_def
        Let_def split: call_signal_type.split option.split)
qed (auto simp: unconfirmed_def delivery_shown_def edit_shown_def reaction_shown_def Let_def intro!: all_update all_filter)

lemma call_unconfirmed:
  assumes "desk_step E (InCall lio sec now k) d = Done (d', e)" "unconfirmed me d" shows "unconfirmed me d'"
proof -
  have "unconfirmed me (snd (call_modal k d))" using assms(2) by (auto simp: call_modal_def unconfirmed_def Let_def split: option.split call_click.split)
  moreover have "unconfirmed me d1 \<Longrightarrow> unconfirmed me (fst (call_chosen lio sec now ch d1))" for ch d1
    by (auto simp: call_chosen_def unconfirmed_def log_call_message_def case_prod_unfold Let_def split: call_choice.split option.split)
  ultimately show ?thesis using assms(1) by (auto split: prod.splits option.splits) (metis fst_conv)
qed

lemma send_unconfirmed: "send_shown io t x r d = Done (d', e) \<Longrightarrow> unconfirmed me d \<Longrightarrow> unconfirmed me d'"
  by (auto simp: send_shown_def show_own_def unconfirmed_def own_toast_def add_own_contact_def Let_def exec_bind_def
      split: option.splits if_splits exec.splits)

lemma step_unconfirmed:
  assumes "desk_step E i d = Done (d', e)" "from_messenger i" "unconfirmed me d" shows "unconfirmed me d'"
proof (cases i)
  case (InEvent io ev)
  then show ?thesis using assms event_unconfirmed [of io ev me d] by simp
next
  case (InFrame dt now smp)
  then show ?thesis using assms by (auto simp: call_frame_def unconfirmed_def Let_def split: option.splits if_splits)
next
  case (InCall lio sec now k)
  then show ?thesis using assms call_unconfirmed by blast
next
  case (InSend io x r)
  then show ?thesis using assms send_unconfirmed by (auto simp: with_target_def exec_bind_def split: exec.splits)
next
  case (InSidebar a)
  then show ?thesis using assms by (cases a) (auto simp: unconfirmed_def list_all_iff)
next
  case InConfirmDelete
  then show ?thesis using assms by (auto simp: delete_session_def unconfirmed_def Let_def intro!: all_filter split: option.splits if_splits)
qed (use assms in \<open>auto simp: with_target_def exec_bind_def send_voice_shown_def send_file_shown_def react_shown_def edit_own_shown_def
    edit_shown_def pin_shown_def delete_shown_def drop_shown_def delete_everyone_shown_def start_call_def add_typed_contact_def create_group_shown_def
    show_own_def own_toast_def add_own_contact_def unconfirmed_def Let_def intro!: all_update all_filter
    split: exec.splits option.splits if_splits\<close>)

lemma run_unconfirmed: "desk_run E is d = Done (tr, d') \<Longrightarrow> list_all from_messenger is \<Longrightarrow> unconfirmed me d \<Longrightarrow> unconfirmed me d'"
proof (induction "is" arbitrary: d tr)
  case (Cons i "is")
  then show ?case using step_unconfirmed by (fastforce simp: exec_bind_def split: exec.splits)
qed simp

section \<open>Groups and the lock\<close>

lemma fold_members [simp]: "pg_id (fold (\<lambda>u g. add_member_shown now d g u) ms g) = pg_id g"
  by (induction ms arbitrary: g) (simp_all add: add_member_shown_def split: option.split)

lemma group_selected:
  assumes "create_group_shown now key rid color title ms d = (d1, e)"
  shows "e = []" "active_contact d1 = Done None" "active_target None d1 = Some (pg_id (group_new now key rid color title [] (dk_me d) (dk_name d)))"
    "active_group d1 \<noteq> None" "dk_me d1 = dk_me d" "dk_backend d1 = dk_backend d"
  using assms by (auto simp: create_group_shown_def active_contact_def active_target_def active_group_def saved_shown_def self_shown_def Let_def)

lemma group_id_hd: "hd (pg_id (group_new now key rid color title descr me name)) = CHR ''g''"
  by (simp add: group_new_def)

section \<open>Properties\<close>

text \<open>Samples: a window of the sender, a messenger behind it, times.\<close>

definition demo_desktop :: desktop where
  "demo_desktop = \<lparr>dk_me = user_id_hex alice, dk_name = ''a'', dk_backend = True, dk_contacts = [], dk_groups = [], dk_messages = [], dk_call = None,
     dk_chat = None, dk_group = None, dk_toast = None, dk_notify = False, dk_sent = 0, dk_delivered = 0, dk_received = 0, dk_last_seen = [],
     dk_sessions = [], dk_confirm_delete = None\<rparr>"

definition demo_log :: log_io where "demo_log = \<lparr>lg_micros = 1, lg_rand = 2, lg_time = 3\<rparr>"

definition demo_ev :: event_io where
  "demo_ev = \<lparr>ev_now = 0, ev_instant = 0, ev_log = demo_log, ev_secs = 0, ev_unbase64 = (\<lambda>s. None)\<rparr>"

definition demo_ui :: ui_io where "demo_ui = \<lparr>ui_rand = [1], ui_time = 5, ui_instant = 0\<rparr>"

definition demo_desk :: desk_env where "demo_desk = \<lparr>de_base64 = (\<lambda>b. map (char_of \<circ> unat) b), de_sha256 = pad 32\<rparr>"

definition demo_offer :: call_signal where "demo_offer = call_signal_new 1 ''7'' ''bob'' ''alice'' Offer"

definition demo_stamp :: stamp where
  "demo_stamp = \<lparr>st_rand = 1, st_id_time = 100, st_time = 100, st_self_time = 100, st_queue_time = 100\<rparr>"

text \<open>C21. Samples of the microphone are handed to the messenger only in a call that both sides agreed to before: an incoming call was
  offered by that peer under that identifier and accepted with a click while it was shown, an outgoing one was started for that peer and
  answered by it under that identifier; and the call is not muted. Whatever other signals, messages and clicks there were.\<close>
theorem voice_needs_agreement:
  assumes "desk_run E is d = Done (tr, d')" "dk_call d = None" "k < length tr" "Ask (RqAudio u call pcm rate q) \<in> set (snd (snd (tr ! k)))"
  shows "(\<exists>c. dk_call (fst (tr ! k)) = Some c \<and> cl_connected c \<and> \<not> cl_muted c \<and> cl_peer c = u \<and> cl_id c = call) \<and>
    ((\<exists>(d1, i, e) \<in> set (take k tr). signalled Offer u call i) \<and>
       (\<exists>(d1, i, e) \<in> set (take k tr). accept_clicked i \<and> shows_call u call d1) \<or>
     (\<exists>(d1, i, e) \<in> set (take k tr). call_started u i) \<and> (\<exists>(d1, i, e) \<in> set (take k tr). signalled Answer u call i))"
proof -
  obtain c where c: "dk_call (fst (tr ! k)) = Some c" "cl_connected c" "\<not> cl_muted c" "cl_peer c = u" "cl_id c = call" "agreed (take k tr) c"
    using voice_agreed [OF assms] by blast
  show ?thesis
  proof
    show "\<exists>c. dk_call (fst (tr ! k)) = Some c \<and> cl_connected c \<and> \<not> cl_muted c \<and> cl_peer c = u \<and> cl_id c = call" using c by blast
    show "(\<exists>(d1, i, e) \<in> set (take k tr). signalled Offer u call i) \<and>
       (\<exists>(d1, i, e) \<in> set (take k tr). accept_clicked i \<and> shows_call u call d1) \<or>
     (\<exists>(d1, i, e) \<in> set (take k tr). call_started u i) \<and> (\<exists>(d1, i, e) \<in> set (take k tr). signalled Answer u call i)"
      using c(2,4-6) by (cases "cl_incoming c") (simp_all add: agreed_def)
  qed
qed

lemma voice_needs_agreement_witness:
  "let tr = fst (case desk_run demo_desk [InEvent demo_ev (FromInbox (EvCall demo_offer)), InCall demo_log 0 0 AcceptClick, InFrame 1 30000000 [5]] demo_desktop of Done r \<Rightarrow> r)
   in Ask (RqAudio ''bob'' ''7'' [5] 16000 1) \<in> set (snd (snd (tr ! 2))) \<and>
     ((\<exists>(d1, i, e) \<in> set (take 2 tr). signalled Offer ''bob'' ''7'' i) \<and>
        (\<exists>(d1, i, e) \<in> set (take 2 tr). accept_clicked i \<and> shows_call ''bob'' ''7'' d1) \<or>
      (\<exists>(d1, i, e) \<in> set (take 2 tr). call_started ''bob'' i) \<and> (\<exists>(d1, i, e) \<in> set (take 2 tr). signalled Answer ''bob'' ''7'' i))"
proof -
  let ?r = "desk_run demo_desk [InEvent demo_ev (FromInbox (EvCall demo_offer)), InCall demo_log 0 0 AcceptClick, InFrame 1 30000000 [5]] demo_desktop"
  obtain tr d' where r: "?r = Done (tr, d')" "length tr = 3" "Ask (RqAudio ''bob'' ''7'' [5] 16000 1) \<in> set (snd (snd (tr ! 2)))"
    by (simp add: exec_bind_def demo_offer_def call_signal_new_def call_signalled_def call_offered_def demo_desktop_def call_modal_def
        call_chosen_def call_frame_def ask_def known_contact_def demo_ev_def demo_log_def Let_def)
  show ?thesis using voice_needs_agreement [OF r(1) _ _ r(3)] r by (simp add: demo_desktop_def)
qed

text \<open>C22. What the window asks for does not depend on the content of any file that is sent, nor on the messages that are shown: two runs
  with files of the same names but of different content ask the messenger, the sound card and the microphone for the same, step by step. So
  the file itself is never sent from the desktop, only a text with its name, though the window shows it as sent.\<close>
theorem file_content_stays:
  assumes "desk_run E is d = Done (tr, d')" "list_all2 same_but_content is js" "without_messages d2 = without_messages d"
  shows "\<exists>tr2 d2'. desk_run E js d2 = Done (tr2, d2') \<and> map (snd \<circ> snd) tr2 = map (snd \<circ> snd) tr \<and> without_messages d2' = without_messages d'"
  by (rule run_wm [OF assms])

lemma file_content_stays_witness:
  "\<exists>tr d' tr2 d2'. desk_run demo_desk [InSelectChat ''bob'', InFile demo_ui ''f'' (Some [1])] demo_desktop = Done (tr, d') \<and>
     snd (snd (tr ! 1)) = [Play SentSound, Ask (RqSend ''bob'' ''[File: f]'')] \<and>
     desk_run demo_desk [InSelectChat ''bob'', InFile demo_ui ''f'' (Some [2, 3])] demo_desktop = Done (tr2, d2') \<and>
     map (snd \<circ> snd) tr2 = map (snd \<circ> snd) tr"
proof -
  have c: "unknown_contact ''bob'' = Done \<lparr>sc_user_id = ''bob'', sc_name = NODE_NAME @ ''bob'', sc_bio = P2P_CONTACT, sc_ed25519_pub_hex = ''bob'',
      sc_x25519_pub_hex = ''bob'', sc_last_seen_addr = []\<rparr>"
    by (simp add: unknown_contact_def str_slice_def is_char_boundary_def exec_bind_def)
  have me: "dk_me demo_desktop \<noteq> ''bob''" by code_simp
  obtain tr d' where r: "desk_run demo_desk [InSelectChat ''bob'', InFile demo_ui ''f'' (Some [1])] demo_desktop = Done (tr, d')"
    "snd (snd (tr ! 1)) = [Play SentSound, Ask (RqSend ''bob'' ''[File: f]'')]"
    using c me by (simp add: exec_bind_def with_target_def active_contact_def saved_shown_def self_shown_def SELF_SAVED_def active_target_def
        send_file_shown_def ask_def show_own_def demo_desktop_def Let_def)
  have "list_all2 same_but_content [InSelectChat ''bob'', InFile demo_ui ''f'' (Some [1])] [InSelectChat ''bob'', InFile demo_ui ''f'' (Some [2, 3])]"
    by simp
  from file_content_stays [OF r(1) this refl] show ?thesis using r by blast
qed

text \<open>C23. A message that is sent from the desktop to somebody else is not shown as delivered as long as the window is open, whatever the
  user clicks and the messenger brings, and cannot be deleted for everyone: the window gives it an identifier of its own, the messenger stores
  and sends it under another one, so a receipt names that other one and finds nothing in the window, and a deletion for everyone with
  the identifier of the window sends nothing. What the messenger brings is as its own theory says: new messages are incoming ones, and
  what it reports as delivered has an identifier of the messenger. After a restart the window shows the copy of the database instead.\<close>
theorem sent_never_confirmed:
  assumes "send_shown io (Some u) x reply d = Done (d', e)" "u \<noteq> SELF_SAVED" "u \<noteq> dk_me d" "dk_backend d" "unconfirmed (dk_me d) d"
    "db_inv (ib_db s)" "no_window_ids (ue_hex E) s" "send_chat E dio st u x None s = Done (Ok m, sent, s')"
    "desk_run DE is d' = Done (tr, d2)" "list_all from_messenger is"
  shows "\<exists>w. dk_messages d' = dk_messages d @ [w] \<and> sm_text w = x \<and> sm_recipient w = u \<and> \<not> sm_incoming w \<and> Ask (RqSend u x) \<in> set e \<and>
    (\<forall>v \<in> set (dk_messages d2). sm_id v = sm_id w \<and> sm_recipient v = u \<and> \<not> sm_incoming v \<longrightarrow> \<not> sm_delivered v) \<and>
    no_window_ids (ue_hex E) s' \<and> window_id (sm_id w) \<and> \<not> window_id (sm_id m) \<and>
    (\<forall>dio now. \<exists>s''. delete_messages_for_everyone E dio now u [sm_id w] s' = Done (Ok (), [], s''))"
proof -
  obtain w where eq: "w = (shown_message io u x d)\<lparr>sm_reply_to := reply\<rparr>" by blast
  have w: "window_id (sm_id w)" "sm_text w = x" "sm_recipient w = u" "\<not> sm_incoming w" "\<not> sm_delivered w"
    using assms(2,3) shown_id_window [of io u x d] by (simp_all add: eq shown_message_def)
  have shown: "dk_messages d' = dk_messages d @ [w]" unfolding eq by (rule send_shown_message(1) [OF assms(1)])
  have u2: "unconfirmed (dk_me d) d2" by (rule run_unconfirmed [OF assms(9,10) send_unconfirmed [OF assms(1,5)]])
  have id: "\<not> window_id (sm_id m)" using new_id_not_window unfolding send_chat_id [OF assms(8)] .
  have inv: "distinct (map sm_id (db_messages (ib_db s')))" 
    using mp [OF conjunct1 [OF fair_send [OF assms(8), unfolded fair_change_def]] assms(6)] unfolding db_inv_def by (rule conjunct1)
  have fresh: "no_window_ids (ue_hex E) s'" by (rule send_chat_keeps [OF assms(8,7)])
  have "\<forall>m \<in> set (db_messages (ib_db s')). sm_sender m = ue_hex E \<longrightarrow> sm_id m \<notin> set [sm_id w]"
    using fresh w(1) by (auto simp: no_window_ids_def)
  then have "\<exists>s''. delete_messages_for_everyone E dio now u [sm_id w] s' = Done (Ok (), [], s'')" for dio now
    using delete_foreign_silent [OF inv, of E "[sm_id w]" dio now u] by blast
  moreover have "\<forall>v \<in> set (dk_messages d2). sm_id v = sm_id w \<and> sm_recipient v = u \<and> \<not> sm_incoming v \<longrightarrow> \<not> sm_delivered v"
    using u2 w(1) assms(2,3) by (auto simp: unconfirmed_def waits_forever_def list_all_iff)
  ultimately show ?thesis using shown send_shown_message(2) [OF assms(1,2,4)] w id fresh by blast
qed

definition demo_sender :: user_env where
  "demo_sender = demo_env\<lparr>ue_json := demo_json\<lparr>mj_write := (\<lambda>p. Some [1])\<rparr>\<rparr>"

lemma demo_send:
  "\<exists>m x s'. send_chat demo_sender (demo_io True) demo_stamp (user_id_hex bob) ''hi'' None (demo_state bob []) = Done (Ok m, [x], s')"
proof -
  have x: "length (ui_x25519_public bob) = 32" using crypto_lengths(3) [OF demo_crypto_ok] demo_identities(2) by (simp add: identity_ok_def)
  then have "ui_x25519_public bob \<noteq> []" by auto
  then have h: "hex_decode (to_hex (ui_x25519_public bob)) = Done (Some (ui_x25519_public bob))" by (rule hex_decode_to_hex)
  have r: "resolve_recipient demo_crypto demo_cards demo_parse demo_show (demo_io True) (user_id_hex bob) (demo_db bob []) (rt_new (ui_user_id alice)) =
      Done (Some (ui_x25519_public bob, Some (SockV4 0x0A000002 4000), [SockV4 0x0A000002 4000]), demo_db bob [], rt_new (ui_user_id alice))"
    using h x demo_contact_usable by (simp add: resolve_recipient_def demo_db_def demo_contact_def demo_parse_def Let_def)
  have i: "id_from_hex (user_id_hex bob) = Done (Ok (ui_user_id bob))"
    using id_hex_roundtrip [OF identity_wf [OF demo_crypto_ok demo_identities(2)]] by (simp add: user_id_hex_def)
  have b: "\<not> db_is_blocked (user_id_hex bob) (demo_db bob [])" "\<not> is_self (user_id_hex alice) (user_id_hex bob)"
    using demo_ids_differ(2,3) by (simp_all add: db_is_blocked_def demo_db_def db_default_def is_self_def)
  show ?thesis using demo_seals [of alice bob "[1]"] x
    by (simp add: send_chat_def demo_sender_def demo_env_def demo_state_def b deliver_payload_def try_deliver_payload_def exec_bind_def i r
        send_envelope_def Let_def)
qed

lemma sent_never_confirmed_witness:
  "\<exists>d' e m x s' tr d2 w. send_shown demo_ui (Some (user_id_hex bob)) ''hi'' None (demo_desktop\<lparr>dk_contacts := [demo_contact bob]\<rparr>) = Done (d', e) \<and>
     send_chat demo_sender (demo_io True) demo_stamp (user_id_hex bob) ''hi'' None (demo_state bob []) = Done (Ok m, [x], s') \<and>
     desk_run demo_desk [InEvent demo_ev (FromInbox (EvDelivered (sm_id m) (user_id_hex bob)))] d' = Done (tr, d2) \<and>
     dk_messages d' = [w] \<and> Ask (RqSend (user_id_hex bob) ''hi'') \<in> set e \<and>
     \<not> (\<exists>v \<in> set (dk_messages d2). sm_id v = sm_id w \<and> sm_recipient v = user_id_hex bob \<and> \<not> sm_incoming v \<and> sm_delivered v)"
proof -
  let ?d = "demo_desktop\<lparr>dk_contacts := [demo_contact bob]\<rparr>"
  have d: "user_id_hex bob \<noteq> dk_me ?d" "dk_backend ?d" "unconfirmed (dk_me ?d) ?d" "dk_messages ?d = []"
    using demo_ids_differ(2) by (simp_all add: demo_desktop_def unconfirmed_def)
  have "has_contact (user_id_hex bob) (show_own w ?d)" for w by (simp add: has_contact_def demo_contact_def)
  then obtain d' e where s: "send_shown demo_ui (Some (user_id_hex bob)) ''hi'' None ?d = Done (d', e)"
    using d(1) demo_ids_differ(3) by (simp add: send_shown_def Let_def)
  obtain m x s' where m: "send_chat demo_sender (demo_io True) demo_stamp (user_id_hex bob) ''hi'' None (demo_state bob []) = Done (Ok m, [x], s')"
    using demo_send by blast
  have i: "\<not> window_id (sm_id m)" using new_id_not_window unfolding send_chat_id [OF m] .
  let ?i = "InEvent demo_ev (FromInbox (EvDelivered (sm_id m) (user_id_hex bob)))"
  obtain tr d2 where r: "desk_run demo_desk [?i] d' = Done (tr, d2)" by (simp add: exec_bind_def)
  have "db_inv (ib_db (demo_state bob []))" "no_window_ids (ue_hex demo_sender) (demo_state bob [])"
    by (simp_all add: demo_db_inv no_window_ids_def) (simp add: demo_state_def demo_db_def)
  from sent_never_confirmed [OF s demo_ids_differ(3) d(1-3) this m r] show ?thesis using s m r d(4) i by auto
qed

text \<open>A message to a group that was made on the desktop reaches nobody: the window asks to send it to the identifier of the group as if that were
  a user, no identifier of a group is one, so the messenger sends nothing and puts it on the queue, for the worker to fail again; and the
  messenger is never told of the group.\<close>
theorem group_message_unsent:
  assumes "dk_backend d" "dk_me d = ue_hex E" "wf_id (ui_user_id (ue_me E))"
    "gid = pg_id (group_new now key rid color title [] (dk_me d) (dk_name d))" "\<not> db_is_blocked gid (ib_db s)"
  shows "\<exists>tr d' m s'. desk_run DE [InGroup now key rid color title ms, InSend io x reply] d = Done (tr, d') \<and>
    map (snd \<circ> snd) tr = [[], [Play SentSound, Ask (RqSend gid x)]] \<and>
    send_chat E dio st gid x None s = Done (Ok m, [], s') \<and> ib_queue s' = queue_push (st_queue_time st) m gid (ib_queue s) \<and>
    db_groups (ib_db s') = db_groups (ib_db s)"
proof -
  obtain d1 e where c: "create_group_shown now key rid color title ms d = (d1, e)" by fastforce
  note g = group_selected [OF c, folded assms(4)]
  obtain y where y: "id_from_hex gid = Done (Err y)" using group_id_no_user unfolding assms(4) by blast
  have me: "gid \<noteq> ue_hex E" using y id_hex_roundtrip [OF assms(3)] by (auto simp: user_id_hex_def)
  have saved: "gid \<noteq> SELF_SAVED"
  proof
    assume "gid = SELF_SAVED"
    then have "hd gid = hd SELF_SAVED" by (rule arg_cong)
    then show False unfolding assms(4) group_id_hd by (simp add: SELF_SAVED_def)
  qed
  obtain d2 where d2: "send_shown io (Some gid) x reply d1 = Done (d2, [Play SentSound, Ask (RqSend gid x)])"
    using g(4-6) me saved assms(1,2) by (simp add: send_shown_def Let_def ask_def)
  have "send_chat E dio st gid x None s = Done (Ok (own_message (new_message_id st (ue_hex E)) (ue_hex E) gid x (st_time st)), [],
      s\<lparr>ib_db := add_message (own_message (new_message_id st (ue_hex E)) (ue_hex E) gid x (st_time st)) (ib_db s),
        ib_queue := queue_push (st_queue_time st) (own_message (new_message_id st (ue_hex E)) (ue_hex E) gid x (st_time st)) gid (ib_queue s)\<rparr>)"
    using y me saved assms(5) by (simp add: send_chat_def is_self_def deliver_payload_def try_deliver_payload_def exec_bind_def Let_def own_message_def)
  moreover have "db_groups (add_message m db) = db_groups db" for m db by (simp add: add_message_def Let_def split: option.split)
  ultimately show ?thesis using c g(1-3) d2 by (simp add: exec_bind_def with_target_def)
qed

text \<open>Yet the lock keeps nobody out: whatever was clicked since the start, the digits 1234 leave the lock screen, as no other passcode can be set;
  and without any passcode the button for a forgotten one, then cancelling the restoration that it opens, shows the chats with the same
  account, when an account was set up in this directory.\<close>
theorem lock_keeps_nobody_out:
  assumes "fold (click C M) ks (lock_new seed onboarded t0, d0) = (l, d)" "lk_locked l"
  shows "screen_of (fst (fold (click C M) [TypePasscode ''1234'', Unlock t] (l, d))) \<noteq> LockScreen \<and>
    snd (fold (click C M) [TypePasscode ''1234'', Unlock t] (l, d)) = d \<and>
    (lk_ready_file l \<longrightarrow> (\<exists>l'. fold (click C M) [Forgot, FirstStep CancelSteps] (l, d) = (l', d) \<and> screen_of l' = MainView))"
proof -
  have "pin_inv C (lock_new seed onboarded t0, d0)" by (simp add: pin_inv_def lock_new_def)
  then have "pin_inv C (l, d)" using lock_sys.run_inv [of ks C _ M] assms(1) by (metis list.pred_True)
  then show ?thesis using unlock_1234 [OF _ assms(2)] forgot_bypass [OF assms(2)] by blast
qed

lemma lock_keeps_nobody_out_witness:
  "\<exists>l d. fold (click demo_crypto demo_words) [OpenSettings, SettingsSetPin, SettingsLock] (lock_new ''s'' True 0, demo_desktop) = (l, d) \<and>
     screen_of l = LockScreen \<and> screen_of (fst (fold (click demo_crypto demo_words) [TypePasscode ''1234'', Unlock 5] (l, d))) \<noteq> LockScreen \<and>
     screen_of (fst (fold (click demo_crypto demo_words) [Forgot, FirstStep CancelSteps] (l, d))) = MainView"
proof -
  obtain l d where l: "fold (click demo_crypto demo_words) [OpenSettings, SettingsSetPin, SettingsLock] (lock_new ''s'' True 0, demo_desktop) = (l, d)"
    "lk_locked l" "lk_ready_file l"
    by (simp add: click_def lock_new_def screen_of_def)
  have "screen_of l = LockScreen" using l(2) by (simp add: screen_of_def)
  then show ?thesis using lock_keeps_nobody_out [OF l(1,2), of 5] l(1,3) by (metis fst_conv)
qed

end
