(* ===== verification/Desktop_Sound.thy ===== *)
theory Desktop_Sound
  imports Desktop_Run "HOL-Library.Log_Nat" "HOL-Library.Signed_Division"
begin

text \<open>
  The microphone and the sound player of the desktop application (\<open>mic_recorder.rs\<close>, \<open>audio_player.rs\<close>, \<open>voice_recorder.rs\<close>). The sound
  card is an argument. Single precision is exact here: a value is a number of units of \<open>2^-23\<close> rounded to 24 binary digits.
  The lemmas say when a recording ends, that its file reads back, and that the phone rings only while there is a call to be taken.
\<close>

section \<open>Single precision\<close>

text \<open>Half-way cases go to the even neighbour. The unit is \<open>2^-23\<close>, so that every value of one or more is a number of units.\<close>

definition round_even :: "nat \<Rightarrow> nat \<Rightarrow> nat" where
  "round_even a b = (let q = a div b; r = a mod b in if 2 * r < b then q else if b < 2 * r then q + 1 else q + q mod 2)"

definition f32_round :: "nat \<Rightarrow> nat \<Rightarrow> nat" where
  "f32_round a b = (let s = floorlog 2 (a div b) - 24 in round_even a (b * 2 ^ s) * 2 ^ s)"

abbreviation F32_ONE :: nat where "F32_ONE \<equiv> 2 ^ 23"

definition f32_of_nat :: "nat \<Rightarrow> nat" where
  "f32_of_nat n = f32_round (n * F32_ONE) 1"

definition f32_add :: "nat \<Rightarrow> nat \<Rightarrow> nat" where
  "f32_add x y = f32_round (x + y) 1"

section \<open>The microphone\<close>

record mic =
  mc_stream :: bool
  mc_samples :: "i16 list"
  mc_rate :: u32
  mc_channels :: u16
  mc_recording :: bool

definition mic_new :: mic where
  "mic_new = \<lparr>mc_stream = False, mc_samples = [], mc_rate = 16000, mc_channels = 1, mc_recording = False\<rparr>"

text \<open>The frames that the sound card hands over become one sample each: the mean of the channels. A card without channels panics.\<close>

definition mono_i16 :: "i16 list \<Rightarrow> i16" where
  "mono_i16 frame = (if frame = [] then 0 else word_of_int (sum_list (map sint frame) sdiv int (length frame)))"

definition mono_u16 :: "u16 list \<Rightarrow> i16" where
  "mono_u16 frame = (if frame = [] then 0 else word_of_int (sum_list (map (\<lambda>s. uint s - 32768) frame) sdiv int (length frame)))"

datatype mic_data = I16Data "i16 list" | U16Data "u16 list"

definition mic_captures :: "mic_data \<Rightarrow> mic \<Rightarrow> mic exec" where
  "mic_captures x m = (let n = unat (mc_channels m) in
     if n = 0 then Panic
     else Done (m\<lparr>mc_samples := mc_samples m @ (case x of I16Data xs \<Rightarrow> map mono_i16 (slices n xs) | U16Data xs \<Rightarrow> map mono_u16 (slices n xs))\<rparr>))"

text \<open>One bar of the waveform of a recording. \<open>i16::abs\<close> of the least value is that value again (in a debug build it panics). The
  quotient \<open>max / 32767 * 100\<close> is never so near to a whole number below that rounding would matter.\<close>

definition abs_i16 :: "i16 \<Rightarrow> i16" where
  "abs_i16 s = (if sint s < 0 then - s else s)"

definition loudest :: "i16 list \<Rightarrow> int" where
  "loudest chunk = (if chunk = [] then 0 else foldl max (sint (abs_i16 (hd chunk))) (map (\<lambda>s. sint (abs_i16 s)) (tl chunk)))"

definition pcm_bar :: "i16 list \<Rightarrow> u8" where
  "pcm_bar chunk = of_nat (min 100 (max 15 (nat (loudest chunk * 100 div 32767))))"

definition generate_waveform_from_pcm :: "i16 list \<Rightarrow> nat \<Rightarrow> bytes exec" where
  "generate_waveform_from_pcm samples num_bars =
     (if samples = [] then Done (replicate num_bars 20)
      else if num_bars = 0 then Panic
      else (let chunk_size = max (length samples div num_bars) 1;
                bars = map pcm_bar (take num_bars (slices chunk_size samples)) in
            Done (bars @ replicate (num_bars - length bars) 18)))"

text \<open>The file: a header of 44 bytes and the samples. \<open>le_bytes\<close> is \<open>to_le_bytes\<close>.\<close>

definition le_bytes :: "nat \<Rightarrow> 'a::len word \<Rightarrow> bytes" where
  "le_bytes n w = rev (be_bytes n w)"

definition pcm_to_wav :: "i16 list \<Rightarrow> u32 \<Rightarrow> bytes" where
  "pcm_to_wav samples rate =
     (let data_len = of_nat (length samples * 2) :: u32 in
      str_bytes ''RIFF'' @ le_bytes 4 (36 + data_len) @ str_bytes ''WAVE'' @
      str_bytes ''fmt '' @ le_bytes 4 (16 :: u32) @ le_bytes 2 (1 :: u16) @ le_bytes 2 (1 :: u16) @ le_bytes 4 rate @
      le_bytes 4 (rate * 1 * 16 div 8) @ le_bytes 2 (2 :: u16) @ le_bytes 2 (16 :: u16) @
      str_bytes ''data'' @ le_bytes 4 data_len @ concat (map le_bytes16 samples))"

text \<open>Stopping. A faster recording is thinned out: the position is a single-precision number to which the ratio of the rates is added;
  \<open>None\<close> is a loop that has not ended within the fuel. The time in seconds is exact up to \<open>2^24\<close> samples.\<close>

fun thin_out :: "nat \<Rightarrow> nat \<Rightarrow> i16 list \<Rightarrow> nat \<Rightarrow> i16 list option" where
  "thin_out 0 step raw idx = None"
| "thin_out (Suc n) step raw idx =
     (if idx div F32_ONE < length raw then map_option ((#) (raw ! (idx div F32_ONE))) (thin_out n step raw (f32_add idx step)) else Some [])"

definition rate_step :: "u32 \<Rightarrow> nat" where
  "rate_step rate = max (f32_round (f32_of_nat (unat rate)) 16000) F32_ONE"

definition downsampled :: "nat \<Rightarrow> u32 \<Rightarrow> i16 list \<Rightarrow> i16 list option" where
  "downsampled fuel rate raw = (if rate > 16000 then thin_out fuel (rate_step rate) raw 0 else Some raw)"

definition recorded_secs :: "nat \<Rightarrow> u32" where
  "recorded_secs n = max (of_nat ((n + 15999) div 16000)) 1"

definition mic_idle :: "mic \<Rightarrow> mic" where
  "mic_idle m = m\<lparr>mc_recording := False, mc_stream := False, mc_samples := []\<rparr>"

type_synonym recording = "bytes \<times> bytes \<times> u32"

definition mic_stop :: "nat \<Rightarrow> mic \<Rightarrow> (recording \<times> mic) option exec" where
  "mic_stop fuel m =
     (if mc_samples m = [] then Done (Some (([], replicate 48 20, 0), mic_idle m))
      else (case downsampled fuel (mc_rate m) (mc_samples m) of
          None \<Rightarrow> Done None
        | Some ss \<Rightarrow> exec_bind (generate_waveform_from_pcm ss 48) (\<lambda>w. Done (Some ((pcm_to_wav ss 16000, w, recorded_secs (length ss)), mic_idle m)))))"

text \<open>Starting stops first. The answers: the rate and the channels of the device when there is one, and whether its stream opens and plays.\<close>

record mic_device =
  md_config :: "(u32 \<times> u16) option"
  md_opens :: bool

definition mic_start :: "nat \<Rightarrow> mic_device \<Rightarrow> mic \<Rightarrow> (bool \<times> mic) option exec" where
  "mic_start fuel D m = exec_bind (mic_stop fuel m) (\<lambda>r. Done (case r of
      None \<Rightarrow> None
    | Some (_, m) \<Rightarrow> Some (case md_config D of
          None \<Rightarrow> (False, m)
        | Some (rate, ch) \<Rightarrow>
            (let m = m\<lparr>mc_rate := rate, mc_channels := ch, mc_samples := []\<rparr> in
             if md_opens D then (True, m\<lparr>mc_stream := True, mc_recording := True\<rparr>) else (False, m)))))"

definition mic_ensure_started :: "nat \<Rightarrow> mic_device \<Rightarrow> mic \<Rightarrow> (bool \<times> mic) option exec" where
  "mic_ensure_started fuel D m = (if \<not> mc_recording m \<or> \<not> mc_stream m then mic_start fuel D m else Done (Some (True, m)))"

text \<open>The button of the voice message: the first click starts, the second one makes the message, with the longer of the two times.
  \<open>shown\<close> is the time since the start in seconds, rounded up.\<close>

record recorder =
  rc_recording :: bool
  rc_start :: "instant option"

definition record_click :: "nat \<Rightarrow> mic_device \<Rightarrow> (bytes \<Rightarrow> string) \<Rightarrow> instant \<Rightarrow> u32 \<Rightarrow> recorder \<Rightarrow> mic \<Rightarrow> (voice_note option \<times> recorder \<times> mic) option exec" where
  "record_click fuel D base64 now shown r m =
     (if rc_recording r then
        exec_bind (mic_stop fuel m) (\<lambda>x. Done (case x of
            None \<Rightarrow> None
          | Some ((wav, waveform, sec), m) \<Rightarrow>
              Some (Some \<lparr>vn_duration_secs = max (max sec (if rc_start r = None then 0 else shown)) 1, vn_waveform = waveform,
                    vn_mime_type = ''audio/wav'', vn_audio_base64 = base64 wav, vn_file_size = length wav\<rparr>, \<lparr>rc_recording = False, rc_start = None\<rparr>, m)))
      else exec_bind (mic_start fuel D m) (\<lambda>x. Done (map_option (\<lambda>(_, m). (None, \<lparr>rc_recording = True, rc_start = Some now\<rparr>, m)) x)))"

section \<open>When a recording ends\<close>

lemma round_even_near: "0 < b \<Longrightarrow> a div b \<le> round_even a b \<and> round_even a b \<le> a div b + 1"
  by (auto simp: round_even_def Let_def)

lemma round_even_half: "0 < b \<Longrightarrow> 2 * a \<le> 2 * (round_even a b * b) + b"
proof -
  assume b: "0 < b"
  define q r where "q = a div b" and "r = a mod b"
  have a: "a = q * b + r" "r < b" using b by (simp_all add: q_def r_def)
  show ?thesis
  proof (cases "b < 2 * r")
    case True
    then have "round_even a b = q + 1" by (simp add: round_even_def flip: q_def r_def)
    then show ?thesis using a by simp
  next
    case False
    have "q * b \<le> round_even a b * b" using round_even_near [OF b, of a] by (simp add: q_def)
    then show ?thesis using False a(1) by linarith
  qed
qed

lemma f32_small: "v < 2 ^ 24 \<Longrightarrow> f32_round v 1 = v"
proof -
  assume v: "v < 2 ^ 24"
  have "floorlog 2 v \<le> 24" using v by (simp add: floorlog_leI)
  then show ?thesis by (simp add: f32_round_def round_even_def)
qed

text \<open>A sum is rounded by half a unit of its last place at most: below \<open>2^24\<close> by a half.\<close>

lemma f32_close:
  assumes "v < 2 ^ 47" shows "2 * v \<le> 2 * f32_round v 1 + F32_ONE"
proof -
  define s where "s = floorlog 2 v - 24"
  have "floorlog 2 v \<le> 47" using assms by (simp add: floorlog_leI)
  then have "(2 :: nat) ^ s \<le> 2 ^ 23" by (intro power_increasing) (simp_all add: s_def)
  moreover have "2 * v \<le> 2 * (round_even v (2 ^ s) * 2 ^ s) + 2 ^ s" by (rule round_even_half) simp
  ultimately show ?thesis by (simp add: f32_round_def flip: s_def)
qed

lemma f32_big:
  assumes "2 ^ n \<le> v" "23 \<le> n" shows "2 ^ n \<le> f32_round v 1"
proof -
  define s where "s = floorlog 2 v - 24"
  have v: "v > 0" using assms(1) by (metis gr0I not_less zero_less_numeral zero_less_power)
  have b: "2 ^ (floorlog 2 v - 1) \<le> v" "v < 2 ^ floorlog 2 v" using floorlog_bounds [of v 2] v by simp_all
  have "n < floorlog 2 v" using assms(1) b(2) by (metis le_less_trans one_less_numeral_iff power_less_imp_less_exp semiring_norm(76))
  then have k: "2 ^ (floorlog 2 v - 1) \<le> v" "n \<le> floorlog 2 v - 1" using b(1) by simp_all
  have "s \<le> floorlog 2 v - 1" by (simp add: s_def)
  then have "2 ^ (floorlog 2 v - 1) = 2 ^ (floorlog 2 v - 1 - s) * (2 :: nat) ^ s" by (simp flip: power_add)
  then have "2 ^ (floorlog 2 v - 1 - s) \<le> v div 2 ^ s" using k(1) by (simp add: less_eq_div_iff_mult_less_eq)
  also have "\<dots> \<le> round_even v (2 ^ s)" using round_even_near [of "2 ^ s" v] by simp
  finally have "2 ^ (floorlog 2 v - 1) \<le> round_even v (2 ^ s) * 2 ^ s"
    using \<open>2 ^ (floorlog 2 v - 1) = _\<close> by simp
  with power_increasing [OF k(2), of "2 :: nat"] have "2 ^ n \<le> round_even v (2 ^ s) * 2 ^ s" by linarith
  then show ?thesis by (simp add: f32_round_def flip: s_def)
qed

text \<open>At \<open>2^26\<close> neighbours are eight apart, and four or less is rounded away.\<close>

lemma f32_stuck:
  assumes "v \<le> 2 ^ 49 + 2 ^ 25" shows "f32_round v 1 \<le> 2 ^ 49"
proof (cases "v < 2 ^ 49")
  case True
  define s where "s = floorlog 2 v - 24"
  have "floorlog 2 v \<le> 49" using True by (simp add: floorlog_leI)
  then have s: "s \<le> 49" by (simp add: s_def)
  have e: "(2 :: nat) ^ 49 = 2 ^ (49 - s) * 2 ^ s" using s by (simp flip: power_add)
  have "v div 2 ^ s < 2 ^ (49 - s)" using True unfolding e by (simp add: less_mult_imp_div_less)
  then have "round_even v (2 ^ s) \<le> 2 ^ (49 - s)" using round_even_near [of "2 ^ s" v] by simp
  then have "round_even v (2 ^ s) * 2 ^ s \<le> 2 ^ 49" unfolding e by simp
  then show ?thesis by (simp add: f32_round_def flip: s_def)
next
  case False
  have "floorlog 2 v \<le> 50" using assms by (intro floorlog_leI) simp_all
  moreover have "50 \<le> floorlog 2 v" using False by (intro floorlog_geI) simp_all
  ultimately have "floorlog 2 v = 50" by simp
  moreover obtain r where r: "v = 2 ^ 23 * 2 ^ 26 + r" "r \<le> 2 ^ 25" using False assms le_Suc_ex [of "2 ^ 49" v] by auto
  have "v mod 2 ^ 26 = r mod 2 ^ 26" unfolding r(1) by (rule mod_mult_self3)
  moreover have "v div 2 ^ 26 = 2 ^ 23" using r by simp
  ultimately show ?thesis using r(2) by (simp add: f32_round_def round_even_def)
qed

lemma thin_out_ends:
  assumes "length raw \<le> 2 ^ 24" "F32_ONE \<le> step" "2 * length raw * F32_ONE \<le> 2 * idx + k * F32_ONE"
  shows "\<exists>out. thin_out (Suc k) step raw idx = Some out \<and> length out \<le> k"
  using assms(3)
proof (induction k arbitrary: idx)
  case 0
  then have "\<not> idx div F32_ONE < length raw"
    by (simp add: div_less_iff_less_mult)
  then show ?case by simp
next
  case (Suc k)
  show ?case
  proof (cases "idx div F32_ONE < length raw")
    case True
    have "2 * idx + F32_ONE \<le> 2 * f32_add idx step \<or> 2 ^ 47 \<le> f32_add idx step"
    proof (cases "idx + step < 2 ^ 47")
      case True
      then show ?thesis using f32_close [OF True] assms(2) by (simp add: f32_add_def)
    qed (use f32_big [of 47 "idx + step"] in \<open>simp add: f32_add_def\<close>)
    then have "2 * length raw * F32_ONE \<le> 2 * f32_add idx step + k * F32_ONE" using Suc.prems assms(1) by auto
    from Suc.IH [OF this] show ?thesis using True by auto
  qed simp
qed

lemma thin_out_hangs:
  assumes "2 ^ 26 < length raw" "step \<le> 4 * F32_ONE" "idx \<le> 2 ^ 49"
  shows "thin_out fuel step raw idx = None"
  using assms(3)
proof (induction fuel arbitrary: idx)
  case (Suc n)
  have "idx div F32_ONE \<le> 2 ^ 26" using Suc.prems by (simp add: div_le_mono [of idx "2 ^ 49" "2 ^ 23", simplified])
  then have "idx div F32_ONE < length raw" using assms(1) by simp
  moreover have "f32_add idx step \<le> 2 ^ 49" using f32_stuck [of "idx + step"] Suc.prems assms(2) by (simp add: f32_add_def)
  ultimately show ?case using Suc.IH by simp
qed simp

text \<open>So does stopping: it ends for a slow device and for a recording of up to \<open>2^24\<close> samples, within twice as many turns. A recording of
  more than \<open>2^26\<close> samples at up to 64000 per second is never finished: the position stands still, and its sample is taken forever.\<close>

lemma rate_step_bound: "rate \<le> 64000 \<Longrightarrow> rate_step rate \<le> 4 * F32_ONE"
proof -
  assume r: "rate \<le> 64000"
  define n where "n = unat rate"
  have n: "n \<le> 64000" using r by (simp add: n_def word_le_nat_alt)
  have "floorlog 2 (n * 2 ^ 23) \<le> 39" using n by (intro floorlog_leI) simp_all
  have f: "f32_of_nat n = n * 2 ^ 23"
  proof -
    define s where "s = floorlog 2 (n * 2 ^ 23) - 24"
    have "s \<le> 23" using \<open>floorlog 2 (n * 2 ^ 23) \<le> 39\<close> by (simp add: s_def)
    then have e: "n * 2 ^ 23 = (n * 2 ^ (23 - s)) * 2 ^ s" by (simp flip: power_add)
    have "round_even (n * 2 ^ 23) (2 ^ s) = n * 2 ^ (23 - s)" unfolding e by (simp add: round_even_def)
    then have "round_even (n * 2 ^ 23) (2 ^ s) * 2 ^ s = n * 2 ^ 23" using e by simp
    then show ?thesis by (simp only: f32_of_nat_def f32_round_def Let_def div_by_1 mult_1 s_def)
  qed
  define q where "q = n * 2 ^ 23 div 16000"
  have "q \<le> 4 * 2 ^ 23" using n by (simp add: q_def)
  show ?thesis
  proof (cases "q < 2 ^ 25")
    case True
    define s where "s = floorlog 2 q - 24"
    have "floorlog 2 q \<le> 25" using True by (intro floorlog_leI) simp_all
    then have s: "s \<le> 1" by (simp add: s_def)
    have "n * 2 ^ 23 div (16000 * 2 ^ s) = q div 2 ^ s" by (simp add: q_def div_mult2_eq)
    moreover have "q div 2 ^ s < 2 ^ (25 - s)" using True s by (cases s) (simp_all add: div_less_iff_less_mult)
    ultimately have "round_even (n * 2 ^ 23) (16000 * 2 ^ s) \<le> 2 ^ (25 - s)"
      using round_even_near [of "16000 * 2 ^ s" "n * 2 ^ 23"] by simp
    then have "round_even (n * 2 ^ 23) (16000 * 2 ^ s) * 2 ^ s \<le> 2 ^ (25 - s) * 2 ^ s" by simp
    also have "\<dots> = 2 ^ 25" using s by (simp flip: power_add)
    finally have "f32_round (n * 2 ^ 23) 16000 \<le> 2 ^ 25" by (simp only: f32_round_def Let_def s_def q_def)
    then show ?thesis by (simp add: rate_step_def f flip: n_def)
  next
    case False
    then have "n = 64000" using n by (simp add: q_def)
    have "floorlog 2 (33554432 :: nat) = 26"
    proof (rule antisym)
      show "floorlog 2 (33554432 :: nat) \<le> 26" by (intro floorlog_leI) simp_all
      show "26 \<le> floorlog 2 (33554432 :: nat)" by (intro floorlog_geI) simp_all
    qed
    then have "f32_round (64000 * 2 ^ 23) 16000 \<le> 2 ^ 25" by (simp add: f32_round_def round_even_def)
    then show ?thesis using f unfolding \<open>n = 64000\<close> by (simp add: rate_step_def \<open>n = 64000\<close> flip: n_def)
  qed
qed

lemma rate_step_one: "F32_ONE \<le> rate_step rate"
  by (simp add: rate_step_def)

lemma downsampled_ends:
  assumes "rate \<le> 16000 \<or> length raw \<le> 2 ^ 24"
  shows "\<exists>out. downsampled (2 * length raw + 1) rate raw = Some out \<and> length out \<le> 2 * length raw"
  using thin_out_ends [of raw "rate_step rate" 0 "2 * length raw"] assms rate_step_one
  by (cases "rate > 16000") (auto simp: downsampled_def not_less)

lemma downsampled_hangs: "2 ^ 26 < length raw \<Longrightarrow> 16000 < rate \<Longrightarrow> rate \<le> 64000 \<Longrightarrow> downsampled fuel rate raw = None"
  using thin_out_hangs [of raw "rate_step rate" 0 fuel] rate_step_bound by (simp add: downsampled_def)

lemma pcm_waveform_done: "\<exists>w. generate_waveform_from_pcm ss 48 = Done w \<and> length w = 48 \<and> list_all (\<lambda>b. 15 \<le> b \<and> b \<le> 100) w"
proof -
  have b: "15 \<le> pcm_bar c \<and> pcm_bar c \<le> 100" for c
  proof -
    define n where "n = min 100 (max 15 (nat (loudest c * 100 div 32767)))"
    have "15 \<le> n" "n \<le> 100" by (auto simp: n_def)
    then show ?thesis by (simp add: pcm_bar_def word_le_nat_alt unat_of_nat take_bit_nat_eq_self flip: n_def)
  qed
  show ?thesis by (auto simp: generate_waveform_from_pcm_def list_all_iff b Let_def)
qed

lemma mic_stop_returns:
  assumes "mc_rate m \<le> 16000 \<or> length (mc_samples m) \<le> 2 ^ 24"
  shows "\<exists>wav w sec. mic_stop (2 * length (mc_samples m) + 1) m = Done (Some ((wav, w, sec), mic_idle m)) \<and> length w = 48 \<and>
    list_all (\<lambda>b. 15 \<le> b \<and> b \<le> 100) w \<and> (mc_samples m \<noteq> [] \<longrightarrow> (\<exists>ss. wav = pcm_to_wav ss 16000 \<and> length ss \<le> 2 * length (mc_samples m)))"
proof (cases "mc_samples m = []")
  case False
  obtain out where o: "downsampled (2 * length (mc_samples m) + 1) (mc_rate m) (mc_samples m) = Some out" "length out \<le> 2 * length (mc_samples m)"
    using downsampled_ends [OF assms] by blast
  obtain w where "generate_waveform_from_pcm out 48 = Done w" "length w = 48" "list_all (\<lambda>b. 15 \<le> b \<and> b \<le> 100) w"
    using pcm_waveform_done by blast
  then show ?thesis using o False by (auto simp: mic_stop_def exec_bind_def)
qed (simp add: mic_stop_def list_all_iff)

lemma mic_stop_hangs:
  "2 ^ 26 < length (mc_samples m) \<Longrightarrow> 16000 < mc_rate m \<Longrightarrow> mc_rate m \<le> 64000 \<Longrightarrow> mic_stop fuel m = Done None"
  by (auto simp: mic_stop_def downsampled_hangs)

text \<open>A slow recording is not changed, yet its file says 16000 samples a second.\<close>

lemma slow_recording_sped_up:
  "mc_rate m \<le> 16000 \<Longrightarrow> mc_samples m \<noteq> [] \<Longrightarrow> \<exists>w. mic_stop fuel m = Done (Some ((pcm_to_wav (mc_samples m) 16000, w, recorded_secs (length (mc_samples m))), mic_idle m))"
  using pcm_waveform_done [of "mc_samples m"] by (auto simp: mic_stop_def downsampled_def exec_bind_def)

text \<open>The loudest sample is drawn as the most quiet bar.\<close>

lemma loudest_is_quiet: "pcm_bar [-32768] = 15 \<and> pcm_bar [-32767] = 100"
  by code_simp

section \<open>The file\<close>

text \<open>A reader of such files, the reverse of the header; and the test of the player.\<close>

definition is_wav :: "bytes \<Rightarrow> bool" where
  "is_wav b \<longleftrightarrow> length b \<ge> 44 \<and> take 4 b = str_bytes ''RIFF''"

definition wav_reads :: "bytes \<Rightarrow> (u32 \<times> i16 list) option" where
  "wav_reads b =
     (if is_wav b \<and> take 8 (drop 8 b) = str_bytes ''WAVEfmt '' \<and> take 4 (drop 36 b) = str_bytes ''data'' \<and> of_be (rev (take 2 (drop 34 b))) = (16 :: u16)
      then Some (of_be (rev (take 4 (drop 24 b))), pcm_of (take (unat (of_be (rev (take 4 (drop 40 b))) :: u32)) (drop 44 b))) else None)"

lemma le_bytes_length [simp]: "length (le_bytes n w) = n"
  by (simp add: le_bytes_def)

lemma wav_roundtrip:
  assumes "length ss < 2 ^ 31" shows "wav_reads (pcm_to_wav ss rate) = Some (rate, ss)"
proof -
  define pcm where "pcm = concat (map le_bytes16 ss)"
  define n :: u32 where "n = of_nat (length ss * 2)"
  have n: "unat n = length pcm" using assms by (simp add: n_def pcm_def length_pcm_bytes unat_of_nat del: of_nat_mult)
  have b: "of_be (rev (le_bytes 4 (w :: u32))) = w" "of_be (rev (le_bytes 2 (v :: u16))) = v" for v w
    by (simp_all add: le_bytes_def of_be_be_bytes_gen)
  have l: "length (str_bytes ''RIFF'') = 4" "length (str_bytes ''WAVE'') = 4" "length (str_bytes ''fmt '') = 4" "length (str_bytes ''data'') = 4"
    "str_bytes ''WAVEfmt '' = str_bytes ''WAVE'' @ str_bytes ''fmt ''" by simp_all
  have w: "pcm_to_wav ss rate = str_bytes ''RIFF'' @ le_bytes 4 (36 + n) @ str_bytes ''WAVE'' @ str_bytes ''fmt '' @ le_bytes 4 (16 :: u32) @
      le_bytes 2 (1 :: u16) @ le_bytes 2 (1 :: u16) @ le_bytes 4 rate @ le_bytes 4 (rate * 1 * 16 div 8) @ le_bytes 2 (2 :: u16) @
      le_bytes 2 (16 :: u16) @ str_bytes ''data'' @ le_bytes 4 n @ pcm"
    by (simp only: pcm_to_wav_def Let_def n_def pcm_def)
  have "pcm_of pcm = ss" by (simp add: pcm_def pcm_of_bytes)
  then show ?thesis unfolding wav_reads_def is_wav_def w by (simp add: l b n)
qed

section \<open>The sound player\<close>

text \<open>Three outputs: sounds and voice messages, the audio of a call, and short effects. What an output holds is what sounds; one that is
  given up falls silent. Times are exact here, while the program has them in single precision.\<close>

record player =
  pl_out :: bool
  pl_sink :: "bytes option"
  pl_call :: "(i16 list \<times> u32) list option"
  pl_fx :: "bytes list option"
  pl_current :: "string option"
  pl_start :: "instant option"
  pl_duration :: rat
  pl_looping :: bool
  pl_loop_wav :: "bytes option"

text \<open>The answers of the sound card; \<open>oi_empty\<close> and \<open>oi_fx_empty\<close> say that an output has played what it had. The tones are computed
  from sines and are arguments (\<open>oi_tone\<close>), so is the tone for a message without a file.\<close>

record output_io =
  oi_opens :: bool
  oi_sink :: bool
  oi_decodes :: "bytes \<Rightarrow> bool"
  oi_now :: instant
  oi_empty :: bool
  oi_fx_empty :: bool
  oi_tone :: "sound \<Rightarrow> bytes"
  oi_synthesized :: "u32 \<Rightarrow> bytes \<Rightarrow> bytes"
  oi_unbase64 :: "string \<Rightarrow> bytes option"

definition player_new :: "bool \<Rightarrow> player" where
  "player_new opens = \<lparr>pl_out = opens, pl_sink = None, pl_call = None, pl_fx = None, pl_current = None, pl_start = None, pl_duration = 0,
     pl_looping = False, pl_loop_wav = None\<rparr>"

definition player_stop :: "player \<Rightarrow> player" where
  "player_stop p = p\<lparr>pl_looping := False, pl_loop_wav := None, pl_sink := None, pl_current := None, pl_start := None, pl_duration := 0\<rparr>"

definition stop_call_audio :: "player \<Rightarrow> player" where
  "stop_call_audio p = p\<lparr>pl_call := None\<rparr>"

definition reopen :: "output_io \<Rightarrow> player \<Rightarrow> player" where
  "reopen io p = (if pl_out p then p else p\<lparr>pl_out := oi_opens io\<rparr>)"

definition shows_playing :: "output_io \<Rightarrow> string \<Rightarrow> rat \<Rightarrow> player \<Rightarrow> player" where
  "shows_playing io name dur p = p\<lparr>pl_current := Some name, pl_start := Some (oi_now io), pl_duration := dur\<rparr>"

text \<open>A file that can not be decoded shows as playing all the same, without a sound.\<close>

definition play_voice_note :: "output_io \<Rightarrow> string \<Rightarrow> voice_note \<Rightarrow> player \<Rightarrow> player" where
  "play_voice_note io i v p =
     (let p = reopen io (player_stop p);
          wav = (case oi_unbase64 io (vn_audio_base64 v) of Some b \<Rightarrow> if is_wav b then b else oi_synthesized io (vn_duration_secs v) (vn_waveform v)
                 | None \<Rightarrow> oi_synthesized io (vn_duration_secs v) (vn_waveform v));
          p = (if pl_out p \<and> oi_sink io \<and> oi_decodes io wav then p\<lparr>pl_sink := Some wav\<rparr> else p) in
      shows_playing io i (of_nat (unat (max (vn_duration_secs v) 1))) p)"

definition play_fx_wav :: "output_io \<Rightarrow> bytes \<Rightarrow> player \<Rightarrow> player" where
  "play_fx_wav io wav p =
     (let p = reopen io p in
      if \<not> pl_out p then p
      else if (case pl_fx p of None \<Rightarrow> True | Some _ \<Rightarrow> oi_fx_empty io) then (if oi_sink io \<and> oi_decodes io wav then p\<lparr>pl_fx := Some [wav]\<rparr> else p)
      else (if oi_decodes io wav then p\<lparr>pl_fx := map_option (\<lambda>q. q @ [wav]) (pl_fx p)\<rparr> else p))"

definition play_on_sink :: "output_io \<Rightarrow> string \<Rightarrow> bytes \<Rightarrow> rat \<Rightarrow> player \<Rightarrow> player" where
  "play_on_sink io name wav dur p =
     (let p = reopen io p in
      if pl_out p \<and> oi_sink io \<and> oi_decodes io wav then shows_playing io name dur (p\<lparr>pl_sink := Some wav\<rparr>) else p)"

definition play_raw_wav_loop :: "output_io \<Rightarrow> bytes \<Rightarrow> rat \<Rightarrow> player \<Rightarrow> player" where
  "play_raw_wav_loop io wav dur p =
     play_on_sink io ''__system_sound_loop__'' wav dur ((player_stop p)\<lparr>pl_looping := True, pl_loop_wav := Some wav\<rparr>)"

definition play_raw_wav :: "output_io \<Rightarrow> bytes \<Rightarrow> rat \<Rightarrow> player \<Rightarrow> player" where
  "play_raw_wav io wav dur p = play_on_sink io ''__system_sound__'' wav dur (player_stop p)"

definition play_sound :: "output_io \<Rightarrow> sound \<Rightarrow> player \<Rightarrow> player" where
  "play_sound io s p = (let wav = oi_tone io s in case s of
      NotificationSound \<Rightarrow> play_fx_wav io wav p
    | SentSound \<Rightarrow> play_fx_wav io wav p
    | RingtoneLoop \<Rightarrow> play_raw_wav_loop io wav (24 / 10) p
    | DialToneLoop \<Rightarrow> play_raw_wav_loop io wav (16 / 10) p
    | HangupSound \<Rightarrow> play_raw_wav io wav (5 / 10) (player_stop p))"

definition start_call_audio :: "output_io \<Rightarrow> player \<Rightarrow> player" where
  "start_call_audio io p =
     (let p = reopen io (player_stop p) in if pl_out p \<and> oi_sink io then p\<lparr>pl_call := Some []\<rparr> else p)"

definition play_call_audio_samples :: "output_io \<Rightarrow> i16 list \<Rightarrow> u32 \<Rightarrow> player \<Rightarrow> player" where
  "play_call_audio_samples io pcm rate p =
     (if pcm = [] then p
      else (let p = (if pl_call p = None then start_call_audio io p else p) in
        case pl_call p of
          None \<Rightarrow> p
        | Some q \<Rightarrow> if length q > 40 then p else p\<lparr>pl_call := Some (q @ [(pcm, rate)])\<rparr>))"

text \<open>\<open>update_progress\<close>, once a frame: the end of what plays, or its next round.\<close>

definition play_progress :: "output_io \<Rightarrow> player \<Rightarrow> rat \<times> rat" where
  "play_progress io p = (case pl_start p of
      None \<Rightarrow> (0, 0)
    | Some t \<Rightarrow> (let elapsed = of_nat (oi_now io - t) / 1000000000 in (elapsed, max 0 (min 1 (elapsed / max (pl_duration p) (1 / 10))))))"

definition play_finished :: "output_io \<Rightarrow> player \<Rightarrow> bool" where
  "play_finished io p = (case play_progress io p of (elapsed, progress) \<Rightarrow>
     progress \<ge> 1 \<or> pl_sink p \<noteq> None \<and> elapsed > 1 / 2 \<and> oi_empty io \<and> progress > 9 / 10)"

definition update_progress :: "output_io \<Rightarrow> player \<Rightarrow> (string option \<times> rat) \<times> player" where
  "update_progress io p = (case pl_current p of
      None \<Rightarrow> ((None, 0), p)
    | Some i \<Rightarrow>
        if pl_start p = None then ((None, 0), p)
        else if \<not> play_finished io p then ((Some i, snd (play_progress io p)), p)
        else (case pl_loop_wav p of
            Some wav \<Rightarrow> if pl_looping p \<and> pl_out p \<and> oi_sink io \<and> oi_decodes io wav
              then ((Some i, 0), p\<lparr>pl_sink := Some wav, pl_start := Some (oi_now io)\<rparr>) else ((None, 0), player_stop p)
          | None \<Rightarrow> ((None, 0), player_stop p)))"

section \<open>The phone rings\<close>

text \<open>What the player does: with an effect of the window, with the requests of the chat, once a frame, and what it has played of a call.\<close>

datatype player_step = Hear effect | Progress | PlayVoice string voice_note | StopVoice | CallPlayed

fun hear :: "output_io \<Rightarrow> effect \<Rightarrow> player \<Rightarrow> player" where
  "hear io (Play s) p = play_sound io s p"
| "hear io StartCallAudio p = start_call_audio io p"
| "hear io StopPlayer p = player_stop p"
| "hear io StopCallAudio p = stop_call_audio p"
| "hear io (PlaySamples pcm rate) p = play_call_audio_samples io pcm rate p"
| "hear io MicStart p = p"
| "hear io MicStop p = p"
| "hear io (Ask r) p = p"

fun player_does :: "output_io \<times> player_step \<Rightarrow> player \<Rightarrow> player" where
  "player_does (io, Hear e) p = hear io e p"
| "player_does (io, Progress) p = snd (update_progress io p)"
| "player_does (io, PlayVoice i v) p = play_voice_note io i v p"
| "player_does (io, StopVoice) p = player_stop p"
| "player_does (io, CallPlayed) p = p\<lparr>pl_call := map_option tl (pl_call p)\<rparr>"

fun heard :: "(output_io \<times> player_step) list \<Rightarrow> effect list" where
  "heard [] = []"
| "heard ((io, Hear e) # h) = e # heard h"
| "heard (_ # h) = heard h"

fun starts_loop :: "effect \<Rightarrow> bool" where
  "starts_loop (Play s) = (s = RingtoneLoop \<or> s = DialToneLoop)"
| "starts_loop _ = False"

fun ends_loop :: "effect \<Rightarrow> bool" where
  "ends_loop (Play s) = (s = HangupSound)"
| "ends_loop StartCallAudio = True"
| "ends_loop StopPlayer = True"
| "ends_loop _ = False"

lemma reopen_keeps [simp]: "pl_looping (reopen io p) = pl_looping p" "pl_call (reopen io p) = pl_call p"
  by (simp_all add: reopen_def)

lemma stop_looping [simp]: "\<not> pl_looping (player_stop p)" "pl_call (player_stop p) = pl_call p"
  by (simp_all add: player_stop_def)

lemma on_sink_looping [simp]: "pl_looping (play_on_sink io i wav d p) = pl_looping p" "pl_call (play_on_sink io i wav d p) = pl_call p"
  by (simp_all add: play_on_sink_def shows_playing_def Let_def)

lemma fx_looping [simp]: "pl_looping (play_fx_wav io wav p) = pl_looping p" "pl_call (play_fx_wav io wav p) = pl_call p"
  by (simp_all add: play_fx_wav_def Let_def)

lemma call_audio_looping [simp]: "\<not> pl_looping (start_call_audio io p)"
  by (simp add: start_call_audio_def Let_def)

lemma does_loops: "pl_looping (player_does (io, x) p) \<Longrightarrow> pl_looping p \<or> (\<exists>e. x = Hear e \<and> starts_loop e)"
proof (cases x)
  case (Hear e)
  assume "pl_looping (player_does (io, x) p)"
  then show ?thesis using Hear
    by (cases e) (auto simp: play_sound_def play_raw_wav_def play_raw_wav_loop_def stop_call_audio_def play_call_audio_samples_def Let_def
        split: sound.splits if_splits option.splits)
qed (auto simp: update_progress_def play_voice_note_def shows_playing_def Let_def split: option.splits if_splits)

lemma ended_loop: "ends_loop e \<Longrightarrow> \<not> pl_looping (hear io e p)"
  by (cases e) (auto simp: play_sound_def play_raw_wav_def Let_def split: sound.splits)

text \<open>After a list of effects it loops only if it did and none of them ended it, or if one started it and none after that ended it.\<close>

lemma heard_loops:
  assumes "pl_looping (fold player_does h p)"
  shows "(pl_looping p \<and> list_all (\<lambda>e. \<not> ends_loop e) (heard h)) \<or> (\<exists>a e b. heard h = a @ e # b \<and> starts_loop e \<and> list_all (\<lambda>e. \<not> ends_loop e) b)"
  using assms
proof (induction h arbitrary: p)
  case (Cons x h)
  obtain io y where x: "x = (io, y)" by fastforce
  let ?p = "player_does (io, y) p"
  from Cons.prems have "pl_looping (fold player_does h ?p)" by (simp add: x)
  from Cons.IH [OF this] show ?case
  proof
    assume l: "pl_looping ?p \<and> list_all (\<lambda>e. \<not> ends_loop e) (heard h)"
    then consider "pl_looping p" | e where "y = Hear e" "starts_loop e" using does_loops by blast
    then show ?thesis
    proof cases
      case 1
      show ?thesis
      proof (cases y)
        case (Hear e)
        then have "\<not> ends_loop e" using l ended_loop by auto
        then show ?thesis using 1 l Hear by (simp add: x)
      qed (use 1 l in \<open>simp_all add: x\<close>)
    next
      case (2 e)
      then have "heard (x # h) = [] @ e # heard h" by (simp add: x)
      then show ?thesis using 2 l by blast
    qed
  next
    assume "\<exists>a e b. heard h = a @ e # b \<and> starts_loop e \<and> list_all (\<lambda>e. \<not> ends_loop e) b"
    then obtain a e b where "heard h = a @ e # b" "starts_loop e" "list_all (\<lambda>e. \<not> ends_loop e) b" by blast
    moreover have "heard (x # h) = (case y of Hear e' \<Rightarrow> e' # a | _ \<Rightarrow> a) @ e # b" using calculation(1) by (cases y) (simp_all add: x)
    ultimately show ?thesis by blast
  qed
qed simp

text \<open>A call that waits to be taken. A step that leaves no such call starts no loop, and ends the one that there may be.\<close>

definition call_waits :: "desktop \<Rightarrow> bool" where
  "call_waits d \<longleftrightarrow> (case dk_call d of Some c \<Rightarrow> \<not> cl_connected c | None \<Rightarrow> False)"

definition hushed :: "desktop \<Rightarrow> desktop \<Rightarrow> effect list \<Rightarrow> bool" where
  "hushed d d' e \<longleftrightarrow> call_waits d' \<or> (list_all (\<lambda>x. \<not> starts_loop x) e \<and> (call_waits d \<longrightarrow> list_ex ends_loop e))"

lemma no_loop_asked [simp]: "list_all (\<lambda>x. \<not> starts_loop x) (ask r d)" "list_all (\<lambda>x. \<not> starts_loop x) (ask_target t f d)"
  by (auto simp: ask_def ask_target_def split: option.split)

lemma silence_hushes [simp]: "list_all (\<lambda>x. \<not> starts_loop x) silence" "list_ex ends_loop silence"
  by (simp_all add: silence_def)

lemma log_hushes [simp]: "list_all (\<lambda>x. \<not> starts_loop x) (snd (log_call_message io u x b d))"
  by (simp add: log_call_message_def Let_def)

lemma hushed_same: "dk_call d' = dk_call d \<Longrightarrow> list_all (\<lambda>x. \<not> starts_loop x) e \<Longrightarrow> hushed d d' e"
  by (auto simp: hushed_def call_waits_def)

lemma signal_hushed: "hushed d (fst (call_signalled lio sec t s d)) (snd (call_signalled lio sec t s d))"
proof (cases "cs_type s")
  case Offer
  then show ?thesis by (auto simp: call_signalled_def call_offered_def hushed_def call_waits_def split: option.splits)
next
  case Answer
  then show ?thesis by (auto simp: call_signalled_def call_answered_def hushed_def call_waits_def split: option.splits)
next
  case Reject
  have "list_all (\<lambda>x. \<not> starts_loop x) (snd (call_rejected lio s d)) \<and> list_ex ends_loop (snd (call_rejected lio s d))"
    by (auto simp: call_rejected_def case_prod_unfold Let_def split: option.split)
  then show ?thesis using Reject by (simp add: call_signalled_def hushed_def)
next
  case Hangup
  have "list_all (\<lambda>x. \<not> starts_loop x) (snd (call_hung_up lio sec s d)) \<and> list_ex ends_loop (snd (call_hung_up lio sec s d))"
    by (auto simp: call_hung_up_def case_prod_unfold Let_def split: option.split)
  then show ?thesis using Hangup by (simp add: call_signalled_def hushed_def)
qed (simp_all add: call_signalled_def hushed_same)

lemma event_hushed: "hushed d (fst (handle_event io e d)) (snd (handle_event io e d))"
proof (cases "(io, e, d)" rule: handle_event.cases)
  case (2 io m d)
  then show ?thesis by (auto simp: message_received_def Let_def intro!: hushed_same split: option.split)
next
  case (6 io s d)
  then show ?thesis using signal_hushed by simp
qed (auto intro!: hushed_same simp: play_samples_def split: option.split)

lemma click_hushed:
  assumes "desk_step E (InCall lio sec now k) d = Done (d', e)" shows "hushed d d' e"
proof (cases "dk_call d")
  case None
  then show ?thesis using assms by (auto simp: call_modal_def intro: hushed_same)
next
  case (Some c)
  have chosen: "hushed d (fst (call_chosen lio sec now ch d1)) (snd (call_chosen lio sec now ch d1))" for ch d1
    by (auto simp: call_chosen_def hushed_def case_prod_unfold Let_def split: call_choice.split option.split)
  show ?thesis
  proof (cases "fst (call_modal k d)")
    case None
    then have "d' = snd (call_modal k d)" "e = []" using assms by (auto split: prod.splits)
    moreover have "call_waits (snd (call_modal k d)) = call_waits d" using None Some
      by (cases k) (auto simp: call_modal_def call_waits_def Let_def split: if_splits)
    ultimately show ?thesis by (simp add: hushed_def)
  next
    case (Some ch)
    then obtain d1 where "call_modal k d = (Some ch, d1)" by (cases "call_modal k d") auto
    then have "call_chosen lio sec now ch d1 = (d', e)" using assms by simp
    then show ?thesis using chosen [of ch d1] by simp
  qed
qed

lemma send_hushed: "send_shown io t x r d = Done (d', e) \<Longrightarrow> list_all (\<lambda>x. \<not> starts_loop x) e"
  by (auto simp: send_shown_def Let_def exec_bind_def split: option.splits if_splits exec.splits)

lemma frame_hushed: "hushed d (fst (call_frame dt now pcm d)) (snd (call_frame dt now pcm d))"
  by (auto simp: call_frame_def hushed_def call_waits_def Let_def split: option.split)

lemma removal_hushes: "list_all (\<lambda>x. \<not> starts_loop x) (snd (sidebar_chosen a d))" "list_all (\<lambda>x. \<not> starts_loop x) (snd (delete_session u d))"
  by (cases a; simp add:) (simp add: delete_session_def Let_def)

lemma step_hushed:
  assumes "desk_step E i d = Done (d', e)" shows "hushed d d' e"
proof (cases i)
  case (InEvent io ev)
  then show ?thesis using assms event_hushed [of d io ev] by simp
next
  case (InFrame dt now smp)
  then show ?thesis using assms frame_hushed [of d dt now smp] by simp
next
  case (InCall lio sec now k)
  then show ?thesis using assms click_hushed by blast
next
  case (InStartCall io u)
  then show ?thesis using assms by (auto simp: with_target_def exec_bind_def start_call_def hushed_def call_waits_def Let_def split: exec.splits)
next
  case (InSend io x r)
  then show ?thesis using assms send_call send_hushed by (auto simp: with_target_def exec_bind_def intro!: hushed_same split: exec.splits)
next
  case (InSidebar a)
  then show ?thesis using assms calls_kept(11) [of a d] removal_hushes(1) [of a d] by (simp add: hushed_same)
next
  case InConfirmDelete
  show ?thesis
  proof (cases "dk_confirm_delete d")
    case (Some u)
    then have "delete_session u d = (d', e)" using assms InConfirmDelete by simp
    then show ?thesis using calls_kept(12) [of u d] removal_hushes(2) [of u d] by (simp add: hushed_same)
  qed (use assms InConfirmDelete in \<open>simp add: hushed_same\<close>)
qed (use assms in \<open>auto simp: with_target_def exec_bind_def send_voice_shown_def send_file_shown_def react_shown_def edit_own_shown_def
    pin_shown_def delete_shown_def delete_everyone_shown_def add_typed_contact_def create_group_shown_def Let_def intro!: hushed_same
    split: exec.splits option.splits if_splits\<close>)

lemma heard_append [simp]: "heard (a @ b) = heard a @ heard b"
  by (induction a rule: heard.induct) simp_all

lemma heard_split: "heard h = e @ r \<Longrightarrow> \<exists>h1 h2. h = h1 @ h2 \<and> heard h1 = e \<and> heard h2 = r"
proof (induction h arbitrary: e rule: heard.induct)
  case (2 io x h)
  show ?case
  proof (cases e)
    case Nil
    then show ?thesis using 2(2) by (metis append_Nil heard.simps(1))
  next
    case (Cons y e')
    then have "heard h = e' @ r" "y = x" using 2(2) by simp_all
    then obtain h1 h2 where "h = h1 @ h2" "heard h1 = e'" "heard h2 = r" using 2(1) by blast
    then have "(io, Hear x) # h = ((io, Hear x) # h1) @ h2 \<and> heard ((io, Hear x) # h1) = e \<and> heard h2 = r" using Cons \<open>y = x\<close> by simp
    then show ?thesis by blast
  qed
next
  case 1
  then show ?case by simp
qed (metis append_Cons heard.simps(3-6))+

lemma step_rings:
  assumes "desk_step E i d = Done (d', e)" "pl_looping p \<longrightarrow> call_waits d" "heard h = e"
  shows "pl_looping (fold player_does h p) \<longrightarrow> call_waits d'"
proof
  assume "pl_looping (fold player_does h p)"
  from heard_loops [OF this] show "call_waits d'"
    using step_hushed [OF assms(1)] assms(2,3) by (auto simp: hushed_def list_all_iff list_ex_iff)
qed

text \<open>The phone rings, and the dial tone sounds, only while a call waits.\<close>

lemma run_rings:
  assumes "desk_run E is d = Done (tr, d')" "heard h = concat (map (snd \<circ> snd) tr)" "pl_looping p \<longrightarrow> call_waits d"
  shows "pl_looping (fold player_does h p) \<longrightarrow> call_waits d'"
  using assms
proof (induction "is" arbitrary: d tr h p)
  case Nil
  then have "heard h = []" by simp
  then show ?case using heard_loops [of h p] Nil by auto
next
  case (Cons i "is")
  obtain d1 e tr1 where s: "desk_step E i d = Done (d1, e)" "desk_run E is d1 = Done (tr1, d')" "tr = (d, i, e) # tr1"
    using Cons.prems(1) by (auto simp: exec_bind_def split: exec.splits)
  have "heard h = e @ concat (map (snd \<circ> snd) tr1)" using Cons.prems(2) by (simp add: s(3) comp_def)
  from heard_split [OF this] obtain h1 h2 where h: "h = h1 @ h2" "heard h1 = e" "heard h2 = concat (map (snd \<circ> snd) tr1)" by blast
  from Cons.IH [OF s(2) h(3) step_rings [OF s(1) Cons.prems(3) h(2)]] show ?case by (simp add: h(1))
qed

text \<open>No more than 41 pieces of a call wait to be played.\<close>

definition call_queue_short :: "player \<Rightarrow> bool" where
  "call_queue_short p \<longleftrightarrow> (case pl_call p of Some q \<Rightarrow> length q \<le> 41 | None \<Rightarrow> True)"

lemma queue_stays_short:
  assumes "call_queue_short p" shows "call_queue_short (player_does (io, x) p)"
proof (cases x)
  case (Hear e)
  then show ?thesis using assms
    by (cases e) (auto simp: call_queue_short_def play_sound_def play_raw_wav_def play_raw_wav_loop_def stop_call_audio_def play_call_audio_samples_def
        start_call_audio_def player_stop_def reopen_def Let_def split: sound.splits option.splits)
qed (use assms in \<open>auto simp: call_queue_short_def update_progress_def play_voice_note_def shows_playing_def player_stop_def reopen_def Let_def
    split: option.splits\<close>)

lemma queue_bounded: "call_queue_short p \<Longrightarrow> call_queue_short (fold player_does h p)"
proof (induction h arbitrary: p)
  case (Cons x h)
  then show ?case using queue_stays_short by (cases x) simp
qed simp

end
