(* ===== verification/Desktop_Views.thy ===== *)
theory Desktop_Views
  imports Desktop_Sound Json_Text
begin

text \<open>
  What the views of the desktop application show and ask for (\<open>theme.rs\<close>, \<open>sidebar.rs\<close>, \<open>chat.rs\<close>, \<open>message_bubble.rs\<close>, \<open>create_group.rs\<close>,
  \<open>settings_modal.rs\<close>, \<open>network_modal.rs\<close>): the rows of the sidebar, the menu of a message, the composer, the dialogs. Colours and places are
  left out. Lower case of Unicode is an argument. The lemmas say which rows there are, and what becomes of what is typed and clicked.
\<close>

section \<open>Text\<close>

function chars_of :: "string \<Rightarrow> string list" where
  "chars_of [] = []"
| "chars_of (c # s) = (c # takeWhile utf8_follows s) # chars_of (dropWhile utf8_follows s)"
  by pat_completeness auto
termination by (relation "measure length") (auto simp: le_imp_less_Suc length_dropWhile_le)

definition truncate_str :: "string \<Rightarrow> nat \<Rightarrow> string" where
  "truncate_str s n = (let cs = chars_of s in if length cs > n then concat (take n cs) @ ''...'' else s)"

definition truncate_id :: "string \<Rightarrow> nat \<Rightarrow> nat \<Rightarrow> string" where
  "truncate_id s front back = (let cs = chars_of s in
     if length cs > front + back + 3 then concat (take front cs) @ ''...'' @ concat (drop (length cs - back) cs) else s)"

definition two_digits :: "nat \<Rightarrow> string" where
  "two_digits n = (if n < 10 then ''0'' else []) @ decimal n"

definition format_time :: "u64 \<Rightarrow> string" where
  "format_time t = two_digits (unat t mod 86400 div 3600) @ '':'' @ two_digits (unat t mod 3600 div 60)"

definition text_has :: "string \<Rightarrow> string \<Rightarrow> bool" where
  "text_has pat s \<longleftrightarrow> str_find pat s \<noteq> None"

definition is_ascii_hexdigit :: "char \<Rightarrow> bool" where
  "is_ascii_hexdigit c \<longleftrightarrow> c \<in> set ''0123456789abcdefABCDEF''"

section \<open>The sidebar\<close>

datatype folder = AllChats | DirectChats | GroupChats | UnreadChats

record sidebar =
  sb_query :: string
  sb_folder :: folder

record row =
  rw_id :: string
  rw_title :: string
  rw_text :: string
  rw_time :: u64
  rw_unread :: nat
  rw_online :: bool
  rw_selected :: bool

definition FAVOURITES :: string where "FAVOURITES = utf8_str [0xD0, 0x98, 0xD0, 0xB7, 0xD0, 0xB1, 0xD1, 0x80, 0xD0, 0xB0, 0xD0, 0xBD, 0xD0, 0xBD, 0xD0, 0xBE, 0xD0, 0xB5]"

definition preview :: "chat_message \<Rightarrow> string" where
  "preview m = (if sm_voice m \<noteq> None then ''Voice Note'' else sm_text m)"

definition last_message :: "(chat_message \<Rightarrow> bool) \<Rightarrow> desktop \<Rightarrow> chat_message option" where
  "last_message P d = find P (rev (dk_messages d))"

definition saved_row :: "desktop \<Rightarrow> row" where
  "saved_row d = (let m = last_message (\<lambda>m. sm_sender m = dk_me d \<and> sm_recipient m = dk_me d \<or> sm_recipient m = SELF_SAVED) d in
     \<lparr>rw_id = SELF_SAVED, rw_title = FAVOURITES, rw_text = (case m of Some m \<Rightarrow> preview m | None \<Rightarrow> ''Encrypted personal storage''),
      rw_time = (case m of Some m \<Rightarrow> sm_timestamp m | None \<Rightarrow> 0), rw_unread = 0, rw_online = False, rw_selected = (dk_chat d = Some SELF_SAVED)\<rparr>)"

definition unread_count :: "string \<Rightarrow> desktop \<Rightarrow> nat" where
  "unread_count u d = length (filter (\<lambda>m. sm_sender m = u \<and> sm_incoming m \<and> \<not> sm_delivered m) (dk_messages d))"

definition contact_row :: "u64 \<Rightarrow> desktop \<Rightarrow> saved_contact \<Rightarrow> row" where
  "contact_row now d c = (let m = last_message (with_peer (sc_user_id c)) d in
     \<lparr>rw_id = sc_user_id c, rw_title = sc_name c, rw_text = (case m of Some m \<Rightarrow> preview m | None \<Rightarrow> ''No messages''),
      rw_time = (case m of Some m \<Rightarrow> sm_timestamp m | None \<Rightarrow> 0), rw_unread = unread_count (sc_user_id c) d,
      rw_online = is_peer_online now (sc_user_id c) d, rw_selected = (dk_chat d = Some (sc_user_id c))\<rparr>)"

text \<open>A search compares the names without their case, and the identifiers as they are.\<close>

definition contact_found :: "(string \<Rightarrow> string) \<Rightarrow> string \<Rightarrow> saved_contact \<Rightarrow> bool" where
  "contact_found lower q c \<longleftrightarrow> q = [] \<or> text_has (lower q) (lower (sc_name c)) \<or> text_has q (sc_user_id c)"

definition contact_rows :: "(string \<Rightarrow> string) \<Rightarrow> u64 \<Rightarrow> sidebar \<Rightarrow> desktop \<Rightarrow> row list" where
  "contact_rows lower now s d =
     (if sb_folder s = AllChats \<or> sb_folder s = DirectChats
      then map (contact_row now d) (filter (\<lambda>c. contact_found lower (sb_query s) c \<and> \<not> (sb_folder s = UnreadChats \<and> unread_count (sc_user_id c) d = 0)) (dk_contacts d))
      else [])"

definition group_row :: "desktop \<Rightarrow> p2p_group \<Rightarrow> row" where
  "group_row d g = (let m = last_message (\<lambda>m. sm_recipient m = pg_id g) d in
     \<lparr>rw_id = pg_id g, rw_title = pg_title g, rw_text = (case m of Some m \<Rightarrow> sm_text m | None \<Rightarrow> ''Group created''),
      rw_time = (case m of Some m \<Rightarrow> sm_timestamp m | None \<Rightarrow> pg_created_at g), rw_unread = 0, rw_online = False,
      rw_selected = (dk_group d = Some (pg_id g))\<rparr>)"

definition group_rows :: "(string \<Rightarrow> string) \<Rightarrow> sidebar \<Rightarrow> desktop \<Rightarrow> row list" where
  "group_rows lower s d =
     (if sb_folder s = AllChats \<or> sb_folder s = GroupChats
      then map (group_row d) (filter (\<lambda>g. sb_query s = [] \<or> text_has (lower (sb_query s)) (lower (pg_title g))) (dk_groups d)) else [])"

text \<open>The search in the network: the user, by the words for oneself, or a node that is no contact, by four hexadecimal digits or more.\<close>

definition SELF_WORDS :: "string list" where
  "SELF_WORDS = [utf8_str [0xD1, 0x8F], ''me'', utf8_str [0xD1, 0x81, 0xD0, 0xB5, 0xD0, 0xB1, 0xD0, 0xB5],
     utf8_str [0xD1, 0x81, 0xD0, 0xB5, 0xD0, 0xB1, 0xD1, 0x8F], utf8_str [0xD0, 0xB2, 0xD1, 0x8B],
     utf8_str [0xD0, 0xB7, 0xD0, 0xB0, 0xD0, 0xBC, 0xD0, 0xB5, 0xD1, 0x82, 0xD0, 0xBA, 0xD0, 0xB8],
     utf8_str [0xD0, 0xB8, 0xD0, 0xB7, 0xD0, 0xB1, 0xD1, 0x80, 0xD0, 0xB0, 0xD0, 0xBD, 0xD0, 0xBD, 0xD0, 0xBE, 0xD0, 0xB5], ''saved'']"

definition global_row :: "(string \<Rightarrow> string) \<Rightarrow> sidebar \<Rightarrow> desktop \<Rightarrow> (string \<times> string) option" where
  "global_row lower s d =
     (let q = lower (rust_trim (sb_query s));
          self = (q = lower (dk_me d) \<or> dk_name d \<noteq> [] \<and> lower (dk_name d) = q \<or> q \<in> set SELF_WORDS);
          known = list_ex (\<lambda>c. lower (sc_user_id c) = q) (dk_contacts d) in
      if rust_trim (sb_query s) = [] then None
      else if self \<and> \<not> known then Some (dk_me d, dk_name d @ YOU_SUFFIX)
      else if length q \<ge> 4 \<and> \<not> known \<and> list_all is_ascii_hexdigit q \<and> q \<noteq> lower (dk_me d) then Some (q, NODE_NAME @ take (min 6 (length q)) q)
      else None)"

section \<open>A message and its menu\<close>

datatype bubble_action = BubbleReply chat_message | BubbleEdit chat_message | BubbleReact string string | BubblePin string | BubbleDelete string
  | BubbleDeleteEveryone string

definition DEFAULT_REACTIONS :: "string list" where
  "DEFAULT_REACTIONS = [utf8_str [0xF0, 0x9F, 0x91, 0x8D], utf8_str [0xE2, 0x9D, 0xA4, 0xEF, 0xB8, 0x8F], utf8_str [0xF0, 0x9F, 0x94, 0xA5], utf8_str [0xF0, 0x9F,
     0x98, 0x82], utf8_str [0xF0, 0x9F, 0x8E, 0x89], utf8_str [0xF0, 0x9F, 0x98, 0xAE], utf8_str [0xF0, 0x9F, 0x98, 0xA2], utf8_str [0xF0, 0x9F, 0x91, 0x8F]]"

text \<open>A text that begins with one of three signs is drawn as an entry of the call log, whoever wrote it, and has no menu.\<close>

definition CALL_SIGNS :: "string list" where
  "CALL_SIGNS = [utf8_str [0xF0, 0x9F, 0x93, 0x9E], utf8_str [0xF0, 0x9F, 0x93, 0xB5], utf8_str [0xF0, 0x9F, 0x9A, 0xAB]]"

definition is_call_event :: "chat_message \<Rightarrow> bool" where
  "is_call_event m \<longleftrightarrow> list_ex (\<lambda>p. starts_with p (sm_text m)) CALL_SIGNS"

definition bubble_offers :: "chat_message \<Rightarrow> bubble_action list" where
  "bubble_offers m =
     (if is_call_event m then []
      else map (\<lambda>r. BubbleReact (sm_id m) (fst r)) (sm_reactions m) @ [BubbleReply m] @ (if sm_incoming m then [] else [BubbleEdit m]) @ [BubblePin (sm_id m)] @
        map (BubbleReact (sm_id m)) DEFAULT_REACTIONS @ [BubbleDelete (sm_id m), BubbleDeleteEveryone (sm_id m)])"

text \<open>The ticks after the time of an own message.\<close>

definition ticks :: "chat_message \<Rightarrow> nat" where
  "ticks m = (if sm_incoming m then 0 else if sm_delivered m then 2 else 1)"

section \<open>The composer\<close>

record composer =
  cp_input :: string
  cp_reply :: "chat_message option"
  cp_edit :: "chat_message option"

datatype chat_event = AskSend string "string option" | AskReact string string | AskEdit string string | AskPin string | AskDelete string
  | AskDeleteEveryone string

fun bubble_chosen :: "bubble_action \<Rightarrow> composer \<Rightarrow> chat_event option \<times> composer" where
  "bubble_chosen (BubbleReply m) c = (None, c\<lparr>cp_reply := Some m\<rparr>)"
| "bubble_chosen (BubbleEdit m) c = (None, c\<lparr>cp_input := sm_text m, cp_edit := Some m\<rparr>)"
| "bubble_chosen (BubbleReact i emoji) c = (Some (AskReact i emoji), c)"
| "bubble_chosen (BubblePin i) c = (Some (AskPin i), c)"
| "bubble_chosen (BubbleDelete i) c = (Some (AskDelete i), c)"
| "bubble_chosen (BubbleDeleteEveryone i) c = (Some (AskDeleteEveryone i), c)"

text \<open>The bar over the composer: an answer hides an edit.\<close>

datatype context_bar = Replying string | Editing string | NoBar

definition bar_shown :: "composer \<Rightarrow> context_bar" where
  "bar_shown c = (case cp_reply c of Some m \<Rightarrow> Replying (sm_text m) | None \<Rightarrow> (case cp_edit c of Some m \<Rightarrow> Editing (sm_text m) | None \<Rightarrow> NoBar))"

definition close_bar :: "composer \<Rightarrow> composer" where
  "close_bar c = (case cp_reply c of Some m \<Rightarrow> c\<lparr>cp_reply := None\<rparr>
     | None \<Rightarrow> (case cp_edit c of Some m \<Rightarrow> c\<lparr>cp_edit := None, cp_input := []\<rparr> | None \<Rightarrow> c))"

text \<open>The button, or the enter key, sends what was typed; there is no button for an empty text.\<close>

definition press_send :: "composer \<Rightarrow> chat_event option \<times> composer" where
  "press_send c =
     (let text = rust_trim (cp_input c) in
      if text = [] then (None, c)
      else (case cp_edit c of
          Some m \<Rightarrow> (Some (AskEdit (sm_id m) text), c\<lparr>cp_edit := None, cp_input := []\<rparr>)
        | None \<Rightarrow> (Some (AskSend text (map_option sm_id (cp_reply c))), c\<lparr>cp_reply := None, cp_input := []\<rparr>)))"

text \<open>What the window makes of these events.\<close>

fun event_input :: "ui_io \<Rightarrow> chat_event \<Rightarrow> desk_input" where
  "event_input io (AskSend x reply) = InSend io x reply"
| "event_input io (AskReact i emoji) = InReact i emoji"
| "event_input io (AskEdit i x) = InEdit i x"
| "event_input io (AskPin i) = InPin i"
| "event_input io (AskDelete i) = InDelete i"
| "event_input io (AskDeleteEveryone i) = InDeleteEveryone i"

section \<open>The dialog for a group\<close>

record group_dialog =
  gd_open :: bool
  gd_title :: string
  gd_members :: "string list"

datatype dialog_click = ClickCancel | ClickCreate | ClickCross | ClickMember string

text \<open>The last line writes back what was read at the start: whether the window is open is decided by the cross alone. The members are a set
  in the program, listed here in the order of the clicks; it hands them over in an arbitrary order.\<close>

definition group_dialog_click :: "dialog_click \<Rightarrow> group_dialog \<Rightarrow> (string \<times> string list) option \<times> group_dialog" where
  "group_dialog_click k g =
     (if \<not> gd_open g then (None, g)
      else (let is_open = (k \<noteq> ClickCross);
                title = rust_trim (gd_title g);
                (out, g) = (case k of
                    ClickCancel \<Rightarrow> (None, g\<lparr>gd_open := False\<rparr>)
                  | ClickCreate \<Rightarrow> if title \<noteq> [] then (Some (title, gd_members g), \<lparr>gd_open = False, gd_title = [], gd_members = []\<rparr>) else (None, g)
                  | ClickCross \<Rightarrow> (None, g)
                  | ClickMember u \<Rightarrow> (None, g\<lparr>gd_members := (if u \<in> set (gd_members g) then removeAll u (gd_members g) else gd_members g @ [u])\<rparr>)) in
            (out, g\<lparr>gd_open := is_open\<rparr>)))"

section \<open>Settings\<close>

datatype theme_mode = DarkTheme | MidnightTheme | MatrixTheme | DayTheme

record settings =
  se_onion :: bool
  se_ringtone :: bool
  se_zen :: bool
  se_send_on_enter :: bool
  se_compact :: bool
  se_load_media :: bool
  se_load_voice :: bool
  se_load_files :: bool
  se_auto_delete :: u64
  se_modulator :: string
  se_theme :: theme_mode
  se_accent :: "(u8 \<times> u8 \<times> u8) option"
  se_wallpaper :: string
  se_night :: bool
  se_relay :: bool
  se_embed :: bool
  se_relay_shown :: bool
  se_upnp_shown :: bool
  se_token :: string
  se_bio :: string

definition settings_new :: settings where
  "settings_new = \<lparr>se_onion = True, se_ringtone = True, se_zen = False, se_send_on_enter = True, se_compact = True,
     se_load_media = True, se_load_voice = True, se_load_files = False, se_auto_delete = 0,
     se_modulator = utf8_str [0xD0, 0x9E, 0xD1, 0x80, 0xD0, 0xB8, 0xD0, 0xB3, 0xD0, 0xB8, 0xD0, 0xBD, 0xD0, 0xB0, 0xD0, 0xBB],
     se_theme = DarkTheme, se_accent = None, se_wallpaper = ''mesh'', se_night = False, se_relay = False, se_embed = False,
     se_relay_shown = True, se_upnp_shown = True, se_token = [], se_bio = ''Decentralized P2P User''\<rparr>"

text \<open>One type of clicks for each tab.\<close>

datatype account_click = TypeName string | TypeBio string | CopyText
datatype session_click = EndOtherSessions | EndSession string | NewToken u32 | CopyToken
datatype notify_click = ToggleNotify | ToggleRingtone | ToggleZen | TestSound | TestRingtone | StopSound
datatype chat_click = ToggleEnter | ToggleCompact | ToggleMedia | ToggleVoice | ToggleFiles | AutoDelete u64 | Modulator string
datatype look_click = ChooseTheme theme_mode | DefaultAccent | ChooseAccent "u8 \<times> u8 \<times> u8"
datatype canvas_click = Wallpaper string | ToggleNight
datatype network_click = ToggleRelayShown | ToggleUpnpShown
datatype advanced_click = ToggleRelay | ToggleHops | ToggleEmbed | ClearCache instant | ClearAllHistory

datatype settings_click = OnAccount account_click | OnSessions session_click | OnNotify notify_click | ToggleOnion | OnChat chat_click | OnLook look_click
  | OnCanvas canvas_click | ChooseFolder folder | OnNetwork network_click | OnAdvanced advanced_click

type_synonym settings_state = "settings \<times> sidebar \<times> desktop"

definition SYSTEM_NAME :: string where "SYSTEM_NAME = utf8_str [0xD0, 0xA1, 0xD0, 0xB8, 0xD1, 0x81, 0xD1, 0x82, 0xD0, 0xB5, 0xD0, 0xBC, 0xD0, 0xB0]"
definition CACHE_TEXT :: string where
  "CACHE_TEXT = utf8_str [0xD0, 0x9A, 0xD1, 0x8D, 0xD1, 0x88, 0x20, 0xD0, 0xBC, 0xD0, 0xB5, 0xD0, 0xB4, 0xD0, 0xB8, 0xD0, 0xB0, 0x20, 0xD0, 0xB8, 0x20, 0xD0, 0xB2,
     0xD1, 0x80, 0xD0, 0xB5, 0xD0, 0xBC, 0xD0, 0xB5, 0xD0, 0xBD, 0xD0, 0xBD, 0xD1, 0x8B, 0xD0, 0xB5, 0x20, 0xD1, 0x84, 0xD0, 0xB0, 0xD0, 0xB9, 0xD0, 0xBB, 0xD1,
     0x8B, 0x20, 0xD1, 0x83, 0xD1, 0x81, 0xD0, 0xBF, 0xD0, 0xB5, 0xD1, 0x88, 0xD0, 0xBD, 0xD0, 0xBE, 0x20, 0xD0, 0xBE, 0xD1, 0x87, 0xD0, 0xB8, 0xD1, 0x89, 0xD0,
     0xB5, 0xD0, 0xBD, 0xD1, 0x8B, 0x21]"

definition ALL_HISTORY :: string where "ALL_HISTORY = ''all_chat_history''"

definition pair_token :: "desktop \<Rightarrow> u32 \<Rightarrow> string" where
  "pair_token d r = ''nodex://pair/'' @ dk_me d @ ''/'' @ decimal (unat r)"

fun account_chosen :: "account_click \<Rightarrow> settings \<times> desktop \<Rightarrow> (settings \<times> desktop) \<times> effect list" where
  "account_chosen (TypeName x) (s, d) = ((s, d\<lparr>dk_name := x\<rparr>), [])"
| "account_chosen (TypeBio x) (s, d) = ((s\<lparr>se_bio := x\<rparr>, d), [])"
| "account_chosen CopyText (s, d) = ((s, d), [Play SentSound])"

text \<open>Ending a session, and clearing the history, opens the dialog that asks first (\<open>InConfirmDelete\<close>). The table of downloads, which is only ever
  cleared, is left out.\<close>

fun session_chosen :: "session_click \<Rightarrow> settings \<times> desktop \<Rightarrow> settings \<times> desktop" where
  "session_chosen EndOtherSessions (s, d) = (s, if list_ex (\<lambda>x. \<not> dv_current x) (dk_sessions d) then d\<lparr>dk_confirm_delete := Some ALL_SESSIONS\<rparr> else d)"
| "session_chosen (EndSession i) (s, d) = (s, if list_ex (\<lambda>x. dv_id x = i \<and> \<not> dv_current x) (dk_sessions d) then d\<lparr>dk_confirm_delete := Some i\<rparr> else d)"
| "session_chosen (NewToken r) (s, d) = (s\<lparr>se_token := pair_token d r\<rparr>, d)"
| "session_chosen CopyToken (s, d) = (s, d)"

fun notify_chosen :: "notify_click \<Rightarrow> settings \<times> desktop \<Rightarrow> (settings \<times> desktop) \<times> effect list" where
  "notify_chosen ToggleNotify (s, d) = ((s, d\<lparr>dk_notify := \<not> dk_notify d\<rparr>), [])"
| "notify_chosen ToggleRingtone (s, d) = ((s\<lparr>se_ringtone := \<not> se_ringtone s\<rparr>, d), [])"
| "notify_chosen ToggleZen (s, d) = ((s\<lparr>se_zen := \<not> se_zen s\<rparr>, d), [])"
| "notify_chosen TestSound (s, d) = ((s, d), [Play SentSound])"
| "notify_chosen TestRingtone (s, d) = ((s, d), [Play RingtoneLoop])"
| "notify_chosen StopSound (s, d) = ((s, d), [StopPlayer])"

text \<open>The choices are those of the lists that are shown.\<close>

fun chat_chosen :: "chat_click \<Rightarrow> settings \<Rightarrow> settings" where
  "chat_chosen ToggleEnter s = s\<lparr>se_send_on_enter := \<not> se_send_on_enter s\<rparr>"
| "chat_chosen ToggleCompact s = s\<lparr>se_compact := \<not> se_compact s\<rparr>"
| "chat_chosen ToggleMedia s = s\<lparr>se_load_media := \<not> se_load_media s\<rparr>"
| "chat_chosen ToggleVoice s = s\<lparr>se_load_voice := \<not> se_load_voice s\<rparr>"
| "chat_chosen ToggleFiles s = s\<lparr>se_load_files := \<not> se_load_files s\<rparr>"
| "chat_chosen (AutoDelete n) s = (if n \<in> {0, 86400, 604800, 2592000} then s\<lparr>se_auto_delete := n\<rparr> else s)"
| "chat_chosen (Modulator x) s = (if x \<in> {''normal'', ''robot'', ''deep'', ''crypto''} then s\<lparr>se_modulator := x\<rparr> else s)"

definition SWATCHES :: "(u8 \<times> u8 \<times> u8) list" where
  "SWATCHES = [(0, 122, 255), (0, 229, 255), (0, 200, 83), (124, 77, 255), (255, 64, 129), (255, 171, 0), (255, 82, 82), (0, 191, 165), (120, 144, 156)]"

fun look_chosen :: "look_click \<Rightarrow> settings \<Rightarrow> settings" where
  "look_chosen (ChooseTheme m) s = s\<lparr>se_theme := m\<rparr>"
| "look_chosen DefaultAccent s = s\<lparr>se_accent := None\<rparr>"
| "look_chosen (ChooseAccent c) s = (if c \<in> set SWATCHES then s\<lparr>se_accent := Some c\<rparr> else s)"

fun canvas_chosen :: "canvas_click \<Rightarrow> settings \<Rightarrow> settings" where
  "canvas_chosen (Wallpaper x) s = (if x \<in> {''solid'', ''mesh'', ''hexagons''} then s\<lparr>se_wallpaper := x\<rparr> else s)"
| "canvas_chosen ToggleNight s = s\<lparr>se_night := \<not> se_night s\<rparr>"

fun network_chosen :: "network_click \<Rightarrow> settings \<Rightarrow> settings" where
  "network_chosen ToggleRelayShown s = s\<lparr>se_relay_shown := \<not> se_relay_shown s\<rparr>"
| "network_chosen ToggleUpnpShown s = s\<lparr>se_upnp_shown := \<not> se_upnp_shown s\<rparr>"

fun advanced_chosen :: "advanced_click \<Rightarrow> settings \<times> desktop \<Rightarrow> (settings \<times> desktop) \<times> effect list" where
  "advanced_chosen ToggleRelay (s, d) = ((s\<lparr>se_relay := \<not> se_relay s\<rparr>, d), [])"
| "advanced_chosen ToggleHops (s, d) = ((s\<lparr>se_onion := \<not> se_onion s\<rparr>, d), [])"
| "advanced_chosen ToggleEmbed (s, d) = ((s\<lparr>se_embed := \<not> se_embed s\<rparr>, d), [])"
| "advanced_chosen (ClearCache t) (s, d) =
     ((s, d\<lparr>dk_toast := Some \<lparr>to_sender = ''system'', to_name = SYSTEM_NAME, to_text = CACHE_TEXT, to_created = t\<rparr>\<rparr>), [Play SentSound])"
| "advanced_chosen ClearAllHistory (s, d) = ((s, d\<lparr>dk_confirm_delete := Some ALL_HISTORY\<rparr>), [])"

definition with_sidebar :: "sidebar \<Rightarrow> (settings \<times> desktop) \<times> effect list \<Rightarrow> settings_state \<times> effect list" where
  "with_sidebar b r = ((fst (fst r), b, snd (fst r)), snd r)"

fun settings_chosen :: "settings_click \<Rightarrow> settings_state \<Rightarrow> settings_state \<times> effect list" where
  "settings_chosen (OnAccount k) (s, b, d) = with_sidebar b (account_chosen k (s, d))"
| "settings_chosen (OnSessions k) (s, b, d) = with_sidebar b (session_chosen k (s, d), [])"
| "settings_chosen (OnNotify k) (s, b, d) = with_sidebar b (notify_chosen k (s, d))"
| "settings_chosen ToggleOnion (s, b, d) = ((s\<lparr>se_onion := \<not> se_onion s\<rparr>, b, d), [])"
| "settings_chosen (OnChat k) (s, b, d) = ((chat_chosen k s, b, d), [])"
| "settings_chosen (OnLook k) (s, b, d) = ((look_chosen k s, b, d), [])"
| "settings_chosen (OnCanvas k) (s, b, d) = ((canvas_chosen k s, b, d), [])"
| "settings_chosen (ChooseFolder f) (s, b, d) = ((s, b\<lparr>sb_folder := f\<rparr>, d), [])"
| "settings_chosen (OnNetwork k) (s, b, d) = ((network_chosen k s, b, d), [])"
| "settings_chosen (OnAdvanced k) (s, b, d) = with_sidebar b (advanced_chosen k (s, d))"

section \<open>The network window\<close>

record net_stats =
  ns_peers :: nat
  ns_nodes :: nat
  ns_nat :: string

definition net_stats_new :: net_stats where
  "net_stats_new = \<lparr>ns_peers = 14, ns_nodes = 52, ns_nat = ''Full Cone (P2P Direct)''\<rparr>"

definition refresh_dht :: "net_stats \<Rightarrow> net_stats" where
  "refresh_dht n = n\<lparr>ns_peers := ns_peers n + 1, ns_nodes := ns_nodes n + 3\<rparr>"

definition bucket_lines :: "(nat \<times> nat) list" where
  "bucket_lines = map (\<lambda>i. (i, i mod 7 + 1)) [0, 4, 12, 48, 128, 255]"

section \<open>Text that fits\<close>

lemma concat_chars [simp]: "concat (chars_of s) = s"
  by (induction s rule: chars_of.induct) simp_all

lemma truncate_short: "length (chars_of s) \<le> n \<Longrightarrow> truncate_str s n = s"
  by (simp add: truncate_str_def Let_def)

lemma truncate_prefix: "\<exists>t u. truncate_str s n = t @ u \<and> (\<exists>v. s = t @ v) \<and> u \<in> {[], ''...''}"
proof (cases "length (chars_of s) > n")
  case True
  have "s = concat (take n (chars_of s)) @ concat (drop n (chars_of s))" by (metis append_take_drop_id concat_append concat_chars)
  then show ?thesis using True by (auto simp: truncate_str_def)
next
  case False
  then have "truncate_str s n = s @ [] \<and> (\<exists>v. s = s @ v)" by (simp add: truncate_str_def)
  then show ?thesis by blast
qed

lemma format_time_length: "length (format_time t) = 5"
proof -
  have d: "length (two_digits n) = 2" if "n < 100" for n
  proof (cases "n < 10")
    case False
    then have "n div 10 < 10" using that by (simp add: div_less_iff_less_mult)
    then show ?thesis using False by (simp add: two_digits_def decimal.simps [of n] decimal.simps [of "n div 10"])
  qed (simp add: two_digits_def decimal.simps [of n])
  have "unat t mod 86400 div 3600 < 100" "unat t mod 3600 div 60 < 100" by (simp_all add: div_less_iff_less_mult)
  then show ?thesis by (simp add: format_time_def d)
qed

section \<open>What is never shown\<close>

text \<open>The tab for unread chats has no rows for contacts and groups.\<close>

lemma unread_tab_empty: "sb_folder s = UnreadChats \<Longrightarrow> contact_rows lower now s d = [] \<and> group_rows lower s d = []"
  by (simp add: contact_rows_def group_rows_def)

text \<open>Nor is any message unread: what comes in is stored as delivered.\<close>

definition all_read :: "desktop \<Rightarrow> bool" where
  "all_read d \<longleftrightarrow> list_all (\<lambda>m. sm_incoming m \<longrightarrow> sm_delivered m) (dk_messages d)"

lemma read_counts_none: "all_read d \<Longrightarrow> unread_count u d = 0"
  by (auto simp: all_read_def unread_count_def list_all_iff filter_empty_conv)

fun brings_read :: "desk_input \<Rightarrow> bool" where
  "brings_read (InEvent io (FromInbox (EvMessage m))) \<longleftrightarrow> sm_delivered m"
| "brings_read _ \<longleftrightarrow> True"

lemma read_kept [simp]:
  "all_read (mark_peer_active n u d) = all_read d" "all_read (add_own_contact d) = all_read d" "all_read (own_toast uio x d) = all_read d"
  by (auto simp: all_read_def mark_peer_active_def add_own_contact_def own_toast_def)

lemma read_update: "list_all P xs \<Longrightarrow> (\<And>m. P m \<Longrightarrow> P (f m)) \<Longrightarrow> list_all P (update_first Q f xs)"
  by (induction xs) auto

lemma read_filter: "list_all P xs \<Longrightarrow> list_all P (filter Q xs)"
  by (simp add: list_all_iff)

lemma read_more [simp]:
  "all_read d \<Longrightarrow> \<not> sm_incoming m \<or> sm_delivered m \<Longrightarrow> all_read (show_own m d)"
  "all_read d \<Longrightarrow> all_read (fst (log_call_message lio u x b d))"
  "all_read d \<Longrightarrow> all_read (d\<lparr>dk_messages := filter P (dk_messages d)\<rparr>)"
  by (auto simp: all_read_def show_own_def log_call_message_def log_entry_def list_all_iff Let_def)

lemma event_reads: "brings_read (InEvent io e) \<Longrightarrow> all_read d \<Longrightarrow> all_read (fst (handle_event io e d))"
proof (cases "(io, e, d)" rule: handle_event.cases)
  case (2 io' m d')
  assume "brings_read (InEvent io e)" "all_read d"
  then show ?thesis using 2 by (auto simp: message_received_def all_read_def mark_peer_active_def add_own_contact_def Let_def split: option.split)
next
  case (6 io' s d')
  assume "all_read d"
  then show ?thesis using 6
    by (auto simp: call_signalled_def call_offered_def call_answered_def call_rejected_def call_hung_up_def all_read_def log_call_message_def
        log_entry_def Let_def split: call_signal_type.split option.split)
qed (auto simp: all_read_def delivery_shown_def edit_shown_def reaction_shown_def Let_def intro!: read_update read_filter)

lemma click_reads:
  assumes "desk_step E (InCall lio sec now k) d = Done (d', e)" "all_read d" shows "all_read d'"
proof -
  have "all_read (snd (call_modal k d))" using assms(2) by (auto simp: call_modal_def all_read_def Let_def split: option.split call_click.split)
  moreover have "all_read d1 \<Longrightarrow> all_read (fst (call_chosen lio sec now ch d1))" for ch d1
    by (auto simp: call_chosen_def all_read_def log_call_message_def log_entry_def case_prod_unfold Let_def split: call_choice.split option.split)
  ultimately show ?thesis using assms(1) by (auto split: prod.splits option.splits) (metis fst_conv)
qed

lemma send_reads_all: "send_shown io t x r d = Done (d', e) \<Longrightarrow> all_read d \<Longrightarrow> all_read d'"
  by (auto simp: send_shown_def shown_message_def show_own_def all_read_def own_toast_def add_own_contact_def Let_def exec_bind_def
      split: option.splits if_splits exec.splits)

lemma step_reads:
  assumes "desk_step E i d = Done (d', e)" "brings_read i" "all_read d" shows "all_read d'"
proof (cases i)
  case (InEvent io ev)
  then show ?thesis using assms event_reads [of io ev d] by simp
next
  case (InFrame dt now smp)
  then show ?thesis using assms by (auto simp: call_frame_def all_read_def Let_def split: option.splits if_splits)
next
  case (InCall lio sec now k)
  then show ?thesis using assms click_reads by blast
next
  case (InSend io x r)
  then show ?thesis using assms send_reads_all by (auto simp: with_target_def exec_bind_def split: exec.splits)
next
  case (InSidebar a)
  then show ?thesis using assms by (cases a) (auto simp: all_read_def list_all_iff)
next
  case InConfirmDelete
  then show ?thesis using assms by (auto simp: delete_session_def all_read_def Let_def intro!: read_filter split: option.splits if_splits)
qed (use assms in \<open>auto simp: with_target_def exec_bind_def send_voice_shown_def send_file_shown_def react_shown_def edit_own_shown_def
    edit_shown_def pin_shown_def delete_shown_def drop_shown_def delete_everyone_shown_def start_call_def add_typed_contact_def create_group_shown_def shown_message_def
    show_own_def own_toast_def add_own_contact_def all_read_def Let_def intro!: read_update read_filter
    split: exec.splits option.splits if_splits\<close>)

lemma run_reads: "desk_run E is d = Done (tr, d') \<Longrightarrow> list_all brings_read is \<Longrightarrow> all_read d \<Longrightarrow> all_read d'"
proof (induction "is" arbitrary: d tr)
  case (Cons i "is")
  then show ?case using step_reads by (fastforce simp: exec_bind_def split: exec.splits)
qed simp

text \<open>The settings ask the messenger for nothing: they change what is shown, and make sounds.\<close>

lemma settings_ask_nothing: "Ask r \<notin> set (snd (settings_chosen k x))"
proof -
  obtain s b d where x: "x = (s, b, d)" by (cases x)
  have "Ask r \<notin> set (snd (account_chosen j (s, d)))" for j by (cases j) simp_all
  moreover have "Ask r \<notin> set (snd (notify_chosen j (s, d)))" for j by (cases j) simp_all
  moreover have "Ask r \<notin> set (snd (advanced_chosen j (s, d)))" for j by (cases j) simp_all
  ultimately show ?thesis unfolding x by (cases k) (simp_all add: with_sidebar_def)
qed

text \<open>The button that clears the whole history: once confirmed, it asks to delete a contact with the name of the button.\<close>

lemma history_not_cleared:
  assumes "\<not> list_ex (\<lambda>s. dv_id s = ALL_HISTORY) (dk_sessions d)" "list_all (\<lambda>m. \<not> with_peer ALL_HISTORY m \<and> sm_group_id m \<noteq> Some ALL_HISTORY) (dk_messages d)"
  shows "snd (settings_chosen (OnAdvanced ClearAllHistory) (s, b, d)) = []"
    "\<exists>d2. desk_step E InConfirmDelete (snd (snd (fst (settings_chosen (OnAdvanced ClearAllHistory) (s, b, d))))) =
       Done (d2, if dk_backend d then [Ask (RqDeleteContact ALL_HISTORY)] else []) \<and> dk_messages d2 = dk_messages d"
proof -
  have n: "ALL_HISTORY \<noteq> ALL_SESSIONS" by (simp add: ALL_HISTORY_def ALL_SESSIONS_def)
  have "filter (\<lambda>m. \<not> with_peer ALL_HISTORY m \<and> sm_group_id m \<noteq> Some ALL_HISTORY) (dk_messages d) = dk_messages d"
    using assms(2) by (simp add: list_all_iff filter_id_conv)
  then show "\<exists>d2. desk_step E InConfirmDelete (snd (snd (fst (settings_chosen (OnAdvanced ClearAllHistory) (s, b, d))))) =
       Done (d2, if dk_backend d then [Ask (RqDeleteContact ALL_HISTORY)] else []) \<and> dk_messages d2 = dk_messages d"
    using assms(1) n by (simp add: delete_session_def ask_def with_sidebar_def Let_def)
qed (simp add: with_sidebar_def)

text \<open>The dialog for a group stays open when it was cancelled and when the group was made.\<close>

lemma group_dialog_stays: "gd_open g \<Longrightarrow> k \<noteq> ClickCross \<Longrightarrow> gd_open (snd (group_dialog_click k g))"
  by (cases k) (auto simp: group_dialog_click_def Let_def)

text \<open>A text with the sign of a call looks like a call that was never made, and can not be deleted from the window.\<close>

lemma call_event_no_menu: "list_ex (\<lambda>p. starts_with p (sm_text m)) CALL_SIGNS \<Longrightarrow> bubble_offers m = []"
  by (simp add: bubble_offers_def is_call_event_def)

section \<open>What is sent from the composer\<close>

lemma press_send_event:
  "fst (press_send c) = Some (AskSend x r) \<longleftrightarrow> x = rust_trim (cp_input c) \<and> x \<noteq> [] \<and> cp_edit c = None \<and> r = map_option sm_id (cp_reply c)"
  "fst (press_send c) = Some (AskEdit i x) \<longleftrightarrow> x = rust_trim (cp_input c) \<and> x \<noteq> [] \<and> (\<exists>m. cp_edit c = Some m \<and> i = sm_id m)"
  by (auto simp: press_send_def Let_def split: option.split)

text \<open>The bar does not tell which of the two it will be: with an answer over an edit it shows the answer, and the edit is sent.\<close>

lemma bar_misleads: "cp_reply c = Some r \<Longrightarrow> cp_edit c = Some m \<Longrightarrow> rust_trim (cp_input c) \<noteq> [] \<Longrightarrow>
    bar_shown c = Replying (sm_text r) \<and> fst (press_send c) = Some (AskEdit (sm_id m) (rust_trim (cp_input c)))"
  by (simp add: bar_shown_def press_send_def Let_def)

text \<open>The composer does not know of the chat: an edit that was begun in one chat and finished in another one goes to the other one.\<close>

lemma edit_follows_chat:
  assumes "rust_trim (sm_text m) \<noteq> []" "u \<noteq> SELF_SAVED" "dk_backend d" "u \<noteq> dk_me d" "u \<in> sc_user_id ` set (dk_contacts d)"
  shows "\<exists>d1 d2. desk_step E (InSelectChat u) d = Done (d1, []) \<and>
    fst (press_send (snd (bubble_chosen (BubbleEdit m) c))) = Some (AskEdit (sm_id m) (rust_trim (sm_text m))) \<and>
    desk_step E (event_input io (AskEdit (sm_id m) (rust_trim (sm_text m)))) d1 = Done (d2, [Ask (RqEdit u (sm_id m) (rust_trim (sm_text m)))])"
proof -
  let ?d = "d\<lparr>dk_chat := Some u, dk_group := None\<rparr>"
  obtain k where f: "find (\<lambda>c. sc_user_id c = u) (dk_contacts d) = Some k" using assms(5) by (fastforce simp: find_None_iff)
  then have "sc_user_id k = u" by (auto simp: find_Some_iff)
  moreover have "active_contact ?d = Done (Some k)" using assms(2,4) f by (simp add: active_contact_def saved_shown_def self_shown_def)
  ultimately have k: "active_contact ?d = Done (Some k)" "sc_user_id k = u" by simp_all
  then have "active_target (Some k) ?d = Some u" using assms(2) by (simp add: active_target_def saved_shown_def self_shown_def)
  then show ?thesis using assms(1,2,3) k(1)
    by (simp add: press_send_def with_target_def exec_bind_def edit_own_shown_def ask_target_def saved_shown_def ask_def edit_shown_def Let_def)
qed

end
