(* ===== verification/Command_Line.thy ===== *)
theory Command_Line
  imports Messenger Config_State Kademlia_Node
begin

text \<open>
  The command line (\<open>nodex-cli/src/main.rs\<close>): the options over the configuration file, the line that is read as a command, and what each
  command does with the node and the messenger. What is printed, written to a file and sent is a list of effects. The lemmas say
  that a command reads as it is written, what the commands do to contacts, and where the program panics.
\<close>

section \<open>Options\<close>

record cli =
  co_config :: "string option"
  co_port :: "u16 option"
  co_ip :: "string option"
  co_bootstrap :: "socket_addr option"
  co_no_bootstrap :: bool
  co_state_file :: "string option"
  co_name :: string
  co_daemon :: bool

text \<open>The configuration file when it is named and exists (\<open>file\<close>); an error when reading it ends the program.\<close>

definition base_config :: "addr_fmt \<Rightarrow> (string \<Rightarrow> string option) \<Rightarrow> cli \<Rightarrow> node_config exec" where
  "base_config f file c = (case co_config c of
      Some p \<Rightarrow> (case file p of Some s \<Rightarrow> config_from_json f s | None \<Rightarrow> Done config_default)
    | None \<Rightarrow> Done config_default)"

definition cli_config :: "cli \<Rightarrow> node_config \<Rightarrow> node_config" where
  "cli_config c cfg =
     (let cfg = opt_set (co_port c) (\<lambda>p g. g\<lparr>nc_port := p\<rparr>) cfg;
          cfg = opt_set (co_ip c) (\<lambda>i g. g\<lparr>nc_ip := i\<rparr>) cfg;
          cfg = opt_set (co_bootstrap c) (\<lambda>b g. g\<lparr>nc_bootstrap := [b]\<rparr>) cfg;
          cfg = (if co_no_bootstrap c then cfg\<lparr>nc_bootstrap := []\<rparr> else cfg) in
      opt_set (co_state_file c) (\<lambda>s g. g\<lparr>nc_state_file := s\<rparr>) cfg)"

text \<open>The database of the messenger is named by the port.\<close>

definition cli_db_path :: "node_config \<Rightarrow> string" where
  "cli_db_path cfg = ''messenger_db_'' @ decimal (unat (nc_port cfg)) @ ''.json''"

section \<open>Words\<close>

text \<open>\<open>split_whitespace\<close> of the standard library, with the white space of Unicode.\<close>

function words_from :: "string \<Rightarrow> string \<Rightarrow> string list" where
  "words_from w [] = (if w = [] then [] else [w])"
| "words_from w (c # s) = (let n = ws_head (c # s) in
     if n = 0 then words_from (w @ [c]) s else (if w = [] then [] else [w]) @ words_from [] (drop (n - 1) s))"
  by pat_completeness auto
termination by (relation "measure (length \<circ> snd)") auto

definition split_whitespace :: "string \<Rightarrow> string list" where
  "split_whitespace s = words_from [] s"

text \<open>\<open>to_lowercase\<close>, as far as its result can be a word of ASCII letters: besides the capital letters that is the Kelvin sign.\<close>

fun cli_lower :: "string \<Rightarrow> string" where
  "cli_lower (a # b # c # s) =
     (if [a, b, c] = map char_of [0xE2, 0x84, 0xAA :: nat] then CHR ''k'' # cli_lower s else
      (if 65 \<le> (of_char a :: nat) \<and> (of_char a :: nat) \<le> 90 then char_of ((of_char a :: nat) + 32) else a) # cli_lower (b # c # s))"
| "cli_lower s = map (\<lambda>a. if 65 \<le> (of_char a :: nat) \<and> (of_char a :: nat) \<le> 90 then char_of ((of_char a :: nat) + 32) else a) s"

text \<open>\<open>parse::<usize>()\<close>: a plus sign may stand before the digits.\<close>

definition parse_usize :: "string \<Rightarrow> nat option" where
  "parse_usize s =
     (let ds = (case s of c # cs \<Rightarrow> if c = CHR ''+'' then cs else s | [] \<Rightarrow> s) in
      if ds = [] \<or> \<not> list_all is_ascii_digit ds \<or> digits_value ds \<ge> 2 ^ 64 then None else Some (digits_value ds))"

section \<open>Commands\<close>

datatype cli_command = CmHelp | CmInfo | CmNodes | CmPing socket_addr | CmPut string string | CmGet string | CmSend string string
  | CmSendFile string string | CmHistory string nat | CmContacts | CmAdd string string | CmBlock string | CmUnblock string | CmOutbox
  | CmMnemonic | CmBackup string string | CmWipe | CmSave | CmQuit | CmUsage string | CmBadAddress string | CmUnknown

definition spaced :: "string list \<Rightarrow> string" where
  "spaced ws = join_with '' '' ws"

text \<open>A command that needs \<open>n\<close> words shows its usage when there are fewer.\<close>

definition with_args :: "nat \<Rightarrow> string \<Rightarrow> (string list \<Rightarrow> cli_command) \<Rightarrow> string list \<Rightarrow> cli_command" where
  "with_args n usage f parts = (if length parts < n then CmUsage usage else f parts)"

definition cli_command_of :: "(string \<Rightarrow> socket_addr option) \<Rightarrow> string \<Rightarrow> string list \<Rightarrow> cli_command" where
  "cli_command_of parse cmd parts =
     (if cmd = ''help'' then CmHelp
      else if cmd = ''info'' then CmInfo
      else if cmd = ''nodes'' then CmNodes
      else if cmd = ''ping'' then with_args 2 ''ping <ip:port>''
        (\<lambda>p. case parse (p ! 1) of Some a \<Rightarrow> CmPing a | None \<Rightarrow> CmBadAddress (p ! 1)) parts
      else if cmd = ''put'' then with_args 3 ''put <key> <value>'' (\<lambda>p. CmPut (p ! 1) (spaced (drop 2 p))) parts
      else if cmd = ''get'' then with_args 2 ''get <key>'' (\<lambda>p. CmGet (p ! 1)) parts
      else if cmd = ''send'' then with_args 3 ''send <user_id_hex> <message text...>'' (\<lambda>p. CmSend (p ! 1) (spaced (drop 2 p))) parts
      else if cmd = ''sendfile'' then with_args 3 ''sendfile <user_id_hex> <filepath>'' (\<lambda>p. CmSendFile (p ! 1) (p ! 2)) parts
      else if cmd = ''history'' then with_args 2 ''history <user_id_hex> [limit]''
        (\<lambda>p. CmHistory (p ! 1) (if length p > 2 then (case parse_usize (p ! 2) of Some n \<Rightarrow> n | None \<Rightarrow> 20) else 20)) parts
      else if cmd = ''contacts'' then CmContacts
      else if cmd = ''add'' then with_args 3 ''add <user_id_hex> <name>'' (\<lambda>p. CmAdd (p ! 1) (spaced (drop 2 p))) parts
      else if cmd = ''block'' then with_args 2 ''block <user_id_hex>'' (\<lambda>p. CmBlock (p ! 1)) parts
      else if cmd = ''unblock'' then with_args 2 ''unblock <user_id_hex>'' (\<lambda>p. CmUnblock (p ! 1)) parts
      else if cmd = ''outbox'' then CmOutbox
      else if cmd = ''mnemonic'' then CmMnemonic
      else if cmd = ''backup'' then with_args 3 ''backup <filepath> <password>'' (\<lambda>p. CmBackup (p ! 1) (p ! 2)) parts
      else if cmd = ''wipe'' then CmWipe
      else if cmd = ''save'' then CmSave
      else if cmd = ''quit'' \<or> cmd = ''exit'' then CmQuit
      else CmUnknown)"

text \<open>An empty line is no command.\<close>

definition cli_parse :: "(string \<Rightarrow> socket_addr option) \<Rightarrow> string \<Rightarrow> cli_command option" where
  "cli_parse parse line = (case split_whitespace (rust_trim line) of
      [] \<Rightarrow> None
    | w # ws \<Rightarrow> Some (cli_command_of parse (cli_lower w) (w # ws)))"

section \<open>What a command does\<close>

record cli_env =
  ce_user :: user_env
  ce_addr :: socket_addr
  ce_fmt :: addr_fmt
  ce_fuel :: nat
  ce_ttl :: nat
  ce_crc :: "bytes \<Rightarrow> u32"
  ce_base64 :: "bytes \<Rightarrow> string"
  ce_write_chunk :: "media_chunk \<Rightarrow> bytes"
  ce_db_json :: db_json
  ce_argon2 :: "bytes \<Rightarrow> bytes \<Rightarrow> bytes option"
  ce_db_path :: string
  ce_db_canon :: string

text \<open>A backup that fails without an error of its own is one whose file was not written (\<open>ci_written\<close>).
  What the network, the file system and the random generator answer while the command runs.\<close>

record cli_io =
  ci_deliver :: deliver_io
  ci_stamp :: stamp
  ci_now :: instant
  ci_lookup :: "nat \<Rightarrow> contact list \<Rightarrow> call_result list"
  ci_store :: "contact \<Rightarrow> rpc_payload option"
  ci_ping :: "call_error + rpc_message"
  ci_file :: "bytes option"
  ci_rand :: file_rand
  ci_salt :: bytes
  ci_nonce :: bytes
  ci_written :: bool
  ci_db_removed :: bool
  ci_key_removed :: bool

record cli_state =
  cm_inbox :: inbox_state
  cm_store :: storage
  cm_files :: db_files

datatype cli_line = LnHelp | LnUsage string | LnBadAddress string | LnUnknown | LnInfo string string node_id socket_addr nat nat nat nat | LnNodes "contact list"
  | LnPing "call_error + unit" | LnStored nat | LnFound bytes socket_addr | LnNotFound string | LnSent string bool | LnSendFailed messenger_error
  | LnFileSent string string nat | LnNoFile string | LnHistory string "chat_message list" | LnContacts "(string \<times> saved_contact \<times> bool) list"
  | LnAdded string | LnBlocked string | LnUnblocked string | LnOutbox nat | LnMnemonic string | LnNoMnemonic | LnBackup string
  | LnBackupFailed "db_error option" | LnWiped

datatype cli_effect = Print cli_line | Send network_send | WriteBackup string bytes | WriteState string | SaveDb messenger_db | Quit

text \<open>\<open>Path::file_name\<close> on Unix.\<close>

definition path_file_name :: "string \<Rightarrow> string option" where
  "path_file_name p = (let parts = filter (\<lambda>c. c \<noteq> [] \<and> c \<noteq> ''.'') (split_on (CHR ''/'') p) in
     if parts = [] \<or> List.last parts = ''..'' then None else Some (List.last parts))"

definition file_label :: "string \<Rightarrow> string" where
  "file_label p = (case path_file_name p of Some n \<Rightarrow> n | None \<Rightarrow> ''file.bin'')"

definition added_contact :: "string \<Rightarrow> string \<Rightarrow> saved_contact" where
  "added_contact u name = \<lparr>sc_user_id = u, sc_name = name, sc_bio = [], sc_ed25519_pub_hex = [], sc_x25519_pub_hex = [], sc_last_seen_addr = ''unknown''\<rparr>"

text \<open>The short form of an identifier is its first ten bytes, which may cut a character.\<close>

definition short_id :: "string \<Rightarrow> string exec" where
  "short_id u = (if length u > 10 then str_slice u 0 10 else Done u)"

fun contact_lines :: "messenger_db \<Rightarrow> (string \<times> saved_contact) list \<Rightarrow> (string \<times> saved_contact \<times> bool) list exec" where
  "contact_lines db [] = Done []"
| "contact_lines db ((u, c) # cs) = exec_bind (short_id u) (\<lambda>i. exec_bind (contact_lines db cs) (\<lambda>r. Done ((i, c, db_is_blocked u db) # r)))"

definition node_of :: "cli_state \<Rightarrow> node_state" where
  "node_of s = \<lparr>nd_table = ib_table (cm_inbox s), nd_storage = cm_store s\<rparr>"

definition with_node :: "node_state \<Rightarrow> cli_state \<Rightarrow> cli_state" where
  "with_node n s = s\<lparr>cm_inbox := (cm_inbox s)\<lparr>ib_table := nd_table n\<rparr>, cm_store := nd_storage n\<rparr>"

definition on_db :: "(messenger_db \<Rightarrow> messenger_db) \<Rightarrow> cli_state \<Rightarrow> cli_state" where
  "on_db f s = s\<lparr>cm_inbox := (cm_inbox s)\<lparr>ib_db := f (ib_db (cm_inbox s))\<rparr>\<rparr>"

abbreviation cm_db :: "cli_state \<Rightarrow> messenger_db" where "cm_db s \<equiv> ib_db (cm_inbox s)"

text \<open>Commands that only show something. \<open>None\<close> of the commands below is a lookup without enough fuel.\<close>

type_synonym cli_result = "(cli_effect list \<times> cli_state) option exec"

definition shows_line :: "cli_line \<Rightarrow> cli_state \<Rightarrow> cli_result" where
  "shows_line l s = Done (Some ([Print l], s))"

definition cli_info :: "cli_env \<Rightarrow> cli_state \<Rightarrow> cli_line" where
  "cli_info E s = LnInfo (db_display_name (cm_db s)) (ue_hex (ce_user E)) (ue_node (ce_user E)) (ce_addr E) (total_contacts (ib_table (cm_inbox s)))
     (length (sto_data (cm_store s))) (length (db_contacts (cm_db s))) (length (db_blocked (cm_db s)))"

definition cli_put :: "cli_env \<Rightarrow> cli_io \<Rightarrow> string \<Rightarrow> string \<Rightarrow> cli_state \<Rightarrow> cli_result" where
  "cli_put E io key val s = Done (case node_put (cr_sha1 (ue_crypto (ce_user E))) (ce_fuel E) (ci_lookup io) (ci_store io) (ce_ttl E)
       (ue_node (ce_user E)) (ce_addr E) (ci_now io) (str_bytes key) (str_bytes val) (node_of s) of
     None \<Rightarrow> None
   | Some (n, nd) \<Rightarrow> Some ([Print (LnStored n)], with_node nd s))"

definition cli_get :: "cli_env \<Rightarrow> cli_io \<Rightarrow> string \<Rightarrow> cli_state \<Rightarrow> cli_result" where
  "cli_get E io key s = Done (case node_get (cr_sha1 (ue_crypto (ce_user E))) (ce_fuel E) (ci_lookup io) (ce_ttl E)
       (ue_node (ce_user E)) (ce_addr E) (ci_now io) (str_bytes key) (node_of s) of
     None \<Rightarrow> None
   | Some (r, nd) \<Rightarrow> Some ([Print (case r of Some (v, a) \<Rightarrow> LnFound v a | None \<Rightarrow> LnNotFound key)], with_node nd s))"

definition cli_send :: "cli_env \<Rightarrow> cli_io \<Rightarrow> string \<Rightarrow> string \<Rightarrow> cli_state \<Rightarrow> cli_result" where
  "cli_send E io u x s = exec_bind (send_chat (ce_user E) (ci_deliver io) (ci_stamp io) u x None (cm_inbox s)) (\<lambda>(r, sent, i).
     Done (Some (map Send sent @ [Print (case r of Inr m \<Rightarrow> LnSent (sm_id m) (sm_delivered m) | Inl e \<Rightarrow> LnSendFailed e)], s\<lparr>cm_inbox := i\<rparr>)))"

definition cli_sendfile :: "cli_env \<Rightarrow> cli_io \<Rightarrow> string \<Rightarrow> string \<Rightarrow> cli_state \<Rightarrow> cli_result" where
  "cli_sendfile E io u path s = (case ci_file io of
      None \<Rightarrow> shows_line (LnNoFile path) s
    | Some raw \<Rightarrow> exec_bind (send_file (ce_user E) (ce_crc E) (ce_base64 E) (ce_write_chunk E) (ci_deliver io) (ci_stamp io) (ci_rand io) u (file_label path) raw (cm_inbox s))
        (\<lambda>(r, sent, i). case r of
           Inl e \<Rightarrow> Done (Some (map Send sent @ [Print (LnSendFailed e)], s\<lparr>cm_inbox := i\<rparr>))
         | Inr (m, f) \<Rightarrow> exec_bind (if length (fm_sha256_root f) \<ge> 12 then str_slice (fm_sha256_root f) 0 12 else Done (fm_sha256_root f)) (\<lambda>h.
             Done (Some (map Send sent @ [Print (LnFileSent (sm_id m) h (fm_chunk_count f))], s\<lparr>cm_inbox := i\<rparr>)))))"

definition cli_history :: "string \<Rightarrow> nat \<Rightarrow> cli_state \<Rightarrow> cli_result" where
  "cli_history u n s = exec_bind (str_slice u 0 (min 10 (length u))) (\<lambda>i.
     shows_line (LnHistory i (get_messages_paginated u n None (cm_db s))) s)"

text \<open>\<open>add\<close> looks for the user in the network, and then writes its own contact over what was found.\<close>

definition cli_add :: "cli_env \<Rightarrow> cli_io \<Rightarrow> string \<Rightarrow> string \<Rightarrow> cli_state \<Rightarrow> cli_result" where
  "cli_add E io u name s = (case discover_peer (ue_crypto (ce_user E)) (ue_cards (ce_user E)) (ue_show (ce_user E)) (dl_instant (ci_deliver io))
       (dl_found (ci_deliver io)) (cm_db s) (ib_table (cm_inbox s)) of
     (_, db, rt) \<Rightarrow> (let db = db_add_contact (added_contact u name) db in
       Done (Some ([SaveDb db, Print (LnAdded u)], s\<lparr>cm_inbox := (cm_inbox s)\<lparr>ib_db := db, ib_table := rt\<rparr>\<rparr>))))"

definition cli_backup :: "cli_env \<Rightarrow> cli_io \<Rightarrow> string \<Rightarrow> string \<Rightarrow> cli_state \<Rightarrow> cli_result" where
  "cli_backup E io path pass s = (case export_encrypted_backup (ue_crypto (ce_user E)) (ce_db_json E) (ce_argon2 E) (ci_salt io) (ci_nonce io) pass (cm_db s) of
     Inl e \<Rightarrow> shows_line (LnBackupFailed (Some e)) s
   | Inr b \<Rightarrow> Done (Some ([WriteBackup path b, Print (if ci_written io then LnBackup path else LnBackupFailed None)], s)))"

definition cli_wipe :: "cli_env \<Rightarrow> cli_io \<Rightarrow> cli_state \<Rightarrow> cli_result" where
  "cli_wipe E io s = (case wipe_local_data (ci_db_removed io) (ci_key_removed io) (ce_db_path E) (ce_db_canon E) (cm_inbox s, cm_store s, cm_files s) of
     (i, st, fs) \<Rightarrow> Done (Some ([Print LnWiped], \<lparr>cm_inbox = i, cm_store = st, cm_files = fs\<rparr>)))"

definition cli_state_text :: "cli_env \<Rightarrow> cli_state \<Rightarrow> string" where
  "cli_state_text E s = save_state (ce_fmt E) (ue_node (ce_user E)) (all_contacts (ib_table (cm_inbox s)))"

fun cli_exec :: "cli_env \<Rightarrow> bool \<Rightarrow> cli_io \<Rightarrow> cli_command \<Rightarrow> cli_state \<Rightarrow> cli_result" where
  "cli_exec E save io CmHelp s = shows_line LnHelp s"
| "cli_exec E save io CmInfo s = shows_line (cli_info E s) s"
| "cli_exec E save io CmNodes s = shows_line (LnNodes (all_contacts (ib_table (cm_inbox s)))) s"
| "cli_exec E save io (CmPing a) s = shows_line (LnPing (ping_addr (ci_ping io))) s"
| "cli_exec E save io (CmPut k v) s = cli_put E io k v s"
| "cli_exec E save io (CmGet k) s = cli_get E io k s"
| "cli_exec E save io (CmSend u x) s = cli_send E io u x s"
| "cli_exec E save io (CmSendFile u p) s = cli_sendfile E io u p s"
| "cli_exec E save io (CmHistory u n) s = cli_history u n s"
| "cli_exec E save io CmContacts s = exec_bind (contact_lines (cm_db s) (db_contacts (cm_db s))) (\<lambda>ls. shows_line (LnContacts ls) s)"
| "cli_exec E save io (CmAdd u name) s = cli_add E io u name s"
| "cli_exec E save io (CmBlock u) s = (let s = on_db (block_user u) s in Done (Some ([SaveDb (cm_db s), Print (LnBlocked u)], s)))"
| "cli_exec E save io (CmUnblock u) s = (let s = on_db (unblock_user u) s in Done (Some ([SaveDb (cm_db s), Print (LnUnblocked u)], s)))"
| "cli_exec E save io CmOutbox s = shows_line (LnOutbox (queue_len (ib_queue (cm_inbox s)))) s"
| "cli_exec E save io CmMnemonic s = shows_line (if db_mnemonic (cm_db s) \<noteq> [] then LnMnemonic (db_mnemonic (cm_db s)) else LnNoMnemonic) s"
| "cli_exec E save io (CmBackup p w) s = cli_backup E io p w s"
| "cli_exec E save io CmWipe s = cli_wipe E io s"
| "cli_exec E save io CmSave s = Done (Some ([WriteState (cli_state_text E s)], s))"
| "cli_exec E save io CmQuit s = Done (Some ((if save then [WriteState (cli_state_text E s)] else []) @ [Quit], s))"
| "cli_exec E save io (CmUsage x) s = shows_line (LnUsage x) s"
| "cli_exec E save io (CmBadAddress x) s = shows_line (LnBadAddress x) s"
| "cli_exec E save io CmUnknown s = shows_line LnUnknown s"

text \<open>The loop over the lines, up to \<open>quit\<close>. At the end of the input it waits for the signal of the operating system, and then saves
  the state; as a daemon it reads no line.\<close>

fun cli_lines :: "cli_env \<Rightarrow> bool \<Rightarrow> (cli_io \<times> string) list \<Rightarrow> cli_state \<Rightarrow> cli_result" where
  "cli_lines E save [] s = Done (Some (if save then [WriteState (cli_state_text E s)] else [], s))"
| "cli_lines E save ((io, line) # ls) s = (case cli_parse (ue_parse (ce_user E)) line of
     None \<Rightarrow> cli_lines E save ls s
   | Some c \<Rightarrow> exec_bind (cli_exec E save io c s) (\<lambda>r. case r of
         None \<Rightarrow> Done None
       | Some (e, s) \<Rightarrow> if Quit \<in> set e then Done (Some (e, s))
           else exec_bind (cli_lines E save ls s) (\<lambda>r. Done (map_option (\<lambda>(e', s). (e @ e', s)) r))))"

definition cli_session :: "cli_env \<Rightarrow> cli \<Rightarrow> bool \<Rightarrow> (cli_io \<times> string) list \<Rightarrow> cli_state \<Rightarrow> cli_result" where
  "cli_session E c save ls s = cli_lines E save (if co_daemon c then [] else ls) s"

text \<open>The program of the bootstrap server (\<open>deploy/linux/bootstrap-node-main.rs\<close>) has the same commands, and ends at the end of the input.\<close>

fun seed_lines :: "cli_env \<Rightarrow> bool \<Rightarrow> (cli_io \<times> string) list \<Rightarrow> cli_state \<Rightarrow> cli_result" where
  "seed_lines E save [] s = Done (Some ([], s))"
| "seed_lines E save ((io, line) # ls) s = (case cli_parse (ue_parse (ce_user E)) line of
     None \<Rightarrow> seed_lines E save ls s
   | Some c \<Rightarrow> exec_bind (cli_exec E save io c s) (\<lambda>r. case r of
         None \<Rightarrow> Done None
       | Some (e, s) \<Rightarrow> if Quit \<in> set e then Done (Some (e, s))
           else exec_bind (seed_lines E save ls s) (\<lambda>r. Done (map_option (\<lambda>(e', s). (e @ e', s)) r))))"

definition seed_session :: "cli_env \<Rightarrow> cli \<Rightarrow> bool \<Rightarrow> (cli_io \<times> string) list \<Rightarrow> cli_state \<Rightarrow> cli_result" where
  "seed_session E c save ls s =
     (if co_daemon c then Done (Some (if save then [WriteState (cli_state_text E s)] else [], s)) else seed_lines E save ls s)"

section \<open>A command reads as it is written\<close>

lemma ws_head_plain_char: "plain_char c \<Longrightarrow> ws_head (c # s) = 0"
proof -
  assume c: "plain_char c"
  have "ws_codes (of_char c # xs) = 0" for xs
    using c by (cases "(of_char c :: nat) # xs" rule: ws_codes.cases) (auto simp: plain_char_def ws1_def ws3_def)
  then show ?thesis by (simp add: ws_head_def)
qed

lemma ws_head_space: "ws_head (CHR '' '' # s) = 1"
proof -
  have "ws_codes (32 # xs) = 1" for xs by (cases "32 # xs" rule: ws_codes.cases) (auto simp: ws1_def)
  then show ?thesis by (simp add: ws_head_def)
qed

lemma words_plain: "list_all plain_char x \<Longrightarrow> words_from w (x @ s) = words_from (w @ x) s"
  by (induction x arbitrary: w) (simp_all add: ws_head_plain_char)

definition word :: "string \<Rightarrow> bool" where
  "word w \<longleftrightarrow> w \<noteq> [] \<and> list_all plain_char w"

lemma split_spaced:
  assumes "list_all word ws" shows "split_whitespace (spaced ws) = ws"
  using assms unfolding split_whitespace_def spaced_def
proof (induction ws rule: induct_list012)
  case (2 x)
  then show ?case using words_plain [of x "[]" "[]"] by (simp add: word_def)
next
  case (3 x y zs)
  have "words_from [] (x @ '' '' @ join_with '' '' (y # zs)) = words_from x (CHR '' '' # join_with '' '' (y # zs))"
    using 3 by (simp add: words_plain word_def)
  also have "\<dots> = x # words_from [] (join_with '' '' (y # zs))" using 3 by (simp add: ws_head_space word_def)
  finally show ?case using 3 by simp
qed simp

lemma ws_tail_plain_last:
  assumes "plain_char c" shows "ws_tail (s @ [c]) = 0"
proof -
  have p: "33 \<le> (of_char c :: nat)" "(of_char c :: nat) < 128" using assms by (simp_all add: plain_char_def)
  have 1: "ws_head [c] = 0" using p by (simp add: ws_head_def ws1_def)
  have 2: "ws_head [b, c] \<noteq> 2" for b using p by (simp add: ws_head_def ws1_def)
  have 3: "ws_head [a, b, c] \<noteq> 3" for a b using p by (simp add: ws_head_def ws3_def)
  have "ws_head (drop (length s - 1) (s @ [c])) \<noteq> 2"
  proof (cases s rule: rev_cases)
    case (snoc t b)
    then show ?thesis using 2 by simp
  qed (use 1 in simp)
  moreover have "ws_head (drop (length s - 2) (s @ [c])) \<noteq> 3"
  proof (cases s rule: rev_cases)
    case (snoc t b)
    show ?thesis
    proof (cases t rule: rev_cases)
      case Nil
      have "ws_head [b, c] \<noteq> 3" using p by (simp add: ws_head_def ws1_def)
      then show ?thesis using snoc Nil by simp
    next
      case (snoc r a)
      then show ?thesis using 3 \<open>s = t @ [b]\<close> by simp
    qed
  qed (use 1 in simp)
  ultimately show ?thesis using 1 by (simp add: ws_tail_def numeral_3_eq_3 numeral_2_eq_2)
qed

lemma spaced_ends:
  assumes "list_all word ws" "ws \<noteq> []"
  shows "\<exists>c s. spaced ws = c # s \<and> plain_char c" "\<exists>c s. spaced ws = s @ [c] \<and> plain_char c"
  using assms unfolding spaced_def
proof (induction ws rule: induct_list012)
  case (2 x)
  { case 1 then show ?case by (cases x) (auto simp: word_def) }
  { case 2 then show ?case by (cases x rule: rev_cases) (auto simp: word_def) }
next
  case (3 x y zs)
  { case 1 then show ?case by (cases x) (auto simp: word_def) }
  { case 2
    then obtain c s where "join_with '' '' (y # zs) = s @ [c]" "plain_char c" using 3 by auto
    then show ?case by (metis append.assoc join_with.simps(3)) }
qed simp_all

lemma trim_spaced:
  assumes "list_all word ws" shows "rust_trim (spaced ws) = spaced ws"
proof (cases "ws = []")
  case False
  obtain c s d t where c: "spaced ws = c # s" "plain_char c" and d: "spaced ws = t @ [d]" "plain_char d"
    using spaced_ends [OF assms False] by blast
  have "trim_start (spaced ws) = spaced ws" using c ws_head_plain_char by (subst trim_start.simps) simp
  moreover have "trim_end (spaced ws) = spaced ws" using d ws_tail_plain_last by (subst trim_end.simps) simp
  ultimately show ?thesis by (simp add: rust_trim_def)
qed (simp add: spaced_def rust_trim_def trim_start.simps trim_end.simps)

lemma parse_spaced: "list_all word (w # ws) \<Longrightarrow> cli_parse parse (spaced (w # ws)) = Some (cli_command_of parse (cli_lower w) (w # ws))"
  using trim_spaced [of "w # ws"] split_spaced [of "w # ws"] by (simp add: cli_parse_def)

lemma lower_kept: "list_all (\<lambda>c. 97 \<le> (of_char c :: nat) \<and> (of_char c :: nat) < 128) s \<Longrightarrow> cli_lower s = s"
proof (induction s rule: cli_lower.induct)
  case (1 a b c s)
  have "a \<noteq> char_of (0xE2 :: nat)" using 1(3) by auto
  then show ?case using 1 by simp
qed simp_all

lemma command_words:
  "word ''send''" "word ''add''" "word ''history''" "word ''contacts''" "word ''block''" "cli_lower ''send'' = ''send''" "cli_lower ''add'' = ''add''"
  "cli_lower ''history'' = ''history''" "cli_lower ''contacts'' = ''contacts''" "cli_lower ''block'' = ''block''"
  by (simp_all add: word_def plain_char_def lower_kept del: cli_lower.simps)

text \<open>What is sent is the text with its words one space apart.\<close>

lemma send_reads:
  assumes "word u" "list_all word ws" "ws \<noteq> []"
  shows "cli_parse parse (spaced (''send'' # u # ws)) = Some (CmSend u (spaced ws))"
  using parse_spaced [of "''send''" "u # ws"] assms command_words
  by (cases ws) (simp_all add: cli_command_of_def with_args_def)

section \<open>Contacts of the command line\<close>

text \<open>Adding a contact forgets its key: what the network said, and what was known before.\<close>

lemma add_forgets:
  assumes "cli_exec E save io (CmAdd u name) s = Done (Some (e, s'))"
  shows "map_of (db_contacts (cm_db s')) u = Some (added_contact u name)" "contact_unusable (added_contact u name)"
  using assms by (auto simp: cli_add_def Let_def db_add_contact_def added_contact_def contact_unusable_def split: prod.splits)

lemma no_receipt_without_key:
  assumes "map_of (db_contacts db) u = Some c" "sc_x25519_pub_hex c = []" "id_from_hex u = Done (Ok i)"
  shows "send_delivery_receipt C J parse io now me db u m = Done (Ok (), [])"
proof -
  have "hex_decode [] = Done None" by (simp add: hex_decode_def rust_trim_def trim_start.simps trim_end.simps Let_def)
  then show ?thesis using assms by (simp add: send_delivery_receipt_def exec_bind_def)
qed

lemma discover_keeps_blocked: "discover_peer C J show_addr t found db rt = (r, db', rt') \<Longrightarrow> db_blocked db' = db_blocked db"
  by (auto simp: discover_peer_def db_add_contact_def Let_def split: option.splits if_splits sum.splits)

text \<open>Then a message to it is refused when the network does not answer, and is not put on the queue either.\<close>

lemma send_refused_without_card:
  assumes "map_of (db_contacts (ib_db s)) u = Some (added_contact u name)" "id_from_hex u = Done (Ok i)" "\<not> db_is_blocked u (ib_db s)"
    "\<not> is_self (ue_hex E) u" "dl_found io \<in> {None, Some None}"
  shows "send_chat E io st u x img s = Done (Err (RecipientVerifiedKeyMissing u), [], s)"
proof -
  have h: "hex_decode [] = Done None" by (simp add: hex_decode_def rust_trim_def trim_start.simps trim_end.simps Let_def)
  have r: "resolve_recipient (ue_crypto E) (ue_cards E) (ue_parse E) (ue_show E) io u (ib_db s) (ib_table s) = Done (None, ib_db s, ib_table s)"
    using assms(1,5) h by (auto simp: resolve_recipient_def added_contact_def resolve_by_card_def discover_peer_def exec_bind_def Let_def)
  show ?thesis using assms(2-4) r
    by (simp add: send_chat_def deliver_payload_def try_deliver_payload_def exec_bind_def Let_def)
qed

text \<open>A blocked user: nothing is sent to it.\<close>

lemma block_holds:
  assumes "cli_exec E save io (CmBlock u) s = Done (Some (e, s'))"
  shows "cli_exec E save io' (CmSend u x) s' = Done (Some ([Print (LnSendFailed (ContactBlocked u))], s'))"
  using assms by (auto simp: on_db_def block_user_def cli_send_def send_chat_def db_is_blocked_def exec_bind_def Let_def)

section \<open>Where it panics\<close>

text \<open>The first ten bytes of an identifier are cut without looking at the characters.\<close>

lemma history_panics: "\<not> is_char_boundary u (min 10 (length u)) \<Longrightarrow> cli_exec E save io (CmHistory u n) s = Panic"
  by (simp add: cli_history_def str_slice_def exec_bind_def)

lemma contact_lines_panic: "(u, c) \<in> set cs \<Longrightarrow> length u > 10 \<Longrightarrow> \<not> is_char_boundary u 10 \<Longrightarrow> contact_lines db cs = Panic"
  by (induction cs) (auto simp: short_id_def str_slice_def exec_bind_def split: exec.split)

text \<open>So a contact with such an identifier, once added, ends every session that lists the contacts.\<close>

lemma added_contact_panics:
  assumes "cli_exec E save io (CmAdd u name) s = Done (Some (e, s'))" "length u > 10" "\<not> is_char_boundary u 10"
  shows "cli_exec E save io' CmContacts s' = Panic"
proof -
  have "(u, added_contact u name) \<in> set (db_contacts (cm_db s'))" using add_forgets(1) [OF assms(1)] by (rule map_of_SomeD)
  then show ?thesis using contact_lines_panic assms(2,3) by (simp add: exec_bind_def)
qed

text \<open>At the end of the input, of a quit, and of a daemon, the state is saved when that is configured.\<close>

lemma lines_save_state:
  assumes "cli_lines E True ls s = Done (Some (e, s'))" shows "\<exists>t. WriteState t \<in> set e"
  using assms
proof (induction ls arbitrary: s e)
  case (Cons l ls)
  obtain io line where l: "l = (io, line)" by fastforce
  show ?case
  proof (cases "cli_parse (ue_parse (ce_user E)) line")
    case None
    then show ?thesis using Cons by (simp add: l)
  next
    case (Some c)
    then obtain e1 s1 where x: "cli_exec E True io c s = Done (Some (e1, s1))"
      using Cons.prems by (auto simp: l exec_bind_def split: exec.splits option.splits)
    show ?thesis
    proof (cases "Quit \<in> set e1")
      case True
      then have "c = CmQuit" using x
        by (cases c) (auto simp: shows_line_def cli_put_def cli_get_def cli_send_def cli_sendfile_def cli_history_def cli_add_def cli_backup_def
            cli_wipe_def exec_bind_def Let_def split: option.splits exec.splits sum.splits prod.splits if_splits)
      then show ?thesis using x Some Cons.prems True by (auto simp: l exec_bind_def)
    next
      case False
      then obtain e2 where "cli_lines E True ls s1 = Done (Some (e2, s'))" "e = e1 @ e2"
        using x Some Cons.prems by (auto simp: l exec_bind_def split: exec.splits)
      then show ?thesis using Cons.IH by fastforce
    qed
  qed
qed simp

text \<open>The two programs differ at the end of the input only: the server does not save its state then.\<close>

definition at_end :: "cli_env \<Rightarrow> bool \<Rightarrow> cli_effect list \<times> cli_state \<Rightarrow> cli_effect list \<times> cli_state" where
  "at_end E save r = (if Quit \<in> set (fst r) \<or> \<not> save then r else (fst r @ [WriteState (cli_state_text E (snd r))], snd r))"

lemma lines_seed: "cli_lines E save ls s = exec_bind (seed_lines E save ls s) (\<lambda>r. Done (map_option (at_end E save) r))"
proof (induction ls arbitrary: s)
  case (Cons l ls)
  obtain io line where l: "l = (io, line)" by fastforce
  show ?case
  proof (cases "cli_parse (ue_parse (ce_user E)) line")
    case None
    then show ?thesis using Cons by (simp add: l)
  next
    case (Some c)
    show ?thesis
    proof (cases "cli_exec E save io c s")
      case (Done r)
      show ?thesis
      proof (cases r)
        case None
        then show ?thesis using Some Done by (simp add: l exec_bind_def)
      next
        case (Some x)
        obtain e s1 where x: "x = (e, s1)" by fastforce
        show ?thesis using \<open>cli_parse (ue_parse (ce_user E)) line = Some c\<close> Done Some x Cons.IH [of s1]
          by (cases "seed_lines E save ls s1") (auto simp: l exec_bind_def at_end_def map_option_case split: option.splits)
      qed
    qed (simp add: l Some exec_bind_def)
  qed
qed (simp add: at_end_def exec_bind_def)

end
