(* ===== verification/Desktop_Start.thy ===== *)
theory Desktop_Start
  imports Desktop_Views Desktop_Lock Command_Line Upnp Net_Startup
begin

text \<open>
  The start of the desktop application (\<open>main.rs\<close>, \<open>AppState::new\<close>, \<open>NodeXApp::new\<close>), its search for nodes on the same machine, the playback of
  voice messages (\<open>voice_player.rs\<close>), the studio for contact cards in images (\<open>stego_studio.rs\<close>), the swipe that removes a row (\<open>sidebar.rs\<close>) and
  the signs drawn for an identifier (\<open>avatar.rs\<close>). The lemmas say which account is opened, what the window shows of it, whom the search
  calls, what a click on a voice message plays, and that nothing is removed without a swipe.
\<close>

section \<open>Start\<close>

record gui_args =
  ga_port :: u16
  ga_name :: string
  ga_bootstrap :: "string option"

definition add_bootstrap :: "socket_addr \<Rightarrow> node_config \<Rightarrow> node_config" where
  "add_bootstrap a cfg = (if a \<in> set (nc_bootstrap cfg) then cfg else cfg\<lparr>nc_bootstrap := nc_bootstrap cfg @ [a]\<rparr>)"

definition GENESIS :: socket_addr where "GENESIS = SockV4 0x1F4D477A 8443"
definition LOOPBACK :: "u16 \<Rightarrow> socket_addr" where "LOOPBACK p = SockV4 0x7F000001 p"
definition LOCAL_PORTS :: "u16 list" where "LOCAL_PORTS = [8443, 8444, 8445, 8446, 8447, 8448, 8000, 8001]"

definition gui_config :: "addr_fmt \<Rightarrow> gui_args \<Rightarrow> node_config" where
  "gui_config f g =
     (let cfg = config_default\<lparr>nc_ip := ''0.0.0.0'', nc_port := ga_port g\<rparr>;
          cfg = (case Option.bind (ga_bootstrap g) (af_parse f) of Some a \<Rightarrow> add_bootstrap a cfg | None \<Rightarrow> cfg) in
      fold (\<lambda>p. add_bootstrap (LOOPBACK p)) LOCAL_PORTS (add_bootstrap GENESIS cfg))"

definition account_file :: "u16 \<Rightarrow> string" where
  "account_file p = ''nodex_account_'' @ decimal (unat p) @ ''.ready''"

definition gui_db_path :: "u16 \<Rightarrow> string" where
  "gui_db_path p = ''messenger_db_'' @ decimal (unat p) @ ''.json''"

text \<open>The window starts with a phrase and an identity of its own, and with four sessions, three of them invented.\<close>

definition FALLBACK_PHRASE :: string where
  "FALLBACK_PHRASE = concat (replicate 23 ''abandon '') @ ''art''"

definition FALLBACK_ID :: string where "FALLBACK_ID = ''a1b2c3d4e5f60718293a4b5c6d7e8f9012345678''"

definition initial_account :: "crypto \<Rightarrow> mnemonics \<Rightarrow> bytes \<Rightarrow> string \<times> string" where
  "initial_account C M entropy =
     (let phrase = (case mn_generate_24 M entropy of Inr w \<Rightarrow> w | Inl _ \<Rightarrow> FALLBACK_PHRASE) in
      (phrase, case identity_from_mnemonic C M phrase of Inr i \<Rightarrow> user_id_hex i | Inl _ \<Rightarrow> FALLBACK_ID))"

definition SESSIONS :: "device_session list" where
  "SESSIONS = [\<lparr>dv_id = ''sess_current'', dv_current = True\<rparr>, \<lparr>dv_id = ''sess_ios_15'', dv_current = False\<rparr>,
     \<lparr>dv_id = ''sess_mac_air'', dv_current = False\<rparr>, \<lparr>dv_id = ''sess_srv_genesis'', dv_current = False\<rparr>]"

definition desktop_new :: "string \<Rightarrow> string \<Rightarrow> desktop" where
  "desktop_new name me = \<lparr>dk_me = me, dk_name = name, dk_backend = False, dk_contacts = [], dk_groups = [], dk_messages = [], dk_call = None,
     dk_chat = Some SELF_SAVED, dk_group = None, dk_toast = None, dk_notify = True, dk_sent = 0, dk_delivered = 0, dk_received = 0,
     dk_last_seen = [], dk_sessions = SESSIONS, dk_confirm_delete = None\<rparr>"

text \<open>The answers of the system: the binds of sockets, the files, randomness. Each path has the files of its database.\<close>

record gui_env =
  ge_crypto :: crypto
  ge_words :: mnemonics
  ge_json :: db_json
  ge_file_io :: file_io
  ge_start_io :: start_io
  ge_canon :: "string \<Rightarrow> string"
  ge_bind :: "nat \<Rightarrow> socket_addr \<Rightarrow> string + socket_addr"
  ge_exists :: "string \<Rightarrow> bool"
  ge_files :: "string \<Rightarrow> db_files"
  ge_entropy :: bytes
  ge_now :: instant
  ge_table :: routing_table
  ge_fmt :: addr_fmt

record account =
  ac_path :: string
  ac_identity :: user_identity
  ac_state :: inbox_state
  ac_files :: db_files

definition gui_account :: "gui_env \<Rightarrow> string \<Rightarrow> string \<Rightarrow> account option" where
  "gui_account E name path =
     (case messenger_start (ge_crypto E) (ge_words E) (ge_json E) (ge_file_io E) (ge_start_io E) path (ge_canon E path) name (ge_table E) (ge_files E path) of
        (Inl _, _) \<Rightarrow> None
      | (Inr (me, s), fs) \<Rightarrow> Some \<lparr>ac_path = path, ac_identity = me, ac_state = s, ac_files = fs\<rparr>)"

definition gui_bound :: "gui_env \<Rightarrow> node_config \<Rightarrow> u16 option" where
  "gui_bound E cfg = (case nm_bind_auto (ge_bind E) (\<lambda>p. Some (SockV4 0 p)) (nc_port cfg) 50 of Inr a \<Rightarrow> Some (sock_port a) | Inl _ \<Rightarrow> None)"

definition gui_start :: "gui_env \<Rightarrow> gui_args \<Rightarrow> account option \<times> desktop \<times> lock_state" where
  "gui_start E g =
     (let (phrase, me) = initial_account (ge_crypto E) (ge_words E) (ge_entropy E);
          d = desktop_new (ga_name g) me in
      case gui_bound E (gui_config (ge_fmt E) g) of
        None \<Rightarrow> (None, d, lock_new phrase (ge_exists E (account_file (ga_port g))) (ge_now E))
      | Some p \<Rightarrow> (let l = lock_new phrase (ge_exists E (account_file p)) (ge_now E) in
          case gui_account E (ga_name g) (gui_db_path p) of
            None \<Rightarrow> (None, d, l)
          | Some a \<Rightarrow> (let mn = db_mnemonic (ib_db (ac_state a)) in
              (Some a, d\<lparr>dk_me := user_id_hex (ac_identity a)\<rparr>, if mn \<noteq> [] then l\<lparr>lk_seed := mn\<rparr> else l))))"

text \<open>\<open>NodeXApp::new\<close> reads the database a second time; a failure shows an empty window. Contacts and groups come in the order of the list
  here; in the program the order of the map is arbitrary.\<close>

definition app_new :: "gui_env \<Rightarrow> bytes \<Rightarrow> account option \<times> desktop \<times> lock_state \<Rightarrow> desktop" where
  "app_new E rnd r = (case r of
      (None, d, l) \<Rightarrow> d
    | (Some a, d, l) \<Rightarrow> (case fst (load_from_file (ge_crypto E) (ge_json E) (ge_file_io E) rnd (ac_path a) (ge_canon E (ac_path a)) (ac_files a)) of
          Inr db \<Rightarrow> d\<lparr>dk_backend := True, dk_contacts := map snd (db_contacts db), dk_groups := map snd (db_groups db), dk_messages := db_messages db\<rparr>
        | Inl _ \<Rightarrow> d\<lparr>dk_backend := True\<rparr>))"

section \<open>Nodes on the same machine\<close>

text \<open>Every three seconds the ports 8443 to 8450 of the machine are called, but the own one and those that the table knows.\<close>

record local_io =
  li_ping :: "socket_addr \<Rightarrow> call_error + rpc_message"
  li_again :: "socket_addr \<Rightarrow> call_error + rpc_message"
  li_answers :: "socket_addr \<Rightarrow> nat \<Rightarrow> contact list \<Rightarrow> call_result list"
  li_now :: instant

definition discovery_port :: "nat \<Rightarrow> local_io \<Rightarrow> node_id \<Rightarrow> socket_addr \<Rightarrow> u16 \<Rightarrow> node_state \<Rightarrow> (socket_addr list \<times> node_state) option" where
  "discovery_port fuel io i own p s =
     (let a = LOOPBACK p in
      if p = sock_port own \<or> a \<in> ct_addr ` set (all_contacts (nd_table s)) then Some ([], s)
      else (case li_ping io a of
          Inl _ \<Rightarrow> Some ([a], s)
        | Inr reply \<Rightarrow>
            map_option (\<lambda>(_, s). ([a], s)) (node_bootstrap fuel (li_answers io a) (li_again io a) i own (li_now io) a
              (s\<lparr>nd_table := snd (rt_update (contact_new (li_now io) (rm_sender_id reply) a) (nd_table s))\<rparr>))))"

fun discovery_round :: "nat \<Rightarrow> local_io \<Rightarrow> node_id \<Rightarrow> socket_addr \<Rightarrow> u16 list \<Rightarrow> node_state \<Rightarrow> (socket_addr list \<times> node_state) option" where
  "discovery_round fuel io i own [] s = Some ([], s)"
| "discovery_round fuel io i own (p # ps) s = Option.bind (discovery_port fuel io i own p s)
     (\<lambda>(called, s). map_option (\<lambda>(more, s). (called @ more, s)) (discovery_round fuel io i own ps s))"

definition SEARCHED_PORTS :: "u16 list" where "SEARCHED_PORTS = [8443, 8444, 8445, 8446, 8447, 8448, 8449, 8450]"

section \<open>Playing voice messages\<close>

text \<open>The clicks of a frame are noted and served in the next frame; what the player reports then replaces what the click noted.\<close>

record playback =
  pb_playing :: "string option"
  pb_progress :: rat
  pb_play :: "(string \<times> voice_note) option"
  pb_stop :: bool

definition playback_new :: playback where
  "playback_new = \<lparr>pb_playing = None, pb_progress = 0, pb_play = None, pb_stop = False\<rparr>"

definition note_click :: "string \<Rightarrow> voice_note \<Rightarrow> playback \<Rightarrow> playback" where
  "note_click i v b = (if pb_playing b = Some i then b\<lparr>pb_playing := None, pb_stop := True\<rparr>
     else b\<lparr>pb_playing := Some i, pb_progress := 0, pb_play := Some (i, v)\<rparr>)"

definition wave_click :: "string \<Rightarrow> voice_note \<Rightarrow> rat \<Rightarrow> playback \<Rightarrow> playback" where
  "wave_click i v x b = b\<lparr>pb_playing := Some i, pb_progress := max 0 (min 1 x), pb_play := Some (i, v)\<rparr>"

definition sync_playback :: "output_io \<Rightarrow> playback \<times> player \<Rightarrow> playback \<times> player" where
  "sync_playback io x = (case x of (b, p) \<Rightarrow>
     (let p = (case pb_play b of Some (i, v) \<Rightarrow> play_voice_note io i v p | None \<Rightarrow> p);
          p = (if pb_stop b then player_stop p else p);
          ((playing, progress), p) = update_progress io p in
      (b\<lparr>pb_play := None, pb_stop := False, pb_playing := playing, pb_progress := progress\<rparr>, p)))"

section \<open>The studio for images\<close>

text \<open>\<open>None\<close> of the file dialogs is a cancelled one, or a file that can not be read or written.\<close>

datatype studio_status = StudioAdded string string | StudioImportFailed import_error | StudioSaved string | StudioExportFailed stego_error

definition studio_passphrase :: "string \<Rightarrow> string option" where
  "studio_passphrase s = (if rust_trim s = [] then None else Some (rust_trim s))"

definition studio_import ::
    "crypto \<Rightarrow> stego_io \<Rightarrow> (bytes \<Rightarrow> u32) \<Rightarrow> (socket_addr \<Rightarrow> string) \<Rightarrow> instant \<Rightarrow> bytes option \<Rightarrow> string \<Rightarrow> messenger_db \<Rightarrow> routing_table \<Rightarrow>
     (studio_status option \<times> effect list \<times> messenger_db \<times> routing_table) exec" where
  "studio_import C S crc show_addr t picked passphrase db rt = (case picked of
      None \<Rightarrow> Done (None, [], db, rt)
    | Some img \<Rightarrow> exec_bind (import_stego_avatar C S crc show_addr t img (studio_passphrase passphrase) db rt) (\<lambda>(r, db, rt). case r of
          Inr c \<Rightarrow> exec_bind (str_slice (sc_user_id c) 0 8) (\<lambda>u. Done (Some (StudioAdded (sc_name c) u), [Play SentSound], db, rt))
        | Inl e \<Rightarrow> Done (Some (StudioImportFailed e), [], db, rt)))"

definition studio_export ::
    "crypto \<Rightarrow> stego_io \<Rightarrow> (bytes \<Rightarrow> u32) \<Rightarrow> bytes option \<Rightarrow> bytes option \<Rightarrow> socket_addr \<Rightarrow> u64 \<Rightarrow> user_identity \<Rightarrow> messenger_db \<Rightarrow>
     bytes option \<Rightarrow> string \<Rightarrow> string option \<Rightarrow> (studio_status \<times> bytes option) option \<times> effect list" where
  "studio_export C S crc salt nonce local_addr now me db chosen passphrase saved = (case chosen of
      None \<Rightarrow> (None, [])
    | Some img \<Rightarrow> (case export_stego_avatar C S crc salt nonce local_addr now me db img (studio_passphrase passphrase) of
          Inr png \<Rightarrow> (case saved of Some name \<Rightarrow> (Some (StudioSaved name, Some png), [Play SentSound]) | None \<Rightarrow> (None, []))
        | Inl e \<Rightarrow> (Some (StudioExportFailed e, None), [])))"

section \<open>Rows that are swiped\<close>

text \<open>A frame of a row of the sidebar: \<open>drag\<close> is how far the pointer moved while dragging, \<open>hit\<close> where it clicked, \<open>right\<close> the right edge. The
  answer says whether the row was chosen and whether its removal was asked for. The offset is exact here, single precision there.\<close>

definition swipe_frame :: "rat option \<Rightarrow> rat \<Rightarrow> rat" where
  "swipe_frame drag off = (case drag of Some dx \<Rightarrow> max (-90) (min 0 (off + dx)) | None \<Rightarrow> if off < -35 then -75 else 0)"

definition sidebar_item :: "rat \<Rightarrow> rat option \<Rightarrow> rat option \<Rightarrow> rat \<Rightarrow> (bool \<times> bool) \<times> rat" where
  "sidebar_item right drag hit off =
     (let off = swipe_frame drag off in
      case hit of
        None \<Rightarrow> ((False, False), off)
      | Some x \<Rightarrow> if off \<le> -40 then ((False, x \<ge> right - 80), 0) else ((True, False), off))"

fun sidebar_frames :: "rat \<Rightarrow> (rat option \<times> rat option) list \<Rightarrow> rat \<Rightarrow> (bool \<times> bool) list \<times> rat" where
  "sidebar_frames right [] off = ([], off)"
| "sidebar_frames right ((drag, hit) # fs) off = (let (r, off) = sidebar_item right drag hit off; (rs, off) = sidebar_frames right fs off in (r # rs, off))"

section \<open>Signs for an identifier, and the second writer of sound files\<close>

definition hash31 :: "u32 \<Rightarrow> string \<Rightarrow> u32" where
  "hash31 start s = fold (\<lambda>c acc. acc * 31 + of_char c) s start"

definition avatar_color :: "string \<Rightarrow> nat" where
  "avatar_color key = unat (hash31 0 key) mod 6"

definition identicon :: "string \<Rightarrow> bool list list" where
  "identicon u = (let seed = hash31 0x9e3779b9 u in
     map (\<lambda>r. map (\<lambda>c. bit seed ((r * 3 + (if c \<le> 2 then c else 4 - c)) mod 32)) [0..<5]) [0..<5])"

definition samples_to_wav :: "i16 list \<Rightarrow> u32 \<Rightarrow> bytes" where
  "samples_to_wav pcm rate =
     (let data_len = of_nat (length pcm * 2) :: u32; byte_rate = rate * 1 * 16 div 8 in
      concat [str_bytes ''RIFF'', le_bytes 4 (36 + data_len), str_bytes ''WAVE'', str_bytes ''fmt '', le_bytes 4 (16 :: u32), le_bytes 2 (1 :: u16),
        le_bytes 2 (1 :: u16), le_bytes 4 rate, le_bytes 4 byte_rate, le_bytes 2 (2 :: u16), le_bytes 2 (16 :: u16), str_bytes ''data'', le_bytes 4 data_len,
        concat (map le_bytes16 pcm)])"

section \<open>Which account is opened\<close>

lemma decimal_port_inject: "decimal (unat (p :: u16)) = decimal (unat q) \<longleftrightarrow> p = q"
  by (metis decimal_u16 option.inject)

text \<open>Each port has files of its own.\<close>

lemma port_files_differ: "p \<noteq> q \<Longrightarrow> gui_db_path p \<noteq> gui_db_path q \<and> account_file p \<noteq> account_file q"
  using decimal_port_inject [of p q] by (simp add: gui_db_path_def account_file_def del: decimal.simps)

lemma gui_config_port [simp]: "nc_port (gui_config f g) = ga_port g"
proof -
  have a: "nc_port (add_bootstrap a c) = nc_port c" for a c by (simp add: add_bootstrap_def)
  have "nc_port (fold (\<lambda>p. add_bootstrap (LOOPBACK p)) ps c) = nc_port c" for ps c by (induction ps arbitrary: c) (simp_all add: a)
  then show ?thesis by (simp add: gui_config_def Let_def a split: option.split)
qed

text \<open>The port is the first one from the chosen port on that can be bound.\<close>

lemma nm_try_first:
  assumes "nm_try bind (\<lambda>p. Some (SockV4 0 p)) base [m..<n] last_err = Inr a"
  shows "\<exists>k. m \<le> k \<and> k < n \<and> bind k (SockV4 0 (base + of_nat k)) = Inr a \<and> (\<forall>j. m \<le> j \<and> j < k \<longrightarrow> (\<exists>e. bind j (SockV4 0 (base + of_nat j)) = Inl e))"
  using assms
proof (induction "n - m" arbitrary: m last_err)
  case (Suc x)
  have m: "m < n" "[m..<n] = m # [Suc m..<n]" using Suc(2) by (simp_all add: upt_conv_Cons)
  show ?case
  proof (cases "bind m (SockV4 0 (base + of_nat m))")
    case (Inl e)
    have "\<exists>k. Suc m \<le> k \<and> k < n \<and> bind k (SockV4 0 (base + of_nat k)) = Inr a \<and>
        (\<forall>j. Suc m \<le> j \<and> j < k \<longrightarrow> (\<exists>e. bind j (SockV4 0 (base + of_nat j)) = Inl e))"
      by (rule Suc(1) [of "Suc m" "Some e"]) (use Suc(2,3) Inl m(2) in simp_all)
    then obtain k where k: "Suc m \<le> k" "k < n" "bind k (SockV4 0 (base + of_nat k)) = Inr a"
      "\<forall>j. Suc m \<le> j \<and> j < k \<longrightarrow> (\<exists>e. bind j (SockV4 0 (base + of_nat j)) = Inl e)" by blast
    have "\<exists>e. bind j (SockV4 0 (base + of_nat j)) = Inl e" if "m \<le> j" "j < k" for j using that k(4) Inl by (cases "j = m") auto
    then show ?thesis using k by (intro exI [of _ k]) auto
  next
    case (Inr b)
    then show ?thesis using Suc(3) m by (intro exI [of _ m]) auto
  qed
qed simp

lemma bound_first_free:
  assumes "gui_bound E c = Some p"
  shows "\<exists>k<50. \<exists>a. ge_bind E k (SockV4 0 (nc_port c + of_nat k)) = Inr a \<and> p = sock_port a \<and>
    (\<forall>j<k. \<exists>e. ge_bind E j (SockV4 0 (nc_port c + of_nat j)) = Inl e)"
proof -
  obtain a where a: "nm_try (ge_bind E) (\<lambda>p. Some (SockV4 0 p)) (nc_port c) [0..<50] None = Inr a" "p = sock_port a"
    using assms by (auto simp: gui_bound_def nm_bind_auto_def split: sum.splits)
  from nm_try_first [OF a(1)] show ?thesis using a(2) by auto
qed

lemma bound_second:
  assumes "ge_bind E 0 (SockV4 0 (nc_port c)) = Inl e" "ge_bind E 1 (SockV4 0 (nc_port c + 1)) = Inr a"
  shows "gui_bound E c = Some (sock_port a)"
proof -
  have "[0..<50] = 0 # 1 # [2..<50::nat]" by (simp add: upt_conv_Cons numeral_2_eq_2)
  then show ?thesis using assms by (simp add: gui_bound_def nm_bind_auto_def)
qed

text \<open>A socket has the port that was asked for; port 0 asks for any.\<close>

definition binds_asked :: "gui_env \<Rightarrow> bool" where
  "binds_asked E \<longleftrightarrow> (\<forall>k x a. x \<noteq> 0 \<longrightarrow> ge_bind E k (SockV4 0 x) = Inr a \<longrightarrow> sock_port a = x)"

lemma port_bound:
  assumes "gui_bound E c = Some p" "nc_port c \<noteq> 0" "unat (nc_port c) \<le> 65486" "binds_asked E"
  shows "\<exists>k<50. p = nc_port c + of_nat k \<and> (\<forall>j<k. \<exists>e. ge_bind E j (SockV4 0 (nc_port c + of_nat j)) = Inl e)"
proof -
  obtain k a where k: "k < 50" "ge_bind E k (SockV4 0 (nc_port c + of_nat k)) = Inr a" "p = sock_port a"
    "\<forall>j<k. \<exists>e. ge_bind E j (SockV4 0 (nc_port c + of_nat j)) = Inl e" using bound_first_free [OF assms(1)] by blast
  have "unat (nc_port c + of_nat k) = unat (nc_port c) + k" using assms(3) k(1) by (simp add: unat_word_ariths unat_of_nat)
  moreover have "unat (nc_port c) \<noteq> 0" using assms(2) by (simp add: unat_eq_0)
  ultimately have "nc_port c + of_nat k \<noteq> 0" by (metis add_is_0 unat_0)
  then show ?thesis using k assms(4) unfolding binds_asked_def by blast
qed

lemma account_path: "gui_account E name path = Some a \<Longrightarrow> ac_path a = path"
  by (auto simp: gui_account_def split: prod.splits sum.splits)

lemma started_account:
  assumes "gui_start E g = (Some a, d, l)"
  shows "\<exists>p. gui_bound E (gui_config (ge_fmt E) g) = Some p \<and> gui_account E (ga_name g) (gui_db_path p) = Some a \<and> ac_path a = gui_db_path p \<and>
    (lk_onboarded l \<longleftrightarrow> ge_exists E (account_file p))"
  using assms account_path by (auto simp: gui_start_def lock_new_def Let_def split: prod.splits option.splits if_splits)

text \<open>A port that is taken moves the application to the next one, and so to another account: without the files of that port, a new one.\<close>

lemma busy_port_other_account:
  assumes "ge_bind E 0 (SockV4 0 (ga_port g)) = Inl e" "ge_bind E 1 (SockV4 0 (ga_port g + 1)) = Inr (SockV4 0 (ga_port g + 1))"
    and "gui_start E g = (Some a, d, l)"
  shows "ac_path a = gui_db_path (ga_port g + 1) \<and> ac_path a \<noteq> gui_db_path (ga_port g) \<and>
    (lk_onboarded l \<longleftrightarrow> ge_exists E (account_file (ga_port g + 1)))"
proof -
  have b: "gui_bound E (gui_config (ge_fmt E) g) = Some (ga_port g + 1)" using bound_second [of E _ e] assms(1,2) by simp
  have "ac_path a = gui_db_path (ga_port g + 1)" using started_account [OF assms(3)] b by auto
  moreover have "ga_port g + 1 \<noteq> ga_port g" by simp
  ultimately show ?thesis using port_files_differ assms(3) b
    by (auto simp: gui_start_def Let_def lock_new_def split: prod.splits option.splits if_splits)
qed

text \<open>The files before the start have one key at most, and the save of the start succeeded.\<close>

definition opened_files :: "gui_env \<Rightarrow> string \<Rightarrow> db_files" where
  "opened_files E p = snd (load_from_file (ge_crypto E) (ge_json E) (ge_file_io E) (so_load_rnd (ge_start_io E)) p (ge_canon E p) (ge_files E p))"

definition opened_key_agrees :: "gui_env \<Rightarrow> string \<Rightarrow> bool" where
  "opened_key_agrees E p \<longleftrightarrow> (\<exists>k. keys_agree p (ge_canon E p) (opened_files E p) k)"

definition start_saved :: "gui_env \<Rightarrow> string \<Rightarrow> messenger_db \<Rightarrow> bool" where
  "start_saved E p db \<longleftrightarrow> fst (save_to_file (ge_crypto E) (ge_json E) (ge_file_io E) (so_save_rnd (ge_start_io E)) (so_salt (ge_start_io E))
     (so_nonce (ge_start_io E)) (so_instant (ge_start_io E)) p (ge_canon E p) db (opened_files E p)) = Ok ()"

text \<open>With a port of its own the application finds its account again, as the window shows it: contacts, groups and messages of the database
  that was saved at the start, and the phrase of the identity.\<close>

lemma window_shows_database:
  assumes "crypto_ok (ge_crypto E)" "db_json_ok (ge_json E)" "ge_file_io E = io_fine" "length (so_salt (ge_start_io E)) = 16"
    "length (so_nonce (ge_start_io E)) = 12" "length (so_save_rnd (ge_start_io E)) = 32" "gui_start E g = (Some a, d, l)"
    and agree: "opened_key_agrees E (ac_path a)" and saved: "start_saved E (ac_path a) (ib_db (ac_state a))"
  shows "dk_contacts (app_new E rnd (Some a, d, l)) = map snd (db_contacts (ib_db (ac_state a))) \<and>
    dk_messages (app_new E rnd (Some a, d, l)) = db_messages (ib_db (ac_state a)) \<and> dk_me (app_new E rnd (Some a, d, l)) = user_id_hex (ac_identity a) \<and>
    (db_mnemonic (ib_db (ac_state a)) \<noteq> [] \<longrightarrow> lk_seed l = db_mnemonic (ib_db (ac_state a)))"
proof -
  obtain p where p: "gui_account E (ga_name g) (gui_db_path p) = Some a" "ac_path a = gui_db_path p"
    "d = (desktop_new (ga_name g) (snd (initial_account (ge_crypto E) (ge_words E) (ge_entropy E))))\<lparr>dk_me := user_id_hex (ac_identity a)\<rparr>"
    "db_mnemonic (ib_db (ac_state a)) \<noteq> [] \<longrightarrow> lk_seed l = db_mnemonic (ib_db (ac_state a))"
    using assms(7) account_path by (auto simp: gui_start_def Let_def split: prod.splits option.splits if_splits)
  have st: "messenger_start (ge_crypto E) (ge_words E) (ge_json E) io_fine (ge_start_io E) (ac_path a) (ge_canon E (ac_path a)) (ga_name g) (ge_table E)
      (ge_files E (ac_path a)) = (Inr (ac_identity a, ac_state a), ac_files a)"
    using p(1) assms(3) by (auto simp: gui_account_def p(2) split: prod.splits sum.splits)
  obtain db f1 mn r where c: "load_from_file (ge_crypto E) (ge_json E) io_fine (so_load_rnd (ge_start_io E)) (ac_path a) (ge_canon E (ac_path a))
      (ge_files E (ac_path a)) = (Ok db, f1)"
    "save_to_file (ge_crypto E) (ge_json E) io_fine (so_save_rnd (ge_start_io E)) (so_salt (ge_start_io E)) (so_nonce (ge_start_io E))
      (so_instant (ge_start_io E)) (ac_path a) (ge_canon E (ac_path a)) (ib_db (ac_state a)) f1 = (r, ac_files a)"
    using start_cases [OF st] by blast
  obtain k where k: "keys_agree (ac_path a) (ge_canon E (ac_path a)) f1 k" using agree c(1) assms(3) by (auto simp: opened_key_agrees_def opened_files_def)
  have r: "r = Ok ()" using saved c assms(3) by (simp add: start_saved_def opened_files_def)
  have "fst (load_from_file (ge_crypto E) (ge_json E) io_fine rnd (ac_path a) (ge_canon E (ac_path a)) (ac_files a)) = Ok (ib_db (ac_state a))"
    by (rule save_load(1) [OF assms(1,2,4,5) k assms(6) _ _ _ c(2) [unfolded r]]) (simp_all add: io_fine_def)
  then show ?thesis using p(3,4) assms(3) by (simp add: app_new_def)
qed

section \<open>Who is called\<close>

text \<open>The node asks itself: its own port is in the list under the address of the machine, while it is bound to all addresses.\<close>

lemma bootstraps_itself: "LOOPBACK 8443 \<in> set (bootstrap_targets (SockV4 0 8443) (nc_bootstrap (gui_config f g)))"
proof -
  have a: "x \<in> set (nc_bootstrap c) \<or> x = a \<Longrightarrow> x \<in> set (nc_bootstrap (add_bootstrap a c))" for x a c by (auto simp: add_bootstrap_def)
  have m: "x \<in> set (nc_bootstrap c) \<Longrightarrow> x \<in> set (nc_bootstrap (fold (\<lambda>p. add_bootstrap (LOOPBACK p)) ps c))" for x c ps
    by (induction ps arbitrary: c) (simp_all add: a)
  have "LOOPBACK 8443 \<in> set (nc_bootstrap (gui_config f g))" by (simp add: gui_config_def LOCAL_PORTS_def Let_def m a)
  then show ?thesis by (simp add: bootstrap_targets_def LOOPBACK_def)
qed

lemma local_called:
  assumes "discovery_round fuel io i own ps s = Some (called, s')"
  shows "set called \<subseteq> LOOPBACK ` (set ps - {sock_port own})"
  using assms
proof (induction ps arbitrary: s called)
  case (Cons p ps)
  obtain c1 s1 c2 where c: "discovery_port fuel io i own p s = Some (c1, s1)" "discovery_round fuel io i own ps s1 = Some (c2, s')" "called = c1 @ c2"
    using Cons.prems by (auto simp: bind_eq_Some_conv)
  have "set c1 \<subseteq> LOOPBACK ` ({p} - {sock_port own})" using c(1) by (auto simp: discovery_port_def Let_def split: if_splits sum.splits)
  then show ?case using Cons.IH [OF c(2)] c(3) by fastforce
qed simp

text \<open>The search keeps the invariant of the node and its records.\<close>

lemma discovery_keeps:
  assumes "discovery_round fuel io i own ps s = Some (called, s')" "node_inv s"
  shows "node_inv s' \<and> nd_storage s' = nd_storage s"
  using assms
proof (induction ps arbitrary: s called)
  case (Cons p ps)
  obtain c1 s1 c2 where c: "discovery_port fuel io i own p s = Some (c1, s1)" "discovery_round fuel io i own ps s1 = Some (c2, s')"
    using Cons.prems by (auto simp: bind_eq_Some_conv)
  have u: "node_inv (s\<lparr>nd_table := snd (rt_update k (nd_table s))\<rparr>)" for k using Cons.prems(2) by (simp add: node_inv_def rt_update_inv)
  have "node_inv s1 \<and> nd_storage s1 = nd_storage s"
    using c(1) Cons.prems(2) node_bootstrap_facts [OF u]
    by (auto simp: discovery_port_def Let_def split: if_splits sum.splits)
  then show ?case using Cons.IH [OF c(2)] by simp
qed simp

section \<open>What a click plays\<close>

lemma note_plays:
  "pl_current (play_voice_note io i v p) = Some i" "pl_start (play_voice_note io i v p) = Some (oi_now io)" "pl_duration (play_voice_note io i v p) \<ge> 1"
  "\<not> pl_looping (play_voice_note io i v p)"
proof -
  have "unat (max (vn_duration_secs v) 1) \<ge> 1" by (simp add: max_def word_le_nat_alt)
  then have "(1 :: rat) \<le> of_nat (unat (max (vn_duration_secs v) 1))" by (metis of_nat_1 of_nat_le_iff)
  then show "pl_current (play_voice_note io i v p) = Some i" "pl_start (play_voice_note io i v p) = Some (oi_now io)"
    "pl_duration (play_voice_note io i v p) \<ge> 1" "\<not> pl_looping (play_voice_note io i v p)"
    by (simp_all add: play_voice_note_def shows_playing_def reopen_def player_stop_def Let_def)
qed

text \<open>A click into the waveform plays from the start, wherever it was; so does one while the message is playing. A ringing phone falls silent.\<close>

lemma wave_click_restarts:
  assumes "\<not> pb_stop b"
  shows "pb_progress (fst (sync_playback io (wave_click i v x b, p))) = 0 \<and> pb_playing (fst (sync_playback io (wave_click i v x b, p))) = Some i \<and>
    \<not> pl_looping (snd (sync_playback io (wave_click i v x b, p)))"
proof -
  let ?p = "play_voice_note io i v p"
  have "play_progress io ?p = (0, 0)" by (simp add: play_progress_def note_plays(2))
  then have "update_progress io ?p = ((Some i, 0), ?p)" by (simp add: update_progress_def play_finished_def note_plays(1,2))
  then show ?thesis using assms note_plays(4) by (simp add: sync_playback_def wave_click_def Let_def)
qed

lemma second_click_stops:
  assumes "pb_playing b = Some i" "pb_play b = None"
  shows "pb_playing (fst (sync_playback io (note_click i v b, p))) = None \<and> pl_sink (snd (sync_playback io (note_click i v b, p))) = None"
  using assms by (simp add: sync_playback_def note_click_def update_progress_def player_stop_def Let_def)

text \<open>What is shown as playing is what the player plays.\<close>

lemma sync_shows_player:
  "sync_playback io (b, p) = (b', p') \<Longrightarrow> pb_playing b' = None \<or> pb_playing b' = pl_current p'"
  by (auto simp: sync_playback_def Let_def update_progress_def split: option.splits if_splits prod.splits)

section \<open>The studio never fails on an imported card\<close>

lemma verified_card_id: "verify_stego_card C c = Done (Ok i) \<Longrightarrow> \<exists>j. sg_user_id c = id_to_hex (from_key (cr_sha1 C) j)"
  by (auto simp: verify_stego_card_def exec_bind_def intro: sym split: exec.splits option.splits if_splits)

lemma studio_import_reports:
  assumes "crypto_ok C" "import_stego_avatar C S crc show_addr t img (studio_passphrase pw) db rt = Done (Ok c, db', rt')"
  shows "studio_import C S crc show_addr t (Some img) pw db rt =
    Done (Some (StudioAdded (sc_name c) (take 8 (sc_user_id c))), [Play SentSound], db', rt')"
proof -
  obtain crd i where c: "verify_stego_card C crd = Done (Ok i)" "c = stego_contact show_addr crd" using import_facts [OF assms(2)] by blast
  from verified_card_id [OF c(1)] obtain j where "sg_user_id crd = id_to_hex (from_key (cr_sha1 C) j)" by blast
  then have u: "sc_user_id c = to_hex (as_bytes (from_key (cr_sha1 C) j))" by (simp add: c(2) stego_contact_def id_to_hex_def ffi_node_id_to_hex_def)
  have "length (sc_user_id c) = 40"
    using crypto_lengths(4) [OF assms(1)] by (simp add: u from_key_def ffi_hash_node_id_def)
  then have "str_slice (sc_user_id c) 0 8 = Done (take 8 (sc_user_id c))" by (subst str_slice_plain) (simp_all add: u)
  then show ?thesis using assms(2) by (simp add: studio_import_def exec_bind_def)
qed

section \<open>Nothing is removed without a swipe\<close>

lemma item_offset: "-90 \<le> off \<and> off \<le> 0 \<Longrightarrow> sidebar_item right drag hit off = (r, off') \<Longrightarrow> -90 \<le> off' \<and> off' \<le> 0"
  by (auto simp: sidebar_item_def swipe_frame_def Let_def split: option.splits if_splits)

lemma offset_in_range: "-90 \<le> off \<and> off \<le> 0 \<Longrightarrow> sidebar_frames right fs off = (rs, off') \<Longrightarrow> -90 \<le> off' \<and> off' \<le> 0"
proof (induction fs arbitrary: off rs)
  case (Cons f fs)
  obtain drag hit where f: "f = (drag, hit)" by fastforce
  obtain r off1 where r: "sidebar_item right drag hit off = (r, off1)" by fastforce
  obtain rs1 where s: "sidebar_frames right fs off1 = (rs1, off')" using Cons.prems(2) by (simp add: f r split: prod.splits)
  show ?case using Cons.IH [OF item_offset [OF Cons.prems(1) r] s] .
qed simp

lemma removal_needs_swipe:
  "list_all (\<lambda>f. fst f = None) fs \<Longrightarrow> sidebar_frames right fs 0 = (rs, off) \<Longrightarrow> list_all (\<lambda>r. \<not> snd r) rs"
proof (induction fs arbitrary: rs)
  case (Cons f fs)
  obtain hit where f: "f = (None, hit)" using Cons.prems(1) by (cases f) auto
  obtain chosen where r: "sidebar_item right None hit 0 = ((chosen, False), 0)"
    by (cases hit) (auto simp: sidebar_item_def swipe_frame_def)
  obtain rs1 where s: "sidebar_frames right fs 0 = (rs1, off)" "rs = (chosen, False) # rs1" using Cons.prems(2) by (auto simp: f r split: prod.splits)
  have "list_all (\<lambda>r. \<not> snd r) rs1" using Cons.IH [OF _ s(1)] Cons.prems(1) by simp
  then show ?case by (simp add: s(2))
qed simp

lemma chosen_or_removed: "sidebar_item right drag hit off = ((chosen, removed), off') \<Longrightarrow> \<not> (chosen \<and> removed)"
  by (auto simp: sidebar_item_def Let_def split: option.splits if_splits)

section \<open>The signs\<close>

lemma identicon_symmetric: "r \<in> set (identicon u) \<Longrightarrow> rev r = r"
  by (auto simp: identicon_def Let_def upt_rec)

text \<open>Of the hash of an identifier, 15 bits are drawn.\<close>

lemma identicon_low_bits: "take_bit 15 (hash31 0x9e3779b9 u) = take_bit 15 (hash31 0x9e3779b9 v) \<Longrightarrow> identicon u = identicon v"
proof -
  assume h: "take_bit 15 (hash31 0x9e3779b9 u) = take_bit 15 (hash31 0x9e3779b9 v)"
  have "bit (hash31 0x9e3779b9 u) n = bit (hash31 0x9e3779b9 v) n" if "n < 15" for n
    using arg_cong [OF h, of "\<lambda>w. bit w n"] that by (simp add: bit_take_bit_iff)
  then show ?thesis by (simp add: identicon_def Let_def)
qed

lemma samples_to_wav_pcm: "samples_to_wav pcm rate = pcm_to_wav pcm rate"
  by (simp add: samples_to_wav_def pcm_to_wav_def Let_def)

lemma tone_reads_back: "length pcm < 2 ^ 31 \<Longrightarrow> wav_reads (samples_to_wav pcm rate) = Some (rate, pcm)"
  by (simp add: samples_to_wav_pcm wav_roundtrip)

end
