(* ===== verification/Desktop_Window.thy ===== *)
theory Desktop_Window
  imports Desktop_Views Desktop_Lock
begin

text \<open>
  The whole window of the desktop application (\<open>update\<close> in \<open>app.rs\<close>): the lock and the first steps, the chats, the settings, and the
  dialogs that are drawn over all of them. What can be clicked depends on what is shown: behind the lock nothing, but the toast, the call, the
  dialog that asks before a deletion, the dialogs for a new contact and a new group, the settings and the recovery phrase are drawn
  whatever the lock says. The lemmas say what the lock keeps and what these windows still allow, and when a sound is repeated.
\<close>

section \<open>State and inputs\<close>

record ui_window =
  uw_lock :: lock_state
  uw_settings :: settings_state
  uw_contact :: bool
  uw_group :: bool

abbreviation uw_desk :: "ui_window \<Rightarrow> desktop" where "uw_desk w \<equiv> snd (snd (uw_settings w))"

definition with_desk :: "ui_window \<Rightarrow> desktop \<Rightarrow> ui_window" where
  "with_desk w d = w\<lparr>uw_settings := (fst (uw_settings w), fst (snd (uw_settings w)), d)\<rparr>"

lemma with_desk_sel [simp]:
  "uw_desk (with_desk w d) = d" "uw_lock (with_desk w d) = uw_lock w" "uw_contact (with_desk w d) = uw_contact w" "uw_group (with_desk w d) = uw_group w"
  by (simp_all add: with_desk_def)

lemma with_desk_same [simp]: "with_desk w (uw_desk w) = w"
  by (simp add: with_desk_def)

text \<open>The dialogs for contacts and groups write back that they are open at the end of the frame, so only the cross closes them.\<close>

datatype window_input = OnLock ui_click | OnDesk desk_input | OnSettings settings_click | OpenContact | CloseContact | OpenGroup | CloseGroup | EscapeKey

text \<open>What is there to be clicked. What the messenger brings and the frames of a call come at any time; the toast, the call and
  the question before a deletion are there when the window has one.\<close>

definition desk_drawn :: "ui_window \<Rightarrow> desk_input \<Rightarrow> bool" where
  "desk_drawn w i = (case i of
      InEvent _ _ \<Rightarrow> True
    | InFrame _ _ _ \<Rightarrow> True
    | InToast zen _ _ \<Rightarrow> zen = se_zen (fst (uw_settings w))
    | InCall _ _ _ _ \<Rightarrow> dk_call (uw_desk w) \<noteq> None
    | InConfirmDelete \<Rightarrow> dk_confirm_delete (uw_desk w) \<noteq> None
    | InCancelDelete \<Rightarrow> dk_confirm_delete (uw_desk w) \<noteq> None
    | InContact _ _ \<Rightarrow> uw_contact w \<and> dk_backend (uw_desk w)
    | InGroup _ _ _ _ _ _ \<Rightarrow> uw_group w
    | InCopy \<Rightarrow> screen_of (uw_lock w) = MainView \<or> uw_contact w \<or> lk_phrase (uw_lock w) \<or> lk_profile (uw_lock w)
    | _ \<Rightarrow> screen_of (uw_lock w) = MainView)"

fun window_step :: "desk_env \<Rightarrow> crypto \<Rightarrow> mnemonics \<Rightarrow> window_input \<Rightarrow> ui_window \<Rightarrow> (ui_window \<times> effect list) exec" where
  "window_step E C M (OnLock k) w = (case click C M k (uw_lock w, uw_desk w) of (l, d) \<Rightarrow> Done ((with_desk w d)\<lparr>uw_lock := l\<rparr>, []))"
| "window_step E C M (OnDesk i) w =
     (if desk_drawn w i then exec_bind (desk_step E i (uw_desk w)) (\<lambda>(d, e). Done (with_desk w d, e)) else Done (w, []))"
| "window_step E C M (OnSettings k) w =
     (if lk_settings (uw_lock w) \<and> dk_backend (uw_desk w)
      then (case settings_chosen k (uw_settings w) of (st, e) \<Rightarrow> Done (w\<lparr>uw_settings := st\<rparr>, e)) else Done (w, []))"
| "window_step E C M OpenContact w = Done (w\<lparr>uw_contact := uw_contact w \<or> screen_of (uw_lock w) = MainView\<rparr>, [])"
| "window_step E C M CloseContact w = Done (w\<lparr>uw_contact := False\<rparr>, [])"
| "window_step E C M OpenGroup w = Done (w\<lparr>uw_group := uw_group w \<or> screen_of (uw_lock w) = MainView\<rparr>, [])"
| "window_step E C M CloseGroup w = Done (w\<lparr>uw_group := False\<rparr>, [])"
| "window_step E C M EscapeKey w =
     Done (if screen_of (uw_lock w) = MainView then w\<lparr>uw_settings := (fst (uw_settings w)\<lparr>se_zen := False\<rparr>, snd (uw_settings w))\<rparr> else w, [])"

type_synonym window_trace = "(ui_window \<times> window_input \<times> effect list) list"

fun window_run :: "desk_env \<Rightarrow> crypto \<Rightarrow> mnemonics \<Rightarrow> window_input list \<Rightarrow> ui_window \<Rightarrow> (window_trace \<times> ui_window) exec" where
  "window_run E C M [] w = Done ([], w)"
| "window_run E C M (i # is) w = exec_bind (window_step E C M i w) (\<lambda>(w', e).
     exec_bind (window_run E C M is w') (\<lambda>(tr, w''). Done ((w, i, e) # tr, w'')))"

lemma window_run_Cons:
  assumes "window_run E C M (i # is) w = Done (tr, w')"
  obtains w1 e tr1 where "window_step E C M i w = Done (w1, e)" "window_run E C M is w1 = Done (tr1, w')" "tr = (w, i, e) # tr1"
  using assms by (auto simp: exec_bind_def split: exec.splits)

section \<open>What the lock keeps\<close>

text \<open>A locked window without settings, and the inputs that are not the right passcode.\<close>

definition firm :: "(bytes \<Rightarrow> bytes) \<Rightarrow> string \<Rightarrow> lock_state \<Rightarrow> bool" where
  "firm sha256 h l \<longleftrightarrow> lk_locked l \<and> \<not> lk_settings l \<and> \<not> lk_profile l \<and> lk_passcode l = Some h \<and>
     (lk_input l = [] \<or> hash_passcode sha256 (lk_input l) \<noteq> h)"

definition not_the_way :: "(bytes \<Rightarrow> bytes) \<Rightarrow> string \<Rightarrow> window_input \<Rightarrow> bool" where
  "not_the_way sha256 h i \<longleftrightarrow> i \<noteq> OnLock Forgot \<and> (\<forall>p. i = OnLock (TypePasscode p) \<longrightarrow> hash_passcode sha256 p \<noteq> h)"

lemma firm_click:
  assumes "firm (cr_sha256 C) h (fst x)" "k \<noteq> Forgot" "\<forall>p. k = TypePasscode p \<longrightarrow> hash_passcode (cr_sha256 C) p \<noteq> h"
  shows "firm (cr_sha256 C) h (fst (click C M k x)) \<and> snd (click C M k x) = snd x"
  using assms by (cases x; cases k) (auto simp: firm_def click_def screen_of_def try_unlock_def lock_frame_def Let_def)

text \<open>What is written to others: messages, voice notes, reactions, edits, deletions for everyone.\<close>

fun writes_to_others :: "request \<Rightarrow> bool" where
  "writes_to_others (RqSend u x) = True"
| "writes_to_others (RqVoice u v) = True"
| "writes_to_others (RqReact u i x) = True"
| "writes_to_others (RqEdit u i x) = True"
| "writes_to_others (RqDeleteEveryone u is) = True"
| "writes_to_others _ = False"

fun is_writing :: "effect \<Rightarrow> bool" where
  "is_writing (Ask r) = writes_to_others r"
| "is_writing _ = False"

lemma no_writing [simp]:
  "\<not> writes_to_others r \<Longrightarrow> list_all (\<lambda>x. \<not> is_writing x) (ask r d)" "list_all (\<lambda>x. \<not> is_writing x) silence"
  "list_all (\<lambda>x. \<not> is_writing x) (play_samples pcm rate)" "list_all (\<lambda>x. \<not> is_writing x) (snd (log_call_message lio u x b d))"
  by (simp_all add: ask_def silence_def play_samples_def log_call_message_def Let_def)

lemma event_writes_nothing: "list_all (\<lambda>x. \<not> is_writing x) (snd (handle_event io e d))"
proof (cases "(io, e, d)" rule: handle_event.cases)
  case (2 io m d)
  then show ?thesis by (auto simp: message_received_def Let_def split: option.split)
next
  case (6 io s d)
  then show ?thesis
    by (auto simp: call_signalled_def call_offered_def call_answered_def call_rejected_def call_hung_up_def case_prod_unfold Let_def
        split: call_signal_type.split option.split)
qed (auto split: option.split)

text \<open>The windows over the lock write nothing to others.\<close>

lemma over_lock_writes_nothing:
  assumes "screen_of (uw_lock w) = LockScreen" "desk_drawn w i" "desk_step E i (uw_desk w) = Done (d', e)"
  shows "list_all (\<lambda>x. \<not> is_writing x) e"
proof (cases i)
  case (InEvent io ev)
  then show ?thesis using assms(3) event_writes_nothing [of io ev "uw_desk w"] by simp
next
  case (InCall lio sec now k)
  have "list_all (\<lambda>x. \<not> is_writing x) (snd (call_chosen lio sec now ch d))" for ch d
    by (auto simp: call_chosen_def case_prod_unfold Let_def split: call_choice.split option.split)
  then show ?thesis using assms(3) InCall by (auto split: prod.splits option.splits) (metis snd_conv)
qed (use assms in \<open>auto simp: desk_drawn_def call_frame_def delete_session_def add_typed_contact_def create_group_shown_def case_prod_unfold Let_def
    split: option.splits if_splits\<close>)

lemma firm_step:
  assumes "firm (cr_sha256 C) h (uw_lock w)" "not_the_way (cr_sha256 C) h i" "window_step E C M i w = Done (w', e)"
  shows "firm (cr_sha256 C) h (uw_lock w') \<and> fst (uw_settings w') = fst (uw_settings w) \<and> list_all (\<lambda>x. \<not> is_writing x) e"
proof (cases i)
  case (OnLock k)
  obtain l d where c: "click C M k (uw_lock w, uw_desk w) = (l, d)" by fastforce
  have "firm (cr_sha256 C) h l" using firm_click [of C h "(uw_lock w, uw_desk w)" k M] assms(1,2) c OnLock by (simp add: not_the_way_def)
  then show ?thesis using assms(3) c OnLock by (auto simp: with_desk_def)
next
  case (OnDesk j)
  have "screen_of (uw_lock w) = LockScreen" using assms(1) by (simp add: firm_def screen_of_def)
  from over_lock_writes_nothing [OF this] show ?thesis using assms(1,3) OnDesk
    by (auto simp: exec_bind_def with_desk_def split: if_splits exec.splits)
qed (use assms(1,3) in \<open>auto simp: firm_def screen_of_def\<close>)

lemma firm_run:
  assumes "window_run E C M is w = Done (tr, w')" "firm (cr_sha256 C) h (uw_lock w)" "\<forall>i \<in> set is. not_the_way (cr_sha256 C) h i"
  shows "firm (cr_sha256 C) h (uw_lock w') \<and> fst (uw_settings w') = fst (uw_settings w) \<and>
    (\<forall>(v, i, e) \<in> set tr. firm (cr_sha256 C) h (uw_lock v) \<and> list_all (\<lambda>x. \<not> is_writing x) e)"
  using assms
proof (induction "is" arbitrary: w tr)
  case (Cons i "is")
  obtain w1 e tr1 where s: "window_step E C M i w = Done (w1, e)" "window_run E C M is w1 = Done (tr1, w')" "tr = (w, i, e) # tr1"
    using Cons.prems(1) by (rule window_run_Cons)
  have n: "not_the_way (cr_sha256 C) h i" "\<forall>i \<in> set is. not_the_way (cr_sha256 C) h i" using Cons.prems(3) by simp_all
  note f = firm_step [OF Cons.prems(2) n(1) s(1)]
  from Cons.IH [OF s(2) conjunct1 [OF f] n(2)] f s(3) Cons.prems(2) show ?case by auto
qed simp

text \<open>With nothing drawn over the lock, and nothing new from the messenger, the chats stay as they are.\<close>

definition bare :: "ui_window \<Rightarrow> bool" where
  "bare w \<longleftrightarrow> \<not> uw_contact w \<and> \<not> uw_group w \<and> dk_toast (uw_desk w) = None \<and> dk_call (uw_desk w) = None \<and> dk_confirm_delete (uw_desk w) = None"

lemma bare_step:
  assumes "firm (cr_sha256 C) h (uw_lock w)" "not_the_way (cr_sha256 C) h i" "bare w" "\<forall>io ev. i \<noteq> OnDesk (InEvent io ev)"
    "window_step E C M i w = Done (w', e)"
  shows "bare w' \<and> uw_desk w' = uw_desk w"
proof (cases i)
  case (OnLock k)
  obtain l d where c: "click C M k (uw_lock w, uw_desk w) = (l, d)" by fastforce
  have "d = uw_desk w" using firm_click [of C h "(uw_lock w, uw_desk w)" k M] assms(1,2) c OnLock by (simp add: not_the_way_def)
  then show ?thesis using assms(3,5) c OnLock by (auto simp: bare_def)
next
  case (OnDesk j)
  have "desk_step E j (uw_desk w) = Done (uw_desk w, e')" if "desk_drawn w j" "desk_step E j (uw_desk w) = Done (d', e')" for d' e'
    using that assms(1,3,4) OnDesk
    by (cases j) (auto simp: desk_drawn_def firm_def screen_of_def bare_def toast_frame_def call_frame_def split: option.splits)
  then show ?thesis using assms(3,5) OnDesk by (auto simp: exec_bind_def bare_def split: if_splits exec.splits)
qed (use assms(1,3,5) in \<open>auto simp: firm_def bare_def screen_of_def\<close>)

lemma bare_run:
  assumes "window_run E C M is w = Done (tr, w')" "firm (cr_sha256 C) h (uw_lock w)" "\<forall>i \<in> set is. not_the_way (cr_sha256 C) h i"
    "bare w" "\<forall>i \<in> set is. \<forall>io ev. i \<noteq> OnDesk (InEvent io ev)"
  shows "uw_desk w' = uw_desk w"
  using assms
proof (induction "is" arbitrary: w tr)
  case (Cons i "is")
  obtain w1 e tr1 where s: "window_step E C M i w = Done (w1, e)" "window_run E C M is w1 = Done (tr1, w')" "tr = (w, i, e) # tr1"
    using Cons.prems(1) by (rule window_run_Cons)
  have n: "not_the_way (cr_sha256 C) h i" "\<forall>i \<in> set is. not_the_way (cr_sha256 C) h i" "\<forall>io ev. i \<noteq> OnDesk (InEvent io ev)"
    "\<forall>i \<in> set is. \<forall>io ev. i \<noteq> OnDesk (InEvent io ev)" using Cons.prems(3,5) by simp_all
  from Cons.IH [OF s(2) conjunct1 [OF firm_step [OF Cons.prems(2) n(1) s(1)]] n(2) conjunct1 [OF bare_step [OF Cons.prems(2) n(1) Cons.prems(4) n(3) s(1)]] n(4)]
    bare_step [OF Cons.prems(2) n(1) Cons.prems(4) n(3) s(1)] show ?case by simp
qed simp

text \<open>But what is drawn over the lock can be used: the toast shows a message and selects its chat, an incoming call is accepted, and
  the contact whose deletion was asked for is deleted.\<close>

lemma toast_over_lock:
  assumes "screen_of (uw_lock w) = LockScreen" "dk_toast (uw_desk w) = Some t" "dk_notify (uw_desk w)" "\<not> se_zen (fst (uw_settings w))" "now - to_created t \<le> 4500000000"
  shows "\<exists>w'. window_step E C M (OnDesk (InToast False now ToastOpen)) w = Done (w', []) \<and> screen_of (uw_lock w') = LockScreen \<and>
    dk_chat (uw_desk w') = Some (to_sender t)"
  using assms by (simp add: desk_drawn_def toast_frame_def)

lemma call_over_lock:
  assumes "screen_of (uw_lock w) = LockScreen" "dk_call (uw_desk w) = Some c" "cl_incoming c" "\<not> cl_connected c"
  shows "\<exists>w' e. window_step E C M (OnDesk (InCall io sec now AcceptClick)) w = Done (w', e) \<and> screen_of (uw_lock w') = LockScreen \<and> MicStart \<in> set e \<and>
    (\<exists>c'. dk_call (uw_desk w') = Some c' \<and> cl_connected c')"
  using assms by (simp add: desk_drawn_def call_modal_def call_chosen_def Let_def)

section \<open>When a sound is repeated\<close>

text \<open>The button of the settings that tries the ringtone was pressed, and nothing has ended the sound since.\<close>

definition ring_tried :: "window_trace \<Rightarrow> bool" where
  "ring_tried tr \<longleftrightarrow> (\<exists>a v e b. tr = a @ (v, OnSettings (OnNotify TestRingtone), e) # b \<and> lk_settings (uw_lock v) \<and>
     list_all (\<lambda>(v, i, e). list_all (\<lambda>x. \<not> ends_loop x) e) b)"

lemma ring_tried_on:
  assumes "ring_tried tr" "list_all (\<lambda>x. \<not> ends_loop x) e" shows "ring_tried (tr @ [(v, i, e)])"
proof -
  obtain a u f b where "tr = a @ (u, OnSettings (OnNotify TestRingtone), f) # b" "lk_settings (uw_lock u)"
    "list_all (\<lambda>(v, i, e). list_all (\<lambda>x. \<not> ends_loop x) e) b" using assms(1) unfolding ring_tried_def by blast
  then show ?thesis using assms(2) unfolding ring_tried_def
    by (intro exI [of _ a] exI [of _ u] exI [of _ f] exI [of _ "b @ [(v, i, e)]"]) simp
qed

lemma settings_call: "dk_call (snd (snd (fst (settings_chosen k x)))) = dk_call (snd (snd x))"
proof -
  obtain s b d where x: "x = (s, b, d)" by (cases x)
  have "dk_call (snd (fst (account_chosen j (s, d)))) = dk_call d" for j by (cases j) simp_all
  moreover have "dk_call (snd (session_chosen j (s, d))) = dk_call d" for j by (cases j) simp_all
  moreover have "dk_call (snd (fst (notify_chosen j (s, d)))) = dk_call d" for j by (cases j) simp_all
  moreover have "dk_call (snd (fst (advanced_chosen j (s, d)))) = dk_call d" for j by (cases j) simp_all
  ultimately show ?thesis unfolding x by (cases k) (simp_all add: with_sidebar_def)
qed

lemma settings_loops: "e \<in> set (snd (settings_chosen k x)) \<Longrightarrow> starts_loop e \<Longrightarrow> k = OnNotify TestRingtone"
proof -
  obtain s b d where x: "x = (s, b, d)" by (cases x)
  have "e \<in> set (snd (account_chosen j (s, d))) \<Longrightarrow> \<not> starts_loop e" for j by (cases j) auto
  moreover have "e \<in> set (snd (notify_chosen j (s, d))) \<Longrightarrow> starts_loop e \<Longrightarrow> j = TestRingtone" for j by (cases j) auto
  moreover have "e \<in> set (snd (advanced_chosen j (s, d))) \<Longrightarrow> \<not> starts_loop e" for j by (cases j) auto
  ultimately show "e \<in> set (snd (settings_chosen k x)) \<Longrightarrow> starts_loop e \<Longrightarrow> k = OnNotify TestRingtone"
    unfolding x by (cases k) (auto simp: with_sidebar_def)
qed

lemma onboarding_call [simp]: "dk_call (snd (onboarding_step C M a (l, d))) = dk_call d"
  by (cases a) (simp_all add: onboarding_defs split: sum.split)

lemma click_call_kept: "dk_call (snd (click C M k x)) = dk_call (snd x)"
  by (cases x; cases k) (simp_all add: click_def)

text \<open>One step: a sound is repeated afterwards only for a call that waits, or because the ringtone is tried.\<close>

lemma window_step_rings:
  assumes "window_step E C M i w = Done (w', e)" "pl_looping p \<longrightarrow> call_waits (uw_desk w) \<or> ring_tried tr" "heard h = e"
  shows "pl_looping (fold player_does h p) \<longrightarrow> call_waits (uw_desk w') \<or> ring_tried (tr @ [(w, i, e)])"
proof
  assume l: "pl_looping (fold player_does h p)"
  have "(pl_looping p \<and> list_all (\<lambda>x. \<not> ends_loop x) e) \<or> (\<exists>x \<in> set e. starts_loop x)" using heard_loops [OF l] assms(3) by auto
  then consider (old) "pl_looping p" "list_all (\<lambda>x. \<not> ends_loop x) e" | (new) x where "x \<in> set e" "starts_loop x" by blast
  then show "call_waits (uw_desk w') \<or> ring_tried (tr @ [(w, i, e)])"
  proof cases
    case old
    have "call_waits (uw_desk w') \<or> \<not> call_waits (uw_desk w)"
    proof (cases i)
      case (OnLock k)
      then show ?thesis using assms(1) click_call_kept [of C M k "(uw_lock w, uw_desk w)"]
        by (cases "click C M k (uw_lock w, uw_desk w)") (auto simp: call_waits_def with_desk_def)
    next
      case (OnSettings k)
      then show ?thesis using assms(1) settings_call [of k "uw_settings w"] by (auto simp: call_waits_def split: if_splits prod.splits)
    next
      case (OnDesk j)
      have "hushed (uw_desk w) (uw_desk w') e \<or> w' = w" using assms(1) OnDesk step_hushed
        by (auto simp: exec_bind_def split: if_splits exec.splits)
      then show ?thesis using old(2) by (auto simp: hushed_def list_all_iff list_ex_iff)
    qed (use assms(1) in \<open>auto split: if_splits\<close>)
    then show ?thesis using assms(2) old ring_tried_on by blast
  next
    case new
    show ?thesis
    proof (cases i)
      case (OnLock k)
      then show ?thesis using assms(1) new(1) by (auto split: prod.splits)
    next
      case (OnSettings k)
      then have k: "k = OnNotify TestRingtone" "lk_settings (uw_lock w)"
        using assms(1) new settings_loops [of x k "uw_settings w"] by (auto split: if_splits prod.splits)
      then show ?thesis using OnSettings unfolding ring_tried_def
        by (intro disjI2 exI [of _ tr] exI [of _ w] exI [of _ e] exI [of _ "[]"]) simp
    next
      case (OnDesk j)
      have "hushed (uw_desk w) (uw_desk w') e" using assms(1) new(1) OnDesk step_hushed
        by (auto simp: exec_bind_def split: if_splits exec.splits)
      then show ?thesis using new by (auto simp: hushed_def list_all_iff)
    qed (use assms(1) new(1) in auto)
  qed
qed

lemma window_run_rings:
  assumes "window_run E C M is w = Done (tr, w')" "heard h = concat (map (snd \<circ> snd) tr)" "pl_looping p \<longrightarrow> call_waits (uw_desk w) \<or> ring_tried pre"
  shows "pl_looping (fold player_does h p) \<longrightarrow> call_waits (uw_desk w') \<or> ring_tried (pre @ tr)"
  using assms
proof (induction "is" arbitrary: w tr h p pre)
  case Nil
  then have "heard h = []" "tr = []" "w' = w" by simp_all
  then show ?case using heard_loops [of h p] Nil.prems(3) by auto
next
  case (Cons i "is")
  obtain w1 e tr1 where s: "window_step E C M i w = Done (w1, e)" "window_run E C M is w1 = Done (tr1, w')" "tr = (w, i, e) # tr1"
    using Cons.prems(1) by (rule window_run_Cons)
  have "heard h = e @ concat (map (snd \<circ> snd) tr1)" using Cons.prems(2) by (simp add: s(3) comp_def)
  from heard_split [OF this] obtain h1 h2 where h: "h = h1 @ h2" "heard h1 = e" "heard h2 = concat (map (snd \<circ> snd) tr1)" by blast
  from Cons.IH [OF s(2) h(3) window_step_rings [OF s(1) Cons.prems(3) h(2)]] show ?case by (simp add: h(1) s(3))
qed

end
