(* ===== verification/Frontend_Promises.thy ===== *)
theory Frontend_Promises
  imports Desktop_Promises Desktop_Start Desktop_Window
begin

text \<open>
  The properties of the lock and the start of the desktop application, of the sound, the views and the command line, each over a whole run of inputs, with their use at concrete inputs.
\<close>

text \<open>Samples: the window of the sender, and the same window locked.\<close>

definition demo_window :: "lock_state \<Rightarrow> desktop \<Rightarrow> ui_window" where
  "demo_window l d = \<lparr>uw_lock = l, uw_settings = (settings_new, \<lparr>sb_query = [], sb_folder = AllChats\<rparr>, d), uw_contact = False, uw_group = False\<rparr>"

definition demo_locked :: lock_state where
  "demo_locked = (lock_new ''s'' True 0)\<lparr>lk_passcode := Some (hash_passcode (cr_sha256 demo_crypto) ''1234''), lk_locked := True\<rparr>"

text \<open>C24. A locked window without open settings stays locked, at every moment and with its passcode, whatever is clicked and typed in whatever
  order, whatever the messenger brings and however much time passes, unless the passcode itself is typed or the button for a forgotten
  passcode is used; this counts the windows that are drawn over the lock too: the toast, the call, the question before a deletion, the dialogs
  for contacts and groups, the recovery phrase. In all this time the settings stay as they are and nothing is written to others: no
  message, voice note, reaction, edit or deletion for everyone. When none of those windows is open and the messenger brings
  nothing, the chats stay as they are too; with them open they do not (see \<open>toast_over_lock\<close> and \<open>call_over_lock\<close>).\<close>

theorem lock_screen_holds:
  assumes "window_run E C M is w = Done (tr, w')"
    and "lk_locked (uw_lock w)" "\<not> lk_settings (uw_lock w)" "\<not> lk_profile (uw_lock w)" "lk_passcode (uw_lock w) = Some h" "lk_input (uw_lock w) = []"
    and "\<forall>i \<in> set is. i \<noteq> OnLock Forgot \<and> (\<forall>p. i = OnLock (TypePasscode p) \<longrightarrow> hash_passcode (cr_sha256 C) p \<noteq> h)"
  shows "screen_of (uw_lock w') = LockScreen \<and> lk_passcode (uw_lock w') = Some h \<and> fst (uw_settings w') = fst (uw_settings w) \<and>
    (\<forall>(v, i, e) \<in> set tr. screen_of (uw_lock v) = LockScreen \<and> (\<forall>r. writes_to_others r \<longrightarrow> Ask r \<notin> set e)) \<and>
    (\<not> uw_contact w \<and> \<not> uw_group w \<and> dk_toast (uw_desk w) = None \<and> dk_call (uw_desk w) = None \<and> dk_confirm_delete (uw_desk w) = None \<and>
       (\<forall>io ev. OnDesk (InEvent io ev) \<notin> set is) \<longrightarrow> uw_desk w' = uw_desk w)"
proof -
  have f: "firm (cr_sha256 C) h (uw_lock w)" using assms(2-6) by (simp add: firm_def)
  have n: "\<forall>i \<in> set is. not_the_way (cr_sha256 C) h i" using assms(7) by (simp add: not_the_way_def)
  have locked: "firm (cr_sha256 C) h l \<Longrightarrow> screen_of l = LockScreen \<and> lk_passcode l = Some h" for l by (simp add: firm_def screen_of_def)
  have quiet: "list_all (\<lambda>x. \<not> is_writing x) e \<Longrightarrow> writes_to_others r \<Longrightarrow> Ask r \<notin> set e" for e r by (auto simp: list_all_iff)
  from firm_run [OF assms(1) f n] have r: "firm (cr_sha256 C) h (uw_lock w')" "fst (uw_settings w') = fst (uw_settings w)"
    "\<forall>(v, i, e) \<in> set tr. firm (cr_sha256 C) h (uw_lock v) \<and> list_all (\<lambda>x. \<not> is_writing x) e" by blast+
  have "uw_desk w' = uw_desk w" if "\<not> uw_contact w \<and> \<not> uw_group w \<and> dk_toast (uw_desk w) = None \<and> dk_call (uw_desk w) = None \<and>
      dk_confirm_delete (uw_desk w) = None \<and> (\<forall>io ev. OnDesk (InEvent io ev) \<notin> set is)"
    by (rule bare_run [OF assms(1) f n]) (use that in \<open>auto simp: bare_def\<close>)
  then show ?thesis using r locked quiet by blast
qed

theorem lock_screen_holds_witness:
  "\<exists>tr w'. window_run demo_desk demo_crypto demo_words [OnLock (TypePasscode ''0000''), OnLock (Unlock 5), OnLock OpenSettings, OnSettings (OnNotify TestRingtone),
      OpenContact, OnDesk (InToast False 6 ToastOpen), OnDesk (InSend demo_ui ''x'' None), OnDesk InConfirmDelete] (demo_window demo_locked demo_desktop) = Done (tr, w') \<and>
    screen_of (uw_lock w') = LockScreen \<and> uw_desk w' = demo_desktop"
proof -
  let ?w = "demo_window demo_locked demo_desktop" and ?is = "[OnLock (TypePasscode ''0000''), OnLock (Unlock 5), OnLock OpenSettings,
      OnSettings (OnNotify TestRingtone), OpenContact, OnDesk (InToast False 6 ToastOpen), OnDesk (InSend demo_ui ''x'' None), OnDesk InConfirmDelete]"
  have h: "hash_passcode (cr_sha256 demo_crypto) ''0000'' \<noteq> hash_passcode (cr_sha256 demo_crypto) ''1234''" by code_simp
  have w: "lk_locked (uw_lock ?w)" "\<not> lk_settings (uw_lock ?w)" "\<not> lk_profile (uw_lock ?w)" "lk_input (uw_lock ?w) = []" "uw_desk ?w = demo_desktop"
    "lk_passcode (uw_lock ?w) = Some (hash_passcode (cr_sha256 demo_crypto) ''1234'')" "\<not> uw_contact ?w" "\<not> uw_group ?w"
    by (simp_all add: demo_window_def demo_locked_def lock_new_def)
  have "\<exists>tr w'. window_run demo_desk demo_crypto demo_words ?is ?w = Done (tr, w')"
    using h by (simp add: exec_bind_def click_def demo_window_def demo_locked_def lock_new_def screen_of_def try_unlock_def desk_drawn_def
        with_desk_def toast_frame_def demo_desktop_def)
  then obtain tr w' where r: "window_run demo_desk demo_crypto demo_words ?is ?w = Done (tr, w')" by blast
  have "\<forall>i \<in> set ?is. i \<noteq> OnLock Forgot \<and> (\<forall>p. i = OnLock (TypePasscode p) \<longrightarrow>
      hash_passcode (cr_sha256 demo_crypto) p \<noteq> hash_passcode (cr_sha256 demo_crypto) ''1234'')" using h by simp
  from lock_screen_holds [OF r w(1-3,6,4) this] r w(5,7,8) show ?thesis by (simp add: demo_desktop_def)
qed

text \<open>C25. When the desktop application starts with an account, on a chosen port that is not 0 and has fifty ports above it, this is the account of
  the first port, from the chosen one on, that can be bound, and of no other: another port has another database and another mark of a
  finished account. When the key file and the key cache agree for this database, and it could be saved, the window shows the
  contacts and messages of the database that the messenger opened, under its identity, and the recovery phrase of the database,
  when the database has one.\<close>

theorem account_of_free_port:
  assumes "gui_start E g = (Some a, d, l)" "ga_port g \<noteq> 0" "unat (ga_port g) \<le> 65486" "binds_asked E"
    and "crypto_ok (ge_crypto E)" "db_json_ok (ge_json E)" "ge_file_io E = io_fine" "length (so_salt (ge_start_io E)) = 16"
    "length (so_nonce (ge_start_io E)) = 12" "length (so_save_rnd (ge_start_io E)) = 32"
    and "opened_key_agrees E (ac_path a)" "start_saved E (ac_path a) (ib_db (ac_state a))"
  shows "(\<exists>k<50. let p = ga_port g + of_nat k in (\<forall>j<k. \<exists>e. ge_bind E j (SockV4 0 (ga_port g + of_nat j)) = Inl e) \<and>
      ac_path a = gui_db_path p \<and> (lk_onboarded l \<longleftrightarrow> ge_exists E (account_file p)) \<and>
      (\<forall>q. q \<noteq> p \<longrightarrow> gui_db_path q \<noteq> ac_path a \<and> account_file q \<noteq> account_file p)) \<and>
    (let w = app_new E rnd (Some a, d, l); db = ib_db (ac_state a) in
      dk_contacts w = map snd (db_contacts db) \<and> dk_messages w = db_messages db \<and> dk_me w = user_id_hex (ac_identity a) \<and>
      (db_mnemonic db \<noteq> [] \<longrightarrow> lk_seed l = db_mnemonic db))"
proof
  obtain p where p: "gui_bound E (gui_config (ge_fmt E) g) = Some p" "ac_path a = gui_db_path p" "lk_onboarded l \<longleftrightarrow> ge_exists E (account_file p)"
    using started_account [OF assms(1)] by blast
  obtain k where k: "k < 50" "p = ga_port g + of_nat k" "\<forall>j<k. \<exists>e. ge_bind E j (SockV4 0 (ga_port g + of_nat j)) = Inl e"
    using port_bound [OF p(1) _ _ assms(4)] assms(2,3) by auto
  show "\<exists>k<50. let p = ga_port g + of_nat k in (\<forall>j<k. \<exists>e. ge_bind E j (SockV4 0 (ga_port g + of_nat j)) = Inl e) \<and>
      ac_path a = gui_db_path p \<and> (lk_onboarded l \<longleftrightarrow> ge_exists E (account_file p)) \<and>
      (\<forall>q. q \<noteq> p \<longrightarrow> gui_db_path q \<noteq> ac_path a \<and> account_file q \<noteq> account_file p)"
    unfolding Let_def using k p(2,3) port_files_differ by (intro exI [of _ k]) metis
next
  show "let w = app_new E rnd (Some a, d, l); db = ib_db (ac_state a) in
      dk_contacts w = map snd (db_contacts db) \<and> dk_messages w = db_messages db \<and> dk_me w = user_id_hex (ac_identity a) \<and>
      (db_mnemonic db \<noteq> [] \<longrightarrow> lk_seed l = db_mnemonic db)"
    unfolding Let_def by (rule window_shows_database [OF assms(5-10,1,11,12)])
qed

text \<open>A first start while the chosen port is taken: the application gets the next one, and an account with a new phrase.\<close>

definition demo_gui :: gui_env where
  "demo_gui = \<lparr>ge_crypto = demo_crypto, ge_words = demo_words, ge_json = demo_db_json, ge_file_io = io_fine, ge_start_io = demo_start,
     ge_canon = (\<lambda>p. ''/'' @ p), ge_bind = (\<lambda>k a. if k = 0 then Inl ''in use'' else Inr a), ge_exists = (\<lambda>p. False), ge_files = (\<lambda>p. no_files),
     ge_entropy = [], ge_now = 0, ge_table = rt_new (NodeId []), ge_fmt = \<lparr>af_show = demo_show, af_parse = demo_parse\<rparr>\<rparr>"

definition demo_args :: gui_args where
  "demo_args = \<lparr>ga_port = 8443, ga_name = ''alice'', ga_bootstrap = None\<rparr>"

lemma demo_gui_sel [simp]:
  "ge_crypto demo_gui = demo_crypto" "ge_words demo_gui = demo_words" "ge_json demo_gui = demo_db_json" "ge_file_io demo_gui = io_fine"
  "ge_start_io demo_gui = demo_start" "ge_canon demo_gui = (\<lambda>p. ''/'' @ p)" "ge_files demo_gui = (\<lambda>p. no_files)" "ge_table demo_gui = rt_new (NodeId [])"
  "ge_bind demo_gui = (\<lambda>k a. if k = 0 then Inl ''in use'' else Inr a)" "ge_exists demo_gui = (\<lambda>p. False)"
  by (simp_all add: demo_gui_def)

lemma demo_account: "\<exists>a. gui_account demo_gui ''alice'' p = Some a \<and> ac_path a = p \<and> ac_identity a = alice \<and> ib_db (ac_state a) = demo_started"
proof -
  have c: "choose_identity demo_crypto demo_words [] [] db_default = Ok (alice, Some ''twelve words'')"
    by (simp add: choose_identity_def db_default_def generate_mnemonic_def demo_words_def alice_def)
  have l: "load_from_file demo_crypto demo_db_json io_fine r p n no_files = (Ok db_default, no_files)" for r n
    by (simp add: load_from_file_def no_files_def)
  show ?thesis using c l by (simp add: gui_account_def messenger_start_def demo_start_def demo_started_def [symmetric] Let_def case_prod_unfold)
qed

lemma demo_gui_saves: "start_saved demo_gui p demo_started" "opened_key_agrees demo_gui p"
proof -
  have l: "load_from_file demo_crypto demo_db_json io_fine r p n no_files = (Ok db_default, no_files)" for r n
    by (simp add: load_from_file_def no_files_def)
  show "start_saved demo_gui p demo_started"
    unfolding start_saved_def opened_files_def demo_gui_sel l snd_conv
    by (simp add: demo_start_def save_to_file_def get_or_create_instance_key_def create_instance_key_def no_files_def io_fine_def abs_path_def written_def
      demo_db_json_def demo_crypto_def replace_db_def rotate_backup_def Let_def)
  have "keys_agree p (''/'' @ p) no_files (replicate 32 6)" by (simp add: keys_agree_def no_files_def)
  then show "opened_key_agrees demo_gui p" unfolding opened_key_agrees_def opened_files_def demo_gui_sel l snd_conv by blast
qed

theorem account_of_free_port_witness:
  "\<exists>a d l. gui_start demo_gui demo_args = (Some a, d, l) \<and> ac_path a = gui_db_path 8444 \<and> lk_seed l = ''twelve words'' \<and>
     dk_me (app_new demo_gui [] (Some a, d, l)) = user_id_hex alice"
proof -
  have b: "gui_bound demo_gui (gui_config (ge_fmt demo_gui) demo_args) = Some 8444"
    using bound_second [of demo_gui _ "''in use''"] by (simp add: demo_args_def)
  obtain a where a: "gui_account demo_gui ''alice'' (gui_db_path 8444) = Some a" "ac_path a = gui_db_path 8444" "ac_identity a = alice"
    "ib_db (ac_state a) = demo_started" using demo_account by blast
  have m: "db_mnemonic demo_started = ''twelve words''" by (simp add: demo_started_def started_db_def Let_def)
  obtain d l where s: "gui_start demo_gui demo_args = (Some a, d, l)"
    using a(1) b by (simp add: gui_start_def demo_args_def Let_def case_prod_unfold)
  have h: "length (so_salt demo_start) = 16" "length (so_nonce demo_start) = 12" "length (so_save_rnd demo_start) = 32" "ga_port demo_args = 8443"
    by (simp_all add: demo_start_def demo_args_def)
  have "binds_asked demo_gui" by (auto simp: binds_asked_def split: if_splits)
  from account_of_free_port [OF s _ _ this, of "[]"] show ?thesis
    using s a m h demo_gui_saves demo_crypto_ok demo_db_json_ok by (simp add: Let_def)
qed

text \<open>C26. The player repeats a sound, the ringtone or the dial tone, only while there is a call that waits to be taken, or because the
  ringtone was tried with the button of the settings and nothing has ended the sound since: whatever the user clicks, in the chats, the
  lock, the settings and the dialogs, whatever the messenger brings and whatever the sound card answers, if the player still repeats a sound
  after all effects of a run then the window shows a call that is not connected, or that button was pressed in the run, in open
  settings, and no later effect ended the sound. And never more than 41 pieces of a call wait to be played.\<close>

theorem ringing_means_call:
  assumes "window_run E C M is w = Done (tr, w')" "dk_call (uw_desk w) = None" "\<not> pl_looping p" "pl_call p = None"
    "heard h = concat (map (snd \<circ> snd) tr)"
  shows "(pl_looping (fold player_does h p) \<longrightarrow> (\<exists>c. dk_call (uw_desk w') = Some c \<and> \<not> cl_connected c) \<or>
      (\<exists>a v e b. tr = a @ (v, OnSettings (OnNotify TestRingtone), e) # b \<and> lk_settings (uw_lock v) \<and>
         (\<forall>(v, i, e) \<in> set b. \<forall>x \<in> set e. \<not> ends_loop x))) \<and>
    (\<forall>q. pl_call (fold player_does h p) = Some q \<longrightarrow> length q \<le> 41)"
proof -
  have "call_queue_short p" using assms(4) by (simp add: call_queue_short_def)
  then have q: "call_queue_short (fold player_does h p)" by (rule queue_bounded)
  have "pl_looping (fold player_does h p) \<longrightarrow> call_waits (uw_desk w') \<or> ring_tried tr"
    using window_run_rings [OF assms(1,5), of p "[]"] assms(3) by simp
  moreover have "ring_tried tr \<longleftrightarrow> (\<exists>a v e b. tr = a @ (v, OnSettings (OnNotify TestRingtone), e) # b \<and> lk_settings (uw_lock v) \<and>
      (\<forall>(v, i, e) \<in> set b. \<forall>x \<in> set e. \<not> ends_loop x))"
    by (simp add: ring_tried_def list_all_iff case_prod_unfold)
  moreover have "call_waits (uw_desk w') \<longleftrightarrow> (\<exists>c. dk_call (uw_desk w') = Some c \<and> \<not> cl_connected c)"
    by (auto simp: call_waits_def split: option.split)
  ultimately show ?thesis using q by (auto simp: call_queue_short_def split: option.splits)
qed

definition demo_out :: output_io where
  "demo_out = \<lparr>oi_opens = True, oi_sink = True, oi_decodes = (\<lambda>b. True), oi_now = 0, oi_empty = False, oi_fx_empty = False,
     oi_tone = (\<lambda>s. [1]), oi_synthesized = (\<lambda>n w. []), oi_unbase64 = (\<lambda>s. None)\<rparr>"

theorem ringing_means_call_witness:
  "\<exists>tr w'. window_run demo_desk demo_crypto demo_words [OnDesk (InEvent demo_ev (FromInbox (EvCall demo_offer))), OnLock OpenSettings]
       (demo_window (lock_new ''s'' True 0) demo_desktop) = Done (tr, w') \<and>
     pl_looping (fold player_does [(demo_out, Hear (Play RingtoneLoop))] (player_new True)) \<and> (\<exists>c. dk_call (uw_desk w') = Some c \<and> \<not> cl_connected c)"
proof -
  let ?is = "[OnDesk (InEvent demo_ev (FromInbox (EvCall demo_offer))), OnLock OpenSettings]" and ?w = "demo_window (lock_new ''s'' True 0) demo_desktop"
  let ?h = "[(demo_out, Hear (Play RingtoneLoop))]"
  have "\<exists>tr w'. window_run demo_desk demo_crypto demo_words ?is ?w = Done (tr, w') \<and> concat (map (snd \<circ> snd) tr) = [Play RingtoneLoop] \<and>
      map (fst \<circ> snd) tr = ?is"
    by (simp add: exec_bind_def desk_drawn_def demo_window_def with_desk_def click_def lock_new_def screen_of_def demo_offer_def call_signal_new_def
        call_signalled_def call_offered_def demo_desktop_def)
  then obtain tr w' where r: "window_run demo_desk demo_crypto demo_words ?is ?w = Done (tr, w')" "concat (map (snd \<circ> snd) tr) = [Play RingtoneLoop]"
    "map (fst \<circ> snd) tr = ?is" by (elim exE conjE) (rule that)
  have n: "\<nexists>a v e b. tr = a @ (v, OnSettings (OnNotify TestRingtone), e) # b"
  proof
    assume "\<exists>a v e b. tr = a @ (v, OnSettings (OnNotify TestRingtone), e) # b"
    then have "OnSettings (OnNotify TestRingtone) \<in> set (map (fst \<circ> snd) tr)" by auto
    then show False unfolding r(3) by simp
  qed
  have l: "pl_looping (fold player_does ?h (player_new True))"
    by (simp add: play_sound_def play_raw_wav_loop_def Let_def)
  have "\<exists>c. dk_call (uw_desk w') = Some c \<and> \<not> cl_connected c"
    using ringing_means_call [OF r(1), of "player_new True" ?h] r(2) l n by (auto simp: demo_window_def demo_desktop_def player_new_def)
  then show ?thesis using r(1) l by blast
qed

text \<open>C27. Stopping a recording ends, and gives a file, unless it is long: with up to \<open>2^24\<close> samples, or from a device that is not faster than
  16000 samples a second, it ends within twice as many turns as there are samples, leaves the microphone idle, and the
  file reads back as a sound of 16000 samples a second, with a waveform of 48 bars between 15 and 100. With more than \<open>2^26\<close> samples of a
  faster device (up to 64000 a second: less than half an hour) it never ends: the position in single precision stands still.\<close>

theorem recording_ends:
  assumes "length (mc_samples m) < 2 ^ 30"
  shows "(mc_rate m \<le> 16000 \<or> length (mc_samples m) \<le> 2 ^ 24 \<longrightarrow>
      (\<exists>wav w sec. mic_stop (2 * length (mc_samples m) + 1) m = Done (Some ((wav, w, sec), mic_idle m)) \<and> length w = 48 \<and>
         list_all (\<lambda>b. 15 \<le> b \<and> b \<le> 100) w \<and> (mc_samples m \<noteq> [] \<longrightarrow> (\<exists>ss. wav_reads wav = Some (16000, ss))))) \<and>
    (2 ^ 26 < length (mc_samples m) \<and> 16000 < mc_rate m \<and> mc_rate m \<le> 64000 \<longrightarrow> (\<forall>fuel. mic_stop fuel m = Done None))"
proof (intro conjI impI allI)
  assume "mc_rate m \<le> 16000 \<or> length (mc_samples m) \<le> 2 ^ 24"
  from mic_stop_returns [OF this] obtain wav w sec where m: "mic_stop (2 * length (mc_samples m) + 1) m = Done (Some ((wav, w, sec), mic_idle m))"
    "length w = 48" "list_all (\<lambda>b. 15 \<le> b \<and> b \<le> 100) w"
    "mc_samples m \<noteq> [] \<longrightarrow> (\<exists>ss. wav = pcm_to_wav ss 16000 \<and> length ss \<le> 2 * length (mc_samples m))" by blast
  have "mc_samples m \<noteq> [] \<longrightarrow> (\<exists>ss. wav_reads wav = Some (16000, ss))"
  proof
    assume "mc_samples m \<noteq> []"
    then obtain ss where s: "wav = pcm_to_wav ss 16000" "length ss \<le> 2 * length (mc_samples m)" using m(4) by blast
    have "length ss < 2 ^ 31" using s(2) assms by simp
    from wav_roundtrip [OF this] show "\<exists>ss. wav_reads wav = Some (16000, ss)" by (auto simp: s(1))
  qed
  then show "\<exists>wav w sec. mic_stop (2 * length (mc_samples m) + 1) m = Done (Some ((wav, w, sec), mic_idle m)) \<and> length w = 48 \<and>
      list_all (\<lambda>b. 15 \<le> b \<and> b \<le> 100) w \<and> (mc_samples m \<noteq> [] \<longrightarrow> (\<exists>ss. wav_reads wav = Some (16000, ss)))" using m(1-3) by blast
next
  fix fuel assume "2 ^ 26 < length (mc_samples m) \<and> 16000 < mc_rate m \<and> mc_rate m \<le> 64000"
  then show "mic_stop fuel m = Done None" using mic_stop_hangs by blast
qed

definition demo_mic :: "nat \<Rightarrow> mic" where
  "demo_mic n = mic_new\<lparr>mc_rate := 48000, mc_recording := True, mc_stream := True, mc_samples := replicate n 7\<rparr>"

lemma demo_mic_sel: "length (mc_samples (demo_mic n)) = n" "mc_rate (demo_mic n) = 48000"
  by (simp_all add: demo_mic_def)

theorem recording_ends_witness:
  "(\<exists>r. mic_stop 13 (demo_mic 6) = Done (Some (r, mic_idle (demo_mic 6)))) \<and> (\<forall>fuel. mic_stop fuel (demo_mic (2 ^ 26 + 1)) = Done None)"
proof
  show "\<exists>r. mic_stop 13 (demo_mic 6) = Done (Some (r, mic_idle (demo_mic 6)))" using recording_ends [of "demo_mic 6"] by (simp add: demo_mic_sel) blast
  have "length (mc_samples (demo_mic (2 ^ 26 + 1))) < 2 ^ 30" unfolding demo_mic_sel by simp
  from recording_ends [OF this] show "\<forall>fuel. mic_stop fuel (demo_mic (2 ^ 26 + 1)) = Done None" by (auto simp: demo_mic_sel)
qed

text \<open>C28. An edit goes to the chat that is shown when it is finished, not to the chat of the message: whoever begins to edit a message and
  then selects another contact sends the text to that contact when the button is pressed, under the identifier of the message.\<close>

theorem edit_reaches_shown_chat:
  assumes "m \<in> set (dk_messages d)" "BubbleEdit m \<in> set (bubble_offers m)" "rust_trim (sm_text m) \<noteq> []" "u \<noteq> SELF_SAVED" "dk_backend d" "u \<noteq> dk_me d"
    "u \<in> sc_user_id ` set (dk_contacts d)"
  shows "\<exists>ev tr d'. fst (press_send (snd (bubble_chosen (BubbleEdit m) c))) = Some ev \<and>
    desk_run E [InSelectChat u, event_input io ev] d = Done (tr, d') \<and> map (snd \<circ> snd) tr = [[], [Ask (RqEdit u (sm_id m) (rust_trim (sm_text m)))]]"
proof -
  obtain d1 d2 where "desk_step E (InSelectChat u) d = Done (d1, [])"
    "fst (press_send (snd (bubble_chosen (BubbleEdit m) c))) = Some (AskEdit (sm_id m) (rust_trim (sm_text m)))"
    "desk_step E (event_input io (AskEdit (sm_id m) (rust_trim (sm_text m)))) d1 = Done (d2, [Ask (RqEdit u (sm_id m) (rust_trim (sm_text m)))])"
    using edit_follows_chat [OF assms(3,4,5,6,7)] by metis
  then show ?thesis by (auto simp: exec_bind_def)
qed

theorem edit_reaches_shown_chat_witness:
  "\<exists>ev tr d'. fst (press_send (snd (bubble_chosen (BubbleEdit demo_message) \<lparr>cp_input = [], cp_reply = None, cp_edit = None\<rparr>))) = Some ev \<and>
    desk_run demo_desk [InSelectChat ''carol'', event_input demo_ui ev]
      (demo_desktop\<lparr>dk_messages := [demo_message], dk_contacts := [(demo_contact bob)\<lparr>sc_user_id := ''carol''\<rparr>]\<rparr>) = Done (tr, d') \<and>
    map (snd \<circ> snd) tr = [[], [Ask (RqEdit ''carol'' ''m1'' ''hi'')]]"
proof -
  let ?d = "demo_desktop\<lparr>dk_messages := [demo_message], dk_contacts := [(demo_contact bob)\<lparr>sc_user_id := ''carol''\<rparr>]\<rparr>"
  have m: "sm_text demo_message = ''hi''" "sm_id demo_message = ''m1''" by (simp_all add: demo_message_def own_message_def)
  have o: "BubbleEdit demo_message \<in> set (bubble_offers demo_message)"
    by (simp add: bubble_offers_def is_call_event_def CALL_SIGNS_def utf8_str_def) (simp add: demo_message_def own_message_def)
  have t: "rust_trim (sm_text demo_message) = ''hi''" unfolding m by code_simp
  have "''carol'' \<noteq> dk_me demo_desktop" by code_simp
  then have n: "''carol'' \<noteq> SELF_SAVED" "''carol'' \<noteq> dk_me demo_desktop" by (simp_all add: SELF_SAVED_def)
  show ?thesis using edit_reaches_shown_chat [of demo_message ?d "''carol''" "\<lparr>cp_input = [], cp_reply = None, cp_edit = None\<rparr>" demo_desk demo_ui] o n
    by (simp add: t m(2)) (simp add: demo_desktop_def)
qed

text \<open>C29. After the command \<open>add\<close> a contact can not be written to, even if the network had its card: what was found is replaced by a contact
  without keys. As long as the network answers nothing more, a following \<open>send\<close> prints an error; nothing is sent, and the queue of
  messages for later stays as it was.\<close>

theorem cli_add_forgets_key:
  assumes "word u" "list_all word ns" "ns \<noteq> []" "list_all word ws" "ws \<noteq> []" "id_from_hex u = Done (Ok i)" "\<not> db_is_blocked u (cm_db s)"
    "\<not> is_self (ue_hex (ce_user E)) u" "dl_found (ci_deliver io2) \<in> {None, Some None}"
  shows "\<exists>db s'. cli_lines E False [(io1, spaced (''add'' # u # ns)), (io2, spaced (''send'' # u # ws))] s =
      Done (Some ([SaveDb db, Print (LnAdded u), Print (LnSendFailed (RecipientVerifiedKeyMissing u))], s')) \<and>
    map_of (db_contacts (cm_db s')) u = Some (added_contact u (spaced ns)) \<and> ib_queue (cm_inbox s') = ib_queue (cm_inbox s)"
proof -
  have a: "cli_parse (ue_parse (ce_user E)) (spaced (''add'' # u # ns)) = Some (CmAdd u (spaced ns))"
    using parse_spaced [of "''add''" "u # ns"] assms(1-3) command_words by (cases ns) (simp_all add: cli_command_of_def with_args_def)
  obtain r db0 rt where f: "discover_peer (ue_crypto (ce_user E)) (ue_cards (ce_user E)) (ue_show (ce_user E)) (dl_instant (ci_deliver io1))
      (dl_found (ci_deliver io1)) (cm_db s) (ib_table (cm_inbox s)) = (r, db0, rt)" by (metis prod_cases3)
  obtain s1 db where x: "cli_exec E False io1 (CmAdd u (spaced ns)) s = Done (Some ([SaveDb db, Print (LnAdded u)], s1))"
    "db_blocked (cm_db s1) = db_blocked (cm_db s)" "ib_queue (cm_inbox s1) = ib_queue (cm_inbox s)"
    using discover_keeps_blocked [OF f] by (auto simp: cli_add_def db_add_contact_def f Let_def)
  have c: "map_of (db_contacts (cm_db s1)) u = Some (added_contact u (spaced ns))" using add_forgets(1) [OF x(1)] .
  have "\<not> db_is_blocked u (cm_db s1)" using assms(7) x(2) by (simp add: db_is_blocked_def)
  from send_refused_without_card [OF c assms(6) this assms(8,9)]
  have "cli_exec E False io2 (CmSend u (spaced ws)) s1 = Done (Some ([Print (LnSendFailed (RecipientVerifiedKeyMissing u))], s1))"
    by (simp add: cli_send_def exec_bind_def)
  then show ?thesis using x(1,3) c send_reads [OF assms(1,4,5)] by (auto simp: a exec_bind_def)
qed

definition demo_cli :: cli_env where
  "demo_cli = \<lparr>ce_user = demo_env, ce_addr = SockV4 1 1, ce_fmt = \<lparr>af_show = demo_show, af_parse = demo_parse\<rparr>, ce_fuel = 1, ce_ttl = 60,
     ce_crc = (\<lambda>b. 0), ce_base64 = (\<lambda>b. []), ce_write_chunk = (\<lambda>c. []), ce_db_json = demo_db_json, ce_argon2 = (\<lambda>p s. None),
     ce_db_path = ''db'', ce_db_canon = ''/db''\<rparr>"

definition demo_cli_io :: "bytes option option \<Rightarrow> cli_io" where
  "demo_cli_io found = \<lparr>ci_deliver = (demo_io True)\<lparr>dl_found := found\<rparr>, ci_stamp = demo_stamp, ci_now = 0, ci_lookup = (\<lambda>n cs. []), ci_store = (\<lambda>c. None),
     ci_ping = Inl CallTimedOut, ci_file = None, ci_rand = \<lparr>fr_id = 0, fr_key = [], fr_nonces = (\<lambda>n. [])\<rparr>, ci_salt = [], ci_nonce = [], ci_written = True,
     ci_db_removed = True, ci_key_removed = True\<rparr>"

definition demo_session :: cli_state where
  "demo_session = \<lparr>cm_inbox = demo_state bob [], cm_store = storage_new, cm_files = no_files\<rparr>"

text \<open>The network has the card of the contact when it is added, and the key was known before; the message is refused all the same.\<close>

theorem cli_add_forgets_key_witness:
  "\<exists>db s'. cli_lines demo_cli False [(demo_cli_io (Some (Some [6])), spaced [''add'', user_id_hex bob, ''Bob'']),
      (demo_cli_io None, spaced [''send'', user_id_hex bob, ''hi''])] demo_session =
    Done (Some ([SaveDb db, Print (LnAdded (user_id_hex bob)), Print (LnSendFailed (RecipientVerifiedKeyMissing (user_id_hex bob)))], s'))"
proof -
  have "word (user_id_hex bob)" by code_simp
  then have w: "word (user_id_hex bob)" "list_all word [''Bob'']" "list_all word [''hi'']" by (simp_all add: word_def plain_char_def)
  have i: "id_from_hex (user_id_hex bob) = Done (Ok (ui_user_id bob))"
    using id_hex_roundtrip [OF identity_wf [OF demo_crypto_ok demo_identities(2)]] by (simp add: user_id_hex_def)
  have b: "\<not> db_is_blocked (user_id_hex bob) (cm_db demo_session)" "\<not> is_self (ue_hex (ce_user demo_cli)) (user_id_hex bob)"
    using demo_ids_differ(2,3) by (simp_all add: demo_session_def demo_cli_def demo_env_def demo_state_def demo_db_def db_is_blocked_def db_default_def is_self_def)
  have f: "dl_found (ci_deliver (demo_cli_io None)) \<in> {None, Some None}" by (simp add: demo_cli_io_def)
  show ?thesis using cli_add_forgets_key [OF w(1,2) _ w(3) _ i b f, of "demo_cli_io (Some (Some [6]))"] by auto
qed

end
