(* ===== verification/Spec2Isabelle.thy ===== *)
theory Spec2Isabelle
  imports Peer_Health Kademlia_Node Net_Startup Relay Stun Config_State Upnp Bootstrap_Seed Frontend_Promises
begin

text \<open>
  A model of NodeX, a peer-to-peer messenger over a Kademlia network, translated from its Rust sources.

  The parts of the program. A datagram goes up through the layers and a request goes down through
  them. \<open>core-ffi/src/lib.rs\<close> writes messages to bytes and reads them. \<open>nodex-kademlia\<close> is the network:
  \<open>node.rs\<close> has identifiers and the routing table, \<open>rpc.rs\<close> the messages and the socket loop,
  \<open>chunking.rs\<close> splits long messages into datagrams, \<open>storage.rs\<close> keeps records, \<open>lookup.rs\<close> searches the
  network, \<open>lib.rs\<close> ties them together. \<open>nodex-messenger\<close> is the messenger on top of it: \<open>crypto.rs\<close> seals
  envelopes, \<open>db.rs\<close> keeps contacts and messages, \<open>message_queue.rs\<close> the messages to be delivered, and
  \<open>messenger.rs\<close> holds the operations of the user and the tasks that poll the mailboxes, retry the outbox and
  receive calls.

  The theories of the network, from the bottom up.

  \<^item> \<open>NodeX_Prelude\<close>: bytes and words, results, panics (\<open>exec\<close>), association lists as maps, and two
    interfaces: \<open>op_system\<close> (operations that keep an invariant) and \<open>codec\<close> (encoders with a decoder).
  \<^item> \<open>Core_Ffi\<close>: the serialiser with its cursor and buffer, every index checked (an index out of range is
    \<open>Panic\<close>), and the byte format as a pure specification that the encoder refines.
  \<^item> \<open>Rust_Strings\<close>: strings as UTF-8 bytes, slicing at character boundaries, trimming, hexadecimal.
  \<^item> \<open>Kad_Node\<close>: \<open>NodeId\<close>, \<open>Contact\<close>, \<open>KBucket\<close>, \<open>RoutingTable\<close>; the interface \<open>contact_table\<close> holds for
    a bucket and for the table.
  \<^item> \<open>Rpc_Codec\<close>: \<open>RpcMessage\<close> and its conversions, encode and decode.
  \<^item> \<open>Chunking\<close>: \<open>UdpChunk\<close>, \<open>ChunkAssembler\<close>.
  \<^item> \<open>Kad_Storage\<close>: \<open>Record\<close>, \<open>Storage\<close>; the interface \<open>value_store\<close>.
  \<^item> \<open>Peer_Health\<close>: \<open>PeerManager\<close>, \<open>HealthTracker\<close>, \<open>MetricsTracker\<close>, NAT categories, endpoints.
  \<^item> \<open>Lookup\<close>: \<open>LookupEngine\<close>; its loop is the interface \<open>lookup_engine\<close>, with both lookups as instances.
  \<^item> \<open>Rpc_Network\<close>: \<open>NetworkManager\<close>: sending, calls with retries, one turn of the receive loop.
  \<^item> \<open>Kademlia_Node\<close>: \<open>merge_store_value\<close>, the request handler, \<open>put\<close>, \<open>get\<close>, \<open>bootstrap\<close>, maintenance.
  \<^item> \<open>Bootstrap_Seed\<close>: the copy of the node library that runs on the bootstrap server (\<open>deploy/linux\<close>), where it differs.
  \<^item> \<open>Net_Startup\<close>: binding ports, \<open>run_bootstrap\<close>, the reconnection supervisor, hole punching.
  \<^item> \<open>Relay\<close>: \<open>OptInRelayService\<close>, its sessions, limits and quota.
  \<^item> \<open>Stun\<close>: the parser of binding responses and the query over the servers.
  \<^item> \<open>Upnp\<close>: port mapping on the gateway: SSDP, HTTP, SOAP and NAT-PMP (\<open>upnp.rs\<close>).
  \<^item> \<open>Onion\<close>: packets of two layers (\<open>onion.rs\<close>).
  \<^item> \<open>Json_Text\<close>, \<open>Config_State\<close>: the hand-written JSON reader, the configuration and the state file.

  The theories of the messenger.

  \<^item> \<open>Groups_Mesh\<close>: groups, mesh routes, reactions, calls, the block list (\<open>groups.rs\<close>, \<open>mesh.rs\<close>,
    \<open>reactions.rs\<close>, \<open>calls.rs\<close>, \<open>blocklist.rs\<close>).
  \<^item> \<open>Message_Db\<close>, \<open>Db_File\<close>: the database (\<open>db.rs\<close>), as operations under an invariant, and as an encrypted file
    with its key file, key cache and backups.
  \<^item> \<open>Envelope_Crypto\<close>: identities, mnemonics, envelopes of three versions, the replay cache (\<open>crypto.rs\<close>).
  \<^item> \<open>Signed_Cards\<close>: receipts, presence cards, invitations, the card of an image (\<open>receipts.rs\<close>, \<open>presence.rs\<close>,
    \<open>discovery.rs\<close>, \<open>invite.rs\<close>); \<open>Stego\<close>: the carrier of the last in an image (\<open>stego.rs\<close>).
  \<^item> \<open>Attachments\<close>: files in encrypted chunks (\<open>attachments.rs\<close>); \<open>Utf8_Text\<close>: strings from bytes.
  \<^item> \<open>Outbox\<close>: the retry queue and its worker (\<open>message_queue.rs\<close>, \<open>message_status.rs\<close>).
  \<^item> \<open>Call_Audio\<close>: frames of calls, sent and received (\<open>messenger.rs\<close>, \<open>send_call_audio_chunk\<close> and the receiving task).
  \<^item> \<open>Peer_Directory\<close>: presence, discovery, invitations (\<open>messenger.rs\<close>).
  \<^item> \<open>Inbox\<close>: the polling task (\<open>messenger.rs\<close>): the gate that decrypts and refuses replays, and every kind of payload.
  \<^item> \<open>Cascade\<close>: \<open>try_deliver_payload\<close>: direct UDP, TCP, hole punching, mailbox; and the TCP bridge that receives.
  \<^item> \<open>Messenger\<close>: \<open>start\<close> and the operations of the user; a step relation of all of them, the polling task and the
    worker, with its invariant.
  \<^item> \<open>Delivery\<close>: from the sender's call to the recipient's database; \<open>Messaging\<close>: the properties of the messenger.

  The theories of the desktop application (\<open>nodex-gui\<close>). What the window asks of the messenger, the sound card and the
  microphone is a list of effects.

  \<^item> \<open>Desktop\<close>: the state behind the windows, the events of the messenger, signals of calls (\<open>state.rs\<close>, \<open>app.rs\<close>).
  \<^item> \<open>Desktop_Actions\<close>: the chat that is shown, the operations of the user, the frames of a call, contacts and groups
    (\<open>app.rs\<close>, \<open>call_modal.rs\<close>, \<open>sidebar.rs\<close>, \<open>add_contact.rs\<close>).
  \<^item> \<open>Desktop_Lock\<close>: the lock screen, the timer, the first steps and the recovery phrase (\<open>lock_screen.rs\<close>, \<open>onboarding.rs\<close>,
    \<open>settings_modal.rs\<close>, \<open>mnemonic_modal.rs\<close>).
  \<^item> \<open>Desktop_Run\<close>: runs of all inputs, and when voice leaves; \<open>Desktop_Backend\<close>: the requests as the messenger handles them;
    \<open>Desktop_Promises\<close>: the properties from the click to the messenger.
  \<^item> \<open>Desktop_Sound\<close>: the microphone, the files of voice messages and the sound player (\<open>mic_recorder.rs\<close>, \<open>audio_player.rs\<close>,
    \<open>voice_recorder.rs\<close>), with single-precision numbers where a loop depends on their rounding.
  \<^item> \<open>Desktop_Views\<close>: the rows of the sidebar, the menu of a message, the composer, the settings and the other dialogs (\<open>views\<close>,
    \<open>message_bubble.rs\<close>, \<open>theme.rs\<close>).
  \<^item> \<open>Desktop_Window\<close>: the whole window, which puts these parts together: what is drawn, with the toast, the call and the dialogs over the
    lock, and runs of everything that can be clicked or comes in (\<open>update\<close> in \<open>app.rs\<close>). What the lock holds and which sounds are
    repeated is stated over these runs.
  \<^item> \<open>Desktop_Start\<close>: the start of the application and its account (\<open>main.rs\<close>), the search for nodes on the same machine, the playback of
    voice messages, the studio for images, the swipe over a row (\<open>voice_player.rs\<close>, \<open>stego_studio.rs\<close>, \<open>sidebar.rs\<close>, \<open>avatar.rs\<close>).

  \<open>Command_Line\<close> is the program without a window (\<open>nodex-cli/src/main.rs\<close>) and the one of the bootstrap server: options, the line that is
  read, and what each command does to the node, the messenger and its files. \<open>Frontend_Promises\<close> has the properties of the lock, the start,
  the sound, the views and the command line.

  Conventions. State is passed and returned; a lock held over a block of code makes that block one step.
  Time (\<open>Instant::now\<close>) is an argument in nanoseconds, so are random bytes and the answers of other nodes (the
  records \<open>deliver_io\<close>, \<open>envelope_io\<close>, \<open>start_io\<close>, \<open>file_io\<close>).
  A hash map is an association list in an arbitrary order of iteration; no lemma depends on the order.
  A slice or index out of range is the value \<open>Panic\<close>. Machine integers are words; a \<open>usize\<close> that counts bytes in
  memory is a natural number.

  Parameters. SHA-1, SHA-256, HMAC, HKDF, Ed25519, X25519 and ChaCha20-Poly1305 are the record \<open>crypto\<close>; \<open>crypto_ok\<close>
  states their lengths, that both sides agree on a shared secret, that a signature verifies, and that what was sealed
  opens. It says nothing of secrecy. CRC-32, base64, Argon2, the image codecs, the BIP-39 words and the texts of socket addresses are
  functions; JSON is a pair of functions for each type (\<open>json_ok\<close>, \<open>msg_json_ok\<close>, \<open>db_json_ok\<close>: what was written reads back).

  Bounds. The replay cache has at most 100000 entries, the store 64 MiB, the reassembler 256 messages. The outbox refuses a message when
  it has a hundred, but takes back the one that the worker holds, so a hundred and one are possible (\<open>limit_overrun\<close>). Wiping all data is
  one of the operations of the database and of the messenger; it forgets the deletions (\<open>wiped_comes_back\<close>).

  Fuel. The loop of a lookup has fuel: every turn that goes on queries an identifier that was not queried
  before, so one more than the number of identifiers that the answers can name is enough. A pass of the outbox worker
  has one more than the number of messages that are due, since an attempt puts a message off by two seconds or more.
  The loop that thins out a recording has twice as many turns as samples and one more, which is enough up to \<open>2^24\<close> samples; beyond \<open>2^26\<close>
  no fuel is.

  Not modelled. The search in messages and contacts (it folds case with the Unicode tables), the simulated voice
  note and the tones of the player (sines), the interpolation of call audio and samples that a device gives in floating point, printing and logging, the spawning of tasks (their bodies are modelled, and every
  interleaving of them between locks is a sequence of steps), the painting of the desktop windows with its colours and
  places, the letters in an avatar, packaging and scripts. Files, sockets and the clock answer as the arguments say; the answers of the operating system are not
  restricted.

  The properties of the messenger stand in \<open>Messaging\<close>, those of the desktop in \<open>Desktop_Promises\<close> and
  \<open>Frontend_Promises\<close>, those of the network below. Each is proved from the lemmas of its
  theory; a numbered one is followed by its use at a concrete input where it has a hypothesis, those without a number say more of the same parts.
\<close>

section \<open>Samples\<close>

text \<open>Concrete identifiers, contacts, messages and tables, at which the properties with hypotheses are
  applied.\<close>

definition sample_id :: "u8 \<Rightarrow> node_id" where
  "sample_id b = NodeId (replicate 19 0 @ [b])"

definition sample_addr :: "u8 \<Rightarrow> socket_addr" where
  "sample_addr b = SockV4 (0x0A000000 + ucast b) 4000"

definition sample_contact :: "u8 \<Rightarrow> contact" where
  "sample_contact b = contact_new 0 (sample_id b) (sample_addr b)"

definition sample_message :: "rpc_payload \<Rightarrow> rpc_message" where
  "sample_message p = \<lparr>rm_request_id = 7, rm_sender_id = sample_id 1, rm_payload = p\<rparr>"

definition sample_table :: routing_table where
  "sample_table = snd (rt_update (sample_contact 2) (rt_new (sample_id 1)))"

lemma wf_sample [simp]: "wf_id (sample_id b)"
  by (simp add: wf_id_def sample_id_def)

lemma sample_table_inv [simp]: "rt_inv sample_table"
  by (simp add: sample_table_def rt_update_inv rt_inv_new)

lemma sample_id_eq [simp]: "sample_id a = sample_id b \<longleftrightarrow> a = b"
  by (simp add: sample_id_def)

lemma asm_inv_new [simp]: "asm_inv (assembler_new t)"
  by (simp add: asm_inv_def assembler_new_def keys_distinct_def per_ip_count_def)

lemma new_has_room [simp]: "has_room src (cleanup_expired t (assembler_new n))"
  "map_of (ca_pending (cleanup_expired t (assembler_new n))) key = None"
  "ca_timeout (assembler_new n) = n"
  by (simp_all add: has_room_def assembler_new_def cleanup_expired_def per_ip_count_def)

lemma sample_rpc_ok: "rpc_ok (sample_message (Store (sample_id 3) (replicate 2000 65)))"
  "rpc_ok (sample_message Ping)"
  by (simp_all add: rpc_ok_def msg_wf_def sample_message_def value_fits_def payload_value_def
      contacts_sendable_def payload_contacts_def)

section \<open>Messages on the wire\<close>

text \<open>C30. Every well-formed message whose value fits and whose contacts can be dialled encodes, and
  the decoder reads the encoding back, whatever follows it in the buffer: what was sent arrives, up to
  the parts that do not travel (contacts beyond the twentieth, the scope of an IPv6 address, times).\<close>

theorem rpc_transport_roundtrip:
  assumes "rpc_ok m"
  shows "\<exists>w. rpc_encode m = Done (Ok w) \<and> (\<forall>t now. rpc_decode now (w @ t) = Done (Ok (canon_rpc now m)))"
  using assms rpc_encode_bytes [of m] rpc_decode_encode [of m] by (auto simp: rpc_ok_def)

theorem rpc_transport_roundtrip_witness:
  "\<exists>w. rpc_encode (sample_message (Store (sample_id 3) (replicate 2000 65))) = Done (Ok w) \<and>
    (\<forall>t now. rpc_decode now (w @ t) =
      Done (Ok (canon_rpc now (sample_message (Store (sample_id 3) (replicate 2000 65))))))"
  by (rule rpc_transport_roundtrip [OF sample_rpc_ok(1)])

text \<open>C31. A message sent as datagrams, however many chunks it takes, and delivered in any order before
  the reassembly times out, is received exactly once, with the last datagram, and is the message sent.
  No datagram is longer than the chunk threshold.\<close>

theorem datagrams_end_to_end:
  assumes m: "rpc_ok m" and mid: "length mid = 16"
  shows "\<exists>ds mt'. send_message crc mid (\<lambda>_. True) target m mt = Done (None, ds, mt') \<and>
    (\<forall>d \<in> set ds. fst d = redirect_unspecified target \<and> length (snd d) \<le> CHUNK_THRESHOLD) \<and>
    (\<forall>evs src a. mset (map snd evs) = mset (map snd ds) \<and> asm_inv a \<and>
       (\<forall>ev \<in> set evs. fst ev - fst (hd evs) < ca_timeout a) \<and>
       map_of (ca_pending (cleanup_expired (fst (hd evs)) a)) (src, mid) = None \<and>
       has_room src (cleanup_expired (fst (hd evs)) a) \<longrightarrow>
       (\<exists>a'. rx_run crc src evs a =
          Done (replicate (length evs - 1) None @ [Some (canon_rpc (fst (last evs)) m)], a')))"
proof -
  obtain ds mt' where s: "send_message crc mid (\<lambda>_. True) target m mt = Done (None, ds, mt')"
    using send_message_ok [OF m mid, of "\<lambda>_. True"] by blast
  note run = receive_sent [OF m mid s]
  show ?thesis
    by (rule exI [of _ ds], rule exI [of _ mt'], intro conjI s send_message_datagrams [OF mid s] allI impI)
      (elim conjE, rule run; assumption)
qed

theorem datagrams_end_to_end_witness:
  "\<exists>ds mt' a'. send_message (\<lambda>_. 0) (replicate 16 9) (\<lambda>_. True) (sample_addr 2)
      (sample_message (Store (sample_id 3) (replicate 2000 65))) metrics_new = Done (None, ds, mt') \<and>
    rx_run (\<lambda>_. 0) (sample_addr 1) (map (\<lambda>d. (0, snd d)) (rev ds)) (assembler_new 10) =
      Done (replicate (length ds - 1) None @
        [Some (canon_rpc (fst (last (map (\<lambda>d. (0, snd d)) (rev ds))))
          (sample_message (Store (sample_id 3) (replicate 2000 65))))], a')"
proof -
  have len: "length (replicate 16 (9 :: u8)) = 16" by simp
  obtain ds mt' where ds: "send_message (\<lambda>_. 0) (replicate 16 9) (\<lambda>_. True) (sample_addr 2)
      (sample_message (Store (sample_id 3) (replicate 2000 65))) metrics_new = Done (None, ds, mt')"
    and run: "\<And>evs src a. mset (map snd evs) = mset (map snd ds) \<and> asm_inv a \<and>
       (\<forall>ev \<in> set evs. fst ev - fst (hd evs) < ca_timeout a) \<and>
       map_of (ca_pending (cleanup_expired (fst (hd evs)) a)) (src, replicate 16 9) = None \<and>
       has_room src (cleanup_expired (fst (hd evs)) a) \<Longrightarrow>
       (\<exists>a'. rx_run (\<lambda>_. 0) src evs a = Done (replicate (length evs - 1) None @
          [Some (canon_rpc (fst (last evs)) (sample_message (Store (sample_id 3) (replicate 2000 65))))], a'))"
    using datagrams_end_to_end [OF sample_rpc_ok(1) len, of "\<lambda>_. 0" "sample_addr 2" metrics_new] by blast
  have "\<exists>a'. rx_run (\<lambda>_. 0) (sample_addr 1) (map (\<lambda>d. (0, snd d)) (rev ds)) (assembler_new 10) =
      Done (replicate (length (map (\<lambda>d. (0 :: nat, snd d)) (rev ds)) - 1) None @
        [Some (canon_rpc (fst (last (map (\<lambda>d. (0, snd d)) (rev ds))))
          (sample_message (Store (sample_id 3) (replicate 2000 65))))], a')"
    by (rule run) (auto simp: comp_def rev_map)
  then show ?thesis using ds by auto
qed

text \<open>C32. Decoding is total: no input makes it panic, and what it accepts is a well-formed message
  with identifiers of 20 bytes, a value of at most 65536 bytes and at most 20 contacts that can be
  dialled.\<close>

theorem rpc_decode_safe:
  "case rpc_decode now bs of Panic \<Rightarrow> False | Done (Inl e) \<Rightarrow> True | Done (Inr m) \<Rightarrow> received_ok m"
  using rpc_decode_no_panic [of now bs] rpc_decode_sound [of now bs]
  by (cases "rpc_decode now bs") (auto split: sum.split)

text \<open>C33. The C-layout serialiser refines the wire format: on a message with arrays of the declared
  sizes it writes exactly the bytes of the specification and returns their number, or returns -1 when the
  message has no encoding or the buffer is too short; it never panics and never changes the size of the
  buffer.\<close>

theorem ffi_encode_refines:
  assumes "arrays_ok m"
  shows "case wire_bytes m of
      None \<Rightarrow> \<exists>b. ffi_encode_message m buf = Done (- 1, b) \<and> length b = length buf
    | Some w \<Rightarrow> if length w \<le> length buf
        then ffi_encode_message m buf = Done (of_nat (length w), w @ drop (length w) buf)
        else (\<exists>b. ffi_encode_message m buf = Done (- 1, b) \<and> length b = length buf)"
  using ffi_encode_success [OF assms] ffi_encode_failure [OF assms, of buf] by (auto split: option.split)

theorem ffi_encode_refines_witness:
  "case wire_bytes c_message_default of
      None \<Rightarrow> \<exists>b. ffi_encode_message c_message_default [1, 2 :: u8] = Done (- 1, b) \<and> length b = length [1, 2 :: u8]
    | Some w \<Rightarrow> if length w \<le> length [1, 2 :: u8]
        then ffi_encode_message c_message_default [1, 2 :: u8] = Done (of_nat (length w), w @ drop (length w) [1, 2 :: u8])
        else (\<exists>b. ffi_encode_message c_message_default [1, 2 :: u8] = Done (- 1, b) \<and> length b = length [1, 2 :: u8])"
  by (rule ffi_encode_refines) (simp add: c_message_default_def arrays_ok_def)

text \<open>Whatever bytes the deserialiser accepts, the message it fills in is encodable, and decoding its
  encoding gives the same message: acceptance is canonical, and no field keeps a value of the output
  structure from before the call.\<close>

theorem ffi_decode_canonical:
  assumes "length (cm_sender_id out) = 20" "ffi_decode_message buf out = Done (0, m)"
  shows "\<exists>w. wire_bytes m = Some w \<and> (\<forall>out'. ffi_decode_message w out' = Done (0, m))"
  using ffi_decode_reencode [OF assms] by (metis option.inject)

section \<open>Identifiers and the routing table\<close>

text \<open>The XOR distance is a metric in which every distance is taken once: it is zero for equal
  identifiers only, symmetric, satisfies the triangle inequality, and is unidirectional, so lookups
  for one key converge along one path; the byte order of \<open>NodeId\<close> is the numerical order.\<close>

theorem xor_metric:
  assumes "wf_id a" "wf_id b" "wf_id c"
  shows "(id_num (distance a b) = 0 \<longleftrightarrow> a = b) \<and> distance a b = distance b a \<and>
    id_num (distance a c) \<le> id_num (distance a b) + id_num (distance b c) \<and>
    (distance a b = distance a c \<longleftrightarrow> b = c) \<and>
    (distance a b < distance a c \<longleftrightarrow> id_num (distance a b) < id_num (distance a c))"
  using assms by (intro conjI distance_zero distance_sym distance_triangle distance_cancel id_less_num)
    (auto simp: wf_id_def distance_def)

theorem xor_metric_witness:
  "(id_num (distance (sample_id 1) (sample_id 2)) = 0 \<longleftrightarrow> sample_id 1 = sample_id 2) \<and>
    distance (sample_id 1) (sample_id 2) = distance (sample_id 2) (sample_id 1) \<and>
    id_num (distance (sample_id 1) (sample_id 3)) \<le>
      id_num (distance (sample_id 1) (sample_id 2)) + id_num (distance (sample_id 2) (sample_id 3)) \<and>
    (distance (sample_id 1) (sample_id 2) = distance (sample_id 1) (sample_id 3) \<longleftrightarrow> sample_id 2 = sample_id 3) \<and>
    (distance (sample_id 1) (sample_id 2) < distance (sample_id 1) (sample_id 3) \<longleftrightarrow>
      id_num (distance (sample_id 1) (sample_id 2)) < id_num (distance (sample_id 1) (sample_id 3)))"
  by (rule xor_metric) simp_all

text \<open>The bucket of an identifier is the position of the highest bit in which it differs from the
  local one: bucket \<open>k\<close> holds the identifiers at a distance from \<open>2^(159-k)\<close> up to
  \<open>2^(160-k)\<close>.\<close>

theorem bucket_index_distance:
  assumes "wf_id a" "wf_id b" "a \<noteq> b"
  shows "bucket_index a b < NUM_BUCKETS \<and> (bucket_index a b = k \<longleftrightarrow>
    k < 160 \<and> 2 ^ (159 - k) \<le> id_num (distance a b) \<and> id_num (distance a b) < 2 ^ (160 - k))"
  using bucket_index_iff [OF assms] bucket_index_less by blast

theorem bucket_index_distance_witness:
  "bucket_index (sample_id 1) (sample_id 2) < NUM_BUCKETS \<and> (bucket_index (sample_id 1) (sample_id 2) = 158 \<longleftrightarrow>
    158 < (160 :: nat) \<and> 2 ^ (159 - 158) \<le> id_num (distance (sample_id 1) (sample_id 2)) \<and>
    id_num (distance (sample_id 1) (sample_id 2)) < 2 ^ (160 - 158))"
  by (rule bucket_index_distance) simp_all

text \<open>C34. After any sequence of updates, forced updates and removals every bucket holds at most 20
  contacts, each in the bucket of its identifier, no identifier occurs twice in the table and it has at
  most 3200 contacts.\<close>

theorem routing_table_run:
  "let t = fold rt_step ops (rt_new i) in
     rt_inv t \<and> distinct (map ct_id (all_contacts t)) \<and> total_contacts t \<le> NUM_BUCKETS * K"
proof -
  have "rt_inv (fold rt_step ops (rt_new i))" by (rule rt_sys.run_inv) (simp_all add: rt_inv_new list_all_iff)
  then show ?thesis using rt_distinct total_contacts_bound by (simp only: Let_def)
qed

text \<open>The result of an update tells what happened to the set of known identifiers: a new one was
  added, a known one refreshed, a full bucket or an address that is ignored left the table as it was; a
  full bucket names one of its contacts, to be pinged.\<close>

theorem rt_update_outcome:
  assumes "rt_inv t"
  shows "case fst (rt_update c t) of
      Inserted \<Rightarrow> ct_id c \<notin> rt_ids t \<and> rt_ids (snd (rt_update c t)) = insert (ct_id c) (rt_ids t)
    | Updated \<Rightarrow> ct_id c \<in> rt_ids t \<and> rt_ids (snd (rt_update c t)) = rt_ids t
    | Full d \<Rightarrow> ct_id c \<notin> rt_ids t \<and> ct_id d \<in> rt_ids t \<and> snd (rt_update c t) = t
    | SelfIgnored \<Rightarrow> snd (rt_update c t) = t"
  using rt_upd_ids [OF assms] by (cases "fst (rt_update c t)") simp_all

theorem rt_update_outcome_witness:
  "case fst (rt_update (sample_contact 3) sample_table) of
      Inserted \<Rightarrow> ct_id (sample_contact 3) \<notin> rt_ids sample_table \<and>
        rt_ids (snd (rt_update (sample_contact 3) sample_table)) = insert (ct_id (sample_contact 3)) (rt_ids sample_table)
    | Updated \<Rightarrow> ct_id (sample_contact 3) \<in> rt_ids sample_table \<and>
        rt_ids (snd (rt_update (sample_contact 3) sample_table)) = rt_ids sample_table
    | Full d \<Rightarrow> ct_id (sample_contact 3) \<notin> rt_ids sample_table \<and> ct_id d \<in> rt_ids sample_table \<and>
        snd (rt_update (sample_contact 3) sample_table) = sample_table
    | SelfIgnored \<Rightarrow> snd (rt_update (sample_contact 3) sample_table) = sample_table"
  by (rule rt_update_outcome) simp

text \<open>A closest-nodes query gives distinct contacts of the table, as many as asked for if there are
  so many, in the order of their distance, and no contact left out is closer than one given.\<close>

theorem find_closest_optimal:
  assumes "rt_inv t"
  shows "distinct (map ct_id (find_closest x n t)) \<and> set (find_closest x n t) \<subseteq> set (all_contacts t) \<and>
    length (find_closest x n t) = min n (total_contacts t) \<and>
    sorted (map (\<lambda>c. distance (ct_id c) x) (find_closest x n t)) \<and>
    (\<forall>c \<in> set (find_closest x n t). \<forall>d \<in> set (all_contacts t) - set (find_closest x n t).
       distance (ct_id c) x \<le> distance (ct_id d) x)"
  using find_closest_least
  by (auto simp only: find_closest_distinct [OF assms] find_closest_length find_closest_sorted
      Diff_iff intro: find_closest_subset [THEN subsetD])

theorem find_closest_optimal_witness:
  "distinct (map ct_id (find_closest (sample_id 9) 5 sample_table)) \<and>
    set (find_closest (sample_id 9) 5 sample_table) \<subseteq> set (all_contacts sample_table) \<and>
    length (find_closest (sample_id 9) 5 sample_table) = min 5 (total_contacts sample_table) \<and>
    sorted (map (\<lambda>c. distance (ct_id c) (sample_id 9)) (find_closest (sample_id 9) 5 sample_table))"
  using find_closest_optimal [OF sample_table_inv, of "sample_id 9" 5] by blast

text \<open>A bucket is kept in the order of last contact, and when it is full the contact handed out for a
  ping is the one not heard of for longest.\<close>

theorem bucket_lru:
  assumes "bucket_wf b" "sorted (map ct_last_seen b)" "\<forall>x \<in> set b. ct_last_seen x \<le> ct_last_seen c"
  shows "sorted (map ct_last_seen (snd (bucket_update c b))) \<and>
    (case fst (bucket_update c b) of Full d \<Rightarrow> d \<in> set b \<and> (\<forall>x \<in> set b. ct_last_seen d \<le> ct_last_seen x) | _ \<Rightarrow> True)"
  using bucket_update_sorted [OF assms] bucket_full_oldest [OF assms(1,2)]
  by (auto simp: bucket_update_def split: update_result.splits option.splits if_splits intro!: nth_mem)

theorem bucket_lru_witness:
  "sorted (map ct_last_seen (snd (bucket_update (sample_contact 3) [sample_contact 2]))) \<and>
    (case fst (bucket_update (sample_contact 3) [sample_contact 2]) of
       Full d \<Rightarrow> d \<in> set [sample_contact 2] \<and> (\<forall>x \<in> set [sample_contact 2]. ct_last_seen d \<le> ct_last_seen x)
     | _ \<Rightarrow> True)"
  by (rule bucket_lru) (simp_all add: bucket_wf_def sample_contact_def contact_new_def)

section \<open>Reassembly and the receive loop\<close>

text \<open>C35. The reassembler keeps its limits under any traffic: never more than 256 unfinished messages,
  never more than 16 of one address, no message twice, and none with parts outside its announced
  number.\<close>

theorem reassembly_limits:
  "let a = fold (asm_step crc) evs (assembler_new timeout) in asm_inv a \<and>
     length (ca_pending a) \<le> MAX_PENDING_ASSEMBLIES \<and>
     (\<forall>ip. per_ip_count ip (ca_pending a) \<le> MAX_PENDING_PER_IP)"
proof -
  have "asm_inv (fold (asm_step crc) evs (assembler_new timeout))"
    by (rule asm_sys.run_inv) (simp_all add: list_all_iff)
  then show ?thesis by (simp add: asm_inv_def Let_def)
qed

text \<open>A message whose chunks arrive among those of other messages is completed by its last missing
  chunk, with the bytes that were split, however often its chunks are repeated before; no chunk completes
  it earlier and it leaves nothing pending.\<close>

theorem reassembly_mixed:
  assumes "asm_inv a" "2 \<le> length (slices 500 dat)" "length (slices 500 dat) \<le> 256" "dat \<noteq> []"
    and "map_of (ca_pending (cleanup_expired t0 a)) (src, mid) = None" "has_room src (cleanup_expired t0 a)"
    and "i < length (slices 500 dat)" "j < length (slices 500 dat)" "t1 - t0 < ca_timeout a"
    and "mixed_traffic crc (src, mid) (slices 500 dat) t0 (ca_timeout a) evs"
    and "j \<notin> insert i (carried crc (src, mid) (slices 500 dat) evs)"
    and "insert j (insert i (carried crc (src, mid) (slices 500 dat) evs)) = {..<length (slices 500 dat)}"
  shows "\<exists>rs a'. deliver crc ((t0, src, split_data crc mid dat ! i) # evs @ [(t1, src, split_data crc mid dat ! j)]) a
      = Done (None # rs @ [Some dat], a') \<and>
    length rs = length evs \<and> map_of (ca_pending a') (src, mid) = None \<and>
    (\<forall>k < length evs. (\<exists>n. own_event crc (src, mid) (slices 500 dat) n (evs ! k)) \<longrightarrow> rs ! k = None)"
  using deliver_message [OF assms(1-3) split_data_own [OF assms(4,7)] assms(5,6,10) split_data_own [OF assms(4,8)]
      assms(9,11,12)] concat_slices [of 500 dat] by simp

theorem reassembly_mixed_witness:
  "\<exists>rs a'. deliver (\<lambda>_. 0) ((0, sample_addr 1, split_data (\<lambda>_. 0) (replicate 16 9) (replicate 600 65) ! 1) # [] @
        [(3, sample_addr 1, split_data (\<lambda>_. 0) (replicate 16 9) (replicate 600 65) ! 0)]) (assembler_new 10)
      = Done (None # rs @ [Some (replicate 600 65)], a') \<and>
    length rs = length ([] :: chunk_event list) \<and> map_of (ca_pending a') (sample_addr 1, replicate 16 9) = None \<and>
    (\<forall>k < length ([] :: chunk_event list). (\<exists>n. own_event (\<lambda>_. 0) (sample_addr 1, replicate 16 9)
        (slices 500 (replicate 600 65)) n (([] :: chunk_event list) ! k)) \<longrightarrow> rs ! k = None)"
proof -
  have two: "length (slices 500 (replicate 600 (65 :: u8))) = 2" by (simp add: length_slices)
  show ?thesis
    by (rule reassembly_mixed) (auto simp: two mixed_traffic_def carried_def)
qed

text \<open>One turn of the receive loop never panics, whatever the datagram, and keeps the limits of the
  reassembler, the routing table and the number of running handlers.\<close>

theorem receive_turn_safe:
  assumes "net_inv s"
  shows "case rx_turn crc now buf src s of Panic \<Rightarrow> False | Done (evs, s') \<Rightarrow> net_inv s'"
  using rx_turn_total [of crc now buf src s] rx_turn_inv [OF assms, of crc now buf src] by auto

theorem receive_turn_safe_witness:
  "case rx_turn (\<lambda>_. 0) 5 [1, 2, 3] (sample_addr 2)
      \<lparr>ns_assembler = assembler_new 10, ns_pending = (\<lambda>_. None), ns_table = sample_table, ns_metrics = metrics_new, ns_slots = 256\<rparr>
    of Panic \<Rightarrow> False | Done (evs, s') \<Rightarrow> net_inv s'"
  by (rule receive_turn_safe) (simp add: net_inv_def)

text \<open>C36. A response reaches a caller only if its request is pending and the datagram came from the
  address the request was sent to; a response from any other address is not delivered, but it ends the
  call it names, and no message changes the pending calls but a response. A request is handed to the handler exactly
  once when one of the 256 slots is free, and refused exactly once when none is; the ping that a full bucket causes takes its
  slot first. A response is never handed to the handler, and every task that a message starts takes one slot.\<close>

theorem response_delivery:
  "case rx_message now m src s of (evs, s') \<Rightarrow>
    (\<forall>i p. ResponseDelivered i p \<in> set evs \<longleftrightarrow> is_response (rm_payload m) \<and> i = rm_request_id m \<and> p = m \<and>
       ns_pending s i = Some src) \<and>
    (\<forall>i. CallDropped i \<in> set evs \<longleftrightarrow> is_response (rm_payload m) \<and> i = rm_request_id m \<and>
       (\<exists>a. ns_pending s i = Some a \<and> a \<noteq> src)) \<and>
    ns_pending s' = (if is_response (rm_payload m) then (ns_pending s)(rm_request_id m := None) else ns_pending s) \<and>
    filter for_handler evs = (if is_response (rm_payload m) then []
      else if length (filter is_ping evs) < ns_slots s then [RequestDispatched m src] else [RequestRefused m src]) \<and>
    filter is_ping evs = (case fst (rt_update (contact_new now (rm_sender_id m) src) (ns_table s)) of
      Full oldest \<Rightarrow> if 0 < ns_slots s then [PingOldest oldest (contact_new now (rm_sender_id m) src)] else [] | _ \<Rightarrow> []) \<and>
    ns_slots s' + length (filter starts_task evs) = ns_slots s"
proof -
  obtain evs s' where r: "rx_message now m src s = (evs, s')" by force
  show ?thesis unfolding r prod.case using rx_message_facts [OF r] rx_message_requests [OF r] by blast
qed

text \<open>A call sends its request at least once and at most once more than the number of retries, leaves
  no entry in the pending map, counts a failure exactly when it returns an error, and returns a message only
  when one of its waits was answered with it.\<close>

theorem rpc_call_bounded:
  "case rpc_call send wait req target retries s of (res, s') \<Rightarrow>
    cs_pending s' req = None \<and> cs_sent s < cs_sent s' \<and> cs_sent s' \<le> cs_sent s + Suc retries \<and>
    (case res of Inl e \<Rightarrow> cs_metrics s' = inc_rpc_failed (cs_metrics s)
      | Inr m \<Rightarrow> cs_metrics s' = cs_metrics s \<and> (\<exists>k \<le> retries. send k = None \<and> wait k = Replied m))"
proof -
  obtain res s' where r: "rpc_call send wait req target retries s = (res, s')" by force
  have "[0..<Suc retries] \<noteq> []" by simp
  note f = call_attempts_facts [OF r [unfolded rpc_call_def] this]
  have "\<exists>k \<le> retries. send k = None \<and> wait k = Replied m" if "res = Inr m" for m
    using f that by (metis atLeast0LessThan lessThan_iff less_Suc_eq_le set_upt)
  then show ?thesis using f r by (auto split: sum.split)
qed

section \<open>The record store\<close>

text \<open>C37. After any sequence of operations the store has at most 50000 records and 64 MiB, no key
  twice, and its byte counter is the sum of the lengths of its values.\<close>

theorem storage_limits:
  "let s = fold storage_step ops storage_new in
     keys_distinct (sto_data s) \<and> sto_bytes s = values_len (sto_data s) \<and>
     sto_bytes s \<le> MAX_STORAGE_BYTES \<and> length (sto_data s) \<le> MAX_STORAGE_RECORDS"
proof -
  have "storage_inv (fold storage_step ops storage_new)"
    by (rule storage_sys.run_inv) (simp_all add: list_all_iff)
  then show ?thesis by (simp add: storage_inv_def Let_def)
qed

text \<open>A value that fits the store can be read after it is put; another key keeps its value or has
  been evicted, and is not evicted when there is room; a value of more than 64 MiB changes nothing.\<close>

theorem storage_put_get:
  assumes "storage_inv s"
  shows "(if length v \<le> MAX_STORAGE_BYTES then storage_get now k (storage_put now k v ttl s) = Some v
      else storage_put now k v ttl s = s) \<and>
    (\<forall>k'. k' \<noteq> k \<longrightarrow> storage_get t k' (storage_put now k v ttl s) \<in> {storage_get t k' s, None} \<and>
      (sto_bytes s + length v \<le> MAX_STORAGE_BYTES \<and> length (sto_data s) < MAX_STORAGE_RECORDS \<longrightarrow>
        storage_get t k' (storage_put now k v ttl s) = storage_get t k' s))"
  using get_put_same [of v now k ttl s] get_put_other [OF assms] put_with_room [OF assms]
  by (auto simp: storage_put_def [of _ _ _ _ s])

theorem storage_put_get_witness:
  "storage_get 5 (sample_id 1) (storage_put 5 (sample_id 1) [1, 2] 100 storage_new) = Some [1, 2] \<and>
    storage_get 6 (sample_id 2) (storage_put 5 (sample_id 1) [1, 2] 100 storage_new) = None"
proof -
  have "storage_get 6 k storage_new = None" for k by (simp add: storage_get_def storage_new_def)
  then show ?thesis
    using storage_put_get [OF storage_inv_new, of "[1, 2]" 5 "sample_id 1" 100 6] by simp
qed

text \<open>Eviction makes the room that is asked for, whatever fits the store at all, takes the oldest
  records first and takes nothing when there is room already.\<close>

theorem eviction_makes_room:
  assumes "storage_inv s" "n \<le> MAX_STORAGE_BYTES"
  shows "sto_bytes (evict n s) + n \<le> MAX_STORAGE_BYTES \<and> length (sto_data (evict n s)) < MAX_STORAGE_RECORDS \<and>
    set (sto_data (evict n s)) \<subseteq> set (sto_data s) \<and>
    (\<forall>e \<in> set (sto_data s) - set (sto_data (evict n s)). \<forall>x \<in> set (sto_data (evict n s)).
       dr_created_at (snd e) \<le> dr_created_at (snd x)) \<and>
    (sto_bytes s + n \<le> MAX_STORAGE_BYTES \<and> length (sto_data s) < MAX_STORAGE_RECORDS \<longrightarrow> evict n s = s)"
  using evict_room [OF assms] evict_subset [of n s] evict_oldest_first [OF assms(1)] evict_nothing [OF assms(1)] by blast

theorem eviction_makes_room_witness:
  "sto_bytes (evict 8 storage_new) + 8 \<le> MAX_STORAGE_BYTES \<and>
    length (sto_data (evict 8 storage_new)) < MAX_STORAGE_RECORDS \<and> evict 8 storage_new = storage_new"
  using eviction_makes_room [OF storage_inv_new, of 8] by (simp add: storage_new_def)

text \<open>The maintenance task loses no live record, sends only live records, each to the nodes found for
  its key, and sends the same key at most once in an hour.\<close>

theorem maintenance_once:
  assumes "storage_inv s" "maintenance_tick now nodes s = (sent, s')" "now' < now + REPUBLISH_INTERVAL"
    "(c, Store k v) \<in> set sent"
  shows "storage_inv s' \<and> (\<forall>i. storage_get now i s' = storage_get now i s) \<and>
    c \<in> set (nodes k) \<and> storage_get now k s = Some v \<and>
    (\<forall>w. (k, w) \<notin> set (fst (keys_to_republish now' s')))"
proof -
  note f = maintenance_tick_facts [OF assms(1,2)]
  have d: "(k, v) \<in> set (fst (keys_to_republish now (snd (storage_cleanup_stale now s))))"
    "s' = snd (keys_to_republish now (snd (storage_cleanup_stale now s)))"
    using assms(2,4) by (auto simp: maintenance_tick_def Let_def split: prod.splits)
  have "keys_distinct (sto_data (snd (storage_cleanup_stale now s)))"
    using storage_cleanup_inv [OF assms(1), of now] by (simp add: storage_inv_def)
  from republish_once [OF assms(3) d(1) this] f assms(4) d(2) show ?thesis by fast
qed

theorem maintenance_once_witness:
  "\<exists>s'. maintenance_tick (secs 4000) (\<lambda>_. [sample_contact 2]) (storage_put 0 (sample_id 1) [7] DEFAULT_TTL storage_new)
      = ([(sample_contact 2, Store (sample_id 1) [7])], s') \<and>
    storage_inv s' \<and> (\<forall>i. storage_get (secs 4000) i s' =
      storage_get (secs 4000) i (storage_put 0 (sample_id 1) [7] DEFAULT_TTL storage_new)) \<and>
    sample_contact 2 \<in> set [sample_contact 2] \<and>
    storage_get (secs 4000) (sample_id 1) (storage_put 0 (sample_id 1) [7] DEFAULT_TTL storage_new) = Some [7] \<and>
    (\<forall>w. (sample_id 1, w) \<notin> set (fst (keys_to_republish (secs 4001) s')))"
proof -
  let ?s = "storage_put 0 (sample_id 1) [7] DEFAULT_TTL storage_new"
  have i: "storage_inv ?s" by (rule storage_put_inv) simp
  have "evict (Suc 0) storage_new = storage_new"
    by (rule evict_nothing [OF storage_inv_new]) (simp_all add: storage_new_def)
  note e = this [unfolded storage_new_def]
  obtain s' where t: "maintenance_tick (secs 4000) (\<lambda>_. [sample_contact 2]) ?s
      = ([(sample_contact 2, Store (sample_id 1) [7])], s')"
    by (simp add: maintenance_tick_def storage_cleanup_stale_def keys_to_republish_def storage_put_def drop_record_def
        e storage_new_def record_new_def record_is_expired_def due_def Let_def)
  show ?thesis using maintenance_once [OF i t, of "secs 4001" "sample_contact 2" "sample_id 1" "[7]"] t by simp
qed

section \<open>Lookups\<close>

text \<open>The sample network: every node answers with the contact 3; the JSON sample has values of one
  byte.\<close>

definition sample_env :: "nat \<Rightarrow> contact list \<Rightarrow> call_result list" where
  "sample_env h q = map (\<lambda>c. (c, Inr (FindNodeResp [sample_contact 3]))) q"

definition sample_json :: "u8 json_api" where
  "sample_json = \<lparr>js_parse = (\<lambda>b. if 2 \<le> length b \<and> hd b = 91 \<and> last b = 93 then Some (butlast (tl b)) else None),
     js_one = (\<lambda>e. Some [e]), js_many = (\<lambda>es. Some (91 # es @ [93]))\<rparr>"

definition sample_node :: node_state where
  "sample_node = \<lparr>nd_table = sample_table, nd_storage = storage_new\<rparr>"

lemma sample_table_ids: "rt_ids sample_table = {sample_id 2}"
proof -
  have "fst (rt_update (sample_contact 2) (rt_new (sample_id 1))) = Inserted" by code_simp
  from rt_upd_ids(1) [OF rt_inv_new this] show ?thesis
    by (simp add: sample_table_def rt_ids_def rt_new_def all_contacts_def sample_contact_def contact_new_def)
qed

lemma sample_env_within: "reply_ids_within {sample_id 2, sample_id 3} sample_env"
  by (auto simp: reply_ids_within_def sample_env_def payload_contacts_def sample_contact_def contact_new_def)

lemma sample_json_ok [simp]: "json_ok sample_json"
  by (auto simp: json_ok_def sample_json_def to_vec_or_default_def)

lemma sample_json_sevens: "js_parse sample_json (replicate n 7) = None"
  by (cases n) (simp_all add: sample_json_def)

lemma sample_node_inv [simp]: "node_inv sample_node"
  by (simp add: node_inv_def sample_node_def)

text \<open>C38. When the answers name finitely many identifiers, an iterative node lookup ends: it makes no
  more hops than there are identifiers, and gives at most 20 distinct contacts in the order of their
  distance from the target, never the own node, and a well-formed routing table.\<close>

theorem lookup_nodes_correct:
  assumes "rt_inv rt" "finite U" "rt_ids rt \<subseteq> U" "reply_ids_within U env" "card U < fuel"
  shows "\<exists>cs rt' h. lookup_nodes fuel env net target rt = Some (cs, rt', h) \<and>
    (\<forall>n. lookup_nodes (fuel + n) env net target rt = Some (cs, rt', h)) \<and> rt_inv rt' \<and>
    length cs \<le> K \<and> distinct (map ct_id cs) \<and> sorted (map (\<lambda>c. distance (ct_id c) target) cs) \<and>
    (\<forall>c \<in> set cs. ct_id c \<noteq> ln_local_id net \<and> ct_addr c \<noteq> ln_local_addr net)"
proof -
  obtain cs rt' h where l: "lookup_nodes fuel env net target rt = Some (cs, rt', h)"
    using lookup_nodes_terminates [OF assms, of net target] by (metis prod_cases3)
  have "\<forall>n. lookup_nodes (fuel + n) env net target rt = Some (cs, rt', h)"
    using l nodes.loop_mono by (auto simp: lookup_nodes_def split: option.splits)
  with lookup_nodes_result [OF assms(1) l] l show ?thesis unfolding peer_contact_def by blast
qed

theorem lookup_nodes_correct_witness:
  "\<exists>cs rt' h. lookup_nodes 3 sample_env \<lparr>ln_local_id = sample_id 1, ln_local_addr = sample_addr 1\<rparr> (sample_id 9) sample_table
      = Some (cs, rt', h) \<and>
    (\<forall>n. lookup_nodes (3 + n) sample_env \<lparr>ln_local_id = sample_id 1, ln_local_addr = sample_addr 1\<rparr> (sample_id 9)
      sample_table = Some (cs, rt', h)) \<and> rt_inv rt' \<and>
    length cs \<le> K \<and> distinct (map ct_id cs) \<and> sorted (map (\<lambda>c. distance (ct_id c) (sample_id 9)) cs) \<and>
    (\<forall>c \<in> set cs. ct_id c \<noteq> ln_local_id \<lparr>ln_local_id = sample_id 1, ln_local_addr = sample_addr 1\<rparr> \<and>
      ct_addr c \<noteq> ln_local_addr \<lparr>ln_local_id = sample_id 1, ln_local_addr = sample_addr 1\<rparr>)"
  by (rule lookup_nodes_correct [OF _ _ _ sample_env_within]) (simp_all add: sample_table_ids)

text \<open>A value lookup ends under the same condition; a value it gives is one that a queried node
  answered with, and without a value it gives at most 20 distinct contacts by distance.\<close>

theorem lookup_value_correct:
  assumes "rt_inv rt" "finite U" "rt_ids rt \<subseteq> U" "reply_ids_within U env" "card U < fuel"
  shows "\<exists>r rt'. lookup_value fuel env net key rt = Some (r, rt') \<and> rt_inv rt' \<and> (case r of
      Found v c \<Rightarrow> \<exists>h q cs. (c, Inr (FindValueResp (Some v) cs)) \<in> set (env h q)
    | ClosestNodes cs \<Rightarrow> length cs \<le> K \<and> distinct (map ct_id cs) \<and>
        sorted (map (\<lambda>c. distance (ct_id c) key) cs) \<and> (\<forall>c \<in> set cs. ct_id c \<noteq> ln_local_id net))"
proof -
  obtain r rt' where l: "lookup_value fuel env net key rt = Some (r, rt')"
    using lookup_value_terminates [OF assms, of net key] by (metis surj_pair)
  from lookup_value_result [OF assms(1) l] lookup_value_inv [OF assms(1) l] l show ?thesis
    by (cases r) (auto simp: not_self_def)
qed

theorem lookup_value_correct_witness:
  "\<exists>r rt'. lookup_value 3 sample_env \<lparr>ln_local_id = sample_id 1, ln_local_addr = sample_addr 1\<rparr> (sample_id 9) sample_table
      = Some (r, rt') \<and> rt_inv rt' \<and> (case r of
      Found v c \<Rightarrow> \<exists>h q cs. (c, Inr (FindValueResp (Some v) cs)) \<in> set (sample_env h q)
    | ClosestNodes cs \<Rightarrow> length cs \<le> K \<and> distinct (map ct_id cs) \<and>
        sorted (map (\<lambda>c. distance (ct_id c) (sample_id 9)) cs) \<and>
        (\<forall>c \<in> set cs. ct_id c \<noteq> ln_local_id \<lparr>ln_local_id = sample_id 1, ln_local_addr = sample_addr 1\<rparr>))"
  by (rule lookup_value_correct [OF _ _ _ sample_env_within]) (simp_all add: sample_table_ids)

section \<open>The node\<close>

text \<open>What a merge gives for a mailbox array has at most 48 KiB and at most 50 envelopes, all of them
  old or new ones; it refuses exactly when a new envelope is too large by itself, and keeps every envelope
  when they all fit.\<close>

theorem mailbox_merge_bounded:
  assumes "json_ok js" "js_parse js incoming = Some new"
    "(case existing of Some b \<Rightarrow> opt_or (js_parse js b) [] | None \<Rightarrow> []) = old"
  shows "case merge_store_value js existing incoming of (out, ok, pruned) \<Rightarrow>
    length out \<le> MAX_MAILBOX_VALUE_BYTES \<and> (ok \<longleftrightarrow> (\<forall>e \<in> set new. \<not> too_large js e)) \<and>
    (\<exists>envs. js_parse js out = Some envs \<and> length envs \<le> MAX_MAILBOX_ENVELOPES \<and> set envs \<subseteq> set old \<union> set new \<and>
      (let all = fst (merge_envelopes js new (old, False)) in
       length all \<le> MAX_MAILBOX_ENVELOPES \<and> length (to_vec_or_default js all) \<le> MAX_MAILBOX_VALUE_BYTES \<longrightarrow>
       set old \<union> {e \<in> set new. \<not> too_large js e} \<subseteq> set envs))"
proof -
  obtain out ok pruned where r: "merge_store_value js existing incoming = (out, ok, pruned)" by (metis prod_cases3)
  obtain envs1 n where m: "merge_envelopes js new (old, False) = (envs1, \<not> ok)" "js_parse js out = Some (drop n envs1)"
    "length (drop n envs1) \<le> MAX_MAILBOX_ENVELOPES" "length out \<le> MAX_MAILBOX_VALUE_BYTES"
    "length envs1 \<le> MAX_MAILBOX_ENVELOPES \<and> length (to_vec_or_default js envs1) \<le> MAX_MAILBOX_VALUE_BYTES
       \<longrightarrow> drop n envs1 = envs1"
    using merge_mailbox [OF assms r] by blast
  note f = merge_envelopes_facts [OF m(1)]
  obtain app where app: "envs1 = old @ app" "set app \<subseteq> set new" using f by (elim conjE exE)
  have rej: "ok \<longleftrightarrow> (\<forall>e \<in> set new. \<not> too_large js e)" "\<forall>e \<in> set new. \<not> too_large js e \<longrightarrow> e \<in> set envs1"
    using f by (simp_all, metis)
  have "set (drop n envs1) \<subseteq> set old \<union> set new" using app set_drop_subset [of n envs1] by fastforce
  moreover have "length envs1 \<le> MAX_MAILBOX_ENVELOPES \<and> length (to_vec_or_default js envs1) \<le> MAX_MAILBOX_VALUE_BYTES
      \<longrightarrow> set old \<union> {e \<in> set new. \<not> too_large js e} \<subseteq> set (drop n envs1)" (is "?fits \<longrightarrow> _")
  proof
    assume ?fits
    with m(5) have "drop n envs1 = envs1" by (rule mp)
    then show "set old \<union> {e \<in> set new. \<not> too_large js e} \<subseteq> set (drop n envs1)" using app(1) rej(2) by auto
  qed
  ultimately show ?thesis unfolding r m(1) Let_def prod.case fst_conv rej(1) using m(2-5)
    by (intro conjI refl exI [of _ "drop n envs1"]) (simp_all only: simp_thms)
qed

theorem mailbox_merge_bounded_witness:
  "case merge_store_value sample_json (Some [91, 1, 93]) [91, 2, 93] of (out, ok, pruned) \<Rightarrow>
    length out \<le> MAX_MAILBOX_VALUE_BYTES \<and> (ok \<longleftrightarrow> (\<forall>e \<in> set [2]. \<not> too_large sample_json e)) \<and>
    (\<exists>envs. js_parse sample_json out = Some envs \<and> length envs \<le> MAX_MAILBOX_ENVELOPES \<and> set envs \<subseteq> set [1] \<union> set [2] \<and>
      (let all = fst (merge_envelopes sample_json [2] ([1], False)) in
       length all \<le> MAX_MAILBOX_ENVELOPES \<and> length (to_vec_or_default sample_json all) \<le> MAX_MAILBOX_VALUE_BYTES \<longrightarrow>
       set [1] \<union> {e \<in> set [2]. \<not> too_large sample_json e} \<subseteq> set envs))"
  by (rule mailbox_merge_bounded) (simp_all, simp_all add: sample_json_def opt_or_def)

text \<open>Storing the same mailbox array again changes nothing, as long as none of its envelopes has been
  pruned: replication may repeat a store.\<close>

theorem mailbox_merge_idempotent:
  assumes "json_ok js" "js_parse js incoming = Some new" "merge_store_value js existing incoming = (out, True, pruned)"
    "js_parse js out = Some envs" "set new \<subseteq> set envs"
  shows "merge_store_value js (Some out) incoming = (out, True, 0)"
  by (rule merge_again [OF assms])

theorem mailbox_merge_idempotent_witness:
  "merge_store_value sample_json (Some [91, 1, 2, 93]) [91, 2, 93] = ([91, 1, 2, 93], True, 0)"
proof -
  have m: "merge_store_value sample_json (Some [91, 1, 93]) [91, 2, 93] = ([91, 1, 2, 93], True, 0)"
    by (simp add: merge_store_value_def sample_json_def opt_or_def to_vec_or_default_def too_large_def drop_excess_def)
  show ?thesis
    by (rule mailbox_merge_idempotent [OF sample_json_ok _ m, of "[2]" "[1, 2]"]) (simp_all add: sample_json_def)
qed

text \<open>C39. Whatever messages a node that stores nothing itself receives, in whatever order, its store keeps
  its limits and holds no value longer than 65536 bytes; it answers every request and no response, each
  answer repeats the identifier of the request and is a response that fits a message with at most 20
  contacts. The library of the bootstrap server answers every message in the same way and stores the same.\<close>

theorem handler_safe:
  assumes "json_ok js"
  shows "let s = fold (handler_step js i) evs storage_new in
    storage_inv s \<and> values_small s \<and>
    (fst (handle_request js now i m rt s) = None \<longleftrightarrow> is_response (rm_payload m)) \<and>
    (\<forall>a. fst (handle_request js now i m rt s) = Some a \<longrightarrow> rm_request_id a = rm_request_id m \<and> rm_sender_id a = i \<and>
       is_response (rm_payload a) \<and> value_fits (rm_payload a) \<and> length (payload_contacts (rm_payload a)) \<le> K) \<and>
    seed_handle_request js now i m rt s = handle_request js now i m rt s"
proof -
  have "writes_all js" using assms by (auto simp: json_ok_def writes_all_def)
  note same = handlers_agree [OF this]
  have ok: "store_ok (fold (handler_step js i) evs storage_new)"
    by (rule handler.run_inv) (simp_all add: assms store_ok_new list_all_iff)
  show ?thesis unfolding Let_def
    using ok handle_request_answers [of js now i m rt] handle_request_fits [OF assms ok, of now i m rt]
    by (auto simp: store_ok_def same)
qed

theorem handler_safe_witness:
  "let s = fold (handler_step sample_json (sample_id 1))
      [(0, sample_message (Store (sample_id 3) [91, 5, 93]), sample_table)] storage_new in
    storage_inv s \<and> values_small s \<and>
    (fst (handle_request sample_json 1 (sample_id 1) (sample_message (FindValue (sample_id 3))) sample_table s) = None
      \<longleftrightarrow> is_response (rm_payload (sample_message (FindValue (sample_id 3))))) \<and>
    (\<forall>a. fst (handle_request sample_json 1 (sample_id 1) (sample_message (FindValue (sample_id 3))) sample_table s) = Some a
      \<longrightarrow> rm_request_id a = rm_request_id (sample_message (FindValue (sample_id 3))) \<and> rm_sender_id a = sample_id 1 \<and>
       is_response (rm_payload a) \<and> value_fits (rm_payload a) \<and> length (payload_contacts (rm_payload a)) \<le> K) \<and>
    seed_handle_request sample_json 1 (sample_id 1) (sample_message (FindValue (sample_id 3))) sample_table s =
      handle_request sample_json 1 (sample_id 1) (sample_message (FindValue (sample_id 3))) sample_table s"
  by (rule handler_safe) simp

text \<open>A store request is answered with whether the value was taken; when it was, the merged value can
  be read afterwards, and when it was refused the store is as before.\<close>

theorem store_request_honest:
  assumes "json_ok js" "rm_payload m = Store key val"
  shows "case merge_store_value js (storage_get now key s) val of (out, ok, _) \<Rightarrow>
    fst (handle_request js now i m rt s) =
      Some \<lparr>rm_request_id = rm_request_id m, rm_sender_id = i, rm_payload = StoreAck ok\<rparr> \<and>
    (if ok then storage_get now key (snd (handle_request js now i m rt s)) = Some out
     else snd (handle_request js now i m rt s) = s)"
  using handle_store [OF assms] by (auto split: prod.split)

theorem store_request_honest_witness:
  "case merge_store_value sample_json (storage_get 0 (sample_id 3) storage_new) [91, 5, 93] of (out, ok, _) \<Rightarrow>
    fst (handle_request sample_json 0 (sample_id 1) (sample_message (Store (sample_id 3) [91, 5, 93])) sample_table storage_new) =
      Some \<lparr>rm_request_id = rm_request_id (sample_message (Store (sample_id 3) [91, 5, 93])), rm_sender_id = sample_id 1,
        rm_payload = StoreAck ok\<rparr> \<and>
    (if ok then storage_get 0 (sample_id 3) (snd (handle_request sample_json 0 (sample_id 1)
          (sample_message (Store (sample_id 3) [91, 5, 93])) sample_table storage_new)) = Some out
     else snd (handle_request sample_json 0 (sample_id 1)
          (sample_message (Store (sample_id 3) [91, 5, 93])) sample_table storage_new) = storage_new)"
  by (rule store_request_honest) (simp_all, simp add: sample_message_def)

text \<open>A value that \<open>put\<close> kept locally but that is too long for a message and is no JSON array is
  erased by the first request of another node for it: the answer and the store then have an empty value.\<close>

theorem long_value_erased:
  assumes "rm_payload m = FindValue key" "storage_get now key s = Some v" "js_parse js v = None"
    "MAX_VALUE_SIZE < length v"
  shows "\<exists>a. fst (handle_request js now i m rt s) = Some a \<and> rm_payload a = FindValueResp (Some []) [] \<and>
    storage_get now key (snd (handle_request js now i m rt s)) = Some []"
  using find_value_erases [OF assms, of i rt] by simp

theorem long_value_erased_witness:
  "\<exists>a. fst (handle_request sample_json 0 (sample_id 1) (sample_message (FindValue (sample_id 3))) sample_table
      (storage_put 0 (sample_id 3) (replicate 65537 7) DEFAULT_TTL storage_new)) = Some a \<and>
    rm_payload a = FindValueResp (Some []) [] \<and>
    storage_get 0 (sample_id 3) (snd (handle_request sample_json 0 (sample_id 1) (sample_message (FindValue (sample_id 3)))
      sample_table (storage_put 0 (sample_id 3) (replicate 65537 7) DEFAULT_TTL storage_new))) = Some []"
proof (rule long_value_erased)
  show "rm_payload (sample_message (FindValue (sample_id 3))) = FindValue (sample_id 3)" by (simp add: sample_message_def)
  show "storage_get 0 (sample_id 3) (storage_put 0 (sample_id 3) (replicate 65537 7) DEFAULT_TTL storage_new)
      = Some (replicate 65537 7)" by (rule get_put_same) (simp only: length_replicate)
  show "js_parse sample_json (replicate 65537 7) = None" by (rule sample_json_sevens)
  show "MAX_VALUE_SIZE < length (replicate 65537 (7 :: u8))" by (simp only: length_replicate)
qed

text \<open>C40. \<open>put\<close> ends, keeps the tables well formed, and reports the own copy and one for every node among the closest ones that
  acknowledged the store, which is at most 21. A value of at most 64 MiB is kept, and until its lifetime is over \<open>get\<close> reads it
  without the network. A longer value is not kept and leaves the store as it was, but the own copy is reported all the same.\<close>

theorem node_put_correct:
  assumes "node_inv s" "finite U" "rt_ids (nd_table s) \<subseteq> U" "reply_ids_within U env" "card U < fuel"
  shows "\<exists>n s'. node_put sha1 fuel env call ttl i a now k v s = Some (n, s') \<and> node_inv s' \<and> 1 \<le> n \<and> n \<le> 1 + K \<and>
    (\<exists>cs rt h. lookup_nodes fuel env (node_net i a) (from_key sha1 k) (nd_table s) = Some (cs, rt, h) \<and>
      n = 1 + length (filter (\<lambda>c. ct_addr c \<noteq> a \<and> ct_id c \<noteq> i \<and> call c = Some (StoreAck True)) cs)) \<and>
    (length v \<le> MAX_STORAGE_BYTES \<longrightarrow> (\<forall>t fuel' env' ttl'. t - now \<le> secs ttl \<longrightarrow>
      node_get sha1 fuel' env' ttl' i a t k s' = Some (Some (v, a), s'))) \<and>
    (MAX_STORAGE_BYTES < length v \<longrightarrow> nd_storage s' = nd_storage s)"
proof -
  obtain n s' where p: "node_put sha1 fuel env call ttl i a now k v s = Some (n, s')"
    using node_put_terminates [OF assms] by (metis surj_pair)
  note f = node_put_facts [OF assms(1) p] and g = node_get_after_put [OF assms(1) p]
  have "1 \<le> n" using f by auto
  then show ?thesis using p f g by blast
qed

theorem node_put_correct_witness:
  "\<exists>n s'. node_put (\<lambda>b. replicate 20 7) 3 sample_env (\<lambda>_. Some (StoreAck True)) 60 (sample_id 1) (sample_addr 1) 0 [1] [2] sample_node
      = Some (n, s') \<and> node_inv s' \<and> 1 \<le> n \<and> n \<le> 1 + K \<and>
    (\<exists>cs rt h. lookup_nodes 3 sample_env (node_net (sample_id 1) (sample_addr 1)) (from_key (\<lambda>b. replicate 20 7) [1]) (nd_table sample_node) = Some (cs, rt, h) \<and>
      n = 1 + length (filter (\<lambda>c. ct_addr c \<noteq> (sample_addr 1) \<and> ct_id c \<noteq> (sample_id 1) \<and> Some (StoreAck True) = Some (StoreAck True)) cs)) \<and>
    (length [2 :: u8] \<le> MAX_STORAGE_BYTES \<longrightarrow> (\<forall>t fuel' env' ttl'. t - 0 \<le> secs 60 \<longrightarrow>
      node_get (\<lambda>b. replicate 20 7) fuel' env' ttl' (sample_id 1) (sample_addr 1) t [1] s' = Some (Some ([2], (sample_addr 1)), s'))) \<and>
    (MAX_STORAGE_BYTES < length [2 :: u8] \<longrightarrow> nd_storage s' = nd_storage sample_node)"
  by (rule node_put_correct [where call = "\<lambda>_. Some (StoreAck True)", OF _ _ _ sample_env_within]) (simp_all add: sample_node_def sample_table_ids, simp add: sample_node_def [symmetric])

text \<open>\<open>get\<close> makes no value up: what it gives is the live local record or the answer of a node that it
  queried, and when it gives nothing there was no live local record and the store is as before.\<close>

theorem node_get_provenance:
  assumes "node_inv s" "node_get sha1 fuel env ttl i a now k s = Some (r, s')"
  shows "node_inv s' \<and> (case r of
      None \<Rightarrow> storage_get now (from_key sha1 k) (nd_storage s) = None \<and> nd_storage s' = nd_storage s
    | Some (v, from) \<Rightarrow>
        (storage_get now (from_key sha1 k) (nd_storage s) = Some v \<and> from = a \<and> s' = s) \<or>
        (\<exists>c h q cs. from = ct_addr c \<and> (c, Inr (FindValueResp (Some v) cs)) \<in> set (env h q)))"
  by (rule node_get_facts [OF assms])

section \<open>Peers\<close>

text \<open>A peer that failed five times in a row is forgotten at the next cleanup, one that answered is
  known at the address it answered from until the timeout.\<close>

theorem peer_liveness:
  assumes "peers_inv m"
  shows "(\<forall>p. map_of (pm_peers m) i = Some p \<and> pi_failed p = 0 \<longrightarrow>
      get_peer_addr i (snd (peers_cleanup_stale now ((record_failure i ^^ 5) m))) = None) \<and>
    (t - now < pm_timeout m \<longrightarrow>
      get_peer_addr i (snd (peers_cleanup_stale t (record_success now i a l m))) = Some a)"
  using five_failures_dropped [OF assms] success_survives [OF assms] by blast

theorem peer_liveness_witness:
  "get_peer_addr (sample_id 2) (snd (peers_cleanup_stale 3 ((record_failure (sample_id 2) ^^ 5)
      (record_success 3 (sample_id 2) (sample_addr 2) None (peer_manager_new 300))))) = None \<and>
    get_peer_addr (sample_id 2) (snd (peers_cleanup_stale 9 (record_success 3 (sample_id 2) (sample_addr 2) None
      (record_success 3 (sample_id 2) (sample_addr 2) None (peer_manager_new 300))))) = Some (sample_addr 2)"
proof -
  let ?m = "record_success 3 (sample_id 2) (sample_addr 2) None (peer_manager_new 300)"
  have "peers_inv ?m" by (simp add: peers_inv_def peer_manager_new_def keys_distinct_def record_success_def)
  from peer_liveness [OF this, of "sample_id 2" 3 9 "sample_addr 2" None] show ?thesis
    by (simp add: peer_manager_new_def record_success_def)
qed

text \<open>Ranking keeps exactly one candidate for every address, one of the best type known for it, and
  puts the better types first.\<close>

theorem endpoint_ranking:
  "distinct (map ep_addr (rank_candidates cs)) \<and> ep_addr ` set (rank_candidates cs) = ep_addr ` set cs \<and>
   set (rank_candidates cs) \<subseteq> set cs \<and> sorted_wrt (\<lambda>a b. ep_type b \<le> ep_type a) (rank_candidates cs) \<and>
   (\<forall>c \<in> set (rank_candidates cs). \<forall>d \<in> set cs. ep_addr d = ep_addr c \<longrightarrow> ep_type d \<le> ep_type c)"
  using rank_candidates_facts [of cs] rank_candidates_best [of _ cs] by blast

theorem endpoint_ranking_witness:
  "let cs = [\<lparr>ep_addr = sample_addr 1, ep_type = EpLocal\<rparr>, \<lparr>ep_addr = sample_addr 1, ep_type = EpStun\<rparr>] in
   distinct (map ep_addr (rank_candidates cs)) \<and> ep_addr ` set (rank_candidates cs) = ep_addr ` set cs \<and>
   set (rank_candidates cs) \<subseteq> set cs \<and> sorted_wrt (\<lambda>a b. ep_type b \<le> ep_type a) (rank_candidates cs) \<and>
   (\<forall>c \<in> set (rank_candidates cs). \<forall>d \<in> set cs. ep_addr d = ep_addr c \<longrightarrow> ep_type d \<le> ep_type c)"
  unfolding Let_def by (rule endpoint_ranking)

section \<open>Starting, relaying, looking outside\<close>

text \<open>A bootstrap ends, reports the number of addresses that answered one of three calls, is an error
  exactly when there are addresses and none answered, keeps the table well formed and leaves the health
  that says so.\<close>

theorem bootstrap_outcome:
  assumes "rt_inv rt" "finite U" "rt_ids (fst (bootstrap_all now call addrs (rt, 0))) \<subseteq> U" "reply_ids_within U env"
    "card U < fuel"
  shows "let found = filter (reachable call) addrs in
    \<exists>rt' h'. run_bootstrap fuel env now call net addrs (rt, h) =
        Some (if addrs \<noteq> [] \<and> found = [] then None else Some (length found), rt', h') \<and> rt_inv rt' \<and>
      health_get h' = (if addrs \<noteq> [] \<and> found = [] then Degraded else Online)"
proof -
  obtain r rt' h' where b: "run_bootstrap fuel env now call net addrs (rt, h) = Some (r, rt', h')"
    using run_bootstrap_terminates [OF assms] by (metis prod_cases3)
  show ?thesis using b run_bootstrap_facts [OF assms(1) b] by (cases r) (auto simp: Let_def)
qed

theorem bootstrap_outcome_witness:
  "let found = filter (reachable (\<lambda>_ _. Inl CallTimedOut)) [sample_addr 3] in
    \<exists>rt' h'. run_bootstrap 3 sample_env (\<lambda>_. 0) (\<lambda>_ _. Inl CallTimedOut) \<lparr>ln_local_id = sample_id 1, ln_local_addr = sample_addr 1\<rparr>
        [sample_addr 3] (sample_table, 0) =
        Some (if [sample_addr 3] \<noteq> [] \<and> found = [] then None else Some (length found), rt', h') \<and> rt_inv rt' \<and>
      health_get h' = (if [sample_addr 3] \<noteq> [] \<and> found = [] then Degraded else Online)"
  by (rule bootstrap_outcome [OF sample_table_inv _ _ sample_env_within])
    (simp_all add: bootstrap_attempts_3 sample_table_ids)

text \<open>After any operations the relay has at most ten sessions and no more than configured; it accepts a
  packet only from the address that registered the session, when it is enabled and the packet is not too
  long, and the target of an accepted packet is always empty: nothing is forwarded.\<close>

theorem relay_sessions:
  "let s = fold relay_step ops (relay_new c) in
   length (rs_sessions s) \<le> min (rc_max_sessions (rs_config s)) MAX_RELAY_SESSIONS \<and> keys_distinct (rs_sessions s) \<and>
   (case fst (forward_packet now p src s) of Inl e \<Rightarrow> True
    | Inr target \<Rightarrow> target = None \<and> rc_enabled (rs_config s) \<and> length (rp_payload p) \<le> MAX_RELAY_PACKET_SIZE \<and>
        (\<exists>e. map_of (rs_sessions s) (rp_session_id p) = Some e \<and> as_sender_addr e = src))"
proof -
  have inv: "relay_inv (fold relay_step ops (relay_new c))"
    by (rule relay_sys.run_inv) (simp_all add: relay_inv_new list_all_iff)
  then show ?thesis using forward_accepts [OF inv, of now p src]
    by (auto simp: Let_def relay_inv_def split: sum.split)
qed

text \<open>Whatever the peers send, at most 20 packets of one peer are accepted within the second that
  follows its first packet.\<close>

theorem relay_rate:
  assumes "map_of (rs_raters s) src = None" "\<forall>e \<in> set evs. t0 \<le> fst e \<and> fst e < t0 + secs 1" "length evs < 2 ^ 31"
  shows "accepted_from src evs (fst (relay_run evs s)) \<le> 20"
  by (rule relay_rate_limit [OF assms])

theorem relay_rate_witness:
  "accepted_from (sample_addr 2) [(5, \<lparr>rp_session_id = [1], rp_sender = ''a'', rp_payload = [1]\<rparr>, sample_addr 2)]
    (fst (relay_run [(5, \<lparr>rp_session_id = [1], rp_sender = ''a'', rp_payload = [1]\<rparr>, sample_addr 2)]
      (relay_new \<lparr>rc_enabled = True, rc_max_sessions = 2, rc_daily_limit = 100\<rparr>))) \<le> 20"
  by (rule relay_rate [where ?t0.0 = 0]) (simp_all add: relay_new_def)

text \<open>No datagram makes the STUN client panic, and an endpoint that it reports was read from a datagram
  that came from the server asked and carries the cookie and the transaction identifier of the request.\<close>

theorem stun_safe:
  "case query_reflexive_endpoint tid rs of Panic \<Rightarrow> False | Done None \<Rightarrow> True
   | Done (Some a) \<Rightarrow> \<exists>addr buf. (addr, Some (buf, addr)) \<in> set rs \<and> parse_binding_response buf tid = Done (Some a) \<and>
       of_be (take 2 buf) = BINDING_RESPONSE \<and> of_be (take 4 (drop 4 buf)) = STUN_MAGIC_COOKIE \<and> take 12 (drop 8 buf) = tid"
proof -
  obtain r where r: "query_reflexive_endpoint tid rs = Done r" using query_total by blast
  show ?thesis
  proof (cases r)
    case (Some a)
    then obtain addr buf where "(addr, Some (buf, addr)) \<in> set rs" "parse_binding_response buf tid = Done (Some a)"
      using query_source [of tid rs a] r by auto
    then show ?thesis using r Some parse_binding_response_genuine [of buf tid a] by auto
  qed (use r in simp)
qed

text \<open>The address and port that a server puts into the XOR-MAPPED-ADDRESS attribute of its response are
  read back, whatever other attributes stand before and after it.\<close>

theorem stun_reads:
  assumes "length tid = 12" "list_all other_attr as"
    "attrs = concat (map (\<lambda>a. attr_bytes (fst a) (snd a)) as) @ attr_bytes ATTR_XOR_MAPPED_ADDRESS (xor_mapped_value ip port) @ rest"
    "length attrs < 65536"
  shows "parse_binding_response (binding_response tid attrs) tid = Done (Some (SockV4 ip port))"
  by (rule parse_binding_response_reads [OF assms])

theorem stun_reads_witness:
  "parse_binding_response (binding_response (replicate 12 7)
      (attr_bytes 0x8022 [1, 2, 3] @ attr_bytes ATTR_XOR_MAPPED_ADDRESS (xor_mapped_value 0x0A000001 4000) @ [0, 0])) (replicate 12 7)
    = Done (Some (SockV4 0x0A000001 4000))"
  by (rule stun_reads [where as = "[(0x8022, [1, 2, 3])]" and rest = "[0, 0]"])
    (simp_all add: other_attr_def attr_bytes_def ATTR_MAPPED_ADDRESS_def ATTR_XOR_MAPPED_ADDRESS_def)

text \<open>The endpoints that hole punching reports as verified are exactly the candidates from which the
  acknowledgement of the fresh nonce came, each once; a node answers a probe with that acknowledgement and
  never answers an acknowledgement.\<close>

theorem hole_punch_verified:
  assumes "length nonce = 16"
  shows "set (snd (punch_candidates_verified nonce cs rs)) = {a. a \<in> set cs \<and> (HP_ACK @ nonce, a) \<in> set rs} \<and>
    distinct (snd (punch_candidates_verified nonce cs rs)) \<and>
    respond_to_probe (hp_probe nonce) = Some (HP_ACK @ nonce) \<and> respond_to_probe (HP_ACK @ nonce) = None"
  using verify_acks_facts [OF assms, where cs = cs and rs = rs and v = "[]"] respond_probe(1) [OF assms] respond_probe(2) [of "hp_probe nonce" "HP_ACK @ nonce"]
  by (simp add: punch_candidates_verified_def)

theorem hole_punch_verified_witness:
  "snd (punch_candidates_verified (replicate 16 4) [sample_addr 1, sample_addr 2]
     [(HP_ACK @ replicate 16 4, sample_addr 2), (HP_ACK @ replicate 16 5, sample_addr 1)]) = [sample_addr 2] \<and>
    respond_to_probe (hp_probe (replicate 16 4)) = Some (HP_ACK @ replicate 16 4)"
proof -
  have len: "length (replicate 16 (4 :: u8)) = 16" by simp
  show ?thesis using hole_punch_verified [OF len, of "[sample_addr 1, sample_addr 2]"]
    by (simp add: punch_candidates_verified_def sample_addr_def)
qed

section \<open>Files\<close>

text \<open>An address format for the samples.\<close>

definition sample_fmt :: addr_fmt where
  "sample_fmt = \<lparr>af_show = (\<lambda>a. case a of SockV4 i p \<Rightarrow> ''10.0.0.1:4000'' | _ \<Rightarrow> ''[fe80]:1''),
     af_parse = (\<lambda>s. if s = ''10.0.0.1:4000'' then Some (sample_addr 1) else None)\<rparr>"

lemma sample_fmt_plain: "addr_plain sample_fmt (sample_addr 1)"
  by (simp add: addr_plain_def sample_fmt_def sample_addr_def plain_char_def)

text \<open>What \<open>save_state\<close> writes, \<open>load_state\<close> reads: the identifier of the node and all its contacts, in
  order, seen now, when their addresses are IPv4.\<close>

theorem state_roundtrip_ok:
  assumes "wf_id i" "list_all (\<lambda>c. wf_id (ct_id c) \<and> addr_plain f (ct_addr c)) cs"
  shows "load_state f now (save_state f i cs) = Done (Ok (i, map (\<lambda>c. contact_new now (ct_id c) (ct_addr c)) cs))"
  by (rule state_roundtrip [OF assms])

theorem state_roundtrip_ok_witness:
  "load_state sample_fmt 9 (save_state sample_fmt (sample_id 1) [sample_contact 1]) =
    Done (Ok (sample_id 1, map (\<lambda>c. contact_new 9 (ct_id c) (ct_addr c)) [sample_contact 1]))"
  by (rule state_roundtrip_ok) (simp_all add: sample_contact_def contact_new_def sample_fmt_plain)

text \<open>A contact with an IPv6 address ends the list for the reader: it and all contacts after it are lost
  at the next start.\<close>

theorem state_v6_truncates:
  assumes "wf_id i" "list_all (\<lambda>c. wf_id (ct_id c) \<and> addr_plain f (ct_addr c)) cs" "v6_text f (ct_addr c) x y"
  shows "load_state f now (save_state f i (cs @ c # ds)) = Done (Ok (i, map (\<lambda>c. contact_new now (ct_id c) (ct_addr c)) cs))"
  by (rule state_v6_lost [OF assms])

theorem state_v6_truncates_witness:
  "load_state sample_fmt 9 (save_state sample_fmt (sample_id 1) ([sample_contact 1] @
      contact_new 0 (sample_id 2) (SockV6 0xFE80 1 0 0) # [sample_contact 3])) =
    Done (Ok (sample_id 1, map (\<lambda>c. contact_new 9 (ct_id c) (ct_addr c)) [sample_contact 1]))"
  by (rule state_v6_truncates [where x = "''fe80''" and y = "'':1''"])
    (simp_all add: sample_contact_def contact_new_def sample_fmt_plain v6_text_def, simp add: sample_fmt_def)

text \<open>A configuration that is written is read back, but for the flag that is not written.\<close>

theorem config_roundtrip_ok:
  assumes "QUOTE \<notin> set (nc_ip c)" "QUOTE \<notin> set (nc_state_file c)" "list_all (addr_plain f) (nc_bootstrap c)"
  shows "config_from_json f (config_to_json f c) = Done (c\<lparr>nc_save_state_on_exit := True\<rparr>)"
  by (rule config_roundtrip [OF assms])

theorem config_roundtrip_ok_witness:
  "config_from_json sample_fmt (config_to_json sample_fmt (config_default\<lparr>nc_bootstrap := [sample_addr 1], nc_port := 1\<rparr>)) =
    Done ((config_default\<lparr>nc_bootstrap := [sample_addr 1], nc_port := 1\<rparr>)\<lparr>nc_save_state_on_exit := True\<rparr>)"
  by (rule config_roundtrip_ok) (simp_all add: config_default_def sample_fmt_plain)

end
